(* ===== verification/Rust_Std.thy ===== *)
theory Rust_Std
  imports Main "HOL-Library.Sublist" "HOL-Library.Word"
begin

text \<open>
  The shared prelude: the part of the Rust standard library the modelled code uses, and the
  generic lemmas on lists and strings the component theories share.

  A Rust \<^verbatim>\<open>char\<close> is a Unicode scalar value and a \<^verbatim>\<open>str\<close> is a sequence of them, so a character
  is its code point (\<open>uchar\<close>) and a string a list of code points (\<open>str\<close>). Where the code counts
  bytes (\<^verbatim>\<open>str::len\<close>, byte budgets) the model uses the UTF-8 length \<open>str_len\<close>; where the code
  slices at a byte offset the offset is always a character boundary, and the model slices the list
  of code points at the corresponding character position.

  \<^verbatim>\<open>usize\<close>, \<^verbatim>\<open>u64\<close> and \<^verbatim>\<open>i64\<close> are the 64-bit types of the supported targets; saturating operations
  are written out with their bound.
\<close>

section \<open>Theorem collections\<close>

named_theorems str_simps \<open>evaluation of string operations on literals\<close>
named_theorems sat_simps \<open>unfolding of saturating arithmetic\<close>

section \<open>Characters and strings\<close>

type_synonym uchar = nat
type_synonym str = "uchar list"
type_synonym u8 = "8 word"

definition uc :: "char \<Rightarrow> uchar" where
  "uc c = of_char c"

definition lit :: "string \<Rightarrow> str" where
  "lit s = map uc s"

lemma uc_inject [simp]: "uc c = uc d \<longleftrightarrow> c = d"
  by (simp add: uc_def)

lemma uc_less_256 [simp]: "uc c < 256"
  by (simp add: uc_def)

lemma lit_Nil [simp, str_simps]: "lit [] = []"
  by (simp add: lit_def)

lemma lit_Cons [str_simps]: "lit (c # cs) = uc c # lit cs"
  by (simp add: lit_def)

lemma lit_append: "lit (s @ t) = lit s @ lit t"
  by (simp add: lit_def)

lemma lit_inject [simp]: "lit s = lit t \<longleftrightarrow> s = t"
  by (auto simp: lit_def inj_map_eq_map inj_def)

lemma lit_eq_Nil [simp]: "lit s = [] \<longleftrightarrow> s = []"
  by (simp add: lit_def)

lemma length_lit [simp]: "length (lit s) = length s"
  by (simp add: lit_def)

definition newline :: uchar where
  "newline = 10"

definition is_whitespace :: "uchar \<Rightarrow> bool" where
  "is_whitespace c \<longleftrightarrow>
     (9 \<le> c \<and> c \<le> 13) \<or> c = 32 \<or> c = 0x85 \<or> c = 0xA0 \<or> c = 0x1680 \<or>
     (0x2000 \<le> c \<and> c \<le> 0x200A) \<or> c = 0x2028 \<or> c = 0x2029 \<or> c = 0x202F \<or>
     c = 0x205F \<or> c = 0x3000"

definition is_ascii_digit :: "uchar \<Rightarrow> bool" where
  "is_ascii_digit c \<longleftrightarrow> 48 \<le> c \<and> c \<le> 57"

definition is_ascii_alphanumeric :: "uchar \<Rightarrow> bool" where
  "is_ascii_alphanumeric c \<longleftrightarrow>
     is_ascii_digit c \<or> (65 \<le> c \<and> c \<le> 90) \<or> (97 \<le> c \<and> c \<le> 122)"

definition to_ascii_lowercase_char :: "uchar \<Rightarrow> uchar" where
  "to_ascii_lowercase_char c = (if 65 \<le> c \<and> c \<le> 90 then c + 32 else c)"

definition to_ascii_lowercase :: "str \<Rightarrow> str" where
  "to_ascii_lowercase s = map to_ascii_lowercase_char s"

text \<open>\<^verbatim>\<open>char::len_utf8\<close> and \<^verbatim>\<open>str::len\<close>.\<close>

definition len_utf8 :: "uchar \<Rightarrow> nat" where
  "len_utf8 c = (if c < 0x80 then 1 else if c < 0x800 then 2 else if c < 0x10000 then 3 else 4)"

definition str_len :: "str \<Rightarrow> nat" where
  "str_len s = sum_list (map len_utf8 s)"

lemma len_utf8_pos [simp]: "0 < len_utf8 c"
  by (simp add: len_utf8_def)

lemma str_len_Nil [simp]: "str_len [] = 0"
  and str_len_Cons [simp]: "str_len (c # s) = len_utf8 c + str_len s"
  and str_len_append [simp]: "str_len (s @ t) = str_len s + str_len t"
  by (simp_all add: str_len_def)

lemma str_len_eq_0 [simp]: "str_len s = 0 \<longleftrightarrow> s = []"
  by (cases s) auto

lemma length_le_str_len: "length s \<le> str_len s"
  by (induction s) (auto simp: len_utf8_def)

subsection \<open>Trimming\<close>

definition trim_start :: "str \<Rightarrow> str" where
  "trim_start s = dropWhile is_whitespace s"

definition trim_end :: "str \<Rightarrow> str" where
  "trim_end s = rev (dropWhile is_whitespace (rev s))"

definition trim :: "str \<Rightarrow> str" where
  "trim s = trim_end (trim_start s)"

definition trim_end_matches :: "uchar \<Rightarrow> str \<Rightarrow> str" where
  "trim_end_matches c s = rev (dropWhile ((=) c) (rev s))"

lemma trim_start_idem [simp]: "trim_start (trim_start s) = trim_start s"
  by (simp add: trim_start_def)

lemma trim_end_idem [simp]: "trim_end (trim_end s) = trim_end s"
  by (simp add: trim_end_def)

lemma trim_start_append: "trim_start l \<noteq> [] \<Longrightarrow> trim_start (l @ r) = trim_start l @ r"
  by (auto simp: trim_start_def dropWhile_append)

lemma trim_end_prefix: "prefix (trim_end s) s"
proof -
  have "suffix (dropWhile is_whitespace (rev s)) (rev s)"
    by (rule suffix_dropWhile)
  then show ?thesis by (simp add: trim_end_def suffix_to_prefix)
qed

lemma trim_end_Nil_iff: "trim_end s = [] \<longleftrightarrow> (\<forall>c \<in> set s. is_whitespace c)"
  by (simp add: trim_end_def)

lemma trim_start_Nil_iff: "trim_start s = [] \<longleftrightarrow> (\<forall>c \<in> set s. is_whitespace c)"
  by (simp add: trim_start_def)

lemma dropWhile_rev_commute:
  "dropWhile P (rev (dropWhile P (rev xs))) = rev (dropWhile P (rev (dropWhile P xs)))"
proof (cases "\<forall>x \<in> set xs. P x")
  case True
  then show ?thesis by (simp add: dropWhile_eq_Nil_conv [THEN iffD2])
next
  case False
  then obtain as b cs where xs: "xs = as @ b # cs" and as: "\<forall>a \<in> set as. P a" and b: "\<not> P b"
    using split_list_first_prop [of xs "\<lambda>x. \<not> P x"] by auto
  define r where "r = dropWhile P (rev cs @ [b])"
  have r: "rev r = b # rev (dropWhile P (rev cs)) \<or> rev r = [b]"
    using b by (auto simp: r_def dropWhile_append)
  have "dropWhile P (rev xs) = r @ rev as"
    using b by (simp add: xs r_def dropWhile_append)
  moreover have "dropWhile P (as @ rev r) = rev r"
    using as b r by (auto simp: dropWhile_append2)
  moreover have "dropWhile P xs = b # cs"
    using as b by (simp add: xs dropWhile_append2)
  ultimately show ?thesis by (simp add: r_def)
qed

lemma trim_start_trim_end: "trim_start (trim_end s) = trim s"
  by (simp add: trim_start_def trim_end_def trim_def dropWhile_rev_commute)

lemma trim_of_trim_end [simp]: "trim (trim_end s) = trim s"
  unfolding trim_def by (metis trim_def trim_end_idem trim_start_trim_end)

lemma trim_idem [simp]: "trim (trim s) = trim s"
  by (metis trim_def trim_of_trim_end trim_start_idem trim_start_trim_end)

subsection \<open>Prefixes, suffixes and substrings\<close>

definition strip_prefix :: "'a list \<Rightarrow> 'a list \<Rightarrow> 'a list option" where
  "strip_prefix p s = (if take (length p) s = p then Some (drop (length p) s) else None)"

definition strip_suffix :: "'a list \<Rightarrow> 'a list \<Rightarrow> 'a list option" where
  "strip_suffix p s =
     (if length p \<le> length s \<and> drop (length s - length p) s = p
      then Some (take (length s - length p) s) else None)"

definition starts_with :: "'a list \<Rightarrow> 'a list \<Rightarrow> bool" where
  "starts_with s p \<longleftrightarrow> take (length p) s = p"

definition ends_with :: "'a list \<Rightarrow> 'a list \<Rightarrow> bool" where
  "ends_with s p \<longleftrightarrow> length p \<le> length s \<and> drop (length s - length p) s = p"

lemma starts_with_prefix: "starts_with s p \<longleftrightarrow> prefix p s"
  unfolding starts_with_def prefix_def
  by (metis append_eq_conv_conj append_take_drop_id)

lemma ends_with_suffix: "ends_with s p \<longleftrightarrow> suffix p s"
proof
  assume "ends_with s p"
  then show "suffix p s"
    unfolding ends_with_def suffix_def by (metis append_take_drop_id)
qed (auto simp: ends_with_def suffix_def)

lemma strip_prefix_Some: "strip_prefix p s = Some t \<longleftrightarrow> s = p @ t"
  unfolding strip_prefix_def by (auto simp: append_eq_conv_conj) (metis append_take_drop_id)

lemma strip_prefix_append [simp]: "strip_prefix p (p @ t) = Some t"
  by (simp add: strip_prefix_Some)

lemma strip_suffix_Some: "strip_suffix p s = Some t \<longleftrightarrow> s = t @ p"
proof
  assume "strip_suffix p s = Some t"
  then show "s = t @ p"
    unfolding strip_suffix_def by (auto split: if_splits) (metis append_take_drop_id)
qed (simp add: strip_suffix_def)

text \<open>\<^verbatim>\<open>str::find\<close> with a string pattern: the position of the first occurrence.\<close>

fun str_find :: "'a list \<Rightarrow> 'a list \<Rightarrow> nat option" where
  "str_find s p =
     (if starts_with s p then Some 0
      else (case s of [] \<Rightarrow> None | _ # t \<Rightarrow> map_option Suc (str_find t p)))"

declare str_find.simps [simp del]

definition str_contains :: "'a list \<Rightarrow> 'a list \<Rightarrow> bool" where
  "str_contains s p \<longleftrightarrow> str_find s p \<noteq> None"

lemma str_find_Nil: "str_find [] p = (if p = [] then Some 0 else None)"
  by (subst str_find.simps) (simp add: starts_with_prefix)

lemma str_find_Cons:
  "str_find (x # t) p = (if starts_with (x # t) p then Some 0 else map_option Suc (str_find t p))"
  by (subst str_find.simps) simp

lemma str_find_Some_iff:
  "str_find s p = Some i \<longleftrightarrow>
     i \<le> length s \<and> prefix p (drop i s) \<and> (\<forall>j < i. \<not> prefix p (drop j s))"
proof (induction s arbitrary: i)
  case Nil
  then show ?case by (auto simp: str_find_Nil)
next
  case (Cons x t)
  show ?case
  proof (cases i)
    case 0
    then show ?thesis by (auto simp: str_find_Cons starts_with_prefix)
  next
    case (Suc k)
    have "(\<forall>j < Suc k. \<not> prefix p (drop j (x # t))) \<longleftrightarrow>
        \<not> prefix p (x # t) \<and> (\<forall>j < k. \<not> prefix p (drop j t))"
      by (auto simp: less_Suc_eq_0_disj)
    with Suc show ?thesis by (auto simp: str_find_Cons starts_with_prefix Cons.IH)
  qed
qed

lemma str_find_None_iff: "str_find s p = None \<longleftrightarrow> (\<forall>i \<le> length s. \<not> prefix p (drop i s))"
proof (induction s)
  case Nil
  then show ?case by (auto simp: str_find_Nil)
next
  case (Cons x t)
  have "(\<forall>i \<le> Suc (length t). \<not> prefix p (drop i (x # t))) \<longleftrightarrow>
      \<not> prefix p (x # t) \<and> (\<forall>i \<le> length t. \<not> prefix p (drop i t))"
    by (metis Suc_le_mono drop0 drop_Suc_Cons le0 not0_implies_Suc)
  with Cons show ?case by (auto simp: str_find_Cons starts_with_prefix)
qed

subsection \<open>Splitting and joining\<close>

text \<open>\<^verbatim>\<open>str::split\<close> on a character, \<^verbatim>\<open>[String]::join\<close> and \<^verbatim>\<open>str::lines\<close>.\<close>

fun split_on :: "'a \<Rightarrow> 'a list \<Rightarrow> 'a list list" where
  "split_on c [] = [[]]"
| "split_on c (x # xs) =
     (if x = c then [] # split_on c xs
      else (case split_on c xs of [] \<Rightarrow> [[x]] | y # ys \<Rightarrow> (x # y) # ys))"

fun join :: "'a list \<Rightarrow> 'a list list \<Rightarrow> 'a list" where
  "join sep [] = []"
| "join sep [x] = x"
| "join sep (x # y # ys) = x @ sep @ join sep (y # ys)"

text \<open>The pieces of \<^verbatim>\<open>split_inclusive\<close> at line feeds: the terminated ones and the last, unterminated one.\<close>

definition chomp_cr :: "str \<Rightarrow> str" where
  "chomp_cr l = (case strip_suffix [13] l of None \<Rightarrow> l | Some l' \<Rightarrow> l')"

definition lines :: "str \<Rightarrow> str list" where
  "lines s = (let ps = split_on newline s in
     map chomp_cr (butlast ps) @ (if last ps = [] then [] else [last ps]))"

lemma split_on_not_Nil [simp]: "split_on c s \<noteq> []"
  by (induction s) (auto split: list.splits)

lemma join_split_on: "join [c] (split_on c s) = s"
proof (induction s)
  case (Cons x xs)
  then show ?case
    by (cases "split_on c xs"; cases "tl (split_on c xs)") auto
qed simp

lemma split_on_no_sep: "\<forall>p \<in> set (split_on c s). c \<notin> set p"
  by (induction s) (auto split: list.splits)

lemma split_on_single: "c \<notin> set s \<Longrightarrow> split_on c s = [s]"
  by (induction s) auto

lemma split_on_append_sep: "c \<notin> set p \<Longrightarrow> split_on c (p @ c # s) = p # split_on c s"
  by (induction p) auto

lemma split_on_join:
  assumes "\<forall>p \<in> set ps. c \<notin> set p" "ps \<noteq> []"
  shows "split_on c (join [c] ps) = ps"
  using assms by (induction "[c]" ps rule: join.induct) (auto simp: split_on_single split_on_append_sep)

lemma split_on_append: "split_on c (s @ c # t) = split_on c s @ split_on c t"
  by (induction s) (auto split: list.splits)

lemma last_split_on: "last (split_on c s) = [] \<longleftrightarrow> s = [] \<or> last s = c"
proof (induction s)
  case (Cons x xs)
  then show ?case
    using join_split_on [of c xs] by (cases "split_on c xs") (auto split: if_splits)
qed simp

lemma join_snoc: "xs \<noteq> [] \<Longrightarrow> join sep (xs @ [x]) = join sep xs @ sep @ x"
  by (induction sep xs rule: join.induct) auto

section \<open>Results\<close>

lemma map_sum_Inr_iff: "map_sum f g x = Inr c \<longleftrightarrow> (\<exists>y. x = Inr y \<and> c = g y)"
  by (cases x) auto

section \<open>Integers\<close>

definition USIZE_MAX :: nat where
  "USIZE_MAX = 2 ^ 64 - 1"

definition U64_MAX :: nat where
  "U64_MAX = 2 ^ 64 - 1"

definition I64_MAX :: int where
  "I64_MAX = 2 ^ 63 - 1"

definition I64_MIN :: int where
  "I64_MIN = - (2 ^ 63)"

definition usat_add :: "nat \<Rightarrow> nat \<Rightarrow> nat" where
  "usat_add a b = min USIZE_MAX (a + b)"

definition usat_mul :: "nat \<Rightarrow> nat \<Rightarrow> nat" where
  "usat_mul a b = min USIZE_MAX (a * b)"

definition usat_sub :: "nat \<Rightarrow> nat \<Rightarrow> nat" where
  "usat_sub a b = a - b"

definition isat_add :: "int \<Rightarrow> int \<Rightarrow> int" where
  "isat_add a b = max I64_MIN (min I64_MAX (a + b))"

definition isat_sub :: "int \<Rightarrow> int \<Rightarrow> int" where
  "isat_sub a b = max I64_MIN (min I64_MAX (a - b))"

lemmas [sat_simps] = usat_add_def usat_mul_def usat_sub_def isat_add_def isat_sub_def

text \<open>Decimal output of an unsigned integer.\<close>

fun show_nat :: "nat \<Rightarrow> str" where
  "show_nat n = (if n < 10 then [48 + n] else show_nat (n div 10) @ [48 + n mod 10])"

declare show_nat.simps [simp del]

text \<open>What iterating over an \<^verbatim>\<open>Option\<close> yields.\<close>

primrec option_list :: "'a option \<Rightarrow> 'a list" where
  "option_list None = []"
| "option_list (Some x) = [x]"

section \<open>Evaluation\<close>

text \<open>Unfolding the string operations on literals, for the concrete instances of the theorems.\<close>

lemmas str_eval = lit_def uc_def newline_def trim_def trim_start_def trim_end_def is_whitespace_def
  strip_prefix_def strip_suffix_def starts_with_def ends_with_def str_find.simps str_contains_def
  lines_def chomp_cr_def is_ascii_digit_def

end
