(* ===== verification/Seek_Sequence.thy ===== *)
theory Seek_Sequence
  imports Rust_Std
begin

text \<open>
  \<^verbatim>\<open>codex-rs/apply-patch/src/seek_sequence.rs\<close>: locating a block of pattern lines in a file with
  four passes of decreasing strictness (exact, trailing whitespace ignored, surrounding whitespace
  ignored, typographic punctuation normalised). Each pass compares lines by a key; the locale
  \<open>coarser_key\<close> states what one pass owes the next, and is interpreted on the three steps of the
  code's chain of keys.
\<close>

section \<open>The source\<close>

definition normalise_char :: "uchar \<Rightarrow> uchar" where
  "normalise_char c =
     (if c \<in> {0x2010, 0x2011, 0x2012, 0x2013, 0x2014, 0x2015, 0x2212} then 45
      else if c \<in> {0x2018, 0x2019, 0x201A, 0x201B} then 39
      else if c \<in> {0x201C, 0x201D, 0x201E, 0x201F} then 34
      else if c \<in> {0x00A0, 0x2002, 0x2003, 0x2004, 0x2005, 0x2006, 0x2007, 0x2008, 0x2009,
                   0x200A, 0x202F, 0x205F, 0x3000} then 32
      else c)"

definition normalise :: "str \<Rightarrow> str" where
  "normalise s = map normalise_char (trim s)"

text \<open>One comparison of a window of \<open>lines\<close> with the pattern, and one pass over the windows.\<close>

definition window_matches :: "(str \<Rightarrow> str) \<Rightarrow> str list \<Rightarrow> str list \<Rightarrow> nat \<Rightarrow> bool" where
  "window_matches key ls pat i \<longleftrightarrow>
     list_all2 (\<lambda>l p. key l = key p) (take (length pat) (drop i ls)) pat"

definition seek_pass :: "(str \<Rightarrow> str) \<Rightarrow> str list \<Rightarrow> str list \<Rightarrow> nat \<Rightarrow> nat option" where
  "seek_pass key ls pat search_start =
     List.find (window_matches key ls pat) [search_start..<Suc (usat_sub (length ls) (length pat))]"

definition seek_sequence :: "str list \<Rightarrow> str list \<Rightarrow> nat \<Rightarrow> bool \<Rightarrow> nat option" where
  "seek_sequence ls pat start eof =
     (if pat = [] then Some start
      else if length ls < length pat then None
      else
        let search_start =
              (if eof \<and> length pat \<le> length ls then length ls - length pat else start)
        in case seek_pass id ls pat search_start of
             Some i \<Rightarrow> Some i
           | None \<Rightarrow> (case seek_pass trim_end ls pat search_start of
               Some i \<Rightarrow> Some i
             | None \<Rightarrow> (case seek_pass trim ls pat search_start of
                 Some i \<Rightarrow> Some i
               | None \<Rightarrow> seek_pass normalise ls pat search_start)))"

section \<open>Passes\<close>

lemma find_upt_Some_iff:
  "List.find P [a..<b] = Some i \<longleftrightarrow> a \<le> i \<and> i < b \<and> P i \<and> (\<forall>j. a \<le> j \<and> j < i \<longrightarrow> \<not> P j)"
proof
  assume "List.find P [a..<b] = Some i"
  then obtain n where n: "n < b - a" "P (a + n)" "i = a + n" "\<forall>j < n. \<not> P (a + j)"
    by (auto simp: find_Some_iff)
  then have "\<not> P j" if "a \<le> j" "j < i" for j
    using that n(4) [rule_format, of "j - a"] by auto
  with n show "a \<le> i \<and> i < b \<and> P i \<and> (\<forall>j. a \<le> j \<and> j < i \<longrightarrow> \<not> P j)" by auto
next
  assume "a \<le> i \<and> i < b \<and> P i \<and> (\<forall>j. a \<le> j \<and> j < i \<longrightarrow> \<not> P j)"
  then show "List.find P [a..<b] = Some i"
    by (auto simp: find_Some_iff intro!: exI [of _ "i - a"])
qed

lemma find_upt_None_iff: "List.find P [a..<b] = None \<longleftrightarrow> (\<forall>i. a \<le> i \<and> i < b \<longrightarrow> \<not> P i)"
  by (auto simp: find_None_iff)

lemma seek_pass_Some_iff:
  "seek_pass key ls pat a = Some i \<longleftrightarrow>
     a \<le> i \<and> i \<le> length ls - length pat \<and> window_matches key ls pat i \<and>
     (\<forall>j. a \<le> j \<and> j < i \<longrightarrow> \<not> window_matches key ls pat j)"
  unfolding seek_pass_def usat_sub_def find_upt_Some_iff by (simp add: less_Suc_eq_le)

lemma seek_pass_None_iff:
  "seek_pass key ls pat a = None \<longleftrightarrow>
     (\<forall>i. a \<le> i \<and> i \<le> length ls - length pat \<longrightarrow> \<not> window_matches key ls pat i)"
  unfolding seek_pass_def usat_sub_def find_upt_None_iff by (simp add: less_Suc_eq_le)

lemma window_matches_id: "window_matches id ls pat i \<longleftrightarrow> take (length pat) (drop i ls) = pat"
  by (simp add: window_matches_def list.rel_eq)

lemma window_matches_length: "window_matches key ls pat i \<Longrightarrow> length pat \<le> length ls - i"
  by (auto simp: window_matches_def dest: list_all2_lengthD)

section \<open>The chain of keys\<close>

locale coarser_key =
  fixes k :: "str \<Rightarrow> str" and k' :: "str \<Rightarrow> str"
  assumes coarser: "k s = k t \<Longrightarrow> k' s = k' t"
begin

lemma window_mono: "window_matches k ls pat i \<Longrightarrow> window_matches k' ls pat i"
  unfolding window_matches_def by (erule list_all2_mono) (rule coarser)

lemma pass_mono: "seek_pass k ls pat a = Some i \<Longrightarrow> \<exists>j \<le> i. seek_pass k' ls pat a = Some j"
proof -
  assume *: "seek_pass k ls pat a = Some i"
  then have "seek_pass k' ls pat a \<noteq> None"
    by (auto simp: seek_pass_None_iff seek_pass_Some_iff intro: window_mono)
  then obtain j where j: "seek_pass k' ls pat a = Some j" by blast
  with * have "j \<le> i"
    by (meson leI seek_pass_Some_iff window_mono)
  with j show ?thesis by blast
qed

lemma none_mono: "seek_pass k' ls pat a = None \<Longrightarrow> seek_pass k ls pat a = None"
  by (metis not_None_eq pass_mono)

end

interpretation exact_rstrip: coarser_key id trim_end
  by unfold_locales simp

interpretation rstrip_trim: coarser_key trim_end trim
  by unfold_locales (metis trim_of_trim_end)

interpretation trim_normal: coarser_key trim normalise
  by unfold_locales (simp add: normalise_def)

lemmas chain_none = trim_normal.none_mono rstrip_trim.none_mono exact_rstrip.none_mono
lemmas chain_window = exact_rstrip.window_mono rstrip_trim.window_mono trim_normal.window_mono

section \<open>Correctness\<close>

text \<open>Where the search starts: the last possible window for an end-of-file chunk.\<close>

definition search_origin :: "str list \<Rightarrow> str list \<Rightarrow> nat \<Rightarrow> bool \<Rightarrow> nat" where
  "search_origin ls pat start eof = (if eof then length ls - length pat else start)"

lemma seek_sequence_passes:
  assumes "pat \<noteq> []" "length pat \<le> length ls"
  shows "seek_sequence ls pat start eof =
    (let a = search_origin ls pat start eof in
     case seek_pass id ls pat a of Some i \<Rightarrow> Some i | None \<Rightarrow>
     (case seek_pass trim_end ls pat a of Some i \<Rightarrow> Some i | None \<Rightarrow>
     (case seek_pass trim ls pat a of Some i \<Rightarrow> Some i | None \<Rightarrow> seek_pass normalise ls pat a)))"
  using assms by (simp add: seek_sequence_def search_origin_def Let_def)

lemma seek_sequence_Nil [simp]: "seek_sequence ls [] start eof = Some start"
  by (simp add: seek_sequence_def)

lemma seek_sequence_too_long: "length ls < length pat \<Longrightarrow> seek_sequence ls pat start eof = None"
  by (auto simp: seek_sequence_def)

lemma seek_sequence_Some_length:
  "seek_sequence ls pat start eof = Some i \<Longrightarrow> pat \<noteq> [] \<Longrightarrow> length pat \<le> length ls"
  by (metis not_le option.distinct(1) seek_sequence_too_long)

lemma seek_sequence_window:
  assumes "seek_sequence ls pat start eof = Some i" "pat \<noteq> []"
  shows "search_origin ls pat start eof \<le> i" "i + length pat \<le> length ls"
    "window_matches normalise ls pat i"
proof -
  have len: "length pat \<le> length ls"
    using assms by (rule seek_sequence_Some_length)
  then obtain key where "seek_pass key ls pat (search_origin ls pat start eof) = Some i"
    and key: "key \<in> {id, trim_end, trim, normalise}"
    using assms by (auto simp: seek_sequence_passes Let_def split: option.splits)
  then have *: "search_origin ls pat start eof \<le> i" "i \<le> length ls - length pat"
      "window_matches key ls pat i"
    by (auto simp: seek_pass_Some_iff)
  show "search_origin ls pat start eof \<le> i" by fact
  show "i + length pat \<le> length ls" using * len by simp
  show "window_matches normalise ls pat i"
    using key *(3) by (auto intro: chain_window)
qed

lemma seek_sequence_None_iff:
  assumes "pat \<noteq> []" "length pat \<le> length ls"
  shows "seek_sequence ls pat start eof = None \<longleftrightarrow>
    seek_pass normalise ls pat (search_origin ls pat start eof) = None"
  using assms
  by (auto simp: seek_sequence_passes Let_def split: option.splits)
    (metis chain_none not_None_eq)+

section \<open>Properties\<close>

text \<open>The keys of the four passes, the strictest first.\<close>

definition match_keys :: "(str \<Rightarrow> str) list" where
  "match_keys = [id, trim_end, trim, normalise]"

lemma seek_sequence_strictest:
  assumes "seek_sequence ls pat start eof = Some i" "pat \<noteq> []"
  shows "\<exists>stricter key looser. match_keys = stricter @ key # looser \<and>
    seek_pass key ls pat (search_origin ls pat start eof) = Some i \<and>
    (\<forall>k \<in> set stricter. seek_pass k ls pat (search_origin ls pat start eof) = None)"
proof -
  let ?p = "\<lambda>k. seek_pass k ls pat (search_origin ls pat start eof)"
  have len: "length pat \<le> length ls" using assms by (rule seek_sequence_Some_length)
  have "?p id = Some i \<or> ?p id = None \<and> ?p trim_end = Some i \<or> ?p id = None \<and> ?p trim_end = None \<and> ?p trim = Some i \<or>
      ?p id = None \<and> ?p trim_end = None \<and> ?p trim = None \<and> ?p normalise = Some i"
    using assms(1) unfolding seek_sequence_passes [OF assms(2) len] Let_def by (auto split: option.splits)
  moreover have "match_keys = [] @ id # [trim_end, trim, normalise]" "match_keys = [id] @ trim_end # [trim, normalise]"
    "match_keys = [id, trim_end] @ trim # [normalise]" "match_keys = [id, trim_end, trim] @ normalise # []"
    by (simp_all add: match_keys_def)
  ultimately show ?thesis by (metis empty_iff empty_set set_ConsD)
qed



text \<open>
  An exact occurrence has priority: when some window at or after the search origin equals the
  pattern verbatim, the result is the first verbatim window, whatever looser matches precede it.
\<close>
theorem seek_sequence_exact_first:
  assumes "pat \<noteq> []" and "search_origin ls pat start eof \<le> i"
    and "i + length pat \<le> length ls" and "take (length pat) (drop i ls) = pat"
  shows "\<exists>j \<le> i. seek_sequence ls pat start eof = Some j \<and> take (length pat) (drop j ls) = pat \<and>
    (\<forall>m. search_origin ls pat start eof \<le> m \<and> m < j \<longrightarrow> take (length pat) (drop m ls) \<noteq> pat)"
proof -
  have "seek_pass id ls pat (search_origin ls pat start eof) \<noteq> None"
    using assms by (auto simp: seek_pass_None_iff window_matches_id)
  then obtain j where j: "seek_pass id ls pat (search_origin ls pat start eof) = Some j" by blast
  then have "seek_sequence ls pat start eof = Some j"
    using assms by (simp add: seek_sequence_passes)
  moreover from j assms(2,4) have "j \<le> i"
    by (meson leI seek_pass_Some_iff window_matches_id)
  ultimately show ?thesis
    using j by (auto simp: seek_pass_Some_iff window_matches_id)
qed

theorem seek_sequence_exact_first_witness:
  "\<exists>j \<le> 1. seek_sequence [lit '' b'', lit ''b''] [lit ''b''] 0 False = Some j \<and>
     take 1 (drop j [lit '' b'', lit ''b'']) = [lit ''b'']"
  using seek_sequence_exact_first [of "[lit ''b'']" "[lit '' b'', lit ''b'']" 0 False 1]
  by (auto simp: search_origin_def)

text \<open>
  With \<open>eof\<close> set, the only window ever considered is the last one of the file, whatever
  \<open>start\<close> is: there is no fallback search from \<open>start\<close>, and the match may lie before \<open>start\<close>.
\<close>
theorem seek_sequence_eof_last_window:
  assumes "pat \<noteq> []"
  shows "seek_sequence ls pat start True =
    (if length pat \<le> length ls \<and> window_matches normalise ls pat (length ls - length pat)
     then Some (length ls - length pat) else None)"
proof (cases "seek_sequence ls pat start True")
  case (Some i)
  note w = seek_sequence_window [OF Some assms]
  then have "i = length ls - length pat" by (simp add: search_origin_def)
  with Some w show ?thesis by simp
next
  case None
  then show ?thesis
    using assms by (auto simp: seek_sequence_None_iff seek_pass_None_iff search_origin_def)
qed

theorem seek_sequence_eof_last_window_witness:
  "seek_sequence [lit ''a'', lit ''b''] [lit ''a''] 0 True = None \<and>
   seek_sequence [lit ''a'', lit ''b''] [lit ''b''] 2 True = Some 1"
  using seek_sequence_eof_last_window [of "[lit ''a'']" "[lit ''a'', lit ''b'']" 0]
    seek_sequence_eof_last_window [of "[lit ''b'']" "[lit ''a'', lit ''b'']" 2]
  by (simp add: window_matches_def normalise_def normalise_char_def str_eval)

end
