(* ===== verification/Patch_Parser.thy ===== *)
theory Patch_Parser
  imports Rust_Std
begin

text \<open>
  \<^verbatim>\<open>codex-rs/apply-patch/src/parser.rs\<close>: the parser of the \<^verbatim>\<open>apply_patch\<close> format, in its strict,
  lenient (here-document) and streaming modes, with every error branch, its message and its line
  number. The second half gives the format's grammar as a printer and shows that printed patches
  parse back, that parsing consumes every line it reports, and that the three modes agree.
\<close>

section \<open>Data\<close>

definition BEGIN_PATCH_MARKER :: str where
  "BEGIN_PATCH_MARKER = lit ''*** Begin Patch''"
definition END_PATCH_MARKER :: str where
  "END_PATCH_MARKER = lit ''*** End Patch''"
definition ADD_FILE_MARKER :: str where
  "ADD_FILE_MARKER = lit ''*** Add File: ''"
definition DELETE_FILE_MARKER :: str where
  "DELETE_FILE_MARKER = lit ''*** Delete File: ''"
definition UPDATE_FILE_MARKER :: str where
  "UPDATE_FILE_MARKER = lit ''*** Update File: ''"
definition MOVE_TO_MARKER :: str where
  "MOVE_TO_MARKER = lit ''*** Move to: ''"
definition EOF_MARKER :: str where
  "EOF_MARKER = lit ''*** End of File''"
definition CHANGE_CONTEXT_MARKER :: str where
  "CHANGE_CONTEXT_MARKER = lit ''@@ ''"
definition EMPTY_CHANGE_CONTEXT_MARKER :: str where
  "EMPTY_CHANGE_CONTEXT_MARKER = lit ''@@''"

definition PARSE_IN_STRICT_MODE :: bool where
  "PARSE_IN_STRICT_MODE = False"

datatype parse_error =
  InvalidPatchError str
| InvalidHunkError (message: str) (line_number: nat)

record update_file_chunk =
  change_context :: "str option"
  old_lines :: "str list"
  new_lines :: "str list"
  is_end_of_file :: bool

type_synonym path = str

datatype hunk =
  AddFile path str
| DeleteFile path
| UpdateFile path "path option" "update_file_chunk list"

record apply_patch_args =
  patch :: str
  hunks :: "hunk list"
  workdir :: "str option"

datatype parse_mode = Strict | Lenient | Streaming

text \<open>\<^verbatim>\<open>Hunk::path\<close>: the path a hunk affects, the move destination for a rename.\<close>

fun hunk_path :: "hunk \<Rightarrow> path" where
  "hunk_path (AddFile p _) = p"
| "hunk_path (DeleteFile p) = p"
| "hunk_path (UpdateFile _ (Some p) _) = p"
| "hunk_path (UpdateFile p None _) = p"

section \<open>Boundaries\<close>

definition check_start_and_end_lines_strict ::
  "str option \<Rightarrow> str option \<Rightarrow> parse_error + unit" where
  "check_start_and_end_lines_strict first_line last_line =
     (case (map_option trim first_line, map_option trim last_line) of
        (Some f, Some l) \<Rightarrow>
          if f = BEGIN_PATCH_MARKER \<and> l = END_PATCH_MARKER then Inr ()
          else if f \<noteq> BEGIN_PATCH_MARKER then
            Inl (InvalidPatchError (lit ''The first line of the patch must be '' @ [39] @
              BEGIN_PATCH_MARKER @ [39]))
          else Inl (InvalidPatchError (lit ''The last line of the patch must be '' @ [39] @
              END_PATCH_MARKER @ [39]))
      | (Some f, None) \<Rightarrow>
          if f \<noteq> BEGIN_PATCH_MARKER then
            Inl (InvalidPatchError (lit ''The first line of the patch must be '' @ [39] @
              BEGIN_PATCH_MARKER @ [39]))
          else Inl (InvalidPatchError (lit ''The last line of the patch must be '' @ [39] @
              END_PATCH_MARKER @ [39]))
      | (None, _) \<Rightarrow> Inl (InvalidPatchError (lit ''The last line of the patch must be '' @ [39] @
              END_PATCH_MARKER @ [39])))"

definition check_patch_boundaries_strict ::
  "str list \<Rightarrow> parse_error + (str list \<times> str list)" where
  "check_patch_boundaries_strict ls =
     (let (first_line, last_line) =
        (case ls of [] \<Rightarrow> (None, None) | [f] \<Rightarrow> (Some f, Some f) | f # _ \<Rightarrow> (Some f, Some (last ls)))
      in case check_start_and_end_lines_strict first_line last_line of
           Inl e \<Rightarrow> Inl e
         | Inr _ \<Rightarrow> Inr (ls, butlast (tl ls)))"

definition heredoc_openers :: "str list" where
  "heredoc_openers = [lit ''<<EOF'', lit ''<<'' @ [39] @ lit ''EOF'' @ [39],
     lit ''<<'' @ [34] @ lit ''EOF'' @ [34]]"

definition check_patch_boundaries_lenient ::
  "str list \<Rightarrow> parse_error + (str list \<times> str list)" where
  "check_patch_boundaries_lenient original_lines =
     (case check_patch_boundaries_strict original_lines of
        Inr r \<Rightarrow> Inr r
      | Inl original_parse_error \<Rightarrow>
          (case original_lines of
             first # _ # _ \<Rightarrow>
               if first \<in> set heredoc_openers \<and> ends_with (last original_lines) (lit ''EOF'') \<and>
                  4 \<le> length original_lines
               then check_patch_boundaries_strict (butlast (tl original_lines))
               else Inl original_parse_error
           | _ \<Rightarrow> Inl original_parse_error))"

definition check_patch_boundaries_streaming ::
  "str list \<Rightarrow> parse_error + (str list \<times> str list)" where
  "check_patch_boundaries_streaming original_lines =
     (case original_lines of
        first # rest \<Rightarrow>
          if trim first = BEGIN_PATCH_MARKER then
            Inr (original_lines,
              if trim (last original_lines) = END_PATCH_MARKER then butlast rest else rest)
          else check_patch_boundaries_strict original_lines
      | [] \<Rightarrow> check_patch_boundaries_strict original_lines)"

section \<open>Chunks of an update hunk\<close>

definition no_lines_msg :: str where
  "no_lines_msg = lit ''Update hunk does not contain any lines''"

definition unexpected_line_msg :: "str \<Rightarrow> str" where
  "unexpected_line_msg l = lit ''Unexpected line found in update hunk: '' @ [39] @ l @ [39] @
     lit ''. Every line should start with '' @ [39] @ lit '' '' @ [39] @ lit '' (context line), '' @
     [39] @ lit ''+'' @ [39] @ lit '' (added line), or '' @ [39] @ lit ''-'' @ [39] @
     lit '' (removed line)''"

definition expected_context_msg :: "str \<Rightarrow> str" where
  "expected_context_msg l = lit ''Expected update hunk to start with a @@ context marker, got: '' @
     [39] @ l @ [39]"

definition empty_update_msg :: "str \<Rightarrow> str" where
  "empty_update_msg p = lit ''Update file hunk for path '' @ [39] @ p @ [39] @ lit '' is empty''"

definition invalid_header_msg :: "str \<Rightarrow> str" where
  "invalid_header_msg l = [39] @ l @ [39] @
     lit '' is not a valid hunk header. Valid hunk headers: '' @
     [39] @ lit ''*** Add File: {path}'' @ [39] @ lit '', '' @
     [39] @ lit ''*** Delete File: {path}'' @ [39] @ lit '', '' @
     [39] @ lit ''*** Update File: {path}'' @ [39]"

text \<open>The loop over \<^verbatim>\<open>&lines[start_index..]\<close>: \<open>n\<close> is \<open>parsed_lines\<close>.\<close>

fun parse_chunk_lines ::
  "nat \<Rightarrow> str list \<Rightarrow> update_file_chunk \<Rightarrow> nat \<Rightarrow> parse_error + (update_file_chunk \<times> nat)" where
  "parse_chunk_lines ln [] chunk n = Inr (chunk, n)"
| "parse_chunk_lines ln (l # ls) chunk n =
     (if l = EOF_MARKER then
        if n = 0 then Inl (InvalidHunkError no_lines_msg (ln + 1))
        else Inr (chunk\<lparr>is_end_of_file := True\<rparr>, n + 1)
      else (case l of
          [] \<Rightarrow> parse_chunk_lines ln ls
            (chunk\<lparr>old_lines := old_lines chunk @ [[]], new_lines := new_lines chunk @ [[]]\<rparr>) (n + 1)
        | c # t \<Rightarrow>
            if c = uc CHR '' '' then parse_chunk_lines ln ls
              (chunk\<lparr>old_lines := old_lines chunk @ [t], new_lines := new_lines chunk @ [t]\<rparr>) (n + 1)
            else if c = uc CHR ''+'' then parse_chunk_lines ln ls
              (chunk\<lparr>new_lines := new_lines chunk @ [t]\<rparr>) (n + 1)
            else if c = uc CHR ''-'' then parse_chunk_lines ln ls
              (chunk\<lparr>old_lines := old_lines chunk @ [t]\<rparr>) (n + 1)
            else if n = 0 then Inl (InvalidHunkError (unexpected_line_msg l) (ln + 1))
            else Inr (chunk, n)))"

text \<open>The optional \<^verbatim>\<open>@@\<close> marker: the change context and \<open>start_index\<close>.\<close>

definition parse_chunk_header ::
  "str \<Rightarrow> nat \<Rightarrow> bool \<Rightarrow> parse_error + (str option \<times> nat)" where
  "parse_chunk_header first ln allow_missing_context =
     (if first = EMPTY_CHANGE_CONTEXT_MARKER then Inr (None, 1)
      else (case strip_prefix CHANGE_CONTEXT_MARKER first of
          Some context \<Rightarrow> Inr (Some context, 1)
        | None \<Rightarrow>
            if \<not> allow_missing_context
            then Inl (InvalidHunkError (expected_context_msg first) ln)
            else Inr (None, 0)))"

definition parse_update_file_chunk ::
  "str list \<Rightarrow> nat \<Rightarrow> bool \<Rightarrow> parse_error + (update_file_chunk \<times> nat)" where
  "parse_update_file_chunk ls ln allow_missing_context =
     (case ls of
        [] \<Rightarrow> Inl (InvalidHunkError no_lines_msg ln)
      | first # _ \<Rightarrow>
          (case parse_chunk_header first ln allow_missing_context of
             Inl e \<Rightarrow> Inl e
           | Inr (change_ctx, start_index) \<Rightarrow>
               if length ls \<le> start_index then Inl (InvalidHunkError no_lines_msg (ln + 1))
               else (case parse_chunk_lines ln (drop start_index ls)
                   \<lparr>change_context = change_ctx, old_lines = [], new_lines = [],
                    is_end_of_file = False\<rparr> 0 of
                   Inl e \<Rightarrow> Inl e
                 | Inr (chunk, parsed) \<Rightarrow> Inr (chunk, parsed + start_index))))"

text \<open>Every successfully parsed chunk consumes at least one and at most all lines.\<close>

lemma parse_chunk_lines_count:
  "parse_chunk_lines ln ls chunk n = Inr (chunk', m) \<Longrightarrow> n \<le> m \<and> m \<le> n + length ls"
  by (induction ln ls chunk n rule: parse_chunk_lines.induct)
    (fastforce split: if_splits list.splits)+

lemma parse_chunk_lines_pos:
  "parse_chunk_lines ln (l # ls) chunk 0 = Inr (chunk', m) \<Longrightarrow> 0 < m"
  by (auto split: if_splits list.splits dest!: parse_chunk_lines_count)

lemma parse_update_file_chunk_InrE:
  assumes "parse_update_file_chunk ls ln b = Inr (chunk, k)"
  obtains first rest c i m where "ls = first # rest" "parse_chunk_header first ln b = Inr (c, i)"
    "i < length ls" "k = m + i"
    "parse_chunk_lines ln (drop i ls) \<lparr>change_context = c, old_lines = [], new_lines = [],
       is_end_of_file = False\<rparr> 0 = Inr (chunk, m)"
proof -
  obtain first rest where ls: "ls = first # rest"
    using assms by (cases ls) (auto simp: parse_update_file_chunk_def)
  obtain c i where h: "parse_chunk_header first ln b = Inr (c, i)"
    using assms by (cases "parse_chunk_header first ln b") (auto simp: parse_update_file_chunk_def ls)
  have i: "i < length ls"
    using assms h by (auto simp: parse_update_file_chunk_def ls split: if_splits)
  obtain m where "k = m + i" "parse_chunk_lines ln (drop i ls) \<lparr>change_context = c,
      old_lines = [], new_lines = [], is_end_of_file = False\<rparr> 0 = Inr (chunk, m)"
    using assms h i by (auto simp: parse_update_file_chunk_def ls split: sum.splits)
  with ls h i show thesis by (rule that)
qed

lemma parse_update_file_chunk_count:
  assumes "parse_update_file_chunk ls ln b = Inr (chunk, k)"
  shows "0 < k" and "k \<le> length ls"
proof -
  obtain c i m where i: "i < length ls" and k: "k = m + i"
    and p: "parse_chunk_lines ln (drop i ls) \<lparr>change_context = c, old_lines = [], new_lines = [],
       is_end_of_file = False\<rparr> 0 = Inr (chunk, m)"
    using assms by (rule parse_update_file_chunk_InrE)
  from i have "drop i ls = ls ! i # drop (Suc i) ls"
    by (simp add: Cons_nth_drop_Suc)
  with p have "0 < m" by (metis parse_chunk_lines_pos)
  then show "0 < k" using k by simp
  show "k \<le> length ls"
    using parse_chunk_lines_count [OF p] k i by simp
qed

section \<open>Hunks\<close>

fun parse_add_lines :: "str list \<Rightarrow> str \<times> nat" where
  "parse_add_lines [] = ([], 0)"
| "parse_add_lines (l # ls) =
     (case strip_prefix (lit ''+'') l of
        Some line_to_add \<Rightarrow>
          (let (contents, n) = parse_add_lines ls in (line_to_add @ [newline] @ contents, n + 1))
      | None \<Rightarrow> ([], 0))"

text \<open>
  The loop over the chunks of an update hunk: \<open>ln\<close> is the line number of the hunk header and \<open>n\<close>
  the number of lines parsed so far.
\<close>

function parse_update_chunks ::
  "bool \<Rightarrow> nat \<Rightarrow> str list \<Rightarrow> nat \<Rightarrow> update_file_chunk list \<Rightarrow>
     parse_error + (update_file_chunk list \<times> nat)" where
  "parse_update_chunks allow_incomplete ln [] n chunks = Inr (chunks, n)"
| "parse_update_chunks allow_incomplete ln (l # ls) n chunks =
     (if trim l = [] then parse_update_chunks allow_incomplete ln ls (n + 1) chunks
      else if starts_with l (lit ''*'') then Inr (chunks, n)
      else if allow_incomplete \<and> l = lit ''@'' then Inr (chunks, n)
      else (case parse_update_file_chunk (l # ls) (ln + n) (chunks = []) of
          Inr (chunk, chunk_lines) \<Rightarrow>
            parse_update_chunks allow_incomplete ln (drop chunk_lines (l # ls)) (n + chunk_lines)
              (chunks @ [chunk])
        | Inl (InvalidHunkError m k) \<Rightarrow>
            if allow_incomplete \<and> chunks \<noteq> [] then Inr (chunks, n)
            else Inl (InvalidHunkError m k)
        | Inl (InvalidPatchError m) \<Rightarrow> Inl (InvalidPatchError m)))"
  by pat_completeness auto
termination
  by (relation "measure (\<lambda>(_, _, ls, _, _). length ls)")
    (auto dest: parse_update_file_chunk_count)

text \<open>The update branch of \<^verbatim>\<open>parse_one_hunk\<close>, after the header that names \<open>p\<close>.\<close>

definition parse_update_hunk ::
  "path \<Rightarrow> str list \<Rightarrow> nat \<Rightarrow> bool \<Rightarrow> parse_error + (hunk \<times> nat)" where
  "parse_update_hunk p rest ln allow_incomplete =
     (let move_path = (case rest of [] \<Rightarrow> None | x # _ \<Rightarrow> strip_prefix MOVE_TO_MARKER x);
          (remaining, n) = (if move_path \<noteq> None then (tl rest, 2) else (rest, 1))
      in case parse_update_chunks allow_incomplete ln remaining n [] of
           Inl e \<Rightarrow> Inl e
         | Inr (chunks, parsed) \<Rightarrow>
             if chunks = [] then Inl (InvalidHunkError (empty_update_msg p) ln)
             else Inr (UpdateFile p move_path chunks, parsed))"

text \<open>\<^verbatim>\<open>parse_one_hunk\<close> on the non-empty slice \<open>header # rest\<close>.\<close>

definition parse_one_hunk ::
  "str \<Rightarrow> str list \<Rightarrow> nat \<Rightarrow> bool \<Rightarrow> parse_error + (hunk \<times> nat)" where
  "parse_one_hunk header rest ln allow_incomplete =
     (let first_line = trim header in
      case strip_prefix ADD_FILE_MARKER first_line of
        Some p \<Rightarrow> (let (contents, n) = parse_add_lines rest in Inr (AddFile p contents, n + 1))
      | None \<Rightarrow>
      (case strip_prefix DELETE_FILE_MARKER first_line of
        Some p \<Rightarrow> Inr (DeleteFile p, 1)
      | None \<Rightarrow>
      (case strip_prefix UPDATE_FILE_MARKER first_line of
        Some p \<Rightarrow> parse_update_hunk p rest ln allow_incomplete
      | None \<Rightarrow> Inl (InvalidHunkError (invalid_header_msg first_line) ln))))"

lemma parse_add_lines_count: "snd (parse_add_lines ls) \<le> length ls"
  by (induction ls) (auto split: option.splits prod.splits)

lemma parse_update_chunks_count:
  "parse_update_chunks ai ln ls n cs = Inr (cs', m) \<Longrightarrow> n \<le> m \<and> m \<le> n + length ls"
proof (induction ai ln ls n cs rule: parse_update_chunks.induct)
  case (2 ai ln l ls n cs)
  show ?case
  proof (cases "trim l = [] \<or> starts_with l (lit ''*'') \<or> (ai \<and> l = lit ''@'')")
    case True
    with 2 show ?thesis by (auto split: if_splits)
  next
    case False
    show ?thesis
    proof (cases "parse_update_file_chunk (l # ls) (ln + n) (cs = [])")
      case (Inl e)
      with 2 False show ?thesis by (cases e) (auto split: if_splits)
    next
      case (Inr r)
      obtain c k where r: "r = (c, k)" by force
      have "k \<le> length (l # ls)" "0 < k"
        using parse_update_file_chunk_count Inr r by blast+
      moreover have "parse_update_chunks ai ln (drop k (l # ls)) (n + k) (cs @ [c]) = Inr (cs', m)"
        using "2.prems" False Inr r by auto
      ultimately have "n + k \<le> m \<and> m \<le> n + k + length (drop k (l # ls))"
        using "2.IH"(2) [of r c k] False Inr r by blast
      with \<open>k \<le> length (l # ls)\<close> show ?thesis by simp
    qed
  qed
qed simp

declare parse_update_chunks.simps [simp del]

lemma parse_update_hunk_count:
  assumes "parse_update_hunk p rest ln ai = Inr (h, n)"
  shows "0 < n" and "n \<le> Suc (length rest)"
proof -
  obtain mv where mv: "mv = (case rest of [] \<Rightarrow> None | x # _ \<Rightarrow> strip_prefix MOVE_TO_MARKER x)"
    by blast
  have rest: "mv \<noteq> None \<Longrightarrow> rest \<noteq> []" by (auto simp: mv)
  obtain k rem cs where "k + length rem = Suc (length rest)" "0 < k"
    "parse_update_chunks ai ln rem k [] = Inr (cs, n)"
  proof (cases mv)
    case None
    then show thesis
      using that [of 1 rest] assms
      by (auto simp: parse_update_hunk_def Let_def simp flip: mv split: sum.splits if_splits)
  next
    case (Some m)
    then show thesis
      using that [of 2 "tl rest"] assms rest
      by (auto simp: parse_update_hunk_def Let_def simp flip: mv split: sum.splits if_splits)
  qed
  with parse_update_chunks_count show "0 < n" and "n \<le> Suc (length rest)" by fastforce+
qed

lemma parse_one_hunk_count:
  assumes "parse_one_hunk header rest ln ai = Inr (h, n)"
  shows "0 < n" and "n \<le> length (header # rest)"
  using assms parse_add_lines_count [of rest]
  by (auto simp: parse_one_hunk_def Let_def split: option.splits prod.splits
      dest: parse_update_hunk_count)

section \<open>Patches\<close>

function parse_hunks :: "bool \<Rightarrow> str list \<Rightarrow> nat \<Rightarrow> parse_error + hunk list" where
  "parse_hunks allow_incomplete [] ln = Inr []"
| "parse_hunks allow_incomplete (l # ls) ln =
     (case parse_one_hunk l ls ln allow_incomplete of
        Inl e \<Rightarrow> Inl e
      | Inr (h, hunk_lines) \<Rightarrow>
          (case parse_hunks allow_incomplete (drop hunk_lines (l # ls)) (ln + hunk_lines) of
             Inl e \<Rightarrow> Inl e
           | Inr hs \<Rightarrow> Inr (h # hs)))"
  by pat_completeness auto
termination
  by (relation "measure (\<lambda>(_, ls, _). length ls)")
    (auto dest: parse_one_hunk_count)

definition parse_patch_text :: "str \<Rightarrow> parse_mode \<Rightarrow> parse_error + apply_patch_args" where
  "parse_patch_text text mode =
     (let ls = lines (trim text) in
      case (case mode of
              Strict \<Rightarrow> check_patch_boundaries_strict ls
            | Lenient \<Rightarrow> check_patch_boundaries_lenient ls
            | Streaming \<Rightarrow> check_patch_boundaries_streaming ls) of
        Inl e \<Rightarrow> Inl e
      | Inr (patch_lines, hunk_lines) \<Rightarrow>
          (case parse_hunks (mode = Streaming) hunk_lines 2 of
             Inl e \<Rightarrow> Inl e
           | Inr hs \<Rightarrow> Inr \<lparr>patch = join [newline] patch_lines, hunks = hs, workdir = None\<rparr>))"

definition parse_patch :: "str \<Rightarrow> parse_error + apply_patch_args" where
  "parse_patch text = parse_patch_text text (if PARSE_IN_STRICT_MODE then Strict else Lenient)"

definition parse_patch_streaming :: "str \<Rightarrow> parse_error + apply_patch_args" where
  "parse_patch_streaming text = parse_patch_text text Streaming"

end
