(* ===== verification/Utf8.thy ===== *)
theory Utf8
  imports Rust_Std
begin

text \<open>
  UTF-8 as the Rust standard library has it: encoding of a \<^verbatim>\<open>String\<close> into bytes and
  \<^verbatim>\<open>std::str::from_utf8\<close> with the \<^verbatim>\<open>valid_up_to\<close> and \<^verbatim>\<open>error_len\<close> of its error. Bytes are naturals below
  256. The facts the components use are that decoding inverts encoding in both directions and that
  decoding may be resumed at the point where the input was cut.
\<close>

type_synonym byte = nat

section \<open>Encoding\<close>

definition is_scalar :: "uchar \<Rightarrow> bool" where
  "is_scalar c \<longleftrightarrow> c < 0xD800 \<or> (0xE000 \<le> c \<and> c \<le> 0x10FFFF)"

definition encode_char :: "uchar \<Rightarrow> byte list" where
  "encode_char c =
     (if c < 0x80 then [c]
      else if c < 0x800 then [0xC0 + c div 64, 0x80 + c mod 64]
      else if c < 0x10000 then [0xE0 + c div 4096, 0x80 + c div 64 mod 64, 0x80 + c mod 64]
      else [0xF0 + c div 262144, 0x80 + c div 4096 mod 64, 0x80 + c div 64 mod 64, 0x80 + c mod 64])"

definition encode :: "str \<Rightarrow> byte list" where
  "encode s = concat (map encode_char s)"

section \<open>Decoding\<close>

text \<open>One step of the validation loop: a code point and its width, a malformed sequence with the
  \<^verbatim>\<open>error_len\<close> reported for it, or an input that ends inside a sequence.\<close>

datatype utf8_step = Decoded uchar nat | Malformed nat | Truncated

definition is_cont :: "byte \<Rightarrow> bool" where
  "is_cont b \<longleftrightarrow> 0x80 \<le> b \<and> b \<le> 0xBF"

definition second_ok3 :: "byte \<Rightarrow> byte \<Rightarrow> bool" where
  "second_ok3 a b \<longleftrightarrow>
     (if a = 0xE0 then 0xA0 \<le> b \<and> b \<le> 0xBF
      else if a = 0xED then 0x80 \<le> b \<and> b \<le> 0x9F
      else is_cont b)"

definition second_ok4 :: "byte \<Rightarrow> byte \<Rightarrow> bool" where
  "second_ok4 a b \<longleftrightarrow>
     (if a = 0xF0 then 0x90 \<le> b \<and> b \<le> 0xBF
      else if a = 0xF4 then 0x80 \<le> b \<and> b \<le> 0x8F
      else is_cont b)"

definition decode2 :: "byte \<Rightarrow> byte list \<Rightarrow> utf8_step" where
  "decode2 a bs = (case bs of
     [] \<Rightarrow> Truncated
   | b # _ \<Rightarrow> if is_cont b then Decoded ((a - 0xC0) * 64 + (b - 0x80)) 2 else Malformed 1)"

definition decode3 :: "byte \<Rightarrow> byte list \<Rightarrow> utf8_step" where
  "decode3 a bs = (case bs of
     [] \<Rightarrow> Truncated
   | b # bs \<Rightarrow>
       if second_ok3 a b then
         (case bs of
            [] \<Rightarrow> Truncated
          | c # _ \<Rightarrow>
              if is_cont c then Decoded ((a - 0xE0) * 4096 + (b - 0x80) * 64 + (c - 0x80)) 3
              else Malformed 2)
       else Malformed 1)"

definition decode4 :: "byte \<Rightarrow> byte list \<Rightarrow> utf8_step" where
  "decode4 a bs = (case bs of
     [] \<Rightarrow> Truncated
   | b # bs \<Rightarrow>
       if second_ok4 a b then
         (case bs of
            [] \<Rightarrow> Truncated
          | c # bs \<Rightarrow>
              if is_cont c then
                (case bs of
                   [] \<Rightarrow> Truncated
                 | d # _ \<Rightarrow>
                     if is_cont d then
                       Decoded ((a - 0xF0) * 262144 + (b - 0x80) * 4096 + (c - 0x80) * 64 + (d - 0x80)) 4
                     else Malformed 3)
              else Malformed 2)
       else Malformed 1)"

fun decode_step :: "byte list \<Rightarrow> utf8_step" where
  "decode_step [] = Truncated"
| "decode_step (a # bs) =
     (if a < 0x80 then Decoded a 1
      else if 0xC2 \<le> a \<and> a \<le> 0xDF then decode2 a bs
      else if 0xE0 \<le> a \<and> a \<le> 0xEF then decode3 a bs
      else if 0xF0 \<le> a \<and> a \<le> 0xF4 then decode4 a bs
      else Malformed 1)"

lemmas decode_defs = decode2_def decode3_def decode4_def

lemma decode_step_width: "decode_step bs = Decoded c n \<Longrightarrow> 0 < n \<and> n \<le> length bs"
  by (cases bs) (auto simp: decode_defs split: if_splits list.splits)

lemma decode_step_mono:
  assumes "decode_step bs \<noteq> Truncated"
  shows "decode_step (bs @ cs) = decode_step bs"
  using assms by (cases bs) (auto simp: decode_defs split: if_splits list.splits)

text \<open>The longest valid prefix and what stops the decoder there.\<close>

datatype utf8_end = Complete | Invalid nat | Incomplete

function decode :: "byte list \<Rightarrow> str \<times> utf8_end \<times> byte list" where
  "decode bs =
     (if bs = [] then ([], Complete, [])
      else case decode_step bs of
             Decoded c n \<Rightarrow> (case decode (drop n bs) of (s, e, rest) \<Rightarrow> (c # s, e, rest))
           | Malformed k \<Rightarrow> ([], Invalid k, bs)
           | Truncated \<Rightarrow> ([], Incomplete, bs))"
  by pat_completeness auto
termination
  by (relation "measure length") (auto dest: decode_step_width)

declare decode.simps [simp del]

record utf8_error =
  valid_up_to :: nat
  error_len :: "nat option"

definition from_utf8 :: "byte list \<Rightarrow> utf8_error + str" where
  "from_utf8 bs =
     (case decode bs of
        (s, Complete, rest) \<Rightarrow> Inr s
      | (s, Invalid k, rest) \<Rightarrow> Inl \<lparr> valid_up_to = length bs - length rest, error_len = Some k \<rparr>
      | (s, Incomplete, rest) \<Rightarrow> Inl \<lparr> valid_up_to = length bs - length rest, error_len = None \<rparr>)"

section \<open>Encoding and decoding\<close>

lemma length_encode_char: "length (encode_char c) = len_utf8 c"
  by (simp add: encode_char_def len_utf8_def)

lemma encode_Nil [simp]: "encode [] = []"
  and encode_Cons [simp]: "encode (c # s) = encode_char c @ encode s"
  and encode_append [simp]: "encode (s @ t) = encode s @ encode t"
  by (simp_all add: encode_def)

lemma encode_char_not_Nil [simp]: "encode_char c \<noteq> []"
  by (simp add: encode_char_def)

lemma length_encode: "length (encode s) = str_len s"
  by (induction s) (simp_all add: length_encode_char str_len_def)

text \<open>Base-64 digits of a code point, with the arithmetic left to linear reasoning.\<close>

lemma digits2:
  fixes c :: nat
  obtains q m where "c div 64 = q" "c mod 64 = m" "c = q * 64 + m" "m < 64"
  by (metis div_mult_mod_eq mod_less_divisor zero_less_numeral)

lemma digits3:
  fixes c :: nat
  obtains q r m where "c div 4096 = q" "c div 64 mod 64 = r" "c mod 64 = m"
    "c = q * 4096 + r * 64 + m" "r < 64" "m < 64"
proof -
  obtain p m where 1: "c div 64 = p" "c mod 64 = m" "c = p * 64 + m" "m < 64" by (rule digits2)
  obtain q r where 2: "p div 64 = q" "p mod 64 = r" "p = q * 64 + r" "r < 64" by (rule digits2)
  have "c div 4096 = q" using 1(1) 2(1) div_mult2_eq [of c 64 64] by simp
  with 1 2 show thesis by (intro that [of q r m]) auto
qed

lemma digits4:
  fixes c :: nat
  obtains p q r m where "c div 262144 = p" "c div 4096 mod 64 = q" "c div 64 mod 64 = r"
    "c mod 64 = m" "c = p * 262144 + q * 4096 + r * 64 + m" "q < 64" "r < 64" "m < 64"
proof -
  obtain t r m where 1: "c div 4096 = t" "c div 64 mod 64 = r" "c mod 64 = m"
    "c = t * 4096 + r * 64 + m" "r < 64" "m < 64" by (rule digits3)
  obtain p q where 2: "t div 64 = p" "t mod 64 = q" "t = p * 64 + q" "q < 64" by (rule digits2)
  have "c div 262144 = p" using 1(1) 2(1) div_mult2_eq [of c 4096 64] by simp
  with 1 2 show thesis by (intro that [of p q r m]) auto
qed

lemma decode_step_encode_char:
  assumes "is_scalar c"
  shows "decode_step (encode_char c @ bs) = Decoded c (len_utf8 c)"
proof -
  consider "c < 0x80" | "0x80 \<le> c" "c < 0x800" | "0x800 \<le> c" "c < 0x10000" | "0x10000 \<le> c"
    by linarith
  then show ?thesis
  proof cases
    case 2
    obtain q m where d: "c div 64 = q" "c mod 64 = m" "c = q * 64 + m" "m < 64" by (rule digits2)
    with 2 have "2 \<le> q" "q \<le> 31" by linarith+
    moreover have "encode_char c = [192 + q, 128 + m]" using 2 d(1,2) by (simp add: encode_char_def)
    moreover have "len_utf8 c = 2" using 2 by (simp add: len_utf8_def)
    ultimately show ?thesis using d(3,4) by (simp add: decode2_def is_cont_def)
  next
    case 3
    obtain q r m where d: "c div 4096 = q" "c div 64 mod 64 = r" "c mod 64 = m"
      "c = q * 4096 + r * 64 + m" "r < 64" "m < 64" by (rule digits3)
    with 3 have "q \<le> 15" "q = 0 \<longrightarrow> 32 \<le> r" by linarith+
    moreover have "q = 13 \<longrightarrow> r \<le> 31" using assms d(4-6) unfolding is_scalar_def by linarith
    moreover have "encode_char c = [224 + q, 128 + r, 128 + m]"
      using 3 d(1-3) by (simp add: encode_char_def)
    moreover have "len_utf8 c = 3" using 3 by (simp add: len_utf8_def)
    ultimately show ?thesis using d(4-6)
      by (simp add: decode3_def is_cont_def second_ok3_def)
  next
    case 4
    obtain p q r m where d: "c div 262144 = p" "c div 4096 mod 64 = q" "c div 64 mod 64 = r"
      "c mod 64 = m" "c = p * 262144 + q * 4096 + r * 64 + m" "q < 64" "r < 64" "m < 64"
      by (rule digits4)
    have "c \<le> 0x10FFFF" using assms 4 by (auto simp: is_scalar_def)
    with 4 d(5-8) have "p \<le> 4" "p = 0 \<longrightarrow> 16 \<le> q" "p = 4 \<longrightarrow> q \<le> 15" by linarith+
    moreover have "encode_char c = [240 + p, 128 + q, 128 + r, 128 + m]"
      using 4 d(1-4) by (simp add: encode_char_def)
    moreover have "len_utf8 c = 4" using 4 by (simp add: len_utf8_def)
    ultimately show ?thesis using d(5-8)
      by (simp add: decode4_def is_cont_def second_ok4_def)
  qed (simp add: encode_char_def len_utf8_def)
qed

lemma encode_digits2:
  assumes "2 \<le> q" "q \<le> 31" "m < 64"
  shows "encode_char (q * 64 + m) = [192 + q, 128 + m]" "is_scalar (q * 64 + m)"
proof -
  have "128 \<le> q * 64 + m" "q * 64 + m < 2048" using assms by linarith+
  then show "encode_char (q * 64 + m) = [192 + q, 128 + m]" "is_scalar (q * 64 + m)"
    using assms by (simp_all add: encode_char_def is_scalar_def)
qed

lemma encode_digits3:
  assumes "q \<le> 15" "q = 0 \<longrightarrow> 32 \<le> r" "q = 13 \<longrightarrow> r \<le> 31" "r < 64" "m < 64"
  shows "encode_char (q * 4096 + r * 64 + m) = [224 + q, 128 + r, 128 + m]"
    "is_scalar (q * 4096 + r * 64 + m)"
proof -
  let ?c = "q * 4096 + r * 64 + m"
  have c: "2048 \<le> ?c" "?c < 65536" using assms by linarith+
  consider "q \<le> 12" | "q = 13" | "14 \<le> q" by linarith
  then have sc: "is_scalar ?c"
    unfolding is_scalar_def using assms by cases linarith+
  have "?c div 64 = q * 64 + r" "?c mod 64 = m"
    using assms(5) div_mult_self3 [of 64 m "q * 64 + r"] mod_mult_self3 [of "q * 64 + r" 64 m]
    by (simp_all add: algebra_simps)
  moreover have "?c div 4096 = q" using assms(4,5) by (intro div_nat_eqI) (simp_all add: algebra_simps)
  ultimately show "encode_char ?c = [224 + q, 128 + r, 128 + m]" "is_scalar ?c"
    using c sc assms(4) by (simp_all add: encode_char_def)
qed

lemma encode_digits4:
  assumes "p \<le> 4" "p = 0 \<longrightarrow> 16 \<le> q" "p = 4 \<longrightarrow> q \<le> 15" "q < 64" "r < 64" "m < 64"
  shows "encode_char (p * 262144 + q * 4096 + r * 64 + m) = [240 + p, 128 + q, 128 + r, 128 + m]"
    "is_scalar (p * 262144 + q * 4096 + r * 64 + m)"
proof -
  let ?c = "p * 262144 + q * 4096 + r * 64 + m"
  have c: "65536 \<le> ?c" and sc: "is_scalar ?c"
    using assms unfolding is_scalar_def by linarith+
  have "?c div 64 = (p * 64 + q) * 64 + r" "?c mod 64 = m"
    using assms(6) div_mult_self3 [of 64 m "p * 4096 + q * 64 + r"]
      mod_mult_self3 [of "p * 4096 + q * 64 + r" 64 m]
    by (simp_all add: algebra_simps)
  moreover have "?c div 4096 = p * 64 + q" using assms(5,6) by (intro div_nat_eqI) (simp_all add: algebra_simps)
  moreover have "?c div 262144 = p" using assms(4-6) by (intro div_nat_eqI) (simp_all add: algebra_simps)
  moreover have "((p * 64 + q) * 64 + r) mod 64 = r" using assms(5) by (subst mod_mult_self3) simp
  ultimately show "encode_char ?c = [240 + p, 128 + q, 128 + r, 128 + m]" "is_scalar ?c"
    using c sc assms(4,5) by (simp_all add: encode_char_def)
qed

lemma decode_step_sound:
  assumes "decode_step bs = Decoded c n"
  shows "bs = encode_char c @ drop n bs \<and> is_scalar c \<and> n = len_utf8 c"
proof -
  have *: "\<exists>cs. bs = encode_char c @ cs \<and> is_scalar c"
  proof -
    obtain a bs' where bs: "bs = a # bs'" using assms by (cases bs) auto
    consider "a < 0x80" | "0xC2 \<le> a" "a \<le> 0xDF" | "0xE0 \<le> a" "a \<le> 0xEF" | "0xF0 \<le> a" "a \<le> 0xF4"
      using assms bs by (auto split: if_splits)
    then show ?thesis
    proof cases
      case 1
      with assms bs show ?thesis by (auto simp: encode_char_def is_scalar_def)
    next
      case 2
      with assms bs obtain b cs where "bs' = b # cs" "is_cont b" "c = (a - 192) * 64 + (b - 128)"
        by (auto simp: decode2_def split: list.splits if_splits)
      with 2 bs encode_digits2 [of "a - 192" "b - 128"] show ?thesis by (auto simp: is_cont_def)
    next
      case 3
      with assms bs obtain b d cs where "bs' = b # d # cs" "second_ok3 a b" "is_cont d"
        "c = (a - 224) * 4096 + (b - 128) * 64 + (d - 128)"
        by (auto simp: decode3_def split: list.splits if_splits)
      with 3 bs encode_digits3 [of "a - 224" "b - 128" "d - 128"] show ?thesis
        by (auto simp: is_cont_def second_ok3_def split: if_splits)
    next
      case 4
      with assms bs obtain b d e cs where "bs' = b # d # e # cs" "second_ok4 a b" "is_cont d" "is_cont e"
        "c = (a - 240) * 262144 + (b - 128) * 4096 + (d - 128) * 64 + (e - 128)"
        by (auto simp: decode4_def split: list.splits if_splits)
      with 4 bs encode_digits4 [of "a - 240" "b - 128" "d - 128" "e - 128"] show ?thesis
        by (auto simp: is_cont_def second_ok4_def split: if_splits)
    qed
  qed
  then obtain cs where "bs = encode_char c @ cs" "is_scalar c" by blast
  with assms decode_step_encode_char [of c cs] show ?thesis
    by (simp flip: length_encode_char)
qed

section \<open>Resuming\<close>

lemma decode_Nil [simp]: "decode [] = ([], Complete, [])"
  by (simp add: decode.simps)

lemma decode_sound:
  "decode bs = (s, e, rest) \<Longrightarrow>
   bs = encode s @ rest \<and> list_all is_scalar s \<and> (rest = [] \<longleftrightarrow> e = Complete)"
proof (induction bs arbitrary: s rule: decode.induct)
  case (1 bs)
  show ?case
  proof (cases "decode_step bs")
    case (Decoded c n)
    show ?thesis
    proof (cases "bs = []")
      case False
      with Decoded "1.prems" obtain s' where s': "decode (drop n bs) = (s', e, rest)" "s = c # s'"
        by (subst (asm) decode.simps) (auto split: prod.splits)
      with "1.IH" [OF False Decoded s'(1)] decode_step_sound [OF Decoded]
      show ?thesis by (metis append_assoc encode_Cons list.pred_inject(2))
    qed (use "1.prems" in simp)
  qed (use "1.prems" in \<open>auto simp: decode.simps [of bs] split: if_splits\<close>)
qed

lemma decode_encode_append:
  assumes "list_all is_scalar s"
  shows "decode (encode s @ bs) = (case decode bs of (t, e, rest) \<Rightarrow> (s @ t, e, rest))"
  using assms
proof (induction s)
  case (Cons c s)
  then have "decode_step (encode (c # s) @ bs) = Decoded c (len_utf8 c)"
    using decode_step_encode_char [of c "encode s @ bs"] by simp
  moreover have "drop (len_utf8 c) (encode (c # s) @ bs) = encode s @ bs"
    by (simp flip: length_encode_char)
  ultimately show ?case
    using Cons by (subst decode.simps) (auto split: prod.splits)
qed (auto split: prod.splits)

lemma decode_encode: "list_all is_scalar s \<Longrightarrow> decode (encode s) = (s, Complete, [])"
  using decode_encode_append [of s "[]"] by simp

lemma decode_append:
  assumes "decode bs = (s, e, rest)"
  shows "decode (bs @ cs) = (case decode (rest @ cs) of (t, e', rest') \<Rightarrow> (s @ t, e', rest'))"
  using decode_sound [OF assms] decode_encode_append [of s "rest @ cs"] by simp

lemma decode_rest:
  assumes "decode bs = (s, e, rest)"
  shows "decode rest = ([], e, rest)"
  using decode_append [OF assms, of "[]"] assms by (auto split: prod.splits)

lemma decode_Invalid_append:
  assumes "decode bs = (s, Invalid k, rest)"
  shows "decode (bs @ cs) = (s, Invalid k, rest @ cs)"
proof -
  have r: "decode rest = ([], Invalid k, rest)" by (rule decode_rest [OF assms])
  then have "rest \<noteq> []" by auto
  with r have "decode_step rest = Malformed k"
    by (subst (asm) decode.simps) (auto split: utf8_step.splits prod.splits)
  with decode_step_mono [of rest cs] \<open>rest \<noteq> []\<close> have "decode (rest @ cs) = ([], Invalid k, rest @ cs)"
    by (simp add: decode.simps [of "rest @ cs"])
  with decode_append [OF assms] show ?thesis by simp
qed

lemma from_utf8_Inr: "from_utf8 bs = Inr s \<longleftrightarrow> list_all is_scalar s \<and> bs = encode s"
  using decode_sound [of bs] decode_encode [of s]
  by (auto simp: from_utf8_def split: prod.splits utf8_end.splits)

lemma from_utf8_encode [simp]: "list_all is_scalar s \<Longrightarrow> from_utf8 (encode s) = Inr s"
  by (simp add: from_utf8_Inr)

lemma encode_inject:
  "list_all is_scalar s \<Longrightarrow> list_all is_scalar t \<Longrightarrow> encode s = encode t \<longleftrightarrow> s = t"
  by (metis from_utf8_encode sum.inject(2))

end
