(* ===== verification/Abs_Path.thy ===== *)
theory Abs_Path
  imports Rust_Std
begin

text \<open>
  \<^verbatim>\<open>codex-rs/utils/absolute-path\<close> on Unix: \<^verbatim>\<open>AbsolutePathBuf::resolve_path_against_base\<close> with the
  expansion of a leading tilde and the lexical normalisation of \<^verbatim>\<open>absolutize.rs\<close>. A path is its string;
  the components are those of \<^verbatim>\<open>Path::components\<close>. The home directory is an argument. The theorems show
  that resolution establishes the invariant the type promises (absolute and normalised) and is
  idempotent.
\<close>

section \<open>Paths of the standard library\<close>

definition slash :: uchar where
  "slash = 47"

datatype component = RootDir | CurDir | ParentDir | Normal str

definition is_absolute :: "str \<Rightarrow> bool" where
  "is_absolute p \<longleftrightarrow> starts_with p [slash]"

definition piece_component :: "str \<Rightarrow> component list" where
  "piece_component p =
     (if p = [] \<or> p = lit ''.'' then [] else if p = lit ''..'' then [ParentDir] else [Normal p])"

definition components :: "str \<Rightarrow> component list" where
  "components p =
     (let pieces = split_on slash p in
      (if is_absolute p then [RootDir] else if hd pieces = lit ''.'' then [CurDir] else []) @
      concat (map piece_component pieces))"

text \<open>\<^verbatim>\<open>Path::join\<close>.\<close>

definition path_join :: "str \<Rightarrow> str \<Rightarrow> str" where
  "path_join base p =
     (if is_absolute p then p
      else if base = [] \<or> ends_with base [slash] then base @ p
      else base @ [slash] @ p)"

text \<open>\<^verbatim>\<open>Path::file_name\<close> and \<^verbatim>\<open>Path::file_stem\<close>.\<close>

definition path_file_name :: "str \<Rightarrow> str option" where
  "path_file_name p =
     (case rev (components p) of Normal n # _ \<Rightarrow> Some n | _ \<Rightarrow> None)"

definition stem_of_name :: "str \<Rightarrow> str" where
  "stem_of_name n =
     (let after = takeWhile (\<lambda>c. c \<noteq> 46) (rev n);
          before = rev (drop (Suc (length after)) (rev n))
      in if 46 \<notin> set n \<or> before = [] then n else before)"

definition file_stem :: "str \<Rightarrow> str option" where
  "file_stem p = map_option stem_of_name (path_file_name p)"

section \<open>Normalisation\<close>

text \<open>The path buffer \<^verbatim>\<open>normalize_path\<close> builds: whether it starts at the root, and its names.\<close>

record path_buf =
  rooted :: bool
  names :: "str list"

definition os_str :: "path_buf \<Rightarrow> str" where
  "os_str b = (if rooted b then [slash] else []) @ join [slash] (names b)"

definition push_component :: "path_buf \<Rightarrow> component \<Rightarrow> path_buf" where
  "push_component b c =
     (case c of
        CurDir \<Rightarrow> b
      | ParentDir \<Rightarrow> b\<lparr>names := butlast (names b)\<rparr>
      | RootDir \<Rightarrow> \<lparr>rooted = True, names = []\<rparr>
      | Normal n \<Rightarrow> b\<lparr>names := names b @ [n]\<rparr>)"

definition normalize_path :: "str \<Rightarrow> str" where
  "normalize_path p =
     (let normalized = os_str (foldl push_component \<lparr>rooted = False, names = []\<rparr> (components p)) in
      if normalized = [] then lit ''.'' else normalized)"

definition path_with_base :: "str \<Rightarrow> str \<Rightarrow> str" where
  "path_with_base p base = (if is_absolute p then p else path_join base p)"

definition absolutize_from :: "str \<Rightarrow> str \<Rightarrow> str" where
  "absolutize_from p base = normalize_path (path_with_base p base)"

definition absolutize :: "str \<Rightarrow> str \<Rightarrow> str" where
  "absolutize current_dir p =
     (if is_absolute p then normalize_path p else absolutize_from p current_dir)"

section \<open>AbsolutePathBuf\<close>

type_synonym abs_path_buf = str

definition maybe_expand_home_directory :: "str option \<Rightarrow> str \<Rightarrow> str" where
  "maybe_expand_home_directory home p =
     (case (home, strip_prefix (lit ''~'') p) of
        (Some h, Some rest) \<Rightarrow>
          if rest = [] then h
          else (case strip_prefix [slash] rest of
                  Some rest' \<Rightarrow> path_join h (dropWhile (\<lambda>c. c = slash) rest')
                | None \<Rightarrow> p)
      | _ \<Rightarrow> p)"

definition resolve_path_against_base :: "str option \<Rightarrow> str \<Rightarrow> str \<Rightarrow> abs_path_buf" where
  "resolve_path_against_base home p base = absolutize_from (maybe_expand_home_directory home p) base"

definition from_absolute_path :: "str option \<Rightarrow> str \<Rightarrow> str \<Rightarrow> abs_path_buf" where
  "from_absolute_path home current_dir p = absolutize current_dir (maybe_expand_home_directory home p)"

definition from_absolute_path_checked :: "str option \<Rightarrow> str \<Rightarrow> abs_path_buf option" where
  "from_absolute_path_checked home p =
     (let expanded = maybe_expand_home_directory home p in
      if \<not> is_absolute expanded then None else Some (absolutize_from expanded [slash]))"

definition abs_join :: "str option \<Rightarrow> abs_path_buf \<Rightarrow> str \<Rightarrow> abs_path_buf" where
  "abs_join home base p = resolve_path_against_base home p base"

definition parent :: "abs_path_buf \<Rightarrow> abs_path_buf option" where
  "parent p =
     (case components p of
        RootDir # c # cs \<Rightarrow>
          Some (os_str (foldl push_component \<lparr>rooted = False, names = []\<rparr> (butlast (RootDir # c # cs))))
      | _ \<Rightarrow> None)"

text \<open>What the functions of the workspace read from the process: the home and the current directory.\<close>

record path_env =
  home_dir :: "str option"
  current_dir :: str

section \<open>Comparing paths\<close>

text \<open>
  \<^verbatim>\<open>Path\<close> values are compared by their components; \<^verbatim>\<open>starts_with\<close> and \<^verbatim>\<open>strip_prefix\<close> work on them as well.
\<close>

definition path_eq :: "str \<Rightarrow> str \<Rightarrow> bool" where
  "path_eq p q \<longleftrightarrow> components p = components q"

definition path_starts_with :: "str \<Rightarrow> str \<Rightarrow> bool" where
  "path_starts_with p base \<longleftrightarrow> starts_with (components p) (components base)"

definition path_strip_prefix :: "str \<Rightarrow> str \<Rightarrow> component list option" where
  "path_strip_prefix p base = strip_prefix (components base) (components p)"

definition component_os_str :: "component \<Rightarrow> str" where
  "component_os_str c =
     (case c of RootDir \<Rightarrow> [slash] | CurDir \<Rightarrow> lit ''.'' | ParentDir \<Rightarrow> lit ''..'' | Normal n \<Rightarrow> n)"

section \<open>The invariant of the type\<close>

definition valid_name :: "str \<Rightarrow> bool" where
  "valid_name n \<longleftrightarrow> n \<noteq> [] \<and> slash \<notin> set n \<and> n \<noteq> lit ''.'' \<and> n \<noteq> lit ''..''"

definition abs_display :: "str list \<Rightarrow> str" where
  "abs_display ns = slash # join [slash] ns"

definition abs_names :: "str \<Rightarrow> str list" where
  "abs_names p = concat (map (\<lambda>c. case c of Normal n \<Rightarrow> [n] | _ \<Rightarrow> []) (components p))"

definition is_normal_path :: "str \<Rightarrow> bool" where
  "is_normal_path p \<longleftrightarrow> list_all valid_name (abs_names p) \<and> p = abs_display (abs_names p)"

lemma is_absolute_Cons [simp]: "is_absolute (slash # p)"
  and is_absolute_Nil [simp]: "\<not> is_absolute []"
  by (simp_all add: is_absolute_def starts_with_def strip_prefix_def)

lemma is_absolute_append: "is_absolute b \<Longrightarrow> is_absolute (b @ p)"
  by (auto simp: is_absolute_def starts_with_prefix)

lemma components_Normal: "Normal n \<in> set (components p) \<Longrightarrow> valid_name n"
  using split_on_no_sep [of slash p]
  by (auto simp: components_def piece_component_def valid_name_def Let_def split: if_splits)

lemma components_absolute: "is_absolute p \<Longrightarrow> \<exists>cs. components p = RootDir # cs \<and> RootDir \<notin> set cs"
  by (auto simp: components_def piece_component_def Let_def)

lemma foldl_push_rooted:
  assumes "rooted b" "list_all valid_name (names b)" "RootDir \<notin> set cs"
    "\<forall>n. Normal n \<in> set cs \<longrightarrow> valid_name n"
  shows "rooted (foldl push_component b cs) \<and> list_all valid_name (names (foldl push_component b cs))"
  using assms
proof (induction cs arbitrary: b)
  case (Cons c cs)
  then have "rooted (push_component b c) \<and> list_all valid_name (names (push_component b c))"
    by (auto simp: push_component_def list_all_iff split: component.splits dest: in_set_butlastD)
  with Cons show ?case by auto
qed simp

lemma normalize_absolute:
  assumes "is_absolute p"
  shows "\<exists>ns. list_all valid_name ns \<and> normalize_path p = abs_display ns"
proof -
  obtain cs where cs: "components p = RootDir # cs" "RootDir \<notin> set cs"
    using components_absolute [OF assms] by blast
  let ?b = "foldl push_component \<lparr>rooted = True, names = []\<rparr> cs"
  have "rooted ?b \<and> list_all valid_name (names ?b)"
    using foldl_push_rooted [of "\<lparr>rooted = True, names = []\<rparr>" cs] cs components_Normal [of _ p] by auto
  then show ?thesis
    using cs by (auto simp: normalize_path_def push_component_def os_str_def abs_display_def Let_def)
qed

lemma components_abs_display:
  assumes "list_all valid_name ns"
  shows "components (abs_display ns) = RootDir # map Normal ns"
proof -
  have "concat (map piece_component (split_on slash (join [slash] ns))) = map Normal ns"
  proof (cases "ns = []")
    case False
    then have "split_on slash (join [slash] ns) = ns"
      using assms by (intro split_on_join) (auto simp: list_all_iff valid_name_def)
    moreover have "concat (map piece_component ns) = map Normal ns"
      using assms by (induction ns) (auto simp: piece_component_def valid_name_def)
    ultimately show ?thesis by simp
  qed (simp add: piece_component_def)
  then show ?thesis
    by (simp add: components_def abs_display_def Let_def piece_component_def)
qed

lemma foldl_push_Normal: "foldl push_component b (map Normal ns) = b\<lparr>names := names b @ ns\<rparr>"
  by (induction ns arbitrary: b) (auto simp: push_component_def)

lemma os_str_rooted [simp]: "os_str \<lparr>rooted = True, names = ns\<rparr> = abs_display ns"
  by (simp add: os_str_def abs_display_def)

lemma abs_display_not_Nil [simp]: "abs_display ns \<noteq> []"
  by (simp add: abs_display_def)

lemma normalize_abs_display:
  "list_all valid_name ns \<Longrightarrow> normalize_path (abs_display ns) = abs_display ns"
  by (simp add: normalize_path_def components_abs_display foldl_push_Normal push_component_def Let_def)

lemma abs_names_abs_display [simp]: "list_all valid_name ns \<Longrightarrow> abs_names (abs_display ns) = ns"
  by (induction ns) (auto simp: abs_names_def components_abs_display)

lemma is_normal_pathE:
  assumes "is_normal_path p"
  obtains ns where "list_all valid_name ns" "p = abs_display ns"
  using assms by (auto simp: is_normal_path_def)

lemma is_normal_path_abs_display [simp]: "list_all valid_name ns \<Longrightarrow> is_normal_path (abs_display ns)"
  by (simp add: is_normal_path_def)

lemma abs_names_inject: "is_normal_path p \<Longrightarrow> is_normal_path q \<Longrightarrow> abs_names p = abs_names q \<longleftrightarrow> p = q"
  by (metis is_normal_path_def)

lemma is_normal_path_absolute: "is_normal_path p \<Longrightarrow> is_absolute p"
  by (metis abs_display_def is_absolute_Cons is_normal_pathE)

lemma path_with_base_absolute: "is_absolute base \<Longrightarrow> is_absolute (path_with_base p base)"
  by (auto simp: path_with_base_def path_join_def is_absolute_append)

lemma resolve_is_normal_path:
  "is_absolute base \<Longrightarrow> is_normal_path (resolve_path_against_base home p base)"
  using normalize_absolute [OF path_with_base_absolute [of base]]
  by (metis absolutize_from_def is_normal_path_abs_display resolve_path_against_base_def)

lemma expand_home_absolute: "is_absolute p \<Longrightarrow> maybe_expand_home_directory home p = p"
  by (auto simp: maybe_expand_home_directory_def strip_prefix_Some is_absolute_def starts_with_prefix
      slash_def lit_def uc_def split: option.splits)

lemma resolve_normal_path:
  assumes "is_normal_path p"
  shows "resolve_path_against_base home p base = p"
proof -
  obtain ns where "list_all valid_name ns" "p = abs_display ns"
    using assms by (rule is_normal_pathE)
  then show ?thesis
    using is_normal_path_absolute [OF assms]
    by (simp add: resolve_path_against_base_def absolutize_from_def path_with_base_def
        expand_home_absolute normalize_abs_display)
qed

lemma parent_abs_display:
  assumes "list_all valid_name ns"
  shows "parent (abs_display ns) = (if ns = [] then None else Some (abs_display (butlast ns)))"
  using assms by (cases ns) (auto simp: parent_def components_abs_display push_component_def
      foldl_push_Normal simp flip: map_butlast)

text \<open>Normalised paths and their names are in bijection, so comparisons are those of lists of names.\<close>

lemma components_normal: "is_normal_path p \<Longrightarrow> components p = RootDir # map Normal (abs_names p)"
  by (metis abs_names_abs_display components_abs_display is_normal_pathE)

lemma map_Normal_inject [simp]: "map Normal ns = map Normal ms \<longleftrightarrow> ns = ms"
  by (simp add: inj_map_eq_map inj_def)

lemma prefix_map_Normal [simp]: "prefix (map Normal ns) (map Normal ms) \<longleftrightarrow> prefix ns ms"
  by (induction ns arbitrary: ms) (auto split: list.splits simp: prefix_def Cons_eq_map_conv)

lemma path_eq_normal:
  assumes "is_normal_path p" "is_normal_path q"
  shows "path_eq p q \<longleftrightarrow> p = q"
proof -
  have "path_eq p q \<longleftrightarrow> abs_names p = abs_names q"
    using assms by (simp add: path_eq_def components_normal)
  then show ?thesis using assms by (metis is_normal_path_def)
qed

lemma path_starts_with_normal:
  "is_normal_path p \<Longrightarrow> is_normal_path q \<Longrightarrow> path_starts_with p q \<longleftrightarrow> prefix (abs_names q) (abs_names p)"
  by (simp add: path_starts_with_def starts_with_prefix components_normal)

lemma path_starts_with_refl [simp]: "path_starts_with p p"
  by (simp add: path_starts_with_def starts_with_prefix)

lemma path_starts_with_trans: "path_starts_with p q \<Longrightarrow> path_starts_with q r \<Longrightarrow> path_starts_with p r"
  by (auto simp: path_starts_with_def starts_with_prefix)

lemma path_starts_with_length: "path_starts_with p q \<Longrightarrow> length (components q) \<le> length (components p)"
  by (simp add: path_starts_with_def starts_with_prefix prefix_length_le)

lemma path_starts_with_same_length:
  "path_starts_with p q \<Longrightarrow> path_starts_with p r \<Longrightarrow> length (components q) = length (components r) \<Longrightarrow>
    components q = components r"
  by (auto simp: path_starts_with_def starts_with_prefix prefix_def append_eq_append_conv)

lemma path_starts_with_cases:
  "path_starts_with p q \<Longrightarrow> path_starts_with p r \<Longrightarrow> path_starts_with q r \<or> path_starts_with r q"
  by (auto simp: path_starts_with_def starts_with_prefix dest: prefix_same_cases)

lemma strip_prefix_Some_starts: "path_strip_prefix p q = Some cs \<longleftrightarrow> components p = components q @ cs"
  by (simp add: path_strip_prefix_def strip_prefix_Some)

text \<open>Evaluation on paths given by their names.\<close>

lemma take_lit [simp]: "take n (lit s) = lit (take n s)"
  by (simp add: lit_def take_map)

lemma valid_name_lit: "valid_name (lit s) \<longleftrightarrow> s \<noteq> '''' \<and> CHR ''/'' \<notin> set s \<and> s \<noteq> ''.'' \<and> s \<noteq> ''..''"
proof -
  have "slash = uc (CHR ''/'')" by (simp add: slash_def uc_def)
  then have "slash \<in> set (lit s) \<longleftrightarrow> CHR ''/'' \<in> set s"
    by (metis image_iff list.set_map lit_def uc_inject)
  then show ?thesis by (simp add: valid_name_def)
qed

lemma last_join_names:
  assumes "list_all valid_name ns" "ns \<noteq> []"
  shows "join [slash] ns \<noteq> [] \<and> last (join [slash] ns) \<noteq> slash"
proof -
  have "split_on slash (join [slash] ns) = ns"
    using assms by (intro split_on_join) (auto simp: list_all_iff valid_name_def)
  then have "last (split_on slash (join [slash] ns)) \<noteq> []"
    using assms by (auto simp: list_all_iff valid_name_def)
  then show ?thesis using last_split_on [of slash "join [slash] ns"] by blast
qed

lemma abs_join_name:
  assumes "list_all valid_name ns" "valid_name n" "\<not> starts_with n (lit ''~'')"
  shows "abs_join home (abs_display ns) n = abs_display (ns @ [n])"
proof -
  have h: "maybe_expand_home_directory home n = n"
    using assms(3) by (auto simp: maybe_expand_home_directory_def strip_prefix_Some starts_with_prefix
        split: option.splits)
  have na: "\<not> is_absolute n"
    using assms(2) by (auto simp: valid_name_def is_absolute_def starts_with_prefix prefix_def)
  have "path_join (abs_display ns) n = abs_display (ns @ [n])"
    using na last_join_names [OF assms(1)]
    by (cases "ns = []") (auto simp: path_join_def abs_display_def join_snoc ends_with_suffix suffix_def
        dest: arg_cong [where f = last])
  then show ?thesis
    using assms na by (simp add: abs_join_def resolve_path_against_base_def h absolutize_from_def
        path_with_base_def normalize_abs_display)
qed

text \<open>
  Resolving any path against an absolute base gives an absolute, normalised path (no empty, dot
  or dot-dot component), and resolving the result again, against any base, changes nothing.
\<close>

theorem resolve_path_normalised:
  assumes "is_absolute base"
  shows "is_normal_path (resolve_path_against_base home p base) \<and>
    resolve_path_against_base home' (resolve_path_against_base home p base) base' =
      resolve_path_against_base home p base"
  using resolve_is_normal_path [OF assms] resolve_normal_path by blast

theorem resolve_path_normalised_witness:
  "is_normal_path (resolve_path_against_base (Some (lit ''/root'')) (lit ''../a/./b'') (lit ''/w''))"
  using resolve_path_normalised [of "lit ''/w''" "Some (lit ''/root'')" "lit ''../a/./b''"]
  by (simp add: is_absolute_def str_eval slash_def)

end
