(* ===== verification/File_System.thy ===== *)
theory File_System
  imports Utf8 Abs_Path "HOL-Library.AList"
begin

text \<open>
  The trait \<^verbatim>\<open>ExecutorFileSystem\<close> of \<^verbatim>\<open>codex-rs/file-system/src/lib.rs\<close> and its local implementations in
  \<^verbatim>\<open>codex-rs/exec-server/src/local_file_system.rs\<close>. A trait object is a record of operations on a state
  \<open>'s\<close>; the sandbox context is a type parameter with the predicate \<^verbatim>\<open>should_run_in_sandbox\<close> as an argument;
  the operating system below \<^verbatim>\<open>tokio::fs\<close> is a record of operations too, an argument of every definition
  that calls it. The locale \<open>file_store\<close> is the contract the patch engine relies on; it is
  interpreted on the local file system over a tree of directories and regular files.
\<close>

section \<open>Errors, metadata and operations\<close>

datatype io_error_kind = NotFound | InvalidInput | InvalidData | AlreadyExists | NotADirectory
  | IsADirectory | DirectoryNotEmpty | PermissionDenied | OtherKind

record io_error =
  kind :: io_error_kind
  error_text :: str

record file_metadata =
  is_directory :: bool
  is_file :: bool
  is_symlink :: bool
  created_at_ms :: int
  modified_at_ms :: int

record directory_entry =
  file_name :: str
  entry_is_directory :: bool
  entry_is_file :: bool

record ('s, 'sb) executor_file_system =
  read_file :: "str \<Rightarrow> 'sb option \<Rightarrow> 's \<Rightarrow> io_error + byte list"
  write_file :: "str \<Rightarrow> byte list \<Rightarrow> 'sb option \<Rightarrow> 's \<Rightarrow> (io_error + unit) \<times> 's"
  create_directory :: "str \<Rightarrow> bool \<Rightarrow> 'sb option \<Rightarrow> 's \<Rightarrow> (io_error + unit) \<times> 's"
  get_metadata :: "str \<Rightarrow> 'sb option \<Rightarrow> 's \<Rightarrow> io_error + file_metadata"
  read_directory :: "str \<Rightarrow> 'sb option \<Rightarrow> 's \<Rightarrow> io_error + directory_entry list"
  remove_path :: "str \<Rightarrow> bool \<Rightarrow> bool \<Rightarrow> 'sb option \<Rightarrow> 's \<Rightarrow> (io_error + unit) \<times> 's"

definition read_file_text ::
  "('s, 'sb) executor_file_system \<Rightarrow> str \<Rightarrow> 'sb option \<Rightarrow> 's \<Rightarrow> io_error + str" where
  "read_file_text fs path sandbox s =
     (case read_file fs path sandbox s of
        Inl e \<Rightarrow> Inl e
      | Inr bytes \<Rightarrow>
          (case from_utf8 bytes of
             Inl _ \<Rightarrow> Inl \<lparr>kind = InvalidData, error_text = lit ''invalid utf-8 sequence''\<rparr>
           | Inr text \<Rightarrow> Inr text))"

section \<open>The operating system\<close>

text \<open>\<^verbatim>\<open>std::fs::Metadata\<close>, times in nanoseconds since the epoch, and the calls of \<^verbatim>\<open>tokio::fs\<close>.\<close>

record os_metadata =
  st_is_dir :: bool
  st_is_file :: bool
  st_is_symlink :: bool
  st_len :: nat
  st_created :: "int option"
  st_modified :: "int option"

record 's os_fs =
  os_metadata :: "str \<Rightarrow> 's \<Rightarrow> io_error + os_metadata"
  os_symlink_metadata :: "str \<Rightarrow> 's \<Rightarrow> io_error + os_metadata"
  os_read :: "str \<Rightarrow> 's \<Rightarrow> io_error + byte list"
  os_write :: "str \<Rightarrow> byte list \<Rightarrow> 's \<Rightarrow> (io_error + unit) \<times> 's"
  os_create_dir :: "str \<Rightarrow> 's \<Rightarrow> (io_error + unit) \<times> 's"
  os_create_dir_all :: "str \<Rightarrow> 's \<Rightarrow> (io_error + unit) \<times> 's"
  os_read_dir :: "str \<Rightarrow> 's \<Rightarrow> io_error + str list"
  os_remove_dir :: "str \<Rightarrow> 's \<Rightarrow> (io_error + unit) \<times> 's"
  os_remove_dir_all :: "str \<Rightarrow> 's \<Rightarrow> (io_error + unit) \<times> 's"
  os_remove_file :: "str \<Rightarrow> 's \<Rightarrow> (io_error + unit) \<times> 's"

section \<open>DirectFileSystem\<close>

definition MAX_READ_FILE_BYTES :: nat where
  "MAX_READ_FILE_BYTES = 512 * 1024 * 1024"

definition reject_sandbox_context :: "'sb option \<Rightarrow> io_error + unit" where
  "reject_sandbox_context sandbox =
     (case sandbox of
        Some _ \<Rightarrow> Inl \<lparr>kind = InvalidInput,
          error_text = lit ''direct filesystem operations do not accept sandbox context''\<rparr>
      | None \<Rightarrow> Inr ())"

definition system_time_to_unix_ms :: "int \<Rightarrow> int" where
  "system_time_to_unix_ms time =
     (if time < 0 then 0 else let ms = time div 1000000 in if ms \<le> I64_MAX then ms else 0)"

definition direct_read_file :: "'s os_fs \<Rightarrow> str \<Rightarrow> 'sb option \<Rightarrow> 's \<Rightarrow> io_error + byte list" where
  "direct_read_file os path sandbox s =
     (case reject_sandbox_context sandbox of
        Inl e \<Rightarrow> Inl e
      | Inr _ \<Rightarrow>
          (case os_metadata os path s of
             Inl e \<Rightarrow> Inl e
           | Inr metadata \<Rightarrow>
               if MAX_READ_FILE_BYTES < st_len metadata then
                 Inl \<lparr>kind = InvalidInput,
                   error_text = lit ''file is too large to read: limit is 536870912 bytes''\<rparr>
               else os_read os path s))"

definition direct_write_file ::
  "'s os_fs \<Rightarrow> str \<Rightarrow> byte list \<Rightarrow> 'sb option \<Rightarrow> 's \<Rightarrow> (io_error + unit) \<times> 's" where
  "direct_write_file os path contents sandbox s =
     (case reject_sandbox_context sandbox of
        Inl e \<Rightarrow> (Inl e, s)
      | Inr _ \<Rightarrow> os_write os path contents s)"

definition direct_create_directory ::
  "'s os_fs \<Rightarrow> str \<Rightarrow> bool \<Rightarrow> 'sb option \<Rightarrow> 's \<Rightarrow> (io_error + unit) \<times> 's" where
  "direct_create_directory os path recursive sandbox s =
     (case reject_sandbox_context sandbox of
        Inl e \<Rightarrow> (Inl e, s)
      | Inr _ \<Rightarrow> if recursive then os_create_dir_all os path s else os_create_dir os path s)"

definition direct_get_metadata :: "'s os_fs \<Rightarrow> str \<Rightarrow> 'sb option \<Rightarrow> 's \<Rightarrow> io_error + file_metadata" where
  "direct_get_metadata os path sandbox s =
     (case reject_sandbox_context sandbox of
        Inl e \<Rightarrow> Inl e
      | Inr _ \<Rightarrow>
          (case os_metadata os path s of
             Inl e \<Rightarrow> Inl e
           | Inr metadata \<Rightarrow>
               (case os_symlink_metadata os path s of
                  Inl e \<Rightarrow> Inl e
                | Inr symlink_metadata \<Rightarrow>
                    Inr \<lparr>is_directory = st_is_dir metadata, is_file = st_is_file metadata,
                      is_symlink = st_is_symlink symlink_metadata,
                      created_at_ms = (case st_created metadata of None \<Rightarrow> 0
                        | Some t \<Rightarrow> system_time_to_unix_ms t),
                      modified_at_ms = (case st_modified metadata of None \<Rightarrow> 0
                        | Some t \<Rightarrow> system_time_to_unix_ms t)\<rparr>)))"

fun directory_entries :: "'s os_fs \<Rightarrow> str \<Rightarrow> str list \<Rightarrow> 's \<Rightarrow> directory_entry list" where
  "directory_entries os path [] s = []"
| "directory_entries os path (name # rest) s =
     (case os_metadata os (path_join path name) s of
        Inl _ \<Rightarrow> directory_entries os path rest s
      | Inr metadata \<Rightarrow>
          \<lparr>file_name = name, entry_is_directory = st_is_dir metadata,
            entry_is_file = st_is_file metadata\<rparr> # directory_entries os path rest s)"

definition direct_read_directory ::
  "'s os_fs \<Rightarrow> str \<Rightarrow> 'sb option \<Rightarrow> 's \<Rightarrow> io_error + directory_entry list" where
  "direct_read_directory os path sandbox s =
     (case reject_sandbox_context sandbox of
        Inl e \<Rightarrow> Inl e
      | Inr _ \<Rightarrow>
          (case os_read_dir os path s of
             Inl e \<Rightarrow> Inl e
           | Inr found \<Rightarrow> Inr (directory_entries os path found s)))"

definition direct_remove ::
  "'s os_fs \<Rightarrow> str \<Rightarrow> bool \<Rightarrow> bool \<Rightarrow> 'sb option \<Rightarrow> 's \<Rightarrow> (io_error + unit) \<times> 's" where
  "direct_remove os path recursive force sandbox s =
     (case reject_sandbox_context sandbox of
        Inl e \<Rightarrow> (Inl e, s)
      | Inr _ \<Rightarrow>
          (case os_symlink_metadata os path s of
             Inr metadata \<Rightarrow>
               if st_is_dir metadata then
                 (if recursive then os_remove_dir_all os path s else os_remove_dir os path s)
               else os_remove_file os path s
           | Inl e \<Rightarrow> if kind e = NotFound \<and> force then (Inr (), s) else (Inl e, s)))"

definition direct_file_system :: "'s os_fs \<Rightarrow> ('s, 'sb) executor_file_system" where
  "direct_file_system os =
     \<lparr>read_file = direct_read_file os, write_file = direct_write_file os,
      create_directory = direct_create_directory os, get_metadata = direct_get_metadata os,
      read_directory = direct_read_directory os, remove_path = direct_remove os\<rparr>"

section \<open>UnsandboxedFileSystem and LocalFileSystem\<close>

definition sandbox_unavailable :: io_error where
  "sandbox_unavailable = \<lparr>kind = InvalidInput,
     error_text = lit ''sandboxed filesystem operations require configured runtime paths''\<rparr>"

definition is_some_and :: "('a \<Rightarrow> bool) \<Rightarrow> 'a option \<Rightarrow> bool" where
  "is_some_and f x = (case x of None \<Rightarrow> False | Some y \<Rightarrow> f y)"

definition reject_platform_sandbox_context :: "('sb \<Rightarrow> bool) \<Rightarrow> 'sb option \<Rightarrow> io_error + unit" where
  "reject_platform_sandbox_context should_run sandbox =
     (if is_some_and should_run sandbox then Inl sandbox_unavailable else Inr ())"

text \<open>The question-mark operator after the check, for operations that only read and that update.\<close>

definition try_query :: "io_error + unit \<Rightarrow> io_error + 'a \<Rightarrow> io_error + 'a" where
  "try_query check r = (case check of Inl e \<Rightarrow> Inl e | Inr _ \<Rightarrow> r)"

definition try_update :: "io_error + unit \<Rightarrow> 's \<Rightarrow> (io_error + 'a) \<times> 's \<Rightarrow> (io_error + 'a) \<times> 's" where
  "try_update check s r = (case check of Inl e \<Rightarrow> (Inl e, s) | Inr _ \<Rightarrow> r)"

definition unsandboxed_file_system ::
  "('sb \<Rightarrow> bool) \<Rightarrow> 's os_fs \<Rightarrow> ('s, 'sb) executor_file_system" where
  "unsandboxed_file_system should_run os =
     (let fs = (direct_file_system os :: ('s, 'sb) executor_file_system);
          check = reject_platform_sandbox_context should_run
      in \<lparr>read_file = (\<lambda>p sb s. try_query (check sb) (read_file fs p None s)),
          write_file = (\<lambda>p c sb s. try_update (check sb) s (write_file fs p c None s)),
          create_directory = (\<lambda>p r sb s. try_update (check sb) s (create_directory fs p r None s)),
          get_metadata = (\<lambda>p sb s. try_query (check sb) (get_metadata fs p None s)),
          read_directory = (\<lambda>p sb s. try_query (check sb) (read_directory fs p None s)),
          remove_path = (\<lambda>p r f sb s. try_update (check sb) s (remove_path fs p r f None s))\<rparr>)"

text \<open>The sandboxed file system runs its operations in a helper process: it is an argument.\<close>

definition file_system_for ::
  "('sb \<Rightarrow> bool) \<Rightarrow> 's os_fs \<Rightarrow> ('s, 'sb) executor_file_system option \<Rightarrow> 'sb option \<Rightarrow>
   io_error + ('s, 'sb) executor_file_system" where
  "file_system_for should_run os sandboxed sandbox =
     (if is_some_and should_run sandbox then
        (case sandboxed of None \<Rightarrow> Inl sandbox_unavailable | Some fs \<Rightarrow> Inr fs)
      else Inr (unsandboxed_file_system should_run os))"

definition local_file_system ::
  "('sb \<Rightarrow> bool) \<Rightarrow> 's os_fs \<Rightarrow> ('s, 'sb) executor_file_system option \<Rightarrow>
   ('s, 'sb) executor_file_system" where
  "local_file_system should_run os sandboxed =
     (let for = file_system_for should_run os sandboxed
      in \<lparr>read_file = (\<lambda>p sb s. case for sb of Inl e \<Rightarrow> Inl e | Inr fs \<Rightarrow> read_file fs p sb s),
          write_file = (\<lambda>p c sb s. case for sb of Inl e \<Rightarrow> (Inl e, s) | Inr fs \<Rightarrow> write_file fs p c sb s),
          create_directory = (\<lambda>p r sb s. case for sb of Inl e \<Rightarrow> (Inl e, s)
            | Inr fs \<Rightarrow> create_directory fs p r sb s),
          get_metadata = (\<lambda>p sb s. case for sb of Inl e \<Rightarrow> Inl e | Inr fs \<Rightarrow> get_metadata fs p sb s),
          read_directory = (\<lambda>p sb s. case for sb of Inl e \<Rightarrow> Inl e | Inr fs \<Rightarrow> read_directory fs p sb s),
          remove_path = (\<lambda>p r f sb s. case for sb of Inl e \<Rightarrow> (Inl e, s)
            | Inr fs \<Rightarrow> remove_path fs p r f sb s)\<rparr>)"

section \<open>The contract of a file store\<close>

text \<open>
  \<open>view s p\<close> is the contents of the regular file at the normalised path \<open>p\<close>. A failed write may leave
  the file itself in any state; no operation touches another path.
\<close>

locale file_store =
  fixes fs :: "('s, 'sb) executor_file_system"
    and sb :: "'sb option"
    and view :: "'s \<Rightarrow> str \<Rightarrow> byte list option"
  assumes read_view: "is_normal_path p \<Longrightarrow> read_file fs p sb s = Inr b \<Longrightarrow> view s p = Some b"
    and write_ok: "is_normal_path p \<Longrightarrow> write_file fs p b sb s = (Inr u, s') \<Longrightarrow> view s' = (view s)(p \<mapsto> b)"
    and write_err: "is_normal_path p \<Longrightarrow> write_file fs p b sb s = (Inl e, s') \<Longrightarrow> q \<noteq> p \<Longrightarrow>
      view s' q = view s q"
    and mkdir_view: "is_normal_path p \<Longrightarrow> create_directory fs p r sb s = (res, s') \<Longrightarrow> view s' = view s"
    and remove_ok: "is_normal_path p \<Longrightarrow> remove_path fs p False False sb s = (Inr u, s') \<Longrightarrow>
      view s' = (view s)(p := None)"
    and remove_err: "is_normal_path p \<Longrightarrow> remove_path fs p False False sb s = (Inl e, s') \<Longrightarrow>
      view s' = view s"

section \<open>A tree of directories and files\<close>

text \<open>
  The calls of \<^verbatim>\<open>tokio::fs\<close> on a file system without symbolic links and permissions: an association
  list from the names on the path to the node there; the root always exists.
\<close>

datatype node = FileNode "byte list" | DirNode

type_synonym tree_fs = "(str list \<times> node) list"

definition node_at :: "tree_fs \<Rightarrow> str list \<Rightarrow> node option" where
  "node_at t ns = (if ns = [] then Some DirNode else map_of t ns)"

definition os_error :: "io_error_kind \<Rightarrow> io_error" where
  "os_error k = \<lparr>kind = k, error_text = []\<rparr>"

text \<open>Walking the proper ancestors: the first that is missing or not a directory stops the walk.\<close>

definition walk_error :: "tree_fs \<Rightarrow> str list \<Rightarrow> io_error_kind option" where
  "walk_error t ns =
     (case List.find (\<lambda>i. node_at t (take i ns) \<noteq> Some DirNode) [0..<length ns] of
        None \<Rightarrow> None
      | Some i \<Rightarrow> Some (if node_at t (take i ns) = None then NotFound else NotADirectory))"

definition stat_node :: "node \<Rightarrow> os_metadata" where
  "stat_node n = \<lparr>st_is_dir = (n = DirNode), st_is_file = (n \<noteq> DirNode), st_is_symlink = False,
     st_len = (case n of FileNode b \<Rightarrow> length b | DirNode \<Rightarrow> 0), st_created = None, st_modified = None\<rparr>"

definition tree_lookup :: "str \<Rightarrow> tree_fs \<Rightarrow> io_error + node" where
  "tree_lookup p t =
     (case walk_error t (abs_names p) of
        Some k \<Rightarrow> Inl (os_error k)
      | None \<Rightarrow> (case node_at t (abs_names p) of None \<Rightarrow> Inl (os_error NotFound) | Some n \<Rightarrow> Inr n))"

definition tree_metadata :: "str \<Rightarrow> tree_fs \<Rightarrow> io_error + os_metadata" where
  "tree_metadata p t = map_sum id stat_node (tree_lookup p t)"

definition tree_read :: "str \<Rightarrow> tree_fs \<Rightarrow> io_error + byte list" where
  "tree_read p t =
     (case tree_lookup p t of
        Inl e \<Rightarrow> Inl e
      | Inr DirNode \<Rightarrow> Inl (os_error IsADirectory)
      | Inr (FileNode b) \<Rightarrow> Inr b)"

definition tree_write :: "str \<Rightarrow> byte list \<Rightarrow> tree_fs \<Rightarrow> (io_error + unit) \<times> tree_fs" where
  "tree_write p b t =
     (case walk_error t (abs_names p) of
        Some k \<Rightarrow> (Inl (os_error k), t)
      | None \<Rightarrow>
          if node_at t (abs_names p) = Some DirNode then (Inl (os_error IsADirectory), t)
          else (Inr (), AList.update (abs_names p) (FileNode b) t))"

definition tree_create_dir :: "str \<Rightarrow> tree_fs \<Rightarrow> (io_error + unit) \<times> tree_fs" where
  "tree_create_dir p t =
     (case walk_error t (abs_names p) of
        Some k \<Rightarrow> (Inl (os_error k), t)
      | None \<Rightarrow>
          if node_at t (abs_names p) \<noteq> None then (Inl (os_error AlreadyExists), t)
          else (Inr (), AList.update (abs_names p) DirNode t))"

fun make_dirs :: "str list \<Rightarrow> str list \<Rightarrow> tree_fs \<Rightarrow> (io_error + unit) \<times> tree_fs" where
  "make_dirs done [] t = (Inr (), t)"
| "make_dirs done (n # ns) t =
     (case node_at t (done @ [n]) of
        None \<Rightarrow> make_dirs (done @ [n]) ns (AList.update (done @ [n]) DirNode t)
      | Some DirNode \<Rightarrow> make_dirs (done @ [n]) ns t
      | Some (FileNode _) \<Rightarrow> (Inl (os_error NotADirectory), t))"

definition tree_create_dir_all :: "str \<Rightarrow> tree_fs \<Rightarrow> (io_error + unit) \<times> tree_fs" where
  "tree_create_dir_all p t = make_dirs [] (abs_names p) t"

definition child_names :: "str list \<Rightarrow> tree_fs \<Rightarrow> str list" where
  "child_names ns t =
     map last (filter (\<lambda>k. k \<noteq> [] \<and> butlast k = ns) (remdups (map fst t)))"

definition tree_read_dir :: "str \<Rightarrow> tree_fs \<Rightarrow> io_error + str list" where
  "tree_read_dir p t =
     (case tree_lookup p t of
        Inl e \<Rightarrow> Inl e
      | Inr (FileNode _) \<Rightarrow> Inl (os_error NotADirectory)
      | Inr DirNode \<Rightarrow> Inr (child_names (abs_names p) t))"

definition tree_remove_dir :: "str \<Rightarrow> tree_fs \<Rightarrow> (io_error + unit) \<times> tree_fs" where
  "tree_remove_dir p t =
     (case tree_lookup p t of
        Inl e \<Rightarrow> (Inl e, t)
      | Inr (FileNode _) \<Rightarrow> (Inl (os_error NotADirectory), t)
      | Inr DirNode \<Rightarrow>
          if abs_names p = [] then (Inl (os_error PermissionDenied), t)
          else if child_names (abs_names p) t \<noteq> [] then (Inl (os_error DirectoryNotEmpty), t)
          else (Inr (), AList.delete (abs_names p) t))"

definition tree_remove_dir_all :: "str \<Rightarrow> tree_fs \<Rightarrow> (io_error + unit) \<times> tree_fs" where
  "tree_remove_dir_all p t =
     (case tree_lookup p t of
        Inl e \<Rightarrow> (Inl e, t)
      | Inr (FileNode _) \<Rightarrow> (Inl (os_error NotADirectory), t)
      | Inr DirNode \<Rightarrow>
          if abs_names p = [] then (Inl (os_error PermissionDenied), t)
          else (Inr (), filter (\<lambda>(k, _). take (length (abs_names p)) k \<noteq> abs_names p) t))"

definition tree_remove_file :: "str \<Rightarrow> tree_fs \<Rightarrow> (io_error + unit) \<times> tree_fs" where
  "tree_remove_file p t =
     (case tree_lookup p t of
        Inl e \<Rightarrow> (Inl e, t)
      | Inr DirNode \<Rightarrow> (Inl (os_error IsADirectory), t)
      | Inr (FileNode _) \<Rightarrow> (Inr (), AList.delete (abs_names p) t))"

definition tree_os :: "tree_fs os_fs" where
  "tree_os = \<lparr>os_metadata = tree_metadata, os_symlink_metadata = tree_metadata, os_read = tree_read,
     os_write = tree_write, os_create_dir = tree_create_dir, os_create_dir_all = tree_create_dir_all,
     os_read_dir = tree_read_dir, os_remove_dir = tree_remove_dir,
     os_remove_dir_all = tree_remove_dir_all, os_remove_file = tree_remove_file\<rparr>"

definition tree_view :: "tree_fs \<Rightarrow> str \<Rightarrow> byte list option" where
  "tree_view t p =
     (if is_normal_path p then
        (case node_at t (abs_names p) of Some (FileNode b) \<Rightarrow> Some b | _ \<Rightarrow> None)
      else None)"

lemma node_at_update: "ns \<noteq> [] \<Longrightarrow> node_at (AList.update ns n t) = (node_at t)(ns \<mapsto> n)"
  by (auto simp: node_at_def update_conv' fun_eq_iff)

lemma node_at_delete: "ns \<noteq> [] \<Longrightarrow> node_at (AList.delete ns t) = (node_at t)(ns := None)"
  by (auto simp: node_at_def delete_conv' fun_eq_iff)

lemma node_at_root [simp]: "node_at t [] = Some DirNode"
  by (simp add: node_at_def)

lemma tree_view_upd:
  assumes "is_normal_path p" "abs_names p \<noteq> []"
  shows "tree_view (AList.update (abs_names p) (FileNode b) t) = (tree_view t)(p \<mapsto> b)"
    "tree_view (AList.delete (abs_names p) t) = (tree_view t)(p := None)"
  using assms by (auto simp: tree_view_def node_at_update node_at_delete abs_names_inject fun_eq_iff)

lemma tree_view_mkdir:
  assumes "ns \<noteq> []" "node_at t ns = None"
  shows "tree_view (AList.update ns DirNode t) = tree_view t"
  using assms by (auto simp: tree_view_def node_at_update fun_eq_iff)

lemma make_dirs_view: "make_dirs d ns t = (r, t') \<Longrightarrow> tree_view t' = tree_view t"
  by (induction d ns t rule: make_dirs.induct)
    (auto simp: tree_view_mkdir split: option.splits node.splits)

lemma tree_os_simps [simp]:
  "os_metadata tree_os = tree_metadata" "os_symlink_metadata tree_os = tree_metadata"
  "os_read tree_os = tree_read" "os_write tree_os = tree_write"
  "os_create_dir tree_os = tree_create_dir" "os_create_dir_all tree_os = tree_create_dir_all"
  "os_read_dir tree_os = tree_read_dir" "os_remove_dir tree_os = tree_remove_dir"
  "os_remove_dir_all tree_os = tree_remove_dir_all" "os_remove_file tree_os = tree_remove_file"
  by (simp_all add: tree_os_def)

lemma local_file_system_None:
  fixes sr :: "'sb \<Rightarrow> bool"
  shows "read_file (local_file_system sr os sbx) p None = direct_read_file os p (None :: 'sb option)"
  "write_file (local_file_system sr os sbx) p c None = direct_write_file os p c (None :: 'sb option)"
  "create_directory (local_file_system sr os sbx) p r None =
     direct_create_directory os p r (None :: 'sb option)"
  "get_metadata (local_file_system sr os sbx) p None = direct_get_metadata os p (None :: 'sb option)"
  "remove_path (local_file_system sr os sbx) p r f None = direct_remove os p r f (None :: 'sb option)"
  by (auto simp: local_file_system_def file_system_for_def unsandboxed_file_system_def
      direct_file_system_def reject_platform_sandbox_context_def is_some_and_def try_query_def
      try_update_def Let_def fun_eq_iff)

lemmas direct_defs = direct_read_file_def direct_write_file_def direct_create_directory_def
  direct_get_metadata_def direct_remove_def reject_sandbox_context_def

interpretation local_tree: file_store "local_file_system should_run tree_os sandboxed" None tree_view
proof
  fix p b s and s' :: tree_fs and u e q r res
  assume p: "is_normal_path p"
  note defs = local_file_system_None direct_defs
  show "read_file (local_file_system should_run tree_os sandboxed) p None s = Inr b \<Longrightarrow>
      tree_view s p = Some b"
    using p by (auto simp: defs tree_read_def tree_lookup_def tree_metadata_def tree_view_def
        split: sum.splits if_splits option.splits node.splits)
  show "write_file (local_file_system should_run tree_os sandboxed) p b None s = (Inr u, s') \<Longrightarrow>
      tree_view s' = (tree_view s)(p \<mapsto> b)"
    using p tree_view_upd [OF p] by (cases "abs_names p = []")
      (auto simp: defs tree_write_def split: if_splits option.splits)
  show "write_file (local_file_system should_run tree_os sandboxed) p b None s = (Inl e, s') \<Longrightarrow>
      q \<noteq> p \<Longrightarrow> tree_view s' q = tree_view s q"
    by (auto simp: defs tree_write_def split: if_splits option.splits)
  show "create_directory (local_file_system should_run tree_os sandboxed) p r None s = (res, s') \<Longrightarrow>
      tree_view s' = tree_view s"
    using tree_view_mkdir [of "abs_names p" s] make_dirs_view by (cases "abs_names p = []")
      (auto simp: defs tree_create_dir_all_def tree_create_dir_def split: if_splits option.splits)
  show "remove_path (local_file_system should_run tree_os sandboxed) p False False None s = (Inr u, s') \<Longrightarrow>
      tree_view s' = (tree_view s)(p := None)"
    using tree_view_upd [OF p] by (cases "abs_names p = []")
      (auto simp: defs tree_remove_file_def tree_remove_dir_def tree_metadata_def tree_lookup_def
        stat_node_def split: if_splits option.splits sum.splits node.splits)
  show "remove_path (local_file_system should_run tree_os sandboxed) p False False None s = (Inl e, s') \<Longrightarrow>
      tree_view s' = tree_view s"
    by (auto simp: defs tree_remove_file_def tree_remove_dir_def
        split: if_splits option.splits sum.splits node.splits)
qed

end
