(* ===== verification/Patch_Apply.thy ===== *)
theory Patch_Apply
  imports Seek_Sequence Patch_Parser File_System
begin

text \<open>
  \<^verbatim>\<open>codex-rs/apply-patch/src/lib.rs\<close>, the pure part: turning the chunks of an update hunk into line
  replacements (\<open>compute_replacements\<close>), carrying them out (\<open>apply_replacements\<close>) and rebuilding the
  file contents (\<open>new_contents_from_chunks\<close>, the body of \<^verbatim>\<open>derive_new_contents_from_chunks\<close> after the
  file has been read). \<^verbatim>\<open>Vec::insert\<close> panics when its index is past the end, so the results carry an
  outer \<open>option\<close> whose \<open>None\<close> is the panic; the reference semantics is \<open>splice\<close>.
\<close>

section \<open>Errors\<close>

datatype apply_patch_error =
  ParseError parse_error
| IoError (io_context: str) (io_source: io_error)
| ComputeReplacements str
| ImplicitInvocation

section \<open>Computing replacements\<close>

type_synonym replacement = "nat \<times> nat \<times> str list"

definition last_is_empty :: "str list \<Rightarrow> bool" where
  "last_is_empty ls \<longleftrightarrow> ls \<noteq> [] \<and> last ls = []"

definition seek_change_context ::
  "str list \<Rightarrow> str \<Rightarrow> str option \<Rightarrow> nat \<Rightarrow> apply_patch_error + nat" where
  "seek_change_context original_lines path ctx line_index =
     (case ctx of
        None \<Rightarrow> Inr line_index
      | Some ctx_line \<Rightarrow>
          (case seek_sequence original_lines [ctx_line] line_index False of
             Some idx \<Rightarrow> Inr (idx + 1)
           | None \<Rightarrow> Inl (ComputeReplacements (lit ''Failed to find context '' @ [39] @ ctx_line @
               [39] @ lit '' in '' @ path))))"

text \<open>Locating \<open>old_lines\<close>, with the retry that drops a trailing empty line: start, pattern, new lines.\<close>

definition seek_old_lines ::
  "str list \<Rightarrow> update_file_chunk \<Rightarrow> nat \<Rightarrow> (nat \<times> nat \<times> str list) option" where
  "seek_old_lines original_lines chunk line_index =
     (case seek_sequence original_lines (old_lines chunk) line_index (is_end_of_file chunk) of
        Some i \<Rightarrow> Some (i, length (old_lines chunk), new_lines chunk)
      | None \<Rightarrow>
          if last_is_empty (old_lines chunk) then
            (let pattern = butlast (old_lines chunk);
                 new_slice = (if last_is_empty (new_lines chunk) then butlast (new_lines chunk)
                   else new_lines chunk)
             in map_option (\<lambda>i. (i, length pattern, new_slice))
                  (seek_sequence original_lines pattern line_index (is_end_of_file chunk)))
          else None)"

fun compute_replacements_from ::
  "str list \<Rightarrow> str \<Rightarrow> update_file_chunk list \<Rightarrow> nat \<Rightarrow> apply_patch_error + replacement list" where
  "compute_replacements_from original_lines path [] line_index = Inr []"
| "compute_replacements_from original_lines path (chunk # chunks) line_index =
     (case seek_change_context original_lines path (change_context chunk) line_index of
        Inl e \<Rightarrow> Inl e
      | Inr li \<Rightarrow>
          if old_lines chunk = [] then
            (let insertion_idx = (if last_is_empty original_lines then length original_lines - 1
               else length original_lines)
             in case compute_replacements_from original_lines path chunks li of
                  Inl e \<Rightarrow> Inl e
                | Inr rs \<Rightarrow> Inr ((insertion_idx, 0, new_lines chunk) # rs))
          else
            (case seek_old_lines original_lines chunk li of
               Some (start_idx, n, new_slice) \<Rightarrow>
                 (case compute_replacements_from original_lines path chunks (start_idx + n) of
                    Inl e \<Rightarrow> Inl e
                  | Inr rs \<Rightarrow> Inr ((start_idx, n, new_slice) # rs))
             | None \<Rightarrow> Inl (ComputeReplacements (lit ''Failed to find expected lines in '' @ path @
                 lit '':'' @ [newline] @ join [newline] (old_lines chunk)))))"

definition compute_replacements ::
  "str list \<Rightarrow> str \<Rightarrow> update_file_chunk list \<Rightarrow> apply_patch_error + replacement list" where
  "compute_replacements original_lines path chunks =
     (case compute_replacements_from original_lines path chunks 0 of
        Inl e \<Rightarrow> Inl e
      | Inr rs \<Rightarrow> Inr (sort_key fst rs))"

section \<open>Applying replacements\<close>

primrec remove_lines :: "nat \<Rightarrow> nat \<Rightarrow> 'a list \<Rightarrow> 'a list" where
  "remove_lines start_idx 0 ls = ls"
| "remove_lines start_idx (Suc n) ls =
     remove_lines start_idx n
       (if start_idx < length ls then take start_idx ls @ drop (Suc start_idx) ls else ls)"

fun insert_lines :: "nat \<Rightarrow> 'a list \<Rightarrow> 'a list \<Rightarrow> 'a list option" where
  "insert_lines pos [] ls = Some ls"
| "insert_lines pos (x # xs) ls =
     (if pos \<le> length ls then insert_lines (Suc pos) xs (take pos ls @ [x] @ drop pos ls) else None)"

fun apply_in_order :: "replacement list \<Rightarrow> str list \<Rightarrow> str list option" where
  "apply_in_order [] ls = Some ls"
| "apply_in_order ((start_idx, old_len, new_segment) # rs) ls =
     Option.bind (insert_lines start_idx new_segment (remove_lines start_idx old_len ls))
       (apply_in_order rs)"

definition apply_replacements :: "str list \<Rightarrow> replacement list \<Rightarrow> str list option" where
  "apply_replacements ls replacements = apply_in_order (rev replacements) ls"

section \<open>New file contents\<close>

text \<open>The lines of a file, without the empty piece after the final newline, and back.\<close>

definition file_lines :: "str \<Rightarrow> str list" where
  "file_lines contents =
     (let split = split_on newline contents in if last_is_empty split then butlast split else split)"

definition render_lines :: "str list \<Rightarrow> str" where
  "render_lines new_ls = join [newline] (if \<not> last_is_empty new_ls then new_ls @ [[]] else new_ls)"

definition new_contents_from_chunks ::
  "str \<Rightarrow> str \<Rightarrow> update_file_chunk list \<Rightarrow> (apply_patch_error + str) option" where
  "new_contents_from_chunks original_contents path chunks =
     (let original_lines = file_lines original_contents in
      case compute_replacements original_lines path chunks of
        Inl e \<Rightarrow> Some (Inl e)
      | Inr replacements \<Rightarrow>
          map_option (\<lambda>new_ls. Inr (render_lines new_ls))
            (apply_replacements original_lines replacements))"

section \<open>Primitive edits\<close>

lemma remove_lines_eq: "remove_lines s n ls = take s ls @ drop (s + n) ls"
proof (induction n arbitrary: ls)
  case (Suc n)
  show ?case
  proof (cases "s < length ls")
    case True
    then show ?thesis using Suc [of "take s ls @ drop (Suc s) ls"] by (simp add: add.commute)
  qed (simp add: Suc)
qed simp

lemma insert_lines_eq:
  "pos \<le> length ls \<Longrightarrow> insert_lines pos xs ls = Some (take pos ls @ xs @ drop pos ls)"
proof (induction xs arbitrary: pos ls)
  case (Cons x xs)
  then show ?case
    using Cons.IH [of "Suc pos" "take pos ls @ [x] @ drop pos ls"] by simp
qed simp

definition replace_window :: "nat \<Rightarrow> nat \<Rightarrow> str list \<Rightarrow> str list \<Rightarrow> str list" where
  "replace_window s n new ls = take s ls @ new @ drop (s + n) ls"

lemma apply_one:
  "s \<le> length ls \<Longrightarrow>
   insert_lines s new (remove_lines s n ls) = Some (replace_window s n new ls)"
  by (simp add: remove_lines_eq insert_lines_eq replace_window_def)

lemma apply_in_order_append:
  "apply_in_order (xs @ ys) ls = Option.bind (apply_in_order xs ls) (apply_in_order ys)"
  by (induction xs ls rule: apply_in_order.induct) (auto split: Option.bind_splits)

lemma apply_replacements_Nil [simp]: "apply_replacements ls [] = Some ls"
  by (simp add: apply_replacements_def)

lemma apply_replacements_Cons:
  "apply_replacements ls ((s, n, new) # rs) =
     Option.bind (apply_replacements ls rs)
       (\<lambda>ls'. insert_lines s new (remove_lines s n ls'))"
  by (auto simp: apply_replacements_def apply_in_order_append split: Option.bind_splits)

section \<open>No panic\<close>

lemma apply_replacements_total:
  assumes "sorted (map fst rs)" "\<forall>r \<in> set rs. fst r \<le> length ls"
  shows "\<exists>ls'. apply_replacements ls rs = Some ls' \<and> (rs \<noteq> [] \<longrightarrow> fst (hd rs) \<le> length ls')"
  using assms
proof (induction rs)
  case (Cons r rs)
  obtain s n new where r: "r = (s, n, new)" by (cases r)
  from Cons obtain ls' where ls': "apply_replacements ls rs = Some ls'"
    and "rs \<noteq> [] \<longrightarrow> fst (hd rs) \<le> length ls'"
    by auto
  moreover have "rs = [] \<longrightarrow> ls' = ls" using ls' by auto
  ultimately have "s \<le> length ls'"
    using Cons.prems r by (cases rs) (auto intro: order_trans)
  then show ?case
    by (simp add: r apply_replacements_Cons ls' apply_one replace_window_def)
qed simp

section \<open>Simultaneous replacement\<close>

text \<open>
  The reference semantics: \<open>ls\<close> are the lines from position \<open>base\<close> on, the replacements are in
  order and do not overlap.
\<close>

fun disjoint_from :: "nat \<Rightarrow> nat \<Rightarrow> replacement list \<Rightarrow> bool" where
  "disjoint_from base len [] \<longleftrightarrow> True"
| "disjoint_from base len ((s, n, _) # rs) \<longleftrightarrow> base \<le> s \<and> s + n \<le> len \<and> disjoint_from (s + n) len rs"

fun splice :: "nat \<Rightarrow> replacement list \<Rightarrow> str list \<Rightarrow> str list" where
  "splice base [] ls = ls"
| "splice base ((s, n, new) # rs) ls =
     take (s - base) ls @ new @ splice (s + n) rs (drop (s - base + n) ls)"

lemma disjoint_from_sorted:
  "disjoint_from base len rs \<Longrightarrow> sorted (map fst rs) \<and> (\<forall>r \<in> set rs. base \<le> fst r \<and> fst r \<le> len)"
  by (induction base len rs rule: disjoint_from.induct) (auto intro: order_trans)

lemma apply_replacements_disjoint:
  "disjoint_from base (length ls) rs \<Longrightarrow> base \<le> length ls \<Longrightarrow>
   apply_replacements ls rs = Some (take base ls @ splice base rs (drop base ls))"
proof (induction base "length ls" rs rule: disjoint_from.induct)
  case (2 base s n new rs)
  then have "base \<le> s" and sn: "s + n \<le> length ls"
    and IH: "apply_replacements ls rs =
      Some (take (s + n) ls @ splice (s + n) rs (drop (s + n) ls))"
    by auto
  have "take base ls @ take (s - base) (drop base ls) = take s ls"
    using \<open>base \<le> s\<close> by (metis le_add_diff_inverse take_add)
  moreover have "drop (s - base + n) (drop base ls) = drop (s + n) ls"
    using \<open>base \<le> s\<close> by simp
  ultimately show ?case
    using sn by (simp add: apply_replacements_Cons IH apply_one replace_window_def
        flip: append_assoc)
qed simp

section \<open>Where chunks land\<close>

lemma seek_sequence_bounds:
  assumes "seek_sequence ls pat start False = Some i" "start \<le> length ls"
  shows "start \<le> i" "i + length pat \<le> length ls" "window_matches normalise ls pat i"
  using assms seek_sequence_window [OF assms(1)]
  by (cases "pat = []"; simp add: search_origin_def window_matches_def)+

lemma seek_sequence_le:
  assumes "seek_sequence ls pat start eof = Some i" "start \<le> length ls"
  shows "i + length pat \<le> length ls" "window_matches normalise ls pat i"
  using assms seek_sequence_window [OF assms(1)]
  by (cases "pat = []"; simp add: window_matches_def)+

lemma seek_change_context_bounds:
  assumes "seek_change_context ol p ctx li = Inr li'" "li \<le> length ol"
  shows "li \<le> li'" "li' \<le> length ol"
  using assms seek_sequence_bounds [of ol _ li]
  by (auto simp: seek_change_context_def split: option.splits) fastforce+

text \<open>What a chunk's replacement is: its old lines, up to the retry without the final empty line.\<close>

fun chunk_replacement :: "str list \<Rightarrow> update_file_chunk \<Rightarrow> replacement \<Rightarrow> bool" where
  "chunk_replacement ol c (s, n, new) \<longleftrightarrow>
     (n = length (old_lines c) \<and> window_matches normalise ol (old_lines c) s \<and> new = new_lines c) \<or>
     (last_is_empty (old_lines c) \<and> n = length (butlast (old_lines c)) \<and>
      window_matches normalise ol (butlast (old_lines c)) s \<and>
      new = (if last_is_empty (new_lines c) then butlast (new_lines c) else new_lines c))"

text \<open>
  Where the chunks of an update land: one after the other, each behind the line that its change context
  matches, when it has one.
\<close>

fun chunks_land :: "str list \<Rightarrow> nat \<Rightarrow> update_file_chunk list \<Rightarrow> replacement list \<Rightarrow> bool" where
  "chunks_land ol pos [] rs \<longleftrightarrow> rs = []"
| "chunks_land ol pos (c # cs) [] \<longleftrightarrow> False"
| "chunks_land ol pos (c # cs) ((s, n, new) # rs) \<longleftrightarrow>
     chunk_replacement ol c (s, n, new) \<and> pos \<le> s \<and> s + n \<le> length ol \<and>
     (case change_context c of
        None \<Rightarrow> True
      | Some l \<Rightarrow> (\<exists>i. pos \<le> i \<and> i < s \<and> window_matches normalise ol [l] i)) \<and>
     chunks_land ol (s + n) cs rs"

lemma chunks_land_disjoint: "chunks_land ol pos cs rs \<Longrightarrow> disjoint_from pos (length ol) rs"
  by (induction ol pos cs rs rule: chunks_land.induct) auto

lemma seek_change_context_line:
  assumes "seek_change_context ol p ctx li = Inr li'" "li \<le> length ol"
  shows "case ctx of None \<Rightarrow> True | Some l \<Rightarrow> (\<exists>i. li \<le> i \<and> i < li' \<and> window_matches normalise ol [l] i)"
proof (cases ctx)
  case (Some l)
  with assms(1) obtain i where "seek_sequence ol [l] li False = Some i" "li' = Suc i"
    by (auto simp: seek_change_context_def split: option.splits)
  with seek_sequence_bounds [OF _ assms(2)] show ?thesis by (auto simp: Some intro!: exI [of _ i])
qed simp

lemma seek_old_lines_Some:
  assumes "seek_old_lines ol c li = Some (s, n, new)" "li \<le> length ol"
  shows "s + n \<le> length ol" "chunk_replacement ol c (s, n, new)"
    "\<not> is_end_of_file c \<Longrightarrow> li \<le> s"
  using assms seek_sequence_le [of ol _ li "is_end_of_file c" s] seek_sequence_bounds(1) [of ol _ li s]
  by (auto simp: seek_old_lines_def Let_def simp del: length_butlast split: option.splits if_splits)

lemma compute_replacements_from_bounds:
  "compute_replacements_from ol p cs li = Inr rs \<Longrightarrow> li \<le> length ol \<Longrightarrow>
   \<forall>r \<in> set rs. fst r \<le> length ol"
proof (induction ol p cs li arbitrary: rs rule: compute_replacements_from.induct)
  case (2 ol p c cs li)
  then obtain li' where li': "seek_change_context ol p (change_context c) li = Inr li'"
    by (auto split: sum.splits)
  have le: "li' \<le> length ol" using seek_change_context_bounds [OF li'] 2 by simp
  show ?case
  proof (cases "old_lines c = []")
    case True
    with 2 li' le show ?thesis by (fastforce split: sum.splits)
  next
    case False
    with 2 li' obtain s n new where so: "seek_old_lines ol c li' = Some (s, n, new)"
      by (auto split: option.splits)
    with seek_old_lines_Some [OF so le] 2 li' False show ?thesis
      by (fastforce split: sum.splits)
  qed
qed simp

lemma compute_replacements_from_land:
  "compute_replacements_from ol p cs li = Inr rs \<Longrightarrow> li \<le> length ol \<Longrightarrow>
   \<forall>c \<in> set cs. old_lines c \<noteq> [] \<and> \<not> is_end_of_file c \<Longrightarrow>
   chunks_land ol li cs rs"
proof (induction ol p cs li arbitrary: rs rule: compute_replacements_from.induct)
  case (2 ol p c cs li)
  then obtain li' where li': "seek_change_context ol p (change_context c) li = Inr li'"
    by (auto split: sum.splits)
  note le = seek_change_context_bounds [OF li' \<open>li \<le> length ol\<close>]
  with 2 li' obtain s n new where so: "seek_old_lines ol c li' = Some (s, n, new)"
    by (auto split: option.splits)
  note so_props = seek_old_lines_Some [OF so le(2)]
  obtain rs' where rs': "compute_replacements_from ol p cs (s + n) = Inr rs'"
    and rs: "rs = (s, n, new) # rs'"
    using "2.prems" li' so by (auto split: sum.splits)
  have "chunks_land ol (s + n) cs rs'"
    using "2.IH"(2) [OF li' _ so] "2.prems" rs' so_props by auto
  moreover have "li' \<le> s" using so_props(3) "2.prems" by simp
  moreover note seek_change_context_line [OF li' \<open>li \<le> length ol\<close>]
  ultimately show ?case using rs so_props le
    by (simp del: chunk_replacement.simps split: option.splits) (meson less_le_trans)
qed simp

section \<open>Properties\<close>

lemma compute_replacements_sorted:
  assumes "compute_replacements ol p cs = Inr rs"
  shows "sorted (map fst rs)" "\<forall>r \<in> set rs. fst r \<le> length ol"
  using assms compute_replacements_from_bounds [of ol p cs 0]
  by (auto simp: compute_replacements_def split: sum.splits)

lemma sorted_sort_key_id: "sorted (map f xs) \<Longrightarrow> sort_key f xs = xs"
  by (induction xs) (auto intro: insort_is_Cons)

lemma new_contents_disjoint:
  assumes "compute_replacements_from (file_lines contents) p cs 0 = Inr rs"
    and "disjoint_from 0 (length (file_lines contents)) rs"
  shows "new_contents_from_chunks contents p cs =
    Some (Inr (render_lines (splice 0 rs (file_lines contents))))"
  using assms disjoint_from_sorted [OF assms(2)] apply_replacements_disjoint [OF assms(2)]
  by (simp add: new_contents_from_chunks_def compute_replacements_def sorted_sort_key_id)

text \<open>Evaluating an update on concrete contents.\<close>

lemmas apply_eval = new_contents_from_chunks_def compute_replacements_def file_lines_def
  last_is_empty_def seek_change_context_def seek_old_lines_def seek_sequence_def
  seek_pass_def window_matches_def apply_replacements_def render_lines_def Let_def
  usat_sub_def upt_rec numeral_2_eq_2

text \<open>
  Computing new contents never panics: whatever the file and the chunks, every \<^verbatim>\<open>Vec::insert\<close> of
  \<^verbatim>\<open>apply_replacements\<close> is at an index inside the vector, so a result or an error is returned.
\<close>

theorem new_contents_no_panic: "new_contents_from_chunks contents path chunks \<noteq> None"
proof (cases "compute_replacements (file_lines contents) path chunks")
  case (Inr rs)
  then show ?thesis
    using apply_replacements_total [OF compute_replacements_sorted [OF Inr]]
    by (auto simp: new_contents_from_chunks_def)
qed (simp add: new_contents_from_chunks_def)

text \<open>
  Replacements carried out in descending order, line by line with \<^verbatim>\<open>remove\<close> and \<^verbatim>\<open>insert\<close>, are the
  simultaneous replacement of the disjoint regions of the original lines.
\<close>

theorem apply_replacements_simultaneous:
  assumes "disjoint_from 0 (length ls) rs"
  shows "apply_replacements ls rs = Some (splice 0 rs ls)"
  using apply_replacements_disjoint [OF assms] by simp

theorem apply_replacements_simultaneous_witness:
  "apply_replacements [lit ''a'', lit ''b'', lit ''c''] [(0, 1, []), (2, 1, [lit ''x'', lit ''y''])] =
     Some [lit ''b'', lit ''x'', lit ''y'']"
  using apply_replacements_simultaneous [of "[lit ''a'', lit ''b'', lit ''c'']"
      "[(0, 1, []), (2, 1, [lit ''x'', lit ''y''])]"]
  by (simp add: numeral_2_eq_2)



text \<open>
  What an update does to the lines it does not touch: reading a file into lines and writing them
  back is the identity on a file that ends in exactly one newline, adds the missing final newline,
  and drops one newline from a file that ends in a blank line.
\<close>

theorem render_file_lines:
  "render_lines (file_lines contents) =
     (if contents = [] then []
      else if last contents \<noteq> newline then contents @ [newline]
      else if butlast contents = [] \<or> last (butlast contents) = newline then butlast contents
      else contents)"
proof (cases "contents = [] \<or> last contents \<noteq> newline")
  case True
  then show ?thesis
    by (auto simp: file_lines_def render_lines_def last_is_empty_def last_split_on Let_def
        join_split_on join_snoc)
next
  case False
  then obtain s where "contents = s @ [newline]" by (metis append_butlast_last_id)
  then show ?thesis
    by (auto simp: file_lines_def render_lines_def last_is_empty_def split_on_append last_split_on Let_def
        join_split_on join_snoc)
qed

text \<open>
  An end-of-file chunk is matched at the end of the file wherever the previous chunk ended, so its
  region may lie inside one that is already replaced; the earlier replacement then wins and the change
  of the later chunk is lost without an error.
\<close>

theorem eof_chunk_change_lost:
  "new_contents_from_chunks (lit ''a'' @ [newline] @ lit ''b'' @ [newline]) (lit ''f'')
     [\<lparr> change_context = None, old_lines = [lit ''a'', lit ''b''], new_lines = [lit ''x''],
        is_end_of_file = False \<rparr>,
      \<lparr> change_context = None, old_lines = [lit ''b''], new_lines = [lit ''y''],
        is_end_of_file = True \<rparr>] =
     Some (Inr (lit ''x'' @ [newline]))"
  by (simp add: str_eval apply_eval)

end
