(* ===== verification/Patch_Files.thy ===== *)
theory Patch_Files
  imports Patch_Apply
begin

text \<open>
  \<^verbatim>\<open>codex-rs/apply-patch/src/lib.rs\<close>, the part that touches files: \<^verbatim>\<open>apply_patch\<close>, \<^verbatim>\<open>apply_hunks\<close>,
  \<^verbatim>\<open>apply_hunks_to_files\<close> and the helpers below them, over any \<^verbatim>\<open>ExecutorFileSystem\<close>. Results are an
  option whose \<open>None\<close> is a panic, of the returned value and the file system left behind. The output
  streams are the text written to them; a writer that fails is not modelled.
  The specification is a partial map from paths to contents updated hunk by hunk; the locale
  \<open>file_store\<close> carries the refinement proof, which is then read off for the local file system.
\<close>

section \<open>Errors\<close>

text \<open>The \<^verbatim>\<open>anyhow\<close> errors of \<^verbatim>\<open>apply_hunks_to_files\<close>: a message, an I/O error with context, or an
  \<^verbatim>\<open>ApplyPatchError\<close>.\<close>

datatype anyhow_error =
  Bail str
| WithContext str io_error
| FromApply apply_patch_error

definition show_parse_error :: "parse_error \<Rightarrow> str" where
  "show_parse_error e =
     (case e of
        InvalidPatchError m \<Rightarrow> lit ''invalid patch: '' @ m
      | InvalidHunkError m n \<Rightarrow> lit ''invalid hunk at line '' @ show_nat n @ lit '', '' @ m)"

definition show_apply_patch_error :: "apply_patch_error \<Rightarrow> str" where
  "show_apply_patch_error e =
     (case e of
        ParseError pe \<Rightarrow> show_parse_error pe
      | IoError ctx src \<Rightarrow> ctx @ lit '': '' @ error_text src
      | ComputeReplacements m \<Rightarrow> m
      | ImplicitInvocation \<Rightarrow>
          lit ''patch detected without explicit call to apply_patch. Rerun as ['' @ [34] @
          lit ''apply_patch'' @ [34] @ lit '', '' @ [34] @ lit ''<patch>'' @ [34] @ lit '']'')"

definition show_anyhow :: "anyhow_error \<Rightarrow> str" where
  "show_anyhow e =
     (case e of
        Bail m \<Rightarrow> m
      | WithContext ctx _ \<Rightarrow> ctx
      | FromApply ae \<Rightarrow> show_apply_patch_error ae)"

section \<open>Operations\<close>

record affected_paths =
  added :: "path list"
  modified :: "path list"
  deleted :: "path list"

record applied_patch =
  original_contents :: str
  new_contents :: str

fun resolve_path :: "str option \<Rightarrow> abs_path_buf \<Rightarrow> hunk \<Rightarrow> abs_path_buf" where
  "resolve_path home cwd (UpdateFile p _ _) = resolve_path_against_base home p cwd"
| "resolve_path home cwd (AddFile p _) = resolve_path_against_base home p cwd"
| "resolve_path home cwd (DeleteFile p) = resolve_path_against_base home p cwd"

definition derive_new_contents_from_chunks ::
  "('s, 'sb) executor_file_system \<Rightarrow> 'sb option \<Rightarrow> abs_path_buf \<Rightarrow> update_file_chunk list \<Rightarrow> 's \<Rightarrow>
   (apply_patch_error + applied_patch) option" where
  "derive_new_contents_from_chunks fs sandbox path_abs chunks s =
     (case read_file_text fs path_abs sandbox s of
        Inl err \<Rightarrow> Some (Inl (IoError (lit ''Failed to read file to update '' @ path_abs) err))
      | Inr original \<Rightarrow>
          map_option (map_sum id (\<lambda>new. \<lparr>original_contents = original, new_contents = new\<rparr>))
            (new_contents_from_chunks original path_abs chunks))"

definition failed_to_write :: "abs_path_buf \<Rightarrow> io_error \<Rightarrow> anyhow_error" where
  "failed_to_write path_abs err = WithContext (lit ''Failed to write file '' @ path_abs) err"

definition write_file_with_missing_parent_retry ::
  "('s, 'sb) executor_file_system \<Rightarrow> 'sb option \<Rightarrow> abs_path_buf \<Rightarrow> byte list \<Rightarrow> 's \<Rightarrow>
   (anyhow_error + unit) \<times> 's" where
  "write_file_with_missing_parent_retry fs sandbox path_abs contents s =
     (case write_file fs path_abs contents sandbox s of
        (Inr _, s1) \<Rightarrow> (Inr (), s1)
      | (Inl err, s1) \<Rightarrow>
          if kind err = NotFound then
            (case (case parent path_abs of
                     Some parent_abs \<Rightarrow> create_directory fs parent_abs True sandbox s1
                   | None \<Rightarrow> (Inr (), s1)) of
               (Inl e, s2) \<Rightarrow>
                 (Inl (WithContext (lit ''Failed to create parent directories for '' @ path_abs) e), s2)
             | (Inr _, s2) \<Rightarrow>
                 (case write_file fs path_abs contents sandbox s2 of
                    (Inl e, s3) \<Rightarrow> (Inl (failed_to_write path_abs e), s3)
                  | (Inr _, s3) \<Rightarrow> (Inr (), s3)))
          else (Inl (failed_to_write path_abs err), s1))"

text \<open>The block that checks the metadata and removes a file, for deletions and moves.\<close>

definition remove_regular_file ::
  "('s, 'sb) executor_file_system \<Rightarrow> 'sb option \<Rightarrow> abs_path_buf \<Rightarrow> 's \<Rightarrow> (io_error + unit) \<times> 's" where
  "remove_regular_file fs sandbox path_abs s =
     (case get_metadata fs path_abs sandbox s of
        Inl e \<Rightarrow> (Inl e, s)
      | Inr metadata \<Rightarrow>
          if is_directory metadata then
            (Inl \<lparr>kind = InvalidInput, error_text = lit ''path is a directory''\<rparr>, s)
          else remove_path fs path_abs False False sandbox s)"

definition with_context :: "str \<Rightarrow> (io_error + unit) \<times> 's \<Rightarrow> (anyhow_error + unit) \<times> 's" where
  "with_context ctx r = (case r of (Inl e, s) \<Rightarrow> (Inl (WithContext ctx e), s) | (Inr u, s) \<Rightarrow> (Inr u, s))"

text \<open>Recording the affected path after a step that succeeded.\<close>

definition then_record ::
  "(anyhow_error + unit) \<times> 's \<Rightarrow> affected_paths \<Rightarrow> (anyhow_error + affected_paths) \<times> 's" where
  "then_record r affected = (case r of (Inl e, s) \<Rightarrow> (Inl e, s) | (Inr _, s) \<Rightarrow> (Inr affected, s))"

definition apply_update ::
  "('s, 'sb) executor_file_system \<Rightarrow> 'sb option \<Rightarrow> str option \<Rightarrow> abs_path_buf \<Rightarrow> abs_path_buf \<Rightarrow>
   path option \<Rightarrow> str \<Rightarrow> 's \<Rightarrow> (anyhow_error + unit) \<times> 's" where
  "apply_update fs sandbox home cwd path_abs move_path new s =
     (case move_path of
        Some dest \<Rightarrow>
          (case write_file_with_missing_parent_retry fs sandbox
                  (resolve_path_against_base home dest cwd) (encode new) s of
             (Inl e, s1) \<Rightarrow> (Inl e, s1)
           | (Inr _, s1) \<Rightarrow>
               with_context (lit ''Failed to remove original '' @ path_abs)
                 (remove_regular_file fs sandbox path_abs s1))
      | None \<Rightarrow>
          with_context (lit ''Failed to write file '' @ path_abs)
            (write_file fs path_abs (encode new) sandbox s))"

fun apply_hunk ::
  "('s, 'sb) executor_file_system \<Rightarrow> 'sb option \<Rightarrow> str option \<Rightarrow> abs_path_buf \<Rightarrow> hunk \<Rightarrow>
   affected_paths \<Rightarrow> 's \<Rightarrow> ((anyhow_error + affected_paths) \<times> 's) option" where
  "apply_hunk fs sandbox home cwd (AddFile p contents) aff s =
     (let path_abs = resolve_path home cwd (AddFile p contents) in
      Some (then_record (write_file_with_missing_parent_retry fs sandbox path_abs (encode contents) s)
        (aff\<lparr>added := added aff @ [p]\<rparr>)))"
| "apply_hunk fs sandbox home cwd (DeleteFile p) aff s =
     (let path_abs = resolve_path home cwd (DeleteFile p) in
      Some (then_record (with_context (lit ''Failed to delete file '' @ path_abs)
          (remove_regular_file fs sandbox path_abs s))
        (aff\<lparr>deleted := deleted aff @ [p]\<rparr>)))"
| "apply_hunk fs sandbox home cwd (UpdateFile p move_path chunks) aff s =
     (let path_abs = resolve_path home cwd (UpdateFile p move_path chunks) in
      case derive_new_contents_from_chunks fs sandbox path_abs chunks s of
        None \<Rightarrow> None
      | Some (Inl e) \<Rightarrow> Some (Inl (FromApply e), s)
      | Some (Inr applied) \<Rightarrow>
          Some (then_record (apply_update fs sandbox home cwd path_abs move_path (new_contents applied) s)
            (aff\<lparr>modified := modified aff @ [hunk_path (UpdateFile p move_path chunks)]\<rparr>)))"

fun apply_hunk_loop ::
  "('s, 'sb) executor_file_system \<Rightarrow> 'sb option \<Rightarrow> str option \<Rightarrow> abs_path_buf \<Rightarrow> hunk list \<Rightarrow>
   affected_paths \<Rightarrow> 's \<Rightarrow> ((anyhow_error + affected_paths) \<times> 's) option" where
  "apply_hunk_loop fs sandbox home cwd [] aff s = Some (Inr aff, s)"
| "apply_hunk_loop fs sandbox home cwd (h # hs) aff s =
     (case apply_hunk fs sandbox home cwd h aff s of
        None \<Rightarrow> None
      | Some (Inl e, s') \<Rightarrow> Some (Inl e, s')
      | Some (Inr aff', s') \<Rightarrow> apply_hunk_loop fs sandbox home cwd hs aff' s')"

definition apply_hunks_to_files ::
  "('s, 'sb) executor_file_system \<Rightarrow> 'sb option \<Rightarrow> str option \<Rightarrow> abs_path_buf \<Rightarrow> hunk list \<Rightarrow> 's \<Rightarrow>
   ((anyhow_error + affected_paths) \<times> 's) option" where
  "apply_hunks_to_files fs sandbox home cwd hs s =
     (if hs = [] then Some (Inl (Bail (lit ''No files were modified.'')), s)
      else apply_hunk_loop fs sandbox home cwd hs \<lparr>added = [], modified = [], deleted = []\<rparr> s)"

definition print_summary :: "affected_paths \<Rightarrow> str" where
  "print_summary affected =
     lit ''Success. Updated the following files:'' @ [newline] @
     concat (map (\<lambda>p. lit ''A '' @ p @ [newline]) (added affected)) @
     concat (map (\<lambda>p. lit ''M '' @ p @ [newline]) (modified affected)) @
     concat (map (\<lambda>p. lit ''D '' @ p @ [newline]) (deleted affected))"

text \<open>What an entry point leaves: its result, the texts written and the file system.\<close>

record 's patch_run =
  run_result :: "apply_patch_error + unit"
  run_stdout :: str
  run_stderr :: str
  run_state :: 's

definition apply_hunks ::
  "('s, 'sb) executor_file_system \<Rightarrow> 'sb option \<Rightarrow> str option \<Rightarrow> abs_path_buf \<Rightarrow> hunk list \<Rightarrow> 's \<Rightarrow>
   's patch_run option" where
  "apply_hunks fs sandbox home cwd hs s =
     (case apply_hunks_to_files fs sandbox home cwd hs s of
        None \<Rightarrow> None
      | Some (Inr affected, s') \<Rightarrow>
          Some \<lparr>run_result = Inr (), run_stdout = print_summary affected, run_stderr = [], run_state = s'\<rparr>
      | Some (Inl err, s') \<Rightarrow>
          Some \<lparr>run_result = Inl (case err of
              WithContext _ io \<Rightarrow> IoError (lit ''I/O error'') io
            | _ \<Rightarrow> IoError (show_anyhow err) \<lparr>kind = OtherKind, error_text = show_anyhow err\<rparr>),
            run_stdout = [], run_stderr = show_anyhow err @ [newline], run_state = s'\<rparr>)"

definition apply_patch ::
  "('s, 'sb) executor_file_system \<Rightarrow> 'sb option \<Rightarrow> str option \<Rightarrow> str \<Rightarrow> abs_path_buf \<Rightarrow> 's \<Rightarrow>
   's patch_run option" where
  "apply_patch fs sandbox home patch_text cwd s =
     (case parse_patch patch_text of
        Inl e \<Rightarrow>
          Some \<lparr>run_result = Inl (ParseError e), run_stdout = [],
            run_stderr = (case e of
                InvalidPatchError m \<Rightarrow> lit ''Invalid patch: '' @ m @ [newline]
              | InvalidHunkError m n \<Rightarrow>
                  lit ''Invalid patch hunk on line '' @ show_nat n @ lit '': '' @ m @ [newline]),
            run_state = s\<rparr>
      | Inr args \<Rightarrow> apply_hunks fs sandbox home cwd (hunks args) s)"

section \<open>Specification\<close>

type_synonym files = "str \<rightharpoonup> byte list"

text \<open>The text a file holds after the chunks are applied to it.\<close>

definition updated_text :: "files \<Rightarrow> abs_path_buf \<Rightarrow> update_file_chunk list \<Rightarrow> str option" where
  "updated_text f p chunks =
     (case f p of
        None \<Rightarrow> None
      | Some b \<Rightarrow>
          (case from_utf8 b of
             Inl _ \<Rightarrow> None
           | Inr text \<Rightarrow>
               (case new_contents_from_chunks text p chunks of Some (Inr new) \<Rightarrow> Some new | _ \<Rightarrow> None)))"

fun spec_hunk :: "str option \<Rightarrow> abs_path_buf \<Rightarrow> hunk \<Rightarrow> files \<Rightarrow> files option" where
  "spec_hunk home cwd (AddFile p contents) f =
     Some (f(resolve_path_against_base home p cwd \<mapsto> encode contents))"
| "spec_hunk home cwd (DeleteFile p) f = Some (f(resolve_path_against_base home p cwd := None))"
| "spec_hunk home cwd (UpdateFile p dest chunks) f =
     (let src = resolve_path_against_base home p cwd in
      map_option (\<lambda>new. case dest of
          None \<Rightarrow> f(src \<mapsto> encode new)
        | Some d \<Rightarrow> (f(resolve_path_against_base home d cwd \<mapsto> encode new))(src := None))
        (updated_text f src chunks))"

fun spec_hunks :: "str option \<Rightarrow> abs_path_buf \<Rightarrow> hunk list \<Rightarrow> files \<Rightarrow> files option" where
  "spec_hunks home cwd [] f = Some f"
| "spec_hunks home cwd (h # hs) f = Option.bind (spec_hunk home cwd h f) (spec_hunks home cwd hs)"

text \<open>The paths a hunk may touch.\<close>

fun touched :: "str option \<Rightarrow> abs_path_buf \<Rightarrow> hunk \<Rightarrow> str set" where
  "touched home cwd (UpdateFile p (Some d) _) =
     {resolve_path_against_base home p cwd, resolve_path_against_base home d cwd}"
| "touched home cwd h = {resolve_path home cwd h}"

text \<open>What the summary lists for a hunk.\<close>

fun record_hunk :: "affected_paths \<Rightarrow> hunk \<Rightarrow> affected_paths" where
  "record_hunk aff (AddFile p _) = aff\<lparr>added := added aff @ [p]\<rparr>"
| "record_hunk aff (DeleteFile p) = aff\<lparr>deleted := deleted aff @ [p]\<rparr>"
| "record_hunk aff (UpdateFile p d cs) = aff\<lparr>modified := modified aff @ [hunk_path (UpdateFile p d cs)]\<rparr>"

lemma parent_is_normal_path:
  assumes "is_normal_path p" "parent p = Some q"
  shows "is_normal_path q"
proof -
  obtain ns where ns: "list_all valid_name ns" "p = abs_display ns"
    using assms(1) by (rule is_normal_pathE)
  then have "list_all valid_name (butlast ns)" by (auto simp: list_all_iff dest: in_set_butlastD)
  with ns assms(2) show ?thesis by (auto simp: parent_abs_display split: if_splits)
qed

lemma derive_Some:
  "\<exists>r. derive_new_contents_from_chunks fs sb p cs s = Some r"
  using apply_replacements_total compute_replacements_sorted
  by (auto simp: derive_new_contents_from_chunks_def new_contents_from_chunks_def Let_def
      split: sum.splits) metis

lemma apply_hunk_not_None: "apply_hunk fs sb home cwd h aff s \<noteq> None"
  using derive_Some by (cases h) (fastforce simp: Let_def split: option.splits sum.splits)+

lemma apply_hunk_loop_not_None: "apply_hunk_loop fs sb home cwd hs aff s \<noteq> None"
proof (induction hs arbitrary: aff s)
  case (Cons h hs)
  show ?case
    using apply_hunk_not_None [of fs sb home cwd h aff s] Cons.IH
    by (auto simp del: not_None_eq split: option.splits sum.splits)
qed simp

section \<open>Refinement\<close>

context file_store
begin

lemma write_retry_ok:
  assumes "is_normal_path p" "write_file_with_missing_parent_retry fs sb p b s = (Inr u, s')"
  shows "view s' = (view s)(p \<mapsto> b)"
proof -
  consider s1 where "write_file fs p b sb s = (Inr (), s')"
    | err s1 s2 where "write_file fs p b sb s = (Inl err, s1)" "view s2 = view s1"
      "write_file fs p b sb s2 = (Inr (), s')"
    using assms mkdir_view parent_is_normal_path
    by (auto simp: write_file_with_missing_parent_retry_def
        split: prod.splits sum.splits if_splits option.splits) metis+
  then show ?thesis
    using assms(1) write_ok write_err by cases (auto simp: fun_eq_iff)
qed

lemma write_retry_err:
  assumes "is_normal_path p" "write_file_with_missing_parent_retry fs sb p b s = (Inl e, s')" "q \<noteq> p"
  shows "view s' q = view s q"
proof -
  obtain err s1 where 1: "write_file fs p b sb s = (Inl err, s1)"
    using assms(2) by (auto simp: write_file_with_missing_parent_retry_def split: prod.splits sum.splits)
  have "\<exists>s2. view s2 = view s1 \<and> (s' = s2 \<or> (\<exists>e2. write_file fs p b sb s2 = (Inl e2, s')))"
    using assms 1 mkdir_view parent_is_normal_path
    by (auto simp: write_file_with_missing_parent_retry_def
        split: prod.splits sum.splits if_splits option.splits) metis+
  then show ?thesis using 1 assms write_err by metis
qed

lemma remove_regular_ok:
  assumes "is_normal_path p" "remove_regular_file fs sb p s = (Inr u, s')"
  shows "view s' = (view s)(p := None)"
  using assms remove_ok by (auto simp: remove_regular_file_def split: sum.splits if_splits)

lemma remove_regular_err:
  assumes "is_normal_path p" "remove_regular_file fs sb p s = (Inl e, s')"
  shows "view s' = view s"
  using assms remove_err by (auto simp: remove_regular_file_def split: sum.splits if_splits)

lemma read_text_view:
  assumes "is_normal_path p" "read_file_text fs p sb s = Inr text"
  shows "\<exists>b. view s p = Some b \<and> from_utf8 b = Inr text"
  using assms read_view by (auto simp: read_file_text_def split: sum.splits)

lemma derive_updated_text:
  assumes "is_normal_path p" "derive_new_contents_from_chunks fs sb p cs s = Some (Inr applied)"
  shows "updated_text (view s) p cs = Some (new_contents applied)"
  using assms read_text_view [of p s]
  by (auto simp: derive_new_contents_from_chunks_def updated_text_def split: sum.splits)

lemma apply_update_ok:
  assumes "is_normal_path p" "is_absolute cwd" "apply_update fs sb home cwd p d new s = (Inr u, s')"
  shows "view s' = (case d of None \<Rightarrow> (view s)(p \<mapsto> encode new)
    | Some dest \<Rightarrow> ((view s)(resolve_path_against_base home dest cwd \<mapsto> encode new))(p := None))"
  using assms write_ok write_retry_ok [OF resolve_is_normal_path [OF assms(2)]] remove_regular_ok
  by (auto simp: apply_update_def with_context_def split: option.splits prod.splits sum.splits)

lemma apply_update_err:
  assumes "is_normal_path p" "is_absolute cwd" "apply_update fs sb home cwd p d new s = (Inl e, s')"
    "q \<noteq> p" "\<forall>dest. d = Some dest \<longrightarrow> q \<noteq> resolve_path_against_base home dest cwd"
  shows "view s' q = view s q"
proof (cases d)
  case None
  with assms write_err show ?thesis
    by (auto simp: apply_update_def with_context_def split: prod.splits sum.splits)
next
  case (Some dest)
  let ?d = "resolve_path_against_base home dest cwd"
  have d: "is_normal_path ?d" using assms(2) by (rule resolve_is_normal_path)
  consider e1 where "write_file_with_missing_parent_retry fs sb ?d (encode new) s = (Inl e1, s')"
    | s1 e1 where "write_file_with_missing_parent_retry fs sb ?d (encode new) s = (Inr (), s1)"
      "remove_regular_file fs sb p s1 = (Inl e1, s')"
    using assms Some
    by (auto simp: apply_update_def with_context_def split: prod.splits sum.splits)
  then show ?thesis
    using write_retry_err [OF d] write_retry_ok [OF d] remove_regular_err [OF assms(1)] assms(4,5) Some
    by cases auto
qed

lemma apply_hunk_ok:
  assumes "is_absolute cwd" "apply_hunk fs sb home cwd h aff s = Some (Inr aff', s')"
  shows "spec_hunk home cwd h (view s) = Some (view s') \<and> aff' = record_hunk aff h"
proof (cases h)
  case (UpdateFile p d cs)
  note n = resolve_is_normal_path [OF assms(1), of home p]
  obtain applied where a: "derive_new_contents_from_chunks fs sb
      (resolve_path_against_base home p cwd) cs s = Some (Inr applied)"
    using assms(2) UpdateFile by (auto simp: Let_def split: option.splits sum.splits)
  with assms(2) UpdateFile have
    "apply_update fs sb home cwd (resolve_path_against_base home p cwd) d (new_contents applied) s = (Inr (), s')"
    "aff' = record_hunk aff h"
    by (auto simp: then_record_def split: prod.splits sum.splits)
  with apply_update_ok [OF n assms(1)] derive_updated_text [OF n a] UpdateFile
  show ?thesis by (auto simp: Let_def split: option.splits)
next
  case (AddFile p c)
  with assms(2) write_retry_ok [OF resolve_is_normal_path [OF assms(1), of home p]] show ?thesis
    by (auto simp: then_record_def split: prod.splits sum.splits)
next
  case (DeleteFile p)
  with assms(2) remove_regular_ok [OF resolve_is_normal_path [OF assms(1), of home p]] show ?thesis
    by (auto simp: then_record_def with_context_def Let_def split: prod.splits sum.splits)
qed

lemma apply_hunk_err:
  assumes "is_absolute cwd" "apply_hunk fs sb home cwd h aff s = Some (Inl e, s')"
    "q \<notin> touched home cwd h"
  shows "view s' q = view s q"
proof (cases h)
  case (UpdateFile p d cs)
  note n = resolve_is_normal_path [OF assms(1), of home p]
  consider "s' = s" | new e1 where
    "apply_update fs sb home cwd (resolve_path_against_base home p cwd) d new s = (Inl e1, s')"
    using assms(2) UpdateFile
    by (auto simp: then_record_def Let_def split: option.splits prod.splits sum.splits)
  then show ?thesis
    using apply_update_err [OF n assms(1)] assms(3) UpdateFile by cases (cases d; auto)+
next
  case (AddFile p c)
  with assms(2,3) write_retry_err [OF resolve_is_normal_path [OF assms(1), of home p]] show ?thesis
    by (auto simp: then_record_def split: prod.splits sum.splits)
next
  case (DeleteFile p)
  with assms(2) remove_regular_err [OF resolve_is_normal_path [OF assms(1), of home p]] show ?thesis
    by (auto simp: then_record_def with_context_def Let_def split: prod.splits sum.splits)
qed

lemma apply_hunk_loop_ok:
  assumes "is_absolute cwd" "apply_hunk_loop fs sb home cwd hs aff s = Some (Inr aff', s')"
  shows "spec_hunks home cwd hs (view s) = Some (view s') \<and> aff' = foldl record_hunk aff hs"
  using assms(2)
proof (induction hs arbitrary: aff s)
  case (Cons h hs)
  then show ?case
    using apply_hunk_ok [OF assms(1), of home h aff s] by (auto split: option.splits sum.splits)
qed simp

lemma apply_hunk_loop_err:
  assumes "is_absolute cwd" "apply_hunk_loop fs sb home cwd hs aff s = Some (Inl e, s')"
  shows "\<exists>ds h rest f. hs = ds @ h # rest \<and> spec_hunks home cwd ds (view s) = Some f \<and>
    (\<forall>q. q \<notin> touched home cwd h \<longrightarrow> view s' q = f q)"
  using assms(2)
proof (induction hs arbitrary: aff s)
  case (Cons h hs)
  consider "apply_hunk fs sb home cwd h aff s = Some (Inl e, s')"
    | aff1 s1 where "apply_hunk fs sb home cwd h aff s = Some (Inr aff1, s1)"
      "apply_hunk_loop fs sb home cwd hs aff1 s1 = Some (Inl e, s')"
    using Cons.prems by (auto split: option.splits sum.splits)
  then show ?case
  proof cases
    case 1
    have "\<forall>q. q \<notin> touched home cwd h \<longrightarrow> view s' q = view s q"
      using apply_hunk_err [OF assms(1) 1] by blast
    then show ?thesis by (intro exI [of _ "[]"]) auto
  next
    case 2
    from Cons.IH [OF 2(2)] obtain ds h' rest f where "hs = ds @ h' # rest"
      "spec_hunks home cwd ds (view s1) = Some f"
      "\<forall>q. q \<notin> touched home cwd h' \<longrightarrow> view s' q = f q" by blast
    moreover have "spec_hunk home cwd h (view s) = Some (view s1)"
      using apply_hunk_ok [OF assms(1) 2(1)] by simp
    ultimately show ?thesis by (intro exI [of _ "h # ds"]) auto
  qed
qed simp

lemma apply_hunks_to_files_ok:
  assumes "is_absolute cwd" "apply_hunks_to_files fs sb home cwd hs s = Some (Inr aff, s')"
  shows "spec_hunks home cwd hs (view s) = Some (view s') \<and>
    aff = foldl record_hunk \<lparr>added = [], modified = [], deleted = []\<rparr> hs"
  using assms apply_hunk_loop_ok by (auto simp: apply_hunks_to_files_def split: if_splits)

lemma apply_hunks_to_files_err:
  assumes "is_absolute cwd" "apply_hunks_to_files fs sb home cwd hs s = Some (Inl e, s')"
  shows "(hs = [] \<and> s' = s) \<or> (\<exists>ds h rest f. hs = ds @ h # rest \<and>
    spec_hunks home cwd ds (view s) = Some f \<and> (\<forall>q. q \<notin> touched home cwd h \<longrightarrow> view s' q = f q))"
  using assms apply_hunk_loop_err [OF assms(1)] by (auto simp: apply_hunks_to_files_def split: if_splits)

end

section \<open>Properties\<close>

text \<open>Evaluation on the tree.\<close>

lemmas path_eval = resolve_path_against_base_def absolutize_from_def maybe_expand_home_directory_def
  path_with_base_def path_join_def normalize_path_def components_def piece_component_def
  is_absolute_def slash_def os_str_def push_component_def abs_names_def parent_def Let_def

lemmas files_eval = apply_hunks_to_files_def write_file_with_missing_parent_retry_def then_record_def
  with_context_def apply_update_def remove_regular_file_def derive_new_contents_from_chunks_def
  read_file_text_def local_file_system_None direct_defs tree_write_def tree_read_def tree_lookup_def
  tree_metadata_def tree_create_dir_all_def tree_remove_file_def walk_error_def node_at_def
  stat_node_def os_error_def MAX_READ_FILE_BYTES_def

text \<open>
  Applying a patch never panics, whatever the text, the working directory and the file system.
\<close>

theorem apply_patch_no_panic: "apply_patch fs sandbox home patch_text cwd s \<noteq> None"
proof -
  have "apply_hunks_to_files fs sandbox home cwd hs s \<noteq> None" for hs
    by (simp add: apply_hunks_to_files_def apply_hunk_loop_not_None del: not_None_eq)
  then show ?thesis
    by (auto simp: apply_patch_def apply_hunks_def simp del: not_None_eq
        split: sum.splits option.splits)
qed

text \<open>
  C6: when the hunks are applied successfully to the local file system, its files are those of the
  specification that performs the hunks one after the other on a map of paths to contents, and the
  summary lists the paths of the hunks, by kind and in order.
\<close>

theorem apply_hunks_to_files_refines:
  assumes "is_absolute cwd"
    and "apply_hunks_to_files (local_file_system should_run tree_os sandboxed) None home cwd hs t =
      Some (Inr affected, t')"
  shows "spec_hunks home cwd hs (tree_view t) = Some (tree_view t') \<and>
    affected = foldl record_hunk \<lparr>added = [], modified = [], deleted = []\<rparr> hs"
  using assms by (rule local_tree.apply_hunks_to_files_ok)

theorem apply_hunks_to_files_refines_witness:
  "\<exists>t'. apply_hunks_to_files (local_file_system (\<lambda>_::nat. False) tree_os None) None None (lit ''/w'')
       [AddFile (lit ''d/f'') (lit ''x'')] [] =
       Some (Inr \<lparr>added = [lit ''d/f''], modified = [], deleted = []\<rparr>, t') \<and>
     spec_hunks None (lit ''/w'') [AddFile (lit ''d/f'') (lit ''x'')] (tree_view []) = Some (tree_view t')"
proof -
  let ?t = "[([[119]], DirNode), ([[119], [100]], DirNode), ([[119], [100], [102]], FileNode [120])]"
  have r: "apply_hunks_to_files (local_file_system (\<lambda>_::nat. False) tree_os None) None None (lit ''/w'')
      [AddFile (lit ''d/f'') (lit ''x'')] [] =
      Some (Inr \<lparr>added = [lit ''d/f''], modified = [], deleted = []\<rparr>, ?t)"
    by (simp add: str_eval path_eval files_eval encode_char_def upt_rec)
  moreover have "is_absolute (lit ''/w'')" by (simp add: str_eval path_eval)
  ultimately show ?thesis using apply_hunks_to_files_refines [OF _ r] by blast
qed

text \<open>
  C35: when applying hunks fails, the hunks before the failing one stay applied and no path is
  touched except the source or destination of the failing hunk; in particular a path named by no
  hunk keeps its contents.
\<close>

theorem apply_hunks_to_files_failure:
  assumes "is_absolute cwd"
    and "apply_hunks_to_files (local_file_system should_run tree_os sandboxed) None home cwd hs t =
      Some (Inl e, t')"
  shows "(hs = [] \<and> t' = t) \<or> (\<exists>ds h rest f. hs = ds @ h # rest \<and>
    spec_hunks home cwd ds (tree_view t) = Some f \<and>
    (\<forall>q. q \<notin> touched home cwd h \<longrightarrow> tree_view t' q = f q))"
  using assms by (rule local_tree.apply_hunks_to_files_err)

theorem apply_hunks_to_files_failure_witness:
  "\<exists>e. apply_hunks_to_files (local_file_system (\<lambda>_::nat. False) tree_os None) None None (lit ''/w'')
     [DeleteFile (lit ''f'')] [] = Some (Inl e, []) \<and>
   (\<exists>ds h rest f. [DeleteFile (lit ''f'')] = ds @ h # rest \<and>
     spec_hunks None (lit ''/w'') ds (tree_view []) = Some f \<and>
     (\<forall>q. q \<notin> touched None (lit ''/w'') h \<longrightarrow> tree_view [] q = f q))"
proof -
  have r: "apply_hunks_to_files (local_file_system (\<lambda>_::nat. False) tree_os None) None None (lit ''/w'')
     [DeleteFile (lit ''f'')] [] =
     Some (Inl (WithContext (lit ''Failed to delete file /w/f'') (os_error NotFound)), [])"
    by (simp add: str_eval path_eval files_eval upt_rec)
  moreover have "is_absolute (lit ''/w'')" by (simp add: str_eval path_eval)
  ultimately show ?thesis using apply_hunks_to_files_failure [OF _ r] by auto
qed

section \<open>Writing below missing directories\<close>

lemma walk_error_None:
  "walk_error t ns = None \<longleftrightarrow> (\<forall>i < length ns. node_at t (take i ns) = Some DirNode)"
  by (auto simp: walk_error_def find_None_iff find_Some_iff split: option.splits)

lemma walk_error_NotFound:
  assumes "\<forall>i < length ns. \<not> (\<exists>b. node_at t (take i ns) = Some (FileNode b))"
  shows "walk_error t ns \<in> {None, Some NotFound}"
proof -
  have "node_at t (take i ns) = None" if "i < length ns" "node_at t (take i ns) \<noteq> Some DirNode" for i
    using assms that by (cases "node_at t (take i ns)") (auto, metis node.exhaust)
  then show ?thesis
    by (fastforce simp: walk_error_def find_Some_iff split: option.splits)
qed

lemma make_dirs_ok:
  assumes "\<forall>i \<le> length ns. \<not> (\<exists>b. node_at t (d @ take i ns) = Some (FileNode b))"
  shows "\<exists>t'. make_dirs d ns t = (Inr (), t') \<and>
    (\<forall>i \<in> {1..length ns}. node_at t' (d @ take i ns) = Some DirNode) \<and>
    (\<forall>k. (\<forall>i \<in> {1..length ns}. k \<noteq> d @ take i ns) \<longrightarrow> node_at t' k = node_at t k)"
  using assms
proof (induction ns arbitrary: d t)
  case (Cons n ns)
  have step: "\<exists>t1. node_at t1 = (node_at t)(d @ [n] \<mapsto> DirNode) \<and>
      make_dirs d (n # ns) t = make_dirs (d @ [n]) ns t1"
  proof (cases "node_at t (d @ [n])")
    case (Some x)
    with Cons.prems have "x = DirNode" by (cases x) (auto dest!: spec [of _ 1])
    with Some show ?thesis by (intro exI [of _ t]) auto
  qed (auto intro!: exI [of _ "AList.update (d @ [n]) DirNode t"] simp: node_at_update)
  then obtain t1 where t1: "node_at t1 = (node_at t)(d @ [n] \<mapsto> DirNode)"
    "make_dirs d (n # ns) t = make_dirs (d @ [n]) ns t1" by blast
  have "\<forall>i \<le> length ns. \<not> (\<exists>b. node_at t1 ((d @ [n]) @ take i ns) = Some (FileNode b))"
    using Cons.prems by (auto simp: t1 dest: spec [of _ "Suc _"])
  from Cons.IH [OF this] obtain t' where t': "make_dirs (d @ [n]) ns t1 = (Inr (), t')"
    "\<forall>i \<in> {1..length ns}. node_at t' ((d @ [n]) @ take i ns) = Some DirNode"
    "\<forall>k. (\<forall>i \<in> {1..length ns}. k \<noteq> (d @ [n]) @ take i ns) \<longrightarrow> node_at t' k = node_at t1 k" by blast
  have "\<forall>i \<in> {1..length ns}. d @ [n] \<noteq> (d @ [n]) @ take i ns" by auto
  then have "node_at t' (d @ [n]) = Some DirNode"
    using t'(3) by (simp add: t1)
  then have "node_at t' (d @ take i (n # ns)) = Some DirNode" if "i \<in> {1..length (n # ns)}" for i
    using that t'(2) by (cases i; cases "i = 1") auto
  moreover have "node_at t' k = node_at t k"
    if k: "\<forall>i \<in> {1..length (n # ns)}. k \<noteq> d @ take i (n # ns)" for k
  proof -
    have "\<forall>i \<in> {1..length ns}. k \<noteq> (d @ [n]) @ take i ns"
      using k by (metis One_nat_def append.assoc append_Cons append_Nil atLeastAtMost_iff le_SucI
          length_Cons not_less_eq_eq take_Suc_Cons)
    moreover have "k \<noteq> d @ [n]" using bspec [OF k, of 1] by simp
    ultimately show ?thesis using t'(3) by (simp add: t1)
  qed
  ultimately show ?case using t1 t' by auto
qed simp

text \<open>
  A file can be added below directories that do not exist yet: when no ancestor of the path is a
  regular file and the path is not itself a directory, writing with the parent retry succeeds, and
  the file holds the contents afterwards.
\<close>

theorem write_file_with_missing_parent_retry_succeeds:
  assumes "is_normal_path p"
    and "\<forall>i < length (abs_names p). \<not> (\<exists>b. node_at t (take i (abs_names p)) = Some (FileNode b))"
    and "node_at t (abs_names p) \<noteq> Some DirNode"
  shows "\<exists>t'. write_file_with_missing_parent_retry (local_file_system should_run tree_os sandboxed)
      None p b t = (Inr (), t') \<and> tree_view t' = (tree_view t)(p \<mapsto> b)"
proof -
  let ?fs = "local_file_system should_run tree_os sandboxed"
  let ?ns = "abs_names p"
  have ns: "list_all valid_name ?ns" "p = abs_display ?ns" using assms(1) by (auto simp: is_normal_path_def)
  have ne: "?ns \<noteq> []" using assms(3) by auto
  have wr: "write_file ?fs p b None s = (Inr (), AList.update ?ns (FileNode b) s)"
    if "walk_error s ?ns = None" "node_at s ?ns \<noteq> Some DirNode" for s
    using that by (simp add: local_file_system_None direct_defs tree_write_def)
  have "\<exists>t'. write_file_with_missing_parent_retry ?fs None p b t = (Inr (), t')"
  proof (cases "walk_error t ?ns")
    case None
    with wr assms(3) show ?thesis by (simp add: write_file_with_missing_parent_retry_def)
  next
    case (Some k)
    then have 1: "write_file ?fs p b None t = (Inl (os_error NotFound), t)"
      using walk_error_NotFound [OF assms(2)]
      by (simp add: local_file_system_None direct_defs tree_write_def)
    have pa: "parent p = Some (abs_display (butlast ?ns))"
      using parent_abs_display [OF ns(1)] ns(2) ne by simp
    have vb: "list_all valid_name (butlast ?ns)"
      using ns(1) by (auto simp: list_all_iff dest: in_set_butlastD)
    have "\<forall>i \<le> length (butlast ?ns). \<not> (\<exists>b. node_at t ([] @ take i (butlast ?ns)) = Some (FileNode b))"
    proof (intro allI impI)
      fix i assume "i \<le> length (butlast ?ns)"
      then have "i < length ?ns" using ne by (cases "length ?ns") auto
      then show "\<not> (\<exists>b. node_at t ([] @ take i (butlast ?ns)) = Some (FileNode b))"
        using assms(2) by (simp add: take_butlast)
    qed
    from make_dirs_ok [OF this] obtain t2 where t2: "make_dirs [] (butlast ?ns) t = (Inr (), t2)"
      "\<forall>i \<in> {1..length (butlast ?ns)}. node_at t2 (take i (butlast ?ns)) = Some DirNode"
      "\<forall>k. (\<forall>i \<in> {1..length (butlast ?ns)}. k \<noteq> take i (butlast ?ns)) \<longrightarrow> node_at t2 k = node_at t k"
      by auto
    have "walk_error t2 ?ns = None"
      unfolding walk_error_None
    proof (intro allI impI)
      fix i assume i: "i < length ?ns"
      then show "node_at t2 (take i ?ns) = Some DirNode"
        using bspec [OF t2(2), of i] by (cases i) (auto simp: take_butlast)
    qed
    moreover have "node_at t2 ?ns = node_at t ?ns"
    proof (rule t2(3) [rule_format], rule notI)
      fix i assume "?ns = take i (butlast ?ns)"
      then have "length ?ns = length (take i (butlast ?ns))" by (rule arg_cong)
      with ne show False by (cases "length ?ns") auto
    qed
    ultimately have 3: "write_file ?fs p b None t2 = (Inr (), AList.update ?ns (FileNode b) t2)"
      using wr assms(3) by simp
    have "create_directory ?fs (abs_display (butlast ?ns)) True None t = (Inr (), t2)"
      using t2(1) vb by (simp add: local_file_system_None direct_defs tree_create_dir_all_def)
    with 1 3 pa show ?thesis
      by (simp add: write_file_with_missing_parent_retry_def os_error_def)
  qed
  then show ?thesis using local_tree.write_retry_ok [OF assms(1)] by blast
qed

theorem write_file_with_missing_parent_retry_succeeds_witness:
  "\<exists>t'. write_file_with_missing_parent_retry (local_file_system (\<lambda>_::nat. False) tree_os None)
      None (lit ''/a/b'') [120] [] = (Inr (), t') \<and>
    tree_view t' (lit ''/a/b'') = Some [120]"
proof -
  have "abs_names (lit ''/a/b'') = [lit ''a'', lit ''b'']"
    by (simp add: str_eval path_eval)
  moreover have "is_normal_path (lit ''/a/b'')"
    by (simp add: str_eval path_eval is_normal_path_def valid_name_def abs_display_def)
  moreover have "node_at [] ns \<noteq> Some (FileNode b)" for ns b by (simp add: node_at_def)
  ultimately show ?thesis
    using write_file_with_missing_parent_retry_succeeds [of "lit ''/a/b''" "[]" "\<lambda>_::nat. False" None "[120]"]
    by (auto simp: node_at_def [of _ "[_, _]"])
qed

section \<open>Moving a file onto itself\<close>

text \<open>
  A rename hunk whose destination resolves to the file itself writes the new contents and then
  removes the path: the run reports success and the file is gone.
\<close>

theorem move_onto_itself_deletes:
  assumes "is_absolute cwd"
    and "resolve_path_against_base home dest cwd = resolve_path_against_base home p cwd"
    and "apply_hunks_to_files (local_file_system should_run tree_os sandboxed) None home cwd
      [UpdateFile p (Some dest) chunks] t = Some (Inr affected, t')"
  shows "tree_view t' (resolve_path_against_base home p cwd) = None \<and> modified affected = [dest]"
  using local_tree.apply_hunks_to_files_ok [OF assms(1,3)] assms(2)
  by (auto simp: Let_def split: Option.bind_splits) (metis fun_upd_same)

end
