(* ===== verification/Patch_Format.thy ===== *)
theory Patch_Format
  imports Patch_Parser
begin

text \<open>
  The patch grammar of the header comment of \<^verbatim>\<open>apply-patch/src/parser.rs\<close> as a printer, and the
  correctness of the parser against it: printed patches parse back to the hunks they print, the
  three parse modes agree wherever strict parsing succeeds, and the here-document wrapper of the
  lenient mode is transparent.
\<close>

section \<open>The grammar as a printer\<close>

definition print_chunk :: "update_file_chunk \<Rightarrow> str list" where
  "print_chunk c =
     (case change_context c of None \<Rightarrow> [EMPTY_CHANGE_CONTEXT_MARKER]
      | Some x \<Rightarrow> [CHANGE_CONTEXT_MARKER @ x]) @
     map (\<lambda>l. uc CHR ''-'' # l) (old_lines c) @ map (\<lambda>l. uc CHR ''+'' # l) (new_lines c) @
     (if is_end_of_file c then [EOF_MARKER] else [])"

definition content_lines :: "str \<Rightarrow> str list" where
  "content_lines s = butlast (split_on newline s)"

definition unlines :: "str list \<Rightarrow> str" where
  "unlines ls = concat (map (\<lambda>l. l @ [newline]) ls)"

fun print_hunk :: "hunk \<Rightarrow> str list" where
  "print_hunk (AddFile p contents) =
     (ADD_FILE_MARKER @ p) # map (\<lambda>l. uc CHR ''+'' # l) (content_lines contents)"
| "print_hunk (DeleteFile p) = [DELETE_FILE_MARKER @ p]"
| "print_hunk (UpdateFile p move_path chunks) =
     (UPDATE_FILE_MARKER @ p) #
     (case move_path of None \<Rightarrow> [] | Some m \<Rightarrow> [MOVE_TO_MARKER @ m]) @ concat (map print_chunk chunks)"

definition print_patch :: "hunk list \<Rightarrow> str" where
  "print_patch hs =
     join [newline] (BEGIN_PATCH_MARKER # concat (map print_hunk hs) @ [END_PATCH_MARKER])"

text \<open>What the format can express: no line breaks inside a line, no trailing whitespace in a header path.\<close>

definition clean_line :: "str \<Rightarrow> bool" where
  "clean_line l \<longleftrightarrow> newline \<notin> set l \<and> (l = [] \<or> last l \<noteq> 13)"

definition header_path :: "path \<Rightarrow> bool" where
  "header_path p \<longleftrightarrow> clean_line p \<and> p \<noteq> [] \<and> \<not> is_whitespace (last p)"

definition wf_chunk :: "update_file_chunk \<Rightarrow> bool" where
  "wf_chunk c \<longleftrightarrow>
     (case change_context c of None \<Rightarrow> True | Some x \<Rightarrow> clean_line x) \<and>
     list_all clean_line (old_lines c) \<and> list_all clean_line (new_lines c) \<and>
     old_lines c @ new_lines c \<noteq> []"

fun wf_hunk :: "hunk \<Rightarrow> bool" where
  "wf_hunk (AddFile p contents) \<longleftrightarrow>
     header_path p \<and> contents = unlines (content_lines contents) \<and>
     list_all clean_line (content_lines contents)"
| "wf_hunk (DeleteFile p) \<longleftrightarrow> header_path p"
| "wf_hunk (UpdateFile p move_path chunks) \<longleftrightarrow>
     header_path p \<and> (case move_path of None \<Rightarrow> True | Some m \<Rightarrow> clean_line m) \<and>
     chunks \<noteq> [] \<and> list_all wf_chunk chunks"

section \<open>Lexical lemmas\<close>

lemmas marker_defs = BEGIN_PATCH_MARKER_def END_PATCH_MARKER_def ADD_FILE_MARKER_def
  DELETE_FILE_MARKER_def UPDATE_FILE_MARKER_def MOVE_TO_MARKER_def EOF_MARKER_def
  CHANGE_CONTEXT_MARKER_def EMPTY_CHANGE_CONTEXT_MARKER_def

lemma trim_id:
  assumes "s \<noteq> []" "\<not> is_whitespace (hd s)" "\<not> is_whitespace (last s)"
  shows "trim s = s"
proof -
  obtain xs x where s: "s = xs @ [x]" using assms(1) by (metis rev_exhaust)
  have "trim_start s = s" using assms(1,2) by (cases s) (auto simp: trim_start_def)
  moreover have "trim_end s = s" using assms(3) by (simp add: s trim_end_def)
  ultimately show ?thesis by (simp add: trim_def)
qed

text \<open>The next line of a patch, after a hunk or a chunk: it opens another hunk or chunk.\<close>

definition opens_hunk :: "str list \<Rightarrow> bool" where
  "opens_hunk ls \<longleftrightarrow> ls = [] \<or> (\<exists>m \<in> {ADD_FILE_MARKER, DELETE_FILE_MARKER, UPDATE_FILE_MARKER}.
     \<exists>p r. ls = (m @ p) # r)"

definition opens_chunk :: "str list \<Rightarrow> bool" where
  "opens_chunk ls \<longleftrightarrow> (\<exists>l r. ls = (uc CHR ''@'' # uc CHR ''@'' # l) # r)"

lemma print_hunk_opens: "opens_hunk (print_hunk h @ r)"
  by (cases h) (auto simp: opens_hunk_def)

lemma print_hunks_open: "opens_hunk (concat (map print_hunk hs))"
  by (cases hs) (auto simp: print_hunk_opens, simp add: opens_hunk_def)

lemma print_chunk_opens: "opens_chunk (print_chunk c @ r)"
  by (auto simp: opens_chunk_def print_chunk_def marker_defs lit_Cons split: option.splits)

lemma parse_chunk_lines_minus:
  "parse_chunk_lines ln (map (\<lambda>l. uc CHR ''-'' # l) ls @ rest) chunk n =
   parse_chunk_lines ln rest (chunk\<lparr>old_lines := old_lines chunk @ ls\<rparr>) (n + length ls)"
  by (induction ls arbitrary: chunk n) (auto simp: EOF_MARKER_def lit_Cons)

lemma parse_chunk_lines_plus:
  "parse_chunk_lines ln (map (\<lambda>l. uc CHR ''+'' # l) ls @ rest) chunk n =
   parse_chunk_lines ln rest (chunk\<lparr>new_lines := new_lines chunk @ ls\<rparr>) (n + length ls)"
  by (induction ls arbitrary: chunk n) (auto simp: EOF_MARKER_def lit_Cons)

lemma header_not_eof:
  "ADD_FILE_MARKER @ p \<noteq> EOF_MARKER" "DELETE_FILE_MARKER @ p \<noteq> EOF_MARKER"
  "UPDATE_FILE_MARKER @ p \<noteq> EOF_MARKER"
  by (simp_all add: marker_defs lit_Cons)

lemma header_star:
  "\<exists>l. ADD_FILE_MARKER @ p = uc CHR ''*'' # l" "\<exists>l. DELETE_FILE_MARKER @ p = uc CHR ''*'' # l"
  "\<exists>l. UPDATE_FILE_MARKER @ p = uc CHR ''*'' # l"
  by (simp_all add: marker_defs lit_Cons)

lemma opens_hunk_star:
  assumes "opens_hunk ls"
  shows "ls = [] \<or> (\<exists>l r. ls = (uc CHR ''*'' # l) # r \<and> uc CHR ''*'' # l \<noteq> EOF_MARKER)"
  using assms header_not_eof header_star unfolding opens_hunk_def by (metis insertE empty_iff)

lemma parse_chunk_lines_stop:
  assumes "opens_hunk rest \<or> opens_chunk rest" "0 < n"
  shows "parse_chunk_lines ln rest chunk n = Inr (chunk, n)"
  using assms(1)
proof
  assume "opens_hunk rest"
  then show ?thesis using opens_hunk_star assms(2) by fastforce
next
  assume "opens_chunk rest"
  then obtain l r where "rest = (uc CHR ''@'' # uc CHR ''@'' # l) # r"
    by (auto simp: opens_chunk_def)
  moreover have "uc CHR ''@'' # uc CHR ''@'' # l \<noteq> EOF_MARKER"
    by (simp add: EOF_MARKER_def lit_Cons)
  ultimately show ?thesis using assms(2) by simp
qed

section \<open>Chunks and hunks parse back\<close>

lemma parse_chunk_header_print:
  "parse_chunk_header (case x of None \<Rightarrow> EMPTY_CHANGE_CONTEXT_MARKER
     | Some y \<Rightarrow> CHANGE_CONTEXT_MARKER @ y) ln b = Inr (x, 1)"
  by (cases x) (auto simp: parse_chunk_header_def, simp add: marker_defs lit_Cons)

lemma parse_chunk_print:
  assumes "wf_chunk c" "opens_hunk rest \<or> opens_chunk rest"
  shows "parse_update_file_chunk (print_chunk c @ rest) ln b = Inr (c, length (print_chunk c))"
proof -
  let ?hdr = "case change_context c of None \<Rightarrow> EMPTY_CHANGE_CONTEXT_MARKER
     | Some y \<Rightarrow> CHANGE_CONTEXT_MARKER @ y"
  let ?body = "map (\<lambda>l. uc CHR ''-'' # l) (old_lines c) @ map (\<lambda>l. uc CHR ''+'' # l) (new_lines c) @
     (if is_end_of_file c then [EOF_MARKER] else [])"
  let ?c0 = "\<lparr>change_context = change_context c, old_lines = [], new_lines = [],
       is_end_of_file = False\<rparr>"
  have pr: "print_chunk c = ?hdr # ?body"
    by (simp add: print_chunk_def split: option.splits)
  have pos: "0 < length (old_lines c) + length (new_lines c)"
    using assms(1) by (auto simp: wf_chunk_def)
  have "parse_chunk_lines ln (?body @ rest) ?c0 0 = Inr (c, length ?body)"
  proof (cases "is_end_of_file c")
    case True
    then show ?thesis using pos
      by (simp add: parse_chunk_lines_minus parse_chunk_lines_plus)
  next
    case False
    then show ?thesis using pos assms(2)
      by (simp add: parse_chunk_lines_minus parse_chunk_lines_plus parse_chunk_lines_stop)
  qed
  then show ?thesis
    using pos by (auto simp: pr parse_update_file_chunk_def parse_chunk_header_print)
qed

lemma parse_update_chunks_print:
  assumes "list_all wf_chunk cs" "opens_hunk rest"
  shows "parse_update_chunks ai ln (concat (map print_chunk cs) @ rest) n acc =
    Inr (acc @ cs, n + length (concat (map print_chunk cs)))"
  using assms(1)
proof (induction cs arbitrary: n acc)
  case Nil
  then show ?case
    using assms(2) by (auto simp: opens_hunk_def parse_update_chunks.simps trim_start_def trim_def
        trim_end_def is_whitespace_def starts_with_def marker_defs lit_Cons uc_def)
next
  case (Cons c cs)
  let ?tail = "concat (map print_chunk cs) @ rest"
  obtain l r where lr: "print_chunk c @ ?tail = (uc CHR ''@'' # uc CHR ''@'' # l) # r"
    using print_chunk_opens opens_chunk_def by metis
  have "opens_hunk ?tail \<or> opens_chunk ?tail"
    using assms(2) by (cases cs) (auto intro: print_chunk_opens)
  then have "parse_update_file_chunk (print_chunk c @ ?tail) (ln + n) (acc = []) =
      Inr (c, length (print_chunk c))"
    using Cons.prems by (intro parse_chunk_print) auto
  moreover have "trim (uc CHR ''@'' # x) \<noteq> []" for x
    by (simp add: trim_def trim_start_def trim_end_def is_whitespace_def uc_def)
  ultimately show ?case
    using Cons
    by (simp add: lr parse_update_chunks.simps starts_with_def lit_Cons)
      (simp flip: lr)
qed

lemma parse_add_lines_print:
  "opens_hunk rest \<Longrightarrow>
   parse_add_lines (map (\<lambda>l. uc CHR ''+'' # l) ls @ rest) = (unlines ls, length ls)"
proof (induction ls)
  case Nil
  then show ?case
    by (auto simp: opens_hunk_def unlines_def strip_prefix_def marker_defs lit_Cons)
qed (auto simp: unlines_def strip_prefix_def lit_Cons)

lemma trim_header:
  assumes "header_path p"
  shows "trim (ADD_FILE_MARKER @ p) = ADD_FILE_MARKER @ p"
    "trim (DELETE_FILE_MARKER @ p) = DELETE_FILE_MARKER @ p"
    "trim (UPDATE_FILE_MARKER @ p) = UPDATE_FILE_MARKER @ p"
  using assms
  by (auto intro!: trim_id simp: header_path_def marker_defs lit_Cons)
    (simp_all add: uc_def is_whitespace_def)

lemma header_distinct:
  "strip_prefix ADD_FILE_MARKER (DELETE_FILE_MARKER @ p) = None"
  "strip_prefix ADD_FILE_MARKER (UPDATE_FILE_MARKER @ p) = None"
  "strip_prefix DELETE_FILE_MARKER (UPDATE_FILE_MARKER @ p) = None"
  by (simp_all add: strip_prefix_def marker_defs lit_Cons)

lemma move_marker_chunk: "opens_chunk (l # r) \<Longrightarrow> strip_prefix MOVE_TO_MARKER l = None"
  by (auto simp: opens_chunk_def strip_prefix_def marker_defs lit_Cons)

lemma parse_update_hunk_print:
  assumes "wf_hunk (UpdateFile p mv cs)" "opens_hunk rest"
  shows "parse_update_hunk p ((case mv of None \<Rightarrow> [] | Some m \<Rightarrow> [MOVE_TO_MARKER @ m]) @
      concat (map print_chunk cs) @ rest) ln ai =
    Inr (UpdateFile p mv cs, length (print_hunk (UpdateFile p mv cs)))"
proof (cases mv)
  case None
  obtain c cs' where cs: "cs = c # cs'" using assms(1) by (cases cs) auto
  have "opens_chunk (concat (map print_chunk cs) @ rest)"
    using print_chunk_opens [of c "concat (map print_chunk cs') @ rest"] by (simp add: cs)
  then obtain l r where lr: "concat (map print_chunk cs) @ rest = l # r"
    and "strip_prefix MOVE_TO_MARKER l = None"
    using move_marker_chunk by (metis opens_chunk_def)
  then show ?thesis
    using None assms parse_update_chunks_print [of cs rest ai ln 1 "[]"]
    by (simp add: parse_update_hunk_def)
next
  case (Some m)
  then show ?thesis
    using assms parse_update_chunks_print [of cs rest ai ln 2 "[]"]
    by (simp add: parse_update_hunk_def)
qed

lemma parse_one_hunk_print:
  assumes "wf_hunk h" "opens_hunk rest" "print_hunk h = l # ls"
  shows "parse_one_hunk l (ls @ rest) ln ai = Inr (h, length (print_hunk h))"
proof (cases h)
  case (AddFile p contents)
  then show ?thesis
    using assms parse_add_lines_print [OF assms(2), of "content_lines contents"]
    by (auto simp: parse_one_hunk_def trim_header)
next
  case (DeleteFile p)
  then show ?thesis
    using assms by (auto simp: parse_one_hunk_def trim_header header_distinct)
next
  case (UpdateFile p mv cs)
  then show ?thesis
    using assms parse_update_hunk_print [of p mv cs rest ln ai]
    by (auto simp: parse_one_hunk_def trim_header header_distinct)
qed

lemma parse_hunks_print:
  "list_all wf_hunk hs \<Longrightarrow> parse_hunks ai (concat (map print_hunk hs)) ln = Inr hs"
proof (induction hs arbitrary: ln)
  case (Cons h hs)
  obtain l ls where pr: "print_hunk h = l # ls" by (cases h) auto
  have "parse_one_hunk l (ls @ concat (map print_hunk hs)) ln ai = Inr (h, length (print_hunk h))"
    using Cons.prems pr by (intro parse_one_hunk_print) (auto simp: print_hunks_open)
  with Cons show ?case by (simp add: pr)
qed simp

section \<open>Whole patches\<close>

lemma clean_line_prefixed: "newline \<notin> set m \<Longrightarrow> m \<noteq> [] \<Longrightarrow> last m \<noteq> 13 \<Longrightarrow> clean_line l \<Longrightarrow>
  clean_line (m @ l)"
  by (auto simp: clean_line_def last_append)

lemma marker_clean:
  "m \<in> {BEGIN_PATCH_MARKER, END_PATCH_MARKER, ADD_FILE_MARKER, DELETE_FILE_MARKER,
     UPDATE_FILE_MARKER, MOVE_TO_MARKER, EOF_MARKER, CHANGE_CONTEXT_MARKER,
     EMPTY_CHANGE_CONTEXT_MARKER} \<Longrightarrow> newline \<notin> set m \<and> m \<noteq> [] \<and> last m \<noteq> 13"
  by (auto simp: marker_defs lit_def newline_def uc_def)

lemma marker_clean_append:
  "m \<in> {BEGIN_PATCH_MARKER, END_PATCH_MARKER, ADD_FILE_MARKER, DELETE_FILE_MARKER,
     UPDATE_FILE_MARKER, MOVE_TO_MARKER, EOF_MARKER, CHANGE_CONTEXT_MARKER,
     EMPTY_CHANGE_CONTEXT_MARKER} \<Longrightarrow> clean_line l \<Longrightarrow> clean_line (m @ l)"
  using marker_clean clean_line_prefixed by blast

lemma clean_line_Nil [simp]: "clean_line []"
  by (simp add: clean_line_def)

lemma marker_clean_line:
  "clean_line BEGIN_PATCH_MARKER" "clean_line END_PATCH_MARKER" "clean_line EOF_MARKER"
  "clean_line EMPTY_CHANGE_CONTEXT_MARKER"
  using marker_clean by (simp_all add: clean_line_def)

lemma sign_clean: "clean_line l \<Longrightarrow> clean_line (uc CHR ''+'' # l) \<and> clean_line (uc CHR ''-'' # l)"
  by (auto simp: clean_line_def newline_def uc_def)

lemma print_chunk_clean: "wf_chunk c \<Longrightarrow> list_all clean_line (print_chunk c)"
  by (auto simp: wf_chunk_def print_chunk_def list_all_iff sign_clean marker_clean_line
      intro: marker_clean_append split: option.splits)

lemma print_hunk_clean: "wf_hunk h \<Longrightarrow> list_all clean_line (print_hunk h)"
proof (cases h)
  case (UpdateFile p mv cs)
  assume "wf_hunk h"
  with UpdateFile have "\<forall>c \<in> set cs. list_all clean_line (print_chunk c)"
    by (auto simp: list_all_iff intro!: print_chunk_clean [unfolded list_all_iff, THEN bspec])
  with UpdateFile \<open>wf_hunk h\<close> show ?thesis
    by (auto simp: list_all_iff header_path_def intro: marker_clean_append split: option.splits)
qed (auto simp: list_all_iff sign_clean header_path_def intro: marker_clean_append)

lemma chomp_cr_clean: "clean_line l \<Longrightarrow> chomp_cr l = l"
  by (cases l rule: rev_cases) (auto simp: chomp_cr_def clean_line_def strip_suffix_def)

lemma lines_join:
  assumes "list_all clean_line ls" "ls \<noteq> []" "last ls \<noteq> []"
  shows "lines (join [newline] ls) = ls"
proof -
  have "split_on newline (join [newline] ls) = ls"
    using assms by (intro split_on_join) (auto simp: list_all_iff clean_line_def)
  moreover have "map chomp_cr (butlast ls) = butlast ls"
    using assms(1) by (intro map_idI) (auto simp: list_all_iff intro: chomp_cr_clean in_set_butlastD)
  ultimately show ?thesis using assms by (simp add: lines_def)
qed

definition patch_lines_of :: "hunk list \<Rightarrow> str list" where
  "patch_lines_of hs = BEGIN_PATCH_MARKER # concat (map print_hunk hs) @ [END_PATCH_MARKER]"

lemma join_hd: "ls \<noteq> [] \<Longrightarrow> hd ls \<noteq> [] \<Longrightarrow> join sep ls \<noteq> [] \<and> hd (join sep ls) = hd (hd ls)"
  by (induction sep ls rule: join.induct) auto

lemma join_last: "ls \<noteq> [] \<Longrightarrow> last ls \<noteq> [] \<Longrightarrow> join sep ls \<noteq> [] \<and> last (join sep ls) = last (last ls)"
  by (induction sep ls rule: join.induct) auto

lemma trim_print_patch: "trim (print_patch hs) = print_patch hs"
proof -
  have "print_patch hs = join [newline] (patch_lines_of hs)"
    by (simp add: print_patch_def patch_lines_of_def)
  moreover have "hd BEGIN_PATCH_MARKER = 42" "last END_PATCH_MARKER = 104"
    by (simp_all add: marker_defs lit_def uc_def)
  moreover have "BEGIN_PATCH_MARKER \<noteq> []" "END_PATCH_MARKER \<noteq> []"
    by (simp_all add: marker_defs)
  ultimately show ?thesis
    using join_hd [of "patch_lines_of hs" "[newline]"] join_last [of "patch_lines_of hs" "[newline]"]
    by (intro trim_id) (auto simp: patch_lines_of_def is_whitespace_def)
qed

lemma lines_print_patch:
  assumes "list_all wf_hunk hs"
  shows "lines (trim (print_patch hs)) = patch_lines_of hs"
proof -
  have "list_all clean_line (patch_lines_of hs)"
    using assms print_hunk_clean
    by (auto simp: patch_lines_of_def marker_clean_line list_all_iff)
  then show ?thesis
    unfolding trim_print_patch
    using lines_join [of "patch_lines_of hs"]
    by (simp add: print_patch_def patch_lines_of_def END_PATCH_MARKER_def)
qed

lemma boundaries_strict_iff:
  "check_patch_boundaries_strict ls = Inr r \<longleftrightarrow>
     (\<exists>f mid l. ls = f # mid @ [l] \<and> trim f = BEGIN_PATCH_MARKER \<and> trim l = END_PATCH_MARKER \<and>
        r = (ls, mid))"
proof -
  have ne: "BEGIN_PATCH_MARKER \<noteq> END_PATCH_MARKER" by (simp add: marker_defs)
  consider "ls = []" | f where "ls = [f]" | f mid l where "ls = f # mid @ [l]"
    by (metis neq_Nil_conv rev_exhaust)
  then show ?thesis
  proof cases
    case (3 f mid l)
    have "(case ls of [] \<Rightarrow> (None, None) | [f] \<Rightarrow> (Some f, Some f) | f # _ \<Rightarrow> (Some f, Some (last ls))) =
        (Some f, Some l)"
      by (cases mid) (simp_all add: 3)
    then show ?thesis
      by (auto simp: 3 check_patch_boundaries_strict_def check_start_and_end_lines_strict_def)
  qed (use ne in \<open>auto simp: check_patch_boundaries_strict_def check_start_and_end_lines_strict_def\<close>)
qed

lemma boundaries_print:
  "check_patch_boundaries_strict (patch_lines_of hs) =
     Inr (patch_lines_of hs, concat (map print_hunk hs))"
proof -
  have "trim BEGIN_PATCH_MARKER = BEGIN_PATCH_MARKER" "trim END_PATCH_MARKER = END_PATCH_MARKER"
    by (simp_all add: marker_defs str_eval)
  then show ?thesis
    by (simp add: boundaries_strict_iff patch_lines_of_def)
qed

section \<open>The modes\<close>

lemma boundaries_lenient_of_strict:
  "check_patch_boundaries_strict ls = Inr r \<Longrightarrow> check_patch_boundaries_lenient ls = Inr r"
  by (simp add: check_patch_boundaries_lenient_def)

lemma boundaries_streaming_of_strict:
  "check_patch_boundaries_strict ls = Inr r \<Longrightarrow> check_patch_boundaries_streaming ls = Inr r"
  by (auto simp: boundaries_strict_iff check_patch_boundaries_streaming_def)

text \<open>Whatever parses in complete mode parses to the same result when incomplete input is allowed.\<close>

lemma parse_update_file_chunk_at:
  "parse_update_file_chunk (lit ''@'' # ls) ln b \<noteq> Inr r"
proof
  assume *: "parse_update_file_chunk (lit ''@'' # ls) ln b = Inr r"
  then have b: "b" and h: "parse_chunk_header (lit ''@'') ln b = Inr (None, 0)"
    by (auto simp: parse_update_file_chunk_def parse_chunk_header_def strip_prefix_def marker_defs
        lit_Cons split: if_splits)
  have "parse_chunk_lines ln (lit ''@'' # ls) c 0 = Inl (InvalidHunkError
      (unexpected_line_msg (lit ''@'')) (ln + 1))" for c
    by (simp add: EOF_MARKER_def lit_Cons)
  with * b h show False by (simp add: parse_update_file_chunk_def)
qed

lemma parse_update_chunks_incomplete:
  "parse_update_chunks False ln ls n cs = Inr r \<Longrightarrow> parse_update_chunks True ln ls n cs = Inr r"
proof (induction "False" ln ls n cs rule: parse_update_chunks.induct)
  case (2 ln l ls n cs)
  show ?case
  proof (cases "parse_update_file_chunk (l # ls) (ln + n) (cs = [])")
    case (Inl e)
    with 2 show ?thesis by (cases e) (auto simp: parse_update_chunks.simps(2) split: if_splits)
  next
    case (Inr q)
    then have "l \<noteq> lit ''@''" using parse_update_file_chunk_at by metis
    with 2 Inr show ?thesis by (cases q) (auto simp: parse_update_chunks.simps(2) split: if_splits)
  qed
qed (simp add: parse_update_chunks.simps)

lemma parse_one_hunk_incomplete:
  "parse_one_hunk l ls ln False = Inr r \<Longrightarrow> parse_one_hunk l ls ln True = Inr r"
  by (auto simp: parse_one_hunk_def parse_update_hunk_def Let_def split: option.splits sum.splits
      if_splits prod.splits dest!: parse_update_chunks_incomplete)

lemma parse_hunks_incomplete:
  "parse_hunks False ls ln = Inr hs \<Longrightarrow> parse_hunks True ls ln = Inr hs"
proof (induction "False" ls ln arbitrary: hs rule: parse_hunks.induct)
  case (2 l ls ln)
  then obtain h k where p: "parse_one_hunk l ls ln False = Inr (h, k)"
    by (auto split: sum.splits)
  with 2 show ?case
    using parse_one_hunk_incomplete [OF p] by (auto split: sum.splits)
qed simp

lemma parse_patch_textI:
  assumes b: "check_patch_boundaries_strict (lines (trim text)) = Inr (pl, hl)"
    and hs: "parse_hunks False hl 2 = Inr hs"
  shows "parse_patch_text text mode =
    Inr \<lparr>patch = join [newline] pl, hunks = hs, workdir = None\<rparr>"
  using hs parse_hunks_incomplete [OF hs]
  by (cases mode) (simp_all add: parse_patch_text_def b boundaries_lenient_of_strict [OF b]
      boundaries_streaming_of_strict [OF b])

lemma parse_patch_text_print:
  assumes "list_all wf_hunk hs"
  shows "parse_patch_text (print_patch hs) mode =
    Inr \<lparr>patch = join [newline] (patch_lines_of hs), hunks = hs, workdir = None\<rparr>"
  using boundaries_print [of hs] parse_hunks_print [OF assms]
  by (intro parse_patch_textI) (simp_all add: lines_print_patch assms)

lemma print_patch_lines: "join [newline] (patch_lines_of hs) = print_patch hs"
  by (simp add: print_patch_def patch_lines_of_def)

section \<open>Error positions\<close>

lemma parse_chunk_lines_error:
  "parse_chunk_lines ln ls chunk n = Inl e \<Longrightarrow> \<exists>m. e = InvalidHunkError m (ln + 1)"
  by (induction ln ls chunk n rule: parse_chunk_lines.induct) (auto split: if_splits list.splits)

lemma parse_update_file_chunk_error:
  "parse_update_file_chunk ls ln b = Inl e \<Longrightarrow> \<exists>m k. e = InvalidHunkError m k \<and> k \<in> {ln, ln + 1}"
  by (auto simp: parse_update_file_chunk_def parse_chunk_header_def dest!: parse_chunk_lines_error
      split: list.splits sum.splits if_splits option.splits prod.splits)

lemma parse_update_chunks_error:
  "parse_update_chunks ai ln ls n cs = Inl e \<Longrightarrow>
   \<exists>m k. e = InvalidHunkError m k \<and> ln + n \<le> k \<and> k \<le> ln + n + length ls"
proof (induction ai ln ls n cs rule: parse_update_chunks.induct)
  case (2 ai ln l ls n cs)
  show ?case
  proof (cases "trim l = [] \<or> starts_with l (lit ''*'') \<or> (ai \<and> l = lit ''@'')")
    case True
    with 2 show ?thesis
      by (fastforce simp: parse_update_chunks.simps(2) split: if_splits)
  next
    case False
    show ?thesis
    proof (cases "parse_update_file_chunk (l # ls) (ln + n) (cs = [])")
      case (Inl e')
      then obtain m k where "e' = InvalidHunkError m k" "k \<in> {ln + n, ln + n + 1}"
        using parse_update_file_chunk_error by blast
      with Inl 2 False show ?thesis
        by (auto simp: parse_update_chunks.simps(2) split: if_splits)
    next
      case (Inr r)
      obtain c j where r: "r = (c, j)" by force
      have "j \<le> length (l # ls)" using parse_update_file_chunk_count Inr r by blast
      moreover have "parse_update_chunks ai ln (drop j (l # ls)) (n + j) (cs @ [c]) = Inl e"
        using "2.prems" False Inr r by (auto simp: parse_update_chunks.simps(2))
      ultimately obtain m k where "e = InvalidHunkError m k" "ln + (n + j) \<le> k"
        "k \<le> ln + (n + j) + length (drop j (l # ls))"
        using "2.IH"(2) [of r c j] False Inr r by blast
      with \<open>j \<le> length (l # ls)\<close> show ?thesis by simp
    qed
  qed
qed (simp add: parse_update_chunks.simps)

lemma parse_one_hunk_error:
  assumes "parse_one_hunk l ls ln ai = Inl e"
  shows "\<exists>m k. e = InvalidHunkError m k \<and> ln \<le> k \<and> k \<le> ln + length (l # ls)"
proof -
  have "\<exists>m k. e = InvalidHunkError m k \<and> ln \<le> k \<and> k \<le> ln + length (l # ls)"
    if "parse_update_hunk p ls ln ai = Inl e" for p
    using that
    by (auto simp: parse_update_hunk_def Let_def split: sum.splits if_splits list.splits
        dest!: parse_update_chunks_error)
  then show ?thesis
    using assms by (auto simp: parse_one_hunk_def Let_def split: option.splits prod.splits)
qed

lemma parse_hunks_error:
  "parse_hunks ai ls ln = Inl e \<Longrightarrow>
   \<exists>m k. e = InvalidHunkError m k \<and> ln \<le> k \<and> k \<le> ln + length ls"
proof (induction ai ls ln rule: parse_hunks.induct)
  case (2 ai l ls ln)
  show ?case
  proof (cases "parse_one_hunk l ls ln ai")
    case (Inl e')
    with 2 show ?thesis using parse_one_hunk_error [OF Inl] by simp
  next
    case (Inr r)
    obtain h j where r: "r = (h, j)" by force
    have "j \<le> length (l # ls)" using parse_one_hunk_count Inr r by blast
    moreover have "parse_hunks ai (drop j (l # ls)) (ln + j) = Inl e"
      using "2.prems" Inr r by (auto split: sum.splits)
    ultimately obtain m k where "e = InvalidHunkError m k" "ln + j \<le> k"
      "k \<le> ln + j + length (drop j (l # ls))"
      using "2.IH" [of r h j] Inr r by blast
    with \<open>j \<le> length (l # ls)\<close> show ?thesis by simp
  qed
qed simp

lemma boundaries_error: "check_patch_boundaries_strict ls = Inl e \<Longrightarrow> \<exists>m. e = InvalidPatchError m"
  by (auto simp: check_patch_boundaries_strict_def check_start_and_end_lines_strict_def Let_def
      split: sum.splits option.splits if_splits prod.splits)

lemma boundaries_lenient_error:
  "check_patch_boundaries_lenient ls = Inl e \<Longrightarrow> \<exists>m. e = InvalidPatchError m"
  by (auto simp: check_patch_boundaries_lenient_def split: sum.splits list.splits if_splits
      dest: boundaries_error)

lemma boundaries_lenient_length:
  assumes "check_patch_boundaries_lenient ls = Inr (pl, hl)"
  shows "length hl + 2 \<le> length ls"
proof -
  have "check_patch_boundaries_strict ls = Inr (pl, hl) \<or>
      check_patch_boundaries_strict (butlast (tl ls)) = Inr (pl, hl)"
    using assms
    by (auto simp: check_patch_boundaries_lenient_def split: sum.splits list.splits if_splits)
  moreover have "length hl + 2 \<le> length xs" if "check_patch_boundaries_strict xs = Inr (pl, hl)" for xs
    using that by (auto simp: boundaries_strict_iff)
  ultimately show ?thesis by fastforce
qed

section \<open>Properties\<close>

text \<open>
  C33: every patch of the documented grammar parses, in each of the three modes, to exactly the
  hunks it spells out, and the returned patch text is the text itself.
\<close>
theorem parse_patch_roundtrip:
  assumes "list_all wf_hunk hs"
  shows "parse_patch_text (print_patch hs) mode =
    Inr \<lparr>patch = print_patch hs, hunks = hs, workdir = None\<rparr>"
  using parse_patch_text_print [OF assms] by (simp add: print_patch_lines)

theorem parse_patch_roundtrip_witness:
  "parse_patch_text (print_patch
     [UpdateFile (lit ''a.rs'') (Some (lit ''b.rs''))
        [\<lparr>change_context = None, old_lines = [lit ''old''], new_lines = [lit ''new''],
          is_end_of_file = True\<rparr>], DeleteFile (lit ''c'')]) Lenient =
   Inr \<lparr>patch = print_patch
     [UpdateFile (lit ''a.rs'') (Some (lit ''b.rs''))
        [\<lparr>change_context = None, old_lines = [lit ''old''], new_lines = [lit ''new''],
          is_end_of_file = True\<rparr>], DeleteFile (lit ''c'')],
     hunks = [UpdateFile (lit ''a.rs'') (Some (lit ''b.rs''))
        [\<lparr>change_context = None, old_lines = [lit ''old''], new_lines = [lit ''new''],
          is_end_of_file = True\<rparr>], DeleteFile (lit ''c'')], workdir = None\<rparr>"
  by (rule parse_patch_roundtrip)
    (simp add: header_path_def clean_line_def wf_chunk_def lit_def uc_def newline_def
      is_whitespace_def)

text \<open>
  Lenient and streaming parsing are conservative: whatever strict parsing accepts, they accept
  with the same result.
\<close>
theorem parse_modes_conservative:
  assumes "parse_patch_text text Strict = Inr args"
  shows "parse_patch_text text Lenient = Inr args \<and> parse_patch_text text Streaming = Inr args"
proof -
  obtain pl hl where b: "check_patch_boundaries_strict (lines (trim text)) = Inr (pl, hl)"
    using assms by (auto simp: parse_patch_text_def split: sum.splits)
  obtain hs where hs: "parse_hunks False hl 2 = Inr hs"
    using assms b by (auto simp: parse_patch_text_def split: sum.splits)
  show ?thesis
    using parse_patch_textI [OF b hs] assms by simp
qed

theorem parse_modes_conservative_witness:
  "parse_patch_text (print_patch [DeleteFile (lit ''c'')]) Streaming =
     Inr \<lparr>patch = print_patch [DeleteFile (lit ''c'')], hunks = [DeleteFile (lit ''c'')],
       workdir = None\<rparr>"
proof -
  have "list_all wf_hunk [DeleteFile (lit ''c'')]"
    by (simp add: header_path_def clean_line_def lit_def uc_def newline_def is_whitespace_def)
  then have "parse_patch_text (print_patch [DeleteFile (lit ''c'')]) Strict =
     Inr \<lparr>patch = print_patch [DeleteFile (lit ''c'')], hunks = [DeleteFile (lit ''c'')],
       workdir = None\<rparr>"
    by (simp only: parse_patch_text_print print_patch_lines)
  then show ?thesis by (simp add: parse_modes_conservative)
qed

text \<open>
  In lenient mode a grammatical patch wrapped in a here-document (\<^verbatim>\<open><<EOF\<close>, quoted or not, and a
  closing \<^verbatim>\<open>EOF\<close>) parses to the same hunks, and the returned patch text has the wrapper removed.
\<close>
theorem parse_patch_heredoc:
  assumes "list_all wf_hunk hs" and "opener \<in> set heredoc_openers"
  shows "parse_patch (join [newline] (opener # patch_lines_of hs @ [lit ''EOF''])) =
    Inr \<lparr>patch = print_patch hs, hunks = hs, workdir = None\<rparr>"
proof -
  let ?ls = "opener # patch_lines_of hs @ [lit ''EOF'']"
  have op: "clean_line opener" "opener \<noteq> []" "hd opener = 60"
    using assms(2) by (auto simp: heredoc_openers_def clean_line_def lit_def uc_def newline_def)
  have eof: "clean_line (lit ''EOF'')" "last (lit ''EOF'') = 70"
    by (simp_all add: clean_line_def lit_def uc_def newline_def)
  have "list_all clean_line (patch_lines_of hs)"
    using assms(1) print_hunk_clean
    by (auto simp: patch_lines_of_def marker_clean_line list_all_iff)
  with op eof have "lines (join [newline] ?ls) = ?ls"
    by (intro lines_join) auto
  moreover have "trim (join [newline] ?ls) = join [newline] ?ls"
    using op eof join_hd [of ?ls "[newline]"] join_last [of ?ls "[newline]"]
    by (intro trim_id) (auto simp: is_whitespace_def)
  moreover have "check_patch_boundaries_strict ?ls \<noteq> Inr r" for r
  proof
    assume "check_patch_boundaries_strict ?ls = Inr r"
    then have "trim (lit ''EOF'') = END_PATCH_MARKER" by (auto simp: boundaries_strict_iff)
    then show False by (simp add: marker_defs str_eval)
  qed
  then obtain e where "check_patch_boundaries_strict ?ls = Inl e"
    by (cases "check_patch_boundaries_strict ?ls") auto
  then have "check_patch_boundaries_lenient ?ls = Inr (patch_lines_of hs, concat (map print_hunk hs))"
    using assms(2) boundaries_print [of hs]
    by (simp add: check_patch_boundaries_lenient_def patch_lines_of_def ends_with_suffix
        butlast_append)
  ultimately show ?thesis
    using parse_hunks_print [OF assms(1)]
    by (simp add: parse_patch_def PARSE_IN_STRICT_MODE_def parse_patch_text_def print_patch_lines)
qed

theorem parse_patch_heredoc_witness:
  "parse_patch (join [newline] (lit ''<<EOF'' # patch_lines_of [DeleteFile (lit ''c'')] @
     [lit ''EOF''])) =
   Inr \<lparr>patch = print_patch [DeleteFile (lit ''c'')], hunks = [DeleteFile (lit ''c'')],
     workdir = None\<rparr>"
  by (rule parse_patch_heredoc)
    (simp_all add: heredoc_openers_def header_path_def clean_line_def lit_def uc_def newline_def
      is_whitespace_def)

text \<open>
  A hunk error reported by \<open>parse_patch\<close> carries a line number that lies inside the patch text:
  after the begin marker and no later than the last line.
\<close>
theorem parse_error_line_in_patch:
  assumes "parse_patch text = Inl (InvalidHunkError m k)"
  shows "2 \<le> k \<and> k \<le> length (lines (trim text))"
proof -
  obtain pl hl where b: "check_patch_boundaries_lenient (lines (trim text)) = Inr (pl, hl)"
    and e: "parse_hunks False hl 2 = Inl (InvalidHunkError m k)"
    using assms
    by (auto simp: parse_patch_def PARSE_IN_STRICT_MODE_def parse_patch_text_def split: sum.splits
        dest: boundaries_lenient_error)
  with parse_hunks_error [OF e] boundaries_lenient_length [OF b] show ?thesis by auto
qed

theorem parse_error_line_in_patch_witness:
  "\<exists>m k. parse_patch (join [newline] [BEGIN_PATCH_MARKER, lit ''bogus'', END_PATCH_MARKER]) =
     Inl (InvalidHunkError m k) \<and> 2 \<le> k \<and> k \<le> 3"
proof -
  let ?t = "join [newline] [BEGIN_PATCH_MARKER, lit ''bogus'', END_PATCH_MARKER]"
  have ls: "lines (trim ?t) = [BEGIN_PATCH_MARKER, lit ''bogus'', END_PATCH_MARKER]"
    by (simp add: str_eval marker_defs)
  have "check_patch_boundaries_strict (lines (trim ?t)) = Inr (lines (trim ?t), [lit ''bogus''])"
    unfolding ls by (simp add: boundaries_strict_iff marker_defs str_eval)
  moreover have "parse_hunks False [lit ''bogus''] 2 =
      Inl (InvalidHunkError (invalid_header_msg (lit ''bogus'')) 2)"
    by (simp add: parse_one_hunk_def str_eval marker_defs)
  ultimately have "parse_patch ?t = Inl (InvalidHunkError (invalid_header_msg (lit ''bogus'')) 2)"
    by (simp add: parse_patch_def PARSE_IN_STRICT_MODE_def parse_patch_text_def
        check_patch_boundaries_lenient_def)
  then show ?thesis using parse_error_line_in_patch [of ?t] ls by auto
qed

end
