(* ===== verification/Invocation.thy ===== *)
theory Invocation
  imports Patch_Files Patch_Format
begin

text \<open>
  \<^verbatim>\<open>codex-rs/apply-patch/src/invocation.rs\<close>: recognising an \<^verbatim>\<open>apply_patch\<close> command line, directly or
  in a shell script, and computing the file changes that are shown for approval before the patch is
  applied. The matches of the tree-sitter query on a script (each a list of capture names and texts)
  and the unified diff of the \<^verbatim>\<open>similar\<close> crate are arguments. The main theorem relates the changes
  shown with what applying the same hunks does.
\<close>

section \<open>Recognising the command\<close>

definition APPLY_PATCH_COMMANDS :: "str list" where
  "APPLY_PATCH_COMMANDS = [lit ''apply_patch'', lit ''applypatch'']"

datatype apply_patch_shell = UnixShell | PowerShell | Cmd

datatype extract_heredoc_error =
  CommandDidNotStartWithApplyPatch
| FailedToLoadBashGrammar
| HeredocNotUtf8
| FailedToParsePatchIntoAst
| FailedToFindHeredocBody

datatype maybe_apply_patch =
  Body apply_patch_args
| ShellParseError extract_heredoc_error
| PatchParseError parse_error
| NotApplyPatch

definition classify_shell_name :: "str \<Rightarrow> str option" where
  "classify_shell_name shell = map_option to_ascii_lowercase (file_stem shell)"

definition eq_ignore_ascii_case :: "str \<Rightarrow> str \<Rightarrow> bool" where
  "eq_ignore_ascii_case a b \<longleftrightarrow> to_ascii_lowercase a = to_ascii_lowercase b"

definition classify_shell :: "str \<Rightarrow> str \<Rightarrow> apply_patch_shell option" where
  "classify_shell shell flag =
     (case classify_shell_name shell of
        None \<Rightarrow> None
      | Some name \<Rightarrow>
          if name \<in> {lit ''bash'', lit ''zsh'', lit ''sh''} \<and> flag \<in> {lit ''-lc'', lit ''-c''} then Some UnixShell
          else if name \<in> {lit ''pwsh'', lit ''powershell''} \<and> eq_ignore_ascii_case flag (lit ''-command'')
          then Some PowerShell
          else if name = lit ''cmd'' \<and> eq_ignore_ascii_case flag (lit ''/c'') then Some Cmd
          else None)"

definition can_skip_flag :: "str \<Rightarrow> str \<Rightarrow> bool" where
  "can_skip_flag shell flag =
     (case classify_shell_name shell of
        None \<Rightarrow> False
      | Some name \<Rightarrow>
          name \<in> {lit ''pwsh'', lit ''powershell''} \<and> eq_ignore_ascii_case flag (lit ''-noprofile''))"

definition parse_shell_script :: "str list \<Rightarrow> (apply_patch_shell \<times> str) option" where
  "parse_shell_script argv =
     (case argv of
        [shell, flag, script] \<Rightarrow> map_option (\<lambda>t. (t, script)) (classify_shell shell flag)
      | [shell, skip_flag, flag, script] \<Rightarrow>
          if can_skip_flag shell skip_flag
          then map_option (\<lambda>t. (t, script)) (classify_shell shell flag)
          else None
      | _ \<Rightarrow> None)"

section \<open>Extracting the heredoc\<close>

type_synonym query_match = "(str \<times> str) list"

definition unquote_raw :: "str \<Rightarrow> str" where
  "unquote_raw raw =
     (case Option.bind (strip_prefix [39] raw) (strip_suffix [39]) of None \<Rightarrow> raw | Some s \<Rightarrow> s)"

fun scan_captures :: "query_match \<Rightarrow> str option \<times> str option \<Rightarrow> str option \<times> str option" where
  "scan_captures [] acc = acc"
| "scan_captures ((name, text) # cs) (heredoc, cd_path) =
     scan_captures cs
       (if name = lit ''heredoc'' then (Some (trim_end_matches newline text), cd_path)
        else if name = lit ''cd_path'' then (heredoc, Some text)
        else if name = lit ''cd_raw_string'' then (heredoc, Some (unquote_raw text))
        else (heredoc, cd_path))"

fun first_heredoc :: "query_match list \<Rightarrow> extract_heredoc_error + str \<times> str option" where
  "first_heredoc [] = Inl CommandDidNotStartWithApplyPatch"
| "first_heredoc (m # ms) =
     (case scan_captures m (None, None) of
        (Some heredoc, cd_path) \<Rightarrow> Inr (heredoc, cd_path)
      | (None, _) \<Rightarrow> first_heredoc ms)"

definition extract_apply_patch_from_bash ::
  "(str \<Rightarrow> extract_heredoc_error + query_match list) \<Rightarrow> str \<Rightarrow> extract_heredoc_error + str \<times> str option" where
  "extract_apply_patch_from_bash query src =
     (case query src of Inl e \<Rightarrow> Inl e | Inr ms \<Rightarrow> first_heredoc ms)"

definition extract_apply_patch_from_shell ::
  "(str \<Rightarrow> extract_heredoc_error + query_match list) \<Rightarrow> apply_patch_shell \<Rightarrow> str \<Rightarrow>
   extract_heredoc_error + str \<times> str option" where
  "extract_apply_patch_from_shell query shell script =
     (case shell of
        UnixShell \<Rightarrow> extract_apply_patch_from_bash query script
      | PowerShell \<Rightarrow> extract_apply_patch_from_bash query script
      | Cmd \<Rightarrow> extract_apply_patch_from_bash query script)"

definition shell_patch ::
  "(str \<Rightarrow> extract_heredoc_error + query_match list) \<Rightarrow> str list \<Rightarrow> maybe_apply_patch" where
  "shell_patch query argv =
     (case parse_shell_script argv of
        Some (shell, script) \<Rightarrow>
          (case extract_apply_patch_from_shell query shell script of
             Inr (body, wd) \<Rightarrow>
               (case parse_patch body of
                  Inr source \<Rightarrow> Body (source\<lparr>workdir := wd\<rparr>)
                | Inl e \<Rightarrow> PatchParseError e)
           | Inl CommandDidNotStartWithApplyPatch \<Rightarrow> NotApplyPatch
           | Inl e \<Rightarrow> ShellParseError e)
      | None \<Rightarrow> NotApplyPatch)"

definition maybe_parse_apply_patch ::
  "(str \<Rightarrow> extract_heredoc_error + query_match list) \<Rightarrow> str list \<Rightarrow> maybe_apply_patch" where
  "maybe_parse_apply_patch query argv =
     (case argv of
        [cmd, body] \<Rightarrow>
          if cmd \<in> set APPLY_PATCH_COMMANDS then
            (case parse_patch body of Inr source \<Rightarrow> Body source | Inl e \<Rightarrow> PatchParseError e)
          else shell_patch query argv
      | _ \<Rightarrow> shell_patch query argv)"

section \<open>The changes shown for approval\<close>

datatype file_change =
  AddChange str
| DeleteChange str
| UpdateChange (unified_diff: str) (move_path: "str option") (new_content: str)

record apply_patch_action =
  changes :: "str \<rightharpoonup> file_change"
  action_patch :: str
  action_cwd :: abs_path_buf

datatype maybe_apply_patch_verified =
  VerifiedBody apply_patch_action
| VerifiedShellParseError extract_heredoc_error
| CorrectnessError apply_patch_error
| VerifiedNotApplyPatch

definition unified_diff_from_chunks ::
  "(str \<Rightarrow> str \<Rightarrow> str) \<Rightarrow> ('s, 'sb) executor_file_system \<Rightarrow> 'sb option \<Rightarrow> abs_path_buf \<Rightarrow>
   update_file_chunk list \<Rightarrow> 's \<Rightarrow> (apply_patch_error + str \<times> str) option" where
  "unified_diff_from_chunks diff fs sandbox path_abs chunks s =
     map_option (map_sum id (\<lambda>a. (diff (original_contents a) (new_contents a), new_contents a)))
       (derive_new_contents_from_chunks fs sandbox path_abs chunks s)"

fun hunk_change ::
  "(str \<Rightarrow> str \<Rightarrow> str) \<Rightarrow> ('s, 'sb) executor_file_system \<Rightarrow> 'sb option \<Rightarrow> str option \<Rightarrow> abs_path_buf \<Rightarrow>
   hunk \<Rightarrow> 's \<Rightarrow> (apply_patch_error + file_change) option" where
  "hunk_change diff fs sandbox home cwd (AddFile p contents) s = Some (Inr (AddChange contents))"
| "hunk_change diff fs sandbox home cwd (DeleteFile p) s =
     (let path_abs = resolve_path_against_base home p cwd in
      case read_file_text fs path_abs sandbox s of
        Inr content \<Rightarrow> Some (Inr (DeleteChange content))
      | Inl e \<Rightarrow> Some (Inl (IoError (lit ''Failed to read '' @ path_abs) e)))"
| "hunk_change diff fs sandbox home cwd (UpdateFile p dest chunks) s =
     map_option (map_sum id (\<lambda>(d, c). UpdateChange d
         (map_option (abs_join home cwd) dest) c))
       (unified_diff_from_chunks diff fs sandbox (resolve_path_against_base home p cwd) chunks s)"

fun collect_changes ::
  "(str \<Rightarrow> str \<Rightarrow> str) \<Rightarrow> ('s, 'sb) executor_file_system \<Rightarrow> 'sb option \<Rightarrow> str option \<Rightarrow> abs_path_buf \<Rightarrow>
   hunk list \<Rightarrow> (str \<rightharpoonup> file_change) \<Rightarrow> 's \<Rightarrow> (apply_patch_error + (str \<rightharpoonup> file_change)) option" where
  "collect_changes diff fs sandbox home cwd [] acc s = Some (Inr acc)"
| "collect_changes diff fs sandbox home cwd (h # hs) acc s =
     (case hunk_change diff fs sandbox home cwd h s of
        None \<Rightarrow> None
      | Some (Inl e) \<Rightarrow> Some (Inl e)
      | Some (Inr c) \<Rightarrow>
          collect_changes diff fs sandbox home cwd hs (acc(resolve_path home cwd h \<mapsto> c)) s)"

definition is_raw_patch :: "str list \<Rightarrow> bool" where
  "is_raw_patch argv \<longleftrightarrow>
     (case argv of [body] \<Rightarrow> \<not> isl (parse_patch body) | _ \<Rightarrow> False) \<or>
     (case parse_shell_script argv of Some (_, script) \<Rightarrow> \<not> isl (parse_patch script) | None \<Rightarrow> False)"

definition maybe_parse_apply_patch_verified ::
  "(str \<Rightarrow> extract_heredoc_error + query_match list) \<Rightarrow> (str \<Rightarrow> str \<Rightarrow> str) \<Rightarrow>
   ('s, 'sb) executor_file_system \<Rightarrow> 'sb option \<Rightarrow> str option \<Rightarrow> str list \<Rightarrow> abs_path_buf \<Rightarrow> 's \<Rightarrow>
   maybe_apply_patch_verified option" where
  "maybe_parse_apply_patch_verified query diff fs sandbox home argv cwd s =
     (if is_raw_patch argv then Some (CorrectnessError ImplicitInvocation)
      else case maybe_parse_apply_patch query argv of
        Body args \<Rightarrow>
          (let effective_cwd = (case workdir args of Some dir \<Rightarrow> abs_join home cwd dir | None \<Rightarrow> cwd) in
           map_option (\<lambda>r. case r of
               Inl e \<Rightarrow> CorrectnessError e
             | Inr cs \<Rightarrow> VerifiedBody \<lparr>changes = cs, action_patch = patch args, action_cwd = effective_cwd\<rparr>)
             (collect_changes diff fs sandbox home effective_cwd (hunks args) Map.empty s))
      | ShellParseError e \<Rightarrow> Some (VerifiedShellParseError e)
      | PatchParseError e \<Rightarrow> Some (CorrectnessError (ParseError e))
      | NotApplyPatch \<Rightarrow> Some VerifiedNotApplyPatch)"

section \<open>What is shown is what is applied\<close>

lemma spec_hunk_frame:
  assumes "spec_hunk home cwd h f = Some f'" "q \<notin> touched home cwd h"
  shows "f' q = f q"
  using assms by (cases h; cases "case h of UpdateFile _ d _ \<Rightarrow> d | _ \<Rightarrow> None") (auto simp: Let_def)

lemma spec_hunks_frame:
  assumes "spec_hunks home cwd hs f = Some f'" "\<forall>h \<in> set hs. q \<notin> touched home cwd h"
  shows "f' q = f q"
  using assms
proof (induction hs arbitrary: f)
  case (Cons h hs)
  then obtain f1 where "spec_hunk home cwd h f = Some f1" "spec_hunks home cwd hs f1 = Some f'"
    by (auto split: Option.bind_splits)
  with Cons spec_hunk_frame [of home cwd h f f1 q] show ?case by simp
qed simp

text \<open>A change shown for a hunk describes the files after the hunk.\<close>

fun change_holds :: "files \<Rightarrow> files \<Rightarrow> str \<Rightarrow> file_change \<Rightarrow> bool" where
  "change_holds f f' p (AddChange c) \<longleftrightarrow> f' p = Some (encode c)"
| "change_holds f f' p (DeleteChange c) \<longleftrightarrow> f' p = None \<and> (\<exists>b. f p = Some b \<and> from_utf8 b = Inr c)"
| "change_holds f f' p (UpdateChange _ None c) \<longleftrightarrow> f' p = Some (encode c)"
| "change_holds f f' p (UpdateChange _ (Some d) c) \<longleftrightarrow> f' p = None \<and> (d \<noteq> p \<longrightarrow> f' d = Some (encode c))"

text \<open>No two hunks touch the same path.\<close>

fun disjoint_targets :: "str option \<Rightarrow> abs_path_buf \<Rightarrow> hunk list \<Rightarrow> bool" where
  "disjoint_targets home cwd [] \<longleftrightarrow> True"
| "disjoint_targets home cwd (h # hs) \<longleftrightarrow>
     (\<forall>h' \<in> set hs. touched home cwd h \<inter> touched home cwd h' = {}) \<and> disjoint_targets home cwd hs"

lemma resolve_path_touched: "resolve_path home cwd h \<in> touched home cwd h"
  by (cases h; cases "case h of UpdateFile _ d _ \<Rightarrow> d | _ \<Rightarrow> None") auto

lemma change_holds_cong:
  assumes "change_holds v f1 (resolve_path home cwd h) c"
    and "hunk_change diff fs sb home cwd h s = Some (Inr c)"
    and "\<forall>q \<in> touched home cwd h. f2 q = f1 q"
  shows "change_holds v f2 (resolve_path home cwd h) c"
  using assms by (cases h; cases "case h of UpdateFile _ d _ \<Rightarrow> d | _ \<Rightarrow> None")
    (auto simp: Let_def abs_join_def map_sum_Inr_iff split: sum.splits prod.splits)

lemma collect_changes_keep:
  assumes "collect_changes diff fs sb home cwd hs acc s = Some (Inr cs)"
    and "\<forall>h \<in> set hs. q \<noteq> resolve_path home cwd h"
  shows "cs q = acc q"
  using assms by (induction hs arbitrary: acc) (auto split: option.splits sum.splits)

context file_store
begin

lemma hunk_change_holds:
  assumes "is_absolute cwd" "hunk_change diff fs sb home cwd h s = Some (Inr c)"
    and "\<forall>q \<in> touched home cwd h. f q = view s q" "spec_hunk home cwd h f = Some f'"
  shows "change_holds (view s) f' (resolve_path home cwd h) c"
proof (cases h)
  case (UpdateFile p d cs)
  let ?p = "resolve_path_against_base home p cwd"
  have n: "is_normal_path ?p" using assms(1) by (rule resolve_is_normal_path)
  obtain a where a: "derive_new_contents_from_chunks fs sb ?p cs s = Some (Inr a)"
    and c: "c = UpdateChange (diff (original_contents a) (new_contents a))
      (map_option (abs_join home cwd) d) (new_contents a)"
    using assms(2) UpdateFile by (auto simp: unified_diff_from_chunks_def map_sum_Inr_iff)
  have "f ?p = view s ?p" using assms(3) UpdateFile by (cases d) auto
  then have "updated_text f ?p cs = Some (new_contents a)"
    using derive_updated_text [OF n a] by (simp add: updated_text_def)
  with assms(4) UpdateFile c show ?thesis by (cases d) (auto simp: Let_def abs_join_def)
next
  case (DeleteFile p)
  then show ?thesis
    using assms read_text_view [OF resolve_is_normal_path [OF assms(1)]]
    by (auto simp: Let_def split: sum.splits)
qed (use assms in auto)

lemma collect_changes_hold:
  assumes "is_absolute cwd" "collect_changes diff fs sb home cwd hs acc s = Some (Inr cs)"
    and "\<forall>h \<in> set hs. \<forall>q \<in> touched home cwd h. f q = view s q"
    and "spec_hunks home cwd hs f = Some f'" "disjoint_targets home cwd hs" "h \<in> set hs"
  shows "\<exists>c. cs (resolve_path home cwd h) = Some c \<and> change_holds (view s) f' (resolve_path home cwd h) c"
  using assms(2-6)
proof (induction hs arbitrary: acc f)
  case (Cons h0 hs)
  obtain c where c: "hunk_change diff fs sb home cwd h0 s = Some (Inr c)"
    and cs: "collect_changes diff fs sb home cwd hs (acc(resolve_path home cwd h0 \<mapsto> c)) s = Some (Inr cs)"
    using Cons.prems(1) by (auto split: option.splits sum.splits)
  obtain f1 where f1: "spec_hunk home cwd h0 f = Some f1" "spec_hunks home cwd hs f1 = Some f'"
    using Cons.prems(3) by (auto split: Option.bind_splits)
  have keep: "\<forall>h' \<in> set hs. \<forall>q \<in> touched home cwd h'. q \<notin> touched home cwd h0"
    using Cons.prems(4) by auto
  show ?case
  proof (cases "h = h0 \<and> h0 \<notin> set hs")
    case True
    have "cs (resolve_path home cwd h0) = Some c"
      using collect_changes_keep [OF cs, of "resolve_path home cwd h0"] keep
        resolve_path_touched [of home cwd] by fastforce
    moreover have "\<forall>q \<in> touched home cwd h0. f' q = f1 q"
      using spec_hunks_frame [OF f1(2)] keep by blast
    moreover have "change_holds (view s) f1 (resolve_path home cwd h0) c"
      using hunk_change_holds [OF assms(1) c _ f1(1)] Cons.prems(2) by simp
    ultimately show ?thesis using change_holds_cong [OF _ c] True by blast
  next
    case False
    then have "h \<in> set hs" using Cons.prems(5) by auto
    moreover have "\<forall>h' \<in> set hs. \<forall>q \<in> touched home cwd h'. f1 q = view s q"
      using spec_hunk_frame [OF f1(1)] keep Cons.prems(2) by simp
    ultimately show ?thesis using Cons.IH [OF cs _ f1(2)] Cons.prems(4) by simp
  qed
qed simp

end

lemma verified_body:
  assumes "maybe_parse_apply_patch_verified query diff fs sandbox home argv cwd s = Some (VerifiedBody action)"
  obtains args where "maybe_parse_apply_patch query argv = Body args"
    "collect_changes diff fs sandbox home (action_cwd action) (hunks args) Map.empty s =
       Some (Inr (changes action))"
    "action_cwd action = (case workdir args of Some dir \<Rightarrow> abs_join home cwd dir | None \<Rightarrow> cwd)"
    "action_patch action = patch args"
proof -
  obtain args where a: "maybe_parse_apply_patch query argv = Body args"
    using assms by (auto simp: maybe_parse_apply_patch_verified_def
        split: if_splits maybe_apply_patch.splits)
  let ?cwd = "case workdir args of Some dir \<Rightarrow> abs_join home cwd dir | None \<Rightarrow> cwd"
  obtain cs where "collect_changes diff fs sandbox home ?cwd (hunks args) Map.empty s = Some (Inr cs)"
    "action = \<lparr>changes = cs, action_patch = patch args, action_cwd = ?cwd\<rparr>"
    using assms a
    by (cases "collect_changes diff fs sandbox home ?cwd (hunks args) Map.empty s"; cases
        "the (collect_changes diff fs sandbox home ?cwd (hunks args) Map.empty s)")
      (auto simp: maybe_parse_apply_patch_verified_def Let_def split: if_splits)
  with a show thesis by (intro that [of args]) simp_all
qed

lemma effective_cwd_absolute:
  "is_absolute cwd \<Longrightarrow> is_absolute (case wd of Some dir \<Rightarrow> abs_join home cwd dir | None \<Rightarrow> cwd)"
  by (auto simp: abs_join_def is_normal_path_absolute resolve_is_normal_path split: option.splits)

text \<open>
  C21: the preview shown for approval is what happens: when a command line is recognised as a patch
  whose hunks touch disjoint paths, and applying those hunks in the reported directory succeeds, then
  every hunk has a change under its path and the files afterwards are as that change says.
\<close>

theorem preview_is_applied:
  assumes "is_absolute cwd"
    and "maybe_parse_apply_patch_verified query diff (local_file_system should_run tree_os sandboxed) None
      home argv cwd t = Some (VerifiedBody action)"
    and "maybe_parse_apply_patch query argv = Body args"
    and "disjoint_targets home (action_cwd action) (hunks args)" "h \<in> set (hunks args)"
    and "apply_hunks_to_files (local_file_system should_run tree_os sandboxed) None home
      (action_cwd action) (hunks args) t = Some (Inr affected, t')"
  shows "\<exists>c. changes action (resolve_path home (action_cwd action) h) = Some c \<and>
    change_holds (tree_view t) (tree_view t') (resolve_path home (action_cwd action) h) c"
proof -
  have c: "is_absolute (action_cwd action)"
    "collect_changes diff (local_file_system should_run tree_os sandboxed) None home (action_cwd action)
      (hunks args) Map.empty t = Some (Inr (changes action))"
    using verified_body [OF assms(2)] assms(1,3) effective_cwd_absolute by (metis maybe_apply_patch.inject(1))+
  show ?thesis
    by (rule local_tree.collect_changes_hold [OF c, of "tree_view t"])
      (simp_all add: local_tree.apply_hunks_to_files_ok [OF c(1) assms(6)] assms(4,5))
qed

lemma parse_patch_print:
  "list_all wf_hunk hs \<Longrightarrow> parse_patch (print_patch hs) = Inr \<lparr>patch = print_patch hs, hunks = hs, workdir = None\<rparr>"
  by (simp add: parse_patch_def PARSE_IN_STRICT_MODE_def parse_patch_text_print print_patch_lines)

text \<open>A concrete patch, shared by the witnesses: it adds an empty file to an empty directory.\<close>

definition sample_patch_argv :: "str list" where
  "sample_patch_argv = [lit ''apply_patch'', print_patch [AddFile (lit ''f'') []]]"

definition sample_patch_fs :: "(tree_fs, nat) executor_file_system" where
  "sample_patch_fs = local_file_system (\<lambda>_. False) tree_os None"

definition sample_patch_action :: apply_patch_action where
  "sample_patch_action = \<lparr>changes = [lit ''/w/f'' \<mapsto> AddChange []],
     action_patch = print_patch [AddFile (lit ''f'') []], action_cwd = lit ''/w''\<rparr>"

lemma sample_patch_parsed:
  "maybe_parse_apply_patch (\<lambda>_. Inr []) sample_patch_argv =
     Body \<lparr>patch = print_patch [AddFile (lit ''f'') []], hunks = [AddFile (lit ''f'') []], workdir = None\<rparr>"
proof -
  have "list_all wf_hunk [AddFile (lit ''f'') []]"
    by (simp add: header_path_def clean_line_def lit_def uc_def newline_def is_whitespace_def
        content_lines_def unlines_def)
  then show ?thesis
    by (simp add: maybe_parse_apply_patch_def APPLY_PATCH_COMMANDS_def parse_patch_print sample_patch_argv_def)
qed

lemma sample_patch_path: "resolve_path_against_base None (lit ''f'') (lit ''/w'') = lit ''/w/f''"
  by (simp add: str_eval path_eval)

lemma sample_patch_verified:
  "maybe_parse_apply_patch_verified (\<lambda>_. Inr []) (\<lambda>_ _. []) sample_patch_fs None None sample_patch_argv
     (lit ''/w'') [] = Some (VerifiedBody sample_patch_action)"
  using sample_patch_parsed
  by (simp add: maybe_parse_apply_patch_verified_def is_raw_patch_def parse_shell_script_def
      sample_patch_argv_def sample_patch_path sample_patch_action_def)

lemma sample_patch_applied:
  "apply_hunks_to_files sample_patch_fs None None (lit ''/w'') [AddFile (lit ''f'') []] [] =
     Some (Inr \<lparr>added = [lit ''f''], modified = [], deleted = []\<rparr>,
       [([[119]], DirNode), ([[119], [102]], FileNode [])])"
  by (simp add: str_eval path_eval files_eval upt_rec sample_patch_fs_def)

theorem preview_is_applied_witness:
  "\<exists>t' affected action c.
     maybe_parse_apply_patch_verified (\<lambda>_. Inr []) (\<lambda>_ _. []) sample_patch_fs None None sample_patch_argv
       (lit ''/w'') [] = Some (VerifiedBody action) \<and>
     apply_hunks_to_files sample_patch_fs None None (lit ''/w'') [AddFile (lit ''f'') []] [] =
       Some (Inr affected, t') \<and>
     changes action (lit ''/w/f'') = Some c \<and> change_holds (tree_view []) (tree_view t') (lit ''/w/f'') c"
proof -
  have "is_absolute (lit ''/w'')" by (simp add: str_eval path_eval)
  from preview_is_applied [OF this sample_patch_verified [unfolded sample_patch_fs_def] sample_patch_parsed,
      of "AddFile (lit ''f'') []"] sample_patch_verified sample_patch_applied sample_patch_path
  show ?thesis by (auto simp: sample_patch_action_def sample_patch_fs_def)
qed

text \<open>
  A command line that is itself a patch, or a shell script that is one, is never turned into
  changes: it is reported as an implicit invocation.
\<close>

theorem implicit_invocation_rejected:
  assumes "parse_patch body = Inr args"
    and "argv = [body] \<or> parse_shell_script argv = Some (shell, body)"
  shows "maybe_parse_apply_patch_verified query diff fs sandbox home argv cwd s =
    Some (CorrectnessError ImplicitInvocation)"
  using assms by (auto simp: maybe_parse_apply_patch_verified_def is_raw_patch_def)

theorem implicit_invocation_rejected_witness:
  "maybe_parse_apply_patch_verified (\<lambda>_. Inr []) (\<lambda>_ _. []) (local_file_system (\<lambda>_::nat. False) tree_os None)
     None None [lit ''/bin/bash'', lit ''-lc'', print_patch [DeleteFile (lit ''c'')]] (lit ''/w'') [] =
   Some (CorrectnessError ImplicitInvocation)"
proof (rule implicit_invocation_rejected)
  show "parse_patch (print_patch [DeleteFile (lit ''c'')]) =
      Inr \<lparr>patch = print_patch [DeleteFile (lit ''c'')], hunks = [DeleteFile (lit ''c'')], workdir = None\<rparr>"
    by (rule parse_patch_print)
      (simp add: header_path_def clean_line_def lit_def uc_def newline_def is_whitespace_def)
  have "classify_shell_name (lit ''/bin/bash'') = Some (lit ''bash'')"
    by (simp add: classify_shell_name_def file_stem_def path_file_name_def stem_of_name_def
        to_ascii_lowercase_def to_ascii_lowercase_char_def str_eval path_eval)
  then show "[lit ''/bin/bash'', lit ''-lc'', print_patch [DeleteFile (lit ''c'')]] =
        [print_patch [DeleteFile (lit ''c'')]] \<or>
      parse_shell_script [lit ''/bin/bash'', lit ''-lc'', print_patch [DeleteFile (lit ''c'')]] =
        Some (UnixShell, print_patch [DeleteFile (lit ''c'')])"
    by (simp add: parse_shell_script_def classify_shell_def)
qed

text \<open>
  Two hunks for the same path overwrite each other in the preview: only the second change is shown,
  computed against the original file, whereas applying the patch performs both.
\<close>

theorem preview_hides_first_hunk:
  assumes "hunk_change diff fs sandbox home cwd h1 s = Some (Inr c1)"
    and "hunk_change diff fs sandbox home cwd h2 s = Some (Inr c2)"
    and "resolve_path home cwd h1 = resolve_path home cwd h2"
  shows "collect_changes diff fs sandbox home cwd [h1, h2] Map.empty s =
    Some (Inr [resolve_path home cwd h2 \<mapsto> c2])"
  using assms by simp

end
