(* ===== verification/Exec_Rule.thy ===== *)
theory Exec_Rule
  imports Abs_Path "HOL-Library.List_Lexorder"
begin

text \<open>
  The rules of the execution policy: \<^verbatim>\<open>codex-rs/execpolicy/src/decision.rs\<close>, \<^verbatim>\<open>rule.rs\<close>,
  \<^verbatim>\<open>error.rs\<close> and \<^verbatim>\<open>executable_name.rs\<close> (Unix). Decisions are a linear order, as derived in the
  source. Network rule hosts are normalised by \<open>normalize_network_rule_host\<close>, whose results are shown
  to be specific lower-case hosts.
\<close>

section \<open>Decisions\<close>

datatype decision = Allow | Prompt | Forbidden

instantiation decision :: linorder
begin

definition decision_rank :: "decision \<Rightarrow> nat" where
  "decision_rank d = (case d of Allow \<Rightarrow> 0 | Prompt \<Rightarrow> 1 | Forbidden \<Rightarrow> 2)"

definition less_eq_decision :: "decision \<Rightarrow> decision \<Rightarrow> bool" where
  "less_eq_decision a b \<longleftrightarrow> decision_rank a \<le> decision_rank b"

definition less_decision :: "decision \<Rightarrow> decision \<Rightarrow> bool" where
  "less_decision a b \<longleftrightarrow> decision_rank a < decision_rank b"

instance
  by standard (auto simp: less_eq_decision_def less_decision_def decision_rank_def split: decision.splits)

end

lemma decision_le_simps [simp]:
  "Allow \<le> d" "d \<le> Forbidden" "d \<le> Allow \<longleftrightarrow> d = Allow" "Forbidden \<le> d \<longleftrightarrow> d = Forbidden"
  by (cases d; simp add: less_eq_decision_def decision_rank_def)+

section \<open>Errors\<close>

record text_range =
  start_line :: nat
  start_column :: nat
  end_line :: nat
  end_column :: nat

record error_location =
  location_path :: str
  location_range :: text_range

text \<open>Tokens and patterns of prefix rules.\<close>

datatype pattern_token = Single str | Alts "str list"

record prefix_pattern =
  first :: str
  rest :: "pattern_token list"

record prefix_rule =
  pattern :: prefix_pattern
  rule_decision :: decision
  rule_justification :: "str option"

datatype rule_match =
  PrefixRuleMatch (matched_prefix: "str list") (match_decision: decision)
    (resolved_program: "str option") (match_justification: "str option")
| HeuristicsRuleMatch (heuristics_command: "str list") (match_decision: decision)

datatype policy_error =
  InvalidDecision str
| InvalidPattern str
| InvalidExample str
| InvalidRule str
| ExampleDidNotMatch "prefix_rule list" "str list" "error_location option"
| ExampleDidMatch "rule_match" str "error_location option"
| Starlark str

fun with_location :: "policy_error \<Rightarrow> error_location \<Rightarrow> policy_error" where
  "with_location (ExampleDidNotMatch rs es None) l = ExampleDidNotMatch rs es (Some l)"
| "with_location (ExampleDidMatch r e None) l = ExampleDidMatch r e (Some l)"
| "with_location other l = other"

definition parse_decision :: "str \<Rightarrow> policy_error + decision" where
  "parse_decision raw =
     (if raw = lit ''allow'' then Inr Allow
      else if raw = lit ''prompt'' then Inr Prompt
      else if raw = lit ''forbidden'' then Inr Forbidden
      else Inl (InvalidDecision raw))"

section \<open>Matching\<close>

fun token_matches :: "pattern_token \<Rightarrow> str \<Rightarrow> bool" where
  "token_matches (Single expected) token \<longleftrightarrow> expected = token"
| "token_matches (Alts alternatives) token \<longleftrightarrow> token \<in> set alternatives"

fun token_alternatives :: "pattern_token \<Rightarrow> str list" where
  "token_alternatives (Single expected) = [expected]"
| "token_alternatives (Alts alts) = alts"

definition matches_prefix :: "prefix_pattern \<Rightarrow> str list \<Rightarrow> str list option" where
  "matches_prefix p cmd =
     (let pattern_length = length (rest p) + 1 in
      if length cmd < pattern_length \<or> cmd ! 0 \<noteq> first p then None
      else if list_all (\<lambda>(t, c). token_matches t c) (zip (rest p) (take (pattern_length - 1) (drop 1 cmd)))
      then Some (take pattern_length cmd)
      else None)"

definition with_resolved_program :: "str \<Rightarrow> rule_match \<Rightarrow> rule_match" where
  "with_resolved_program program m =
     (case m of
        PrefixRuleMatch mp d _ j \<Rightarrow> PrefixRuleMatch mp d (Some program) j
      | HeuristicsRuleMatch c d \<Rightarrow> HeuristicsRuleMatch c d)"

text \<open>\<^verbatim>\<open>impl Rule for PrefixRule\<close>.\<close>

definition rule_program :: "prefix_rule \<Rightarrow> str" where
  "rule_program r = first (pattern r)"

definition rule_matches :: "prefix_rule \<Rightarrow> str list \<Rightarrow> rule_match option" where
  "rule_matches r cmd =
     map_option (\<lambda>mp. PrefixRuleMatch mp (rule_decision r) None (rule_justification r))
       (matches_prefix (pattern r) cmd)"

lemma match_decision_with_resolved_program [simp]:
  "match_decision (with_resolved_program p m) = match_decision m"
  by (cases m) (auto simp: with_resolved_program_def)

lemma matches_prefix_Some:
  "matches_prefix p cmd = Some mp \<longleftrightarrow>
     (\<exists>args more. cmd = first p # args @ more \<and> mp = first p # args \<and>
       list_all2 token_matches (rest p) args)"
proof
  assume "matches_prefix p cmd = Some mp"
  then have len: "length (rest p) < length cmd" and hd: "cmd ! 0 = first p"
    and all: "list_all (\<lambda>(t, c). token_matches t c) (zip (rest p) (take (length (rest p)) (drop 1 cmd)))"
    and mp: "mp = take (length (rest p) + 1) cmd"
    by (auto simp: matches_prefix_def Let_def split: if_splits)
  obtain c cs where cmd: "cmd = c # cs" using len by (cases cmd) auto
  have "list_all2 token_matches (rest p) (take (length (rest p)) cs)"
    using all len cmd by (auto simp: list_all2_iff list_all_iff)
  then show "\<exists>args more. cmd = first p # args @ more \<and> mp = first p # args \<and>
      list_all2 token_matches (rest p) args"
    using hd mp cmd by (intro exI [of _ "take (length (rest p)) cs"] exI [of _ "drop (length (rest p)) cs"]) auto
next
  assume "\<exists>args more. cmd = first p # args @ more \<and> mp = first p # args \<and>
      list_all2 token_matches (rest p) args"
  then obtain args more where "cmd = first p # args @ more" "mp = first p # args"
    "list_all2 token_matches (rest p) args" by blast
  moreover from this(3) have "length args = length (rest p)" by (simp add: list_all2_lengthD)
  ultimately show "matches_prefix p cmd = Some mp"
    by (auto simp: matches_prefix_def Let_def list_all2_iff list_all_iff)
qed

lemma rule_matches_program: "rule_matches r cmd = Some m \<Longrightarrow> \<exists>args. cmd = rule_program r # args"
  by (auto simp: rule_matches_def rule_program_def matches_prefix_Some)

lemma rule_matches_iff:
  "rule_matches r cmd \<noteq> None \<longleftrightarrow>
     (\<exists>args others. cmd = first (pattern r) # args @ others \<and> list_all2 token_matches (rest (pattern r)) args)"
proof -
  have "rule_matches r cmd \<noteq> None \<longleftrightarrow> (\<exists>mp. matches_prefix (pattern r) cmd = Some mp)"
    by (simp add: rule_matches_def)
  then show ?thesis unfolding matches_prefix_Some by blast
qed

section \<open>Network rules\<close>

datatype network_rule_protocol = Http | Https | Socks5Tcp | Socks5Udp

record network_rule =
  host :: str
  protocol :: network_rule_protocol
  net_decision :: decision
  net_justification :: "str option"

definition parse_protocol :: "str \<Rightarrow> policy_error + network_rule_protocol" where
  "parse_protocol raw =
     (if raw = lit ''http'' then Inr Http
      else if raw \<in> {lit ''https'', lit ''https_connect'', lit ''http-connect''} then Inr Https
      else if raw = lit ''socks5_tcp'' then Inr Socks5Tcp
      else if raw = lit ''socks5_udp'' then Inr Socks5Udp
      else Inl (InvalidRule (lit ''network_rule protocol must be one of http, https, socks5_tcp, socks5_udp (got '' @
        raw @ lit '')'')))"

definition as_policy_string :: "network_rule_protocol \<Rightarrow> str" where
  "as_policy_string p =
     (case p of Http \<Rightarrow> lit ''http'' | Https \<Rightarrow> lit ''https'' | Socks5Tcp \<Rightarrow> lit ''socks5_tcp''
      | Socks5Udp \<Rightarrow> lit ''socks5_udp'')"

text \<open>\<^verbatim>\<open>str::split_once\<close> and \<^verbatim>\<open>rsplit_once\<close> at a character.\<close>

definition split_once :: "uchar \<Rightarrow> str \<Rightarrow> (str \<times> str) option" where
  "split_once c s =
     (if c \<in> set s then Some (takeWhile (\<lambda>x. x \<noteq> c) s, tl (dropWhile (\<lambda>x. x \<noteq> c) s)) else None)"

definition rsplit_once :: "uchar \<Rightarrow> str \<Rightarrow> (str \<times> str) option" where
  "rsplit_once c s = map_option (\<lambda>(a, b). (rev b, rev a)) (split_once c (rev s))"

definition is_port :: "str \<Rightarrow> bool" where
  "is_port p \<longleftrightarrow> p \<noteq> [] \<and> list_all is_ascii_digit p"

text \<open>The part of the raw host that is kept: the inside of brackets, or what precedes a single port.\<close>

definition host_without_port :: "str \<Rightarrow> str \<Rightarrow> policy_error + str" where
  "host_without_port raw h =
     (case strip_prefix (lit ''['') h of
        Some stripped \<Rightarrow>
          (case split_once 93 stripped of
             None \<Rightarrow> Inl (InvalidRule (lit ''network_rule host has an invalid bracketed IPv6 literal''))
           | Some (inside, remainder) \<Rightarrow>
               (let port_ok = (case strip_prefix (lit '':'') remainder of Some port \<Rightarrow> is_port port | None \<Rightarrow> False) in
                if remainder \<noteq> [] \<and> \<not> port_ok
                then Inl (InvalidRule (lit ''network_rule host contains an unsupported suffix: '' @ raw))
                else Inr inside))
      | None \<Rightarrow>
          if count_list h 58 = 1 then
            (case rsplit_once 58 h of
               Some (candidate, port) \<Rightarrow> if candidate \<noteq> [] \<and> is_port port then Inr candidate else Inr h
             | None \<Rightarrow> Inr h)
          else Inr h)"

definition normalize_network_rule_host :: "str \<Rightarrow> policy_error + str" where
  "normalize_network_rule_host raw =
     (let h = trim raw in
      if h = [] then Inl (InvalidRule (lit ''network_rule host cannot be empty''))
      else if str_contains h (lit ''://'') \<or> 47 \<in> set h \<or> 63 \<in> set h \<or> 35 \<in> set h then
        Inl (InvalidRule (lit ''network_rule host must be a hostname or IP literal (without scheme or path)''))
      else case host_without_port raw h of
        Inl e \<Rightarrow> Inl e
      | Inr h' \<Rightarrow>
          (let normalized = to_ascii_lowercase (trim (trim_end_matches 46 h')) in
           if normalized = [] then Inl (InvalidRule (lit ''network_rule host cannot be empty''))
           else if 42 \<in> set normalized then
             Inl (InvalidRule (lit ''network_rule host must be a specific host; wildcards are not allowed''))
           else if list_ex is_whitespace normalized then
             Inl (InvalidRule (lit ''network_rule host cannot contain whitespace''))
           else Inr normalized))"

text \<open>\<^verbatim>\<open>executable_name.rs\<close> on Unix.\<close>

definition executable_lookup_key :: "str \<Rightarrow> str" where
  "executable_lookup_key raw = raw"

definition executable_path_lookup_key :: "str \<Rightarrow> str option" where
  "executable_path_lookup_key p = map_option executable_lookup_key (path_file_name p)"

section \<open>Normalised hosts\<close>

lemma set_split_once:
  "split_once c s = Some (a, b) \<Longrightarrow> set a \<subseteq> set s \<and> set b \<subseteq> set s"
  by (auto simp: split_once_def split: if_splits dest: set_takeWhileD list.set_sel(2) set_dropWhileD)
    (metis list.sel(2) list.set_sel(2) set_dropWhileD)

lemma set_trim: "set (trim s) \<subseteq> set s"
  by (auto simp: trim_def trim_start_def trim_end_def dest!: set_dropWhileD)

lemma set_trim_end_matches: "set (trim_end_matches c s) \<subseteq> set s"
  by (auto simp: trim_end_matches_def dest: set_dropWhileD)

lemma set_rsplit_once: "rsplit_once c s = Some (a, b) \<Longrightarrow> set a \<subseteq> set s"
  by (auto simp: rsplit_once_def dest!: set_split_once)

lemma host_without_port_set:
  assumes "host_without_port raw h = Inr h'"
  shows "set h' \<subseteq> set h"
proof (cases "strip_prefix (lit ''['') h")
  case None
  consider "h' = h" | port where "rsplit_once 58 h = Some (h', port)"
    using assms None by (auto simp: host_without_port_def split: option.splits if_splits)
  then show ?thesis by cases (auto dest: set_rsplit_once)
next
  case (Some t)
  then have "set t \<subseteq> set h" by (auto simp: strip_prefix_Some)
  moreover obtain r where "split_once 93 t = Some (h', r)"
    using Some assms by (auto simp: host_without_port_def Let_def split: option.splits if_splits)
  ultimately show ?thesis by (auto dest: set_split_once)
qed

lemma to_ascii_lowercase_char_keeps:
  "to_ascii_lowercase_char c = d \<Longrightarrow> d < 97 \<or> 122 < d \<Longrightarrow> c = d"
  by (auto simp: to_ascii_lowercase_char_def split: if_splits)

lemma normalize_host_parts:
  assumes "normalize_network_rule_host raw = Inr h"
  obtains h' where "host_without_port raw (trim raw) = Inr h'"
    "h = to_ascii_lowercase (trim (trim_end_matches 46 h'))" "h \<noteq> []" "42 \<notin> set h"
    "\<not> list_ex is_whitespace h" "{47, 63, 35} \<inter> set (trim raw) = {}"
  using assms by (auto simp: normalize_network_rule_host_def Let_def split: if_splits sum.splits)

text \<open>
  A host that is accepted for a network rule is specific: it is not empty and has no white space,
  wildcard, slash, question mark, number sign or upper-case ASCII letter.
\<close>

theorem normalize_network_rule_host_specific:
  assumes "normalize_network_rule_host raw = Inr h"
  shows "h \<noteq> [] \<and> (\<forall>c \<in> set h. \<not> is_whitespace c \<and> c \<notin> {42, 47, 63, 35} \<and> \<not> (65 \<le> c \<and> c \<le> 90))"
proof -
  from assms obtain h' where h': "host_without_port raw (trim raw) = Inr h'"
    "h = to_ascii_lowercase (trim (trim_end_matches 46 h'))" "h \<noteq> []" "42 \<notin> set h"
    "\<not> list_ex is_whitespace h" "{47, 63, 35} \<inter> set (trim raw) = {}"
    by (rule normalize_host_parts)
  have sub: "set (trim (trim_end_matches 46 h')) \<subseteq> set (trim raw)"
    using host_without_port_set [OF h'(1)] set_trim set_trim_end_matches by blast
  have "c \<notin> {47, 63, 35} \<and> \<not> (65 \<le> c \<and> c \<le> 90)" if "c \<in> set h" for c
  proof -
    obtain d where d: "d \<in> set (trim raw)" "c = to_ascii_lowercase_char d"
      using \<open>c \<in> set h\<close> sub by (auto simp: h'(2) to_ascii_lowercase_def)
    then show ?thesis
      using h'(6) to_ascii_lowercase_char_keeps [of d c]
      by (auto simp: to_ascii_lowercase_char_def split: if_splits)
  qed
  with h'(3-5) show ?thesis by (auto simp: list_ex_iff)
qed

theorem normalize_network_rule_host_specific_witness:
  "normalize_network_rule_host (lit '' Example.COM.:443 '') = Inr (lit ''example.com'') \<and>
   lit ''example.com'' \<noteq> [] \<and> 42 \<notin> set (lit ''example.com'')"
proof -
  have "normalize_network_rule_host (lit '' Example.COM.:443 '') = Inr (lit ''example.com'')"
    by (simp add: normalize_network_rule_host_def host_without_port_def rsplit_once_def split_once_def
        is_port_def trim_end_matches_def to_ascii_lowercase_def to_ascii_lowercase_char_def str_eval)
  then show ?thesis using normalize_network_rule_host_specific by blast
qed

text \<open>
  Normalisation is not idempotent: a bracketed host with a port inside keeps it the first time and
  loses it the second time, so a rule stored in normalised form is read back as another rule.
\<close>

theorem normalize_network_rule_host_not_idempotent:
  "normalize_network_rule_host (lit ''[a:80]'') = Inr (lit ''a:80'') \<and>
   normalize_network_rule_host (lit ''a:80'') = Inr (lit ''a'')"
  by (simp add: normalize_network_rule_host_def host_without_port_def rsplit_once_def split_once_def
      is_port_def trim_end_matches_def to_ascii_lowercase_def to_ascii_lowercase_char_def str_eval)

lemma protocol_roundtrip: "parse_protocol (as_policy_string p) = Inr p"
  by (cases p) (simp_all add: parse_protocol_def as_policy_string_def)

end
