(* ===== verification/Exec_Policy.thy ===== *)
theory Exec_Policy
  imports Exec_Rule
begin

text \<open>
  \<^verbatim>\<open>codex-rs/execpolicy/src/policy.rs\<close>: policies, their matches for a command and their evaluation.
  A \<^verbatim>\<open>MultiMap\<close> is an association list from keys to the values in insertion order. Parsing a program
  into an absolute path resolves it against the home and current directories, which are arguments.
  The locale \<open>keyed_rules\<close> is the contract of the trait \<^verbatim>\<open>Rule\<close> that makes the index by program
  sound; it is interpreted by prefix rules.
\<close>

section \<open>Multi-maps\<close>

type_synonym ('k, 'v) multimap = "('k \<times> 'v list) list"

fun mm_insert :: "'k \<Rightarrow> 'v \<Rightarrow> ('k, 'v) multimap \<Rightarrow> ('k, 'v) multimap" where
  "mm_insert k v [] = [(k, [v])]"
| "mm_insert k v ((k', vs) # m) = (if k = k' then (k', vs @ [v]) # m else (k', vs) # mm_insert k v m)"

definition mm_get_vec :: "('k, 'v) multimap \<Rightarrow> 'k \<Rightarrow> 'v list option" where
  "mm_get_vec m k = map_of m k"

definition mm_values :: "('k, 'v) multimap \<Rightarrow> 'k \<Rightarrow> 'v list" where
  "mm_values m k = (case mm_get_vec m k of None \<Rightarrow> [] | Some vs \<Rightarrow> vs)"

lemma mm_values_insert [simp]:
  "mm_values (mm_insert k v m) k' = (if k' = k then mm_values m k @ [v] else mm_values m k')"
  by (induction k v m rule: mm_insert.induct) (auto simp: mm_values_def mm_get_vec_def)

lemma mm_values_Nil [simp]: "mm_values [] k = []"
  by (simp add: mm_values_def mm_get_vec_def)

section \<open>Policies\<close>

record policy =
  rules_by_program :: "(str, prefix_rule) multimap"
  network_rules :: "network_rule list"
  host_executables_by_name :: "str \<rightharpoonup> abs_path_buf list"

definition empty_policy :: policy where
  "empty_policy = \<lparr>rules_by_program = [], network_rules = [], host_executables_by_name = Map.empty\<rparr>"

definition render_pattern_token :: "pattern_token \<Rightarrow> str" where
  "render_pattern_token t =
     (case t of
        Single v \<Rightarrow> v
      | Alts alternatives \<Rightarrow> lit ''['' @ join (lit ''|'') alternatives @ lit '']'')"

definition get_allowed_prefixes :: "policy \<Rightarrow> str list list" where
  "get_allowed_prefixes p =
     remdups_adj (sort (concat (map (\<lambda>(_, rules).
       map (\<lambda>r. first (pattern r) # map render_pattern_token (rest (pattern r)))
         (filter (\<lambda>r. rule_decision r = Allow) rules)) (rules_by_program p))))"

definition add_prefix_rule :: "str list \<Rightarrow> decision \<Rightarrow> policy \<Rightarrow> policy_error + policy" where
  "add_prefix_rule pre d p =
     (case pre of
        [] \<Rightarrow> Inl (InvalidPattern (lit ''prefix cannot be empty''))
      | first_token # others \<Rightarrow>
          Inr (p\<lparr>rules_by_program := mm_insert first_token
            \<lparr>pattern = \<lparr>first = first_token, rest = map Single others\<rparr>, rule_decision = d,
              rule_justification = None\<rparr> (rules_by_program p)\<rparr>))"

definition blank_justification :: "str option \<Rightarrow> bool" where
  "blank_justification j = (case j of None \<Rightarrow> False | Some raw \<Rightarrow> trim raw = [])"

definition add_network_rule ::
  "str \<Rightarrow> network_rule_protocol \<Rightarrow> decision \<Rightarrow> str option \<Rightarrow> policy \<Rightarrow> policy_error + policy" where
  "add_network_rule raw_host proto d j p =
     (case normalize_network_rule_host raw_host of
        Inl e \<Rightarrow> Inl e
      | Inr h \<Rightarrow>
          if blank_justification j then Inl (InvalidRule (lit ''justification cannot be empty''))
          else Inr (p\<lparr>network_rules := network_rules p @
            [\<lparr>host = h, protocol = proto, net_decision = d, net_justification = j\<rparr>]\<rparr>))"

definition set_host_executable_paths :: "str \<Rightarrow> abs_path_buf list \<Rightarrow> policy \<Rightarrow> policy" where
  "set_host_executable_paths name paths p =
     p\<lparr>host_executables_by_name := (host_executables_by_name p)(name \<mapsto> paths)\<rparr>"

fun insert_all :: "('k, 'v) multimap \<Rightarrow> ('k, 'v) multimap \<Rightarrow> ('k, 'v) multimap" where
  "insert_all [] m = m"
| "insert_all ((k, vs) # kvs) m = insert_all kvs (foldl (\<lambda>m v. mm_insert k v m) m vs)"

definition merge_overlay :: "policy \<Rightarrow> policy \<Rightarrow> policy" where
  "merge_overlay base overlay =
     \<lparr>rules_by_program = insert_all (rules_by_program overlay) (rules_by_program base),
      network_rules = network_rules base @ network_rules overlay,
      host_executables_by_name = host_executables_by_name base ++ host_executables_by_name overlay\<rparr>"

section \<open>Network domains\<close>

definition upsert_domain :: "str list \<Rightarrow> str \<Rightarrow> str list" where
  "upsert_domain entries h = filter (\<lambda>e. e \<noteq> h) entries @ [h]"

fun compile_domains :: "network_rule list \<Rightarrow> str list \<times> str list \<Rightarrow> str list \<times> str list" where
  "compile_domains [] acc = acc"
| "compile_domains (r # rs) (allowed, denied) =
     compile_domains rs
       (case net_decision r of
          Allow \<Rightarrow> (upsert_domain allowed (host r), filter (\<lambda>e. e \<noteq> host r) denied)
        | Forbidden \<Rightarrow> (filter (\<lambda>e. e \<noteq> host r) allowed, upsert_domain denied (host r))
        | Prompt \<Rightarrow> (allowed, denied))"

definition compiled_network_domains :: "policy \<Rightarrow> str list \<times> str list" where
  "compiled_network_domains p = compile_domains (network_rules p) ([], [])"

section \<open>Matching a command\<close>

definition match_exact_rules :: "policy \<Rightarrow> str list \<Rightarrow> rule_match list option" where
  "match_exact_rules p cmd =
     (case cmd of
        [] \<Rightarrow> None
      | f # _ \<Rightarrow>
          Some (case mm_get_vec (rules_by_program p) f of
            None \<Rightarrow> []
          | Some rules \<Rightarrow> List.map_filter (\<lambda>r. rule_matches r cmd) rules))"

definition match_host_executable_rules :: "path_env \<Rightarrow> policy \<Rightarrow> str list \<Rightarrow> rule_match list" where
  "match_host_executable_rules env p cmd =
     (case cmd of
        [] \<Rightarrow> []
      | f # args \<Rightarrow>
          (let program = from_absolute_path (home_dir env) (current_dir env) f in
           case executable_path_lookup_key program of
             None \<Rightarrow> []
           | Some basename \<Rightarrow>
               (case mm_get_vec (rules_by_program p) basename of
                  None \<Rightarrow> []
                | Some rules \<Rightarrow>
                    if (case host_executables_by_name p basename of
                          None \<Rightarrow> False | Some paths \<Rightarrow> program \<notin> set paths)
                    then []
                    else map (with_resolved_program program)
                      (List.map_filter (\<lambda>r. rule_matches r (basename # args)) rules))))"

definition matches_for_command_with_options ::
  "path_env \<Rightarrow> policy \<Rightarrow> str list \<Rightarrow> (str list \<Rightarrow> decision) option \<Rightarrow> bool \<Rightarrow> rule_match list" where
  "matches_for_command_with_options env p cmd heuristics_fallback resolve_host_executables =
     (let matched =
        (case match_exact_rules p cmd of
           Some (m # ms) \<Rightarrow> m # ms
         | _ \<Rightarrow> if resolve_host_executables then match_host_executable_rules env p cmd else [])
      in case heuristics_fallback of
           Some f \<Rightarrow> if matched = [] then [HeuristicsRuleMatch cmd (f cmd)] else matched
         | None \<Rightarrow> matched)"

definition matches_for_command ::
  "path_env \<Rightarrow> policy \<Rightarrow> str list \<Rightarrow> (str list \<Rightarrow> decision) option \<Rightarrow> rule_match list" where
  "matches_for_command env p cmd hf = matches_for_command_with_options env p cmd hf False"

section \<open>Evaluation\<close>

record evaluation =
  eval_decision :: decision
  matched_rules :: "rule_match list"

text \<open>\<open>None\<close> is the panic on an empty list of matches.\<close>

definition from_matches :: "rule_match list \<Rightarrow> evaluation option" where
  "from_matches ms =
     (case map match_decision ms of
        [] \<Rightarrow> None
      | d # ds \<Rightarrow> Some \<lparr>eval_decision = fold max ds d, matched_rules = ms\<rparr>)"

definition is_match :: "evaluation \<Rightarrow> bool" where
  "is_match e \<longleftrightarrow> list_ex (\<lambda>m. case m of HeuristicsRuleMatch _ _ \<Rightarrow> False | _ \<Rightarrow> True) (matched_rules e)"

definition check_with_options ::
  "path_env \<Rightarrow> policy \<Rightarrow> str list \<Rightarrow> (str list \<Rightarrow> decision) \<Rightarrow> bool \<Rightarrow> evaluation option" where
  "check_with_options env p cmd f resolve =
     from_matches (matches_for_command_with_options env p cmd (Some f) resolve)"

definition check :: "path_env \<Rightarrow> policy \<Rightarrow> str list \<Rightarrow> (str list \<Rightarrow> decision) \<Rightarrow> evaluation option" where
  "check env p cmd f = from_matches (matches_for_command_with_options env p cmd (Some f) False)"

definition check_multiple_with_options ::
  "path_env \<Rightarrow> policy \<Rightarrow> str list list \<Rightarrow> (str list \<Rightarrow> decision) \<Rightarrow> bool \<Rightarrow> evaluation option" where
  "check_multiple_with_options env p commands f resolve =
     from_matches (concat (map (\<lambda>cmd. matches_for_command_with_options env p cmd (Some f) resolve) commands))"

definition check_multiple ::
  "path_env \<Rightarrow> policy \<Rightarrow> str list list \<Rightarrow> (str list \<Rightarrow> decision) \<Rightarrow> evaluation option" where
  "check_multiple env p commands f = check_multiple_with_options env p commands f False"

section \<open>The index by program\<close>

text \<open>Every rule is stored under its own program, and every program has one entry.\<close>

definition wf_index :: "('r \<Rightarrow> str) \<Rightarrow> (str, 'r) multimap \<Rightarrow> bool" where
  "wf_index program m \<longleftrightarrow> distinct (map fst m) \<and> (\<forall>(k, vs) \<in> set m. \<forall>r \<in> set vs. program r = k)"

definition all_values :: "('k, 'v) multimap \<Rightarrow> 'v list" where
  "all_values m = concat (map snd m)"

definition wf_policy :: "policy \<Rightarrow> bool" where
  "wf_policy p \<longleftrightarrow> wf_index rule_program (rules_by_program p)"

lemma fst_mm_insert:
  "set (map fst (mm_insert k v m)) = insert k (set (map fst m))"
  "distinct (map fst m) \<Longrightarrow> distinct (map fst (mm_insert k v m))"
  by (induction k v m rule: mm_insert.induct) auto

lemma wf_index_Nil [simp]: "wf_index program []"
  by (simp add: wf_index_def)

lemma wf_index_insert:
  assumes "wf_index program m" "program r = k"
  shows "wf_index program (mm_insert k r m)"
proof -
  have "\<forall>(k', vs) \<in> set (mm_insert k r m). \<forall>x \<in> set vs. program x = k'"
    using assms unfolding wf_index_def by (induction k r m rule: mm_insert.induct) auto
  with assms fst_mm_insert(2) show ?thesis by (auto simp: wf_index_def)
qed

lemma wf_index_insert_all:
  assumes "wf_index program m" "\<forall>(k, vs) \<in> set m'. \<forall>r \<in> set vs. program r = k"
  shows "wf_index program (insert_all m' m)"
proof -
  have *: "wf_index program m \<Longrightarrow> \<forall>r \<in> set vs. program r = k \<Longrightarrow>
      wf_index program (foldl (\<lambda>m v. mm_insert k v m) m vs)" for m k vs
    by (induction vs arbitrary: m) (auto simp: wf_index_insert)
  show ?thesis using assms by (induction m' m rule: insert_all.induct) (auto simp: *)
qed

lemma mm_values_insert_all:
  "distinct (map fst m') \<Longrightarrow> mm_values (insert_all m' m) k = mm_values m k @ mm_values m' k"
proof (induction m' m rule: insert_all.induct)
  case (2 k' vs kvs m)
  have "mm_values (foldl (\<lambda>m v. mm_insert k' v m) m vs) k =
      mm_values m k @ (if k = k' then vs else [])" for m
    by (induction vs arbitrary: m) auto
  moreover have "k \<notin> fst ` set kvs \<Longrightarrow> mm_values kvs k = []"
    by (auto simp: mm_values_def mm_get_vec_def split: option.splits dest!: map_of_SomeD intro: rev_image_eqI)
  ultimately show ?case using 2 by (auto simp: mm_values_def mm_get_vec_def)
qed simp

locale keyed_rules =
  fixes program :: "'r \<Rightarrow> str"
    and matches :: "'r \<Rightarrow> str list \<Rightarrow> 'm option"
  assumes matches_program: "matches r cmd = Some m \<Longrightarrow> \<exists>args. cmd = program r # args"
begin

lemma other_program_no_match: "program r \<noteq> f \<Longrightarrow> matches r (f # args) = None"
  using matches_program by (cases "matches r (f # args)") fastforce+

lemma other_key_no_match:
  assumes "wf_index program m" "(k, vs) \<in> set m" "k \<noteq> f"
  shows "List.map_filter (\<lambda>r. matches r (f # args)) vs = []"
proof -
  have "\<forall>r \<in> set vs. matches r (f # args) = None"
    using assms other_program_no_match by (fastforce simp: wf_index_def)
  then show ?thesis by (induction vs) (auto simp: map_filter_simps)
qed

lemma wf_index_ConsD:
  "wf_index program ((k, vs) # m) \<Longrightarrow> wf_index program m \<and> k \<notin> fst ` set m"
  by (auto simp: wf_index_def)

lemma map_filter_append: "List.map_filter f (xs @ ys) = List.map_filter f xs @ List.map_filter f ys"
  by (simp add: List.map_filter_def)

lemma lookup_complete:
  assumes "wf_index program m"
  shows "List.map_filter (\<lambda>r. matches r (f # args)) (mm_values m f) =
    List.map_filter (\<lambda>r. matches r (f # args)) (all_values m)"
  using assms
proof (induction m)
  case (Cons e m)
  obtain k vs where e: "e = (k, vs)" by (cases e)
  with Cons.prems have wf: "wf_index program m" "k \<notin> fst ` set m" by (auto dest: wf_index_ConsD)
  show ?case
  proof (cases "k = f")
    case True
    have "List.map_filter (\<lambda>r. matches r (f # args)) (all_values m) = []"
      using wf True
    proof (induction m)
      case (Cons e' m)
      then show ?case
        using other_key_no_match [OF Cons.prems(1), of "fst e'" "snd e'" f args]
          wf_index_ConsD [of "fst e'" "snd e'" m]
        by (auto simp: all_values_def map_filter_append)
    qed (simp add: all_values_def List.map_filter_def)
    with True show ?thesis
      by (simp add: e all_values_def mm_values_def mm_get_vec_def map_filter_append)
  next
    case False
    then have "List.map_filter (\<lambda>r. matches r (f # args)) vs = []"
      using other_key_no_match [OF Cons.prems, of k vs f args] e by simp
    with False Cons.IH [OF wf(1)] show ?thesis
      by (simp add: e all_values_def mm_values_def mm_get_vec_def map_filter_append)
  qed
qed (simp add: all_values_def)

end

interpretation prefix_rules: keyed_rules rule_program rule_matches
  by unfold_locales (rule rule_matches_program)

lemma match_exact_rules_values:
  "match_exact_rules p (f # args) =
     Some (List.map_filter (\<lambda>r. rule_matches r (f # args)) (mm_values (rules_by_program p) f))"
  by (auto simp: match_exact_rules_def mm_values_def List.map_filter_def split: option.splits)

section \<open>Properties\<close>

lemma fold_max:
  "fold max ds (d :: decision) \<in> set (d # ds) \<and> (\<forall>x \<in> set (d # ds). x \<le> fold max ds d)"
proof (induction ds arbitrary: d)
  case (Cons x ds)
  from Cons [of "max x d"] show ?case by (auto simp: max_def split: if_splits intro: order_trans)
qed simp

lemma from_matches_max:
  assumes "ms \<noteq> []"
  shows "\<exists>e. from_matches ms = Some e \<and> matched_rules e = ms \<and>
    (\<exists>m \<in> set ms. match_decision m = eval_decision e) \<and> (\<forall>m \<in> set ms. match_decision m \<le> eval_decision e)"
  using assms fold_max [of "map match_decision (tl ms)" "match_decision (hd ms)"]
  by (cases ms) (auto simp: from_matches_def)

lemma matches_not_Nil: "matches_for_command_with_options env p cmd (Some f) resolve \<noteq> []"
  by (simp add: matches_for_command_with_options_def Let_def)

text \<open>
  C19: evaluating a command never panics, and the decision is the most restrictive one among the
  matches: it is attained by a match and no match is more restrictive. In particular one forbidding
  match forbids the command, and it is allowed only if every match allows it.
\<close>

theorem check_most_restrictive:
  "\<exists>e. check_with_options env p cmd f resolve = Some e \<and> matched_rules e \<noteq> [] \<and>
     matched_rules e = matches_for_command_with_options env p cmd (Some f) resolve \<and>
     (\<exists>m \<in> set (matched_rules e). match_decision m = eval_decision e) \<and>
     (\<forall>m \<in> set (matched_rules e). match_decision m \<le> eval_decision e)"
  using from_matches_max [OF matches_not_Nil] matches_not_Nil
  unfolding check_with_options_def by metis

theorem check_most_restrictive_witness:
  "\<exists>e. check_with_options \<lparr>home_dir = None, current_dir = lit ''/''\<rparr>
      \<lparr>rules_by_program = [(lit ''rm'',
         [\<lparr>pattern = \<lparr>first = lit ''rm'', rest = []\<rparr>, rule_decision = Allow,
           rule_justification = None\<rparr>,
          \<lparr>pattern = \<lparr>first = lit ''rm'', rest = [Alts [lit ''-f'', lit ''-r'']]\<rparr>,
           rule_decision = Forbidden, rule_justification = None\<rparr>])], network_rules = [],
       host_executables_by_name = Map.empty\<rparr> [lit ''rm'', lit ''-r''] (\<lambda>_. Allow) False = Some e \<and>
     eval_decision e = Forbidden"
proof -
  let ?env = "\<lparr>home_dir = None, current_dir = lit ''/''\<rparr>"
  let ?p = "\<lparr>rules_by_program = [(lit ''rm'',
    [\<lparr>pattern = \<lparr>first = lit ''rm'', rest = []\<rparr>, rule_decision = Allow, rule_justification = None\<rparr>,
     \<lparr>pattern = \<lparr>first = lit ''rm'', rest = [Alts [lit ''-f'', lit ''-r'']]\<rparr>,
      rule_decision = Forbidden, rule_justification = None\<rparr>])], network_rules = [],
    host_executables_by_name = Map.empty\<rparr>"
  have "PrefixRuleMatch [lit ''rm'', lit ''-r''] Forbidden None None \<in>
      set (matches_for_command_with_options ?env ?p [lit ''rm'', lit ''-r''] (Some (\<lambda>_. Allow)) False)"
    by (simp add: matches_for_command_with_options_def match_exact_rules_def mm_get_vec_def
        rule_matches_def matches_prefix_def List.map_filter_def str_eval)
  moreover have "d = Forbidden" if "Forbidden \<le> d" for d
    using that by (cases d) (simp_all add: less_eq_decision_def decision_rank_def)
  ultimately show ?thesis
    using check_most_restrictive [of ?env ?p "[lit ''rm'', lit ''-r'']" "\<lambda>_. Allow" False]
    by fastforce
qed

text \<open>
  Looking rules up by the first token of the command loses no match: in a well-formed policy the
  exact matches are those of all rules of the policy tried in turn.
\<close>

theorem match_exact_rules_complete:
  assumes "wf_policy p" "cmd \<noteq> []"
  shows "match_exact_rules p cmd =
    Some (List.map_filter (\<lambda>r. rule_matches r cmd) (all_values (rules_by_program p)))"
  using assms prefix_rules.lookup_complete [of "rules_by_program p"]
  by (cases cmd) (auto simp: wf_policy_def match_exact_rules_values)

theorem match_exact_rules_complete_witness:
  "match_exact_rules \<lparr>rules_by_program = [(lit ''ls'', [\<lparr>pattern = \<lparr>first = lit ''ls'', rest = []\<rparr>,
       rule_decision = Allow, rule_justification = None\<rparr>])],
     network_rules = [], host_executables_by_name = Map.empty\<rparr> [lit ''ls'', lit ''x''] =
   Some [PrefixRuleMatch [lit ''ls''] Allow None None]"
  by (subst match_exact_rules_complete)
    (simp_all add: wf_policy_def wf_index_def rule_program_def all_values_def rule_matches_def
      matches_prefix_def List.map_filter_def)

lemma match_exact_rules_overlay:
  assumes "wf_policy overlay" "cmd \<noteq> []"
  shows "\<exists>ms ms'. match_exact_rules base cmd = Some ms \<and> match_exact_rules overlay cmd = Some ms' \<and>
    match_exact_rules (merge_overlay base overlay) cmd = Some (ms @ ms')"
  using assms
  by (cases cmd) (auto simp: match_exact_rules_values merge_overlay_def mm_values_insert_all wf_policy_def wf_index_def
      prefix_rules.map_filter_append)

lemma match_host_executable_rules_values:
  "match_host_executable_rules env p (f # args) =
     (case executable_path_lookup_key (from_absolute_path (home_dir env) (current_dir env) f) of
        None \<Rightarrow> []
      | Some b \<Rightarrow>
          if (case host_executables_by_name p b of
                None \<Rightarrow> False | Some paths \<Rightarrow> from_absolute_path (home_dir env) (current_dir env) f \<notin> set paths)
          then []
          else map (with_resolved_program (from_absolute_path (home_dir env) (current_dir env) f))
            (List.map_filter (\<lambda>r. rule_matches r (b # args)) (mm_values (rules_by_program p) b)))"
  by (auto simp: match_host_executable_rules_def Let_def mm_values_def List.map_filter_def split: option.splits)

text \<open>
  An overlay leaves a program to the rules for its base name when it has no rule for the program as it is written and
  its host executables, where it lists any for the base name, list the program.
\<close>

definition leaves_fallback :: "path_env \<Rightarrow> policy \<Rightarrow> str list \<Rightarrow> bool" where
  "leaves_fallback env overlay cmd \<longleftrightarrow>
     match_exact_rules overlay cmd = Some [] \<and>
     (let program = from_absolute_path (home_dir env) (current_dir env) (hd cmd) in
      case executable_path_lookup_key program of
        None \<Rightarrow> True
      | Some b \<Rightarrow> (case host_executables_by_name overlay b of None \<Rightarrow> True | Some paths \<Rightarrow> program \<in> set paths))"

lemma host_executable_overlay:
  assumes "wf_policy overlay" "leaves_fallback env overlay (f # args)"
  shows "set (match_host_executable_rules env base (f # args)) \<subseteq>
    set (match_host_executable_rules env (merge_overlay base overlay) (f # args))"
proof (cases "executable_path_lookup_key (from_absolute_path (home_dir env) (current_dir env) f)")
  case (Some b)
  have "mm_values (rules_by_program (merge_overlay base overlay)) b = mm_values (rules_by_program base) b @ mm_values (rules_by_program overlay) b"
    using assms(1) by (simp add: merge_overlay_def mm_values_insert_all wf_policy_def wf_index_def)
  moreover have "host_executables_by_name (merge_overlay base overlay) b =
      (case host_executables_by_name overlay b of None \<Rightarrow> host_executables_by_name base b | Some paths \<Rightarrow> Some paths)"
    by (simp add: merge_overlay_def map_add_def)
  ultimately show ?thesis
    using assms(2) Some
    by (auto simp: match_host_executable_rules_values leaves_fallback_def Let_def prefix_rules.map_filter_append
        split: option.splits if_splits)
qed (simp add: match_host_executable_rules_values)

lemma overlay_matches_more:
  assumes "wf_policy overlay" "matches_for_command_with_options env base cmd None resolve \<noteq> []"
    and "match_exact_rules base cmd = Some [] \<Longrightarrow> leaves_fallback env overlay cmd"
  shows "set (matches_for_command_with_options env base cmd None resolve) \<subseteq>
    set (matches_for_command_with_options env (merge_overlay base overlay) cmd None resolve)"
proof (cases cmd)
  case Nil
  then show ?thesis using assms(2)
    by (auto simp: matches_for_command_with_options_def match_exact_rules_def match_host_executable_rules_def split: if_splits)
next
  case (Cons f args)
  obtain ms ms' where ms: "match_exact_rules base cmd = Some ms" "match_exact_rules overlay cmd = Some ms'"
    "match_exact_rules (merge_overlay base overlay) cmd = Some (ms @ ms')"
    using match_exact_rules_overlay [OF assms(1), of cmd base] Cons by blast
  show ?thesis
  proof (cases ms)
    case Nil
    then have left: "leaves_fallback env overlay (f # args)" using assms(3) ms(1) Cons by simp
    then have "ms' = []" using ms(2) Cons by (simp add: leaves_fallback_def)
    then show ?thesis using host_executable_overlay [OF assms(1) left, of base] ms Nil Cons
      by (cases resolve) (simp_all add: matches_for_command_with_options_def)
  qed (use ms in \<open>auto simp: matches_for_command_with_options_def\<close>)
qed

lemma check_without_fallback:
  assumes "matches_for_command_with_options env p cmd None resolve \<noteq> []"
  shows "check_with_options env p cmd f resolve = from_matches (matches_for_command_with_options env p cmd None resolve)"
  using assms by (simp add: check_with_options_def matches_for_command_with_options_def Let_def)

text \<open>
  C20: an overlay does not relax what the base policy decides by its rules. When rules of the base policy match the
  command, the evaluation under the merged policy is at least as restrictive, provided that the overlay leaves the
  fallback alone where only rules for the base name of the program match: it has no exact rule for the program,
  which would come before them, and no list of host executables that leaves the program out.
\<close>

theorem merge_overlay_tightens:
  assumes "wf_policy overlay" "matches_for_command_with_options env base cmd None resolve \<noteq> []"
    and "match_exact_rules base cmd = Some [] \<Longrightarrow> leaves_fallback env overlay cmd"
  shows "\<exists>e e'. check_with_options env base cmd f resolve = Some e \<and>
    check_with_options env (merge_overlay base overlay) cmd f resolve = Some e' \<and>
    eval_decision e \<le> eval_decision e'"
proof -
  let ?ms = "matches_for_command_with_options env base cmd None resolve"
  let ?ms' = "matches_for_command_with_options env (merge_overlay base overlay) cmd None resolve"
  have sub: "set ?ms \<subseteq> set ?ms'" by (rule overlay_matches_more [OF assms])
  then have ne: "?ms' \<noteq> []" using assms(2) by auto
  obtain e where e: "from_matches ?ms = Some e" "\<exists>m \<in> set ?ms. match_decision m = eval_decision e"
    using from_matches_max [OF assms(2)] by blast
  obtain e' where e': "from_matches ?ms' = Some e'" "\<forall>m \<in> set ?ms'. match_decision m \<le> eval_decision e'"
    using from_matches_max [OF ne] by blast
  have "eval_decision e \<le> eval_decision e'" using e(2) e'(2) sub by (metis subsetD)
  then show ?thesis using e(1) e'(1) check_without_fallback [OF assms(2)] check_without_fallback [OF ne] by auto
qed

theorem merge_overlay_tightens_witness:
  "\<exists>e e'. check_with_options \<lparr>home_dir = None, current_dir = lit ''/''\<rparr>
      \<lparr>rules_by_program = [(lit ''ls'', [\<lparr>pattern = \<lparr>first = lit ''ls'', rest = []\<rparr>,
         rule_decision = Prompt, rule_justification = None\<rparr>])], network_rules = [],
       host_executables_by_name = Map.empty\<rparr> [lit ''ls''] (\<lambda>_. Allow) False = Some e \<and>
    check_with_options \<lparr>home_dir = None, current_dir = lit ''/''\<rparr>
      (merge_overlay \<lparr>rules_by_program = [(lit ''ls'', [\<lparr>pattern = \<lparr>first = lit ''ls'', rest = []\<rparr>,
         rule_decision = Prompt, rule_justification = None\<rparr>])], network_rules = [],
       host_executables_by_name = Map.empty\<rparr> empty_policy) [lit ''ls''] (\<lambda>_. Allow) False = Some e' \<and>
    eval_decision e \<le> eval_decision e'"
  by (rule merge_overlay_tightens)
    (simp_all add: matches_for_command_with_options_def wf_policy_def empty_policy_def match_exact_rules_def mm_get_vec_def rule_matches_def
      matches_prefix_def List.map_filter_def)

text \<open>The operations that build policies keep them well formed.\<close>

lemma wf_empty_policy: "wf_policy empty_policy"
  by (simp add: wf_policy_def empty_policy_def)

lemma wf_add_prefix_rule: "wf_policy p \<Longrightarrow> add_prefix_rule pre d p = Inr p' \<Longrightarrow> wf_policy p'"
  by (auto simp: wf_policy_def add_prefix_rule_def rule_program_def intro!: wf_index_insert split: list.splits)

lemma wf_add_network_rule: "wf_policy p \<Longrightarrow> add_network_rule h pr d j p = Inr p' \<Longrightarrow> wf_policy p'"
  by (auto simp: wf_policy_def add_network_rule_def split: sum.splits if_splits)

lemma wf_merge_overlay: "wf_policy base \<Longrightarrow> wf_policy overlay \<Longrightarrow> wf_policy (merge_overlay base overlay)"
  by (auto simp: wf_policy_def merge_overlay_def wf_index_def [of _ "rules_by_program overlay"]
      intro!: wf_index_insert_all)

text \<open>
  The fallback to rules of the program's base name reports the resolved path of the program, uses
  only rules for its base name, and where the host executables of that name are listed only for a
  listed path.
\<close>

theorem host_executable_fallback_restricted:
  assumes "m \<in> set (match_host_executable_rules env p (f # args))"
  shows "\<exists>basename r. path_file_name (from_absolute_path (home_dir env) (current_dir env) f) = Some basename \<and>
    r \<in> set (mm_values (rules_by_program p) basename) \<and>
    (\<exists>m0. rule_matches r (basename # args) = Some m0 \<and>
      m = with_resolved_program (from_absolute_path (home_dir env) (current_dir env) f) m0) \<and>
    (\<forall>paths. host_executables_by_name p basename = Some paths \<longrightarrow>
      from_absolute_path (home_dir env) (current_dir env) f \<in> set paths)"
proof -
  let ?prog = "from_absolute_path (home_dir env) (current_dir env) f"
  obtain b where b: "path_file_name ?prog = Some b"
    using assms by (cases "path_file_name ?prog")
      (auto simp: match_host_executable_rules_def executable_path_lookup_key_def)
  obtain rs where rs: "mm_get_vec (rules_by_program p) b = Some rs"
    using assms b by (cases "mm_get_vec (rules_by_program p) b")
      (auto simp: match_host_executable_rules_def executable_path_lookup_key_def executable_lookup_key_def)
  have "(\<forall>paths. host_executables_by_name p b = Some paths \<longrightarrow> ?prog \<in> set paths) \<and>
      (\<exists>r \<in> set rs. \<exists>m0. rule_matches r (b # args) = Some m0 \<and> m = with_resolved_program ?prog m0)"
    using assms b rs by (auto simp: match_host_executable_rules_def executable_path_lookup_key_def
        executable_lookup_key_def List.map_filter_def Let_def split: option.splits if_splits)
      blast+
  with b rs show ?thesis by (auto simp: mm_values_def)
qed

theorem host_executable_fallback_restricted_witness:
  "\<exists>basename r. path_file_name (from_absolute_path None (lit ''/'') (lit ''/bin/ls'')) = Some basename \<and>
    r \<in> set (mm_values [(lit ''ls'', [\<lparr>pattern = \<lparr>first = lit ''ls'', rest = []\<rparr>, rule_decision = Allow,
      rule_justification = None\<rparr>])] basename)"
proof -
  let ?p = "\<lparr>rules_by_program = [(lit ''ls'', [\<lparr>pattern = \<lparr>first = lit ''ls'', rest = []\<rparr>,
    rule_decision = Allow, rule_justification = None\<rparr>])], network_rules = [],
    host_executables_by_name = Map.empty\<rparr>"
  let ?env = "\<lparr>home_dir = None, current_dir = lit ''/''\<rparr>"
  have "PrefixRuleMatch [lit ''ls''] Allow (Some (lit ''/bin/ls'')) None \<in>
      set (match_host_executable_rules ?env ?p [lit ''/bin/ls''])"
    by (simp add: match_host_executable_rules_def from_absolute_path_def maybe_expand_home_directory_def
        absolutize_def normalize_path_def components_def piece_component_def is_absolute_def slash_def
        os_str_def push_component_def executable_path_lookup_key_def executable_lookup_key_def
        path_file_name_def mm_get_vec_def rule_matches_def matches_prefix_def with_resolved_program_def
        List.map_filter_def str_eval Let_def)
  from host_executable_fallback_restricted [OF this] show ?thesis by auto
qed

text \<open>
  The fallback is not limited to absolute program paths: a relative path is resolved against the
  current directory first, so an allow rule for a base name allows a program of that name next to
  the caller.
\<close>

theorem relative_program_matches_basename_rule:
  "check_with_options \<lparr>home_dir = None, current_dir = lit ''/w''\<rparr>
     \<lparr>rules_by_program = [(lit ''git'', [\<lparr>pattern = \<lparr>first = lit ''git'', rest = []\<rparr>, rule_decision = Allow,
        rule_justification = None\<rparr>])], network_rules = [], host_executables_by_name = Map.empty\<rparr>
     [lit ''./git''] (\<lambda>_. Forbidden) True =
   Some \<lparr>eval_decision = Allow,
     matched_rules = [PrefixRuleMatch [lit ''git''] Allow (Some (lit ''/w/git'')) None]\<rparr>"
  by (simp add: check_with_options_def matches_for_command_with_options_def match_exact_rules_def
      match_host_executable_rules_def from_absolute_path_def maybe_expand_home_directory_def
      absolutize_def absolutize_from_def path_with_base_def path_join_def normalize_path_def components_def
      piece_component_def is_absolute_def slash_def os_str_def push_component_def
      executable_path_lookup_key_def executable_lookup_key_def path_file_name_def mm_get_vec_def
      rule_matches_def matches_prefix_def with_resolved_program_def List.map_filter_def from_matches_def
      str_eval Let_def)

section \<open>Network domains\<close>

text \<open>The last decision about a host that is not a prompt.\<close>

fun last_decision :: "network_rule list \<Rightarrow> str \<Rightarrow> decision option \<Rightarrow> decision option" where
  "last_decision [] h d = d"
| "last_decision (r # rs) h d =
     last_decision rs h (if host r = h \<and> net_decision r \<noteq> Prompt then Some (net_decision r) else d)"

lemma set_upsert_domain [simp]: "set (upsert_domain es h) = insert h (set es)"
  by (auto simp: upsert_domain_def)

lemma distinct_upsert_domain [simp]: "distinct es \<Longrightarrow> distinct (upsert_domain es h)"
  by (simp add: upsert_domain_def)

lemma compile_domains_spec:
  assumes "distinct a" "distinct d" "set a \<inter> set d = {}"
    and "\<forall>h. st h = (if h \<in> set a then Some Allow else if h \<in> set d then Some Forbidden else None)"
    and "compile_domains rs (a, d) = (a', d')"
  shows "distinct a' \<and> distinct d' \<and> set a' \<inter> set d' = {} \<and>
    (\<forall>h. last_decision rs h (st h) =
      (if h \<in> set a' then Some Allow else if h \<in> set d' then Some Forbidden else None))"
  using assms
proof (induction rs arbitrary: a d st)
  case (Cons r rs)
  let ?st = "\<lambda>h. if host r = h \<and> net_decision r \<noteq> Prompt then Some (net_decision r) else st h"
  have "distinct a' \<and> distinct d' \<and> set a' \<inter> set d' = {} \<and>
      (\<forall>h. last_decision rs h (?st h) =
        (if h \<in> set a' then Some Allow else if h \<in> set d' then Some Forbidden else None))"
  proof (cases "net_decision r")
    case Allow
    then show ?thesis using Cons.prems
      by (intro Cons.IH [of "upsert_domain a (host r)" "filter (\<lambda>e. e \<noteq> host r) d"]) auto
  next
    case Prompt
    then show ?thesis using Cons.prems by (intro Cons.IH [of a d]) auto
  next
    case Forbidden
    then show ?thesis using Cons.prems
      by (intro Cons.IH [of "filter (\<lambda>e. e \<noteq> host r) a" "upsert_domain d (host r)"]) auto
  qed
  then show ?case by simp
qed simp

text \<open>
  The compiled network domains are two lists without repetitions and without common host: a host
  is allowed, or denied, exactly when the last rule about it that is not a prompt says so.
\<close>

theorem compiled_network_domains_last_rule:
  "case compiled_network_domains p of (allowed, denied) \<Rightarrow>
     distinct allowed \<and> distinct denied \<and> set allowed \<inter> set denied = {} \<and>
     (\<forall>h. last_decision (network_rules p) h None =
       (if h \<in> set allowed then Some Allow else if h \<in> set denied then Some Forbidden else None))"
  using compile_domains_spec [of "[]" "[]" "\<lambda>_. None" "network_rules p"]
  by (auto simp: compiled_network_domains_def split: prod.splits)

end
