(* ===== verification/Policy_Parser.thy ===== *)
theory Policy_Parser
  imports Exec_Policy
begin

text \<open>
  Building policies from policy files: \<^verbatim>\<open>codex-rs/execpolicy/src/parser.rs\<close>, the validation of examples
  in \<^verbatim>\<open>rule.rs\<close> and the appending of rules in \<^verbatim>\<open>amend.rs\<close>. The Starlark interpreter is an argument that
  turns a file into the calls of the three builtins it makes and the error that ends it, if any; shell
  splitting and joining (\<^verbatim>\<open>shlex\<close>) and JSON string literals are arguments too. Reading and locking the
  policy file is not modelled.
\<close>

section \<open>Starlark values\<close>

datatype star_value = StarStr str | StarList "star_value list" | StarOther str

fun get_type :: "star_value \<Rightarrow> str" where
  "get_type (StarStr _) = lit ''string''"
| "get_type (StarList _) = lit ''list''"
| "get_type (StarOther t) = t"

text \<open>\<^verbatim>\<open>collect::<Result<Vec<_>>>\<close>: the values, or the first error.\<close>

fun collect_results :: "('e + 'a) list \<Rightarrow> 'e + 'a list" where
  "collect_results [] = Inr []"
| "collect_results (Inl e # _) = Inl e"
| "collect_results (Inr x # rs) = map_sum id ((#) x) (collect_results rs)"

definition string_items :: "(str \<Rightarrow> policy_error) \<Rightarrow> star_value list \<Rightarrow> policy_error + str list" where
  "string_items err vs =
     collect_results (map (\<lambda>v. case v of StarStr s \<Rightarrow> Inr s | _ \<Rightarrow> Inl (err (get_type v))) vs)"

definition parse_pattern_token :: "star_value \<Rightarrow> policy_error + pattern_token" where
  "parse_pattern_token v =
     (case v of
        StarStr s \<Rightarrow> Inr (Single s)
      | StarList vs \<Rightarrow>
          (case string_items (\<lambda>t. InvalidPattern (lit ''pattern alternative must be a string (got '' @ t @ lit '')'')) vs of
             Inl e \<Rightarrow> Inl e
           | Inr [] \<Rightarrow> Inl (InvalidPattern (lit ''pattern alternatives cannot be empty''))
           | Inr [single] \<Rightarrow> Inr (Single single)
           | Inr tokens \<Rightarrow> Inr (Alts tokens))
      | StarOther t \<Rightarrow>
          Inl (InvalidPattern (lit ''pattern element must be a string or list of strings (got '' @ t @ lit '')'')))"

definition parse_pattern :: "star_value list \<Rightarrow> policy_error + pattern_token list" where
  "parse_pattern vs =
     (case collect_results (map parse_pattern_token vs) of
        Inl e \<Rightarrow> Inl e
      | Inr [] \<Rightarrow> Inl (InvalidPattern (lit ''pattern cannot be empty''))
      | Inr tokens \<Rightarrow> Inr tokens)"

definition parse_string_example :: "(str \<Rightarrow> str list option) \<Rightarrow> str \<Rightarrow> policy_error + str list" where
  "parse_string_example shlex_split raw =
     (case shlex_split raw of
        None \<Rightarrow> Inl (InvalidExample (lit ''example string has invalid shell syntax''))
      | Some [] \<Rightarrow> Inl (InvalidExample (lit ''example cannot be an empty string''))
      | Some tokens \<Rightarrow> Inr tokens)"

definition parse_list_example :: "star_value list \<Rightarrow> policy_error + str list" where
  "parse_list_example vs =
     (case string_items (\<lambda>t. InvalidExample (lit ''example tokens must be strings (got '' @ t @ lit '')'')) vs of
        Inl e \<Rightarrow> Inl e
      | Inr [] \<Rightarrow> Inl (InvalidExample (lit ''example cannot be an empty list''))
      | Inr tokens \<Rightarrow> Inr tokens)"

definition parse_example :: "(str \<Rightarrow> str list option) \<Rightarrow> star_value \<Rightarrow> policy_error + str list" where
  "parse_example shlex_split v =
     (case v of
        StarStr raw \<Rightarrow> parse_string_example shlex_split raw
      | StarList vs \<Rightarrow> parse_list_example vs
      | StarOther t \<Rightarrow>
          Inl (InvalidExample (lit ''example must be a string or list of strings (got '' @ t @ lit '')'')))"

definition parse_examples ::
  "(str \<Rightarrow> str list option) \<Rightarrow> star_value list option \<Rightarrow> policy_error + str list list" where
  "parse_examples shlex_split vs =
     (case vs of None \<Rightarrow> Inr [] | Some vs \<Rightarrow> collect_results (map (parse_example shlex_split) vs))"

definition parse_literal_absolute_path :: "path_env \<Rightarrow> str \<Rightarrow> policy_error + abs_path_buf" where
  "parse_literal_absolute_path env raw =
     (if \<not> is_absolute raw
      then Inl (InvalidRule (lit ''host_executable paths must be absolute (got '' @ raw @ lit '')''))
      else Inr (from_absolute_path (home_dir env) (current_dir env) raw))"

definition validate_host_executable_name :: "str \<Rightarrow> policy_error + unit" where
  "validate_host_executable_name name =
     (if name = [] then Inl (InvalidRule (lit ''host_executable name cannot be empty''))
      else if length (components name) \<noteq> 1 \<or> path_file_name name \<noteq> Some name then
        Inl (InvalidRule (lit ''host_executable name must be a bare executable name (got '' @ name @ lit '')''))
      else Inr ())"

definition parse_network_rule_decision :: "str \<Rightarrow> policy_error + decision" where
  "parse_network_rule_decision raw = (if raw = lit ''deny'' then Inr Forbidden else parse_decision raw)"

definition attach_validation_location :: "policy_error \<Rightarrow> error_location option \<Rightarrow> policy_error" where
  "attach_validation_location e loc = (case loc of Some l \<Rightarrow> with_location e l | None \<Rightarrow> e)"

section \<open>Examples\<close>

definition render_example :: "(str list \<Rightarrow> str option) \<Rightarrow> str list \<Rightarrow> str" where
  "render_example try_join ex =
     (case try_join ex of Some s \<Rightarrow> s | None \<Rightarrow> lit ''unable to render example'')"

definition validate_match_examples ::
  "path_env \<Rightarrow> (str list \<Rightarrow> str option) \<Rightarrow> policy \<Rightarrow> prefix_rule list \<Rightarrow> str list list \<Rightarrow> policy_error + unit" where
  "validate_match_examples env try_join p rules examples =
     (let unmatched = map (render_example try_join)
        (filter (\<lambda>ex. matches_for_command_with_options env p ex None True = []) examples) in
      if unmatched = [] then Inr () else Inl (ExampleDidNotMatch rules unmatched None))"

fun validate_not_match_examples ::
  "path_env \<Rightarrow> (str list \<Rightarrow> str option) \<Rightarrow> policy \<Rightarrow> str list list \<Rightarrow> policy_error + unit" where
  "validate_not_match_examples env try_join p [] = Inr ()"
| "validate_not_match_examples env try_join p (ex # exs) =
     (case matches_for_command_with_options env p ex None True of
        m # _ \<Rightarrow> Inl (ExampleDidMatch m (render_example try_join ex) None)
      | [] \<Rightarrow> validate_not_match_examples env try_join p exs)"

section \<open>The policy builder\<close>

record pending_validation =
  pending_rules :: "prefix_rule list"
  pending_matches :: "str list list"
  pending_not_matches :: "str list list"
  pending_location :: "error_location option"

record policy_builder =
  b_rules :: "(str, prefix_rule) multimap"
  b_network_rules :: "network_rule list"
  b_host_executables :: "str \<rightharpoonup> abs_path_buf list"
  b_pending :: "pending_validation list"

definition new_builder :: policy_builder where
  "new_builder = \<lparr>b_rules = [], b_network_rules = [], b_host_executables = Map.empty, b_pending = []\<rparr>"

definition add_rule :: "prefix_rule \<Rightarrow> policy_builder \<Rightarrow> policy_builder" where
  "add_rule r b = b\<lparr>b_rules := mm_insert (rule_program r) r (b_rules b)\<rparr>"

definition builder_add_network_rule :: "network_rule \<Rightarrow> policy_builder \<Rightarrow> policy_builder" where
  "builder_add_network_rule r b = b\<lparr>b_network_rules := b_network_rules b @ [r]\<rparr>"

definition add_host_executable :: "str \<Rightarrow> abs_path_buf list \<Rightarrow> policy_builder \<Rightarrow> policy_builder" where
  "add_host_executable name paths b = b\<lparr>b_host_executables := (b_host_executables b)(name \<mapsto> paths)\<rparr>"

definition add_pending_example_validation :: "pending_validation \<Rightarrow> policy_builder \<Rightarrow> policy_builder" where
  "add_pending_example_validation v b = b\<lparr>b_pending := b_pending b @ [v]\<rparr>"

definition index_rules :: "prefix_rule list \<Rightarrow> (str, prefix_rule) multimap" where
  "index_rules rs = foldl (\<lambda>m r. mm_insert (rule_program r) r m) [] rs"

definition validate_pending ::
  "path_env \<Rightarrow> (str list \<Rightarrow> str option) \<Rightarrow> policy_builder \<Rightarrow> pending_validation \<Rightarrow> policy_error + unit" where
  "validate_pending env try_join b v =
     (let p = \<lparr>rules_by_program = index_rules (pending_rules v), network_rules = [],
            host_executables_by_name = b_host_executables b\<rparr>
      in case validate_not_match_examples env try_join p (pending_not_matches v) of
           Inl e \<Rightarrow> Inl (attach_validation_location e (pending_location v))
         | Inr _ \<Rightarrow>
             (case validate_match_examples env try_join p (pending_rules v) (pending_matches v) of
                Inl e \<Rightarrow> Inl (attach_validation_location e (pending_location v))
              | Inr _ \<Rightarrow> Inr ()))"

definition validate_pending_examples_from ::
  "path_env \<Rightarrow> (str list \<Rightarrow> str option) \<Rightarrow> policy_builder \<Rightarrow> nat \<Rightarrow> policy_error + unit" where
  "validate_pending_examples_from env try_join b start =
     map_sum id (\<lambda>_. ()) (collect_results (map (validate_pending env try_join b) (drop start (b_pending b))))"

definition build_policy :: "policy_builder \<Rightarrow> policy" where
  "build_policy b = \<lparr>rules_by_program = b_rules b, network_rules = b_network_rules b,
     host_executables_by_name = b_host_executables b\<rparr>"

section \<open>The builtins\<close>

record libs =
  shlex_split :: "str \<Rightarrow> str list option"
  shlex_join :: "str list \<Rightarrow> str option"

definition checked_justification :: "str option \<Rightarrow> policy_error + str option" where
  "checked_justification j =
     (if blank_justification j then Inl (InvalidRule (lit ''justification cannot be empty'')) else Inr j)"

definition rules_of_pattern ::
  "pattern_token list \<Rightarrow> decision \<Rightarrow> str option \<Rightarrow> prefix_rule list" where
  "rules_of_pattern tokens d j =
     map (\<lambda>head. \<lparr>pattern = \<lparr>first = head, rest = tl tokens\<rparr>, rule_decision = d, rule_justification = j\<rparr>)
       (token_alternatives (hd tokens))"

definition prefix_rule_builtin ::
  "libs \<Rightarrow> star_value list \<Rightarrow> str option \<Rightarrow> star_value list option \<Rightarrow> star_value list option \<Rightarrow> str option \<Rightarrow>
   error_location option \<Rightarrow> policy_builder \<Rightarrow> policy_error + policy_builder" where
  "prefix_rule_builtin ls pat dec matches not_matches justification location b =
     (case (case dec of Some raw \<Rightarrow> parse_decision raw | None \<Rightarrow> Inr Allow) of
        Inl e \<Rightarrow> Inl e
      | Inr d \<Rightarrow>
     (case checked_justification justification of
        Inl e \<Rightarrow> Inl e
      | Inr j \<Rightarrow>
     (case parse_pattern pat of
        Inl e \<Rightarrow> Inl e
      | Inr tokens \<Rightarrow>
     (case parse_examples (shlex_split ls) matches of
        Inl e \<Rightarrow> Inl e
      | Inr ms \<Rightarrow>
     (case parse_examples (shlex_split ls) not_matches of
        Inl e \<Rightarrow> Inl e
      | Inr nms \<Rightarrow>
          (let rules = rules_of_pattern tokens d j;
               b1 = add_pending_example_validation
                 \<lparr>pending_rules = rules, pending_matches = ms, pending_not_matches = nms,
                  pending_location = location\<rparr> b
           in Inr (fold add_rule rules b1)))))))"

definition network_rule_builtin ::
  "str \<Rightarrow> str \<Rightarrow> str \<Rightarrow> str option \<Rightarrow> policy_builder \<Rightarrow> policy_error + policy_builder" where
  "network_rule_builtin raw_host proto dec justification b =
     (case parse_protocol proto of
        Inl e \<Rightarrow> Inl e
      | Inr pr \<Rightarrow>
     (case parse_network_rule_decision dec of
        Inl e \<Rightarrow> Inl e
      | Inr d \<Rightarrow>
     (case checked_justification justification of
        Inl e \<Rightarrow> Inl e
      | Inr j \<Rightarrow>
     (case normalize_network_rule_host raw_host of
        Inl e \<Rightarrow> Inl e
      | Inr h \<Rightarrow>
          Inr (builder_add_network_rule
            \<lparr>host = h, protocol = pr, net_decision = d, net_justification = j\<rparr> b)))))"

fun parse_paths ::
  "path_env \<Rightarrow> str \<Rightarrow> star_value list \<Rightarrow> abs_path_buf list \<Rightarrow> policy_error + abs_path_buf list" where
  "parse_paths env name [] acc = Inr acc"
| "parse_paths env name (v # vs) acc =
     (case v of
        StarStr raw \<Rightarrow>
          (case parse_literal_absolute_path env raw of
             Inl e \<Rightarrow> Inl e
           | Inr path \<Rightarrow>
               if executable_path_lookup_key path \<noteq> Some (executable_lookup_key name) then
                 Inl (InvalidRule (lit ''host_executable path `'' @ raw @ lit ''` must have basename `'' @ name @ lit ''`''))
               else parse_paths env name vs (if path \<in> set acc then acc else acc @ [path]))
      | _ \<Rightarrow> Inl (InvalidRule (lit ''host_executable paths must be strings (got '' @ get_type v @ lit '')'')))"

definition host_executable_builtin ::
  "path_env \<Rightarrow> str \<Rightarrow> star_value list \<Rightarrow> policy_builder \<Rightarrow> policy_error + policy_builder" where
  "host_executable_builtin env name paths b =
     (case validate_host_executable_name name of
        Inl e \<Rightarrow> Inl e
      | Inr _ \<Rightarrow>
          (case parse_paths env name paths [] of
             Inl e \<Rightarrow> Inl e
           | Inr ps \<Rightarrow> Inr (add_host_executable (executable_lookup_key name) ps b)))"

section \<open>Parsing a policy file\<close>

datatype builtin_call =
  CallPrefixRule "star_value list" "str option" "star_value list option" "star_value list option" "str option"
    "error_location option"
| CallNetworkRule str str str "str option"
| CallHostExecutable str "star_value list"

definition run_call :: "path_env \<Rightarrow> libs \<Rightarrow> builtin_call \<Rightarrow> policy_builder \<Rightarrow> policy_error + policy_builder" where
  "run_call env ls c b =
     (case c of
        CallPrefixRule pat d m nm j loc \<Rightarrow> prefix_rule_builtin ls pat d m nm j loc b
      | CallNetworkRule h pr d j \<Rightarrow> network_rule_builtin h pr d j b
      | CallHostExecutable name paths \<Rightarrow> host_executable_builtin env name paths b)"

text \<open>Evaluating the module: the first failing call ends it; the builder keeps what was added.\<close>

fun eval_module ::
  "path_env \<Rightarrow> libs \<Rightarrow> builtin_call list \<Rightarrow> policy_error option \<Rightarrow> policy_builder \<Rightarrow>
   (policy_error + unit) \<times> policy_builder" where
  "eval_module env ls [] err b = (case err of None \<Rightarrow> (Inr (), b) | Some e \<Rightarrow> (Inl e, b))"
| "eval_module env ls (c # cs) err b =
     (case run_call env ls c b of
        Inl e \<Rightarrow> (Inl e, b)
      | Inr b' \<Rightarrow> eval_module env ls cs err b')"

definition parse_policy ::
  "(str \<Rightarrow> str \<Rightarrow> builtin_call list \<times> policy_error option) \<Rightarrow> path_env \<Rightarrow> libs \<Rightarrow> str \<Rightarrow> str \<Rightarrow> policy_builder \<Rightarrow>
   (policy_error + unit) \<times> policy_builder" where
  "parse_policy starlark env ls identifier contents b =
     (let (calls, err) = starlark identifier contents in
      case eval_module env ls calls err b of
        (Inl e, b') \<Rightarrow> (Inl e, b')
      | (Inr _, b') \<Rightarrow> (validate_pending_examples_from env (shlex_join ls) b' (length (b_pending b)), b'))"

section \<open>Amending a policy file\<close>

text \<open>The contents of the policy file after a line is appended, unless it is there already.\<close>

definition append_locked_line :: "str \<Rightarrow> str \<Rightarrow> str" where
  "append_locked_line line contents =
     (if line \<in> set (lines contents) then contents
      else (if contents \<noteq> [] \<and> \<not> ends_with contents [newline] then contents @ [newline] else contents) @
        line @ [newline])"

definition allow_prefix_rule_line :: "(str \<Rightarrow> str) \<Rightarrow> str list \<Rightarrow> str option" where
  "allow_prefix_rule_line json prefix_tokens =
     (if prefix_tokens = [] then None
      else Some (lit ''prefix_rule(pattern=['' @ join (lit '', '') (map json prefix_tokens) @
        lit ''], decision='' @ [34] @ lit ''allow'' @ [34] @ lit '')''))"

definition network_rule_line ::
  "(str \<Rightarrow> str) \<Rightarrow> str \<Rightarrow> network_rule_protocol \<Rightarrow> decision \<Rightarrow> str option \<Rightarrow> policy_error + str" where
  "network_rule_line json raw_host proto d j =
     (case normalize_network_rule_host raw_host of
        Inl e \<Rightarrow> Inl e
      | Inr h \<Rightarrow>
          if blank_justification j then Inl (InvalidRule (lit ''justification cannot be empty''))
          else Inr (lit ''network_rule('' @ join (lit '', '')
            ([lit ''host='' @ json h, lit ''protocol='' @ json (as_policy_string proto),
              lit ''decision='' @ json (case d of Allow \<Rightarrow> lit ''allow'' | Prompt \<Rightarrow> lit ''prompt''
                | Forbidden \<Rightarrow> lit ''deny'')] @
             (case j of None \<Rightarrow> [] | Some raw \<Rightarrow> [lit ''justification='' @ json raw])) @ lit '')''))"

section \<open>Loading policy files\<close>

text \<open>\<^verbatim>\<open>execpolicycheck.rs\<close>: the files in order with one builder, stopping at the first error.\<close>

fun load_policies ::
  "(str \<Rightarrow> str \<Rightarrow> builtin_call list \<times> policy_error option) \<Rightarrow> path_env \<Rightarrow> libs \<Rightarrow> (str \<times> str) list \<Rightarrow>
   policy_builder \<Rightarrow> policy_error + policy" where
  "load_policies starlark env ls [] b = Inr (build_policy b)"
| "load_policies starlark env ls ((identifier, contents) # files) b =
     (case parse_policy starlark env ls identifier contents b of
        (Inl e, _) \<Rightarrow> Inl e
      | (Inr _, b') \<Rightarrow> load_policies starlark env ls files b')"

section \<open>Well-formedness of what is built\<close>

lemma wf_fold_add_rule:
  "wf_index rule_program (b_rules b) \<Longrightarrow> wf_index rule_program (b_rules (fold add_rule rs b))"
  by (induction rs arbitrary: b) (auto simp: add_rule_def wf_index_insert)

lemma wf_run_call:
  assumes "wf_index rule_program (b_rules b)" "run_call env ls c b = Inr b'"
  shows "wf_index rule_program (b_rules b')"
proof (cases c)
  case (CallPrefixRule pat d m nm j loc)
  with assms show ?thesis
    by (auto simp: run_call_def prefix_rule_builtin_def add_pending_example_validation_def Let_def
        intro!: wf_fold_add_rule split: sum.splits option.splits)
next
  case (CallNetworkRule h pr d j)
  with assms show ?thesis
    by (auto simp: run_call_def network_rule_builtin_def builder_add_network_rule_def split: sum.splits)
next
  case (CallHostExecutable name paths)
  with assms show ?thesis
    by (auto simp: run_call_def host_executable_builtin_def add_host_executable_def split: sum.splits)
qed

lemma wf_eval_module:
  "wf_index rule_program (b_rules b) \<Longrightarrow> wf_index rule_program (b_rules (snd (eval_module env ls cs err b)))"
  by (induction env ls cs err b rule: eval_module.induct) (auto simp: wf_run_call split: option.splits sum.splits)

lemma wf_parse_policy:
  "wf_index rule_program (b_rules b) \<Longrightarrow>
   wf_index rule_program (b_rules (snd (parse_policy starlark env ls i c b)))"
  using wf_eval_module [of b env ls "fst (starlark i c)" "snd (starlark i c)"]
  by (auto simp: parse_policy_def split: prod.splits sum.splits)

lemma load_policies_wf:
  "load_policies starlark env ls files b = Inr p \<Longrightarrow> wf_index rule_program (b_rules b) \<Longrightarrow> wf_policy p"
proof (induction starlark env ls files b rule: load_policies.induct)
  case (2 starlark env ls i c files b)
  then show ?case using wf_parse_policy [of b starlark env ls i c]
    by (auto split: prod.splits sum.splits)
qed (auto simp: wf_policy_def build_policy_def)

text \<open>
  Whatever the policy files contain, a policy that loads is well formed: every rule is indexed under
  its program, once, so that looking a command up by its first token is complete.
\<close>

theorem load_policies_complete:
  assumes "load_policies starlark env ls files new_builder = Inr p" "cmd \<noteq> []"
  shows "match_exact_rules p cmd =
    Some (List.map_filter (\<lambda>r. rule_matches r cmd) (all_values (rules_by_program p)))"
  using load_policies_wf [OF assms(1)] assms(2) prefix_rules.lookup_complete [of "rules_by_program p"]
  by (cases cmd) (auto simp: wf_policy_def match_exact_rules_values new_builder_def)

theorem load_policies_complete_witness:
  "\<exists>p. load_policies (\<lambda>_ _. ([CallPrefixRule [StarStr (lit ''ls'')] None None None None None], None))
      \<lparr>home_dir = None, current_dir = lit ''/''\<rparr> \<lparr>shlex_split = \<lambda>_. None, shlex_join = \<lambda>_. None\<rparr>
      [(lit ''f'', [])] new_builder = Inr p \<and>
    match_exact_rules p [lit ''ls''] =
      Some (List.map_filter (\<lambda>r. rule_matches r [lit ''ls'']) (all_values (rules_by_program p)))"
proof -
  obtain p where "load_policies (\<lambda>_ _. ([CallPrefixRule [StarStr (lit ''ls'')] None None None None None], None))
      \<lparr>home_dir = None, current_dir = lit ''/''\<rparr> \<lparr>shlex_split = \<lambda>_. None, shlex_join = \<lambda>_. None\<rparr>
      [(lit ''f'', [])] new_builder = Inr p"
    by (simp add: parse_policy_def run_call_def prefix_rule_builtin_def checked_justification_def
        blank_justification_def parse_pattern_def parse_pattern_token_def parse_examples_def rules_of_pattern_def
        add_pending_example_validation_def validate_pending_examples_from_def validate_pending_def
        validate_match_examples_def new_builder_def add_rule_def Let_def index_rules_def)
  then show ?thesis using load_policies_complete by blast
qed

section \<open>What a prefix rule matches\<close>

text \<open>
  The rules made from a pattern match a command exactly when the command begins with one token for
  each element of the pattern, each token being the element or one of its alternatives; so expanding
  the alternatives of the first element into separate rules loses and adds nothing.
\<close>

theorem rules_of_pattern_match:
  assumes "parse_pattern pat = Inr tokens"
  shows "(\<exists>r \<in> set (rules_of_pattern tokens d j). rule_matches r cmd \<noteq> None) \<longleftrightarrow>
    (\<exists>args others. cmd = args @ others \<and> list_all2 token_matches tokens args)"
proof -
  obtain t ts where tokens: "tokens = t # ts"
    using assms by (cases tokens) (auto simp: parse_pattern_def split: sum.splits list.splits)
  have alt: "h \<in> set (token_alternatives t) \<longleftrightarrow> token_matches t h" for h
    by (cases t) auto
  have "(\<exists>r \<in> set (rules_of_pattern tokens d j). rule_matches r cmd \<noteq> None) \<longleftrightarrow>
      (\<exists>h. token_matches t h \<and> (\<exists>args others. cmd = h # args @ others \<and> list_all2 token_matches ts args))"
    unfolding rule_matches_iff by (simp add: rules_of_pattern_def tokens alt Bex_def)
  also have "\<dots> \<longleftrightarrow> (\<exists>args others. cmd = args @ others \<and> list_all2 token_matches tokens args)"
  proof
    assume "\<exists>h. token_matches t h \<and> (\<exists>args others. cmd = h # args @ others \<and> list_all2 token_matches ts args)"
    then obtain h args others where "token_matches t h" "cmd = (h # args) @ others"
      "list_all2 token_matches ts args" by auto
    then show "\<exists>args others. cmd = args @ others \<and> list_all2 token_matches tokens args"
      by (intro exI [of _ "h # args"] exI [of _ others]) (simp add: tokens)
  next
    assume "\<exists>args others. cmd = args @ others \<and> list_all2 token_matches tokens args"
    then obtain h args others where "token_matches t h" "cmd = h # args @ others"
      "list_all2 token_matches ts args" by (auto simp: tokens list_all2_Cons1)
    then show "\<exists>h. token_matches t h \<and> (\<exists>args others. cmd = h # args @ others \<and>
        list_all2 token_matches ts args)" by blast
  qed
  finally show ?thesis .
qed

theorem rules_of_pattern_match_witness:
  "\<exists>r \<in> set (rules_of_pattern [Alts [lit ''ls'', lit ''cat''], Single (lit ''x'')] Allow None).
     rule_matches r [lit ''cat'', lit ''x'', lit ''y''] \<noteq> None"
proof -
  have "parse_pattern [StarList [StarStr (lit ''ls''), StarStr (lit ''cat'')], StarStr (lit ''x'')] =
      Inr [Alts [lit ''ls'', lit ''cat''], Single (lit ''x'')]"
    by (simp add: parse_pattern_def parse_pattern_token_def string_items_def)
  moreover have "\<exists>args others. [lit ''cat'', lit ''x'', lit ''y''] = args @ others \<and>
      list_all2 token_matches [Alts [lit ''ls'', lit ''cat''], Single (lit ''x'')] args"
    by (intro exI [of _ "[lit ''cat'', lit ''x'']"] exI [of _ "[lit ''y'']"]) simp
  ultimately show ?thesis by (subst rules_of_pattern_match) auto
qed

section \<open>Examples are checked\<close>

lemma collect_results_Inr: "collect_results rs = Inr xs \<Longrightarrow> rs = map Inr xs"
  by (induction rs arbitrary: xs rule: collect_results.induct) (auto simp: map_sum_Inr_iff)

lemma index_rules_values:
  "mm_values (index_rules rs) k = filter (\<lambda>r. rule_program r = k) rs"
proof -
  have "mm_values (foldl (\<lambda>m r. mm_insert (rule_program r) r m) m rs) k =
      mm_values m k @ filter (\<lambda>r. rule_program r = k) rs" for m
    by (induction rs arbitrary: m) auto
  then show ?thesis by (simp add: index_rules_def)
qed

lemma no_matches_no_rule:
  assumes "matches_for_command_with_options env p ex None resolve = []"
    and "rules_by_program p = index_rules rs" "r \<in> set rs"
  shows "rule_matches r ex = None"
proof (rule ccontr)
  assume "rule_matches r ex \<noteq> None"
  then obtain m args where m: "rule_matches r ex = Some m" "ex = rule_program r # args"
    using rule_matches_program by blast
  then have "match_exact_rules p ex = Some (List.map_filter (\<lambda>r. rule_matches r ex)
      (filter (\<lambda>r'. rule_program r' = rule_program r) rs))"
    by (simp add: match_exact_rules_values index_rules_values assms(2))
  moreover have "m \<in> set (List.map_filter (\<lambda>r. rule_matches r ex)
      (filter (\<lambda>r'. rule_program r' = rule_program r) rs))"
    using m(1) assms(3) by (force simp: List.map_filter_def)
  ultimately show False
    using assms(1) by (auto simp: matches_for_command_with_options_def Let_def split: list.splits)
qed

lemma validate_not_match_ok:
  "validate_not_match_examples env tj p exs = Inr () \<Longrightarrow> ex \<in> set exs \<Longrightarrow>
   matches_for_command_with_options env p ex None True = []"
  by (induction env tj p exs rule: validate_not_match_examples.induct) (auto split: list.splits)

lemma validate_match_ok:
  "validate_match_examples env tj p rs exs = Inr () \<Longrightarrow> ex \<in> set exs \<Longrightarrow>
   matches_for_command_with_options env p ex None True \<noteq> []"
  by (auto simp: validate_match_examples_def Let_def filter_empty_conv split: if_splits)

text \<open>
  When a policy file parses, its examples hold: for every prefix rule of the file each positive
  example is matched by the rules of that call, and no negative example is matched exactly by one.
\<close>

theorem parse_policy_examples:
  assumes "parse_policy starlark env ls identifier contents b = (Inr (), b')"
    and "v \<in> set (drop (length (b_pending b)) (b_pending b'))"
  shows "(\<forall>ex \<in> set (pending_matches v).
      matches_for_command_with_options env \<lparr>rules_by_program = index_rules (pending_rules v), network_rules = [],
        host_executables_by_name = b_host_executables b'\<rparr> ex None True \<noteq> []) \<and>
    (\<forall>ex \<in> set (pending_not_matches v). \<forall>r \<in> set (pending_rules v). rule_matches r ex = None)"
proof -
  have "validate_pending_examples_from env (shlex_join ls) b' (length (b_pending b)) = Inr ()"
    using assms(1) by (auto simp: parse_policy_def split: prod.splits sum.splits)
  then obtain us where "collect_results (map (validate_pending env (shlex_join ls) b')
      (drop (length (b_pending b)) (b_pending b'))) = Inr us"
    by (auto simp: validate_pending_examples_from_def map_sum_Inr_iff)
  from collect_results_Inr [OF this] have "validate_pending env (shlex_join ls) b' v \<in> set (map Inr us)"
    using assms(2) by (metis image_eqI image_set)
  then have "validate_pending env (shlex_join ls) b' v = Inr ()" by auto
  then show ?thesis
    using validate_match_ok validate_not_match_ok no_matches_no_rule
    by (auto simp: validate_pending_def Let_def split: sum.splits) fastforce+
qed

theorem parse_policy_examples_witness:
  "\<exists>b'. parse_policy (\<lambda>_ _. ([CallPrefixRule [StarStr (lit ''ls'')] None
        (Some [StarList [StarStr (lit ''ls'')]]) (Some [StarList [StarStr (lit ''rm'')]]) None None], None))
      \<lparr>home_dir = None, current_dir = lit ''/''\<rparr> \<lparr>shlex_split = \<lambda>_. None, shlex_join = \<lambda>_. None\<rparr>
      (lit ''f'') [] new_builder = (Inr (), b') \<and>
    (\<exists>v \<in> set (b_pending b'). pending_not_matches v = [[lit ''rm'']] \<and>
      (\<forall>r \<in> set (pending_rules v). rule_matches r [lit ''rm''] = None))"
proof -
  let ?r = "\<lparr>pattern = \<lparr>first = lit ''ls'', rest = []\<rparr>, rule_decision = Allow, rule_justification = None\<rparr>"
  let ?v = "\<lparr>pending_rules = [?r], pending_matches = [[lit ''ls'']], pending_not_matches = [[lit ''rm'']],
    pending_location = None\<rparr>"
  let ?b = "\<lparr>b_rules = [(lit ''ls'', [?r])], b_network_rules = [], b_host_executables = Map.empty,
    b_pending = [?v]\<rparr>"
  let ?env = "\<lparr>home_dir = None, current_dir = lit ''/''\<rparr>"
  have rm: "match_host_executable_rules ?env \<lparr>rules_by_program = [(lit ''ls'', [?r])], network_rules = [],
      host_executables_by_name = Map.empty\<rparr> [lit ''rm''] = []"
    by (simp add: match_host_executable_rules_def from_absolute_path_def maybe_expand_home_directory_def
        absolutize_def absolutize_from_def path_with_base_def path_join_def normalize_path_def
        components_def piece_component_def is_absolute_def slash_def os_str_def push_component_def
        executable_path_lookup_key_def executable_lookup_key_def path_file_name_def mm_get_vec_def
        str_eval Let_def)
  have p: "parse_policy (\<lambda>_ _. ([CallPrefixRule [StarStr (lit ''ls'')] None
        (Some [StarList [StarStr (lit ''ls'')]]) (Some [StarList [StarStr (lit ''rm'')]]) None None], None))
      ?env \<lparr>shlex_split = \<lambda>_. None, shlex_join = \<lambda>_. None\<rparr> (lit ''f'') [] new_builder = (Inr (), ?b)"
    using rm by (simp add: parse_policy_def run_call_def prefix_rule_builtin_def checked_justification_def
        blank_justification_def parse_pattern_def parse_pattern_token_def parse_examples_def
        parse_example_def parse_list_example_def string_items_def rules_of_pattern_def
        add_pending_example_validation_def validate_pending_examples_from_def validate_pending_def
        validate_match_examples_def new_builder_def add_rule_def rule_program_def Let_def index_rules_def
        matches_for_command_with_options_def match_exact_rules_def mm_get_vec_def rule_matches_def
        matches_prefix_def List.map_filter_def)
  have "?v \<in> set (drop (length (b_pending new_builder)) (b_pending ?b))"
    by (simp add: new_builder_def)
  from parse_policy_examples [OF p this] p show ?thesis by auto
qed

section \<open>Appending a line\<close>

lemma lines_newline_terminated:
  assumes "s = [] \<or> last s = newline"
  shows "lines (s @ line @ [newline]) = lines s @ lines (line @ [newline])"
proof (cases "s = []")
  case False
  then obtain t where s: "s = t @ [newline]" using assms by (metis append_butlast_last_id)
  have "split_on newline (s @ line @ [newline]) = split_on newline t @ split_on newline (line @ [newline])"
    using split_on_append [of newline t "line @ [newline]"] by (simp add: s)
  moreover have "split_on newline s = split_on newline t @ [[]]"
    using split_on_append [of newline t "[]"] by (simp add: s)
  ultimately show ?thesis by (simp add: lines_def Let_def butlast_append)
qed (simp add: lines_def)

lemma lines_add_newline:
  assumes "s \<noteq> []" "last s \<noteq> newline" "last s \<noteq> 13"
  shows "lines (s @ [newline]) = lines s"
proof -
  let ?ps = "split_on newline s"
  have ne: "last ?ps \<noteq> []" using assms by (simp add: last_split_on)
  have "last s = last (join [newline] ?ps)" by (simp add: join_split_on)
  also have "\<dots> = last (last ?ps)"
  proof (cases "butlast ?ps = []")
    case True
    then have "?ps = [last ?ps]" by (metis append_butlast_last_id append_Nil split_on_not_Nil)
    then show ?thesis by (metis join.simps(2))
  next
    case False
    then have "join [newline] ?ps = join [newline] (butlast ?ps) @ [newline] @ last ?ps"
      by (metis append_butlast_last_id join_snoc split_on_not_Nil)
    then show ?thesis using ne by simp
  qed
  finally have "chomp_cr (last ?ps) = last ?ps"
    using assms(3) ne by (auto simp: chomp_cr_def strip_suffix_Some split: option.splits)
  moreover have "split_on newline (s @ [newline]) = ?ps @ [[]]"
    using split_on_append [of newline s "[]"] by simp
  moreover have "map chomp_cr ?ps = map chomp_cr (butlast ?ps) @ [chomp_cr (last ?ps)]"
    by (metis append_butlast_last_id list.simps(8,9) map_append split_on_not_Nil)
  ultimately show ?thesis using ne by (simp add: lines_def Let_def)
qed

text \<open>
  Appending a rule line keeps the lines of the policy file and adds the line once: the file then
  contains the line, in addition to exactly the lines it had, and appending it again changes nothing.
\<close>

theorem append_locked_line_once:
  assumes "newline \<notin> set line" "line \<noteq> []" "last line \<noteq> 13" "contents = [] \<or> last contents \<noteq> 13"
  shows "lines (append_locked_line line contents) =
      (if line \<in> set (lines contents) then lines contents else lines contents @ [line]) \<and>
    append_locked_line line (append_locked_line line contents) = append_locked_line line contents"
proof -
  have "chomp_cr line = line"
    using assms(2,3) by (auto simp: chomp_cr_def strip_suffix_Some split: option.splits)
  then have one: "lines (line @ [newline]) = [line]"
    using assms(1) by (simp add: lines_def split_on_append_sep Let_def)
  have ew: "ends_with contents [newline] \<longleftrightarrow> contents \<noteq> [] \<and> last contents = newline"
    by (cases contents rule: rev_cases) (auto simp: ends_with_suffix)
  have "lines (append_locked_line line contents) =
      (if line \<in> set (lines contents) then lines contents else lines contents @ [line])"
  proof (cases "contents = [] \<or> last contents = newline")
    case True
    then show ?thesis using lines_newline_terminated [OF True, of line] one ew
      by (auto simp: append_locked_line_def)
  next
    case False
    then show ?thesis
      using lines_newline_terminated [of "contents @ [newline]" line] one ew assms(4)
        lines_add_newline [of contents]
      by (auto simp: append_locked_line_def)
  qed
  then show ?thesis by (auto simp: append_locked_line_def)
qed

theorem append_locked_line_once_witness:
  "lines (append_locked_line (lit ''b'') (lit ''a'')) = [lit ''a'', lit ''b'']"
  using append_locked_line_once [of "lit ''b''" "lit ''a''"]
  by (simp add: str_eval)

end
