(* ===== verification/Shell_Parse.thy ===== *)
theory Shell_Parse
  imports Abs_Path
begin

text \<open>
  \<^verbatim>\<open>codex-rs/shell-command/src/shell_detect.rs\<close> and \<^verbatim>\<open>bash.rs\<close>: recognising a shell invocation and
  taking a script apart into plain commands. A tree-sitter syntax tree is a datatype with the parts the
  code reads (kind, whether the node is named, start offset, text, children); the parser that produces
  it, with the flag \<^verbatim>\<open>has_error\<close>, is an argument. The theorem says that a script is only taken apart when
  every node of its tree is on the allow lists.
\<close>

section \<open>Shells\<close>

datatype shell_type = Zsh | Bash | PowerShellType | Sh | CmdType

lemma split_on_piece: "x \<in> set (split_on c s) \<Longrightarrow> length x \<le> length s \<and> (length x = length s \<longrightarrow> x = s)"
  by (induction s arbitrary: x) (fastforce split: if_splits list.splits)+

lemma path_file_name_piece:
  assumes "path_file_name p = Some n"
  shows "n \<in> set (split_on slash p)"
proof -
  have "Normal n \<in> set (components p)"
    using assms by (auto simp: path_file_name_def split: list.splits component.splits)
  then show ?thesis
    by (auto simp: components_def piece_component_def Let_def split: if_splits)
qed

lemma stem_of_name_length: "length (stem_of_name n) \<le> length n \<and> (length (stem_of_name n) = length n \<longrightarrow> stem_of_name n = n)"
  by (auto simp: stem_of_name_def Let_def)

lemma file_stem_shorter:
  assumes "file_stem p = Some n" "components n \<noteq> components p"
  shows "length n < length p"
proof -
  obtain f where f: "path_file_name p = Some f" "n = stem_of_name f"
    using assms(1) by (auto simp: file_stem_def)
  from split_on_piece [OF path_file_name_piece [OF f(1)]] stem_of_name_length [of f] assms(2) f(2)
  show ?thesis by (metis dual_order.antisym dual_order.trans not_le_imp_less)
qed

function detect_shell_type :: "str \<Rightarrow> shell_type option" where
  "detect_shell_type p =
     (if p = lit ''zsh'' then Some Zsh
      else if p = lit ''sh'' then Some Sh
      else if p = lit ''cmd'' then Some CmdType
      else if p = lit ''bash'' then Some Bash
      else if p = lit ''pwsh'' then Some PowerShellType
      else if p = lit ''powershell'' then Some PowerShellType
      else case file_stem p of
        None \<Rightarrow> None
      | Some n \<Rightarrow> if components n \<noteq> components p then detect_shell_type n else None)"
  by pat_completeness auto
termination
  by (relation "measure length") (auto dest: file_stem_shorter)

declare detect_shell_type.simps [simp del]

definition extract_bash_command :: "str list \<Rightarrow> (str \<times> str) option" where
  "extract_bash_command command =
     (case command of
        [shell, flag, script] \<Rightarrow>
          if flag \<in> {lit ''-lc'', lit ''-c''} \<and> detect_shell_type shell \<in> {Some Zsh, Some Bash, Some Sh}
          then Some (shell, script) else None
      | _ \<Rightarrow> None)"

section \<open>Syntax trees\<close>

datatype ts_node =
  TsNode (node_kind: str) (is_named: bool) (start_byte: nat) (node_text: str) (node_children: "ts_node list")

definition named_children :: "ts_node \<Rightarrow> ts_node list" where
  "named_children n = filter is_named (node_children n)"

definition parse_double_quoted_string :: "ts_node \<Rightarrow> str option" where
  "parse_double_quoted_string n =
     (if node_kind n \<noteq> lit ''string'' then None
      else if list_ex (\<lambda>c. node_kind c \<noteq> lit ''string_content'') (named_children n) then None
      else Option.bind (strip_prefix [34] (node_text n)) (strip_suffix [34]))"

definition parse_raw_string :: "ts_node \<Rightarrow> str option" where
  "parse_raw_string n =
     (if node_kind n \<noteq> lit ''raw_string'' then None
      else Option.bind (strip_prefix [39] (node_text n)) (strip_suffix [39]))"

text \<open>The parts of a concatenated argument, glued together.\<close>

fun parse_concatenation :: "ts_node list \<Rightarrow> str option" where
  "parse_concatenation [] = Some []"
| "parse_concatenation (p # ps) =
     (case (if node_kind p \<in> {lit ''word'', lit ''number''} then Some (node_text p)
            else if node_kind p = lit ''string'' then parse_double_quoted_string p
            else if node_kind p = lit ''raw_string'' then parse_raw_string p
            else None) of
        None \<Rightarrow> None
      | Some w \<Rightarrow> map_option ((@) w) (parse_concatenation ps))"

definition parse_command_child :: "ts_node \<Rightarrow> str option" where
  "parse_command_child c =
     (if node_kind c = lit ''command_name'' then
        (case named_children c of
           [] \<Rightarrow> None
         | w # _ \<Rightarrow> if node_kind w \<noteq> lit ''word'' then None else Some (node_text w))
      else if node_kind c \<in> {lit ''word'', lit ''number''} then Some (node_text c)
      else if node_kind c = lit ''string'' then parse_double_quoted_string c
      else if node_kind c = lit ''raw_string'' then parse_raw_string c
      else if node_kind c = lit ''concatenation'' then
        (case parse_concatenation (named_children c) of
           None \<Rightarrow> None
         | Some w \<Rightarrow> if w = [] then None else Some w)
      else None)"

text \<open>\<open>those\<close> stops at the first \<open>None\<close>, as the question mark does.\<close>

definition parse_plain_command_from_node :: "ts_node \<Rightarrow> str list option" where
  "parse_plain_command_from_node cmd =
     (if node_kind cmd \<noteq> lit ''command'' then None
      else those (map parse_command_child (named_children cmd)))"

definition ALLOWED_KINDS :: "str list" where
  "ALLOWED_KINDS = [lit ''program'', lit ''list'', lit ''pipeline'', lit ''command'', lit ''command_name'',
     lit ''word'', lit ''string'', lit ''string_content'', lit ''raw_string'', lit ''number'',
     lit ''concatenation'']"

definition ALLOWED_PUNCT_TOKENS :: "str list" where
  "ALLOWED_PUNCT_TOKENS = [lit ''&&'', lit ''||'', lit '';'', lit ''|'', [34], [39]]"

definition node_allowed :: "ts_node \<Rightarrow> bool" where
  "node_allowed n \<longleftrightarrow>
     (if is_named n then node_kind n \<in> set ALLOWED_KINDS
      else \<not> (list_ex (\<lambda>c. c \<in> {38, 59, 124}) (node_kind n) \<and> node_kind n \<notin> set ALLOWED_PUNCT_TOKENS) \<and>
        (node_kind n \<in> set ALLOWED_PUNCT_TOKENS \<or> trim (node_kind n) = []))"

text \<open>The walk with a stack, top first: the command nodes met, or rejection.\<close>

function walk_nodes :: "ts_node list \<Rightarrow> ts_node list option" where
  "walk_nodes [] = Some []"
| "walk_nodes (n # stack) =
     (if \<not> node_allowed n then None
      else map_option (\<lambda>cs. if is_named n \<and> node_kind n = lit ''command'' then n # cs else cs)
        (walk_nodes (rev (node_children n) @ stack)))"
  by pat_completeness auto
termination
proof (relation "measure (\<lambda>ns. sum_list (map size ns))", goal_cases)
  case (2 n stack)
  have "sum_list (map size (rev ns)) \<le> size_list size ns" for ns :: "ts_node list"
    by (induction ns) auto
  then have "sum_list (map size (rev (node_children n))) < size n"
    by (cases n) (simp add: less_Suc_eq_le le_SucI)
  then show ?case by simp
qed simp

type_synonym shell_parser = "str \<Rightarrow> (ts_node \<times> bool) option"

definition try_parse_word_only_commands_sequence :: "ts_node \<times> bool \<Rightarrow> str list list option" where
  "try_parse_word_only_commands_sequence tree =
     (case tree of (root, has_error) \<Rightarrow>
        if has_error then None
        else (case walk_nodes [root] of
                None \<Rightarrow> None
              | Some nodes \<Rightarrow> those (map parse_plain_command_from_node (sort_key start_byte nodes))))"

definition parse_shell_lc_plain_commands :: "shell_parser \<Rightarrow> str list \<Rightarrow> str list list option" where
  "parse_shell_lc_plain_commands parse command =
     (case extract_bash_command command of
        None \<Rightarrow> None
      | Some (_, script) \<Rightarrow> Option.bind (parse script) try_parse_word_only_commands_sequence)"

section \<open>Here-document commands\<close>

definition is_literal_word_or_number :: "ts_node \<Rightarrow> bool" where
  "is_literal_word_or_number n \<longleftrightarrow>
     node_kind n \<in> {lit ''word'', lit ''number''} \<and> named_children n = []"

definition is_allowed_heredoc_attachment_kind :: "str \<Rightarrow> bool" where
  "is_allowed_heredoc_attachment_kind k \<longleftrightarrow>
     k \<in> {lit ''heredoc_body'', lit ''simple_heredoc_body'', lit ''heredoc_redirect'',
       lit ''herestring_redirect'', lit ''file_redirect'', lit ''redirected_statement''}"

fun heredoc_words :: "ts_node list \<Rightarrow> str list option" where
  "heredoc_words [] = Some []"
| "heredoc_words (c # cs) =
     (if node_kind c = lit ''command_name'' then
        (case named_children c of
           [] \<Rightarrow> None
         | w # _ \<Rightarrow>
             if node_kind w \<notin> {lit ''word'', lit ''number''} \<or> \<not> is_literal_word_or_number w then None
             else map_option ((#) (node_text w)) (heredoc_words cs))
      else if node_kind c \<in> {lit ''word'', lit ''number''} then
        (if \<not> is_literal_word_or_number c then None else map_option ((#) (node_text c)) (heredoc_words cs))
      else if node_kind c \<in> {lit ''variable_assignment'', lit ''comment''} \<or>
        is_allowed_heredoc_attachment_kind (node_kind c) then heredoc_words cs
      else None)"

definition parse_heredoc_command_words :: "ts_node \<Rightarrow> str list option" where
  "parse_heredoc_command_words cmd =
     (if node_kind cmd \<noteq> lit ''command'' then None
      else case heredoc_words (named_children cmd) of
             None \<Rightarrow> None
           | Some ws \<Rightarrow> if ws = [] then None else Some ws)"

text \<open>All nodes reached by walking down named children, in the order of the stack.\<close>

function named_walk :: "ts_node list \<Rightarrow> ts_node list" where
  "named_walk [] = []"
| "named_walk (n # stack) = n # named_walk (rev (named_children n) @ stack)"
  by pat_completeness auto
termination
proof (relation "measure (\<lambda>ns. sum_list (map size ns))", goal_cases)
  case (2 n stack)
  have "sum_list (map size (rev (filter is_named ns))) \<le> size_list size ns" for ns :: "ts_node list"
    by (induction ns) auto
  then have "sum_list (map size (rev (named_children n))) < size n"
    by (cases n) (simp add: named_children_def less_Suc_eq_le le_SucI)
  then show ?case by simp
qed simp

definition find_single_command_node :: "ts_node \<Rightarrow> ts_node option" where
  "find_single_command_node root =
     (case filter (\<lambda>n. node_kind n = lit ''command'') (named_walk [root]) of
        [n] \<Rightarrow> Some n
      | _ \<Rightarrow> None)"

definition has_named_descendant_kind :: "ts_node \<Rightarrow> str \<Rightarrow> bool" where
  "has_named_descendant_kind n k \<longleftrightarrow> list_ex (\<lambda>m. node_kind m = k) (named_walk [n])"

definition parse_shell_lc_single_command_prefix :: "shell_parser \<Rightarrow> str list \<Rightarrow> str list option" where
  "parse_shell_lc_single_command_prefix parse command =
     (case extract_bash_command command of
        None \<Rightarrow> None
      | Some (_, script) \<Rightarrow>
          (case parse script of
             None \<Rightarrow> None
           | Some (root, has_error) \<Rightarrow>
               if has_error then None
               else if \<not> has_named_descendant_kind root (lit ''heredoc_redirect'') then None
               else Option.bind (find_single_command_node root) parse_heredoc_command_words))"

section \<open>Only allowed nodes\<close>

fun subtree :: "ts_node \<Rightarrow> ts_node list" where
  "subtree (TsNode k nm s t cs) = TsNode k nm s t cs # concat (map subtree cs)"

lemma set_subtree: "set (subtree n) = insert n (\<Union>c \<in> set (node_children n). set (subtree c))"
  by (cases n) auto

lemma walk_nodes_Some:
  "walk_nodes ns = Some cs \<Longrightarrow>
   (\<forall>n \<in> set ns. \<forall>m \<in> set (subtree n). node_allowed m) \<and>
   set cs = {m. (\<exists>n \<in> set ns. m \<in> set (subtree n)) \<and> is_named m \<and> node_kind m = lit ''command''}"
proof (induction ns arbitrary: cs rule: walk_nodes.induct)
  case (2 n stack)
  then obtain ds where ok: "node_allowed n" and ds: "walk_nodes (rev (node_children n) @ stack) = Some ds"
    and cs: "cs = (if is_named n \<and> node_kind n = lit ''command'' then n # ds else ds)"
    by (auto split: if_splits)
  have sub: "(\<forall>m \<in> set (rev (node_children n) @ stack). \<forall>m' \<in> set (subtree m). node_allowed m') \<and>
      set ds = {m. (\<exists>n' \<in> set (rev (node_children n) @ stack). m \<in> set (subtree n')) \<and> is_named m \<and>
        node_kind m = lit ''command''}"
    using 2 ok ds by blast
  show ?case
    using sub ok by (auto simp: cs set_subtree [of n])
qed simp

text \<open>
  C25: a script is only taken apart into plain commands when no node of its syntax tree is outside the
  allow lists (so no substitution, redirection, subshell or control structure occurs anywhere in it),
  and the commands returned are those of its command nodes, all of them, in source order.
\<close>

theorem plain_commands_only_allowed_nodes:
  assumes "try_parse_word_only_commands_sequence (root, err) = Some cmds"
  shows "\<not> err \<and> (\<forall>n \<in> set (subtree root). node_allowed n) \<and>
    (\<exists>nodes. set nodes = {n \<in> set (subtree root). is_named n \<and> node_kind n = lit ''command''} \<and>
      sorted (map start_byte nodes) \<and> map parse_plain_command_from_node nodes = map Some cmds)"
proof -
  obtain nodes where w: "walk_nodes [root] = Some nodes" and ne: "\<not> err"
    and p: "those (map parse_plain_command_from_node (sort_key start_byte nodes)) = Some cmds"
    using assms by (auto simp: try_parse_word_only_commands_sequence_def split: if_splits option.splits)
  have those: "those xs = Some ys \<Longrightarrow> xs = map Some ys" for xs :: "str list option list" and ys
    by (induction xs arbitrary: ys) (auto split: option.splits)
  from walk_nodes_Some [OF w] ne those [OF p] show ?thesis
    by (intro conjI exI [of _ "sort_key start_byte nodes"]) auto
qed

theorem plain_commands_only_allowed_nodes_witness:
  "\<exists>nodes. map parse_plain_command_from_node nodes = map Some [[lit ''ls'']] \<and>
     sorted (map start_byte nodes)"
proof -
  let ?w = "TsNode (lit ''word'') True 0 (lit ''ls'') []"
  let ?c = "TsNode (lit ''command'') True 0 (lit ''ls'') [TsNode (lit ''command_name'') True 0 (lit ''ls'') [?w]]"
  have "try_parse_word_only_commands_sequence (TsNode (lit ''program'') True 0 (lit ''ls'') [?c], False) =
      Some [[lit ''ls'']]"
    by (simp add: try_parse_word_only_commands_sequence_def node_allowed_def ALLOWED_KINDS_def
        parse_plain_command_from_node_def named_children_def parse_command_child_def)
  from plain_commands_only_allowed_nodes [OF this] show ?thesis by blast
qed

end
