(* ===== verification/Command_Safety.thy ===== *)
theory Command_Safety
  imports Shell_Parse
begin

text \<open>
  \<^verbatim>\<open>codex-rs/shell-command/src/command_safety\<close> on Linux: which commands are run without approval
  (\<^verbatim>\<open>is_safe_command.rs\<close>, and \<^verbatim>\<open>windows_safe_commands.rs\<close> for PowerShell invocations, which the code
  consults on every platform) and which are flagged as dangerous (\<^verbatim>\<open>is_dangerous_command.rs\<close>). The
  bash parser and the PowerShell parser process are arguments.
\<close>

section \<open>Shared helpers\<close>

definition lits :: "string list \<Rightarrow> str set" where
  "lits ss = lit ` set ss"

definition starts_with_any :: "string list \<Rightarrow> str \<Rightarrow> bool" where
  "starts_with_any ps s \<longleftrightarrow> list_ex (\<lambda>p. starts_with s (lit p)) ps"

definition executable_name_lookup_key :: "str \<Rightarrow> str option" where
  "executable_name_lookup_key raw = path_file_name raw"

definition is_git_global_option_with_value :: "str \<Rightarrow> bool" where
  "is_git_global_option_with_value arg \<longleftrightarrow>
     arg \<in> lits [''-C'', ''-c'', ''--config-env'', ''--exec-path'', ''--git-dir'', ''--namespace'',
       ''--super-prefix'', ''--work-tree'']"

definition is_git_global_option_with_inline_value :: "str \<Rightarrow> bool" where
  "is_git_global_option_with_inline_value arg \<longleftrightarrow>
     starts_with_any [''--config-env='', ''--exec-path='', ''--git-dir='', ''--namespace='',
       ''--super-prefix='', ''--work-tree=''] arg \<or>
     (starts_with_any [''-C'', ''-c''] arg \<and> 2 < str_len arg)"

definition git_global_option_requires_prompt :: "str \<Rightarrow> bool" where
  "git_global_option_requires_prompt arg \<longleftrightarrow>
     arg \<in> lits [''-c'', ''--config-env'', ''--exec-path'', ''--git-dir'', ''--namespace'',
       ''--super-prefix'', ''--work-tree''] \<or>
     (starts_with arg (lit ''-c'') \<and> 2 < str_len arg) \<or>
     starts_with_any [''--config-env='', ''--exec-path='', ''--git-dir='', ''--namespace='',
       ''--super-prefix='', ''--work-tree=''] arg"

text \<open>The scan for the subcommand: \<open>idx\<close> is the index of the first remaining argument.\<close>

fun scan_git_subcommand :: "str set \<Rightarrow> nat \<Rightarrow> bool \<Rightarrow> str list \<Rightarrow> (nat \<times> str) option" where
  "scan_git_subcommand subs idx skip_next [] = None"
| "scan_git_subcommand subs idx skip_next (arg # args) =
     (if skip_next then scan_git_subcommand subs (Suc idx) False args
      else if is_git_global_option_with_inline_value arg then scan_git_subcommand subs (Suc idx) False args
      else if is_git_global_option_with_value arg then scan_git_subcommand subs (Suc idx) True args
      else if arg = lit ''--'' \<or> starts_with arg (lit ''-'') then scan_git_subcommand subs (Suc idx) False args
      else if arg \<in> subs then Some (idx, arg)
      else None)"

definition find_git_subcommand :: "str list \<Rightarrow> str set \<Rightarrow> (nat \<times> str) option" where
  "find_git_subcommand command subs =
     (case command of
        [] \<Rightarrow> None
      | cmd0 # args \<Rightarrow>
          if executable_name_lookup_key cmd0 \<noteq> Some (lit ''git'') then None
          else scan_git_subcommand subs 1 False args)"

section \<open>Dangerous commands\<close>

fun is_dangerous_to_call_with_exec :: "str list \<Rightarrow> bool" where
  "is_dangerous_to_call_with_exec [] \<longleftrightarrow> False"
| "is_dangerous_to_call_with_exec (cmd0 # args) \<longleftrightarrow>
     (if cmd0 = lit ''rm'' then (case args of a # _ \<Rightarrow> a \<in> lits [''-f'', ''-rf''] | [] \<Rightarrow> False)
      else if cmd0 = lit ''sudo'' then is_dangerous_to_call_with_exec args
      else False)"

definition command_might_be_dangerous :: "shell_parser \<Rightarrow> str list \<Rightarrow> bool" where
  "command_might_be_dangerous parse command \<longleftrightarrow>
     is_dangerous_to_call_with_exec command \<or>
     (case parse_shell_lc_plain_commands parse command of
        Some all_commands \<Rightarrow> list_ex is_dangerous_to_call_with_exec all_commands
      | None \<Rightarrow> False)"

section \<open>Safe commands\<close>

fun all_digits :: "str \<Rightarrow> bool" where
  "all_digits s \<longleftrightarrow> s \<noteq> [] \<and> list_all is_ascii_digit s"

definition is_valid_sed_n_arg :: "str option \<Rightarrow> bool" where
  "is_valid_sed_n_arg arg =
     (case arg of
        None \<Rightarrow> False
      | Some s \<Rightarrow>
          (case strip_suffix (lit ''p'') s of
             None \<Rightarrow> False
           | Some core \<Rightarrow>
               (case split_on 44 core of
                  [num] \<Rightarrow> all_digits num
                | [a, b] \<Rightarrow> all_digits a \<and> all_digits b
                | _ \<Rightarrow> False)))"

definition git_has_unsafe_global_option :: "str list \<Rightarrow> bool" where
  "git_has_unsafe_global_option command \<longleftrightarrow> list_ex git_global_option_requires_prompt (drop 1 command)"

definition git_subcommand_args_are_read_only :: "str list \<Rightarrow> bool" where
  "git_subcommand_args_are_read_only args \<longleftrightarrow>
     \<not> list_ex (\<lambda>arg. arg \<in> lits [''--output'', ''--ext-diff'', ''--textconv'', ''--exec'', ''--paginate''] \<or>
       starts_with_any [''--output='', ''--exec=''] arg) args"

definition branch_read_only_flag :: "str \<Rightarrow> bool" where
  "branch_read_only_flag arg \<longleftrightarrow>
     arg \<in> lits [''--list'', ''-l'', ''--show-current'', ''-a'', ''--all'', ''-r'', ''--remotes'', ''-v'',
       ''-vv'', ''--verbose''] \<or> starts_with arg (lit ''--format='')"

definition git_branch_is_read_only :: "str list \<Rightarrow> bool" where
  "git_branch_is_read_only branch_args \<longleftrightarrow>
     branch_args = [] \<or> list_all branch_read_only_flag branch_args"

definition git_is_safe :: "str list \<Rightarrow> bool" where
  "git_is_safe command \<longleftrightarrow>
     \<not> git_has_unsafe_global_option command \<and>
     (case find_git_subcommand command (lits [''status'', ''log'', ''diff'', ''show'', ''branch'']) of
        None \<Rightarrow> False
      | Some (idx, sub) \<Rightarrow>
          (let args = drop (idx + 1) command in
           if sub \<in> lits [''status'', ''log'', ''diff'', ''show''] then git_subcommand_args_are_read_only args
           else if sub = lit ''branch'' then
             git_subcommand_args_are_read_only args \<and> git_branch_is_read_only args
           else False))"

definition always_safe_programs :: "string list" where
  "always_safe_programs = [''cat'', ''cd'', ''cut'', ''echo'', ''expr'', ''false'', ''grep'', ''head'', ''id'',
     ''ls'', ''nl'', ''paste'', ''pwd'', ''rev'', ''seq'', ''stat'', ''tail'', ''tr'', ''true'', ''uname'',
     ''uniq'', ''wc'', ''which'', ''whoami'']"

definition base64_is_safe :: "str list \<Rightarrow> bool" where
  "base64_is_safe command \<longleftrightarrow>
     \<not> list_ex (\<lambda>arg. arg \<in> lits [''-o'', ''--output''] \<or> starts_with arg (lit ''--output='') \<or>
       (starts_with arg (lit ''-o'') \<and> arg \<noteq> lit ''-o'')) (drop 1 command)"

definition find_is_safe :: "str list \<Rightarrow> bool" where
  "find_is_safe command \<longleftrightarrow>
     \<not> list_ex (\<lambda>arg. arg \<in> lits [''-exec'', ''-execdir'', ''-ok'', ''-okdir'', ''-delete'', ''-fls'',
       ''-fprint'', ''-fprint0'', ''-fprintf'']) command"

definition rg_is_safe :: "str list \<Rightarrow> bool" where
  "rg_is_safe command \<longleftrightarrow>
     \<not> list_ex (\<lambda>arg. arg \<in> lits [''--search-zip'', ''-z''] \<or> arg \<in> lits [''--pre'', ''--hostname-bin''] \<or>
       starts_with_any [''--pre='', ''--hostname-bin=''] arg) command"

definition nth_arg :: "str list \<Rightarrow> nat \<Rightarrow> str option" where
  "nth_arg xs i = (if i < length xs then Some (xs ! i) else None)"

definition sed_is_safe :: "str list \<Rightarrow> bool" where
  "sed_is_safe command \<longleftrightarrow>
     length command \<le> 4 \<and> nth_arg command 1 = Some (lit ''-n'') \<and> is_valid_sed_n_arg (nth_arg command 2)"

definition is_safe_to_call_with_exec :: "str list \<Rightarrow> bool" where
  "is_safe_to_call_with_exec command =
     (case command of
        [] \<Rightarrow> False
      | cmd0 # _ \<Rightarrow>
          (case executable_name_lookup_key cmd0 of
             None \<Rightarrow> False
           | Some cmd \<Rightarrow>
               if cmd \<in> lits [''numfmt'', ''tac''] then True
               else if cmd \<in> lits always_safe_programs then True
               else if cmd = lit ''base64'' then base64_is_safe command
               else if cmd = lit ''find'' then find_is_safe command
               else if cmd = lit ''rg'' then rg_is_safe command
               else if cmd = lit ''git'' then git_is_safe command
               else if cmd = lit ''sed'' \<and> sed_is_safe command then True
               else False))"

section \<open>PowerShell\<close>

definition is_powershell_executable :: "str \<Rightarrow> bool" where
  "is_powershell_executable exe \<longleftrightarrow>
     to_ascii_lowercase (case path_file_name exe of Some n \<Rightarrow> n | None \<Rightarrow> exe) \<in>
       lits [''powershell'', ''powershell.exe'', ''pwsh'', ''pwsh.exe'']"

fun double_quotes :: "str \<Rightarrow> str" where
  "double_quotes [] = []"
| "double_quotes (c # s) = (if c = 39 then [39, 39] else [c]) @ double_quotes s"

definition quote_argument :: "str \<Rightarrow> str" where
  "quote_argument arg =
     (if arg = [] then [39, 39]
      else if list_all (\<lambda>c. \<not> is_whitespace c) arg then arg
      else [39] @ double_quotes arg @ [39])"

definition join_arguments_as_script :: "str list \<Rightarrow> str" where
  "join_arguments_as_script args =
     (case args of [] \<Rightarrow> [] | f # others \<Rightarrow> join (lit '' '') (f # map quote_argument others))"

text \<open>The parser process: the executable it is started from and the script, to the commands found.\<close>

type_synonym powershell_parser = "str \<Rightarrow> str \<Rightarrow> str list list option"

definition after_colon :: "str \<Rightarrow> str option" where
  "after_colon s = (if 58 \<in> set s then Some (tl (dropWhile (\<lambda>c. c \<noteq> 58) s)) else None)"

fun parse_powershell_invocation :: "powershell_parser \<Rightarrow> str \<Rightarrow> str list \<Rightarrow> str list list option" where
  "parse_powershell_invocation ps exe [] = None"
| "parse_powershell_invocation ps exe (arg # args) =
     (let lower = to_ascii_lowercase arg in
      if lower \<in> lits [''-command'', ''/command'', ''-c''] then
        (case args of [script] \<Rightarrow> ps exe script | _ \<Rightarrow> None)
      else if starts_with_any [''-command:'', ''/command:''] lower then
        (if args \<noteq> [] then None else Option.bind (after_colon arg) (ps exe))
      else if lower \<in> lits [''-nologo'', ''-noprofile'', ''-noninteractive'', ''-mta'', ''-sta''] then
        parse_powershell_invocation ps exe args
      else if lower \<in> lits [''-encodedcommand'', ''-ec'', ''-file'', ''/file'', ''-windowstyle'',
        ''-executionpolicy'', ''-workingdirectory''] then None
      else if starts_with lower (lit ''-'') then None
      else ps exe (join_arguments_as_script (arg # args)))"

definition try_parse_powershell_command_sequence :: "powershell_parser \<Rightarrow> str list \<Rightarrow> str list list option" where
  "try_parse_powershell_command_sequence ps command =
     (case command of
        [] \<Rightarrow> None
      | exe # args \<Rightarrow> if is_powershell_executable exe then parse_powershell_invocation ps exe args else None)"

definition cmdlet_name :: "str \<Rightarrow> str" where
  "cmdlet_name w =
     (let is_paren = (\<lambda>c. c = 40 \<or> c = 41);
          inner = rev (dropWhile is_paren (rev (dropWhile is_paren w)))
      in to_ascii_lowercase (dropWhile (\<lambda>c. c = 45) inner))"

definition forbidden_cmdlets :: "string list" where
  "forbidden_cmdlets = [''set-content'', ''add-content'', ''out-file'', ''new-item'', ''remove-item'',
     ''move-item'', ''copy-item'', ''rename-item'', ''start-process'', ''stop-process'']"

definition safe_cmdlets :: "string list" where
  "safe_cmdlets = [''echo'', ''write-output'', ''write-host'', ''dir'', ''ls'', ''get-childitem'', ''gci'',
     ''cat'', ''type'', ''gc'', ''get-content'', ''select-string'', ''sls'', ''findstr'', ''measure-object'',
     ''measure'', ''get-location'', ''gl'', ''pwd'', ''test-path'', ''tp'', ''resolve-path'', ''rvpa'',
     ''select-object'', ''select'', ''get-item'']"

definition is_safe_ripgrep :: "str list \<Rightarrow> bool" where
  "is_safe_ripgrep ws \<longleftrightarrow>
     \<not> list_ex (\<lambda>arg. let lc = to_ascii_lowercase arg in
       lc \<in> lits [''--search-zip'', ''-z''] \<or> lc \<in> lits [''--pre'', ''--hostname-bin''] \<or>
       starts_with_any [''--pre='', ''--hostname-bin=''] lc) (drop 1 ws)"

fun scan_powershell_git :: "str list \<Rightarrow> bool" where
  "scan_powershell_git [] \<longleftrightarrow> False"
| "scan_powershell_git (arg # args) \<longleftrightarrow>
     (let lc = to_ascii_lowercase arg in
      if starts_with arg (lit ''-'') then
        (if git_global_option_requires_prompt lc \<or> lc = lit ''--config'' \<or> starts_with lc (lit ''--config='')
         then False else scan_powershell_git args)
      else lc \<in> lits [''status'', ''log'', ''show'', ''diff'', ''cat-file''])"

definition is_safe_git_command :: "str list \<Rightarrow> bool" where
  "is_safe_git_command ws = scan_powershell_git (drop 1 ws)"

definition is_safe_powershell_command :: "str list \<Rightarrow> bool" where
  "is_safe_powershell_command ws =
     (case ws of
        [] \<Rightarrow> False
      | w # _ \<Rightarrow>
          if list_ex (\<lambda>w. cmdlet_name w \<in> lits forbidden_cmdlets) ws then False
          else (let command = cmdlet_name w in
            if command \<in> lits safe_cmdlets then True
            else if command = lit ''git'' then is_safe_git_command ws
            else if command = lit ''rg'' then is_safe_ripgrep ws
            else False))"

definition is_safe_command_windows :: "powershell_parser \<Rightarrow> str list \<Rightarrow> bool" where
  "is_safe_command_windows ps command =
     (case try_parse_powershell_command_sequence ps command of
        Some commands \<Rightarrow> list_all is_safe_powershell_command commands
      | None \<Rightarrow> False)"

section \<open>The safety check\<close>

definition is_known_safe_command :: "powershell_parser \<Rightarrow> shell_parser \<Rightarrow> str list \<Rightarrow> bool" where
  "is_known_safe_command ps parse command =
     (let command = map (\<lambda>s. if s = lit ''zsh'' then lit ''bash'' else s) command in
      if is_safe_command_windows ps command then True
      else if is_safe_to_call_with_exec command then True
      else (case parse_shell_lc_plain_commands parse command of
              Some all_commands \<Rightarrow> all_commands \<noteq> [] \<and> list_all is_safe_to_call_with_exec all_commands
            | None \<Rightarrow> False))"

section \<open>Safe commands are not dangerous\<close>

lemma lits_iff [simp]: "lit a \<in> lits ss \<longleftrightarrow> a \<in> set ss"
  by (auto simp: lits_def)

lemma file_name_bare:
  assumes "slash \<notin> set n" "n \<noteq> []" "n \<noteq> lit ''.''" "n \<noteq> lit ''..''"
  shows "path_file_name n = Some n"
proof -
  have "split_on slash n = [n]" using assms(1) by (rule split_on_single)
  moreover have "\<not> is_absolute n" using assms(1) by (auto simp: is_absolute_def starts_with_prefix prefix_def)
  ultimately show ?thesis
    using assms by (simp add: path_file_name_def components_def piece_component_def)
qed

lemma rm_sudo_not_safe:
  "\<not> is_safe_to_call_with_exec (lit ''rm'' # args)" "\<not> is_safe_to_call_with_exec (lit ''sudo'' # args)"
proof -
  have "path_file_name (lit ''rm'') = Some (lit ''rm'')" "path_file_name (lit ''sudo'') = Some (lit ''sudo'')"
    by (intro file_name_bare; simp add: slash_def str_eval)+
  then show "\<not> is_safe_to_call_with_exec (lit ''rm'' # args)" "\<not> is_safe_to_call_with_exec (lit ''sudo'' # args)"
    by (simp_all add: is_safe_to_call_with_exec_def executable_name_lookup_key_def always_safe_programs_def)
qed

lemma safe_exec_not_dangerous:
  "is_safe_to_call_with_exec c \<Longrightarrow> \<not> is_dangerous_to_call_with_exec c"
  using rm_sudo_not_safe by (cases c) (auto split: if_splits)

definition zsh_to_bash :: "str \<Rightarrow> str" where
  "zsh_to_bash s = (if s = lit ''zsh'' then lit ''bash'' else s)"

lemma extract_bash_zsh:
  assumes "\<nexists>sh flag. c = [sh, flag, lit ''zsh'']"
  shows "map_option snd (extract_bash_command (map zsh_to_bash c)) = map_option snd (extract_bash_command c)"
proof (cases "\<exists>sh flag script. c = [sh, flag, script]")
  case True
  then obtain sh flag script where c: "c = [sh, flag, script]" by blast
  then have "zsh_to_bash script = script" using assms by (auto simp: zsh_to_bash_def)
  moreover have "zsh_to_bash flag \<in> {lit ''-lc'', lit ''-c''} \<longleftrightarrow> flag \<in> {lit ''-lc'', lit ''-c''}"
    by (auto simp: zsh_to_bash_def)
  moreover have "detect_shell_type (zsh_to_bash sh) \<in> {Some Zsh, Some Bash, Some Sh} \<longleftrightarrow>
      detect_shell_type sh \<in> {Some Zsh, Some Bash, Some Sh}"
    by (auto simp: zsh_to_bash_def detect_shell_type.simps [of "lit ''bash''"] detect_shell_type.simps [of "lit ''zsh''"])
  ultimately show ?thesis by (auto simp: c extract_bash_command_def)
next
  case False
  then have "extract_bash_command c = None" "extract_bash_command (map zsh_to_bash c) = None"
    by (auto simp: extract_bash_command_def split: list.splits)
  then show ?thesis by simp
qed

lemma plain_commands_zsh:
  assumes "\<nexists>sh flag. c = [sh, flag, lit ''zsh'']"
  shows "parse_shell_lc_plain_commands parse (map zsh_to_bash c) = parse_shell_lc_plain_commands parse c"
  using extract_bash_zsh [OF assms]
  by (auto simp: parse_shell_lc_plain_commands_def split: option.splits prod.splits)

lemma known_safe_cases:
  assumes "is_known_safe_command ps parse c" "\<not> is_safe_command_windows ps (map zsh_to_bash c)"
  shows "is_safe_to_call_with_exec (map zsh_to_bash c) \<or>
    (\<exists>cmds. parse_shell_lc_plain_commands parse (map zsh_to_bash c) = Some cmds \<and> cmds \<noteq> [] \<and>
      list_all is_safe_to_call_with_exec cmds)"
  using assms by (auto simp: is_known_safe_command_def zsh_to_bash_def [abs_def] Let_def
      split: if_splits option.splits)

lemma dangerous_exec_shell: "is_dangerous_to_call_with_exec c \<Longrightarrow> parse_shell_lc_plain_commands parse c = None"
proof -
  assume "is_dangerous_to_call_with_exec c"
  then have "hd c \<in> {lit ''rm'', lit ''sudo''}" by (cases c) (auto split: if_splits)
  moreover have "detect_shell_type (lit ''rm'') = None" "detect_shell_type (lit ''sudo'') = None"
  proof -
    have "file_stem (lit ''rm'') = Some (lit ''rm'')" "file_stem (lit ''sudo'') = Some (lit ''sudo'')"
      by (auto simp: file_stem_def file_name_bare slash_def str_eval stem_of_name_def)
    then show "detect_shell_type (lit ''rm'') = None" "detect_shell_type (lit ''sudo'') = None"
      by (simp_all add: detect_shell_type.simps)
  qed
  ultimately show ?thesis
    by (auto simp: parse_shell_lc_plain_commands_def extract_bash_command_def split: list.splits option.splits)
qed

definition shell_names :: "string list" where
  "shell_names = [''zsh'', ''sh'', ''cmd'', ''bash'', ''pwsh'', ''powershell'']"

lemma path_file_name_lit:
  "n \<in> set shell_names \<Longrightarrow> path_file_name (lit n) = Some (lit n)"
  by (intro file_name_bare) (auto simp: shell_names_def slash_def str_eval)

lemma detect_other_name:
  assumes "path_file_name p = Some n" "46 \<notin> set n" "n \<notin> lits shell_names"
  shows "detect_shell_type p = None"
proof -
  have not_lit: "q \<noteq> lit x" if "path_file_name q = Some n" "x \<in> set shell_names" for q x
    using that assms(3) path_file_name_lit [OF that(2)] by auto
  have none: "detect_shell_type q = (case file_stem q of None \<Rightarrow> None
      | Some m \<Rightarrow> if components m \<noteq> components q then detect_shell_type m else None)"
    if "path_file_name q = Some n" for q
    using not_lit [OF that] by (subst detect_shell_type.simps) (simp add: shell_names_def)
  have stem: "file_stem q = Some n" if "path_file_name q = Some n" for q
    using that assms(2) by (simp add: file_stem_def stem_of_name_def)
  have "valid_name n"
    using assms(1) components_Normal [of n p]
    by (auto simp: path_file_name_def split: list.splits component.splits)
  then have "path_file_name n = Some n" by (intro file_name_bare) (auto simp: valid_name_def)
  then have "detect_shell_type n = None" using none [of n] stem [of n] by simp
  then show ?thesis using none [OF assms(1)] stem [OF assms(1)] by simp
qed

lemma safe_program_name:
  assumes "is_safe_to_call_with_exec (p # args)"
  shows "\<exists>n. path_file_name p = Some n \<and>
    n \<in> lits ([''numfmt'', ''tac'', ''base64'', ''find'', ''rg'', ''git'', ''sed''] @ always_safe_programs)"
  using assms by (auto simp: is_safe_to_call_with_exec_def executable_name_lookup_key_def lits_def
      split: option.splits if_splits)

lemma safe_exec_not_shell:
  assumes "is_safe_to_call_with_exec c"
  shows "parse_shell_lc_plain_commands parse c = None"
proof -
  obtain p args where c: "c = p # args"
    using assms by (cases c) (auto simp: is_safe_to_call_with_exec_def)
  obtain n where n: "path_file_name p = Some n"
    "n \<in> lits ([''numfmt'', ''tac'', ''base64'', ''find'', ''rg'', ''git'', ''sed''] @ always_safe_programs)"
    using safe_program_name assms c by blast
  have "list_all (\<lambda>s. 46 \<notin> set (lit s) \<and> s \<notin> set shell_names)
      ([''numfmt'', ''tac'', ''base64'', ''find'', ''rg'', ''git'', ''sed''] @ always_safe_programs)"
    by (simp add: always_safe_programs_def shell_names_def lit_def uc_def)
  with n(2) have "46 \<notin> set n" "n \<notin> lits shell_names" by (auto simp: lits_def list_all_iff)
  from detect_other_name [OF n(1) this] show ?thesis
    by (auto simp: c parse_shell_lc_plain_commands_def extract_bash_command_def split: list.splits option.splits)
qed

lemma detect_plain_name:
  assumes "path_file_name p = Some n" "46 \<notin> set n" "n \<notin> lits [''zsh'', ''sh'', ''cmd'', ''bash'']"
  shows "detect_shell_type p \<in> {None, Some PowerShellType}"
proof -
  have not_lit: "q \<noteq> lit x" if "path_file_name q = Some n" "x \<in> {''zsh'', ''sh'', ''cmd'', ''bash''}" for q x
    using that assms(3) path_file_name_lit [of x] by (auto simp: shell_names_def)
  have step: "detect_shell_type q \<in> {None, Some PowerShellType}"
    if "path_file_name q = Some n" "components n \<noteq> components q \<longrightarrow> detect_shell_type n \<in> {None, Some PowerShellType}" for q
  proof -
    have "file_stem q = Some n" using that(1) assms(2) by (simp add: file_stem_def stem_of_name_def)
    then show ?thesis using that(2) not_lit [OF that(1)] by (subst detect_shell_type.simps) auto
  qed
  have "valid_name n"
    using assms(1) components_Normal [of n p]
    by (auto simp: path_file_name_def split: list.splits component.splits)
  then have "path_file_name n = Some n" by (intro file_name_bare) (auto simp: valid_name_def)
  then have "detect_shell_type n \<in> {None, Some PowerShellType}" by (rule step) simp
  then show ?thesis using step [OF assms(1)] by simp
qed

lemma lowercase_dot: "46 \<in> set (to_ascii_lowercase s) \<longleftrightarrow> 46 \<in> set s"
  by (auto simp: to_ascii_lowercase_def to_ascii_lowercase_char_def image_iff split: if_splits)

lemma stem_exe:
  assumes "to_ascii_lowercase n = lit b @ lit ''.exe''" "46 \<notin> set (lit b)" "b \<noteq> []"
  shows "46 \<notin> set (stem_of_name n) \<and> to_ascii_lowercase (stem_of_name n) = lit b \<and> set (stem_of_name n) \<subseteq> set n"
proof -
  obtain m e where n: "n = m @ e" "to_ascii_lowercase m = lit b" "to_ascii_lowercase e = lit ''.exe''"
    using assms(1) by (auto simp: to_ascii_lowercase_def map_eq_append_conv)
  have m: "46 \<notin> set m" "m \<noteq> []" using n(2) assms(2,3) lowercase_dot [of m] by (auto simp: to_ascii_lowercase_def lit_def)
  obtain d t where e: "e = d # t" "to_ascii_lowercase_char d = 46" "to_ascii_lowercase t = lit ''exe''"
    using n(3) by (cases e) (auto simp: to_ascii_lowercase_def lit_def uc_def)
  have d: "d = 46" using e(2) by (auto simp: to_ascii_lowercase_char_def split: if_splits)
  have t: "46 \<notin> set t" using e(3) lowercase_dot [of t] by (auto simp: lit_def uc_def)
  have after: "takeWhile (\<lambda>c. c \<noteq> 46) (rev n) = rev t"
    using t unfolding n(1) e(1) d by (simp, subst takeWhile_append2) auto
  have "stem_of_name n = m"
    unfolding stem_of_name_def after Let_def using m by (simp add: n(1) e(1) d)
  then show ?thesis using m n(1,2) by simp
qed

lemma powershell_not_script:
  assumes "is_powershell_executable sh"
  shows "detect_shell_type sh \<in> {None, Some PowerShellType} \<and> sh \<notin> {lit ''rm'', lit ''sudo'', lit ''bash''}"
proof -
  have bare: "path_file_name (lit b) = Some (lit b)" if "b \<in> {''rm'', ''sudo'', ''bash'', ''zsh'', ''sh'', ''cmd''}" for b
    using that by (intro file_name_bare) (auto simp: slash_def str_eval)
  have lower: "to_ascii_lowercase (lit b) = lit b" if "b \<in> {''rm'', ''sudo'', ''bash'', ''zsh'', ''sh'', ''cmd''}" for b
    using that by (auto simp: to_ascii_lowercase_def to_ascii_lowercase_char_def lit_def uc_def)
  have not_bare: "sh \<noteq> lit b" if "b \<in> {''rm'', ''sudo'', ''bash'', ''zsh'', ''sh'', ''cmd''}" for b
    using assms bare [OF that] lower [OF that] that by (auto simp: is_powershell_executable_def)
  have "detect_shell_type sh \<in> {None, Some PowerShellType}"
  proof (cases "path_file_name sh")
    case None
    then show ?thesis using not_bare by (subst detect_shell_type.simps) (auto simp: file_stem_def)
  next
    case (Some n)
    then have n: "to_ascii_lowercase n \<in> lits [''powershell'', ''powershell.exe'', ''pwsh'', ''pwsh.exe'']"
      using assms by (simp add: is_powershell_executable_def)
    have names: "m \<notin> lits [''zsh'', ''sh'', ''cmd'', ''bash'']" if "to_ascii_lowercase m \<in> {lit ''powershell'', lit ''pwsh''}" for m
      using that lower [of "''zsh''"] lower [of "''sh''"] lower [of "''cmd''"] lower [of "''bash''"] by (auto simp: lits_def)
    show ?thesis
    proof (cases "to_ascii_lowercase n \<in> {lit ''powershell'', lit ''pwsh''}")
      case True
      then have "46 \<notin> set n" using lowercase_dot [of n] by (auto simp: lit_def uc_def)
      then show ?thesis using detect_plain_name [OF Some] names [OF True] by blast
    next
      case False
      then have "to_ascii_lowercase n = lit ''powershell'' @ lit ''.exe'' \<or> to_ascii_lowercase n = lit ''pwsh'' @ lit ''.exe''"
        using n by (auto simp: lits_def lit_def)
      then obtain b where b: "to_ascii_lowercase n = lit b @ lit ''.exe''" "b \<in> {''powershell'', ''pwsh''}" by blast
      then have stem: "46 \<notin> set (stem_of_name n)" "to_ascii_lowercase (stem_of_name n) = lit b" "set (stem_of_name n) \<subseteq> set n"
        using stem_exe [OF b(1)] by (auto simp: lit_def uc_def)
      have "valid_name n"
        using Some components_Normal [of n sh] by (auto simp: path_file_name_def split: list.splits component.splits)
      then have "slash \<notin> set (stem_of_name n)" using stem(3) by (auto simp: valid_name_def)
      moreover have "stem_of_name n \<noteq> []" "stem_of_name n \<noteq> lit ''.''" "stem_of_name n \<noteq> lit ''..''"
        using stem(1,2) b(2) by (auto simp: to_ascii_lowercase_def lit_def uc_def)
      ultimately have "path_file_name (stem_of_name n) = Some (stem_of_name n)" by (rule file_name_bare)
      then have "detect_shell_type (stem_of_name n) \<in> {None, Some PowerShellType}"
        using detect_plain_name [OF _ stem(1)] names [of "stem_of_name n"] stem(2) b(2) by auto
      then show ?thesis using not_bare Some by (subst detect_shell_type.simps) (auto simp: file_stem_def)
    qed
  qed
  then show ?thesis using not_bare by auto
qed

lemma safe_powershell_not_dangerous:
  assumes "is_safe_command_windows ps (map zsh_to_bash c)"
  shows "\<not> command_might_be_dangerous parse c"
proof -
  obtain sh args where c: "c = sh # args" and ps: "is_powershell_executable (zsh_to_bash sh)"
    using assms by (cases c) (auto simp: is_safe_command_windows_def try_parse_powershell_command_sequence_def split: if_splits)
  note names = powershell_not_script [OF ps]
  then have sh: "zsh_to_bash sh = sh" by (auto simp: zsh_to_bash_def)
  then show ?thesis
    using names by (auto simp: command_might_be_dangerous_def parse_shell_lc_plain_commands_def extract_bash_command_def c
        split: list.splits option.splits)
qed

text \<open>
  C24: a command on the list of known safe commands, alone or as a shell script or a PowerShell invocation, is never one
  that is flagged as dangerous, neither itself nor through a command of its script. The one exception is a shell
  whose script is the bare word \<^verbatim>\<open>zsh\<close>, which the list reads as \<^verbatim>\<open>bash\<close>.
\<close>

theorem known_safe_not_dangerous:
  assumes "is_known_safe_command ps parse c" "\<nexists>sh flag. c = [sh, flag, lit ''zsh'']"
  shows "\<not> command_might_be_dangerous parse c"
proof (cases "is_safe_command_windows ps (map zsh_to_bash c)")
  case True
  then show ?thesis by (rule safe_powershell_not_dangerous)
next
  case False
  from known_safe_cases [OF assms(1) this] show ?thesis
  proof
    assume safe: "is_safe_to_call_with_exec (map zsh_to_bash c)"
    have "\<not> is_dangerous_to_call_with_exec c"
      using safe rm_sudo_not_safe by (cases c) (auto simp: zsh_to_bash_def split: if_splits)
    moreover have "parse_shell_lc_plain_commands parse c = None"
      using safe_exec_not_shell [OF safe] plain_commands_zsh [OF assms(2)] by simp
    ultimately show ?thesis by (simp add: command_might_be_dangerous_def)
  next
    assume "\<exists>cmds. parse_shell_lc_plain_commands parse (map zsh_to_bash c) = Some cmds \<and> cmds \<noteq> [] \<and>
      list_all is_safe_to_call_with_exec cmds"
    then obtain cmds where cmds: "parse_shell_lc_plain_commands parse c = Some cmds"
      "list_all is_safe_to_call_with_exec cmds"
      using plain_commands_zsh [OF assms(2)] by auto
    have "\<not> list_ex is_dangerous_to_call_with_exec cmds"
      using cmds(2) safe_exec_not_dangerous by (auto simp: list_all_iff list_ex_iff)
    moreover have "\<not> is_dangerous_to_call_with_exec c"
      using dangerous_exec_shell [of c parse] cmds(1) by auto
    ultimately show ?thesis using cmds(1) by (simp add: command_might_be_dangerous_def)
  qed
qed

theorem known_safe_not_dangerous_witness:
  "\<not> command_might_be_dangerous (\<lambda>_. None) [lit ''ls'', lit ''-l'']"
proof (rule known_safe_not_dangerous)
  have n: "path_file_name (lit ''ls'') = Some (lit ''ls'')"
    by (intro file_name_bare; simp add: slash_def str_eval)
  show "is_known_safe_command (\<lambda>_ _. None) (\<lambda>_. None) [lit ''ls'', lit ''-l'']"
    by (simp add: is_known_safe_command_def is_safe_to_call_with_exec_def executable_name_lookup_key_def n
        always_safe_programs_def)
  show "\<nexists>sh flag. [lit ''ls'', lit ''-l''] = [sh, flag, lit ''zsh'']" by simp
qed

section \<open>Git\<close>

lemma scan_git_subcommand_Some:
  assumes "scan_git_subcommand subs idx skip args = Some (i, sub)"
    and "\<forall>a \<in> set args. \<not> git_global_option_requires_prompt a"
  shows "idx \<le> i \<and> i - idx < length args \<and> args ! (i - idx) = sub \<and> sub \<in> subs \<and>
    (\<forall>j < i - idx. starts_with (args ! j) (lit ''-'') \<or>
      (if j = 0 then skip else args ! (j - 1) = lit ''-C''))"
  using assms
proof (induction subs idx skip args rule: scan_git_subcommand.induct)
  case (2 subs idx skip arg args)
  have dash: "starts_with arg (lit ''-'')"
    if "is_git_global_option_with_inline_value arg \<or> is_git_global_option_with_value arg"
    using that by (auto simp: is_git_global_option_with_inline_value_def is_git_global_option_with_value_def
        starts_with_any_def starts_with_prefix lits_def lit_def prefix_def)
  have val: "arg = lit ''-C''"
    if "is_git_global_option_with_value arg"
    using that 2(6) by (auto simp: is_git_global_option_with_value_def git_global_option_requires_prompt_def lits_def)
  have rest: "?case" if r: "scan_git_subcommand subs (Suc idx) b args = Some (i, sub)"
    "skip \<or> starts_with arg (lit ''-'')" "b \<longrightarrow> arg = lit ''-C''"
    "Suc idx \<le> i \<and> i - Suc idx < length args \<and> args ! (i - Suc idx) = sub \<and> sub \<in> subs \<and>
    (\<forall>j < i - Suc idx. starts_with (args ! j) (lit ''-'') \<or>
      (if j = 0 then b else args ! (j - 1) = lit ''-C''))" for b
  proof -
    have "starts_with ((arg # args) ! j) (lit ''-'') \<or>
        (if j = 0 then skip else (arg # args) ! (j - 1) = lit ''-C'')" if "j < i - idx" for j
    proof (cases j)
      case 0
      then show ?thesis using r(2) by auto
    next
      case (Suc k)
      then have "k < i - Suc idx" using that by simp
      with r(4) have "starts_with (args ! k) (lit ''-'') \<or> (if k = 0 then b else args ! (k - 1) = lit ''-C'')"
        by blast
      then show ?thesis using r(3) Suc by (cases k) (auto split: if_splits)
    qed
    moreover have "i - idx = Suc (i - Suc idx)" using conjunct1 [OF r(4)] by simp
    ultimately show ?thesis using r(4) by auto
  qed
  consider "skip" | "\<not> skip" "is_git_global_option_with_inline_value arg"
    | "\<not> skip" "\<not> is_git_global_option_with_inline_value arg" "is_git_global_option_with_value arg"
    | "\<not> skip" "\<not> is_git_global_option_with_inline_value arg" "\<not> is_git_global_option_with_value arg"
      "starts_with arg (lit ''-'')"
    | "\<not> skip" "\<not> is_git_global_option_with_inline_value arg" "\<not> is_git_global_option_with_value arg"
      "\<not> starts_with arg (lit ''-'')"
    by blast
  then show ?case
  proof cases
    case 1
    with 2 show ?thesis by (intro rest [of False]) auto
  next
    case 2
    with "2.IH" "2.prems" dash show ?thesis by (intro rest [of False]) auto
  next
    case 3
    with "2.IH" "2.prems" dash val show ?thesis by (intro rest [of True]) auto
  next
    case 4
    with "2.IH" "2.prems" show ?thesis by (intro rest [of False]) auto
  next
    case 5
    moreover have "arg \<noteq> lit ''--''" using 5(4) by (auto simp: str_eval)
    ultimately show ?thesis using "2.prems" by (auto split: if_splits)
  qed
qed simp



section \<open>The sed special case\<close>

text \<open>
  The argument check of \<^verbatim>\<open>sed -n\<close> accepts exactly what its comment says: an optional number and a
  comma, a number, and the letter p.
\<close>

theorem is_valid_sed_n_arg_spec:
  "is_valid_sed_n_arg (Some s) \<longleftrightarrow>
     (\<exists>b. all_digits b \<and> s = b @ lit ''p'') \<or>
     (\<exists>a b. all_digits a \<and> all_digits b \<and> s = a @ [44] @ b @ lit ''p'')"
proof -
  have nc: "all_digits b \<Longrightarrow> 44 \<notin> set b" for b
    by (auto simp: list_all_iff is_ascii_digit_def)
  have *: "(case split_on 44 core of [num] \<Rightarrow> all_digits num | [a, b] \<Rightarrow> all_digits a \<and> all_digits b | _ \<Rightarrow> False) \<longleftrightarrow>
      all_digits core \<or> (\<exists>a b. all_digits a \<and> all_digits b \<and> core = a @ [44] @ b)" (is "?l \<longleftrightarrow> ?r") for core
  proof
    assume ?l
    moreover have "core = join [44] (split_on 44 core)" by (simp add: join_split_on)
    ultimately show ?r
      by (cases "split_on 44 core"; cases "tl (split_on 44 core)"; cases "tl (tl (split_on 44 core))") auto
  next
    assume ?r
    then show ?l
    proof
      assume "all_digits core"
      with nc show ?l by (simp add: split_on_single del: all_digits.simps)
    next
      assume "\<exists>a b. all_digits a \<and> all_digits b \<and> core = a @ [44] @ b"
      then obtain a b where "all_digits a" "all_digits b" "core = a @ [44] @ b" by blast
      with nc [of a] nc [of b] show ?l
        by (simp add: split_on_append_sep split_on_single del: all_digits.simps)
    qed
  qed
  show ?thesis
  proof (cases "strip_suffix (lit ''p'') s")
    case None
    then have "s \<noteq> t @ lit ''p''" for t by (metis strip_suffix_Some option.distinct(1))
    then show ?thesis using None by (auto simp: is_valid_sed_n_arg_def simp del: all_digits.simps)
      (metis append.assoc append_Cons)
  next
    case (Some core)
    then have "s = core @ lit ''p''" by (simp add: strip_suffix_Some)
    moreover have "a @ [44] @ b @ lit ''p'' = (a @ [44] @ b) @ lit ''p''" for a b by simp
    ultimately show ?thesis
      using Some * [of core] by (simp only: is_valid_sed_n_arg_def option.simps append_same_eq) blast
  qed
qed

section \<open>What the checks let through\<close>

text \<open>
  The program is recognised by the last component of its path alone, so a program of a harmless name
  in the working directory is run without approval; a dangerous program is only recognised by its
  bare name.
\<close>

lemma safe_program_by_basename:
  "path_file_name p = Some (lit ''ls'') \<Longrightarrow> is_safe_to_call_with_exec (p # args)"
  by (simp add: is_safe_to_call_with_exec_def executable_name_lookup_key_def always_safe_programs_def)

theorem relative_program_is_safe:
  "is_safe_to_call_with_exec (lit ''./ls'' # args) \<and>
   \<not> is_dangerous_to_call_with_exec [lit ''/bin/rm'', lit ''-rf'', lit ''/'']"
proof -
  have "path_file_name (lit ''./ls'') = Some (lit ''ls'')"
    by (simp add: path_file_name_def components_def piece_component_def is_absolute_def slash_def str_eval)
  then show ?thesis by (simp add: safe_program_by_basename)
qed

text \<open>
  The flags that start a pager are only looked for after the subcommand, although \<^verbatim>\<open>--paginate\<close> is an
  option of git itself that comes before it.
\<close>

theorem paginate_before_subcommand_is_safe:
  "git_is_safe [lit ''git'', lit ''--paginate'', lit ''log''] \<and>
   \<not> git_is_safe [lit ''git'', lit ''log'', lit ''--paginate'']"
proof -
  have key: "executable_name_lookup_key (lit ''git'') = Some (lit ''git'')"
    by (simp add: executable_name_lookup_key_def file_name_bare slash_def str_eval)
  have "\<not> is_git_global_option_with_inline_value (lit ''--paginate'')"
    "\<not> is_git_global_option_with_value (lit ''--paginate'')" "starts_with (lit ''--paginate'') (lit ''-'')"
    "\<not> is_git_global_option_with_inline_value (lit ''log'')" "\<not> is_git_global_option_with_value (lit ''log'')"
    "\<not> starts_with (lit ''log'') (lit ''-'')" "\<not> git_global_option_requires_prompt (lit ''--paginate'')"
    "\<not> git_global_option_requires_prompt (lit ''log'')"
    by (simp_all add: is_git_global_option_with_inline_value_def is_git_global_option_with_value_def
        git_global_option_requires_prompt_def starts_with_any_def str_eval str_len_def len_utf8_def lits_def)
  then show ?thesis
    by (simp add: git_is_safe_def git_has_unsafe_global_option_def find_git_subcommand_def key
        git_subcommand_args_are_read_only_def)
qed

text \<open>A fourth argument of \<^verbatim>\<open>sed -n\<close> is not looked at: it may be another script that writes files.\<close>

theorem sed_fourth_argument_unchecked:
  "sed_is_safe [program, lit ''-n'', lit ''1p'', anything]"
proof -
  have "is_valid_sed_n_arg (Some (lit ''1p''))"
    by (simp add: is_valid_sed_n_arg_def str_eval)
  then show ?thesis by (simp add: sed_is_safe_def nth_arg_def)
qed

text \<open>The PowerShell rules do not look at the arguments of a git subcommand.\<close>

theorem powershell_git_output_is_safe:
  "is_safe_git_command [lit ''git'', lit ''diff'', out] \<and>
   \<not> git_subcommand_args_are_read_only [lit ''--output=f'']"
  by (simp add: is_safe_git_command_def git_subcommand_args_are_read_only_def starts_with_any_def
      to_ascii_lowercase_def to_ascii_lowercase_char_def str_eval lits_def)

text \<open>
  The PowerShell check starts its parser from the executable named by the command itself, on every
  platform, and believes what that process answers.
\<close>

theorem powershell_check_runs_command_executable:
  assumes "is_powershell_executable exe" "exe \<noteq> lit ''zsh''" "script \<noteq> lit ''zsh''"
    and "ps exe script = Some cmds" "list_all is_safe_powershell_command cmds"
  shows "is_known_safe_command ps parse [exe, lit ''-Command'', script]"
proof -
  have "to_ascii_lowercase (lit ''-Command'') \<in> lits [''-command'', ''/command'', ''-c'']"
    by (simp add: to_ascii_lowercase_def to_ascii_lowercase_char_def lit_def uc_def lits_def)
  then show ?thesis
    using assms by (simp add: is_known_safe_command_def is_safe_command_windows_def
        try_parse_powershell_command_sequence_def)
qed

end
