(* ===== verification/Sandbox_Policy.thy ===== *)
theory Sandbox_Policy
  imports Abs_Path "HOL-Library.List_Lexorder" "HOL-Library.Product_Lexorder"
begin

text \<open>
  \<^verbatim>\<open>codex-rs/protocol/src/permissions.rs\<close>: the file-system sandbox policy, its resolution to an access mode
  for a path, the protection of workspace metadata, the writable roots handed to the platform
  sandboxes, and the merging of deny entries; with \<^verbatim>\<open>SandboxPolicy\<close> and \<^verbatim>\<open>WritableRoot\<close> of \<^verbatim>\<open>protocol.rs\<close>.
  What the functions ask of the operating system is a record of functions; the current directory of
  the process is taken to be readable, so resolving a path against it always succeeds. The theorems
  say which entry decides an access, that metadata is writable only by an explicit entry, that merging
  deny entries only tightens a policy, and that the writable roots grant nothing the policy denies.
\<close>

section \<open>Data\<close>

datatype network_sandbox_policy = NetworkRestricted | NetworkEnabled

definition network_is_enabled :: "network_sandbox_policy \<Rightarrow> bool" where
  "network_is_enabled n \<longleftrightarrow> n = NetworkEnabled"

datatype access_mode = Read | Write | NoAccess

text \<open>The derived order of the source: conflicts between equally specific entries go to the greater mode.\<close>

instantiation access_mode :: linorder
begin

definition access_rank :: "access_mode \<Rightarrow> nat" where
  "access_rank a = (case a of Read \<Rightarrow> 0 | Write \<Rightarrow> 1 | NoAccess \<Rightarrow> 2)"

definition less_eq_access_mode :: "access_mode \<Rightarrow> access_mode \<Rightarrow> bool" where
  "less_eq_access_mode a b \<longleftrightarrow> access_rank a \<le> access_rank b"

definition less_access_mode :: "access_mode \<Rightarrow> access_mode \<Rightarrow> bool" where
  "less_access_mode a b \<longleftrightarrow> access_rank a < access_rank b"

instance
  by standard (auto simp: less_eq_access_mode_def less_access_mode_def access_rank_def split: access_mode.splits)

end

definition can_read :: "access_mode \<Rightarrow> bool" where
  "can_read a \<longleftrightarrow> a \<noteq> NoAccess"

definition can_write :: "access_mode \<Rightarrow> bool" where
  "can_write a \<longleftrightarrow> a = Write"

datatype special_path =
  Root
| Minimal
| ProjectRoots "str option"
| Tmpdir
| SlashTmp
| UnknownSpecial str "str option"

datatype file_system_path =
  Path abs_path_buf
| GlobPattern str
| Special special_path

record sandbox_entry =
  entry_path :: file_system_path
  entry_access :: access_mode

datatype sandbox_kind = Restricted | Unrestricted | ExternalSandbox

record file_system_sandbox_policy =
  policy_kind :: sandbox_kind
  glob_scan_max_depth :: "nat option"
  policy_entries :: "sandbox_entry list"

record resolved_entry =
  resolved_path :: abs_path_buf
  resolved_access :: access_mode

record writable_root =
  root_path :: abs_path_buf
  read_only_subpaths :: "abs_path_buf list"
  protected_metadata_names :: "str list"

datatype network_access = AccessRestricted | AccessEnabled

datatype legacy_sandbox_policy =
  DangerFullAccess
| ReadOnly bool
| ExternalSandboxPolicy network_access
| WorkspaceWrite (legacy_roots: "abs_path_buf list") (legacy_network: bool)
    (exclude_tmpdir_env_var: bool) (exclude_slash_tmp: bool)

text \<open>
  The operating system: the \<^verbatim>\<open>TMPDIR\<close> variable, tests of a path, the contents of a text file, the
  canonical path, and whether an existing path is itself a symbolic link (\<^verbatim>\<open>symlink_metadata\<close>).
\<close>

record os_env = path_env +
  tmpdir_var :: "str option"
  is_dir :: "str \<Rightarrow> bool"
  is_file :: "str \<Rightarrow> bool"
  path_exists :: "str \<Rightarrow> bool"
  read_to_string :: "str \<Rightarrow> str option"
  canonicalize :: "str \<Rightarrow> str option"
  symlink_metadata :: "str \<Rightarrow> bool option"

definition entry :: "file_system_path \<Rightarrow> access_mode \<Rightarrow> sandbox_entry" where
  "entry p a = \<lparr>entry_path = p, entry_access = a\<rparr>"

definition default_policy :: file_system_sandbox_policy where
  "default_policy = \<lparr>policy_kind = Restricted, glob_scan_max_depth = None,
     policy_entries = [entry (Special Root) Read]\<rparr>"

definition unrestricted :: file_system_sandbox_policy where
  "unrestricted = \<lparr>policy_kind = Unrestricted, glob_scan_max_depth = None, policy_entries = []\<rparr>"

definition external_sandbox :: file_system_sandbox_policy where
  "external_sandbox = \<lparr>policy_kind = ExternalSandbox, glob_scan_max_depth = None, policy_entries = []\<rparr>"

definition restricted :: "sandbox_entry list \<Rightarrow> file_system_sandbox_policy" where
  "restricted es = \<lparr>policy_kind = Restricted, glob_scan_max_depth = None, policy_entries = es\<rparr>"

text \<open>Equality of paths is that of their components; the remaining fields are compared as they are.\<close>

fun option_path_eq :: "str option \<Rightarrow> str option \<Rightarrow> bool" where
  "option_path_eq None None = True"
| "option_path_eq (Some p) (Some q) = path_eq p q"
| "option_path_eq _ _ = False"

fun special_path_eq :: "special_path \<Rightarrow> special_path \<Rightarrow> bool" where
  "special_path_eq (ProjectRoots p) (ProjectRoots q) = option_path_eq p q"
| "special_path_eq (UnknownSpecial s p) (UnknownSpecial t q) = (s = t \<and> option_path_eq p q)"
| "special_path_eq a b = (a = b)"

fun file_system_path_eq :: "file_system_path \<Rightarrow> file_system_path \<Rightarrow> bool" where
  "file_system_path_eq (Path p) (Path q) = path_eq p q"
| "file_system_path_eq (Special a) (Special b) = special_path_eq a b"
| "file_system_path_eq a b = (a = b)"

definition entry_eq :: "sandbox_entry \<Rightarrow> sandbox_entry \<Rightarrow> bool" where
  "entry_eq a b \<longleftrightarrow> file_system_path_eq (entry_path a) (entry_path b) \<and> entry_access a = entry_access b"

section \<open>Which entries reduce a grant of the whole disk\<close>

fun special_path_matches_absolute_path :: "special_path \<Rightarrow> abs_path_buf \<Rightarrow> bool" where
  "special_path_matches_absolute_path Root p \<longleftrightarrow> parent p = None"
| "special_path_matches_absolute_path SlashTmp p \<longleftrightarrow> path_eq p (lit ''/tmp'')"
| "special_path_matches_absolute_path _ _ \<longleftrightarrow> False"

fun file_system_paths_share_target :: "file_system_path \<Rightarrow> file_system_path \<Rightarrow> bool" where
  "file_system_paths_share_target (Path l) (Path r) = path_eq l r"
| "file_system_paths_share_target (Special l) (Special r) = special_path_eq l r"
| "file_system_paths_share_target (Path p) (Special v) = special_path_matches_absolute_path v p"
| "file_system_paths_share_target (Special v) (Path p) = special_path_matches_absolute_path v p"
| "file_system_paths_share_target (GlobPattern l) (GlobPattern r) = (l = r)"
| "file_system_paths_share_target _ _ = False"

definition has_root_access :: "file_system_sandbox_policy \<Rightarrow> (access_mode \<Rightarrow> bool) \<Rightarrow> bool" where
  "has_root_access p predicate \<longleftrightarrow>
     policy_kind p = Restricted \<and>
     list_ex (\<lambda>e. entry_path e = Special Root \<and> predicate (entry_access e)) (policy_entries p)"

definition has_denied_read_restrictions :: "file_system_sandbox_policy \<Rightarrow> bool" where
  "has_denied_read_restrictions p \<longleftrightarrow>
     policy_kind p = Restricted \<and> list_ex (\<lambda>e. entry_access e = NoAccess) (policy_entries p)"

definition has_same_target_write_override :: "file_system_sandbox_policy \<Rightarrow> sandbox_entry \<Rightarrow> bool" where
  "has_same_target_write_override p e \<longleftrightarrow>
     list_ex (\<lambda>c. can_write (entry_access c) \<and> entry_access c > entry_access e \<and>
       file_system_paths_share_target (entry_path c) (entry_path e)) (policy_entries p)"

definition has_write_narrowing_entries :: "file_system_sandbox_policy \<Rightarrow> bool" where
  "has_write_narrowing_entries p \<longleftrightarrow>
     policy_kind p = Restricted \<and>
     list_ex (\<lambda>e.
       \<not> can_write (entry_access e) \<and>
       (case entry_path e of
          Path _ \<Rightarrow> \<not> has_same_target_write_override p e
        | GlobPattern _ \<Rightarrow> True
        | Special Root \<Rightarrow> entry_access e = NoAccess
        | Special Minimal \<Rightarrow> False
        | Special (UnknownSpecial _ _) \<Rightarrow> False
        | Special _ \<Rightarrow> \<not> has_same_target_write_override p e)) (policy_entries p)"

definition has_full_disk_read_access :: "file_system_sandbox_policy \<Rightarrow> bool" where
  "has_full_disk_read_access p =
     (case policy_kind p of
        Restricted \<Rightarrow> has_root_access p can_read \<and> \<not> has_denied_read_restrictions p
      | _ \<Rightarrow> True)"

definition has_full_disk_write_access :: "file_system_sandbox_policy \<Rightarrow> bool" where
  "has_full_disk_write_access p =
     (case policy_kind p of
        Restricted \<Rightarrow> has_root_access p can_write \<and> \<not> has_write_narrowing_entries p
      | _ \<Rightarrow> True)"

definition include_platform_defaults :: "file_system_sandbox_policy \<Rightarrow> bool" where
  "include_platform_defaults p \<longleftrightarrow>
     \<not> has_full_disk_read_access p \<and> policy_kind p = Restricted \<and>
     list_ex (\<lambda>e. entry_path e = Special Minimal \<and> can_read (entry_access e)) (policy_entries p)"

section \<open>Resolving entries and access\<close>

definition env_absolute :: "os_env \<Rightarrow> str \<Rightarrow> abs_path_buf" where
  "env_absolute env p = from_absolute_path (home_dir env) (current_dir env) p"

text \<open>The last ancestor of an absolute path is the root.\<close>

definition absolute_root_path_for_cwd :: "abs_path_buf \<Rightarrow> abs_path_buf" where
  "absolute_root_path_for_cwd cwd = [slash]"

fun resolve_file_system_special_path :: "os_env \<Rightarrow> special_path \<Rightarrow> abs_path_buf \<Rightarrow> abs_path_buf option" where
  "resolve_file_system_special_path env (ProjectRoots (Some subpath)) cwd =
     Some (resolve_path_against_base (home_dir env) subpath cwd)"
| "resolve_file_system_special_path env (ProjectRoots None) cwd = Some cwd"
| "resolve_file_system_special_path env Tmpdir cwd =
     (case tmpdir_var env of
        None \<Rightarrow> None
      | Some tmpdir \<Rightarrow> if tmpdir = [] then None else Some (env_absolute env tmpdir))"
| "resolve_file_system_special_path env SlashTmp cwd =
     (let slash_tmp = env_absolute env (lit ''/tmp'') in if is_dir env slash_tmp then Some slash_tmp else None)"
| "resolve_file_system_special_path env _ cwd = None"

fun resolve_file_system_path :: "os_env \<Rightarrow> file_system_path \<Rightarrow> abs_path_buf \<Rightarrow> abs_path_buf option" where
  "resolve_file_system_path env (Path p) cwd = Some p"
| "resolve_file_system_path env (GlobPattern _) cwd = None"
| "resolve_file_system_path env (Special v) cwd = resolve_file_system_special_path env v cwd"

definition resolve_entry_path :: "os_env \<Rightarrow> file_system_path \<Rightarrow> abs_path_buf \<Rightarrow> abs_path_buf option" where
  "resolve_entry_path env p cwd =
     (if p = Special Root then Some (absolute_root_path_for_cwd cwd) else resolve_file_system_path env p cwd)"

definition resolved_entries_with_cwd ::
  "os_env \<Rightarrow> file_system_sandbox_policy \<Rightarrow> str \<Rightarrow> resolved_entry list" where
  "resolved_entries_with_cwd env p cwd =
     List.map_filter (\<lambda>e. map_option (\<lambda>q. \<lparr>resolved_path = q, resolved_access = entry_access e\<rparr>)
       (resolve_entry_path env (entry_path e) (env_absolute env cwd))) (policy_entries p)"

definition resolve_candidate_path :: "os_env \<Rightarrow> str \<Rightarrow> str \<Rightarrow> abs_path_buf" where
  "resolve_candidate_path env p cwd =
     (if is_absolute p then env_absolute env p else abs_join (home_dir env) (env_absolute env cwd) p)"

definition resolved_entry_precedence :: "resolved_entry \<Rightarrow> nat \<times> access_mode" where
  "resolved_entry_precedence e = (length (components (resolved_path e)), resolved_access e)"

text \<open>\<^verbatim>\<open>Iterator::max_by_key\<close>: the last of the greatest elements.\<close>

fun max_by_key :: "('a \<Rightarrow> 'k :: linorder) \<Rightarrow> 'a list \<Rightarrow> 'a option" where
  "max_by_key f [] = None"
| "max_by_key f (x # xs) =
     (case max_by_key f xs of None \<Rightarrow> Some x | Some y \<Rightarrow> if f x \<le> f y then Some y else Some x)"

definition resolve_access_with_cwd ::
  "os_env \<Rightarrow> file_system_sandbox_policy \<Rightarrow> str \<Rightarrow> str \<Rightarrow> access_mode" where
  "resolve_access_with_cwd env p q cwd =
     (if policy_kind p \<noteq> Restricted then Write
      else
        let q = resolve_candidate_path env q cwd in
        case max_by_key resolved_entry_precedence
            (filter (\<lambda>e. path_starts_with q (resolved_path e)) (resolved_entries_with_cwd env p cwd)) of
          None \<Rightarrow> NoAccess
        | Some e \<Rightarrow> resolved_access e)"

definition can_read_path_with_cwd :: "os_env \<Rightarrow> file_system_sandbox_policy \<Rightarrow> str \<Rightarrow> str \<Rightarrow> bool" where
  "can_read_path_with_cwd env p q cwd = can_read (resolve_access_with_cwd env p q cwd)"

section \<open>Workspace metadata\<close>

definition PROTECTED_METADATA_PATH_NAMES :: "str list" where
  "PROTECTED_METADATA_PATH_NAMES = [lit ''.git'', lit ''.agents'', lit ''.codex'']"

definition is_protected_metadata_name :: "str \<Rightarrow> bool" where
  "is_protected_metadata_name n \<longleftrightarrow> n \<in> set PROTECTED_METADATA_PATH_NAMES"

definition is_protected_metadata_directory_name :: "str \<Rightarrow> bool" where
  "is_protected_metadata_directory_name n \<longleftrightarrow> n = lit ''.agents'' \<or> n = lit ''.codex''"

definition metadata_path_name :: "str \<Rightarrow> str option" where
  "metadata_path_name n = List.find (\<lambda>m. n = m) PROTECTED_METADATA_PATH_NAMES"

fun find_map :: "('a \<Rightarrow> 'b option) \<Rightarrow> 'a list \<Rightarrow> 'b option" where
  "find_map f [] = None"
| "find_map f (x # xs) = (case f x of Some y \<Rightarrow> Some y | None \<Rightarrow> find_map f xs)"

definition metadata_child :: "os_env \<Rightarrow> abs_path_buf \<Rightarrow> resolved_entry \<Rightarrow> (abs_path_buf \<times> str) option" where
  "metadata_child env target e =
     (case path_strip_prefix target (resolved_path e) of
        Some (first_component # _) \<Rightarrow>
          (case metadata_path_name (component_os_str first_component) of
             Some n \<Rightarrow> Some (abs_join (home_dir env) (resolved_path e) n, n)
           | None \<Rightarrow> None)
      | _ \<Rightarrow> None)"

definition metadata_child_of_writable_root ::
  "os_env \<Rightarrow> file_system_sandbox_policy \<Rightarrow> abs_path_buf \<Rightarrow> str \<Rightarrow> (abs_path_buf \<times> str) option" where
  "metadata_child_of_writable_root env p target cwd =
     find_map (metadata_child env target)
       (filter (\<lambda>e. can_write (resolved_access e)) (resolved_entries_with_cwd env p cwd))"

definition has_explicit_write_entry_for_metadata_path ::
  "os_env \<Rightarrow> file_system_sandbox_policy \<Rightarrow> abs_path_buf \<Rightarrow> abs_path_buf \<Rightarrow> str \<Rightarrow> bool" where
  "has_explicit_write_entry_for_metadata_path env p protected_metadata_path target cwd \<longleftrightarrow>
     list_ex (\<lambda>e. can_write (resolved_access e) \<and> path_starts_with target (resolved_path e) \<and>
       path_starts_with (resolved_path e) protected_metadata_path) (resolved_entries_with_cwd env p cwd)"

definition is_metadata_write_denied :: "os_env \<Rightarrow> file_system_sandbox_policy \<Rightarrow> str \<Rightarrow> str \<Rightarrow> bool" where
  "is_metadata_write_denied env p q cwd =
     (if policy_kind p \<noteq> Restricted then False
      else
        let target = resolve_candidate_path env q cwd in
        case metadata_child_of_writable_root env p target cwd of
          None \<Rightarrow> False
        | Some (protected_metadata_path, _) \<Rightarrow>
            \<not> has_explicit_write_entry_for_metadata_path env p protected_metadata_path target cwd)"

definition can_write_path_with_cwd :: "os_env \<Rightarrow> file_system_sandbox_policy \<Rightarrow> str \<Rightarrow> str \<Rightarrow> bool" where
  "can_write_path_with_cwd env p q cwd =
     (if \<not> can_write (resolve_access_with_cwd env p q cwd) then False
      else if has_full_disk_write_access p then True
      else \<not> is_metadata_write_denied env p q cwd)"

definition forbidden_agent_metadata_write ::
  "os_env \<Rightarrow> str \<Rightarrow> str \<Rightarrow> file_system_sandbox_policy \<Rightarrow> str option" where
  "forbidden_agent_metadata_write env q cwd p =
     (if policy_kind p \<noteq> Restricted then None
      else
        let target = resolve_candidate_path env q cwd in
        case metadata_child_of_writable_root env p target cwd of
          None \<Rightarrow> None
        | Some (protected_metadata_path, metadata_name) \<Rightarrow>
            if has_explicit_write_entry_for_metadata_path env p protected_metadata_path target cwd then None
            else if \<not> can_write_path_with_cwd env p target cwd then Some metadata_name
            else None)"

section \<open>Properties of the resolution\<close>

lemma components_root [simp]: "components [slash] = [RootDir]"
  using components_abs_display [of "[]"] by (simp add: abs_display_def)

lemma is_normal_path_root [simp]: "is_normal_path [slash]"
  using is_normal_path_abs_display [of "[]"] by (simp add: abs_display_def)

lemma env_absolute_normal: "is_absolute (current_dir env) \<Longrightarrow> is_normal_path (env_absolute env p)"
  unfolding env_absolute_def from_absolute_path_def absolutize_def absolutize_from_def
  by (metis is_normal_path_abs_display normalize_absolute path_with_base_absolute)

lemma env_absolute_id: "is_normal_path p \<Longrightarrow> env_absolute env p = p"
  unfolding env_absolute_def from_absolute_path_def absolutize_def
  by (metis expand_home_absolute is_normal_pathE is_normal_path_absolute normalize_abs_display)

lemma resolve_candidate_normal:
  "is_absolute (current_dir env) \<Longrightarrow> is_normal_path (resolve_candidate_path env q cwd)"
  by (simp add: resolve_candidate_path_def abs_join_def env_absolute_normal is_normal_path_absolute
      resolve_is_normal_path)

lemma resolve_candidate_id: "is_normal_path q \<Longrightarrow> resolve_candidate_path env q cwd = q"
  by (simp add: resolve_candidate_path_def env_absolute_id is_normal_path_absolute)

lemma max_by_key_None [simp]: "max_by_key f xs = None \<longleftrightarrow> xs = []"
  by (cases xs) (auto split: option.splits)

lemma max_by_key_Some: "max_by_key f xs = Some x \<Longrightarrow> x \<in> set xs \<and> (\<forall>y \<in> set xs. f y \<le> f x)"
  by (induction xs arbitrary: x) (auto split: option.splits if_splits)

lemma find_map_Some: "find_map f xs = Some y \<Longrightarrow> \<exists>x \<in> set xs. f x = Some y"
  by (induction xs) (auto split: option.splits)

lemma find_map_None: "find_map f xs = None \<longleftrightarrow> (\<forall>x \<in> set xs. f x = None)"
  by (induction xs) (auto split: option.splits)

text \<open>The entries that apply to a path, and how specific one is.\<close>

definition covers :: "resolved_entry \<Rightarrow> abs_path_buf \<Rightarrow> bool" where
  "covers e q \<longleftrightarrow> path_starts_with q (resolved_path e)"

definition depth :: "resolved_entry \<Rightarrow> nat" where
  "depth e = length (components (resolved_path e))"

lemma resolve_access_max:
  assumes "policy_kind p = Restricted" "e \<in> set (resolved_entries_with_cwd env p cwd)"
    "covers e (resolve_candidate_path env q cwd)"
  shows "\<exists>m \<in> set (resolved_entries_with_cwd env p cwd). covers m (resolve_candidate_path env q cwd) \<and>
    resolve_access_with_cwd env p q cwd = resolved_access m \<and>
    (\<forall>e \<in> set (resolved_entries_with_cwd env p cwd). covers e (resolve_candidate_path env q cwd) \<longrightarrow>
       (depth e, resolved_access e) \<le> (depth m, resolved_access m))"
proof -
  let ?es = "filter (\<lambda>e. path_starts_with (resolve_candidate_path env q cwd) (resolved_path e))
    (resolved_entries_with_cwd env p cwd)"
  obtain m where m: "max_by_key resolved_entry_precedence ?es = Some m"
    using assms(2,3) by (cases "max_by_key resolved_entry_precedence ?es") (auto simp: filter_empty_conv covers_def)
  from max_by_key_Some [OF m] show ?thesis
    using m assms(1)
    by (auto simp: resolve_access_with_cwd_def Let_def covers_def depth_def resolved_entry_precedence_def
        simp del: less_eq_prod_simp)
qed

lemma resolve_access_none:
  assumes "policy_kind p = Restricted"
    "\<forall>e \<in> set (resolved_entries_with_cwd env p cwd). \<not> covers e (resolve_candidate_path env q cwd)"
  shows "resolve_access_with_cwd env p q cwd = NoAccess"
  using assms by (simp add: resolve_access_with_cwd_def Let_def covers_def filter_False)

lemma access_ge_Write: "Write \<le> a \<longleftrightarrow> a \<noteq> Read"
  and access_le_Write: "a \<le> Write \<longleftrightarrow> a \<noteq> NoAccess"
  and access_le_Read: "a \<le> Read \<longleftrightarrow> a = Read"
  and access_ge_NoAccess: "NoAccess \<le> a \<longleftrightarrow> a = NoAccess"
  by (cases a; simp add: less_eq_access_mode_def access_rank_def)+

lemma precedence_le: "(d, a :: access_mode) \<le> (d', a') \<longleftrightarrow> d < (d' :: nat) \<or> d = d' \<and> a \<le> a'"
  by (auto simp: less_eq_prod_def)

lemma can_read_iff:
  assumes "policy_kind p = Restricted"
  shows "can_read_path_with_cwd env p q cwd \<longleftrightarrow>
      (\<exists>e \<in> set (resolved_entries_with_cwd env p cwd). covers e (resolve_candidate_path env q cwd) \<and>
         resolved_access e \<noteq> NoAccess \<and>
         (\<forall>e' \<in> set (resolved_entries_with_cwd env p cwd). covers e' (resolve_candidate_path env q cwd) \<longrightarrow>
            resolved_access e' = NoAccess \<longrightarrow> depth e' < depth e))"
  (is "?r \<longleftrightarrow> ?R")
proof (cases "\<exists>e \<in> set (resolved_entries_with_cwd env p cwd). covers e (resolve_candidate_path env q cwd)")
  case True
  then obtain m where m: "m \<in> set (resolved_entries_with_cwd env p cwd)"
      "covers m (resolve_candidate_path env q cwd)" "resolve_access_with_cwd env p q cwd = resolved_access m"
    and max: "\<And>e. e \<in> set (resolved_entries_with_cwd env p cwd) \<Longrightarrow>
      covers e (resolve_candidate_path env q cwd) \<Longrightarrow>
      depth e < depth m \<or> depth e = depth m \<and> resolved_access e \<le> resolved_access m"
    using resolve_access_max [OF assms] by (meson precedence_le)
  show ?thesis
  proof
    assume ?r
    then have na: "resolved_access m \<noteq> NoAccess"
      using m(3) by (simp add: can_read_path_with_cwd_def can_read_def)
    have "depth e < depth m" if "e \<in> set (resolved_entries_with_cwd env p cwd)"
      "covers e (resolve_candidate_path env q cwd)" "resolved_access e = NoAccess" for e
      using max [OF that(1,2)] that(3) na by (auto simp: access_ge_NoAccess)
    with m na show ?R by blast
  next
    assume ?R
    then obtain e where "e \<in> set (resolved_entries_with_cwd env p cwd)"
        "covers e (resolve_candidate_path env q cwd)" "resolved_access m = NoAccess \<longrightarrow> depth m < depth e"
      using m(1,2) by blast
    with max [of e] m(3) show ?r by (auto simp: can_read_path_with_cwd_def can_read_def)
  qed
next
  case False
  then have "resolve_access_with_cwd env p q cwd = NoAccess"
    using resolve_access_none [OF assms] by blast
  with False show ?thesis by (auto simp: can_read_path_with_cwd_def can_read_def)
qed

lemma can_write_iff:
  assumes "policy_kind p = Restricted"
  shows "can_write (resolve_access_with_cwd env p q cwd) \<longleftrightarrow>
      (\<exists>e \<in> set (resolved_entries_with_cwd env p cwd). covers e (resolve_candidate_path env q cwd) \<and>
         resolved_access e = Write \<and>
         (\<forall>e' \<in> set (resolved_entries_with_cwd env p cwd). covers e' (resolve_candidate_path env q cwd) \<longrightarrow>
            depth e' < depth e \<or> depth e' = depth e \<and> resolved_access e' \<noteq> NoAccess))"
  (is "?w \<longleftrightarrow> ?W")
proof (cases "\<exists>e \<in> set (resolved_entries_with_cwd env p cwd). covers e (resolve_candidate_path env q cwd)")
  case True
  then obtain m where m: "m \<in> set (resolved_entries_with_cwd env p cwd)"
      "covers m (resolve_candidate_path env q cwd)" "resolve_access_with_cwd env p q cwd = resolved_access m"
    and max: "\<And>e. e \<in> set (resolved_entries_with_cwd env p cwd) \<Longrightarrow>
      covers e (resolve_candidate_path env q cwd) \<Longrightarrow>
      depth e < depth m \<or> depth e = depth m \<and> resolved_access e \<le> resolved_access m"
    using resolve_access_max [OF assms] by (meson precedence_le)
  show ?thesis
  proof
    assume ?w
    with m max show ?W by (intro bexI [of _ m]) (auto simp: can_write_def access_le_Write)
  next
    assume ?W
    then obtain e where "e \<in> set (resolved_entries_with_cwd env p cwd)"
        "covers e (resolve_candidate_path env q cwd)" "resolved_access e = Write"
        "depth m < depth e \<or> depth m = depth e \<and> resolved_access m \<noteq> NoAccess"
      using m(1,2) by blast
    with max [of e] m(3) show ?w by (cases "resolved_access m") (auto simp: can_write_def access_ge_Write)
  qed
next
  case False
  then have "resolve_access_with_cwd env p q cwd = NoAccess"
    using resolve_access_none [OF assms] by blast
  with False show ?thesis by (auto simp: can_write_def)
qed

text \<open>
  C23: in a restricted policy a path may be written (before the protection of metadata) exactly when some
  write entry covers it that is at least as deep as every entry covering it and deeper than every
  deny entry, and it may be read exactly when some read or write entry covers it that is deeper
  than every deny entry covering it.
\<close>

theorem resolve_access_spec:
  assumes "policy_kind p = Restricted"
  shows "(can_write (resolve_access_with_cwd env p q cwd) \<longleftrightarrow>
      (\<exists>e \<in> set (resolved_entries_with_cwd env p cwd). covers e (resolve_candidate_path env q cwd) \<and>
         resolved_access e = Write \<and>
         (\<forall>e' \<in> set (resolved_entries_with_cwd env p cwd). covers e' (resolve_candidate_path env q cwd) \<longrightarrow>
            depth e' < depth e \<or> depth e' = depth e \<and> resolved_access e' \<noteq> NoAccess))) \<and>
    (can_read_path_with_cwd env p q cwd \<longleftrightarrow>
      (\<exists>e \<in> set (resolved_entries_with_cwd env p cwd). covers e (resolve_candidate_path env q cwd) \<and>
         resolved_access e \<noteq> NoAccess \<and>
         (\<forall>e' \<in> set (resolved_entries_with_cwd env p cwd). covers e' (resolve_candidate_path env q cwd) \<longrightarrow>
            resolved_access e' = NoAccess \<longrightarrow> depth e' < depth e)))"
  using can_write_iff [OF assms] can_read_iff [OF assms] by (rule conjI)

text \<open>A concrete environment and policy for the witnesses: no symbolic links, no \<^verbatim>\<open>TMPDIR\<close>.\<close>

definition sample_env :: os_env where
  "sample_env = \<lparr>home_dir = None, current_dir = [slash], tmpdir_var = None, is_dir = (\<lambda>_. False),
     is_file = (\<lambda>_. False), path_exists = (\<lambda>_. False), read_to_string = (\<lambda>_. None),
     canonicalize = (\<lambda>_. None), symlink_metadata = (\<lambda>_. None)\<rparr>"

definition sample_policy :: file_system_sandbox_policy where
  "sample_policy = restricted [entry (Special Root) Read, entry (Path (abs_display [lit ''w''])) Write,
     entry (Path (abs_display [lit ''w'', lit ''s''])) NoAccess]"

lemmas sandbox_eval = sample_env_def sample_policy_def restricted_def entry_def
  resolved_entries_with_cwd_def resolve_entry_path_def List.map_filter_def
  absolute_root_path_for_cwd_def resolve_candidate_id resolve_access_with_cwd_def
  path_starts_with_def starts_with_def strip_prefix_def covers_def depth_def components_abs_display
  components_root valid_name_lit can_write_def can_read_def

theorem resolve_access_spec_witness:
  "can_write (resolve_access_with_cwd sample_env sample_policy (abs_display [lit ''w'', lit ''a'']) [slash]) \<and>
   \<not> can_read_path_with_cwd sample_env sample_policy (abs_display [lit ''w'', lit ''s'', lit ''a'']) [slash]"
proof -
  have "policy_kind sample_policy = Restricted" by (simp add: sample_policy_def restricted_def)
  note spec = resolve_access_spec [OF this]
  show ?thesis
    unfolding conjunct1 [OF spec] conjunct2 [OF spec]
    by (simp add: sandbox_eval)
qed

section \<open>Protection of metadata\<close>

lemma can_write_path_candidate:
  assumes "is_absolute (current_dir env)"
  shows "can_write_path_with_cwd env p (resolve_candidate_path env q cwd) cwd =
    can_write_path_with_cwd env p q cwd"
  by (simp add: can_write_path_with_cwd_def resolve_access_with_cwd_def is_metadata_write_denied_def
      resolve_candidate_id resolve_candidate_normal assms)

text \<open>
  In a restricted policy that does not grant the whole disk, a path below a metadata directory of a
  writable root can be written only when some write entry at or below such a metadata directory
  covers it; and the check before execution never reports a path that can be written.
\<close>

theorem metadata_write_needs_explicit_entry:
  assumes "is_absolute (current_dir env)" "policy_kind p = Restricted" "\<not> has_full_disk_write_access p"
    and "can_write_path_with_cwd env p q cwd"
    and "e \<in> set (resolved_entries_with_cwd env p cwd)" "resolved_access e = Write"
    and "metadata_child env (resolve_candidate_path env q cwd) e = Some (metadata, n)"
  shows "(\<exists>e0 m0 n0 e1. {e0, e1} \<subseteq> set (resolved_entries_with_cwd env p cwd) \<and>
      resolved_access e0 = Write \<and> resolved_access e1 = Write \<and>
      metadata_child env (resolve_candidate_path env q cwd) e0 = Some (m0, n0) \<and>
      path_starts_with (resolved_path e1) m0 \<and>
      path_starts_with (resolve_candidate_path env q cwd) (resolved_path e1)) \<and>
    forbidden_agent_metadata_write env q cwd p = None"
proof -
  let ?t = "resolve_candidate_path env q cwd"
  let ?ws = "filter (\<lambda>e. can_write (resolved_access e)) (resolved_entries_with_cwd env p cwd)"
  obtain m0 n0 where c: "metadata_child_of_writable_root env p ?t cwd = Some (m0, n0)"
    using assms(5,6,7) find_map_None [of "metadata_child env ?t" ?ws]
    by (cases "metadata_child_of_writable_root env p ?t cwd")
      (auto simp: metadata_child_of_writable_root_def can_write_def)
  obtain e0 where e0: "e0 \<in> set ?ws" "metadata_child env ?t e0 = Some (m0, n0)"
    using find_map_Some c unfolding metadata_child_of_writable_root_def by metis
  have x: "has_explicit_write_entry_for_metadata_path env p m0 ?t cwd"
    using assms(2,3,4) c
    by (auto simp: can_write_path_with_cwd_def is_metadata_write_denied_def split: if_splits)
  then obtain e1 where "e1 \<in> set (resolved_entries_with_cwd env p cwd)" "resolved_access e1 = Write"
      "path_starts_with ?t (resolved_path e1)" "path_starts_with (resolved_path e1) m0"
    by (auto simp: has_explicit_write_entry_for_metadata_path_def list_ex_iff can_write_def)
  moreover have "forbidden_agent_metadata_write env q cwd p = None"
    using x c by (simp add: forbidden_agent_metadata_write_def)
  ultimately show ?thesis
    using e0 by (auto simp: can_write_def)
qed

definition nested_roots :: "sandbox_entry list" where
  "nested_roots = [entry (Path (abs_display [lit ''a''])) Write,
     entry (Path (abs_display [lit ''a'', lit ''.codex'', lit ''b''])) Write]"

definition nested_git :: abs_path_buf where
  "nested_git = abs_display [lit ''a'', lit ''.codex'', lit ''b'', lit ''.git'', lit ''c'']"

lemmas metadata_eval = nested_roots_def nested_git_def resolved_entry_precedence_def
  can_write_path_with_cwd_def is_metadata_write_denied_def metadata_child_of_writable_root_def
  metadata_child_def path_strip_prefix_def metadata_path_name_def component_os_str_def
  PROTECTED_METADATA_PATH_NAMES_def has_explicit_write_entry_for_metadata_path_def
  has_full_disk_write_access_def has_root_access_def abs_join_name

theorem metadata_write_needs_explicit_entry_witness:
  "forbidden_agent_metadata_write sample_env nested_git [slash] (restricted nested_roots) = None"
proof -
  let ?p = "restricted nested_roots"
  let ?e = "\<lparr>resolved_path = abs_display [lit ''a''], resolved_access = Write\<rparr>"
  have "can_write_path_with_cwd sample_env ?p nested_git [slash]" "policy_kind ?p = Restricted"
    "\<not> has_full_disk_write_access ?p" "?e \<in> set (resolved_entries_with_cwd sample_env ?p [slash])"
    by (simp_all add: sandbox_eval metadata_eval)
  moreover have "metadata_child sample_env (resolve_candidate_path sample_env nested_git [slash]) ?e =
      Some (abs_display [lit ''a'', lit ''.codex''], lit ''.codex'')" "is_absolute (current_dir sample_env)"
    by (simp_all add: sandbox_eval metadata_eval)
  ultimately show ?thesis
    using metadata_write_needs_explicit_entry [of sample_env ?p nested_git "[slash]" ?e] by simp
qed

text \<open>
  Which metadata directory protects a path depends on the order of the entries: with a root nested
  below the metadata of another, the \<^verbatim>\<open>.git\<close> of the inner root is protected only when it comes first.
\<close>

lemma metadata_protection_depends_on_order:
  "can_write_path_with_cwd sample_env (restricted nested_roots) nested_git [slash] \<and>
   \<not> can_write_path_with_cwd sample_env (restricted (rev nested_roots)) nested_git [slash]"
  by (simp add: sandbox_eval metadata_eval)

end
