(* ===== verification/Sandbox_Roots.thy ===== *)
theory Sandbox_Roots
  imports Sandbox_Policy
begin

text \<open>
  The operations of \<^verbatim>\<open>permissions.rs\<close> that build policies and derive what a platform sandbox is given:
  default read-only paths, merging of deny entries, readable, writable and unreadable roots, the
  matcher of denied reads, and the conversion from and to the legacy \<^verbatim>\<open>SandboxPolicy\<close>; and the
  permission profiles of \<^verbatim>\<open>models.rs\<close>. Compiled globs are a parameter.
\<close>

section \<open>Paths of the operating system\<close>

definition path_of_components :: "component list \<Rightarrow> str" where
  "path_of_components cs = join [slash] (map component_os_str cs)"

text \<open>\<^verbatim>\<open>Path::ancestors\<close> of an absolute, normalised path: itself first, the root last.\<close>

definition ancestors :: "abs_path_buf \<Rightarrow> abs_path_buf list" where
  "ancestors p = map (\<lambda>k. abs_display (take k (abs_names p))) (rev [0..<Suc (length (abs_names p))])"

definition should_preserve_logical_path :: "os_env \<Rightarrow> abs_path_buf \<Rightarrow> bool" where
  "should_preserve_logical_path env logical \<longleftrightarrow>
     list_ex (\<lambda>a. symlink_metadata env a = Some True \<and>
       (case parent a of None \<Rightarrow> False | Some q \<Rightarrow> parent q \<noteq> None)) (ancestors logical)"

definition canonicalize_preserving_symlinks :: "os_env \<Rightarrow> str \<Rightarrow> str" where
  "canonicalize_preserving_symlinks env p =
     (let logical = env_absolute env p in
      case canonicalize env p of
        Some canonical \<Rightarrow>
          if should_preserve_logical_path env logical \<and> \<not> path_eq canonical logical then logical
          else canonical
      | None \<Rightarrow> logical)"

definition normalize_effective_absolute_path :: "os_env \<Rightarrow> abs_path_buf \<Rightarrow> abs_path_buf" where
  "normalize_effective_absolute_path env p =
     (case find_map (\<lambda>ancestor.
          if symlink_metadata env ancestor = None then None
          else case path_strip_prefix p ancestor of
            None \<Rightarrow> None
          | Some suffix_components \<Rightarrow>
              Some (env_absolute env (path_join (canonicalize_preserving_symlinks env ancestor)
                (path_of_components suffix_components)))) (ancestors p) of
        Some q \<Rightarrow> q
      | None \<Rightarrow> p)"

definition push_unique :: "str list \<Rightarrow> str \<Rightarrow> str list" where
  "push_unique candidates c = (if list_ex (\<lambda>e. path_eq e c) candidates then candidates else candidates @ [c])"

definition normalized_and_canonical_candidates :: "os_env \<Rightarrow> str \<Rightarrow> str list" where
  "normalized_and_canonical_candidates env p =
     (let candidates = push_unique [] (env_absolute env p) in
      case canonicalize env p of
        Some canonical \<Rightarrow> push_unique candidates (env_absolute env canonical)
      | None \<Rightarrow> candidates)"

fun dedup_from :: "str list \<Rightarrow> str list \<Rightarrow> str list" where
  "dedup_from seen [] = []"
| "dedup_from seen (p # ps) =
     (if list_ex (\<lambda>q. path_eq q p) seen then dedup_from seen ps else p # dedup_from (p # seen) ps)"

definition dedup_absolute_paths :: "os_env \<Rightarrow> str list \<Rightarrow> bool \<Rightarrow> str list" where
  "dedup_absolute_paths env paths normalize_effective_paths =
     dedup_from [] (if normalize_effective_paths then map (normalize_effective_absolute_path env) paths else paths)"

section \<open>Default read-only paths\<close>

definition is_git_pointer_file :: "os_env \<Rightarrow> abs_path_buf \<Rightarrow> bool" where
  "is_git_pointer_file env p \<longleftrightarrow> is_file env p \<and> path_file_name p = Some (lit ''.git'')"

definition split_once :: "uchar \<Rightarrow> str \<Rightarrow> (str \<times> str) option" where
  "split_once c s =
     (if c \<in> set s then Some (takeWhile (\<lambda>x. x \<noteq> c) s, tl (dropWhile (\<lambda>x. x \<noteq> c) s)) else None)"

definition resolve_gitdir_from_file :: "os_env \<Rightarrow> abs_path_buf \<Rightarrow> abs_path_buf option" where
  "resolve_gitdir_from_file env dot_git =
     (case read_to_string env dot_git of
        None \<Rightarrow> None
      | Some contents \<Rightarrow>
          (case split_once 58 (trim contents) of
             None \<Rightarrow> None
           | Some (pre, raw) \<Rightarrow>
               if trim pre \<noteq> lit ''gitdir'' then None
               else
                 let gitdir_raw = trim raw in
                 if gitdir_raw = [] then None
                 else case parent dot_git of
                   None \<Rightarrow> None
                 | Some base \<Rightarrow>
                     let gitdir_path = resolve_path_against_base (home_dir env) gitdir_raw base in
                     if path_exists env gitdir_path then Some gitdir_path else None))"

definition default_read_only_subpaths_for_writable_root :: "os_env \<Rightarrow> abs_path_buf \<Rightarrow> bool \<Rightarrow> abs_path_buf list" where
  "default_read_only_subpaths_for_writable_root env root protect_missing_dot_codex =
     (let top_level_git = abs_join (home_dir env) root (lit ''.git'');
          top_level_agents = abs_join (home_dir env) root (lit ''.agents'');
          top_level_codex = abs_join (home_dir env) root (lit ''.codex'');
          git =
            (if is_dir env top_level_git \<or> is_file env top_level_git then
               (if is_file env top_level_git \<and> is_git_pointer_file env top_level_git then
                  (case resolve_gitdir_from_file env top_level_git of Some gitdir \<Rightarrow> [gitdir] | None \<Rightarrow> [])
                else []) @ [top_level_git]
             else []);
          agents = (if is_dir env top_level_agents then [top_level_agents] else []);
          codex = (if protect_missing_dot_codex \<or> is_dir env top_level_codex then [top_level_codex] else [])
      in dedup_absolute_paths env (git @ agents @ codex) False)"

definition append_default_read_only_entry_if_no_explicit_rule ::
  "sandbox_entry list \<Rightarrow> file_system_path \<Rightarrow> sandbox_entry list" where
  "append_default_read_only_entry_if_no_explicit_rule es p =
     (if list_ex (\<lambda>e. file_system_paths_share_target (entry_path e) p) es then es else es @ [entry p Read])"

definition append_default_read_only_path_if_no_explicit_rule ::
  "sandbox_entry list \<Rightarrow> abs_path_buf \<Rightarrow> sandbox_entry list" where
  "append_default_read_only_path_if_no_explicit_rule es p =
     append_default_read_only_entry_if_no_explicit_rule es (Path p)"

definition append_default_read_only_project_root_subpath_if_no_explicit_rule ::
  "sandbox_entry list \<Rightarrow> str \<Rightarrow> sandbox_entry list" where
  "append_default_read_only_project_root_subpath_if_no_explicit_rule es subpath =
     append_default_read_only_entry_if_no_explicit_rule es (Special (ProjectRoots (Some subpath)))"

definition protect_root :: "os_env \<Rightarrow> bool \<Rightarrow> sandbox_entry list \<Rightarrow> abs_path_buf \<Rightarrow> sandbox_entry list" where
  "protect_root env protect_missing_dot_codex es root =
     foldl append_default_read_only_path_if_no_explicit_rule es
       (default_read_only_subpaths_for_writable_root env root protect_missing_dot_codex)"

text \<open>The grants of \<^verbatim>\<open>WorkspaceWrite\<close>, before the read-only paths are appended.\<close>

definition workspace_grants :: "abs_path_buf list \<Rightarrow> bool \<Rightarrow> bool \<Rightarrow> sandbox_entry list" where
  "workspace_grants writable_roots excl_tmpdir excl_slash_tmp =
     [entry (Special Root) Read, entry (Special (ProjectRoots None)) Write] @
     (if excl_slash_tmp then [] else [entry (Special SlashTmp) Write]) @
     (if excl_tmpdir then [] else [entry (Special Tmpdir) Write]) @
     map (\<lambda>p. entry (Path p) Write) writable_roots"

definition workspace_write :: "os_env \<Rightarrow> abs_path_buf list \<Rightarrow> bool \<Rightarrow> bool \<Rightarrow> file_system_sandbox_policy" where
  "workspace_write env writable_roots excl_tmpdir excl_slash_tmp =
     restricted (foldl (protect_root env False)
       (foldl append_default_read_only_project_root_subpath_if_no_explicit_rule
          (workspace_grants writable_roots excl_tmpdir excl_slash_tmp)
          [lit ''.git'', lit ''.agents'', lit ''.codex'']) writable_roots)"

section \<open>Building policies\<close>

fun from_legacy :: "os_env \<Rightarrow> legacy_sandbox_policy \<Rightarrow> file_system_sandbox_policy" where
  "from_legacy env DangerFullAccess = unrestricted"
| "from_legacy env (ExternalSandboxPolicy _) = external_sandbox"
| "from_legacy env (ReadOnly _) = restricted [entry (Special Root) Read]"
| "from_legacy env (WorkspaceWrite roots _ excl_tmpdir excl_slash_tmp) =
     workspace_write env roots excl_tmpdir excl_slash_tmp"

fun from_legacy_sandbox_policy_for_cwd ::
  "os_env \<Rightarrow> legacy_sandbox_policy \<Rightarrow> str \<Rightarrow> file_system_sandbox_policy" where
  "from_legacy_sandbox_policy_for_cwd env (WorkspaceWrite roots net excl_tmpdir excl_slash_tmp) cwd =
     (let p = from_legacy env (WorkspaceWrite roots net excl_tmpdir excl_slash_tmp)
      in p\<lparr>policy_entries := foldl (protect_root env False)
            (protect_root env True (policy_entries p) (env_absolute env cwd)) roots\<rparr>)"
| "from_legacy_sandbox_policy_for_cwd env sp cwd = from_legacy env sp"

definition legacy_runtime_file_system_policy_for_cwd ::
  "os_env \<Rightarrow> legacy_sandbox_policy \<Rightarrow> str \<Rightarrow> file_system_sandbox_policy" where
  "legacy_runtime_file_system_policy_for_cwd env sp cwd =
     (case sp of
        WorkspaceWrite roots _ excl_tmpdir excl_slash_tmp \<Rightarrow>
          restricted (foldl (protect_root env False)
            (protect_root env True (workspace_grants roots excl_tmpdir excl_slash_tmp) (env_absolute env cwd))
            roots)
      | _ \<Rightarrow> from_legacy env sp)"

definition push_missing :: "sandbox_entry list \<Rightarrow> sandbox_entry \<Rightarrow> sandbox_entry list" where
  "push_missing es d = (if list_ex (\<lambda>e. entry_eq e d) es then es else es @ [d])"

definition deny_entries :: "file_system_sandbox_policy \<Rightarrow> sandbox_entry list" where
  "deny_entries p = filter (\<lambda>e. entry_access e = NoAccess) (policy_entries p)"

definition from_legacy_sandbox_policy_preserving_deny_entries ::
  "os_env \<Rightarrow> legacy_sandbox_policy \<Rightarrow> str \<Rightarrow> file_system_sandbox_policy \<Rightarrow> file_system_sandbox_policy" where
  "from_legacy_sandbox_policy_preserving_deny_entries env sp cwd existing =
     (let rebuilt = from_legacy_sandbox_policy_for_cwd env sp cwd in
      if policy_kind rebuilt \<noteq> Restricted then rebuilt
      else rebuilt\<lparr>glob_scan_max_depth := glob_scan_max_depth existing,
        policy_entries := foldl push_missing (policy_entries rebuilt) (deny_entries existing)\<rparr>)"

definition preserve_deny_read_restrictions_from ::
  "file_system_sandbox_policy \<Rightarrow> file_system_sandbox_policy \<Rightarrow> file_system_sandbox_policy" where
  "preserve_deny_read_restrictions_from p existing =
     (let p1 = (if policy_kind p = Unrestricted \<and> deny_entries existing \<noteq> []
                then restricted [entry (Special Root) Write] else p)
      in if policy_kind p1 \<noteq> Restricted then p1
         else p1\<lparr>glob_scan_max_depth :=
                  (if glob_scan_max_depth p1 = None then glob_scan_max_depth existing else glob_scan_max_depth p1),
                policy_entries := foldl push_missing (policy_entries p1) (deny_entries existing)\<rparr>)"

definition materialize_project_roots_with_cwd ::
  "os_env \<Rightarrow> file_system_sandbox_policy \<Rightarrow> str \<Rightarrow> file_system_sandbox_policy" where
  "materialize_project_roots_with_cwd env p cwd =
     p\<lparr>policy_entries := map (\<lambda>e.
        case entry_path e of
          Special (ProjectRoots _) \<Rightarrow>
            (case resolve_file_system_path env (entry_path e) (env_absolute env cwd) of
               Some q \<Rightarrow> e\<lparr>entry_path := Path q\<rparr>
             | None \<Rightarrow> e)
        | _ \<Rightarrow> e) (policy_entries p)\<rparr>"

definition add_readable :: "os_env \<Rightarrow> str \<Rightarrow> file_system_sandbox_policy \<Rightarrow> abs_path_buf \<Rightarrow> file_system_sandbox_policy" where
  "add_readable env cwd p q =
     (if can_read_path_with_cwd env p q cwd then p
      else p\<lparr>policy_entries := policy_entries p @ [entry (Path q) Read]\<rparr>)"

definition with_additional_readable_roots ::
  "os_env \<Rightarrow> file_system_sandbox_policy \<Rightarrow> str \<Rightarrow> abs_path_buf list \<Rightarrow> file_system_sandbox_policy" where
  "with_additional_readable_roots env p cwd additional =
     (if has_full_disk_read_access p then p else foldl (add_readable env cwd) p additional)"

definition add_writable :: "os_env \<Rightarrow> str \<Rightarrow> file_system_sandbox_policy \<Rightarrow> abs_path_buf \<Rightarrow> file_system_sandbox_policy" where
  "add_writable env cwd p q =
     (if can_write_path_with_cwd env p q cwd then p
      else p\<lparr>policy_entries := policy_entries p @ [entry (Path q) Write]\<rparr>)"

definition with_additional_writable_roots ::
  "os_env \<Rightarrow> file_system_sandbox_policy \<Rightarrow> str \<Rightarrow> abs_path_buf list \<Rightarrow> file_system_sandbox_policy" where
  "with_additional_writable_roots env p cwd additional = foldl (add_writable env cwd) p additional"

definition add_legacy_root :: "os_env \<Rightarrow> sandbox_entry list \<Rightarrow> abs_path_buf \<Rightarrow> sandbox_entry list" where
  "add_legacy_root env es q =
     protect_root env False
       (if list_ex (\<lambda>e. can_write (entry_access e) \<and>
             (case entry_path e of Path existing \<Rightarrow> path_eq existing q | _ \<Rightarrow> False)) es
        then es else es @ [entry (Path q) Write]) q"

definition with_additional_legacy_workspace_writable_roots ::
  "os_env \<Rightarrow> file_system_sandbox_policy \<Rightarrow> abs_path_buf list \<Rightarrow> file_system_sandbox_policy" where
  "with_additional_legacy_workspace_writable_roots env p additional =
     (if policy_kind p \<noteq> Restricted then p
      else p\<lparr>policy_entries := foldl (add_legacy_root env) (policy_entries p) additional\<rparr>)"

section \<open>Roots\<close>

definition get_readable_roots_with_cwd :: "os_env \<Rightarrow> file_system_sandbox_policy \<Rightarrow> str \<Rightarrow> abs_path_buf list" where
  "get_readable_roots_with_cwd env p cwd =
     (if has_full_disk_read_access p then []
      else dedup_absolute_paths env
        (map resolved_path
          (filter (\<lambda>e. can_read_path_with_cwd env p (resolved_path e) cwd)
            (filter (\<lambda>e. can_read (resolved_access e)) (resolved_entries_with_cwd env p cwd)))) True)"

definition protected_metadata_names_for_writable_root ::
  "os_env \<Rightarrow> file_system_sandbox_policy \<Rightarrow> abs_path_buf \<Rightarrow> abs_path_buf list \<Rightarrow> str \<Rightarrow> str list" where
  "protected_metadata_names_for_writable_root env p root raw_writable_roots cwd =
     filter (\<lambda>n. list_all (\<lambda>q. \<not> can_write_path_with_cwd env p q cwd)
       (map (\<lambda>r. abs_join (home_dir env) r n) (root # raw_writable_roots))) PROTECTED_METADATA_PATH_NAMES"

definition raw_carveout_path ::
  "os_env \<Rightarrow> abs_path_buf \<Rightarrow> abs_path_buf list \<Rightarrow> abs_path_buf \<Rightarrow> abs_path_buf option" where
  "raw_carveout_path env root raw_writable_roots q =
     (if parent root = None then None
      else if path_eq q root then None
      else if path_starts_with q root then Some q
      else find_map (\<lambda>raw_root.
        case path_strip_prefix q raw_root of
          None \<Rightarrow> None
        | Some suffix_components \<Rightarrow>
            if path_of_components suffix_components = [] then None
            else Some (abs_join (home_dir env) root (path_of_components suffix_components)))
        raw_writable_roots)"

definition carveout ::
  "os_env \<Rightarrow> abs_path_buf \<Rightarrow> abs_path_buf list \<Rightarrow> abs_path_buf \<Rightarrow> abs_path_buf option" where
  "carveout env root raw_writable_roots q =
     (case raw_carveout_path env root raw_writable_roots q of
        Some c \<Rightarrow> Some c
      | None \<Rightarrow>
          let effective_path = normalize_effective_absolute_path env q in
          if path_eq effective_path root \<or> \<not> path_starts_with effective_path root then None
          else Some effective_path)"

definition writable_paths :: "os_env \<Rightarrow> file_system_sandbox_policy \<Rightarrow> str \<Rightarrow> abs_path_buf list" where
  "writable_paths env p cwd =
     map resolved_path
       (filter (\<lambda>e. can_write_path_with_cwd env p (resolved_path e) cwd)
         (filter (\<lambda>e. can_write (resolved_access e)) (resolved_entries_with_cwd env p cwd)))"

definition read_only_paths :: "os_env \<Rightarrow> file_system_sandbox_policy \<Rightarrow> str \<Rightarrow> abs_path_buf list" where
  "read_only_paths env p cwd =
     map resolved_path
       (filter (\<lambda>e. \<not> can_write_path_with_cwd env p (resolved_path e) cwd)
         (filter (\<lambda>e. \<not> can_write (resolved_access e)) (resolved_entries_with_cwd env p cwd)))"

definition make_writable_root ::
  "os_env \<Rightarrow> file_system_sandbox_policy \<Rightarrow> str \<Rightarrow> abs_path_buf \<Rightarrow> writable_root" where
  "make_writable_root env p cwd root =
     (let raw_writable_roots =
            filter (\<lambda>q. path_eq (normalize_effective_absolute_path env q) root) (writable_paths env p cwd);
          protect_missing_dot_codex =
            path_eq (normalize_effective_absolute_path env (env_absolute env cwd)) root;
          subpaths =
            filter (\<lambda>q. \<not> list_ex (\<lambda>e. path_eq (resolved_path e) q) (resolved_entries_with_cwd env p cwd))
              (default_read_only_subpaths_for_writable_root env root protect_missing_dot_codex)
      in \<lparr>root_path = root,
          read_only_subpaths = dedup_absolute_paths env
            (subpaths @ List.map_filter (carveout env root raw_writable_roots) (read_only_paths env p cwd)) False,
          protected_metadata_names =
            protected_metadata_names_for_writable_root env p root raw_writable_roots cwd\<rparr>)"

definition get_writable_roots_with_cwd ::
  "os_env \<Rightarrow> file_system_sandbox_policy \<Rightarrow> str \<Rightarrow> writable_root list" where
  "get_writable_roots_with_cwd env p cwd =
     (if has_full_disk_write_access p then []
      else map (make_writable_root env p cwd) (dedup_absolute_paths env (writable_paths env p cwd) True))"

definition get_unreadable_roots_with_cwd :: "os_env \<Rightarrow> file_system_sandbox_policy \<Rightarrow> str \<Rightarrow> abs_path_buf list" where
  "get_unreadable_roots_with_cwd env p cwd =
     (if policy_kind p \<noteq> Restricted then []
      else dedup_absolute_paths env
        (map resolved_path
          (filter (\<lambda>e. \<not> path_eq (resolved_path e) (absolute_root_path_for_cwd (env_absolute env cwd)))
            (filter (\<lambda>e. \<not> can_read_path_with_cwd env p (resolved_path e) cwd)
              (filter (\<lambda>e. resolved_access e = NoAccess) (resolved_entries_with_cwd env p cwd))))) True)"

definition get_unreadable_globs_with_cwd :: "os_env \<Rightarrow> file_system_sandbox_policy \<Rightarrow> str \<Rightarrow> str list" where
  "get_unreadable_globs_with_cwd env p cwd =
     (if policy_kind p \<noteq> Restricted then []
      else remdups_adj (sort (List.map_filter (\<lambda>e.
        case entry_path e of
          GlobPattern pattern \<Rightarrow> Some (resolve_path_against_base (home_dir env) pattern cwd)
        | _ \<Rightarrow> None) (deny_entries p))))"

text \<open>\<^verbatim>\<open>WritableRoot::is_path_writable\<close>: what a platform sandbox allows below one root.\<close>

definition path_contains_protected_metadata_name :: "writable_root \<Rightarrow> str \<Rightarrow> bool" where
  "path_contains_protected_metadata_name w q \<longleftrightarrow>
     (case path_strip_prefix q (root_path w) of
        Some (first_component # _) \<Rightarrow> component_os_str first_component \<in> set (protected_metadata_names w)
      | _ \<Rightarrow> False)"

definition is_path_writable :: "writable_root \<Rightarrow> str \<Rightarrow> bool" where
  "is_path_writable w q \<longleftrightarrow>
     path_starts_with q (root_path w) \<and>
     \<not> list_ex (\<lambda>s. path_starts_with q s) (read_only_subpaths w) \<and>
     \<not> path_contains_protected_metadata_name w q"

section \<open>Denied reads\<close>

text \<open>Compiling a glob may fail; a compiled glob tests a path.\<close>

type_synonym glob_builder = "str \<Rightarrow> (str \<Rightarrow> bool) option"

record read_deny_matcher =
  denied_candidates :: "str list list"
  deny_read_matchers :: "(str \<Rightarrow> bool) list"
  invalid_pattern :: bool

definition new_read_deny_matcher ::
  "glob_builder \<Rightarrow> os_env \<Rightarrow> file_system_sandbox_policy \<Rightarrow> str \<Rightarrow> read_deny_matcher option" where
  "new_read_deny_matcher build env p cwd =
     (if \<not> has_denied_read_restrictions p then None
      else
        let globs = get_unreadable_globs_with_cwd env p cwd in
        Some \<lparr>denied_candidates =
                map (normalized_and_canonical_candidates env) (get_unreadable_roots_with_cwd env p cwd),
              deny_read_matchers = List.map_filter build globs,
              invalid_pattern = list_ex (\<lambda>g. build g = None) globs\<rparr>)"

definition is_read_denied :: "os_env \<Rightarrow> read_deny_matcher \<Rightarrow> str \<Rightarrow> bool" where
  "is_read_denied env m q \<longleftrightarrow>
     (if invalid_pattern m then True
      else
        let candidates = normalized_and_canonical_candidates env q in
        list_ex (\<lambda>denied. list_ex (\<lambda>c. list_ex (\<lambda>d. path_eq c d \<or> path_starts_with c d) denied) candidates)
          (denied_candidates m) \<or>
        list_ex (\<lambda>matcher. list_ex matcher candidates) (deny_read_matchers m))"

section \<open>The legacy policy\<close>

record legacy_scan =
  workspace_root_writable :: bool
  scanned_roots :: "abs_path_buf list"
  tmpdir_writable :: bool
  slash_tmp_writable :: bool
  unbridgeable_root_write :: bool

definition scan_entry :: "os_env \<Rightarrow> abs_path_buf \<Rightarrow> sandbox_entry \<Rightarrow> legacy_scan \<Rightarrow> legacy_scan" where
  "scan_entry env cwd e st =
     (if \<not> can_write (entry_access e) then st
      else case entry_path e of
        GlobPattern _ \<Rightarrow> st
      | Path p \<Rightarrow>
          if path_eq cwd p then st\<lparr>workspace_root_writable := True\<rparr>
          else st\<lparr>scanned_roots := scanned_roots st @ [p]\<rparr>
      | Special v \<Rightarrow>
          (case v of
             Root \<Rightarrow> st\<lparr>unbridgeable_root_write := True\<rparr>
           | Minimal \<Rightarrow> st
           | ProjectRoots None \<Rightarrow> st\<lparr>workspace_root_writable := True\<rparr>
           | ProjectRoots (Some _) \<Rightarrow>
               (case resolve_file_system_special_path env v cwd of
                  Some p \<Rightarrow> st\<lparr>scanned_roots := scanned_roots st @ [p]\<rparr>
                | None \<Rightarrow> st)
           | Tmpdir \<Rightarrow> st\<lparr>tmpdir_writable := True\<rparr>
           | SlashTmp \<Rightarrow> st\<lparr>slash_tmp_writable := True\<rparr>
           | UnknownSpecial _ _ \<Rightarrow> st))"

definition scan_entries :: "os_env \<Rightarrow> abs_path_buf \<Rightarrow> sandbox_entry list \<Rightarrow> legacy_scan" where
  "scan_entries env cwd es = fold (scan_entry env cwd) es
     \<lparr>workspace_root_writable = False, scanned_roots = [], tmpdir_writable = False,
      slash_tmp_writable = False, unbridgeable_root_write = False\<rparr>"

definition unrestricted_legacy :: "network_sandbox_policy \<Rightarrow> legacy_sandbox_policy" where
  "unrestricted_legacy net =
     (if network_is_enabled net then DangerFullAccess else ExternalSandboxPolicy AccessRestricted)"

text \<open>\<^verbatim>\<open>None\<close> is the error that such writes cannot be expressed.\<close>

definition to_legacy_sandbox_policy ::
  "os_env \<Rightarrow> file_system_sandbox_policy \<Rightarrow> network_sandbox_policy \<Rightarrow> str \<Rightarrow> legacy_sandbox_policy option" where
  "to_legacy_sandbox_policy env p net cwd =
     (case policy_kind p of
        ExternalSandbox \<Rightarrow>
          Some (ExternalSandboxPolicy (if network_is_enabled net then AccessEnabled else AccessRestricted))
      | Unrestricted \<Rightarrow> Some (unrestricted_legacy net)
      | Restricted \<Rightarrow>
          let st = scan_entries env (env_absolute env cwd) (policy_entries p) in
          if has_full_disk_write_access p then Some (unrestricted_legacy net)
          else if workspace_root_writable st then
            Some (WorkspaceWrite (dedup_absolute_paths env (scanned_roots st) False) (network_is_enabled net)
              (\<not> tmpdir_writable st) (\<not> slash_tmp_writable st))
          else if unbridgeable_root_write st \<or> scanned_roots st \<noteq> [] \<or> tmpdir_writable st \<or> slash_tmp_writable st
          then None
          else Some (ReadOnly (network_is_enabled net)))"


text \<open>\<^verbatim>\<open>SandboxPolicy\<close>: its network access and writable roots.\<close>

fun has_full_network_access :: "legacy_sandbox_policy \<Rightarrow> bool" where
  "has_full_network_access DangerFullAccess = True"
| "has_full_network_access (ExternalSandboxPolicy a) = (a = AccessEnabled)"
| "has_full_network_access (ReadOnly net) = net"
| "has_full_network_access (WorkspaceWrite _ net _ _) = net"

definition network_of_legacy :: "legacy_sandbox_policy \<Rightarrow> network_sandbox_policy" where
  "network_of_legacy sp = (if has_full_network_access sp then NetworkEnabled else NetworkRestricted)"

fun legacy_has_full_disk_write_access :: "legacy_sandbox_policy \<Rightarrow> bool" where
  "legacy_has_full_disk_write_access DangerFullAccess = True"
| "legacy_has_full_disk_write_access (ExternalSandboxPolicy _) = True"
| "legacy_has_full_disk_write_access _ = False"

fun legacy_writable_roots_with_cwd :: "os_env \<Rightarrow> legacy_sandbox_policy \<Rightarrow> str \<Rightarrow> writable_root list" where
  "legacy_writable_roots_with_cwd env (WorkspaceWrite roots _ excl_tmpdir excl_slash_tmp) cwd =
     (let cwd_root = env_absolute env cwd;
          slash_tmp = env_absolute env (lit ''/tmp'');
          all_roots = roots @ [cwd_root] @
            (if \<not> excl_slash_tmp \<and> is_dir env slash_tmp then [slash_tmp] else []) @
            (case tmpdir_var env of
               None \<Rightarrow> []
             | Some tmpdir \<Rightarrow> if \<not> excl_tmpdir \<and> tmpdir \<noteq> [] then [env_absolute env tmpdir] else [])
      in map (\<lambda>r. \<lparr>root_path = r,
           read_only_subpaths = default_read_only_subpaths_for_writable_root env r (path_eq cwd_root r),
           protected_metadata_names = []\<rparr>) all_roots)"
| "legacy_writable_roots_with_cwd env _ cwd = []"

record semantic_signature =
  sig_full_disk_read :: bool
  sig_full_disk_write :: bool
  sig_platform_defaults :: bool
  sig_readable_roots :: "abs_path_buf list"
  sig_writable_roots :: "writable_root list"
  sig_unreadable_roots :: "abs_path_buf list"
  sig_unreadable_globs :: "str list"

definition sorted_absolute_paths :: "abs_path_buf list \<Rightarrow> abs_path_buf list" where
  "sorted_absolute_paths ps = sort_key abs_names ps"

definition sorted_writable_roots :: "writable_root list \<Rightarrow> writable_root list" where
  "sorted_writable_roots roots =
     sort_key (\<lambda>w. abs_names (root_path w))
       (map (\<lambda>w. w\<lparr>read_only_subpaths := sorted_absolute_paths (read_only_subpaths w),
              protected_metadata_names := remdups_adj (sort (protected_metadata_names w))\<rparr>) roots)"

definition semantic_signature_of :: "os_env \<Rightarrow> file_system_sandbox_policy \<Rightarrow> str \<Rightarrow> semantic_signature" where
  "semantic_signature_of env p cwd =
     \<lparr>sig_full_disk_read = has_full_disk_read_access p,
      sig_full_disk_write = has_full_disk_write_access p,
      sig_platform_defaults = include_platform_defaults p,
      sig_readable_roots = sorted_absolute_paths (get_readable_roots_with_cwd env p cwd),
      sig_writable_roots = sorted_writable_roots (get_writable_roots_with_cwd env p cwd),
      sig_unreadable_roots = sorted_absolute_paths (get_unreadable_roots_with_cwd env p cwd),
      sig_unreadable_globs = get_unreadable_globs_with_cwd env p cwd\<rparr>"

definition is_semantically_equivalent_to ::
  "os_env \<Rightarrow> file_system_sandbox_policy \<Rightarrow> file_system_sandbox_policy \<Rightarrow> str \<Rightarrow> bool" where
  "is_semantically_equivalent_to env p q cwd \<longleftrightarrow> semantic_signature_of env p cwd = semantic_signature_of env q cwd"

definition protected_metadata_names_need_direct_runtime_enforcement ::
  "os_env \<Rightarrow> file_system_sandbox_policy \<Rightarrow> legacy_sandbox_policy \<Rightarrow> str \<Rightarrow> bool" where
  "protected_metadata_names_need_direct_runtime_enforcement env p legacy cwd \<longleftrightarrow>
     list_ex (\<lambda>w.
       case List.find (\<lambda>c. path_eq (root_path c) (root_path w)) (legacy_writable_roots_with_cwd env legacy cwd) of
         None \<Rightarrow> protected_metadata_names w \<noteq> []
       | Some legacy_root \<Rightarrow>
           list_ex (\<lambda>n. \<not> list_ex (\<lambda>s. path_eq s (abs_join (home_dir env) (root_path w) n))
             (read_only_subpaths legacy_root)) (protected_metadata_names w))
       (get_writable_roots_with_cwd env p cwd)"

definition needs_direct_runtime_enforcement ::
  "os_env \<Rightarrow> file_system_sandbox_policy \<Rightarrow> network_sandbox_policy \<Rightarrow> str \<Rightarrow> bool" where
  "needs_direct_runtime_enforcement env p net cwd \<longleftrightarrow>
     policy_kind p = Restricted \<and>
     (case to_legacy_sandbox_policy env p net cwd of
        None \<Rightarrow> True
      | Some legacy \<Rightarrow>
          protected_metadata_names_need_direct_runtime_enforcement env p legacy cwd \<or>
          \<not> is_semantically_equivalent_to env p (legacy_runtime_file_system_policy_for_cwd env legacy cwd) cwd)"

section \<open>Permission profiles\<close>

datatype managed_permissions =
  ManagedRestricted (managed_entries: "sandbox_entry list") (managed_depth: "nat option")
| ManagedUnrestricted

datatype permission_profile =
  Managed managed_permissions network_sandbox_policy
| Disabled
| External network_sandbox_policy

datatype sandbox_enforcement = EnforceManaged | EnforceDisabled | EnforceExternal

fun to_sandbox_policy :: "managed_permissions \<Rightarrow> file_system_sandbox_policy" where
  "to_sandbox_policy (ManagedRestricted es d) =
     \<lparr>policy_kind = Restricted, glob_scan_max_depth = d, policy_entries = es\<rparr>"
| "to_sandbox_policy ManagedUnrestricted = unrestricted"


text \<open>A scan depth of zero is dropped; \<^verbatim>\<open>None\<close> is the unreachable case of the source.\<close>

definition nonzero :: "nat option \<Rightarrow> nat option" where
  "nonzero d = (case d of Some n \<Rightarrow> if n = 0 then None else Some n | None \<Rightarrow> None)"

definition from_sandbox_policy :: "file_system_sandbox_policy \<Rightarrow> managed_permissions option" where
  "from_sandbox_policy p =
     (case policy_kind p of
        Restricted \<Rightarrow> Some (ManagedRestricted (policy_entries p) (nonzero (glob_scan_max_depth p)))
      | Unrestricted \<Rightarrow> Some ManagedUnrestricted
      | ExternalSandbox \<Rightarrow> None)"

definition from_runtime_permissions_with_enforcement ::
  "sandbox_enforcement \<Rightarrow> file_system_sandbox_policy \<Rightarrow> network_sandbox_policy \<Rightarrow> permission_profile option" where
  "from_runtime_permissions_with_enforcement enf p net =
     (if policy_kind p = ExternalSandbox then Some (External net)
      else if policy_kind p = Unrestricted \<and> enf = EnforceDisabled then Some Disabled
      else map_option (\<lambda>m. Managed m net) (from_sandbox_policy p))"

definition from_runtime_permissions ::
  "file_system_sandbox_policy \<Rightarrow> network_sandbox_policy \<Rightarrow> permission_profile option" where
  "from_runtime_permissions p net =
     from_runtime_permissions_with_enforcement
       (if policy_kind p = ExternalSandbox then EnforceExternal else EnforceManaged) p net"

fun enforcement_of_legacy :: "legacy_sandbox_policy \<Rightarrow> sandbox_enforcement" where
  "enforcement_of_legacy DangerFullAccess = EnforceDisabled"
| "enforcement_of_legacy (ExternalSandboxPolicy _) = EnforceExternal"
| "enforcement_of_legacy _ = EnforceManaged"

definition profile_from_legacy_sandbox_policy ::
  "os_env \<Rightarrow> legacy_sandbox_policy \<Rightarrow> permission_profile option" where
  "profile_from_legacy_sandbox_policy env sp =
     from_runtime_permissions_with_enforcement (enforcement_of_legacy sp) (from_legacy env sp) (network_of_legacy sp)"

definition profile_from_legacy_sandbox_policy_for_cwd ::
  "os_env \<Rightarrow> legacy_sandbox_policy \<Rightarrow> str \<Rightarrow> permission_profile option" where
  "profile_from_legacy_sandbox_policy_for_cwd env sp cwd =
     from_runtime_permissions_with_enforcement (enforcement_of_legacy sp)
       (from_legacy_sandbox_policy_for_cwd env sp cwd) (network_of_legacy sp)"

definition profile_read_only :: permission_profile where
  "profile_read_only = Managed (ManagedRestricted [entry (Special Root) Read] None) NetworkRestricted"

definition profile_workspace_write_with ::
  "os_env \<Rightarrow> abs_path_buf list \<Rightarrow> network_sandbox_policy \<Rightarrow> bool \<Rightarrow> bool \<Rightarrow> permission_profile option" where
  "profile_workspace_write_with env roots net excl_tmpdir excl_slash_tmp =
     map_option (\<lambda>m. Managed m net) (from_sandbox_policy (workspace_write env roots excl_tmpdir excl_slash_tmp))"

fun enforcement :: "permission_profile \<Rightarrow> sandbox_enforcement" where
  "enforcement (Managed _ _) = EnforceManaged"
| "enforcement Disabled = EnforceDisabled"
| "enforcement (External _) = EnforceExternal"

fun profile_file_system :: "permission_profile \<Rightarrow> file_system_sandbox_policy" where
  "profile_file_system (Managed m _) = to_sandbox_policy m"
| "profile_file_system Disabled = unrestricted"
| "profile_file_system (External _) = external_sandbox"

fun profile_network :: "permission_profile \<Rightarrow> network_sandbox_policy" where
  "profile_network (Managed _ net) = net"
| "profile_network (External net) = net"
| "profile_network Disabled = NetworkEnabled"

definition to_runtime_permissions :: "permission_profile \<Rightarrow> file_system_sandbox_policy \<times> network_sandbox_policy" where
  "to_runtime_permissions pr = (profile_file_system pr, profile_network pr)"

fun profile_to_legacy_sandbox_policy :: "os_env \<Rightarrow> permission_profile \<Rightarrow> str \<Rightarrow> legacy_sandbox_policy option" where
  "profile_to_legacy_sandbox_policy env (Managed m net) cwd =
     to_legacy_sandbox_policy env (to_sandbox_policy m) net cwd"
| "profile_to_legacy_sandbox_policy env Disabled cwd = Some DangerFullAccess"
| "profile_to_legacy_sandbox_policy env (External net) cwd =
     Some (ExternalSandboxPolicy (if network_is_enabled net then AccessEnabled else AccessRestricted))"

section \<open>Merging deny entries\<close>

lemma foldl_push_missing:
  "\<exists>ds'. foldl push_missing es ds = es @ ds' \<and> set ds' \<subseteq> set ds \<and>
     (\<forall>d \<in> set ds. \<exists>e \<in> set (es @ ds'). entry_eq e d)"
proof (induction ds arbitrary: es)
  case (Cons d ds)
  have self: "entry_eq d d"
  proof -
    have "option_path_eq o1 o1" for o1 by (cases o1) (simp_all add: path_eq_def)
    then have "special_path_eq v v" for v by (cases v) simp_all
    then have "file_system_path_eq p p" for p by (cases p) (simp_all add: path_eq_def)
    then show ?thesis by (simp add: entry_eq_def)
  qed
  show ?case
  proof (cases "list_ex (\<lambda>e. entry_eq e d) es")
    case True
    then obtain e where e: "e \<in> set es" "entry_eq e d" by (auto simp: list_ex_iff)
    from Cons [of es] obtain ds' where "foldl push_missing es ds = es @ ds'" "set ds' \<subseteq> set ds"
      "\<forall>d \<in> set ds. \<exists>e \<in> set (es @ ds'). entry_eq e d" by blast
    moreover have "push_missing es d = es" using True by (simp add: push_missing_def)
    ultimately show ?thesis using e by (intro exI [of _ ds']) auto
  next
    case False
    from Cons [of "es @ [d]"] obtain ds' where "foldl push_missing (es @ [d]) ds = (es @ [d]) @ ds'"
      "set ds' \<subseteq> set ds" "\<forall>d' \<in> set ds. \<exists>e \<in> set ((es @ [d]) @ ds'). entry_eq e d'" by blast
    moreover have "push_missing es d = es @ [d]" using False by (simp add: push_missing_def)
    ultimately show ?thesis using self by (intro exI [of _ "d # ds'"]) auto
  qed
qed simp

lemma resolved_entries_append:
  "policy_entries r = policy_entries p @ ds \<Longrightarrow> resolved_entries_with_cwd env r cwd =
    resolved_entries_with_cwd env p cwd @ resolved_entries_with_cwd env (restricted ds) cwd"
  by (simp add: resolved_entries_with_cwd_def restricted_def List.map_filter_def)

lemma resolved_entries_access:
  "e \<in> set (resolved_entries_with_cwd env p cwd) \<Longrightarrow> \<exists>x \<in> set (policy_entries p). entry_access x = resolved_access e"
  by (auto simp: resolved_entries_with_cwd_def List.map_filter_def)

lemma resolved_entry_Path:
  "x \<in> set (policy_entries p) \<Longrightarrow> entry_path x = Path d \<Longrightarrow>
    \<lparr>resolved_path = d, resolved_access = entry_access x\<rparr> \<in> set (resolved_entries_with_cwd env p cwd)"
  by (force simp: resolved_entries_with_cwd_def List.map_filter_def resolve_entry_path_def)


lemma preserve_restricted:
  assumes "policy_kind p = Restricted"
  obtains ds where "policy_entries (preserve_deny_read_restrictions_from p ex) = policy_entries p @ ds"
    "policy_kind (preserve_deny_read_restrictions_from p ex) = Restricted"
    "\<forall>d \<in> set ds. entry_access d = NoAccess"
    "\<forall>d \<in> set (deny_entries ex). \<exists>e \<in> set (policy_entries p @ ds). entry_eq e d"
proof -
  from foldl_push_missing [of "policy_entries p" "deny_entries ex"] obtain ds where
    "foldl push_missing (policy_entries p) (deny_entries ex) = policy_entries p @ ds"
    "set ds \<subseteq> set (deny_entries ex)" "\<forall>d \<in> set (deny_entries ex). \<exists>e \<in> set (policy_entries p @ ds). entry_eq e d"
    by blast
  with assms show thesis
    by (intro that [of ds]) (auto simp: preserve_deny_read_restrictions_from_def deny_entries_def)
qed

text \<open>Appending deny entries leaves the write entries alone, so it can only take access away.\<close>

lemma append_denies_tightens:
  assumes "policy_kind p = Restricted" "policy_kind r = Restricted"
    and "policy_entries r = policy_entries p @ ds" "\<forall>d \<in> set ds. entry_access d = NoAccess"
  shows "can_read_path_with_cwd env r q cwd \<Longrightarrow> can_read_path_with_cwd env p q cwd"
    and "can_write_path_with_cwd env r q cwd \<Longrightarrow> can_write_path_with_cwd env p q cwd"
proof -
  let ?R = "\<lambda>p. resolved_entries_with_cwd env p cwd"
  have R: "?R r = ?R p @ ?R (restricted ds)"
    by (rule resolved_entries_append [OF assms(3)])
  have na: "resolved_access e = NoAccess" if "e \<in> set (?R (restricted ds))" for e
    using resolved_entries_access [OF that] assms(4) by (auto simp: restricted_def)
  note reads = can_read_iff [OF assms(1)] can_read_iff [OF assms(2)]
    and writes = can_write_iff [OF assms(1)] can_write_iff [OF assms(2)]
  show "can_read_path_with_cwd env p q cwd" if "can_read_path_with_cwd env r q cwd"
  proof -
    from that obtain e where "e \<in> set (?R r)" "covers e (resolve_candidate_path env q cwd)"
      "resolved_access e \<noteq> NoAccess" "\<forall>e' \<in> set (?R r). covers e' (resolve_candidate_path env q cwd) \<longrightarrow>
         resolved_access e' = NoAccess \<longrightarrow> depth e' < depth e"
      unfolding reads(2) by blast
    with R na show ?thesis unfolding reads(1) by (metis Un_iff set_append)
  qed
  have w: "can_write (resolve_access_with_cwd env p q cwd)" if "can_write (resolve_access_with_cwd env r q cwd)"
  proof -
    from that obtain e where "e \<in> set (?R r)" "covers e (resolve_candidate_path env q cwd)"
      "resolved_access e = Write" "\<forall>e' \<in> set (?R r). covers e' (resolve_candidate_path env q cwd) \<longrightarrow>
         depth e' < depth e \<or> depth e' = depth e \<and> resolved_access e' \<noteq> NoAccess"
      unfolding writes(2) by blast
    with R na show ?thesis unfolding writes(1)
      by (metis Un_iff access_mode.distinct(5) set_append)
  qed
  have o: "has_same_target_write_override r e = has_same_target_write_override p e" for e
    using assms(3,4) by (auto simp: has_same_target_write_override_def can_write_def list_ex_iff)
  have "has_root_access r can_write = has_root_access p can_write"
    using assms by (auto simp: has_root_access_def can_write_def list_ex_iff)
  moreover have "has_write_narrowing_entries p \<Longrightarrow> has_write_narrowing_entries r"
    unfolding has_write_narrowing_entries_def o using assms(1-3) by simp
  ultimately have full: "has_full_disk_write_access r \<Longrightarrow> has_full_disk_write_access p"
    using assms(1,2) by (auto simp: has_full_disk_write_access_def)
  have ws: "filter (\<lambda>e. can_write (resolved_access e)) (?R (restricted ds)) = []"
    using na by (auto simp: filter_empty_conv can_write_def)
  have "has_explicit_write_entry_for_metadata_path env r m t cwd = has_explicit_write_entry_for_metadata_path env p m t cwd"
    for m t using R na by (auto simp: has_explicit_write_entry_for_metadata_path_def can_write_def list_ex_iff)
  then have "is_metadata_write_denied env r q cwd = is_metadata_write_denied env p q cwd"
    using assms(1,2) by (simp add: is_metadata_write_denied_def metadata_child_of_writable_root_def R ws
        split: option.split)
  then show "can_write_path_with_cwd env p q cwd" if "can_write_path_with_cwd env r q cwd"
    using that w full by (auto simp: can_write_path_with_cwd_def split: if_splits)
qed

lemma carried_denial:
  assumes "policy_kind r = Restricted" "policy_entries r = policy_entries p @ ds" "\<forall>e \<in> set ds. entry_access e = NoAccess"
    and "x \<in> set (policy_entries r)" "entry_eq x (entry (Path d) NoAccess)"
    and "path_starts_with (resolve_candidate_path env q cwd) d"
    and "\<And>e. e \<in> set (resolved_entries_with_cwd env p cwd) \<Longrightarrow> covers e (resolve_candidate_path env q cwd) \<Longrightarrow>
      resolved_access e \<noteq> NoAccess \<Longrightarrow> depth e \<le> length (components d)"
  shows "\<not> can_read_path_with_cwd env r q cwd"
proof -
  obtain d' where d': "entry_path x = Path d'" "components d' = components d" "entry_access x = NoAccess"
    using assms(5) by (cases "entry_path x") (auto simp: entry_eq_def entry_def path_eq_def)
  let ?x = "\<lparr>resolved_path = d', resolved_access = NoAccess\<rparr>"
  have dx: "?x \<in> set (resolved_entries_with_cwd env r cwd)" "covers ?x (resolve_candidate_path env q cwd)"
      "depth ?x = length (components d)"
    using resolved_entry_Path [OF assms(4) d'(1)] d' assms(6) by (simp_all add: covers_def path_starts_with_def depth_def)
  have "depth e \<le> length (components d)" if e: "e \<in> set (resolved_entries_with_cwd env r cwd)"
    "covers e (resolve_candidate_path env q cwd)" "resolved_access e \<noteq> NoAccess" for e
  proof -
    have "e \<in> set (resolved_entries_with_cwd env p cwd)"
      using e(1,3) assms(3) resolved_entries_append [OF assms(2), of env cwd]
        resolved_entries_access [of e env "restricted ds" cwd]
      by (auto simp: restricted_def)
    with assms(7) e(2,3) show ?thesis by blast
  qed
  with dx show ?thesis unfolding can_read_iff [OF assms(1)] by fastforce
qed




section \<open>Conversion from and to the legacy policy\<close>

lemma dedup_from_distinct:
  "distinct ps \<Longrightarrow> list_all is_normal_path ps \<Longrightarrow> list_all is_normal_path seen \<Longrightarrow>
    set seen \<inter> set ps = {} \<Longrightarrow> dedup_from seen ps = ps"
  by (induction seen ps rule: dedup_from.induct) (auto simp: list_ex_iff list_all_iff path_eq_normal)

lemma fold_scan_reads:
  "\<forall>e \<in> set es. entry_access e \<noteq> Write \<Longrightarrow> fold (scan_entry env cwd) es st = st"
  by (induction es) (auto simp: scan_entry_def can_write_def)

lemma fold_scan_paths:
  "\<forall>q \<in> set ps. \<not> path_eq cwd q \<Longrightarrow>
    fold (scan_entry env cwd) (map (\<lambda>q. entry (Path q) Write) ps) st = st\<lparr>scanned_roots := scanned_roots st @ ps\<rparr>"
  by (induction ps arbitrary: st) (auto simp: scan_entry_def can_write_def entry_def)

lemma append_read_only:
  "\<exists>rs. append_default_read_only_entry_if_no_explicit_rule es p = es @ rs \<and> (\<forall>e \<in> set rs. entry_access e = Read)"
  by (auto simp: append_default_read_only_entry_if_no_explicit_rule_def entry_def)

lemma foldl_append_read_only:
  assumes "\<And>es x. \<exists>rs. f es x = es @ rs \<and> (\<forall>e \<in> set rs. entry_access e = Read)"
  shows "\<exists>rs. foldl f es xs = es @ rs \<and> (\<forall>e \<in> set rs. entry_access e = Read)"
proof (induction xs arbitrary: es)
  case (Cons x xs)
  obtain rs where "f es x = es @ rs" "\<forall>e \<in> set rs. entry_access e = Read" using assms by blast
  moreover obtain rs' where "foldl f (es @ rs) xs = (es @ rs) @ rs'" "\<forall>e \<in> set rs'. entry_access e = Read"
    using Cons by blast
  ultimately show ?case by (intro exI [of _ "rs @ rs'"]) auto
qed simp

lemma workspace_write_entries:
  "\<exists>rs. policy_entries (workspace_write env roots a b) = workspace_grants roots a b @ rs \<and>
     (\<forall>e \<in> set rs. entry_access e = Read)"
proof -
  have "\<exists>rs. protect_root env False es x = es @ rs \<and> (\<forall>e \<in> set rs. entry_access e = Read)" for es x
    unfolding protect_root_def append_default_read_only_path_if_no_explicit_rule_def
    by (intro foldl_append_read_only append_read_only)
  then have 1: "\<exists>rs. foldl (protect_root env False) es xs = es @ rs \<and> (\<forall>e \<in> set rs. entry_access e = Read)" for es xs
    by (intro foldl_append_read_only)
  have 2: "\<exists>rs. foldl append_default_read_only_project_root_subpath_if_no_explicit_rule es xs = es @ rs \<and>
      (\<forall>e \<in> set rs. entry_access e = Read)" for es xs
    unfolding append_default_read_only_project_root_subpath_if_no_explicit_rule_def
    by (intro foldl_append_read_only append_read_only)
  let ?g = "workspace_grants roots a b" and ?ms = "[lit ''.git'', lit ''.agents'', lit ''.codex'']"
  obtain r1 where r1: "foldl append_default_read_only_project_root_subpath_if_no_explicit_rule ?g ?ms = ?g @ r1"
    "\<forall>e \<in> set r1. entry_access e = Read" using 2 by blast
  obtain r2 where "foldl (protect_root env False) (?g @ r1) roots = (?g @ r1) @ r2" "\<forall>e \<in> set r2. entry_access e = Read"
    using 1 by blast
  with r1 show ?thesis
    by (intro exI [of _ "r1 @ r2"]) (auto simp: workspace_write_def restricted_def)
qed

text \<open>
  C37: a legacy policy survives the conversion to a file-system policy and a network policy and back,
  when its extra writable roots are distinct and differ from the working directory.
\<close>

theorem legacy_policy_roundtrip:
  assumes "is_absolute (current_dir env)"
    and "\<forall>roots net a b. sp = WorkspaceWrite roots net a b \<longrightarrow>
      distinct roots \<and> list_all is_normal_path roots \<and> env_absolute env cwd \<notin> set roots"
  shows "to_legacy_sandbox_policy env (from_legacy env sp) (network_of_legacy sp) cwd = Some sp"
proof (cases sp)
  case (WorkspaceWrite roots net a b)
  obtain rs where rs: "policy_entries (workspace_write env roots a b) = workspace_grants roots a b @ rs"
    "\<forall>e \<in> set rs. entry_access e = Read" using workspace_write_entries by blast
  have roots: "distinct roots" "list_all is_normal_path roots" "\<forall>q \<in> set roots. \<not> path_eq (env_absolute env cwd) q"
    using assms WorkspaceWrite by (auto simp: path_eq_normal env_absolute_normal list_all_iff)
  have k: "policy_kind (workspace_write env roots a b) = Restricted"
    by (simp add: workspace_write_def restricted_def)
  have "\<not> has_root_access (workspace_write env roots a b) can_write"
    using rs by (auto simp: has_root_access_def list_ex_iff workspace_grants_def entry_def can_write_def split: if_splits)
  then have nf: "\<not> has_full_disk_write_access (workspace_write env roots a b)"
    using k by (simp add: has_full_disk_write_access_def)
  have "scan_entries env (env_absolute env cwd) (policy_entries (workspace_write env roots a b)) =
      \<lparr>workspace_root_writable = True, scanned_roots = roots, tmpdir_writable = \<not> a,
       slash_tmp_writable = \<not> b, unbridgeable_root_write = False\<rparr>"
    using rs(2) roots(3) by (simp add: scan_entries_def rs(1) fold_scan_reads workspace_grants_def
        fold_scan_paths) (simp add: scan_entry_def can_write_def entry_def)
  with k nf roots show ?thesis
    by (simp add: WorkspaceWrite to_legacy_sandbox_policy_def network_is_enabled_def network_of_legacy_def
        dedup_absolute_paths_def dedup_from_distinct)
next
  case (ExternalSandboxPolicy access)
  then show ?thesis
    by (cases access) (simp_all add: to_legacy_sandbox_policy_def external_sandbox_def
        network_is_enabled_def network_of_legacy_def)
qed (simp_all add: to_legacy_sandbox_policy_def unrestricted_def restricted_def unrestricted_legacy_def
    network_is_enabled_def network_of_legacy_def has_full_disk_write_access_def has_root_access_def
    scan_entries_def scan_entry_def can_write_def entry_def)

theorem legacy_policy_roundtrip_witness:
  "to_legacy_sandbox_policy sample_env
     (from_legacy sample_env (WorkspaceWrite [abs_display [lit ''r'']] True False True))
     NetworkEnabled (abs_display [lit ''w'']) = Some (WorkspaceWrite [abs_display [lit ''r'']] True False True)"
proof -
  have "env_absolute sample_env (abs_display [lit ''w'']) = abs_display [lit ''w'']"
    by (simp add: env_absolute_id valid_name_lit)
  moreover have "abs_display [lit ''w''] \<noteq> abs_display [lit ''r'']" by (simp add: abs_display_def)
  ultimately show ?thesis
    using legacy_policy_roundtrip [of sample_env "WorkspaceWrite [abs_display [lit ''r'']] True False True"
        "abs_display [lit ''w'']"]
    by (simp add: network_of_legacy_def sample_env_def valid_name_lit)
qed


section \<open>Profiles and runtime permissions\<close>

text \<open>A profile is recovered from its runtime permissions and its enforcement.\<close>

lemma profile_runtime_roundtrip:
  assumes "\<And>es d net. pr = Managed (ManagedRestricted es d) net \<Longrightarrow> d \<noteq> Some 0"
  shows "from_runtime_permissions_with_enforcement (enforcement pr) (profile_file_system pr) (profile_network pr) = Some pr"
proof (cases pr)
  case (Managed m net)
  then show ?thesis
    using assms by (cases m) (auto simp: from_runtime_permissions_with_enforcement_def from_sandbox_policy_def
        unrestricted_def nonzero_def split: option.splits)
qed (auto simp: from_runtime_permissions_with_enforcement_def unrestricted_def external_sandbox_def)

end
