(* ===== verification/Sandbox_Enforcement.thy ===== *)
theory Sandbox_Enforcement
  imports Sandbox_Roots
begin

text \<open>
  Soundness of \<^verbatim>\<open>get_writable_roots_with_cwd\<close>: the roots, read-only subpaths and protected metadata names
  that a platform sandbox enforces allow no write that the entries of the policy deny, when the paths
  of the entries are canonical; and none that \<^verbatim>\<open>can_write_path_with_cwd\<close> denies, except below the protected
  metadata of a root nested in another.
\<close>

section \<open>The writable roots grant nothing the entries deny\<close>

text \<open>The paths of the entries are absolute and normalised, and no symbolic link leads away from them.\<close>

definition canonical_entries :: "os_env \<Rightarrow> file_system_sandbox_policy \<Rightarrow> str \<Rightarrow> bool" where
  "canonical_entries env p cwd \<longleftrightarrow>
     (\<forall>e \<in> set (resolved_entries_with_cwd env p cwd). is_normal_path (resolved_path e) \<and>
        normalize_effective_absolute_path env (resolved_path e) = resolved_path e)"

definition entry_names :: "resolved_entry \<Rightarrow> str list" where
  "entry_names e = abs_names (resolved_path e)"

lemma metadata_names_valid:
  "n \<in> set PROTECTED_METADATA_PATH_NAMES \<Longrightarrow> valid_name n \<and> \<not> starts_with n (lit ''~'')"
  by (auto simp: PROTECTED_METADATA_PATH_NAMES_def valid_name_lit starts_with_def strip_prefix_def)

lemma abs_join_metadata:
  assumes "is_normal_path r" "n \<in> set PROTECTED_METADATA_PATH_NAMES"
  shows "is_normal_path (abs_join home r n) \<and> abs_names (abs_join home r n) = abs_names r @ [n]"
proof -
  obtain ns where "list_all valid_name ns" "r = abs_display ns" using assms(1) by (rule is_normal_pathE)
  with metadata_names_valid [OF assms(2)] show ?thesis by (simp add: abs_join_name)
qed

lemma metadata_path_name_eq:
  "metadata_path_name n = (if n \<in> set PROTECTED_METADATA_PATH_NAMES then Some n else None)"
  by (auto simp: metadata_path_name_def PROTECTED_METADATA_PATH_NAMES_def)

lemma covers_normal:
  "is_normal_path (resolved_path e) \<Longrightarrow> is_normal_path t \<Longrightarrow> covers e t \<longleftrightarrow> prefix (entry_names e) (abs_names t)"
  by (simp add: covers_def path_starts_with_normal entry_names_def)

lemma depth_normal: "is_normal_path (resolved_path e) \<Longrightarrow> depth e = Suc (length (entry_names e))"
  by (simp add: depth_def components_normal entry_names_def)

lemma metadata_child_normal:
  assumes "is_normal_path t" "is_normal_path (resolved_path e)"
  shows "metadata_child env t e = Some (mp, n) \<longleftrightarrow>
    n \<in> set PROTECTED_METADATA_PATH_NAMES \<and> prefix (entry_names e @ [n]) (abs_names t) \<and>
    mp = abs_join (home_dir env) (resolved_path e) n"
proof -
  have "path_strip_prefix t (resolved_path e) = Some cs \<longleftrightarrow> map Normal (abs_names t) = map Normal (entry_names e) @ cs" for cs
    using assms by (simp add: strip_prefix_Some_starts components_normal entry_names_def)
  then have s: "path_strip_prefix t (resolved_path e) = Some cs \<longleftrightarrow>
      (\<exists>ns. abs_names t = entry_names e @ ns \<and> cs = map Normal ns)" for cs
    by (auto simp: map_eq_append_conv)
  show ?thesis
  proof (cases "path_strip_prefix t (resolved_path e)")
    case None
    then have "\<not> prefix (entry_names e @ [n]) (abs_names t)" for n using s by (force simp: prefix_def)
    with None show ?thesis by (simp add: metadata_child_def)
  next
    case (Some cs)
    then obtain ns where "abs_names t = entry_names e @ ns" "cs = map Normal ns" using s by blast
    with Some show ?thesis
      by (cases ns) (auto simp: metadata_child_def component_os_str_def metadata_path_name_eq split: if_splits)
  qed
qed

lemma find_map_firstD:
  "find_map f xs = Some y \<Longrightarrow> \<exists>us x vs. xs = us @ x # vs \<and> f x = Some y \<and> (\<forall>u \<in> set us. f u = None)"
proof (induction xs)
  case (Cons a xs)
  show ?case
  proof (cases "f a")
    case None
    with Cons obtain us x vs where "xs = us @ x # vs" "f x = Some y" "\<forall>u \<in> set us. f u = None" by auto
    with None show ?thesis by (intro exI [of _ "a # us"] exI [of _ x] exI [of _ vs]) simp
  next
    case (Some b)
    with Cons show ?thesis by (intro exI [of _ "[]"] exI [of _ a] exI [of _ xs]) simp
  qed
qed simp

lemma find_map_append:
  "\<forall>u \<in> set us. f u = None \<Longrightarrow> f x = Some y \<Longrightarrow> find_map f (us @ x # vs) = Some y"
  by (induction us) auto

lemma dedup_from_keeps:
  "x \<in> set ps \<Longrightarrow> \<exists>y \<in> set seen \<union> set (dedup_from seen ps). path_eq y x"
proof (induction seen ps rule: dedup_from.induct)
  case (2 seen p ps)
  then show ?case by (cases "x = p") (auto simp: list_ex_iff path_eq_def)
qed simp

lemma dedup_from_subset: "set (dedup_from seen ps) \<subseteq> set ps"
  by (induction seen ps rule: dedup_from.induct) auto

lemma writable_root_names:
  assumes "canonical_entries env p cwd" "w \<in> set (get_writable_roots_with_cwd env p cwd)"
  shows "\<exists>e \<in> set (resolved_entries_with_cwd env p cwd). resolved_access e = Write \<and>
    w = make_writable_root env p cwd (resolved_path e) \<and> can_write_path_with_cwd env p (resolved_path e) cwd"
proof -
  have "map (normalize_effective_absolute_path env) (writable_paths env p cwd) = writable_paths env p cwd"
    using assms(1) by (auto simp: writable_paths_def canonical_entries_def intro!: map_idI)
  then obtain r where "r \<in> set (writable_paths env p cwd)" "w = make_writable_root env p cwd r"
    using assms(2) dedup_from_subset
    by (fastforce simp: get_writable_roots_with_cwd_def dedup_absolute_paths_def split: if_splits)
  then show ?thesis by (auto simp: writable_paths_def can_write_def)
qed

lemma writable_root_exists:
  assumes "canonical_entries env p cwd" "\<not> has_full_disk_write_access p"
    and "e \<in> set (resolved_entries_with_cwd env p cwd)" "resolved_access e = Write"
    and "can_write_path_with_cwd env p (resolved_path e) cwd"
  shows "\<exists>w \<in> set (get_writable_roots_with_cwd env p cwd). components (root_path w) = components (resolved_path e)"
proof -
  have id: "map (normalize_effective_absolute_path env) (writable_paths env p cwd) = writable_paths env p cwd"
    using assms(1) by (auto simp: writable_paths_def canonical_entries_def intro!: map_idI)
  have "resolved_path e \<in> set (writable_paths env p cwd)"
    using assms by (auto simp: writable_paths_def can_write_def)
  from dedup_from_keeps [OF this, of "[]"] show ?thesis
    using assms(2) by (auto simp: get_writable_roots_with_cwd_def dedup_absolute_paths_def id
        make_writable_root_def Let_def path_eq_def)
qed


lemma carveout_below:
  assumes "is_normal_path r" "is_normal_path q" "path_starts_with q r" "q \<noteq> r"
    and "normalize_effective_absolute_path env q = q"
  shows "carveout env r raw q = Some q"
  using assms by (auto simp: carveout_def raw_carveout_path_def path_eq_normal)

text \<open>An entry that is no write entry and decides the access to its own path is carved out of the root.\<close>

lemma root_access:
  assumes "policy_kind p = Restricted" "canonical_entries env p cwd" "is_normal_path q"
    and r: "er \<in> set (resolved_entries_with_cwd env p cwd)" "resolved_access er = Write"
      "can_write_path_with_cwd env p (resolved_path er) cwd"
    and w: "is_path_writable (make_writable_root env p cwd (resolved_path er)) q"
  shows "resolve_access_with_cwd env p q cwd = Write"
proof -
  let ?R = "set (resolved_entries_with_cwd env p cwd)" and ?r = "resolved_path er"
  have n: "is_normal_path (resolved_path e)" "resolve_candidate_path env (resolved_path e) cwd = resolved_path e"
    if "e \<in> ?R" for e
    using that assms(2) by (auto simp: canonical_entries_def resolve_candidate_id)
  have cq: "resolve_candidate_path env q cwd = q" using assms(3) by (rule resolve_candidate_id)
  have rq: "path_starts_with q ?r" using w by (simp add: is_path_writable_def make_writable_root_def Let_def)
  obtain m where m: "m \<in> ?R" "covers m q" "resolve_access_with_cwd env p q cwd = resolved_access m"
    and max: "\<And>e. e \<in> ?R \<Longrightarrow> covers e q \<Longrightarrow> depth e < depth m \<or> depth e = depth m \<and> resolved_access e \<le> resolved_access m"
    using resolve_access_max [OF assms(1) r(1), of q] rq unfolding cq by (metis covers_def precedence_le)
  have spec: "can_write (resolve_access_with_cwd env p (resolved_path e) cwd) \<Longrightarrow> e' \<in> ?R \<Longrightarrow> covers e' (resolved_path e) \<Longrightarrow>
      \<exists>f \<in> ?R. covers f (resolved_path e) \<and> resolved_access f = Write \<and>
        (depth e' < depth f \<or> depth e' = depth f \<and> resolved_access e' \<noteq> NoAccess)"
    if "e \<in> ?R" for e e'
    unfolding can_write_iff [OF assms(1)] n(2) [OF that] by blast
  have "resolved_access m = Write"
  proof (rule ccontr)
    assume nw: "resolved_access m \<noteq> Write"
    show False
    proof (cases "path_starts_with ?r (resolved_path m)")
      case True
      with max [of er] r rq nw have "depth er = depth m" "resolved_access m = NoAccess"
        using path_starts_with_length [OF True]
        by (cases "resolved_access m"; auto simp: covers_def depth_def access_ge_Write)+
      moreover have "can_write (resolve_access_with_cwd env p ?r cwd)"
        using r(3) by (auto simp: can_write_path_with_cwd_def split: if_splits)
      then obtain f where "covers f ?r" "depth m < depth f"
        using spec [OF r(1), of m] True m(1) \<open>resolved_access m = NoAccess\<close> by (auto simp: covers_def)
      ultimately show False using path_starts_with_length [of ?r "resolved_path f"] by (simp add: covers_def depth_def)
    next
      case False
      then have below: "path_starts_with (resolved_path m) ?r" "resolved_path m \<noteq> ?r"
        using path_starts_with_cases [OF rq] m(2) by (auto simp: covers_def)
      have "\<not> can_write_path_with_cwd env p (resolved_path m) cwd"
      proof
        assume "can_write_path_with_cwd env p (resolved_path m) cwd"
        then have "can_write (resolve_access_with_cwd env p (resolved_path m) cwd)"
          by (auto simp: can_write_path_with_cwd_def split: if_splits)
        then obtain f where f: "f \<in> ?R" "covers f (resolved_path m)" "resolved_access f = Write"
            "depth m < depth f \<or> depth m = depth f \<and> resolved_access m \<noteq> NoAccess"
          using spec [OF m(1), of m] m(1) by (auto simp: covers_def)
        moreover have "depth f \<le> depth m" "covers f q"
          using f(2) m(2) path_starts_with_length path_starts_with_trans by (auto simp: covers_def depth_def)
        ultimately show False using max [of f] nw by (cases "resolved_access m") (auto simp: access_le_Read)
      qed
      then have "resolved_path m \<in> set (read_only_paths env p cwd)"
        using m(1) nw by (auto simp: read_only_paths_def can_write_def)
      moreover have "carveout env ?r raw (resolved_path m) = Some (resolved_path m)" for raw
        using carveout_below [OF n(1) [OF r(1)] n(1) [OF m(1)] below] assms(2) m(1) by (auto simp: canonical_entries_def)
      ultimately have "resolved_path m \<in> set (subs @ List.map_filter (carveout env ?r raw) (read_only_paths env p cwd))"
        for subs raw by (force simp: List.map_filter_def)
      from dedup_from_keeps [OF this, of "[]"]
      obtain y where "y \<in> set (read_only_subpaths (make_writable_root env p cwd ?r))" "path_eq y (resolved_path m)"
        by (auto simp: make_writable_root_def Let_def dedup_absolute_paths_def)
      then show False using w m(2) by (auto simp: is_path_writable_def list_ex_iff path_eq_def path_starts_with_def covers_def)
    qed
  qed
  with m(3) show ?thesis by simp
qed


lemma prefix_snoc_longer:
  "prefix (xs @ [x]) zs \<Longrightarrow> prefix ys zs \<Longrightarrow> length xs < length ys \<Longrightarrow> prefix (xs @ [x]) ys"
  by (rule prefix_length_prefix) auto

lemma prefix_eq_take: "prefix xs zs \<Longrightarrow> xs = take (length xs) zs"
  by (auto simp: prefix_def)

lemma explicit_entry:
  assumes "canonical_entries env p cwd" "is_normal_path t" "f \<in> set (resolved_entries_with_cwd env p cwd)"
    "resolved_access f = Write" "prefix (entry_names f) (abs_names t)"
    "is_normal_path mp" "prefix (abs_names mp) (entry_names f)"
  shows "has_explicit_write_entry_for_metadata_path env p mp t cwd"
  using assms by (auto simp: has_explicit_write_entry_for_metadata_path_def list_ex_iff can_write_def
      canonical_entries_def path_starts_with_normal entry_names_def)

text \<open>A write entry is never kept out of its own path by the metadata of another root.\<close>

lemma own_metadata_not_denied:
  assumes "canonical_entries env p cwd" "f \<in> set (resolved_entries_with_cwd env p cwd)" "resolved_access f = Write"
  shows "\<not> is_metadata_write_denied env p (resolved_path f) cwd"
proof
  assume d: "is_metadata_write_denied env p (resolved_path f) cwd"
  have n: "is_normal_path (resolved_path e)" if "e \<in> set (resolved_entries_with_cwd env p cwd)" for e
    using that assms(1) by (simp add: canonical_entries_def)
  from d obtain mp k where c: "metadata_child_of_writable_root env p (resolved_path f) cwd = Some (mp, k)"
    and x: "\<not> has_explicit_write_entry_for_metadata_path env p mp (resolved_path f) cwd"
    using n [OF assms(2)]
    by (auto simp: is_metadata_write_denied_def resolve_candidate_id Let_def split: if_splits option.splits)
  from c obtain e where "e \<in> set (resolved_entries_with_cwd env p cwd)" "metadata_child env (resolved_path f) e = Some (mp, k)"
    using find_map_Some [OF c [unfolded metadata_child_of_writable_root_def]] by auto
  with n assms(2) have "k \<in> set PROTECTED_METADATA_PATH_NAMES" "prefix (entry_names e @ [k]) (entry_names f)"
    "mp = abs_join (home_dir env) (resolved_path e) k" "is_normal_path (resolved_path e)"
    by (auto simp: metadata_child_normal entry_names_def)
  then have "is_normal_path mp" "prefix (abs_names mp) (entry_names f)"
    using abs_join_metadata by (auto simp: entry_names_def)
  with explicit_entry [OF assms(1) n [OF assms(2)] assms(2,3)] x show False by (simp add: entry_names_def)
qed

lemma nested_root_exists:
  assumes "policy_kind p = Restricted" "canonical_entries env p cwd" "is_normal_path q"
    and "\<not> has_full_disk_write_access p" "resolve_access_with_cwd env p q cwd = Write"
    and e: "e \<in> set (resolved_entries_with_cwd env p cwd)" "resolved_access e = Write"
      "prefix (entry_names e) (abs_names q)"
    and deepest: "\<And>f. f \<in> set (resolved_entries_with_cwd env p cwd) \<Longrightarrow> resolved_access f = Write \<Longrightarrow>
      prefix (entry_names f) (abs_names q) \<Longrightarrow> length (entry_names f) \<le> length (entry_names e)"
  shows "\<exists>w \<in> set (get_writable_roots_with_cwd env p cwd). path_starts_with q (root_path w) \<and>
    length (components (root_path w)) = Suc (length (entry_names e))"
proof -
  let ?R = "set (resolved_entries_with_cwd env p cwd)"
  have n: "is_normal_path (resolved_path e)" if "e \<in> ?R" for e
    using that assms(2) by (simp add: canonical_entries_def)
  have cand: "resolve_candidate_path env q cwd = q"
    "resolve_candidate_path env (resolved_path e) cwd = resolved_path e"
    using assms(3) n [OF e(1)] by (simp_all add: resolve_candidate_id)
  have eq: "covers e q" using e(3) n [OF e(1)] assms(3) by (simp add: covers_normal)
  have "can_write (resolve_access_with_cwd env p q cwd)" using assms(5) by (simp add: can_write_def)
  then obtain f where f: "f \<in> ?R" "covers f q" "resolved_access f = Write"
    "\<forall>e' \<in> ?R. covers e' q \<longrightarrow> depth e' < depth f \<or> depth e' = depth f \<and> resolved_access e' \<noteq> NoAccess"
    unfolding can_write_iff [OF assms(1)] cand by blast
  have "length (entry_names f) \<le> length (entry_names e)"
    using deepest [OF f(1,3)] f(2) n [OF f(1)] assms(3) by (simp add: covers_normal)
  then have "depth f = depth e"
    using f(4) e(1) eq n f(1) by (fastforce simp: depth_normal)
  moreover have "covers e' q" if "covers e' (resolved_path e)" for e'
    using that eq path_starts_with_trans by (auto simp: covers_def)
  ultimately have "can_write (resolve_access_with_cwd env p (resolved_path e) cwd)"
    unfolding can_write_iff [OF assms(1)] cand using e f(4)
    by (intro bexI [of _ e]) (auto simp: covers_def)
  then have "can_write_path_with_cwd env p (resolved_path e) cwd"
    using own_metadata_not_denied [OF assms(2) e(1,2)] by (simp add: can_write_path_with_cwd_def)
  from writable_root_exists [OF assms(2,4) e(1,2) this]
  obtain w where w: "w \<in> set (get_writable_roots_with_cwd env p cwd)"
    "components (root_path w) = components (resolved_path e)" by blast
  with eq show ?thesis
    using n [OF e(1)] by (intro bexI [OF _ w(1)])
      (simp add: covers_def path_starts_with_def components_normal entry_names_def)
qed

text \<open>When the deciding metadata directory lies directly below a root, its name is protected there.\<close>

lemma metadata_of_root_protected:
  assumes "policy_kind p = Restricted" "canonical_entries env p cwd" "is_normal_path q"
    "\<not> has_full_disk_write_access p" "er \<in> set (resolved_entries_with_cwd env p cwd)"
    and dec: "filter (\<lambda>e. can_write (resolved_access e)) (resolved_entries_with_cwd env p cwd) = us @ e # vs"
      "metadata_child env q e = Some (mp, k)" "\<forall>u \<in> set us. metadata_child env q u = None"
    and x: "\<not> has_explicit_write_entry_for_metadata_path env p mp q cwd"
    and same: "entry_names er = entry_names e"
  shows "\<not> is_path_writable (make_writable_root env p cwd (resolved_path er)) q"
proof
  assume w: "is_path_writable (make_writable_root env p cwd (resolved_path er)) q"
  let ?R = "set (resolved_entries_with_cwd env p cwd)"
  let ?ws = "filter (\<lambda>e. can_write (resolved_access e)) (resolved_entries_with_cwd env p cwd)"
  have n: "is_normal_path (resolved_path e)" if "e \<in> ?R" for e
    using that assms(2) by (simp add: canonical_entries_def)
  have "set (us @ e # vs) \<subseteq> ?R" unfolding dec(1) [symmetric] by auto
  then have e: "e \<in> ?R" and us: "\<And>u. u \<in> set us \<Longrightarrow> u \<in> ?R" by auto
  have k: "k \<in> set PROTECTED_METADATA_PATH_NAMES" "prefix (entry_names e @ [k]) (abs_names q)"
    and mp: "is_normal_path mp" "abs_names mp = entry_names e @ [k]"
    using dec(2) metadata_child_normal [OF assms(3) n [OF e], of env mp k] abs_join_metadata [OF n [OF e], of k]
    by (auto simp: entry_names_def)
  have req: "resolved_path er = resolved_path e"
    using n [OF assms(5)] n [OF e] same by (metis entry_names_def abs_names_inject)
  have "metadata_child env mp u = None" if u: "u \<in> set us" for u
  proof (rule ccontr)
    assume "metadata_child env mp u \<noteq> None"
    then obtain b where "b \<in> set PROTECTED_METADATA_PATH_NAMES" "prefix (entry_names u @ [b]) (abs_names mp)"
      using metadata_child_normal [OF mp(1) n [OF us [OF u]]] by fastforce
    moreover have "prefix (abs_names mp) (abs_names q)" using mp(2) k(2) by simp
    ultimately have "metadata_child env q u = Some (abs_join (home_dir env) (resolved_path u) b, b)"
      using metadata_child_normal [OF assms(3) n [OF us [OF u]]] prefix_order.trans by blast
    with dec(3) u show False by simp
  qed
  moreover have "metadata_child env mp e = Some (mp, k)"
    using metadata_child_normal [OF mp(1) n [OF e]] metadata_child_normal [OF assms(3) n [OF e]] dec(2) mp(2)
    by simp
  ultimately have "find_map (metadata_child env mp) ?ws = Some (mp, k)"
    unfolding dec(1) by (intro find_map_append) auto
  moreover have "\<not> has_explicit_write_entry_for_metadata_path env p mp mp cwd"
  proof
    assume "has_explicit_write_entry_for_metadata_path env p mp mp cwd"
    then obtain f where f: "f \<in> ?R" "resolved_access f = Write" "prefix (entry_names f) (abs_names mp)"
      "prefix (abs_names mp) (entry_names f)"
      using mp(1) n by (auto simp: has_explicit_write_entry_for_metadata_path_def list_ex_iff can_write_def
          path_starts_with_normal entry_names_def)
    then have "prefix (entry_names f) (abs_names q)"
      using mp(2) k(2) by (metis prefix_order.trans)
    with explicit_entry [OF assms(2,3) f(1,2) _ mp(1) f(4)] x show False by blast
  qed
  ultimately have "\<not> can_write_path_with_cwd env p mp cwd"
    using assms(1) mp(1) assms(4) by (simp add: can_write_path_with_cwd_def is_metadata_write_denied_def
        metadata_child_of_writable_root_def resolve_candidate_id)
  moreover have "r = resolved_path er"
    if "r \<in> set (writable_paths env p cwd)" "path_eq (normalize_effective_absolute_path env r) (resolved_path er)" for r
    using that assms(2) n assms(5) by (auto simp: writable_paths_def canonical_entries_def path_eq_normal)
  moreover have "mp = abs_join (home_dir env) (resolved_path er) k"
    using dec(2) metadata_child_normal [OF assms(3) n [OF e]] req by simp
  ultimately have "k \<in> set (protected_metadata_names (make_writable_root env p cwd (resolved_path er)))"
    using k(1) by (auto simp: make_writable_root_def Let_def protected_metadata_names_for_writable_root_def
        list_all_iff)
  moreover obtain ns where "abs_names q = entry_names er @ k # ns"
    using k(2) same by (auto simp: prefix_def)
  then have "path_strip_prefix q (root_path (make_writable_root env p cwd (resolved_path er))) = Some (Normal k # map Normal ns)"
    using assms(3) n [OF assms(5)] by (simp add: strip_prefix_Some_starts components_normal make_writable_root_def Let_def entry_names_def)
  ultimately show False
    using w by (simp add: is_path_writable_def path_contains_protected_metadata_name_def component_os_str_def)
qed

text \<open>
  A denied write to metadata: the entry whose root holds the metadata, which is as deep as every write entry
  over the path.
\<close>

lemma metadata_denial:
  assumes "canonical_entries env p cwd" "is_normal_path q" "is_metadata_write_denied env p q cwd"
  defines "R \<equiv> set (resolved_entries_with_cwd env p cwd)"
  obtains us e vs mp k
  where "filter (\<lambda>e. can_write (resolved_access e)) (resolved_entries_with_cwd env p cwd) = us @ e # vs"
    "metadata_child env q e = Some (mp, k)" "\<forall>u \<in> set us. metadata_child env q u = None"
    "\<not> has_explicit_write_entry_for_metadata_path env p mp q cwd"
    "e \<in> R" "resolved_access e = Write" "k \<in> set PROTECTED_METADATA_PATH_NAMES" "prefix (entry_names e @ [k]) (abs_names q)"
    "\<And>f. f \<in> R \<Longrightarrow> resolved_access f = Write \<Longrightarrow> prefix (entry_names f) (abs_names q) \<Longrightarrow>
       length (entry_names f) \<le> length (entry_names e)"
proof -
  let ?ws = "filter (\<lambda>e. can_write (resolved_access e)) (resolved_entries_with_cwd env p cwd)"
  obtain mp k where c: "find_map (metadata_child env q) ?ws = Some (mp, k)"
    and x: "\<not> has_explicit_write_entry_for_metadata_path env p mp q cwd"
    using assms(2,3) by (auto simp: is_metadata_write_denied_def metadata_child_of_writable_root_def
        resolve_candidate_id Let_def split: if_splits option.splits)
  obtain us e vs where dec: "?ws = us @ e # vs" "metadata_child env q e = Some (mp, k)"
    "\<forall>u \<in> set us. metadata_child env q u = None" using find_map_firstD [OF c] by blast
  then have "e \<in> set ?ws" by simp
  then have e: "e \<in> R" "resolved_access e = Write" by (auto simp: R_def can_write_def)
  then have n: "is_normal_path (resolved_path e)" using assms(1) by (simp add: canonical_entries_def R_def)
  have k: "k \<in> set PROTECTED_METADATA_PATH_NAMES" "prefix (entry_names e @ [k]) (abs_names q)"
    and mp: "is_normal_path mp" "abs_names mp = entry_names e @ [k]"
    using dec(2) metadata_child_normal [OF assms(2) n, of env mp k] abs_join_metadata [OF n, of k]
    by (auto simp: entry_names_def)
  have "length (entry_names f) \<le> length (entry_names e)"
    if "f \<in> R" "resolved_access f = Write" "prefix (entry_names f) (abs_names q)" for f
    using prefix_snoc_longer [OF k(2) that(3)] explicit_entry [OF assms(1,2) that(1) [unfolded R_def] that(2,3) mp(1)] x mp(2)
    by (metis not_le)
  then show thesis using that dec x e k by blast
qed

text \<open>The root for that entry, when the writing root is another one, protects the path.\<close>

lemma deeper_root_protects:
  assumes "policy_kind p = Restricted" "canonical_entries env p cwd" "is_normal_path q" "\<not> has_full_disk_write_access p"
    and "resolve_access_with_cwd env p q cwd = Write" "is_metadata_write_denied env p q cwd"
    and "er \<in> set (resolved_entries_with_cwd env p cwd)" "resolved_access er = Write" "prefix (entry_names er) (abs_names q)"
    and "is_path_writable (make_writable_root env p cwd (resolved_path er)) q"
  shows "\<exists>w' \<in> set (get_writable_roots_with_cwd env p cwd).
    path_starts_with q (root_path w') \<and> \<not> is_path_writable w' q \<and> depth er < length (components (root_path w')) \<and>
    (\<exists>k \<in> set PROTECTED_METADATA_PATH_NAMES. \<exists>cs. path_strip_prefix q (root_path w') = Some (Normal k # cs))"
proof -
  obtain us e vs mp k where d: "filter (\<lambda>e. can_write (resolved_access e)) (resolved_entries_with_cwd env p cwd) = us @ e # vs"
    "metadata_child env q e = Some (mp, k)" "\<forall>u \<in> set us. metadata_child env q u = None"
    "\<not> has_explicit_write_entry_for_metadata_path env p mp q cwd"
    and e: "e \<in> set (resolved_entries_with_cwd env p cwd)" "resolved_access e = Write"
    and k: "k \<in> set PROTECTED_METADATA_PATH_NAMES" "prefix (entry_names e @ [k]) (abs_names q)"
    and no: "\<And>f. f \<in> set (resolved_entries_with_cwd env p cwd) \<Longrightarrow> resolved_access f = Write \<Longrightarrow>
      prefix (entry_names f) (abs_names q) \<Longrightarrow> length (entry_names f) \<le> length (entry_names e)"
    using metadata_denial [OF assms(2,3,6)] by blast
  have n: "is_normal_path (resolved_path f)" if "f \<in> set (resolved_entries_with_cwd env p cwd)" for f
    using that assms(2) by (simp add: canonical_entries_def)
  note protected = metadata_of_root_protected [OF assms(1-4) _ d]
  have "entry_names er \<noteq> entry_names e" using protected [OF assms(7)] e assms(10) by blast
  then have less: "length (entry_names er) < length (entry_names e)"
    using no [OF assms(7-9)] prefix_eq_take [OF assms(9)] prefix_eq_take [OF append_prefixD [OF k(2)]]
    by (metis le_neq_implies_less)
  obtain w' where w': "w' \<in> set (get_writable_roots_with_cwd env p cwd)"
    "path_starts_with q (root_path w')" "length (components (root_path w')) = Suc (length (entry_names e))"
    using nested_root_exists [OF assms(1-5) e append_prefixD [OF k(2)] no] by blast
  obtain er' where er': "er' \<in> set (resolved_entries_with_cwd env p cwd)" "w' = make_writable_root env p cwd (resolved_path er')"
    using writable_root_names [OF assms(2) w'(1)] by blast
  have root': "root_path w' = resolved_path er'" by (simp add: er'(2) make_writable_root_def Let_def)
  have "prefix (entry_names er') (abs_names q)" "length (entry_names er') = length (entry_names e)"
    using w'(2,3) n [OF er'(1)] assms(3) depth_normal [OF n [OF er'(1)]]
    by (simp_all add: root' path_starts_with_normal entry_names_def depth_def)
  then have same: "entry_names er' = entry_names e"
    using prefix_eq_take prefix_eq_take [OF append_prefixD [OF k(2)]] by metis
  have "\<not> is_path_writable w' q" unfolding er'(2) by (rule protected [OF er'(1) same])
  moreover have "depth er < length (components (root_path w'))"
    using less w'(3) depth_normal [OF n [OF assms(7)]] by simp
  moreover obtain ns where "abs_names q = entry_names er' @ k # ns"
    using k(2) same by (auto simp: prefix_def)
  then have "path_strip_prefix q (root_path w') = Some (Normal k # map Normal ns)"
    using assms(3) n [OF er'(1)] by (simp add: root' strip_prefix_Some_starts components_normal entry_names_def)
  ultimately show ?thesis using w'(1,2) k(1) by blast
qed

text \<open>
  C15: under a restricted policy whose entries are canonical paths, what any of the writable roots lets a
  sandboxed process write, the entries of the policy let it write: the read-only subpaths handed to the
  platform sandboxes lose no restriction of an entry.  The policy as a whole lets it write the path too,
  unless a deeper writable root covers the path, does not let it be written and holds it below one of the
  protected metadata names; so the root that covers the path most closely loses no restriction at all.
\<close>

theorem writable_roots_sound:
  assumes "policy_kind p = Restricted" "canonical_entries env p cwd" "is_normal_path q"
    and "w \<in> set (get_writable_roots_with_cwd env p cwd)" "is_path_writable w q"
  shows "can_write (resolve_access_with_cwd env p q cwd) \<and>
    (can_write_path_with_cwd env p q cwd \<or>
     (\<exists>w' \<in> set (get_writable_roots_with_cwd env p cwd).
        path_starts_with q (root_path w') \<and> \<not> is_path_writable w' q \<and>
        length (components (root_path w)) < length (components (root_path w')) \<and>
        (\<exists>k \<in> set PROTECTED_METADATA_PATH_NAMES. \<exists>cs. path_strip_prefix q (root_path w') = Some (Normal k # cs))))"
proof -
  have nf: "\<not> has_full_disk_write_access p"
    using assms(4) by (auto simp: get_writable_roots_with_cwd_def)
  obtain er where er: "er \<in> set (resolved_entries_with_cwd env p cwd)" "resolved_access er = Write"
    "w = make_writable_root env p cwd (resolved_path er)" "can_write_path_with_cwd env p (resolved_path er) cwd"
    using writable_root_names [OF assms(2,4)] by blast
  have root: "root_path w = resolved_path er" by (simp add: er(3) make_writable_root_def Let_def)
  have "is_normal_path (resolved_path er)" using er(1) assms(2) by (simp add: canonical_entries_def)
  then have erq: "prefix (entry_names er) (abs_names q)"
    using assms(3,5) by (simp add: is_path_writable_def root path_starts_with_normal entry_names_def)
  have acc: "resolve_access_with_cwd env p q cwd = Write"
    using root_access [OF assms(1,2,3) er(1,2,4)] assms(5) by (simp add: er(3))
  then show ?thesis
    using deeper_root_protects [OF assms(1-3) nf acc _ er(1,2) erq] assms(5)
    by (auto simp: can_write_path_with_cwd_def can_write_def er(3) root [unfolded er(3)] depth_def)
qed

lemma normalize_effective_sample [simp]: "normalize_effective_absolute_path sample_env p = p"
proof -
  have "find_map (\<lambda>_. None :: str option) xs = None" for xs :: "str list" by (induction xs) auto
  then show ?thesis by (simp add: normalize_effective_absolute_path_def sample_env_def)
qed

lemma sample_writable_roots:
  "get_writable_roots_with_cwd sample_env sample_policy [slash] =
     [\<lparr>root_path = abs_display [lit ''w''], read_only_subpaths = [abs_display [lit ''w'', lit ''s'']],
       protected_metadata_names = [lit ''.git'', lit ''.agents'', lit ''.codex'']\<rparr>]"
proof -
  let ?w = "abs_display [lit ''w'']"
  have nf: "\<not> has_full_disk_write_access sample_policy"
    by (simp add: sandbox_eval metadata_eval)
  have ws: "writable_paths sample_env sample_policy [slash] = [?w]"
    by (simp add: writable_paths_def sandbox_eval metadata_eval precedence_le less_eq_access_mode_def access_rank_def)
  have ro: "read_only_paths sample_env sample_policy [slash] = [[slash], abs_display [lit ''w'', lit ''s'']]"
    by (simp add: read_only_paths_def sandbox_eval metadata_eval precedence_le less_eq_access_mode_def access_rank_def)
  have names: "protected_metadata_names_for_writable_root sample_env sample_policy ?w [?w] [slash] =
      [lit ''.git'', lit ''.agents'', lit ''.codex'']"
    by (simp add: protected_metadata_names_for_writable_root_def sandbox_eval metadata_eval precedence_le
        less_eq_access_mode_def access_rank_def)
  have defaults: "default_read_only_subpaths_for_writable_root sample_env ?w False = []"
    by (simp add: default_read_only_subpaths_for_writable_root_def sample_env_def dedup_absolute_paths_def)
  have cwd: "path_eq (env_absolute sample_env [slash]) ?w = False"
    by (simp add: env_absolute_id path_eq_def components_abs_display valid_name_lit)
  have "carveout sample_env ?w [?w] [slash] = None"
    "carveout sample_env ?w [?w] (abs_display [lit ''w'', lit ''s'']) = Some (abs_display [lit ''w'', lit ''s''])"
    by (simp_all add: carveout_def raw_carveout_path_def path_eq_def path_starts_with_def starts_with_def
        strip_prefix_def path_strip_prefix_def components_abs_display valid_name_lit parent_abs_display)
  then have "make_writable_root sample_env sample_policy [slash] ?w =
      \<lparr>root_path = ?w, read_only_subpaths = [abs_display [lit ''w'', lit ''s'']],
       protected_metadata_names = [lit ''.git'', lit ''.agents'', lit ''.codex'']\<rparr>"
    using cwd by (simp add: make_writable_root_def ws ro names defaults path_eq_def dedup_absolute_paths_def
        List.map_filter_def)
  with nf show ?thesis by (simp add: get_writable_roots_with_cwd_def ws dedup_absolute_paths_def)
qed

theorem writable_roots_sound_witness:
  "can_write (resolve_access_with_cwd sample_env sample_policy (abs_display [lit ''w'', lit ''a'']) [slash]) \<and>
   can_write_path_with_cwd sample_env sample_policy (abs_display [lit ''w'', lit ''a'']) [slash]"
proof -
  let ?q = "abs_display [lit ''w'', lit ''a'']"
  let ?w = "\<lparr>root_path = abs_display [lit ''w''], read_only_subpaths = [abs_display [lit ''w'', lit ''s'']],
       protected_metadata_names = [lit ''.git'', lit ''.agents'', lit ''.codex'']\<rparr>"
  have p: "policy_kind sample_policy = Restricted" by (simp add: sample_policy_def restricted_def)
  have c: "canonical_entries sample_env sample_policy [slash]"
    unfolding canonical_entries_def normalize_effective_sample by (simp add: sandbox_eval)
  have q: "is_normal_path ?q" by (simp add: valid_name_lit)
  have w: "?w \<in> set (get_writable_roots_with_cwd sample_env sample_policy [slash])" by (simp add: sample_writable_roots)
  have wq: "is_path_writable ?w ?q"
    by (auto simp: valid_name_lit is_path_writable_def path_starts_with_def starts_with_def
        strip_prefix_def components_abs_display path_contains_protected_metadata_name_def path_strip_prefix_def
        component_os_str_def)
  show ?thesis using writable_roots_sound [OF p c q w wq] by (simp add: sample_writable_roots)
qed

text \<open>
  With two nested writable roots the outer one lets the metadata of the inner one be written, which the
  policy denies: a sandbox that allows what any of its roots allows, as the profile of Seatbelt does, is
  weaker than the policy there.
\<close>

definition nested_policy :: file_system_sandbox_policy where
  "nested_policy = restricted [entry (Path (abs_display [lit ''w''])) Write,
     entry (Path (abs_display [lit ''w'', lit ''b''])) Write]"

lemma outer_root_allows_inner_metadata:
  defines "q \<equiv> abs_display [lit ''w'', lit ''b'', lit ''.git'']"
  shows "\<exists>w \<in> set (get_writable_roots_with_cwd sample_env nested_policy [slash]). is_path_writable w q"
    and "\<not> can_write_path_with_cwd sample_env nested_policy q [slash]"
proof -
  let ?w = "abs_display [lit ''w'']" and ?b = "abs_display [lit ''w'', lit ''b'']"
  have nf: "\<not> has_full_disk_write_access nested_policy"
    by (simp add: sandbox_eval metadata_eval nested_policy_def)
  have ws: "writable_paths sample_env nested_policy [slash] = [?w, ?b]"
    by (simp add: writable_paths_def sandbox_eval metadata_eval nested_policy_def precedence_le less_eq_access_mode_def
        access_rank_def)
  have ro: "read_only_paths sample_env nested_policy [slash] = []"
    by (simp add: read_only_paths_def sandbox_eval metadata_eval nested_policy_def precedence_le
        less_eq_access_mode_def access_rank_def)
  have defaults: "default_read_only_subpaths_for_writable_root sample_env ?w False = []"
    by (simp add: default_read_only_subpaths_for_writable_root_def sample_env_def dedup_absolute_paths_def)
  have cwd: "path_eq (env_absolute sample_env [slash]) ?w = False"
    by (simp add: env_absolute_id path_eq_def components_abs_display valid_name_lit)
  let ?r = "make_writable_root sample_env nested_policy [slash] ?w"
  have r: "root_path ?r = ?w" "read_only_subpaths ?r = []"
      "set (protected_metadata_names ?r) \<subseteq> set PROTECTED_METADATA_PATH_NAMES"
    using cwd by (auto simp: make_writable_root_def ro defaults dedup_absolute_paths_def List.map_filter_def
        protected_metadata_names_for_writable_root_def Let_def)
  have "is_path_writable ?r q"
    using r by (auto simp: is_path_writable_def q_def path_starts_with_def starts_with_def valid_name_lit
        strip_prefix_def components_abs_display path_contains_protected_metadata_name_def path_strip_prefix_def
        component_os_str_def PROTECTED_METADATA_PATH_NAMES_def)
  moreover have "?r \<in> set (get_writable_roots_with_cwd sample_env nested_policy [slash])"
    using nf by (simp add: get_writable_roots_with_cwd_def ws dedup_absolute_paths_def)
  ultimately show "\<exists>w \<in> set (get_writable_roots_with_cwd sample_env nested_policy [slash]). is_path_writable w q" by blast
  show "\<not> can_write_path_with_cwd sample_env nested_policy q [slash]"
    by (simp add: q_def sandbox_eval metadata_eval nested_policy_def precedence_le less_eq_access_mode_def access_rank_def)
qed

end
