(* ===== verification/Policy_Transforms.thy ===== *)
theory Policy_Transforms
  imports Sandbox_Enforcement
begin

text \<open>
  Additional permissions (\<^verbatim>\<open>sandboxing/src/policy_transforms.rs\<close> and the types of
  \<^verbatim>\<open>protocol/src/models.rs\<close>): what a tool call may ask for beyond the policy of the session, how a
  request is normalised, merged with the grants of earlier calls and intersected with what was granted,
  and the policy a command runs under once the grants are applied.  The lemmas state which reads and
  writes the results allow in terms of the access function of \<^verbatim>\<open>Sandbox_Policy\<close>.
\<close>

section \<open>Permissions\<close>

record file_system_permissions =
  perm_entries :: "sandbox_entry list"
  perm_glob_depth :: "nat option"

record network_permissions =
  net_enabled :: "bool option"

record additional_permission_profile =
  add_network :: "network_permissions option"
  add_file_system :: "file_system_permissions option"

definition fs_perms_empty :: "file_system_permissions \<Rightarrow> bool" where
  "fs_perms_empty f \<longleftrightarrow> perm_entries f = []"

definition net_perms_empty :: "network_permissions \<Rightarrow> bool" where
  "net_perms_empty n \<longleftrightarrow> net_enabled n = None"

definition add_perms_empty :: "additional_permission_profile \<Rightarrow> bool" where
  "add_perms_empty a \<longleftrightarrow> add_network a = None \<and> add_file_system a = None"

definition from_read_write_roots ::
  "abs_path_buf list option \<Rightarrow> abs_path_buf list option \<Rightarrow> file_system_permissions" where
  "from_read_write_roots rd wr =
     \<lparr>perm_entries =
        (case rd of None \<Rightarrow> [] | Some ps \<Rightarrow> map (\<lambda>p. entry (Path p) Read) ps) @
        (case wr of None \<Rightarrow> [] | Some ps \<Rightarrow> map (\<lambda>p. entry (Path p) Write) ps),
      perm_glob_depth = None\<rparr>"

definition explicit_path_entries :: "file_system_permissions \<Rightarrow> (abs_path_buf \<times> access_mode) list" where
  "explicit_path_entries f =
     List.map_filter (\<lambda>e. case entry_path e of Path p \<Rightarrow> Some (p, entry_access e) | _ \<Rightarrow> None) (perm_entries f)"

text \<open>The roots collected so far by \<^verbatim>\<open>as_legacy_permissions\<close>; an early return is \<^verbatim>\<open>None\<close>.\<close>

fun legacy_roots_from ::
  "sandbox_entry list \<Rightarrow> abs_path_buf list \<Rightarrow> abs_path_buf list \<Rightarrow> (abs_path_buf list \<times> abs_path_buf list) option" where
  "legacy_roots_from [] rd wr = Some (rd, wr)"
| "legacy_roots_from (e # es) rd wr =
     (case entry_path e of
        Path p \<Rightarrow>
          (case entry_access e of
             Read \<Rightarrow> legacy_roots_from es (rd @ [p]) wr
           | Write \<Rightarrow> legacy_roots_from es rd (wr @ [p])
           | NoAccess \<Rightarrow> None)
      | _ \<Rightarrow> None)"

definition some_if_nonempty :: "'a list \<Rightarrow> 'a list option" where
  "some_if_nonempty xs = (if xs = [] then None else Some xs)"

definition legacy_read_write_roots ::
  "file_system_permissions \<Rightarrow> (abs_path_buf list option \<times> abs_path_buf list option) option" where
  "legacy_read_write_roots f =
     (if perm_glob_depth f \<noteq> None then None
      else map_option (\<lambda>(rd, wr). (some_if_nonempty rd, some_if_nonempty wr)) (legacy_roots_from (perm_entries f) [] []))"

section \<open>Normalising a request\<close>

definition is_glob :: "file_system_path \<Rightarrow> bool" where
  "is_glob p = (case p of GlobPattern _ \<Rightarrow> True | _ \<Rightarrow> False)"

definition normalize_permission_path :: "os_env \<Rightarrow> file_system_path \<Rightarrow> file_system_path" where
  "normalize_permission_path env p =
     (case p of Path q \<Rightarrow> Path (env_absolute env (canonicalize_preserving_symlinks env q)) | _ \<Rightarrow> p)"

definition GLOB_NOT_DENY :: string where
  "GLOB_NOT_DENY = ''glob file system permissions only support deny-read entries''"

fun normalize_entries ::
  "os_env \<Rightarrow> sandbox_entry list \<Rightarrow> sandbox_entry list \<Rightarrow> string + sandbox_entry list" where
  "normalize_entries env acc [] = Inr acc"
| "normalize_entries env acc (e # es) =
     (if is_glob (entry_path e) \<and> entry_access e \<noteq> NoAccess then Inl GLOB_NOT_DENY
      else normalize_entries env
        (push_missing acc (entry (normalize_permission_path env (entry_path e)) (entry_access e))) es)"

definition option_filter :: "('a \<Rightarrow> bool) \<Rightarrow> 'a option \<Rightarrow> 'a option" where
  "option_filter P x = (case x of Some y \<Rightarrow> if P y then Some y else None | None \<Rightarrow> None)"

definition normalize_additional_permissions ::
  "os_env \<Rightarrow> additional_permission_profile \<Rightarrow> string + additional_permission_profile" where
  "normalize_additional_permissions env a =
     (let net = option_filter (\<lambda>n. \<not> net_perms_empty n) (add_network a) in
      case add_file_system a of
        None \<Rightarrow> Inr \<lparr>add_network = net, add_file_system = None\<rparr>
      | Some f \<Rightarrow>
          (case normalize_entries env [] (perm_entries f) of
             Inl e \<Rightarrow> Inl e
           | Inr es \<Rightarrow> Inr \<lparr>add_network = net,
               add_file_system = option_filter (\<lambda>f. \<not> fs_perms_empty f)
                 (Some \<lparr>perm_entries = es, perm_glob_depth = perm_glob_depth f\<rparr>)\<rparr>))"

section \<open>Merging\<close>

datatype glob_scan_depth = Bounded nat | Unbounded

definition denies_glob :: "sandbox_entry \<Rightarrow> bool" where
  "denies_glob e \<longleftrightarrow> entry_access e = NoAccess \<and> is_glob (entry_path e)"

definition effective_glob_scan_depth :: "sandbox_entry list \<Rightarrow> nat option \<Rightarrow> glob_scan_depth option" where
  "effective_glob_scan_depth es d =
     (if list_ex denies_glob es then Some (case d of Some n \<Rightarrow> Bounded n | None \<Rightarrow> Unbounded) else None)"

definition merge_glob_scan_max_depth ::
  "sandbox_entry list \<Rightarrow> nat option \<Rightarrow> sandbox_entry list \<Rightarrow> nat option \<Rightarrow> nat option" where
  "merge_glob_scan_max_depth les ld res rd =
     (case (effective_glob_scan_depth les ld, effective_glob_scan_depth res rd) of
        (Some Unbounded, _) \<Rightarrow> None
      | (_, Some Unbounded) \<Rightarrow> None
      | (Some (Bounded l), Some (Bounded r)) \<Rightarrow> Some (max l r)
      | (Some (Bounded l), None) \<Rightarrow> Some l
      | (None, Some (Bounded r)) \<Rightarrow> Some r
      | (None, None) \<Rightarrow> None)"

definition merge_permission_entries :: "sandbox_entry list \<Rightarrow> sandbox_entry list \<Rightarrow> sandbox_entry list" where
  "merge_permission_entries base perms = foldl push_missing [] (base @ perms)"

definition enables :: "network_permissions option \<Rightarrow> bool" where
  "enables n \<longleftrightarrow> n = Some \<lparr>net_enabled = Some True\<rparr>"

definition enabled_network :: "bool \<Rightarrow> network_permissions option" where
  "enabled_network b = (if b then Some \<lparr>net_enabled = Some True\<rparr> else None)"

definition merge_permission_profiles ::
  "additional_permission_profile option \<Rightarrow> additional_permission_profile option \<Rightarrow>
    additional_permission_profile option" where
  "merge_permission_profiles base perms =
     (case perms of
        None \<Rightarrow> base
      | Some p \<Rightarrow>
          (case base of
             None \<Rightarrow> option_filter (\<lambda>a. \<not> add_perms_empty a) (Some p)
           | Some b \<Rightarrow>
               option_filter (\<lambda>a. \<not> add_perms_empty a)
                 (Some \<lparr>add_network = enabled_network (enables (add_network b) \<or> enables (add_network p)),
                   add_file_system =
                     (case (add_file_system b, add_file_system p) of
                        (Some fb, Some fp) \<Rightarrow>
                          option_filter (\<lambda>f. \<not> fs_perms_empty f)
                            (Some \<lparr>perm_entries = merge_permission_entries (perm_entries fb) (perm_entries fp),
                              perm_glob_depth = nonzero (merge_glob_scan_max_depth
                                (perm_entries fb) (perm_glob_depth fb) (perm_entries fp) (perm_glob_depth fp))\<rparr>)
                      | (Some fb, None) \<Rightarrow> Some fb
                      | (None, Some fp) \<Rightarrow> Some fp
                      | (None, None) \<Rightarrow> None)\<rparr>)))"

section \<open>Intersecting a request with a grant\<close>

text \<open>\<^verbatim>\<open>Path::parent\<close> of a path that need not be absolute.\<close>

definition std_parent :: "str \<Rightarrow> str option" where
  "std_parent p =
     (let cs = components p in
      if cs = [] \<or> cs = [RootDir] then None
      else Some (os_str (foldl push_component \<lparr>rooted = False, names = []\<rparr> (butlast cs))))"

text \<open>
  The root below the last ancestor of the working directory; \<^verbatim>\<open>Path::ancestors\<close> of a relative path ends
  with the empty path.
\<close>

definition resolve_permission_path :: "os_env \<Rightarrow> file_system_path \<Rightarrow> str \<Rightarrow> abs_path_buf option" where
  "resolve_permission_path env p cwd =
     (case p of
        Path q \<Rightarrow> Some q
      | GlobPattern _ \<Rightarrow> None
      | Special v \<Rightarrow>
          (case v of
             Root \<Rightarrow> Some (env_absolute env (if is_absolute cwd then [slash] else []))
           | ProjectRoots subpath \<Rightarrow>
               (let cwd = env_absolute env cwd in
                Some (case subpath of
                        Some s \<Rightarrow> resolve_path_against_base (home_dir env) s cwd
                      | None \<Rightarrow> cwd))
           | Tmpdir \<Rightarrow>
               (case tmpdir_var env of
                  None \<Rightarrow> None
                | Some tmpdir \<Rightarrow> if tmpdir = [] then None else Some (env_absolute env tmpdir))
           | SlashTmp \<Rightarrow>
               option_filter (is_dir env) (Some (env_absolute env (lit ''/tmp'')))
           | Minimal \<Rightarrow> None
           | UnknownSpecial _ _ \<Rightarrow> None))"

definition is_glob_char :: "uchar \<Rightarrow> bool" where
  "is_glob_char c \<longleftrightarrow> c \<in> set (lit ''*?[]'')"

definition glob_static_prefix_path :: "os_env \<Rightarrow> str \<Rightarrow> str \<Rightarrow> abs_path_buf option" where
  "glob_static_prefix_path env pattern cwd =
     (let resolved = resolve_path_against_base (home_dir env) pattern cwd;
          prefix = takeWhile (\<lambda>c. \<not> is_glob_char c) resolved in
      if prefix = resolved then Some (env_absolute env resolved)
      else if prefix = [] then None
      else if ends_with prefix [slash] \<or> ends_with prefix (lit [CHR 0x5C]) then Some (env_absolute env prefix)
      else map_option (env_absolute env) (std_parent prefix))"

definition paths_overlap :: "str \<Rightarrow> str \<Rightarrow> bool" where
  "paths_overlap l r \<longleftrightarrow> path_starts_with l r \<or> path_starts_with r l"

fun access_covers :: "access_mode \<Rightarrow> access_mode \<Rightarrow> bool" where
  "access_covers requested Read = can_read requested"
| "access_covers requested Write = can_write requested"
| "access_covers requested NoAccess = False"

definition materialize_cwd_dependent_entry :: "os_env \<Rightarrow> sandbox_entry \<Rightarrow> str \<Rightarrow> sandbox_entry" where
  "materialize_cwd_dependent_entry env e cwd =
     (case entry_path e of
        Special (ProjectRoots _) \<Rightarrow>
          (case resolve_permission_path env (entry_path e) cwd of
             Some p \<Rightarrow> entry (Path p) (entry_access e)
           | None \<Rightarrow> e)
      | GlobPattern pattern \<Rightarrow>
          entry (GlobPattern (resolve_path_against_base (home_dir env) pattern cwd)) (entry_access e)
      | _ \<Rightarrow> e)"

definition granted_file_system_entry_within_request ::
  "os_env \<Rightarrow> file_system_permissions \<Rightarrow> file_system_sandbox_policy \<Rightarrow> read_deny_matcher option \<Rightarrow>
    sandbox_entry \<Rightarrow> str \<Rightarrow> bool" where
  "granted_file_system_entry_within_request env requested policy matcher granted cwd =
     (if \<not> can_read (entry_access granted) then False
      else
        case resolve_permission_path env (entry_path granted) cwd of
          Some p \<Rightarrow>
            if (case matcher of Some m \<Rightarrow> is_read_denied env m p | None \<Rightarrow> False) then False
            else access_covers (resolve_access_with_cwd env policy p cwd) (entry_access granted)
        | None \<Rightarrow>
            list_ex (\<lambda>r. access_covers (entry_access r) (entry_access granted) \<and>
              file_system_path_eq (entry_path r) (entry_path granted)) (perm_entries requested))"

definition deny_entry_constrains_accepted_grant ::
  "os_env \<Rightarrow> sandbox_entry \<Rightarrow> sandbox_entry list \<Rightarrow> str \<Rightarrow> bool" where
  "deny_entry_constrains_accepted_grant env deny accepted cwd =
     list_ex (\<lambda>e.
       case resolve_permission_path env (entry_path e) cwd of
         None \<Rightarrow> False
       | Some grant_path \<Rightarrow>
           (case (case entry_path deny of
                    GlobPattern pattern \<Rightarrow> glob_static_prefix_path env pattern cwd
                  | _ \<Rightarrow> resolve_permission_path env (entry_path deny) cwd) of
              Some deny_path \<Rightarrow> paths_overlap deny_path grant_path
            | None \<Rightarrow> False))
       (filter (\<lambda>e. can_read (entry_access e)) accepted)"

text \<open>The retained entries and the entries of the result so far.\<close>

definition retain_step ::
  "os_env \<Rightarrow> sandbox_entry list \<Rightarrow> str \<Rightarrow> sandbox_entry list \<times> sandbox_entry list \<Rightarrow> sandbox_entry \<Rightarrow>
    sandbox_entry list \<times> sandbox_entry list" where
  "retain_step env accepted cwd = (\<lambda>(retained, out) e.
     if \<not> deny_entry_constrains_accepted_grant env e accepted cwd then (retained, out)
     else let e' = materialize_cwd_dependent_entry env e cwd in (retained @ [e'], push_missing out e'))"

definition retain_constraining_deny_entries ::
  "os_env \<Rightarrow> sandbox_entry list \<Rightarrow> sandbox_entry list \<Rightarrow> str \<Rightarrow> sandbox_entry list \<Rightarrow>
    sandbox_entry list \<times> sandbox_entry list" where
  "retain_constraining_deny_entries env source accepted cwd out =
     foldl (retain_step env accepted cwd) ([], out) (filter (\<lambda>e. entry_access e = NoAccess) source)"

definition accepted_entries ::
  "glob_builder \<Rightarrow> os_env \<Rightarrow> file_system_permissions \<Rightarrow> file_system_permissions \<Rightarrow> str \<Rightarrow> sandbox_entry list" where
  "accepted_entries build env requested granted cwd =
     (let policy = restricted (perm_entries requested);
          matcher = new_read_deny_matcher build env policy cwd in
      foldl (\<lambda>acc e. push_missing acc (materialize_cwd_dependent_entry env e cwd)) []
        (filter (\<lambda>e. granted_file_system_entry_within_request env requested policy matcher e cwd)
          (perm_entries granted)))"

definition intersect_file_system ::
  "glob_builder \<Rightarrow> os_env \<Rightarrow> file_system_permissions \<Rightarrow> file_system_permissions \<Rightarrow> str \<Rightarrow> file_system_permissions" where
  "intersect_file_system build env requested granted cwd =
     (let accepted = accepted_entries build env requested granted cwd;
          (req_retained, out1) = retain_constraining_deny_entries env (perm_entries requested) accepted cwd accepted;
          (gr_retained, out2) = retain_constraining_deny_entries env (perm_entries granted) accepted cwd out1
      in \<lparr>perm_entries = out2,
          perm_glob_depth = nonzero (merge_glob_scan_max_depth req_retained (perm_glob_depth requested)
            gr_retained (perm_glob_depth granted))\<rparr>)"

definition default_permissions :: file_system_permissions where
  "default_permissions = \<lparr>perm_entries = [], perm_glob_depth = None\<rparr>"

definition intersect_permission_profiles ::
  "glob_builder \<Rightarrow> os_env \<Rightarrow> additional_permission_profile \<Rightarrow> additional_permission_profile \<Rightarrow> str \<Rightarrow>
    additional_permission_profile" where
  "intersect_permission_profiles build env requested granted cwd =
     \<lparr>add_network = enabled_network (enables (add_network requested) \<and> enables (add_network granted)),
      add_file_system = option_filter (\<lambda>f. \<not> fs_perms_empty f)
        (map_option (\<lambda>rf. intersect_file_system build env rf
           (case add_file_system granted of Some gf \<Rightarrow> gf | None \<Rightarrow> default_permissions) cwd)
          (add_file_system requested))\<rparr>"

section \<open>The effective policy\<close>

definition merge_file_system_policy_with_additional_permissions ::
  "file_system_sandbox_policy \<Rightarrow> file_system_permissions \<Rightarrow> file_system_sandbox_policy" where
  "merge_file_system_policy_with_additional_permissions p f =
     (case policy_kind p of
        Restricted \<Rightarrow>
          p\<lparr>policy_entries := foldl push_missing (policy_entries p) (perm_entries f),
            glob_scan_max_depth := merge_glob_scan_max_depth (policy_entries p) (glob_scan_max_depth p)
              (perm_entries f) (perm_glob_depth f)\<rparr>
      | _ \<Rightarrow> p)"

definition effective_file_system_sandbox_policy ::
  "file_system_sandbox_policy \<Rightarrow> additional_permission_profile option \<Rightarrow> file_system_sandbox_policy" where
  "effective_file_system_sandbox_policy p a =
     (case a of
        None \<Rightarrow> p
      | Some a \<Rightarrow>
          (case add_file_system a of
             None \<Rightarrow> p
           | Some f \<Rightarrow> if fs_perms_empty f then p else merge_file_system_policy_with_additional_permissions p f))"

definition merge_network_access :: "bool \<Rightarrow> additional_permission_profile \<Rightarrow> bool" where
  "merge_network_access base a \<longleftrightarrow>
     base \<or> (case Option.bind (add_network a) net_enabled of Some b \<Rightarrow> b | None \<Rightarrow> False)"

definition effective_network_sandbox_policy ::
  "network_sandbox_policy \<Rightarrow> additional_permission_profile option \<Rightarrow> network_sandbox_policy" where
  "effective_network_sandbox_policy n a =
     (if (case a of Some a \<Rightarrow> merge_network_access (network_is_enabled n) a | None \<Rightarrow> False) then NetworkEnabled
      else if a \<noteq> None then NetworkRestricted
      else n)"

definition effective_permission_profile ::
  "permission_profile \<Rightarrow> additional_permission_profile option \<Rightarrow> permission_profile option" where
  "effective_permission_profile pr a =
     (let (fs, net) = to_runtime_permissions pr in
      from_runtime_permissions_with_enforcement (enforcement pr)
        (effective_file_system_sandbox_policy fs a) (effective_network_sandbox_policy net a))"


section \<open>Paths of permissions\<close>

lemma env_absolute_root: "env_absolute env [slash] = [slash]"
proof -
  have "is_normal_path [slash]" using is_normal_path_abs_display [of "[]"] by (simp add: abs_display_def)
  then show ?thesis by (rule env_absolute_id)
qed

lemma resolve_permission_path_eq:
  "is_absolute cwd \<Longrightarrow> resolve_permission_path env p cwd = resolve_entry_path env p (env_absolute env cwd)"
  by (auto simp: resolve_permission_path_def resolve_entry_path_def absolute_root_path_for_cwd_def env_absolute_root
      option_filter_def Let_def split: file_system_path.splits special_path.splits option.splits)

text \<open>The resolved entries of a restricted policy, by the function this module resolves paths with.\<close>

lemma resolved_restricted:
  assumes "is_absolute cwd"
  shows "r \<in> set (resolved_entries_with_cwd env (restricted es) cwd) \<longleftrightarrow>
    (\<exists>e \<in> set es. resolve_permission_path env (entry_path e) cwd = Some (resolved_path r) \<and>
       entry_access e = resolved_access r)"
  using resolve_permission_path_eq [OF assms]
  by (force simp: resolved_entries_with_cwd_def restricted_def List.map_filter_def)

lemma materialize_access [simp]: "entry_access (materialize_cwd_dependent_entry env e cwd) = entry_access e"
  by (auto simp: materialize_cwd_dependent_entry_def entry_def
      split: file_system_path.split special_path.split option.split)

lemma materialize_path:
  "resolve_permission_path env (entry_path (materialize_cwd_dependent_entry env e cwd)) cwd =
    resolve_permission_path env (entry_path e) cwd"
  by (auto simp: materialize_cwd_dependent_entry_def resolve_permission_path_def entry_def Let_def
      split: file_system_path.split special_path.split option.split)

lemma materialize_no_roots: "entry_path (materialize_cwd_dependent_entry env e cwd) \<noteq> Special (ProjectRoots s)"
  by (auto simp: materialize_cwd_dependent_entry_def resolve_permission_path_def entry_def Let_def
      split: file_system_path.split special_path.split option.split)

text \<open>Entries that compare equal cover the same paths, except below \<^verbatim>\<open>ProjectRoots\<close>.\<close>

lemma entry_eq_resolve:
  assumes "entry_eq a b" "\<And>s. entry_path b \<noteq> Special (ProjectRoots s)"
    and "resolve_permission_path env (entry_path b) cwd = Some p"
  shows "\<exists>p'. resolve_permission_path env (entry_path a) cwd = Some p' \<and> components p' = components p \<and>
    entry_access a = entry_access b"
proof (cases "entry_path b")
  case (Path q)
  with assms show ?thesis
    by (cases "entry_path a") (auto simp: entry_eq_def path_eq_def resolve_permission_path_def)
next
  case (Special v)
  with assms show ?thesis
    by (cases "entry_path a"; cases v) (auto simp: entry_eq_def resolve_permission_path_def elim!: special_path_eq.elims)
qed (use assms(3) in \<open>simp add: resolve_permission_path_def\<close>)

lemma resolve_permission_path_normal:
  assumes "is_absolute (current_dir env)" "resolve_permission_path env q cwd = Some p"
    and "\<And>s. q = Path s \<Longrightarrow> is_normal_path s"
  shows "is_normal_path p"
proof -
  have n: "is_normal_path (env_absolute env s)" for s by (rule env_absolute_normal [OF assms(1)])
  then have "is_normal_path (resolve_path_against_base h s (env_absolute env cwd))" for h s
    by (simp add: is_normal_path_absolute resolve_is_normal_path)
  with n assms(2,3) show ?thesis
    by (auto simp: resolve_permission_path_def option_filter_def Let_def
        split: file_system_path.splits special_path.splits option.splits if_splits)
qed


section \<open>What an intersection keeps\<close>

lemma entry_eq_refl [simp]: "entry_eq e e"
proof -
  have "option_path_eq s s" for s by (cases s) (simp_all add: path_eq_def)
  then have "special_path_eq v v" for v by (cases v) simp_all
  then have "file_system_path_eq p p" for p by (cases p) (simp_all add: path_eq_def)
  then show ?thesis by (simp add: entry_eq_def)
qed

lemma push_missing_set: "set es \<subseteq> set (push_missing es d)" "set (push_missing es d) \<subseteq> insert d (set es)"
    "\<exists>e \<in> set (push_missing es d). entry_eq e d"
  by (auto simp: push_missing_def list_ex_iff)

lemma accepted_from:
  assumes "x \<in> set (foldl (\<lambda>acc e. push_missing acc (f e)) acc es)"
  shows "x \<in> set acc \<or> (\<exists>e \<in> set es. x = f e)"
  using assms
proof (induction es arbitrary: acc)
  case (Cons e es)
  from Cons.IH [of "push_missing acc (f e)"] Cons.prems push_missing_set(2) [of acc "f e"] show ?case by auto
qed simp

lemma retain_steps:
  assumes "foldl (retain_step env accepted cwd) (ret, out) ds = (ret', out')"
  shows "set out \<subseteq> set out' \<and>
    set out' \<subseteq> set out \<union> (\<lambda>d. materialize_cwd_dependent_entry env d cwd) ` set ds \<and>
    (\<forall>d \<in> set ds. deny_entry_constrains_accepted_grant env d accepted cwd \<longrightarrow>
      (\<exists>x \<in> set out'. entry_eq x (materialize_cwd_dependent_entry env d cwd)))"
  using assms
proof (induction ds arbitrary: ret out)
  case (Cons c ds)
  let ?m = "materialize_cwd_dependent_entry env c cwd"
  show ?case
  proof (cases "deny_entry_constrains_accepted_grant env c accepted cwd")
    case True
    with Cons.prems have "foldl (retain_step env accepted cwd) (ret @ [?m], push_missing out ?m) ds = (ret', out')"
      by (simp add: retain_step_def Let_def)
    from Cons.IH [OF this] push_missing_set [of out ?m] show ?thesis by (simp add: subset_iff) blast
  next
    case False
    with Cons.prems have "foldl (retain_step env accepted cwd) (ret, out) ds = (ret', out')"
      by (simp add: retain_step_def)
    from Cons.IH [OF this] False show ?thesis by auto
  qed
qed simp

lemma retain_denies:
  assumes "retain_constraining_deny_entries env src accepted cwd out = (ret, out')"
  shows "set out \<subseteq> set out'"
    and "x \<in> set out' \<Longrightarrow> x \<in> set out \<or> entry_access x = NoAccess"
    and "d \<in> set src \<Longrightarrow> entry_access d = NoAccess \<Longrightarrow> deny_entry_constrains_accepted_grant env d accepted cwd \<Longrightarrow>
      \<exists>x \<in> set out'. entry_eq x (materialize_cwd_dependent_entry env d cwd)"
  using retain_steps [OF assms [unfolded retain_constraining_deny_entries_def]] by auto

text \<open>An entry that lets a path be read was granted and lies within the request; the others are deny entries.\<close>

lemma intersect_stages:
  obtains r1 o1 r2 where
    "retain_constraining_deny_entries env (perm_entries rf) (accepted_entries build env rf gf cwd) cwd
       (accepted_entries build env rf gf cwd) = (r1, o1)"
    "retain_constraining_deny_entries env (perm_entries gf) (accepted_entries build env rf gf cwd) cwd o1 =
       (r2, perm_entries (intersect_file_system build env rf gf cwd))"
  by (simp add: intersect_file_system_def Let_def split_def) (metis prod.collapse)

lemma readable_is_accepted:
  assumes "x \<in> set (perm_entries (intersect_file_system build env rf gf cwd))" "entry_access x \<noteq> NoAccess"
  shows "x \<in> set (accepted_entries build env rf gf cwd)"
  by (rule intersect_stages [of env rf build gf cwd]) (use assms retain_denies(2) in blast)

lemma readable_was_granted:
  assumes "x \<in> set (accepted_entries build env rf gf cwd)"
  obtains g where "g \<in> set (perm_entries gf)" "x = materialize_cwd_dependent_entry env g cwd"
      "granted_file_system_entry_within_request env rf (restricted (perm_entries rf))
         (new_read_deny_matcher build env (restricted (perm_entries rf)) cwd) g cwd"
  using assms accepted_from [of x "\<lambda>e. materialize_cwd_dependent_entry env e cwd" "[]"]
  by (fastforce simp: accepted_entries_def Let_def)

lemma intersect_keeps_denies:
  assumes "d \<in> set (perm_entries rf) \<union> set (perm_entries gf)" "entry_access d = NoAccess"
    and "a \<in> set (accepted_entries build env rf gf cwd)" "can_read (entry_access a)"
    and "resolve_permission_path env (entry_path a) cwd = Some p"
    and "resolve_permission_path env (entry_path d) cwd = Some dp" "paths_overlap dp p"
  shows "\<exists>x \<in> set (perm_entries (intersect_file_system build env rf gf cwd)).
    entry_eq x (materialize_cwd_dependent_entry env d cwd)"
proof -
  have "entry_path d \<noteq> GlobPattern s" for s using assms(6) by (auto simp: resolve_permission_path_def)
  then have c: "deny_entry_constrains_accepted_grant env d (accepted_entries build env rf gf cwd) cwd"
    using assms(3-7) by (auto simp: deny_entry_constrains_accepted_grant_def list_ex_iff split: file_system_path.split)
  show ?thesis
  proof (rule intersect_stages [of env rf build gf cwd])
    fix r1 o1 r2
    assume 1: "retain_constraining_deny_entries env (perm_entries rf) (accepted_entries build env rf gf cwd) cwd
        (accepted_entries build env rf gf cwd) = (r1, o1)"
      and 2: "retain_constraining_deny_entries env (perm_entries gf) (accepted_entries build env rf gf cwd) cwd o1 =
        (r2, perm_entries (intersect_file_system build env rf gf cwd))"
    from assms(1) show ?thesis
      using retain_denies(3) [OF 1 _ assms(2) c] retain_denies(1) [OF 2] retain_denies(3) [OF 2 _ assms(2) c] by blast
  qed
qed

section \<open>An intersection grants no more than the request and the grant\<close>

lemma covers_cong: "components (resolved_path a) = components (resolved_path b) \<Longrightarrow> covers a q = covers b q \<and> depth a = depth b"
  by (simp add: covers_def path_starts_with_def depth_def)

text \<open>
  A deny entry of either side that covers the path in question together with a readable entry of the
  result is kept, so it is less specific than the entry that decides.
\<close>

lemma intersect_deny_depth:
  assumes cwd: "is_absolute cwd"
    and R: "R = set (resolved_entries_with_cwd env (restricted (perm_entries (intersect_file_system build env rf gf cwd))) cwd)"
    and e: "e \<in> R" "resolved_access e \<noteq> NoAccess" "covers e t"
    and max: "\<forall>e' \<in> R. covers e' t \<longrightarrow> resolved_access e' = NoAccess \<longrightarrow> depth e' < depth e"
    and d: "d \<in> set (resolved_entries_with_cwd env (restricted (perm_entries rf)) cwd) \<union>
        set (resolved_entries_with_cwd env (restricted (perm_entries gf)) cwd)"
      "resolved_access d = NoAccess" "covers d t"
  shows "depth d < depth e"
proof -
  let ?out = "perm_entries (intersect_file_system build env rf gf cwd)"
  from d(1) obtain de where de: "de \<in> set (perm_entries rf) \<union> set (perm_entries gf)" "entry_access de = NoAccess"
      "resolve_permission_path env (entry_path de) cwd = Some (resolved_path d)"
    using d(2) by (auto simp: resolved_restricted [OF cwd])
  from e(1) obtain x where x: "x \<in> set ?out" "resolve_permission_path env (entry_path x) cwd = Some (resolved_path e)"
      "entry_access x = resolved_access e"
    by (auto simp: R resolved_restricted [OF cwd])
  have "can_read (entry_access x)" using x(3) e(2) by (simp add: can_read_def)
  moreover have "x \<in> set (accepted_entries build env rf gf cwd)"
    using readable_is_accepted [OF x(1)] x(3) e(2) by simp
  moreover have "paths_overlap (resolved_path d) (resolved_path e)"
    using path_starts_with_cases e(3) d(3) by (auto simp: covers_def paths_overlap_def)
  ultimately obtain k where k: "k \<in> set ?out" "entry_eq k (materialize_cwd_dependent_entry env de cwd)"
    using intersect_keeps_denies [OF de(1,2) _ _ x(2) de(3)] by blast
  have "resolve_permission_path env (entry_path (materialize_cwd_dependent_entry env de cwd)) cwd = Some (resolved_path d)"
    using de(3) by (simp add: materialize_path)
  from entry_eq_resolve [OF k(2) materialize_no_roots this]
  obtain p' where p': "resolve_permission_path env (entry_path k) cwd = Some p'"
      "components p' = components (resolved_path d)" "entry_access k = NoAccess"
    using de(2) by auto
  define kd where "kd = \<lparr>resolved_path = p', resolved_access = NoAccess\<rparr>"
  have "kd \<in> R" using k(1) p' by (auto simp: R resolved_restricted [OF cwd] kd_def)
  moreover have "covers kd t = covers d t" "depth kd = depth d"
    using covers_cong [of kd d t] p'(2) by (auto simp: kd_def)
  ultimately show ?thesis using max d(3) by (force simp: kd_def)
qed

text \<open>The granted entry behind a readable entry of the result, and what the request says of its path.\<close>

lemma intersect_entry_source:
  assumes cwd: "is_absolute cwd" "is_absolute (current_dir env)"
    and normal: "\<forall>g \<in> set (perm_entries gf). \<forall>s. entry_path g = Path s \<longrightarrow> is_normal_path s"
    and e: "e \<in> set (resolved_entries_with_cwd env (restricted (perm_entries (intersect_file_system build env rf gf cwd))) cwd)"
      "resolved_access e \<noteq> NoAccess" "covers e t"
  shows "e \<in> set (resolved_entries_with_cwd env (restricted (perm_entries gf)) cwd)"
    and "is_normal_path (resolved_path e)"
    and "access_covers (resolve_access_with_cwd env (restricted (perm_entries rf)) (resolved_path e) cwd) (resolved_access e)"
proof -
  from e(1) obtain x where x: "x \<in> set (perm_entries (intersect_file_system build env rf gf cwd))"
      "resolve_permission_path env (entry_path x) cwd = Some (resolved_path e)" "entry_access x = resolved_access e"
    by (auto simp: resolved_restricted [OF cwd(1)])
  have "x \<in> set (accepted_entries build env rf gf cwd)" using readable_is_accepted [OF x(1)] x(3) e(2) by simp
  then obtain g where g: "g \<in> set (perm_entries gf)" "x = materialize_cwd_dependent_entry env g cwd"
      "granted_file_system_entry_within_request env rf (restricted (perm_entries rf))
         (new_read_deny_matcher build env (restricted (perm_entries rf)) cwd) g cwd"
    by (rule readable_was_granted)
  then have p: "resolve_permission_path env (entry_path g) cwd = Some (resolved_path e)"
    using x(2) by (simp add: materialize_path)
  then show "e \<in> set (resolved_entries_with_cwd env (restricted (perm_entries gf)) cwd)"
    using g x(3) by (auto simp: resolved_restricted [OF cwd(1)])
  show "is_normal_path (resolved_path e)"
    using resolve_permission_path_normal [OF cwd(2) p] normal g(1) by blast
  show "access_covers (resolve_access_with_cwd env (restricted (perm_entries rf)) (resolved_path e) cwd) (resolved_access e)"
    using g(2,3) p x(3) by (auto simp: granted_file_system_entry_within_request_def split: if_splits)
qed

lemma intersect_reads:
  assumes cwd: "is_absolute cwd" "is_absolute (current_dir env)"
    and normal: "\<forall>g \<in> set (perm_entries gf). \<forall>s. entry_path g = Path s \<longrightarrow> is_normal_path s"
    and read: "can_read_path_with_cwd env (restricted (perm_entries (intersect_file_system build env rf gf cwd))) q cwd"
  shows "can_read_path_with_cwd env (restricted (perm_entries rf)) q cwd \<and>
    can_read_path_with_cwd env (restricted (perm_entries gf)) q cwd"
proof -
  let ?t = "resolve_candidate_path env q cwd"
  let ?R = "\<lambda>es. set (resolved_entries_with_cwd env (restricted es) cwd)"
  let ?out = "perm_entries (intersect_file_system build env rf gf cwd)"
  have k: "policy_kind (restricted es) = Restricted" for es by (simp add: restricted_def)
  from read obtain e where e: "e \<in> ?R ?out" "resolved_access e \<noteq> NoAccess" "covers e ?t"
    and max: "\<forall>e' \<in> ?R ?out. covers e' ?t \<longrightarrow> resolved_access e' = NoAccess \<longrightarrow> depth e' < depth e"
    using can_read_iff [OF k] by blast
  note source = intersect_entry_source [OF cwd normal e]
  note deep = intersect_deny_depth [OF cwd(1) refl e max]
  have "can_read_path_with_cwd env (restricted (perm_entries gf)) q cwd"
    using source(1) e(2,3) deep unfolding can_read_iff [OF k] by blast
  moreover have "can_read_path_with_cwd env (restricted (perm_entries rf)) (resolved_path e) cwd"
    using source(3) e(2)
    by (cases "resolved_access e") (auto simp: can_read_path_with_cwd_def can_read_def can_write_def)
  then obtain r where r: "r \<in> ?R (perm_entries rf)" "covers r (resolved_path e)" "resolved_access r \<noteq> NoAccess"
      "\<forall>d \<in> ?R (perm_entries rf). covers d (resolved_path e) \<longrightarrow> resolved_access d = NoAccess \<longrightarrow> depth d < depth r"
    unfolding can_read_iff [OF k] resolve_candidate_id [OF source(2)] by blast
  have "depth d < depth r" if d: "d \<in> ?R (perm_entries rf)" "covers d ?t" "resolved_access d = NoAccess" for d
  proof -
    have "depth d < depth e" using deep d by blast
    then have "covers d (resolved_path e)"
      using path_starts_with_cases [of ?t "resolved_path d" "resolved_path e"] d(2) e(3)
        path_starts_with_length [of "resolved_path d" "resolved_path e"] by (auto simp: covers_def depth_def)
    with r(4) d show ?thesis by blast
  qed
  moreover have "covers r ?t" using r(2) e(3) path_starts_with_trans by (auto simp: covers_def)
  ultimately show ?thesis using r(1,3) unfolding can_read_iff [OF k] by blast
qed

text \<open>A path that may be read but not written is decided by a read-only entry.\<close>

lemma read_only_decides:
  assumes "policy_kind p = Restricted" "can_read_path_with_cwd env p q cwd"
    and "\<not> can_write (resolve_access_with_cwd env p q cwd)"
  obtains m where "m \<in> set (resolved_entries_with_cwd env p cwd)" "covers m (resolve_candidate_path env q cwd)"
    "resolved_access m = Read"
    "\<And>e. e \<in> set (resolved_entries_with_cwd env p cwd) \<Longrightarrow> covers e (resolve_candidate_path env q cwd) \<Longrightarrow>
       resolved_access e = Write \<Longrightarrow> depth e < depth m"
proof -
  obtain e where "e \<in> set (resolved_entries_with_cwd env p cwd)" "covers e (resolve_candidate_path env q cwd)"
    using assms(2) unfolding can_read_iff [OF assms(1)] by blast
  from resolve_access_max [OF assms(1) this] obtain m where
    m: "m \<in> set (resolved_entries_with_cwd env p cwd)" "covers m (resolve_candidate_path env q cwd)"
      "resolve_access_with_cwd env p q cwd = resolved_access m"
    and max: "\<forall>e \<in> set (resolved_entries_with_cwd env p cwd). covers e (resolve_candidate_path env q cwd) \<longrightarrow>
      (depth e, resolved_access e) \<le> (depth m, resolved_access m)"
    by blast
  have r: "resolved_access m = Read"
    using assms(2,3) m(3) by (cases "resolved_access m") (auto simp: can_read_path_with_cwd_def can_read_def can_write_def)
  show thesis
    by (rule that [OF m(1,2) r]) (use max r in \<open>fastforce simp: less_eq_access_mode_def access_rank_def\<close>)
qed

lemma intersect_writes:
  assumes cwd: "is_absolute cwd" "is_absolute (current_dir env)"
    and normal: "\<forall>g \<in> set (perm_entries gf). \<forall>s. entry_path g = Path s \<longrightarrow> is_normal_path s"
    and wr: "can_write (resolve_access_with_cwd env
      (restricted (perm_entries (intersect_file_system build env rf gf cwd))) q cwd)"
  shows "\<exists>w \<in> set (resolved_entries_with_cwd env (restricted (perm_entries gf)) cwd).
    covers w (resolve_candidate_path env q cwd) \<and> resolved_access w = Write \<and>
    can_write (resolve_access_with_cwd env (restricted (perm_entries rf)) (resolved_path w) cwd) \<and>
    (\<forall>x \<in> {rf, gf}. can_write (resolve_access_with_cwd env (restricted (perm_entries x)) q cwd) \<or>
       (\<exists>d \<in> set (resolved_entries_with_cwd env (restricted (perm_entries x)) cwd).
          covers d (resolve_candidate_path env q cwd) \<and> resolved_access d = Read \<and> depth w < depth d))"
proof -
  let ?t = "resolve_candidate_path env q cwd"
  let ?R = "\<lambda>f. set (resolved_entries_with_cwd env (restricted (perm_entries f)) cwd)"
  let ?out = "intersect_file_system build env rf gf cwd"
  have k: "policy_kind (restricted es) = Restricted" for es by (simp add: restricted_def)
  from wr obtain w where w: "w \<in> ?R ?out" "covers w ?t" "resolved_access w = Write"
    using can_write_iff [OF k] by blast
  have nd: "resolved_access w \<noteq> NoAccess" using w(3) by simp
  note source = intersect_entry_source [OF cwd normal w(1) nd w(2)]
  have root: "can_write (resolve_access_with_cwd env (restricted (perm_entries rf)) (resolved_path w) cwd)"
    using source(3) w(3) by simp
  have "can_read_path_with_cwd env (restricted (perm_entries ?out)) q cwd"
    using wr by (simp add: can_read_path_with_cwd_def can_read_def can_write_def)
  note reads = intersect_reads [OF cwd normal this]
  have granted: "\<exists>d \<in> ?R gf. covers d ?t \<and> resolved_access d = Read \<and> depth w < depth d"
    if "\<not> can_write (resolve_access_with_cwd env (restricted (perm_entries gf)) q cwd)"
    using read_only_decides [OF k reads [THEN conjunct2] that] source(1) w(2,3) by metis
  have requested: "\<exists>d \<in> ?R rf. covers d ?t \<and> resolved_access d = Read \<and> depth w < depth d"
    if no: "\<not> can_write (resolve_access_with_cwd env (restricted (perm_entries rf)) q cwd)"
  proof -
    obtain m where m: "m \<in> ?R rf" "covers m ?t" "resolved_access m = Read"
      and below: "\<And>e. e \<in> ?R rf \<Longrightarrow> covers e ?t \<Longrightarrow> resolved_access e = Write \<Longrightarrow> depth e < depth m"
      using read_only_decides [OF k reads [THEN conjunct1] no] by metis
    obtain e where e: "e \<in> ?R rf" "covers e (resolved_path w)" "resolved_access e = Write"
      and top: "\<And>d. d \<in> ?R rf \<Longrightarrow> covers d (resolved_path w) \<Longrightarrow>
        depth d < depth e \<or> depth d = depth e \<and> resolved_access d \<noteq> NoAccess"
      using root unfolding can_write_iff [OF k] resolve_candidate_id [OF source(2)] by blast
    have "depth e < depth m"
      using below [OF e(1) _ e(3)] e(2) w(2) path_starts_with_trans by (auto simp: covers_def)
    with top [OF m(1)] have "\<not> covers m (resolved_path w)" by fastforce
    moreover from this have "path_starts_with (resolved_path m) (resolved_path w)"
      using path_starts_with_cases m(2) w(2) by (auto simp: covers_def)
    ultimately have "depth w < depth m"
      using path_starts_with_length [of "resolved_path m" "resolved_path w"]
        path_starts_with_same_length [of ?t "resolved_path m" "resolved_path w"] m(2) w(2)
      by (fastforce simp: covers_def depth_def path_starts_with_def)
    with m show ?thesis by blast
  qed
  show ?thesis using source(1) w(2,3) root granted requested by blast
qed


text \<open>A request for \<^verbatim>\<open>/w\<close> and the network, granted except for \<^verbatim>\<open>/w/s\<close>.\<close>

definition sample_request :: additional_permission_profile where
  "sample_request = \<lparr>add_network = Some \<lparr>net_enabled = Some True\<rparr>,
     add_file_system = Some \<lparr>perm_entries = [entry (Path (abs_display [lit ''w''])) Write], perm_glob_depth = None\<rparr>\<rparr>"

definition sample_grant_entries :: "sandbox_entry list" where
  "sample_grant_entries =
     [entry (Path (abs_display [lit ''w''])) Write, entry (Path (abs_display [lit ''w'', lit ''s''])) NoAccess]"

definition sample_grant :: additional_permission_profile where
  "sample_grant = \<lparr>add_network = Some \<lparr>net_enabled = Some True\<rparr>,
     add_file_system = Some \<lparr>perm_entries = sample_grant_entries, perm_glob_depth = None\<rparr>\<rparr>"

lemma sample_intersection:
  "intersect_permission_profiles (\<lambda>_. None) sample_env sample_request sample_grant [slash] = sample_grant"
proof -
  let ?w = "abs_display [lit ''w'']" and ?s = "abs_display [lit ''w'', lit ''s'']"
  let ?rf = "\<lparr>perm_entries = [entry (Path ?w) Write], perm_glob_depth = None\<rparr>"
  let ?gf = "\<lparr>perm_entries = sample_grant_entries, perm_glob_depth = None\<rparr>"
  have n: "is_normal_path ?w" "is_normal_path ?s" by (simp_all add: valid_name_lit)
  have m: "new_read_deny_matcher (\<lambda>_. None) sample_env (restricted (perm_entries ?rf)) [slash] = None"
    by (simp add: new_read_deny_matcher_def has_denied_read_restrictions_def restricted_def entry_def)
  have a: "resolve_access_with_cwd sample_env (restricted (perm_entries ?rf)) ?w [slash] = Write"
    using n by (simp add: sandbox_eval)
  have acc: "accepted_entries (\<lambda>_. None) sample_env ?rf ?gf [slash] = [entry (Path ?w) Write]"
    unfolding accepted_entries_def Let_def m
    using a by (simp add: sample_grant_entries_def granted_file_system_entry_within_request_def entry_def can_read_def
        resolve_permission_path_def can_write_def materialize_cwd_dependent_entry_def push_missing_def)
  have o: "paths_overlap ?s ?w"
    using n by (simp add: paths_overlap_def path_starts_with_normal valid_name_lit)
  have "perm_entries (intersect_file_system (\<lambda>_. None) sample_env ?rf ?gf [slash]) = sample_grant_entries"
    unfolding intersect_file_system_def acc
    using o n by (simp add: retain_constraining_deny_entries_def sample_grant_entries_def entry_def retain_step_def
        deny_entry_constrains_accepted_grant_def resolve_permission_path_def can_read_def Let_def
        materialize_cwd_dependent_entry_def push_missing_def entry_eq_def path_eq_normal)
  moreover have "perm_glob_depth (intersect_file_system (\<lambda>_. None) sample_env ?rf ?gf [slash]) = None"
    unfolding intersect_file_system_def acc
    using o n by (simp add: retain_constraining_deny_entries_def sample_grant_entries_def entry_def retain_step_def
        deny_entry_constrains_accepted_grant_def resolve_permission_path_def can_read_def Let_def nonzero_def
        materialize_cwd_dependent_entry_def push_missing_def entry_eq_def path_eq_normal merge_glob_scan_max_depth_def
        effective_glob_scan_depth_def denies_glob_def is_glob_def)
  ultimately have "intersect_file_system (\<lambda>_. None) sample_env ?rf ?gf [slash] = ?gf" by simp
  then show ?thesis
    by (simp add: intersect_permission_profiles_def sample_request_def sample_grant_def enables_def enabled_network_def
        option_filter_def fs_perms_empty_def sample_grant_entries_def)
qed



text \<open>
  The result need not stay within the request for writes: a read-only entry of the request below a
  granted write entry is not kept.
\<close>

lemma intersection_drops_read_only_entries:
  defines "rf \<equiv> \<lparr>perm_entries = [entry (Path (abs_display [lit ''w''])) Write,
      entry (Path (abs_display [lit ''w'', lit ''s''])) Read], perm_glob_depth = None\<rparr>"
    and "gf \<equiv> \<lparr>perm_entries = [entry (Path (abs_display [lit ''w''])) Write], perm_glob_depth = None\<rparr>"
    and "secret \<equiv> abs_display [lit ''w'', lit ''s'']"
  shows "intersect_file_system (\<lambda>_. None) sample_env rf gf [slash] = gf"
    and "\<not> can_write (resolve_access_with_cwd sample_env (restricted (perm_entries rf)) secret [slash])"
    and "can_write (resolve_access_with_cwd sample_env (restricted (perm_entries gf)) secret [slash])"
proof -
  let ?w = "abs_display [lit ''w'']"
  have n: "is_normal_path ?w" "is_normal_path secret" by (simp_all add: secret_def valid_name_lit)
  have m: "new_read_deny_matcher (\<lambda>_. None) sample_env (restricted (perm_entries rf)) [slash] = None"
    by (simp add: new_read_deny_matcher_def has_denied_read_restrictions_def restricted_def entry_def rf_def)
  have a: "resolve_access_with_cwd sample_env (restricted (perm_entries rf)) ?w [slash] = Write"
    using n by (simp add: sandbox_eval rf_def)
  have acc: "accepted_entries (\<lambda>_. None) sample_env rf gf [slash] = [entry (Path ?w) Write]"
    unfolding accepted_entries_def Let_def m
    using a by (simp add: gf_def granted_file_system_entry_within_request_def entry_def can_read_def
        resolve_permission_path_def can_write_def materialize_cwd_dependent_entry_def push_missing_def)
  show "intersect_file_system (\<lambda>_. None) sample_env rf gf [slash] = gf"
    unfolding intersect_file_system_def acc
    by (simp add: retain_constraining_deny_entries_def rf_def gf_def entry_def nonzero_def
        merge_glob_scan_max_depth_def effective_glob_scan_depth_def)
  show "\<not> can_write (resolve_access_with_cwd sample_env (restricted (perm_entries rf)) secret [slash])"
    using n by (simp add: sandbox_eval rf_def secret_def less_eq_access_mode_def access_rank_def
        resolved_entry_precedence_def)
  show "can_write (resolve_access_with_cwd sample_env (restricted (perm_entries gf)) secret [slash])"
    using n by (simp add: sandbox_eval gf_def secret_def)
qed

section \<open>The effective policy widens access only by what was added\<close>

lemma effective_entries:
  assumes "policy_kind p = Restricted" "add_file_system a = Some f"
  obtains ds where "policy_kind (effective_file_system_sandbox_policy p (Some a)) = Restricted"
    "policy_entries (effective_file_system_sandbox_policy p (Some a)) = policy_entries p @ ds"
    "set ds \<subseteq> set (perm_entries f)" "\<forall>d \<in> set (perm_entries f). \<exists>e \<in> set (policy_entries p @ ds). entry_eq e d"
proof -
  let ?e = "effective_file_system_sandbox_policy p (Some a)"
  have "policy_kind ?e = Restricted" "policy_entries ?e = foldl push_missing (policy_entries p) (perm_entries f)"
    using assms by (simp_all add: effective_file_system_sandbox_policy_def fs_perms_empty_def
        merge_file_system_policy_with_additional_permissions_def)
  then show thesis using foldl_push_missing [of "policy_entries p" "perm_entries f"] that by force
qed

lemma resolved_subset:
  "set ds \<subseteq> set es \<Longrightarrow> set (resolved_entries_with_cwd env (restricted ds) cwd) \<subseteq>
    set (resolved_entries_with_cwd env (restricted es) cwd)"
  by (auto simp: resolved_entries_with_cwd_def restricted_def List.map_filter_def)

text \<open>Added entries that deny nothing take no read away, and added writes take no write away.\<close>

lemma added_grants_keep:
  assumes "policy_kind p = Restricted" "policy_kind eff = Restricted"
    and "policy_entries eff = policy_entries p @ ds" "set ds \<subseteq> set es"
  shows "(\<forall>e \<in> set es. entry_access e \<noteq> NoAccess) \<Longrightarrow> can_read_path_with_cwd env p q cwd \<Longrightarrow> can_read_path_with_cwd env eff q cwd"
    and "(\<forall>e \<in> set es. entry_access e = Write) \<Longrightarrow> can_write (resolve_access_with_cwd env p q cwd) \<Longrightarrow>
      can_write (resolve_access_with_cwd env eff q cwd)"
proof -
  let ?t = "resolve_candidate_path env q cwd"
  let ?P = "set (resolved_entries_with_cwd env p cwd)" and ?D = "set (resolved_entries_with_cwd env (restricted ds) cwd)"
  have R: "set (resolved_entries_with_cwd env eff cwd) = ?P \<union> ?D"
    by (simp add: resolved_entries_append [OF assms(3)])
  have access: "\<exists>e \<in> set es. entry_access e = resolved_access d" if "d \<in> ?D" for d
    using resolved_entries_access [OF that] assms(4) by (auto simp: restricted_def)
  show "can_read_path_with_cwd env eff q cwd"
    if "\<forall>e \<in> set es. entry_access e \<noteq> NoAccess" "can_read_path_with_cwd env p q cwd"
  proof -
    have "\<forall>d \<in> ?D. resolved_access d \<noteq> NoAccess" using that(1) access by fastforce
    with that(2) show ?thesis unfolding can_read_iff [OF assms(2)] can_read_iff [OF assms(1)] R by blast
  qed
  show "can_write (resolve_access_with_cwd env eff q cwd)"
    if "\<forall>e \<in> set es. entry_access e = Write" "can_write (resolve_access_with_cwd env p q cwd)"
  proof -
    note w = that(2)
    have D: "\<forall>d \<in> ?D. resolved_access d = Write" using that(1) access by fastforce
    obtain e where e: "e \<in> ?P" "covers e ?t" "resolved_access e = Write"
      and top: "\<And>d. d \<in> ?P \<Longrightarrow> covers d ?t \<Longrightarrow>
        depth d < depth e \<or> depth d = depth e \<and> resolved_access d \<noteq> NoAccess"
      using w unfolding can_write_iff [OF assms(1)] by blast
    obtain m where m: "m \<in> ?P \<union> ?D" "covers m ?t" "resolve_access_with_cwd env eff q cwd = resolved_access m"
      and max: "\<And>d. d \<in> ?P \<union> ?D \<Longrightarrow> covers d ?t \<Longrightarrow> (depth d, resolved_access d) \<le> (depth m, resolved_access m)"
      using resolve_access_max [OF assms(2), of e env cwd q] e(1,2) unfolding R by blast
    have "resolved_access m = Write"
    proof (cases "m \<in> ?D")
      case False
      with m(1) have "m \<in> ?P" by blast
      with top [OF this m(2)] max [of e] e show ?thesis
        by (cases "resolved_access m") (auto simp: less_eq_access_mode_def access_rank_def)
    qed (simp add: D)
    with m(3) show ?thesis by (simp add: can_write_def)
  qed
qed

lemma effective_network_iff:
  "network_is_enabled (effective_network_sandbox_policy net (Some a)) \<longleftrightarrow> network_is_enabled net \<or> enables (add_network a)"
  by (cases "add_network a")
    (auto simp: effective_network_sandbox_policy_def merge_network_access_def enables_def network_is_enabled_def
      split: option.split, (case_tac x, auto)?)

text \<open>
  C18: additional permissions widen the policy of a command only by their own entries.  The effective
  policy has the entries of the base policy followed by those added, none of which is left out unless an
  equal one is there already.  A path that the base policy denies can be read only through an added entry
  that lies deeper than every deny entry covering the path; a path that the base policy does not let be
  written can be written only through an added entry with write access, at least as deep as every entry
  covering the path and deeper than every deny entry.  Permissions without deny entries take no read
  away, permissions that only grant writes take no write away, and the network is on exactly when the
  base policy or the permissions turn it on.
\<close>

theorem effective_policy_widens_by_entries:
  assumes "policy_kind p = Restricted" "add_file_system a = Some f"
    and "effective_file_system_sandbox_policy p (Some a) = eff"
  shows "(\<exists>ds. policy_entries eff = policy_entries p @ ds \<and> set ds \<subseteq> set (perm_entries f) \<and>
      (\<forall>d \<in> set (perm_entries f). \<exists>e \<in> set (policy_entries eff). entry_eq e d)) \<and>
    (can_read_path_with_cwd env eff q cwd \<and> \<not> can_read_path_with_cwd env p q cwd \<longrightarrow>
      (\<exists>e \<in> set (resolved_entries_with_cwd env (restricted (perm_entries f)) cwd).
        covers e (resolve_candidate_path env q cwd) \<and> resolved_access e \<noteq> NoAccess \<and>
        (\<forall>d \<in> set (resolved_entries_with_cwd env p cwd). covers d (resolve_candidate_path env q cwd) \<longrightarrow>
           resolved_access d = NoAccess \<longrightarrow> depth d < depth e))) \<and>
    (can_write (resolve_access_with_cwd env eff q cwd) \<and> \<not> can_write (resolve_access_with_cwd env p q cwd) \<longrightarrow>
      (\<exists>e \<in> set (resolved_entries_with_cwd env (restricted (perm_entries f)) cwd).
        covers e (resolve_candidate_path env q cwd) \<and> resolved_access e = Write \<and>
        (\<forall>d \<in> set (resolved_entries_with_cwd env p cwd). covers d (resolve_candidate_path env q cwd) \<longrightarrow>
           depth d < depth e \<or> depth d = depth e \<and> resolved_access d \<noteq> NoAccess))) \<and>
    ((\<forall>e \<in> set (perm_entries f). entry_access e \<noteq> NoAccess) \<and> can_read_path_with_cwd env p q cwd \<longrightarrow>
      can_read_path_with_cwd env eff q cwd) \<and>
    ((\<forall>e \<in> set (perm_entries f). entry_access e = Write) \<and> can_write (resolve_access_with_cwd env p q cwd) \<longrightarrow>
      can_write (resolve_access_with_cwd env eff q cwd)) \<and>
    (network_is_enabled (effective_network_sandbox_policy net (Some a)) \<longleftrightarrow>
      network_is_enabled net \<or> enables (add_network a))"
proof -
  obtain ds where k: "policy_kind eff = Restricted" and es: "policy_entries eff = policy_entries p @ ds"
    and ds: "set ds \<subseteq> set (perm_entries f)"
    and all: "\<forall>d \<in> set (perm_entries f). \<exists>e \<in> set (policy_entries eff). entry_eq e d"
    using effective_entries [OF assms(1,2)] assms(3) by metis
  let ?t = "resolve_candidate_path env q cwd"
  let ?P = "set (resolved_entries_with_cwd env p cwd)" and ?F = "set (resolved_entries_with_cwd env (restricted (perm_entries f)) cwd)"
  have R: "set (resolved_entries_with_cwd env eff cwd) = ?P \<union> set (resolved_entries_with_cwd env (restricted ds) cwd)"
    by (simp add: resolved_entries_append [OF es])
  note sub = resolved_subset [OF ds]
  have source: "\<exists>e \<in> ?F. covers e ?t \<and> resolved_access e \<noteq> NoAccess \<and>
        (\<forall>d \<in> ?P. covers d ?t \<longrightarrow> resolved_access d = NoAccess \<longrightarrow> depth d < depth e)"
    if "can_read_path_with_cwd env eff q cwd" "\<not> can_read_path_with_cwd env p q cwd"
    using that sub unfolding can_read_iff [OF k] can_read_iff [OF assms(1)] R by blast
  have write_source: "\<exists>e \<in> ?F. covers e ?t \<and> resolved_access e = Write \<and>
        (\<forall>d \<in> ?P. covers d ?t \<longrightarrow> depth d < depth e \<or> depth d = depth e \<and> resolved_access d \<noteq> NoAccess)"
    if "can_write (resolve_access_with_cwd env eff q cwd)" "\<not> can_write (resolve_access_with_cwd env p q cwd)"
    using that sub unfolding can_write_iff [OF k] can_write_iff [OF assms(1)] R by blast
  show ?thesis
    using source write_source added_grants_keep [OF assms(1) k es ds] effective_network_iff es ds all by blast
qed


text \<open>The read of one directory below the denied \<^verbatim>\<open>/w/s\<close> of the sample policy.\<close>

definition sample_extra :: additional_permission_profile where
  "sample_extra = \<lparr>add_network = None,
     add_file_system = Some \<lparr>perm_entries = [entry (Path (abs_display [lit ''w'', lit ''s'', lit ''a''])) Read],
       perm_glob_depth = None\<rparr>\<rparr>"

theorem effective_policy_widens_by_entries_witness:
  "\<not> can_read_path_with_cwd sample_env sample_policy (abs_display [lit ''w'', lit ''s'', lit ''a'']) [slash] \<and>
   can_read_path_with_cwd sample_env (effective_file_system_sandbox_policy sample_policy (Some sample_extra))
     (abs_display [lit ''w'', lit ''s'', lit ''a'']) [slash] \<and>
   (\<exists>e \<in> set (resolved_entries_with_cwd sample_env
        (restricted [entry (Path (abs_display [lit ''w'', lit ''s'', lit ''a''])) Read]) [slash]).
      resolved_access e \<noteq> NoAccess) \<and>
   can_read_path_with_cwd sample_env (effective_file_system_sandbox_policy sample_policy (Some sample_extra))
     (abs_display [lit ''w'']) [slash] \<and>
   \<not> network_is_enabled (effective_network_sandbox_policy NetworkRestricted (Some sample_extra))"
proof -
  let ?q = "abs_display [lit ''w'', lit ''s'', lit ''a'']"
  let ?eff = "effective_file_system_sandbox_policy sample_policy (Some sample_extra)"
  have k: "policy_kind sample_policy = Restricted" by (simp add: sample_policy_def restricted_def)
  have eff: "policy_kind ?eff = Restricted" "policy_entries ?eff = policy_entries sample_policy @ [entry (Path ?q) Read]"
    by (simp_all add: effective_file_system_sandbox_policy_def sample_extra_def sample_policy_def restricted_def
        fs_perms_empty_def merge_file_system_policy_with_additional_permissions_def push_missing_def entry_eq_def
        entry_def path_eq_normal valid_name_lit)
  have a: "add_file_system sample_extra = Some \<lparr>perm_entries = [entry (Path ?q) Read], perm_glob_depth = None\<rparr>"
    "add_network sample_extra = None"
    by (simp_all add: sample_extra_def)
  have r: "\<not> can_read_path_with_cwd sample_env sample_policy ?q [slash]"
    "can_read_path_with_cwd sample_env sample_policy (abs_display [lit ''w'']) [slash]"
    unfolding can_read_iff [OF k] by (simp_all add: sandbox_eval)
  have e: "can_read_path_with_cwd sample_env ?eff ?q [slash]"
    unfolding can_read_iff [OF eff(1)] resolved_entries_append [OF eff(2)] by (simp add: sandbox_eval)
  note widens = effective_policy_widens_by_entries [OF k a(1) refl]
  show ?thesis
    using r e widens [of sample_env ?q "[slash]" NetworkRestricted] widens [of sample_env "abs_display [lit ''w'']" "[slash]" NetworkRestricted] a(2)
    by (auto simp: entry_def enables_def network_is_enabled_def)
qed

section \<open>The profile a command runs under\<close>

lemma effective_profile_exists:
  "\<exists>pr'. effective_permission_profile pr a = Some pr' \<and> enforcement pr' = enforcement pr \<and>
     profile_file_system pr' = (let fs = effective_file_system_sandbox_policy (profile_file_system pr) a
                                in fs\<lparr>glob_scan_max_depth := nonzero (glob_scan_max_depth fs)\<rparr>) \<and>
     profile_network pr' = effective_network_sandbox_policy (profile_network pr) a"
proof -
  have kind: "policy_kind (effective_file_system_sandbox_policy p a) = policy_kind p" for p
    by (auto simp: effective_file_system_sandbox_policy_def merge_file_system_policy_with_additional_permissions_def
        split: option.split sandbox_kind.split)
  have same: "policy_kind p \<noteq> Restricted \<Longrightarrow> effective_file_system_sandbox_policy p a = p" for p
    by (auto simp: effective_file_system_sandbox_policy_def merge_file_system_policy_with_additional_permissions_def
        split: option.split sandbox_kind.split)
  have net: "effective_network_sandbox_policy NetworkEnabled a = NetworkEnabled"
    by (auto simp: effective_network_sandbox_policy_def merge_network_access_def network_is_enabled_def split: option.split)
  have "\<exists>pr'. from_runtime_permissions_with_enforcement (enforcement pr) (effective_file_system_sandbox_policy
      (profile_file_system pr) a) (effective_network_sandbox_policy (profile_network pr) a) = Some pr' \<and>
    enforcement pr' = enforcement pr \<and>
    profile_file_system pr' = (let fs = effective_file_system_sandbox_policy (profile_file_system pr) a
                                in fs\<lparr>glob_scan_max_depth := nonzero (glob_scan_max_depth fs)\<rparr>) \<and>
    profile_network pr' = effective_network_sandbox_policy (profile_network pr) a"
  proof (cases pr)
    case (Managed m n)
    then show ?thesis
    proof (cases m)
      case (ManagedRestricted es d)
      let ?fs = "effective_file_system_sandbox_policy (profile_file_system pr) a"
      have "policy_kind ?fs = Restricted" using Managed ManagedRestricted by (simp add: kind)
      with Managed show ?thesis
        by (simp add: from_runtime_permissions_with_enforcement_def from_sandbox_policy_def Let_def)
    next
      case ManagedUnrestricted
      with Managed same [of unrestricted] show ?thesis
        by (simp add: from_runtime_permissions_with_enforcement_def from_sandbox_policy_def unrestricted_def nonzero_def)
    qed
  next
    case Disabled
    with same [of unrestricted] net show ?thesis
      by (simp add: from_runtime_permissions_with_enforcement_def unrestricted_def nonzero_def)
  next
    case (External n)
    with same [of external_sandbox] show ?thesis
      by (simp add: from_runtime_permissions_with_enforcement_def external_sandbox_def nonzero_def)
  qed
  then show ?thesis by (simp add: effective_permission_profile_def to_runtime_permissions_def)
qed

text \<open>
  C39: the effective profile always exists (the conversion of the source never reaches its
  \<^verbatim>\<open>unreachable!\<close>), keeps who enforces the sandbox, and carries the effective file-system policy with
  a positive scan depth and the effective network policy; without additional permissions it is the profile.
\<close>

theorem effective_profile_total:
  "\<exists>pr'. effective_permission_profile pr a = Some pr' \<and> enforcement pr' = enforcement pr \<and>
     profile_file_system pr' = (let fs = effective_file_system_sandbox_policy (profile_file_system pr) a
                                in fs\<lparr>glob_scan_max_depth := nonzero (glob_scan_max_depth fs)\<rparr>) \<and>
     profile_network pr' = effective_network_sandbox_policy (profile_network pr) a"
  by (rule effective_profile_exists)

section \<open>Normalised requests\<close>

text \<open>A request is refused exactly when it asks for a glob to be readable.\<close>

lemma normalize_entries_refuses:
  "(\<exists>e. normalize_entries env acc es = Inl e) \<longleftrightarrow> (\<exists>e \<in> set es. is_glob (entry_path e) \<and> entry_access e \<noteq> NoAccess)"
  by (induction env acc es rule: normalize_entries.induct) auto

lemma normalize_additional_permissions_refuses:
  "(\<exists>e. normalize_additional_permissions env a = Inl e) \<longleftrightarrow>
    (\<exists>f. add_file_system a = Some f \<and>
      (\<exists>e \<in> set (perm_entries f). is_glob (entry_path e) \<and> entry_access e \<noteq> NoAccess))"
  using normalize_entries_refuses [of env "[]"]
  by (force simp: normalize_additional_permissions_def Let_def split: option.split sum.splits)

text \<open>What is left has no duplicate entries and its readable entries are no globs.\<close>

fun distinct_entries :: "sandbox_entry list \<Rightarrow> bool" where
  "distinct_entries [] = True"
| "distinct_entries (e # es) \<longleftrightarrow> list_all (\<lambda>x. \<not> entry_eq e x) es \<and> distinct_entries es"

lemma distinct_entries_append:
  "distinct_entries (es @ [e]) \<longleftrightarrow> distinct_entries es \<and> list_all (\<lambda>x. \<not> entry_eq x e) es"
  by (induction es) auto

lemma push_missing_distinct: "distinct_entries es \<Longrightarrow> distinct_entries (push_missing es d)"
  by (auto simp: push_missing_def distinct_entries_append list_ex_iff list_all_iff)

lemma normalize_entries_distinct:
  assumes "normalize_entries env acc es = Inr es'" "distinct_entries acc"
    "\<forall>e \<in> set acc. is_glob (entry_path e) \<longrightarrow> entry_access e = NoAccess"
  shows "distinct_entries es' \<and> (\<forall>e \<in> set es'. is_glob (entry_path e) \<longrightarrow> entry_access e = NoAccess)"
  using assms
proof (induction env acc es rule: normalize_entries.induct)
  case (2 env acc e es)
  let ?n = "entry (normalize_permission_path env (entry_path e)) (entry_access e)"
  have "is_glob (entry_path ?n) \<longrightarrow> entry_access ?n = NoAccess" and "\<not> (is_glob (entry_path e) \<and> entry_access e \<noteq> NoAccess)"
    using 2(2) by (auto simp: normalize_permission_path_def entry_def is_glob_def split: file_system_path.splits if_splits)
  with 2 push_missing_distinct [OF 2(3)] push_missing_set(2) [of acc ?n] show ?case by fastforce
qed auto

text \<open>The read and write roots of older clients survive the conversion.\<close>

lemma legacy_roots_reads:
  "legacy_roots_from (map (\<lambda>p. entry (Path p) Read) ps @ es) rd wr = legacy_roots_from es (rd @ ps) wr"
  by (induction ps arbitrary: rd) (auto simp: entry_def)

lemma legacy_roots_writes:
  "legacy_roots_from (map (\<lambda>p. entry (Path p) Write) ps) rd wr = Some (rd, wr @ ps)"
  by (induction ps arbitrary: wr) (auto simp: entry_def)

lemma legacy_roots_roundtrip:
  assumes "rd \<noteq> Some []" "wr \<noteq> Some []"
  shows "legacy_read_write_roots (from_read_write_roots rd wr) = Some (rd, wr)"
  using assms legacy_roots_reads [of "case rd of None \<Rightarrow> [] | Some ps \<Rightarrow> ps"
      "case wr of None \<Rightarrow> [] | Some ps \<Rightarrow> map (\<lambda>p. entry (Path p) Write) ps" "[]" "[]"]
    legacy_roots_writes [of "case wr of None \<Rightarrow> [] | Some ps \<Rightarrow> ps"]
  by (cases rd; cases wr) (auto simp: legacy_read_write_roots_def from_read_write_roots_def some_if_nonempty_def)


end
