(* ===== verification/Exec_Approval.thy ===== *)
theory Exec_Approval
  imports Policy_Parser Command_Safety Sandbox_Roots
begin

text \<open>
  \<^verbatim>\<open>codex-rs/core/src/exec_policy.rs\<close> with the approval types of \<^verbatim>\<open>protocol.rs\<close> and \<^verbatim>\<open>tools/sandboxing.rs\<close>:
  whether a command runs at once, after the user approves, or not at all. It composes the script
  parser, the execution policy, the lists of safe and dangerous commands and the sandbox policy; and
  it amends the policy when the user accepts a proposal, and loads it from the configuration layers.
  The theorems say when a command may run without asking, what forbids it, and that an accepted
  proposal has the effect it promises.
\<close>

section \<open>Approval settings\<close>

record granular_config =
  sandbox_approval :: bool
  rules_approval :: bool
  skill_approval :: bool
  request_permissions :: bool
  mcp_elicitations :: bool

datatype ask_for_approval = UnlessTrusted | OnFailure | OnRequest | Granular granular_config | Never

datatype sandbox_permissions = UseDefault | RequireEscalated | WithAdditionalPermissions

definition requests_sandbox_override :: "sandbox_permissions \<Rightarrow> bool" where
  "requests_sandbox_override s \<longleftrightarrow> s \<noteq> UseDefault"

definition requires_escalated_permissions :: "sandbox_permissions \<Rightarrow> bool" where
  "requires_escalated_permissions s \<longleftrightarrow> s = RequireEscalated"

datatype exec_approval_requirement =
  Skip (bypass_sandbox: bool) (skip_amendment: "str list option")
| NeedsApproval (approval_reason: "str option") (proposed_amendment: "str list option")
| ForbiddenCommand (forbidden_reason: str)

definition PROMPT_CONFLICT_REASON :: str where
  "PROMPT_CONFLICT_REASON = lit ''approval required by policy, but AskForApproval is set to Never''"

definition REJECT_SANDBOX_APPROVAL_REASON :: str where
  "REJECT_SANDBOX_APPROVAL_REASON =
     lit ''approval required by policy, but AskForApproval::Granular.sandbox_approval is false''"

definition REJECT_RULES_APPROVAL_REASON :: str where
  "REJECT_RULES_APPROVAL_REASON =
     lit ''approval required by policy rule, but AskForApproval::Granular.rules is false''"

definition prompt_is_rejected_by_policy :: "ask_for_approval \<Rightarrow> bool \<Rightarrow> str option" where
  "prompt_is_rejected_by_policy approval prompt_is_rule =
     (case approval of
        Never \<Rightarrow> Some PROMPT_CONFLICT_REASON
      | Granular g \<Rightarrow>
          if prompt_is_rule then
            (if \<not> rules_approval g then Some REJECT_RULES_APPROVAL_REASON else None)
          else if \<not> sandbox_approval g then Some REJECT_SANDBOX_APPROVAL_REASON
          else None
      | _ \<Rightarrow> None)"

definition default_exec_approval_requirement ::
  "ask_for_approval \<Rightarrow> file_system_sandbox_policy \<Rightarrow> exec_approval_requirement" where
  "default_exec_approval_requirement approval fs =
     (let needs_approval =
            (case approval of
               Never \<Rightarrow> False
             | OnFailure \<Rightarrow> False
             | UnlessTrusted \<Rightarrow> True
             | _ \<Rightarrow> policy_kind fs = Restricted)
      in if needs_approval \<and> (case approval of Granular g \<Rightarrow> \<not> sandbox_approval g | _ \<Rightarrow> False) then
           ForbiddenCommand (lit ''approval policy disallowed sandbox approval prompt'')
         else if needs_approval then NeedsApproval None None
         else Skip False None)"

datatype sandbox_override = NoOverride | BypassSandboxFirstAttempt

definition sandbox_override_for_first_attempt ::
  "sandbox_permissions \<Rightarrow> exec_approval_requirement \<Rightarrow> sandbox_override" where
  "sandbox_override_for_first_attempt s req =
     (if requires_escalated_permissions s \<or> (case req of Skip True _ \<Rightarrow> True | _ \<Rightarrow> False)
      then BypassSandboxFirstAttempt else NoOverride)"

section \<open>Commands without a rule\<close>

definition profile_is_managed_read_only ::
  "os_env \<Rightarrow> permission_profile \<Rightarrow> file_system_sandbox_policy \<Rightarrow> str \<Rightarrow> bool" where
  "profile_is_managed_read_only env profile fs sandbox_cwd \<longleftrightarrow>
     (case profile of Managed _ _ \<Rightarrow> True | _ \<Rightarrow> False) \<and> policy_kind fs = Restricted \<and>
     \<not> has_full_disk_write_access fs \<and> get_writable_roots_with_cwd env fs sandbox_cwd = []"

definition sandbox_is_disabled :: "permission_profile \<Rightarrow> bool" where
  "sandbox_is_disabled profile \<longleftrightarrow> (case profile of Managed _ _ \<Rightarrow> False | _ \<Rightarrow> True)"

text \<open>The parsers of scripts, and whether the program was built for Windows.\<close>

record approval_host =
  host_env :: os_env
  powershell :: powershell_parser
  shell :: shell_parser
  cfg_windows :: bool
  shlex_try_join :: "str list \<Rightarrow> str option"

record approval_context =
  ctx_approval :: ask_for_approval
  ctx_profile :: permission_profile
  ctx_file_system :: file_system_sandbox_policy
  ctx_cwd :: str
  ctx_permissions :: sandbox_permissions

definition render_decision_for_unmatched_command ::
  "approval_host \<Rightarrow> approval_context \<Rightarrow> bool \<Rightarrow> str list \<Rightarrow> decision" where
  "render_decision_for_unmatched_command h ctx used_complex_parsing command =
     (if is_known_safe_command (powershell h) (shell h) command \<and> \<not> used_complex_parsing then Allow
      else if command_might_be_dangerous (shell h) command \<or>
          (cfg_windows h \<and> profile_is_managed_read_only (host_env h) (ctx_profile ctx) (ctx_file_system ctx) (ctx_cwd ctx))
      then (case ctx_approval ctx of
              Never \<Rightarrow> if sandbox_is_disabled (ctx_profile ctx) then Allow else Forbidden
            | _ \<Rightarrow> Prompt)
      else case ctx_approval ctx of
        Never \<Rightarrow> Allow
      | OnFailure \<Rightarrow> Allow
      | UnlessTrusted \<Rightarrow> Prompt
      | _ \<Rightarrow>
          (case policy_kind (ctx_file_system ctx) of
             Restricted \<Rightarrow> if requests_sandbox_override (ctx_permissions ctx) then Prompt else Allow
           | _ \<Rightarrow> Allow))"

definition commands_for_exec_policy :: "shell_parser \<Rightarrow> str list \<Rightarrow> str list list \<times> bool" where
  "commands_for_exec_policy parse command =
     (case parse_shell_lc_plain_commands parse command of
        Some (c # cs) \<Rightarrow> (c # cs, False)
      | _ \<Rightarrow>
          (case parse_shell_lc_single_command_prefix parse command of
             Some single_command \<Rightarrow> ([single_command], True)
           | None \<Rightarrow> ([command], False)))"

section \<open>Proposed amendments\<close>

definition is_policy_match :: "rule_match \<Rightarrow> bool" where
  "is_policy_match m \<longleftrightarrow> (case m of PrefixRuleMatch _ _ _ _ \<Rightarrow> True | HeuristicsRuleMatch _ _ \<Rightarrow> False)"

definition heuristic_command :: "decision \<Rightarrow> rule_match \<Rightarrow> str list option" where
  "heuristic_command d m =
     (case m of HeuristicsRuleMatch c d' \<Rightarrow> if d' = d then Some c else None | _ \<Rightarrow> None)"

definition try_derive_execpolicy_amendment_for_prompt_rules :: "rule_match list \<Rightarrow> str list option" where
  "try_derive_execpolicy_amendment_for_prompt_rules ms =
     (if list_ex (\<lambda>m. is_policy_match m \<and> match_decision m = Prompt) ms then None
      else find_map (heuristic_command Prompt) ms)"

definition try_derive_execpolicy_amendment_for_allow_rules :: "rule_match list \<Rightarrow> str list option" where
  "try_derive_execpolicy_amendment_for_allow_rules ms =
     (if list_ex is_policy_match ms then None else find_map (heuristic_command Allow) ms)"

definition BANNED_PREFIX_SUGGESTIONS :: "string list list" where
  "BANNED_PREFIX_SUGGESTIONS =
     [[''python3''], [''python3'', ''-''], [''python3'', ''-c''], [''python''], [''python'', ''-''],
      [''python'', ''-c''], [''py''], [''py'', ''-3''], [''pythonw''], [''pyw''], [''pypy''], [''pypy3''],
      [''git''], [''bash''], [''bash'', ''-lc''], [''sh''], [''sh'', ''-c''], [''sh'', ''-lc''], [''zsh''],
      [''zsh'', ''-lc''], [''/bin/zsh''], [''/bin/zsh'', ''-lc''], [''/bin/bash''], [''/bin/bash'', ''-lc''],
      [''pwsh''], [''pwsh'', ''-Command''], [''pwsh'', ''-c''], [''powershell''], [''powershell'', ''-Command''],
      [''powershell'', ''-c''], [''powershell.exe''], [''powershell.exe'', ''-Command''],
      [''powershell.exe'', ''-c''], [''env''], [''sudo''], [''node''], [''node'', ''-e''], [''perl''],
      [''perl'', ''-e''], [''ruby''], [''ruby'', ''-e''], [''php''], [''php'', ''-r''], [''lua''],
      [''lua'', ''-e''], [''osascript'']]"

definition prefix_rule_would_approve_all_commands ::
  "path_env \<Rightarrow> policy \<Rightarrow> str list \<Rightarrow> str list list \<Rightarrow> (str list \<Rightarrow> decision) \<Rightarrow> bool" where
  "prefix_rule_would_approve_all_commands env p prefix_rule commands fallback \<longleftrightarrow>
     (case add_prefix_rule prefix_rule Allow p of
        Inl _ \<Rightarrow> False
      | Inr p' \<Rightarrow>
          list_all (\<lambda>c. map_option eval_decision (check_with_options env p' c fallback True) = Some Allow) commands)"

definition derive_requested_execpolicy_amendment_from_prefix_rule ::
  "path_env \<Rightarrow> str list option \<Rightarrow> rule_match list \<Rightarrow> policy \<Rightarrow> str list list \<Rightarrow> (str list \<Rightarrow> decision) \<Rightarrow>
   str list option" where
  "derive_requested_execpolicy_amendment_from_prefix_rule env prefix_rule ms p commands fallback =
     (case prefix_rule of
        None \<Rightarrow> None
      | Some pr \<Rightarrow>
          if pr = [] then None
          else if pr \<in> map lit ` set BANNED_PREFIX_SUGGESTIONS then None
          else if list_ex is_policy_match ms then None
          else if prefix_rule_would_approve_all_commands env p pr commands fallback then Some pr
          else None)"

section \<open>Reasons\<close>

definition render_shlex_command :: "approval_host \<Rightarrow> str list \<Rightarrow> str" where
  "render_shlex_command h args =
     (case shlex_try_join h args of Some s \<Rightarrow> s | None \<Rightarrow> join (lit '' '') args)"

definition prefix_match :: "decision \<Rightarrow> rule_match \<Rightarrow> (str list \<times> str option) option" where
  "prefix_match d m =
     (case m of PrefixRuleMatch mp d' _ j \<Rightarrow> if d' = d then Some (mp, j) else None | _ \<Rightarrow> None)"

definition most_specific :: "decision \<Rightarrow> rule_match list \<Rightarrow> (str list \<times> str option) option" where
  "most_specific d ms = max_by_key (\<lambda>(mp, _). length mp) (List.map_filter (prefix_match d) ms)"

definition derive_prompt_reason :: "approval_host \<Rightarrow> str list \<Rightarrow> rule_match list \<Rightarrow> str option" where
  "derive_prompt_reason h command_args ms =
     (let command = [96] @ render_shlex_command h command_args @ [96] in
      case most_specific Prompt ms of
        Some (_, Some justification) \<Rightarrow> Some (command @ lit '' requires approval: '' @ justification)
      | Some (_, None) \<Rightarrow> Some (command @ lit '' requires approval by policy'')
      | None \<Rightarrow> None)"

definition derive_forbidden_reason :: "approval_host \<Rightarrow> str list \<Rightarrow> rule_match list \<Rightarrow> str" where
  "derive_forbidden_reason h command_args ms =
     (let command = [96] @ render_shlex_command h command_args @ [96] in
      case most_specific Forbidden ms of
        Some (_, Some justification) \<Rightarrow> command @ lit '' rejected: '' @ justification
      | Some (matched, None) \<Rightarrow>
          command @ lit '' rejected: policy forbids commands starting with '' @ [96] @
            render_shlex_command h matched @ [96]
      | None \<Rightarrow> command @ lit '' rejected: blocked by policy'')"

section \<open>The requirement of a command\<close>

definition requirement_of ::
  "approval_host \<Rightarrow> approval_context \<Rightarrow> policy \<Rightarrow> str list \<Rightarrow> str list list \<Rightarrow> bool \<Rightarrow> str list option \<Rightarrow>
   evaluation \<Rightarrow> exec_approval_requirement" where
  "requirement_of h ctx p command commands auto_amendment_allowed requested_amendment e =
     (case eval_decision e of
        Forbidden \<Rightarrow> ForbiddenCommand (derive_forbidden_reason h command (matched_rules e))
      | Prompt \<Rightarrow>
          (let prompt_is_rule = list_ex (\<lambda>m. is_policy_match m \<and> match_decision m = Prompt) (matched_rules e) in
           case prompt_is_rejected_by_policy (ctx_approval ctx) prompt_is_rule of
             Some reason \<Rightarrow> ForbiddenCommand reason
           | None \<Rightarrow>
               NeedsApproval (derive_prompt_reason h command (matched_rules e))
                 (case requested_amendment of
                    Some a \<Rightarrow> Some a
                  | None \<Rightarrow>
                      if auto_amendment_allowed
                      then try_derive_execpolicy_amendment_for_prompt_rules (matched_rules e) else None))
      | Allow \<Rightarrow>
          Skip (list_all (\<lambda>c. list_ex (\<lambda>m. is_policy_match m \<and> match_decision m = Allow)
              (matches_for_command_with_options (path_env.truncate (host_env h)) p c None True)) commands)
            (if auto_amendment_allowed
             then try_derive_execpolicy_amendment_for_allow_rules (matched_rules e) else None))"

text \<open>\<^verbatim>\<open>None\<close> is the panic of an evaluation without matches.\<close>

definition create_exec_approval_requirement_for_command ::
  "approval_host \<Rightarrow> approval_context \<Rightarrow> policy \<Rightarrow> str list \<Rightarrow> str list option \<Rightarrow>
   exec_approval_requirement option" where
  "create_exec_approval_requirement_for_command h ctx p command prefix_rule =
     (let (commands, used_complex_parsing) = commands_for_exec_policy (shell h) command;
          env = path_env.truncate (host_env h);
          fallback = render_decision_for_unmatched_command h ctx used_complex_parsing
      in case check_multiple_with_options env p commands fallback True of
           None \<Rightarrow> None
         | Some e \<Rightarrow>
             Some (requirement_of h ctx p command commands (\<not> used_complex_parsing)
               (derive_requested_execpolicy_amendment_from_prefix_rule env prefix_rule (matched_rules e) p
                 commands fallback) e))"

section \<open>Amending the policy\<close>

text \<open>The manager keeps the policy in memory; the file is the default rules file below the Codex home.\<close>

record exec_policy_manager =
  current_policy :: policy
  rules_file :: str

datatype exec_policy_update_error =
  AppendRule str str
| JoinBlockingTask
| AddRule policy_error

definition default_policy_path :: "str \<Rightarrow> str" where
  "default_policy_path codex_home = path_join (path_join codex_home (lit ''rules'')) (lit ''default.rules'')"

text \<open>
  How the blocking task that edits the file ends: normally, by an error of the operating system with
  its message, or not at all (the task is cancelled or panics).
\<close>

datatype file_task = TaskDone | TaskIoError str | TaskLost

definition append_to_rules_file ::
  "file_task \<Rightarrow> str \<Rightarrow> str + str \<Rightarrow> exec_policy_manager \<Rightarrow>
   (exec_policy_update_error + unit) \<times> exec_policy_manager" where
  "append_to_rules_file task codex_home line m =
     (case (task, line) of
        (TaskLost, _) \<Rightarrow> (Inl JoinBlockingTask, m)
      | (_, Inl invalid) \<Rightarrow> (Inl (AppendRule (default_policy_path codex_home) invalid), m)
      | (TaskIoError e, Inr _) \<Rightarrow> (Inl (AppendRule (default_policy_path codex_home) e), m)
      | (TaskDone, Inr l) \<Rightarrow> (Inr (), m\<lparr>rules_file := append_locked_line l (rules_file m)\<rparr>))"

definition append_amendment_and_update ::
  "(str \<Rightarrow> str) \<Rightarrow> path_env \<Rightarrow> file_task \<Rightarrow> str \<Rightarrow> str list \<Rightarrow> exec_policy_manager \<Rightarrow>
   (exec_policy_update_error + unit) \<times> exec_policy_manager" where
  "append_amendment_and_update json env task codex_home amendment m =
     (case append_to_rules_file task codex_home
             (case allow_prefix_rule_line json amendment of
                None \<Rightarrow> Inl (lit ''prefix rule requires at least one token'') | Some l \<Rightarrow> Inr l) m of
        (Inl e, m1) \<Rightarrow> (Inl e, m1)
      | (Inr _, m1) \<Rightarrow>
          (let already_allowed =
             (case check_multiple_with_options env (current_policy m1) [amendment] (\<lambda>_. Forbidden) True of
                None \<Rightarrow> False
              | Some e \<Rightarrow> eval_decision e = Allow \<and>
                  list_ex (\<lambda>r. is_policy_match r \<and> match_decision r = Allow) (matched_rules e))
           in if already_allowed then (Inr (), m1)
              else case add_prefix_rule amendment Allow (current_policy m1) of
                Inl e \<Rightarrow> (Inl (AddRule e), m1)
              | Inr p \<Rightarrow> (Inr (), m1\<lparr>current_policy := p\<rparr>)))"

definition append_network_rule_and_update ::
  "(str \<Rightarrow> str) \<Rightarrow> (policy_error \<Rightarrow> str) \<Rightarrow> file_task \<Rightarrow> str \<Rightarrow> str \<Rightarrow> network_rule_protocol \<Rightarrow> decision \<Rightarrow>
   str option \<Rightarrow> exec_policy_manager \<Rightarrow> (exec_policy_update_error + unit) \<times> exec_policy_manager" where
  "append_network_rule_and_update json show_error task codex_home raw_host proto d j m =
     (case append_to_rules_file task codex_home
             (map_sum (\<lambda>e. lit ''invalid network rule: '' @ show_error e) id
               (network_rule_line json raw_host proto d j)) m of
        (Inl e, m1) \<Rightarrow> (Inl e, m1)
      | (Inr _, m1) \<Rightarrow>
          (case add_network_rule raw_host proto d j (current_policy m1) of
             Inl e \<Rightarrow> (Inl (AddRule e), m1)
           | Inr p \<Rightarrow> (Inr (), m1\<lparr>current_policy := p\<rparr>)))"

section \<open>Loading the policy\<close>

datatype exec_policy_error =
  ReadDir str
| ReadFile str
| ParsePolicy str policy_error

datatype dir_listing = DirNotFound | DirFailed | DirEntries "(str \<times> bool) list"

record config_layer =
  user_or_project :: bool
  config_folder :: "str option"

text \<open>The enabled layers, lowest precedence first, and what the requirements add.\<close>

record config_layer_stack =
  layers :: "config_layer list"
  ignore_user_and_project_exec_policy_rules :: bool
  requirements_exec_policy :: "policy option"

record policy_files =
  list_dir :: "str \<Rightarrow> dir_listing"
  file_contents :: "str \<Rightarrow> str option"

definition path_extension :: "str \<Rightarrow> str option" where
  "path_extension p =
     (case path_file_name p of
        None \<Rightarrow> None
      | Some n \<Rightarrow> if stem_of_name n = n then None else Some (rev (takeWhile (\<lambda>c. c \<noteq> 46) (rev n))))"

definition collect_policy_files :: "policy_files \<Rightarrow> str \<Rightarrow> exec_policy_error + str list" where
  "collect_policy_files fs dir =
     (case list_dir fs dir of
        DirNotFound \<Rightarrow> Inr []
      | DirFailed \<Rightarrow> Inl (ReadDir dir)
      | DirEntries es \<Rightarrow>
          Inr (sort_key abs_names (map fst
            (filter (\<lambda>(p, is_regular). path_extension p = Some (lit ''rules'') \<and> is_regular) es))))"

fun policy_paths :: "policy_files \<Rightarrow> bool \<Rightarrow> config_layer list \<Rightarrow> exec_policy_error + str list" where
  "policy_paths fs ignore [] = Inr []"
| "policy_paths fs ignore (l # ls) =
     (if ignore \<and> user_or_project l then policy_paths fs ignore ls
      else case config_folder l of
        None \<Rightarrow> policy_paths fs ignore ls
      | Some folder \<Rightarrow>
          (case collect_policy_files fs (path_join folder (lit ''rules'')) of
             Inl e \<Rightarrow> Inl e
           | Inr ps \<Rightarrow> map_sum id (\<lambda>qs. ps @ qs) (policy_paths fs ignore ls)))"

fun parse_policy_paths ::
  "(str \<Rightarrow> str \<Rightarrow> builtin_call list \<times> policy_error option) \<Rightarrow> path_env \<Rightarrow> libs \<Rightarrow> policy_files \<Rightarrow> str list \<Rightarrow>
   policy_builder \<Rightarrow> exec_policy_error + policy_builder" where
  "parse_policy_paths starlark env ls fs [] b = Inr b"
| "parse_policy_paths starlark env ls fs (q # qs) b =
     (case file_contents fs q of
        None \<Rightarrow> Inl (ReadFile q)
      | Some contents \<Rightarrow>
          (case parse_policy starlark env ls q contents b of
             (Inl e, _) \<Rightarrow> Inl (ParsePolicy q e)
           | (Inr _, b') \<Rightarrow> parse_policy_paths starlark env ls fs qs b'))"

definition load_exec_policy ::
  "(str \<Rightarrow> str \<Rightarrow> builtin_call list \<times> policy_error option) \<Rightarrow> path_env \<Rightarrow> libs \<Rightarrow> policy_files \<Rightarrow>
   config_layer_stack \<Rightarrow> exec_policy_error + policy" where
  "load_exec_policy starlark env ls fs stack =
     (case policy_paths fs (ignore_user_and_project_exec_policy_rules stack) (layers stack) of
        Inl e \<Rightarrow> Inl e
      | Inr paths \<Rightarrow>
          (case parse_policy_paths starlark env ls fs paths new_builder of
             Inl e \<Rightarrow> Inl e
           | Inr b \<Rightarrow>
               (case requirements_exec_policy stack of
                  None \<Rightarrow> Inr (build_policy b)
                | Some requirements \<Rightarrow> Inr (merge_overlay (build_policy b) requirements))))"

definition load_exec_policy_with_warning ::
  "(str \<Rightarrow> str \<Rightarrow> builtin_call list \<times> policy_error option) \<Rightarrow> path_env \<Rightarrow> libs \<Rightarrow> policy_files \<Rightarrow>
   config_layer_stack \<Rightarrow> exec_policy_error + (policy \<times> exec_policy_error option)" where
  "load_exec_policy_with_warning starlark env ls fs stack =
     (case load_exec_policy starlark env ls fs stack of
        Inr p \<Rightarrow> Inr (p, None)
      | Inl (ParsePolicy q e) \<Rightarrow> Inr (empty_policy, Some (ParsePolicy q e))
      | Inl e \<Rightarrow> Inl e)"

definition manager_load ::
  "(str \<Rightarrow> str \<Rightarrow> builtin_call list \<times> policy_error option) \<Rightarrow> path_env \<Rightarrow> libs \<Rightarrow> policy_files \<Rightarrow>
   config_layer_stack \<Rightarrow> str \<Rightarrow> exec_policy_error + exec_policy_manager" where
  "manager_load starlark env ls fs stack file =
     map_sum id (\<lambda>(p, _). \<lparr>current_policy = p, rules_file = file\<rparr>)
       (load_exec_policy_with_warning starlark env ls fs stack)"


section \<open>When a command may run\<close>

lemma commands_for_exec_policy_not_Nil: "fst (commands_for_exec_policy parse command) \<noteq> []"
  by (auto simp: commands_for_exec_policy_def split: option.splits list.splits)

lemma matches_with_fallback:
  "matches_for_command_with_options env p c (Some f) resolve =
     (if matches_for_command_with_options env p c None resolve = [] then [HeuristicsRuleMatch c (f c)]
      else matches_for_command_with_options env p c None resolve)"
  by (simp add: matches_for_command_with_options_def Let_def)

lemma exact_matches_are_policy: "match_exact_rules p c = Some ms \<Longrightarrow> m \<in> set ms \<Longrightarrow> is_policy_match m"
  by (auto simp: match_exact_rules_def rule_matches_def is_policy_match_def List.map_filter_def
      split: list.splits option.splits)

lemma host_matches_are_policy: "m \<in> set (match_host_executable_rules env p c) \<Longrightarrow> is_policy_match m"
  by (auto simp: match_host_executable_rules_def rule_matches_def with_resolved_program_def is_policy_match_def
      List.map_filter_def Let_def split: list.splits option.splits if_splits)

lemma matches_are_policy:
  "m \<in> set (matches_for_command_with_options env p c None resolve) \<Longrightarrow> is_policy_match m"
  using exact_matches_are_policy [of p c] host_matches_are_policy [of m env p c]
  by (auto simp: matches_for_command_with_options_def Let_def split: option.splits list.splits if_splits)

lemma check_multiple_Some:
  assumes "commands \<noteq> []"
  obtains e where "check_multiple_with_options env p commands f resolve = Some e"
    "matched_rules e = concat (map (\<lambda>c. matches_for_command_with_options env p c (Some f) resolve) commands)"
    "\<exists>m \<in> set (matched_rules e). match_decision m = eval_decision e"
    "\<forall>m \<in> set (matched_rules e). match_decision m \<le> eval_decision e"
proof -
  let ?ms = "concat (map (\<lambda>c. matches_for_command_with_options env p c (Some f) resolve) commands)"
  have "?ms \<noteq> []" using assms matches_not_Nil by (cases commands) auto
  from from_matches_max [OF this] obtain e where "from_matches ?ms = Some e" "matched_rules e = ?ms"
    "\<exists>m \<in> set ?ms. match_decision m = eval_decision e" "\<forall>m \<in> set ?ms. match_decision m \<le> eval_decision e"
    by blast
  then show thesis by (intro that [of e]) (simp_all add: check_multiple_with_options_def)
qed

lemma create_requirement_cases:
  assumes "commands_for_exec_policy (shell h) command = (commands, complex)"
  obtains e requested where
    "create_exec_approval_requirement_for_command h ctx p command prefix_rule =
       Some (requirement_of h ctx p command commands (\<not> complex) requested e)"
    "requested = derive_requested_execpolicy_amendment_from_prefix_rule (path_env.truncate (host_env h)) prefix_rule
       (matched_rules e) p commands (render_decision_for_unmatched_command h ctx complex)"
    "matched_rules e = concat (map (\<lambda>c. matches_for_command_with_options (path_env.truncate (host_env h)) p c
       (Some (render_decision_for_unmatched_command h ctx complex)) True) commands)"
    "\<exists>m \<in> set (matched_rules e). match_decision m = eval_decision e"
    "\<forall>m \<in> set (matched_rules e). match_decision m \<le> eval_decision e"
proof -
  have "commands \<noteq> []" using commands_for_exec_policy_not_Nil [of "shell h" command] assms by simp
  from check_multiple_Some [OF this] obtain e where e: "check_multiple_with_options (path_env.truncate (host_env h)) p commands
      (render_decision_for_unmatched_command h ctx complex) True = Some e"
    "matched_rules e = concat (map (\<lambda>c. matches_for_command_with_options (path_env.truncate (host_env h)) p c
       (Some (render_decision_for_unmatched_command h ctx complex)) True) commands)"
    "\<exists>m \<in> set (matched_rules e). match_decision m = eval_decision e"
    "\<forall>m \<in> set (matched_rules e). match_decision m \<le> eval_decision e" by metis
  then show thesis
    using assms e(1) by (intro that [OF _ refl e(2-4)]) (simp add: create_exec_approval_requirement_for_command_def Let_def)
qed

lemma decision_le_Allow: "d \<le> Allow \<longleftrightarrow> d = Allow" and decision_ge_Forbidden: "Forbidden \<le> d \<longleftrightarrow> d = Forbidden"
  by (cases d; simp add: less_eq_decision_def decision_rank_def)+

text \<open>What a command without a rule needs in order to run at once.\<close>

lemma unmatched_allowed:
  assumes "render_decision_for_unmatched_command h ctx complex c = Allow"
  shows "is_known_safe_command (powershell h) (shell h) c \<and> \<not> complex \<or>
    \<not> command_might_be_dangerous (shell h) c \<and> ctx_approval ctx \<noteq> UnlessTrusted \<or>
    ctx_approval ctx = Never \<and> sandbox_is_disabled (ctx_profile ctx)"
  using assms by (auto simp: render_decision_for_unmatched_command_def split: if_splits ask_for_approval.splits)

text \<open>
  C5: a command runs without asking only if each of the commands it is made of is allowed: every rule
  that matches one allows it, and one that no rule matches is known to be safe, or is not flagged as
  dangerous under a policy that trusts the sandbox, or runs with the sandbox explicitly disabled.
  The sandbox is bypassed only if a rule allows every one of them.
\<close>

theorem skip_only_when_allowed:
  assumes "create_exec_approval_requirement_for_command h ctx p command prefix_rule = Some (Skip bypass amendment)"
    and "commands_for_exec_policy (shell h) command = (commands, complex)"
  shows "list_all (\<lambda>c.
      let ms = matches_for_command_with_options (path_env.truncate (host_env h)) p c None True in
      list_all (\<lambda>m. match_decision m = Allow) ms \<and>
      (ms \<noteq> [] \<or>
       \<not> bypass \<and>
       (is_known_safe_command (powershell h) (shell h) c \<and> \<not> complex \<or>
        \<not> command_might_be_dangerous (shell h) c \<and> ctx_approval ctx \<noteq> UnlessTrusted \<or>
        ctx_approval ctx = Never \<and> sandbox_is_disabled (ctx_profile ctx)))) commands"
proof -
  let ?f = "render_decision_for_unmatched_command h ctx complex" and ?env = "path_env.truncate (host_env h)"
  from create_requirement_cases [OF assms(2)] obtain e requested where
    c: "create_exec_approval_requirement_for_command h ctx p command prefix_rule =
       Some (requirement_of h ctx p command commands (\<not> complex) requested e)"
    and ms: "matched_rules e = concat (map (\<lambda>c. matches_for_command_with_options ?env p c (Some ?f) True) commands)"
    and max: "\<forall>m \<in> set (matched_rules e). match_decision m \<le> eval_decision e" by metis
  have r: "requirement_of h ctx p command commands (\<not> complex) requested e = Skip bypass amendment"
    using assms(1) c by simp
  have allow: "eval_decision e = Allow"
  proof (rule ccontr)
    assume "eval_decision e \<noteq> Allow"
    with r show False
      by (cases "eval_decision e") (simp_all add: requirement_of_def Let_def split: option.splits)
  qed
  have all: "match_decision m = Allow"
    if "c \<in> set commands" "m \<in> set (matches_for_command_with_options ?env p c (Some ?f) True)" for c m
    using max that by (auto simp: allow decision_le_Allow ms)
  have b: "bypass = list_all (\<lambda>c. list_ex (\<lambda>m. is_policy_match m \<and> match_decision m = Allow)
      (matches_for_command_with_options ?env p c None True)) commands"
    using r allow by (simp add: requirement_of_def)
  show ?thesis
    unfolding list_all_iff Let_def
  proof (intro ballI)
    fix c assume c: "c \<in> set commands"
    show "(\<forall>m \<in> set (matches_for_command_with_options ?env p c None True). match_decision m = Allow) \<and>
      (matches_for_command_with_options ?env p c None True \<noteq> [] \<or>
       \<not> bypass \<and>
       (is_known_safe_command (powershell h) (shell h) c \<and> \<not> complex \<or>
        \<not> command_might_be_dangerous (shell h) c \<and> ctx_approval ctx \<noteq> UnlessTrusted \<or>
        ctx_approval ctx = Never \<and> sandbox_is_disabled (ctx_profile ctx)))"
    proof (cases "matches_for_command_with_options ?env p c None True = []")
      case True
      with all [OF c] have "?f c = Allow" by (simp add: matches_with_fallback)
      moreover have "\<not> bypass" using b c True by (auto simp: list_all_iff)
      ultimately show ?thesis using unmatched_allowed True by simp
    next
      case False
      with all [OF c] show ?thesis by (auto simp: matches_with_fallback)
    qed
  qed
qed

text \<open>
  C22: the decision about a command never panics. A rule that forbids one of the commands it is made of forbids it. A rule
  that prompts for one of them is never skipped: where nothing forbids the command, the user is asked if the
  approval policy lets rules ask, and the command is refused if it does not. Nothing is asked of a user who asked
  never to be asked.
\<close>

theorem approval_requirement_decides:
  assumes "commands_for_exec_policy (shell h) command = (commands, complex)"
  shows "\<exists>req. create_exec_approval_requirement_for_command h ctx p command prefix_rule = Some req \<and>
    (list_ex (\<lambda>c. list_ex (\<lambda>m. match_decision m = Forbidden)
        (matches_for_command_with_options (path_env.truncate (host_env h)) p c None True)) commands \<longrightarrow>
      (\<exists>reason. req = ForbiddenCommand reason)) \<and>
    (list_ex (\<lambda>c. list_ex (\<lambda>m. match_decision m = Prompt)
        (matches_for_command_with_options (path_env.truncate (host_env h)) p c None True)) commands \<longrightarrow>
      (\<forall>bypass amendment. req \<noteq> Skip bypass amendment) \<and>
      (list_all (\<lambda>c. list_all (\<lambda>m. match_decision m \<noteq> Forbidden)
          (matches_for_command_with_options (path_env.truncate (host_env h)) p c
            (Some (render_decision_for_unmatched_command h ctx complex)) True)) commands \<longrightarrow>
        (case prompt_is_rejected_by_policy (ctx_approval ctx) True of
           None \<Rightarrow> \<exists>reason amendment. req = NeedsApproval reason amendment
         | Some reason \<Rightarrow> req = ForbiddenCommand reason))) \<and>
    (ctx_approval ctx = Never \<longrightarrow> (\<forall>reason amendment. req \<noteq> NeedsApproval reason amendment))"
proof -
  let ?f = "render_decision_for_unmatched_command h ctx complex" and ?env = "path_env.truncate (host_env h)"
  from create_requirement_cases [OF assms] obtain e requested where
    c: "create_exec_approval_requirement_for_command h ctx p command prefix_rule =
       Some (requirement_of h ctx p command commands (\<not> complex) requested e)"
    and ms: "matched_rules e = concat (map (\<lambda>c. matches_for_command_with_options ?env p c (Some ?f) True) commands)"
    and ex: "\<exists>m \<in> set (matched_rules e). match_decision m = eval_decision e"
    and max: "\<forall>m \<in> set (matched_rules e). match_decision m \<le> eval_decision e" by metis
  let ?req = "requirement_of h ctx p command commands (\<not> complex) requested e"
  have rule: "is_policy_match m \<and> m \<in> set (matched_rules e)"
    if "c \<in> set commands" "m \<in> set (matches_for_command_with_options ?env p c None True)" for c m
    using that matches_are_policy by (auto simp: ms matches_with_fallback)
  have forbids: "eval_decision e = Forbidden"
    if "c \<in> set commands" "m \<in> set (matches_for_command_with_options ?env p c None True)" "match_decision m = Forbidden"
    for c m
    using rule [OF that(1,2)] max that(3) by (auto simp: decision_ge_Forbidden)
  have prompts: "(\<forall>bypass amendment. ?req \<noteq> Skip bypass amendment) \<and>
      (eval_decision e \<noteq> Forbidden \<longrightarrow>
        (case prompt_is_rejected_by_policy (ctx_approval ctx) True of
           None \<Rightarrow> \<exists>reason amendment. ?req = NeedsApproval reason amendment
         | Some reason \<Rightarrow> ?req = ForbiddenCommand reason))"
    if "c \<in> set commands" "m \<in> set (matches_for_command_with_options ?env p c None True)" "match_decision m = Prompt"
    for c m
  proof -
    note m = rule [OF that(1,2)]
    then have "Prompt \<le> eval_decision e" using max that(3) by auto
    then have "eval_decision e \<noteq> Allow" by (auto simp: less_eq_decision_def decision_rank_def)
    moreover have "list_ex (\<lambda>m. is_policy_match m \<and> match_decision m = Prompt) (matched_rules e)"
      using m that(3) by (auto simp: list_ex_iff)
    ultimately show ?thesis
      by (cases "eval_decision e") (auto simp: requirement_of_def Let_def split: option.splits)
  qed
  have allowed: "eval_decision e \<noteq> Forbidden"
    if "list_all (\<lambda>c. list_all (\<lambda>m. match_decision m \<noteq> Forbidden) (matches_for_command_with_options ?env p c (Some ?f) True)) commands"
    using ex that by (auto simp: ms list_all_iff)
  have "ctx_approval ctx = Never \<longrightarrow> (\<forall>reason amendment. ?req \<noteq> NeedsApproval reason amendment)"
    by (auto simp: requirement_of_def prompt_is_rejected_by_policy_def Let_def split: decision.splits option.splits)
  moreover have "\<exists>reason. ?req = ForbiddenCommand reason" if "eval_decision e = Forbidden"
    using that by (simp add: requirement_of_def)
  ultimately show ?thesis
    unfolding c list_ex_iff using forbids prompts allowed by (intro exI [of _ ?req]) blast
qed


section \<open>An accepted proposal\<close>

lemma exact_by_values:
  "match_exact_rules p c =
     (case c of [] \<Rightarrow> None
      | f # _ \<Rightarrow> Some (List.map_filter (\<lambda>r. rule_matches r c) (mm_values (rules_by_program p) f)))"
  by (auto simp: match_exact_rules_def mm_values_def List.map_filter_def split: list.splits option.splits)

lemma host_by_values:
  "match_host_executable_rules env p c =
     (case c of [] \<Rightarrow> []
      | f # args \<Rightarrow>
          (let program = from_absolute_path (home_dir env) (current_dir env) f in
           case executable_path_lookup_key program of
             None \<Rightarrow> []
           | Some b \<Rightarrow>
               if (case host_executables_by_name p b of None \<Rightarrow> False | Some paths \<Rightarrow> program \<notin> set paths) then []
               else map (with_resolved_program program)
                 (List.map_filter (\<lambda>r. rule_matches r (b # args)) (mm_values (rules_by_program p) b))))"
  by (auto simp: match_host_executable_rules_def mm_values_def List.map_filter_def Let_def
      split: list.splits option.splits)

definition allow_rule :: "str list \<Rightarrow> prefix_rule" where
  "allow_rule am = \<lparr>pattern = \<lparr>first = hd am, rest = map Single (tl am)\<rparr>, rule_decision = Allow,
     rule_justification = None\<rparr>"

lemma add_prefix_rule_Inr:
  "am \<noteq> [] \<Longrightarrow> add_prefix_rule am Allow p = Inr (p\<lparr>rules_by_program := mm_insert (hd am) (allow_rule am) (rules_by_program p)\<rparr>)"
  by (cases am) (auto simp: add_prefix_rule_def allow_rule_def)

lemma allow_rule_matches: "rule_matches (allow_rule am) c = Some m \<Longrightarrow> match_decision m = Allow"
  by (auto simp: rule_matches_def allow_rule_def)

lemma allow_rule_matches_itself:
  assumes "am \<noteq> []"
  shows "rule_matches (allow_rule am) am = Some (PrefixRuleMatch am Allow None None)"
proof -
  have "list_all2 token_matches (map Single xs) xs" for xs
    by (induction xs) simp_all
  then have "matches_prefix \<lparr>first = hd am, rest = map Single (tl am)\<rparr> am = Some am"
    using assms unfolding matches_prefix_Some by (intro exI [of _ "tl am"] exI [of _ "[]"]) simp
  then show ?thesis by (simp add: rule_matches_def allow_rule_def)
qed

lemma map_filter_snoc: "List.map_filter f (xs @ [x]) = List.map_filter f xs @ (case f x of None \<Rightarrow> [] | Some y \<Rightarrow> [y])"
  by (simp add: List.map_filter_def split: option.splits)

lemma exact_after_insert:
  assumes "p' = p\<lparr>rules_by_program := mm_insert (hd am) (allow_rule am) (rules_by_program p)\<rparr>"
    "match_exact_rules p c = Some ms" "match_exact_rules p' c = Some ms'"
  shows "\<exists>new. ms' = ms @ new \<and> (\<forall>m \<in> set new. match_decision m = Allow)"
  using assms by (auto simp: exact_by_values map_filter_snoc allow_rule_matches split: list.splits option.splits if_splits)

lemma host_after_insert:
  assumes "p' = p\<lparr>rules_by_program := mm_insert (hd am) (allow_rule am) (rules_by_program p)\<rparr>"
  shows "\<exists>new. match_host_executable_rules env p' c = match_host_executable_rules env p c @ new \<and>
    (\<forall>m \<in> set new. match_decision m = Allow)"
proof (cases c)
  case (Cons f args)
  then show ?thesis
    using assms by (auto simp: host_by_values Let_def map_filter_snoc allow_rule_matches split: option.splits)
qed (simp add: host_by_values)

lemma matches_after_insert:
  assumes "p' = p\<lparr>rules_by_program := mm_insert (hd am) (allow_rule am) (rules_by_program p)\<rparr>"
    and "m \<in> set (matches_for_command_with_options env p' c None True)"
  shows "match_decision m = Allow \<or> m \<in> set (matches_for_command_with_options env p c None True)"
proof (cases "match_exact_rules p c")
  case None
  then have "c = []" by (simp add: exact_by_values split: list.splits)
  then show ?thesis using assms by (simp add: matches_for_command_with_options_def exact_by_values host_by_values)
next
  case (Some ms)
  then obtain ms' where ms': "match_exact_rules p' c = Some ms'"
    using assms(1) by (auto simp: exact_by_values split: list.splits)
  from exact_after_insert [OF assms(1) Some ms'] host_after_insert [OF assms(1), of env c]
  show ?thesis
    using assms(2) Some ms' by (auto simp: matches_for_command_with_options_def split: list.splits)
qed

lemma matches_grow:
  assumes "p' = p\<lparr>rules_by_program := mm_insert (hd am) (allow_rule am) (rules_by_program p)\<rparr>"
    and "matches_for_command_with_options env p c None True \<noteq> []"
  shows "matches_for_command_with_options env p' c None True \<noteq> []"
proof (cases "match_exact_rules p c")
  case None
  then have "c = []" by (simp add: exact_by_values split: list.splits)
  then show ?thesis using assms by (simp add: matches_for_command_with_options_def exact_by_values host_by_values)
next
  case (Some ms)
  then obtain ms' where ms': "match_exact_rules p' c = Some ms'"
    using assms(1) by (auto simp: exact_by_values split: list.splits)
  from exact_after_insert [OF assms(1) Some ms'] host_after_insert [OF assms(1), of env c]
  show ?thesis
    using assms(2) Some ms' by (auto simp: matches_for_command_with_options_def split: list.splits)
qed

text \<open>A new rule that allows a prefix takes no permission away.\<close>

lemma allow_rule_keeps_allowed:
  assumes "p' = p\<lparr>rules_by_program := mm_insert (hd am) (allow_rule am) (rules_by_program p)\<rparr>"
    and "\<forall>m \<in> set (matches_for_command_with_options env p c (Some f) True). match_decision m = Allow"
  shows "\<forall>m \<in> set (matches_for_command_with_options env p' c (Some f) True). match_decision m = Allow"
  using assms(2) matches_after_insert [OF assms(1), of _ env c] matches_grow [OF assms(1), of env c]
  by (auto simp: matches_with_fallback split: if_splits)

lemma requirement_skip:
  assumes "commands_for_exec_policy (shell h) command = (commands, complex)"
    and "\<forall>c \<in> set commands. \<forall>m \<in> set (matches_for_command_with_options (path_env.truncate (host_env h)) p c
       (Some (render_decision_for_unmatched_command h ctx complex)) True). match_decision m = Allow"
  shows "\<exists>bypass am. create_exec_approval_requirement_for_command h ctx p command prefix_rule = Some (Skip bypass am) \<and>
    bypass = list_all (\<lambda>c. matches_for_command_with_options (path_env.truncate (host_env h)) p c None True \<noteq> []) commands"
proof -
  let ?f = "render_decision_for_unmatched_command h ctx complex" and ?env = "path_env.truncate (host_env h)"
  from create_requirement_cases [OF assms(1)] obtain e requested where
    c: "create_exec_approval_requirement_for_command h ctx p command prefix_rule =
       Some (requirement_of h ctx p command commands (\<not> complex) requested e)"
    and ms: "matched_rules e = concat (map (\<lambda>c. matches_for_command_with_options ?env p c (Some ?f) True) commands)"
    and ex: "\<exists>m \<in> set (matched_rules e). match_decision m = eval_decision e" by metis
  then have "eval_decision e = Allow" using assms(2) by auto
  moreover have "list_ex (\<lambda>m. is_policy_match m \<and> match_decision m = Allow) (matches_for_command_with_options ?env p c None True) \<longleftrightarrow>
      matches_for_command_with_options ?env p c None True \<noteq> []" if "c \<in> set commands" for c
    using assms(2) that matches_are_policy [of _ ?env p c True]
    by (cases "matches_for_command_with_options ?env p c None True")
      (force simp: matches_with_fallback)+
  ultimately show ?thesis by (auto simp: c requirement_of_def list_all_iff)
qed


text \<open>
  The amendment proposed for a command that needs approval, when no prefix was requested, is one of
  the commands it is made of. Once the user accepts it, the policy and the rules file are updated,
  and if every other part was allowed already, the same command then runs without asking; made of a
  single command, it even bypasses the sandbox.
\<close>

theorem accepted_amendment_skips:
  assumes "create_exec_approval_requirement_for_command h ctx p command None = Some (NeedsApproval reason (Some am))"
    and "commands_for_exec_policy (shell h) command = (commands, complex)" "[] \<notin> set commands"
    and "append_amendment_and_update json (path_env.truncate (host_env h)) TaskDone codex_home am
      \<lparr>current_policy = p, rules_file = file\<rparr> = (result, m)"
    and "\<forall>c \<in> set commands. c \<noteq> am \<longrightarrow> map_option eval_decision (check_with_options (path_env.truncate (host_env h)) p c
      (render_decision_for_unmatched_command h ctx complex) True) = Some Allow"
  shows "am \<in> set commands \<and> result = Inr () \<and>
    (\<exists>line. allow_prefix_rule_line json am = Some line \<and> rules_file m = append_locked_line line file) \<and>
    (\<exists>bypass more. create_exec_approval_requirement_for_command h ctx (current_policy m) command None =
       Some (Skip bypass more) \<and> (commands = [am] \<longrightarrow> bypass))"
proof -
  let ?f = "render_decision_for_unmatched_command h ctx complex" and ?env = "path_env.truncate (host_env h)"
  let ?ms = "\<lambda>p c. matches_for_command_with_options ?env p c None True"
  from create_requirement_cases [OF assms(2)] obtain e requested where
    c: "create_exec_approval_requirement_for_command h ctx p command None =
       Some (requirement_of h ctx p command commands (\<not> complex) requested e)"
    and req: "requested = derive_requested_execpolicy_amendment_from_prefix_rule ?env None (matched_rules e) p commands ?f"
    and ms: "matched_rules e = concat (map (\<lambda>c. matches_for_command_with_options ?env p c (Some ?f) True) commands)"
    by metis
  have "requested = None" using req by (simp add: derive_requested_execpolicy_amendment_from_prefix_rule_def)
  then have "find_map (heuristic_command Prompt) (matched_rules e) = Some am"
    using assms(1) c by (auto simp: requirement_of_def Let_def try_derive_execpolicy_amendment_for_prompt_rules_def
        split: decision.splits option.splits if_splits)
  then have "HeuristicsRuleMatch am Prompt \<in> set (matched_rules e)"
    using find_map_Some by (fastforce simp: heuristic_command_def split: rule_match.splits if_splits)
  then obtain x where x: "x \<in> set commands" "HeuristicsRuleMatch am Prompt \<in> set (matches_for_command_with_options ?env p x (Some ?f) True)"
    by (auto simp: ms)
  then have am: "am \<in> set commands" "?ms p am = []" "?f am = Prompt"
    using matches_are_policy [of "HeuristicsRuleMatch am Prompt" ?env p x True]
    by (auto simp: matches_with_fallback is_policy_match_def split: if_splits)
  then have ne: "am \<noteq> []" using assms(3) by auto
  define p' where "p' = p\<lparr>rules_by_program := mm_insert (hd am) (allow_rule am) (rules_by_program p)\<rparr>"
  have "check_multiple_with_options ?env p [am] (\<lambda>_. Forbidden) True =
      Some \<lparr>eval_decision = Forbidden, matched_rules = [HeuristicsRuleMatch am Forbidden]\<rparr>"
    by (simp add: check_multiple_with_options_def matches_with_fallback am(2) from_matches_def)
  then have m: "result = Inr ()" "current_policy m = p'"
    "\<exists>line. allow_prefix_rule_line json am = Some line \<and> rules_file m = append_locked_line line file"
    using assms(4) ne add_prefix_rule_Inr [OF ne, of p]
    by (auto simp: append_amendment_and_update_def append_to_rules_file_def allow_prefix_rule_line_def p'_def
        is_policy_match_def)
  have exact: "match_exact_rules p' am = Some [PrefixRuleMatch am Allow None None]"
  proof -
    have "match_exact_rules p am = Some []"
      using am(2) ne by (cases "match_exact_rules p am")
        (auto simp: matches_for_command_with_options_def exact_by_values split: list.splits)
    with ne show ?thesis
      by (auto simp: exact_by_values p'_def map_filter_snoc allow_rule_matches_itself split: list.splits)
  qed
  have "\<forall>m \<in> set (matches_for_command_with_options ?env p' y (Some ?f) True). match_decision m = Allow"
    if y: "y \<in> set commands" for y
  proof (cases "y = am")
    case True
    with exact show ?thesis by (simp add: matches_for_command_with_options_def)
  next
    case False
    then have "map_option eval_decision (check_with_options ?env p y ?f True) = Some Allow" using y assms(5) by simp
    then have "\<forall>m \<in> set (matches_for_command_with_options ?env p y (Some ?f) True). match_decision m = Allow"
      using from_matches_max [OF matches_not_Nil, of ?env p y ?f True]
      by (auto simp: check_with_options_def decision_le_Allow)
    then show ?thesis using allow_rule_keeps_allowed [OF p'_def] by blast
  qed
  then obtain bypass more where "create_exec_approval_requirement_for_command h ctx p' command None = Some (Skip bypass more)"
    "bypass = list_all (\<lambda>c. ?ms p' c \<noteq> []) commands"
    using requirement_skip [OF assms(2)] by blast
  moreover have "?ms p' am \<noteq> []" using exact by (simp add: matches_for_command_with_options_def)
  ultimately show ?thesis using m am(1) by auto
qed

text \<open>
  A rules file that does not parse empties the policy, so the rules that the requirements impose are
  dropped as well: a command they forbid is no longer matched by any rule.
\<close>

lemma parse_error_drops_requirements:
  assumes "load_exec_policy starlark env ls fs stack = Inl (ParsePolicy q e)"
  shows "load_exec_policy_with_warning starlark env ls fs stack = Inr (empty_policy, Some (ParsePolicy q e)) \<and>
    matches_for_command_with_options env empty_policy c None True = []"
  using assms by (simp add: load_exec_policy_with_warning_def matches_for_command_with_options_def
      exact_by_values host_by_values empty_policy_def mm_values_def mm_get_vec_def map_filter_simps Let_def
      split: list.splits option.splits)


section \<open>Examples\<close>

definition sample_host :: approval_host where
  "sample_host = \<lparr>host_env = sample_env, powershell = (\<lambda>_ _. None), shell = (\<lambda>_. None), cfg_windows = False,
     shlex_try_join = (\<lambda>_. None)\<rparr>"

definition sample_context :: approval_context where
  "sample_context = \<lparr>ctx_approval = OnRequest, ctx_profile = profile_read_only, ctx_file_system = default_policy,
     ctx_cwd = [slash], ctx_permissions = UseDefault\<rparr>"

definition forbidding_policy :: policy where
  "forbidding_policy = \<lparr>rules_by_program = [(lit ''rm'', [\<lparr>pattern = \<lparr>first = lit ''rm'', rest = []\<rparr>,
     rule_decision = Forbidden, rule_justification = None\<rparr>])], network_rules = [],
     host_executables_by_name = Map.empty\<rparr>"

lemma empty_policy_matches [simp]: "matches_for_command_with_options env empty_policy c None True = []"
  by (simp add: matches_for_command_with_options_def exact_by_values host_by_values empty_policy_def
      mm_values_def mm_get_vec_def map_filter_simps Let_def split: list.splits option.splits)

lemma sample_commands:
  "commands_for_exec_policy (shell sample_host) [a] = ([[a]], False)"
  "commands_for_exec_policy (shell sample_host) [a, b] = ([[a, b]], False)"
  by (simp_all add: commands_for_exec_policy_def parse_shell_lc_plain_commands_def
      parse_shell_lc_single_command_prefix_def extract_bash_command_def)

theorem skip_only_when_allowed_witness:
  "(if command_might_be_dangerous (shell sample_host) [lit ''ls'']
    then is_known_safe_command (powershell sample_host) (shell sample_host) [lit ''ls''] else True)"
proof -
  have "\<not> command_might_be_dangerous (shell sample_host) [lit ''ls'']"
    by (simp add: command_might_be_dangerous_def parse_shell_lc_plain_commands_def extract_bash_command_def)
  then have "render_decision_for_unmatched_command sample_host sample_context False [lit ''ls''] = Allow"
    by (simp add: render_decision_for_unmatched_command_def sample_host_def sample_context_def default_policy_def
        requests_sandbox_override_def)
  then have "create_exec_approval_requirement_for_command sample_host sample_context empty_policy [lit ''ls''] None =
      Some (Skip False (Some [lit ''ls'']))"
    by (simp add: create_exec_approval_requirement_for_command_def sample_commands check_multiple_with_options_def
        matches_with_fallback from_matches_def requirement_of_def try_derive_execpolicy_amendment_for_allow_rules_def
        is_policy_match_def heuristic_command_def)
  from skip_only_when_allowed [OF this sample_commands(1)] show ?thesis
    by (auto simp: sample_context_def)
qed

theorem approval_requirement_decides_witness:
  "\<exists>reason. create_exec_approval_requirement_for_command sample_host sample_context forbidding_policy
     [lit ''rm'', lit ''x''] None = Some (ForbiddenCommand reason)"
proof -
  have "match_exact_rules forbidding_policy [lit ''rm'', lit ''x''] = Some [PrefixRuleMatch [lit ''rm''] Forbidden None None]"
    by (simp add: match_exact_rules_def forbidding_policy_def mm_get_vec_def rule_matches_def matches_prefix_def
        List.map_filter_def)
  then have "list_ex (\<lambda>m. match_decision m = Forbidden) (matches_for_command_with_options
      (path_env.truncate (host_env sample_host)) forbidding_policy [lit ''rm'', lit ''x''] None True)"
    by (simp add: matches_for_command_with_options_def)
  with approval_requirement_decides [OF sample_commands(2), of sample_context forbidding_policy "lit ''rm''" "lit ''x''" None]
  show ?thesis by auto
qed

theorem accepted_amendment_skips_witness:
  "\<exists>m more. append_amendment_and_update (\<lambda>s. [34] @ s @ [34]) (path_env.truncate (host_env sample_host)) TaskDone []
       [lit ''rm'', lit ''-rf''] \<lparr>current_policy = empty_policy, rules_file = []\<rparr> = (Inr (), m) \<and>
     create_exec_approval_requirement_for_command sample_host sample_context (current_policy m)
       [lit ''rm'', lit ''-rf''] None = Some (Skip True more)"
proof -
  let ?c = "[lit ''rm'', lit ''-rf'']"
  obtain result m where u: "append_amendment_and_update (\<lambda>s. [34] @ s @ [34]) (path_env.truncate (host_env sample_host))
      TaskDone [] ?c \<lparr>current_policy = empty_policy, rules_file = []\<rparr> = (result, m)" by (meson surj_pair)
  have f: "is_known_safe_command (powershell sample_host) (shell sample_host) ?c = False"
  proof -
    have n: "path_file_name (lit ''rm'') = Some (lit ''rm'')"
      by (intro file_name_bare; simp add: slash_def str_eval)
    have "to_ascii_lowercase (lit ''rm'') = lit ''rm''"
      by (simp add: to_ascii_lowercase_def to_ascii_lowercase_char_def lit_def uc_def)
    then show ?thesis
      by (simp add: is_known_safe_command_def is_safe_to_call_with_exec_def executable_name_lookup_key_def n
          always_safe_programs_def is_safe_command_windows_def try_parse_powershell_command_sequence_def
          is_powershell_executable_def parse_shell_lc_plain_commands_def extract_bash_command_def)
  qed
  have "command_might_be_dangerous (shell sample_host) ?c"
    by (simp add: command_might_be_dangerous_def)
  with f have "render_decision_for_unmatched_command sample_host sample_context False ?c = Prompt"
    by (simp add: render_decision_for_unmatched_command_def sample_context_def)
  then have "create_exec_approval_requirement_for_command sample_host sample_context empty_policy ?c None =
      Some (NeedsApproval None (Some ?c))"
    by (simp add: create_exec_approval_requirement_for_command_def sample_commands check_multiple_with_options_def
        matches_with_fallback from_matches_def requirement_of_def is_policy_match_def heuristic_command_def
        prompt_is_rejected_by_policy_def sample_context_def derive_prompt_reason_def most_specific_def
        prefix_match_def map_filter_simps derive_requested_execpolicy_amendment_from_prefix_rule_def
        try_derive_execpolicy_amendment_for_prompt_rules_def)
  from accepted_amendment_skips [OF this sample_commands(2) _ u] u show ?thesis by auto
qed


end
