(* ===== verification/Network_Approval.thy ===== *)
theory Network_Approval
  imports Exec_Approval
begin

text \<open>
  \<^verbatim>\<open>codex-rs/core/src/tools/network_approval.rs\<close> and \<^verbatim>\<open>core/src/network_policy_decision.rs\<close>: the approval of
  network accesses that the proxy intercepts. Requests are handled concurrently; a request is a
  process that takes one step per critical section or awaited answer of \<^verbatim>\<open>handle_inline_policy_request\<close>,
  and the steps of all requests interleave. \<^verbatim>\<open>tokio::sync::Notify\<close> is the number of its \<^verbatim>\<open>notify_waiters\<close>
  calls: a listener created at count \<^verbatim>\<open>n\<close> wakes when the count exceeds \<^verbatim>\<open>n\<close>. A request may be
  dropped while it waits. The theorems show that a request returns unless the owner of the question it waits
  for was dropped, that an access is allowed only after an approval of that host, and that one question at a
  time is open for a host.
\<close>

section \<open>Decisions\<close>

datatype rule_action = RuleAllow | RuleDeny

record network_policy_amendment =
  amendment_host :: str
  amendment_action :: rule_action

datatype review_decision =
  Approved
| ApprovedExecpolicyAmendment "str list"
| ApprovedForSession
| NetworkPolicyAmendment network_policy_amendment
| Denied
| TimedOut
| Abort

datatype approval_protocol = ApprovalHttp | ApprovalHttps | ApprovalSocks5Tcp | ApprovalSocks5Udp

record network_approval_context =
  context_host :: str
  context_protocol :: approval_protocol

datatype proxy_protocol = ProxyHttp | ProxyHttpsConnect | ProxySocks5Tcp | ProxySocks5Udp

datatype policy_decision = PolicyDeny | PolicyAsk

datatype decision_source = BaselinePolicy | ModeGuard | ProxyState | Decider

datatype network_decision =
  NetworkAllow
| NetworkDeny (deny_reason: str) (deny_source: decision_source) (deny_decision: policy_decision)

definition REASON_POLICY_DENIED :: str where
  "REASON_POLICY_DENIED = lit ''policy_denied''"

definition deny_with_source :: "str \<Rightarrow> decision_source \<Rightarrow> network_decision" where
  "deny_with_source reason source =
     NetworkDeny (if reason = [] then REASON_POLICY_DENIED else reason) source PolicyDeny"

definition ask_with_source :: "str \<Rightarrow> decision_source \<Rightarrow> network_decision" where
  "ask_with_source reason source =
     NetworkDeny (if reason = [] then REASON_POLICY_DENIED else reason) source PolicyAsk"

definition network_deny :: "str \<Rightarrow> network_decision" where
  "network_deny reason = deny_with_source reason Decider"

definition network_ask :: "str \<Rightarrow> network_decision" where
  "network_ask reason = ask_with_source reason Decider"

section \<open>Decisions of the network policy\<close>

record decision_payload =
  payload_decision :: policy_decision
  payload_source :: decision_source
  payload_protocol :: "approval_protocol option"
  payload_host :: "str option"
  payload_reason :: "str option"
  payload_port :: "nat option"

definition is_ask_from_decider :: "decision_payload \<Rightarrow> bool" where
  "is_ask_from_decider p \<longleftrightarrow> payload_decision p = PolicyAsk \<and> payload_source p = Decider"

definition network_approval_context_from_payload :: "decision_payload \<Rightarrow> network_approval_context option" where
  "network_approval_context_from_payload p =
     (if \<not> is_ask_from_decider p then None
      else case (payload_protocol p, payload_host p) of
        (Some prot, Some raw) \<Rightarrow>
          (let h = trim raw in
           if h = [] then None else Some \<lparr>context_host = h, context_protocol = prot\<rparr>)
      | _ \<Rightarrow> None)"

definition parse_network_policy_decision :: "str \<Rightarrow> policy_decision option" where
  "parse_network_policy_decision v =
     (if v = lit ''deny'' then Some PolicyDeny else if v = lit ''ask'' then Some PolicyAsk else None)"

record blocked_request =
  blocked_host :: str
  blocked_reason :: str
  blocked_decision :: "str option"

definition blocked_detail :: "str \<Rightarrow> str" where
  "blocked_detail reason =
     (if reason = lit ''denied'' then lit ''domain is explicitly denied by policy and cannot be approved from this prompt''
      else if reason = lit ''not_allowed'' then lit ''domain is not on the allowlist for the current sandbox mode''
      else if reason = lit ''not_allowed_local'' then lit ''local/private network addresses are blocked by the sandbox policy''
      else if reason = lit ''method_not_allowed'' then lit ''request method is blocked by the current network mode''
      else if reason = lit ''proxy_disabled'' then lit ''network proxy is disabled''
      else lit ''request is blocked by network policy'')"

definition denied_network_policy_message :: "blocked_request \<Rightarrow> str option" where
  "denied_network_policy_message b =
     (if Option.bind (blocked_decision b) parse_network_policy_decision \<noteq> Some PolicyDeny then None
      else
        let h = trim (blocked_host b) in
        if h = [] then Some (lit ''Network access was blocked by policy.'')
        else Some (lit ''Network access to '' @ [34] @ h @ [34] @ lit '' was blocked: '' @
               blocked_detail (blocked_reason b) @ lit ''.''))"

record rule_amendment =
  rule_amendment_protocol :: network_rule_protocol
  rule_amendment_decision :: decision
  rule_amendment_justification :: str

fun rule_protocol :: "approval_protocol \<Rightarrow> network_rule_protocol" where
  "rule_protocol ApprovalHttp = Http"
| "rule_protocol ApprovalHttps = Https"
| "rule_protocol ApprovalSocks5Tcp = Socks5Tcp"
| "rule_protocol ApprovalSocks5Udp = Socks5Udp"

fun rule_protocol_label :: "approval_protocol \<Rightarrow> str" where
  "rule_protocol_label ApprovalHttp = lit ''http''"
| "rule_protocol_label ApprovalHttps = lit ''https_connect''"
| "rule_protocol_label ApprovalSocks5Tcp = lit ''socks5_tcp''"
| "rule_protocol_label ApprovalSocks5Udp = lit ''socks5_udp''"

definition execpolicy_network_rule_amendment ::
  "network_policy_amendment \<Rightarrow> network_approval_context \<Rightarrow> str \<Rightarrow> rule_amendment" where
  "execpolicy_network_rule_amendment a ctx h =
     (let (d, verb) = (case amendment_action a of
            RuleAllow \<Rightarrow> (Allow, lit ''Allow'') | RuleDeny \<Rightarrow> (Forbidden, lit ''Deny''))
      in \<lparr>rule_amendment_protocol = rule_protocol (context_protocol ctx), rule_amendment_decision = d,
          rule_amendment_justification =
            verb @ lit '' '' @ rule_protocol_label (context_protocol ctx) @ lit '' access to '' @ h\<rparr>)"

section \<open>The service\<close>

record host_key =
  key_host :: str
  key_protocol :: str
  key_port :: nat

record network_request =
  request_protocol :: proxy_protocol
  request_host :: str
  request_port :: nat

fun protocol_key_label :: "approval_protocol \<Rightarrow> str" where
  "protocol_key_label ApprovalHttp = lit ''http''"
| "protocol_key_label ApprovalHttps = lit ''https''"
| "protocol_key_label ApprovalSocks5Tcp = lit ''socks5-tcp''"
| "protocol_key_label ApprovalSocks5Udp = lit ''socks5-udp''"

fun approval_protocol_of :: "proxy_protocol \<Rightarrow> approval_protocol" where
  "approval_protocol_of ProxyHttp = ApprovalHttp"
| "approval_protocol_of ProxyHttpsConnect = ApprovalHttps"
| "approval_protocol_of ProxySocks5Tcp = ApprovalSocks5Tcp"
| "approval_protocol_of ProxySocks5Udp = ApprovalSocks5Udp"

definition key_from_request :: "network_request \<Rightarrow> approval_protocol \<Rightarrow> host_key" where
  "key_from_request r prot =
     \<lparr>key_host = to_ascii_lowercase (request_host r), key_protocol = protocol_key_label prot,
      key_port = request_port r\<rparr>"

definition key_of :: "network_request \<Rightarrow> host_key" where
  "key_of r = key_from_request r (approval_protocol_of (request_protocol r))"

datatype pending_decision = AllowOnce | AllowForSession | PendingDeny

datatype approval_outcome = DeniedByUser | DeniedByPolicy str

definition allows_network_approval_flow :: "ask_for_approval \<Rightarrow> bool" where
  "allows_network_approval_flow policy \<longleftrightarrow> policy \<noteq> Never"

definition permission_profile_allows_network_approval_flow :: "permission_profile \<Rightarrow> bool" where
  "permission_profile_allows_network_approval_flow p \<longleftrightarrow> (case p of Managed _ _ \<Rightarrow> True | _ \<Rightarrow> False)"

definition NOT_ALLOWED :: str where
  "NOT_ALLOWED = lit ''not_allowed''"

fun to_network_decision :: "pending_decision \<Rightarrow> network_decision" where
  "to_network_decision AllowOnce = NetworkAllow"
| "to_network_decision AllowForSession = NetworkAllow"
| "to_network_decision PendingDeny = network_deny NOT_ALLOWED"

record pending_approval =
  pending_decision :: "pending_decision option"
  notify_count :: nat

definition new_pending :: pending_approval where
  "new_pending = \<lparr>pending_decision = None, notify_count = 0\<rparr>"

record active_call =
  call_registration :: str
  call_turn :: str
  call_command :: str

text \<open>
  An \<^verbatim>\<open>Arc\<close> of a pending approval is its index in \<^verbatim>\<open>arcs\<close>; the index map of active calls is the list of
  its entries in insertion order.
\<close>

record approval_service =
  active_calls :: "(str \<times> active_call) list"
  call_outcomes :: "str \<rightharpoonup> approval_outcome"
  pending_hosts :: "host_key \<rightharpoonup> nat"
  approved_hosts :: "host_key set"
  denied_hosts :: "host_key set"
  arcs :: "pending_approval list"

definition new_service :: approval_service where
  "new_service = \<lparr>active_calls = [], call_outcomes = Map.empty, pending_hosts = Map.empty,
     approved_hosts = {}, denied_hosts = {}, arcs = []\<rparr>"

definition sync_session_approved_hosts_to :: "approval_service \<Rightarrow> approval_service \<Rightarrow> approval_service" where
  "sync_session_approved_hosts_to s other = other\<lparr>approved_hosts := approved_hosts s\<rparr>"

fun index_insert :: "'k \<Rightarrow> 'v \<Rightarrow> ('k \<times> 'v) list \<Rightarrow> ('k \<times> 'v) list" where
  "index_insert k v [] = [(k, v)]"
| "index_insert k v ((k', v') # m) = (if k = k' then (k, v) # m else (k', v') # index_insert k v m)"

definition register_call :: "str \<Rightarrow> str \<Rightarrow> str \<Rightarrow> approval_service \<Rightarrow> approval_service" where
  "register_call rid turn command s =
     s\<lparr>active_calls := index_insert rid \<lparr>call_registration = rid, call_turn = turn, call_command = command\<rparr>
         (active_calls s)\<rparr>"

definition unregister_call :: "str \<Rightarrow> approval_service \<Rightarrow> approval_service" where
  "unregister_call rid s =
     s\<lparr>active_calls := filter (\<lambda>(k, _). k \<noteq> rid) (active_calls s), call_outcomes := (call_outcomes s)(rid := None)\<rparr>"

definition resolve_single_active_call :: "approval_service \<Rightarrow> active_call option" where
  "resolve_single_active_call s = (case active_calls s of [(_, call)] \<Rightarrow> Some call | _ \<Rightarrow> None)"

definition record_call_outcome :: "str \<Rightarrow> approval_outcome \<Rightarrow> approval_service \<Rightarrow> approval_service" where
  "record_call_outcome rid outcome s =
     (if call_outcomes s rid = Some DeniedByUser then s
      else s\<lparr>call_outcomes := (call_outcomes s)(rid \<mapsto> outcome)\<rparr>)"

definition record_outcome_for_single_active_call :: "approval_outcome \<Rightarrow> approval_service \<Rightarrow> approval_service" where
  "record_outcome_for_single_active_call outcome s =
     (case resolve_single_active_call s of
        None \<Rightarrow> s
      | Some call \<Rightarrow> record_call_outcome (call_registration call) outcome s)"

definition take_call_outcome :: "str \<Rightarrow> approval_service \<Rightarrow> approval_outcome option \<times> approval_service" where
  "take_call_outcome rid s = (call_outcomes s rid, s\<lparr>call_outcomes := (call_outcomes s)(rid := None)\<rparr>)"

definition record_blocked_request :: "blocked_request \<Rightarrow> approval_service \<Rightarrow> approval_service" where
  "record_blocked_request b s =
     (case denied_network_policy_message b of
        None \<Rightarrow> s
      | Some message \<Rightarrow> record_outcome_for_single_active_call (DeniedByPolicy message) s)"

definition get_or_create_pending_approval :: "host_key \<Rightarrow> approval_service \<Rightarrow> (nat \<times> bool) \<times> approval_service" where
  "get_or_create_pending_approval key s =
     (case pending_hosts s key of
        Some existing \<Rightarrow> ((existing, False), s)
      | None \<Rightarrow>
          ((length (arcs s), True),
           s\<lparr>pending_hosts := (pending_hosts s)(key \<mapsto> length (arcs s)), arcs := arcs s @ [new_pending]\<rparr>))"

section \<open>One request\<close>

text \<open>
  What a step receives from outside: the active turn, the answer of the hooks, the answer of the
  reviewer and the message of a rejecting guardian. Amending the stored policy after an answer does
  not touch the service.
\<close>

record turn_info =
  turn_profile :: permission_profile
  turn_policy :: ask_for_approval
  turn_auto_review :: bool

definition routes_approval_to_guardian :: "turn_info \<Rightarrow> bool" where
  "routes_approval_to_guardian t \<longleftrightarrow>
     (case turn_policy t of OnRequest \<Rightarrow> True | Granular _ \<Rightarrow> True | _ \<Rightarrow> False) \<and> turn_auto_review t"

datatype hook_decision = HookAllow | HookDeny str

record approval_input =
  turn_now :: "turn_info option"
  hook_answer :: "hook_decision option"
  review_answer :: review_decision
  guardian_message :: str

definition guardian_timeout_message :: str where
  "guardian_timeout_message =
     lit ''The automatic permission approval review did not finish before its deadline. '' @
     lit ''Do not assume the action is unsafe based on the timeout alone. '' @
     lit ''You may retry once, or ask the user for guidance or explicit approval.''"

fun decimal :: "nat \<Rightarrow> str" where
  "decimal n = (if n < 10 then [48 + n] else decimal (n div 10) @ [48 + n mod 10])"

declare decimal.simps [simp del]

definition format_network_target :: "str \<Rightarrow> str \<Rightarrow> nat \<Rightarrow> str" where
  "format_network_target prot h port = prot @ lit ''://'' @ h @ lit '':'' @ decimal port"

definition policy_denial_message :: "network_request \<Rightarrow> str" where
  "policy_denial_message r =
     lit ''Network access to '' @ [34] @
     format_network_target (key_protocol (key_of r)) (request_host r) (key_port (key_of r)) @
     [34] @ lit '' was blocked by policy.''"

text \<open>
  The remaining operations of a request once its decision is known, one per lock that the code takes.
\<close>

datatype service_action =
  RecordSingle approval_outcome
| RecordCall str approval_outcome
| ForgetDenied
| AddApproved
| ForgetApproved
| AddDenied
| SetDecision pending_decision
| NotifyWaiters
| RemovePending

definition settle :: "pending_decision \<Rightarrow> service_action list" where
  "settle d = [SetDecision d, NotifyWaiters, RemovePending]"

definition refuse_actions :: "network_request \<Rightarrow> service_action list" where
  "refuse_actions r = settle PendingDeny @ [RecordSingle (DeniedByPolicy (policy_denial_message r))]"

definition record_for :: "active_call option \<Rightarrow> approval_outcome \<Rightarrow> service_action list" where
  "record_for owner outcome =
     (case owner of None \<Rightarrow> [] | Some call \<Rightarrow> [RecordCall (call_registration call) outcome])"

fun resolve_review :: "review_decision \<Rightarrow> pending_decision" where
  "resolve_review Approved = AllowOnce"
| "resolve_review (ApprovedExecpolicyAmendment _) = AllowOnce"
| "resolve_review ApprovedForSession = AllowForSession"
| "resolve_review (NetworkPolicyAmendment a) =
     (case amendment_action a of RuleAllow \<Rightarrow> AllowForSession | RuleDeny \<Rightarrow> PendingDeny)"
| "resolve_review Denied = PendingDeny"
| "resolve_review Abort = PendingDeny"
| "resolve_review TimedOut = PendingDeny"

fun review_outcome :: "bool \<Rightarrow> str \<Rightarrow> review_decision \<Rightarrow> approval_outcome option" where
  "review_outcome guardian message (NetworkPolicyAmendment a) =
     (case amendment_action a of RuleAllow \<Rightarrow> None | RuleDeny \<Rightarrow> Some DeniedByUser)"
| "review_outcome guardian message Denied = Some (if guardian then DeniedByPolicy message else DeniedByUser)"
| "review_outcome guardian message Abort = Some (if guardian then DeniedByPolicy message else DeniedByUser)"
| "review_outcome guardian message TimedOut = Some (DeniedByPolicy guardian_timeout_message)"
| "review_outcome guardian message _ = None"

definition caches_session_deny :: "review_decision \<Rightarrow> bool" where
  "caches_session_deny d \<longleftrightarrow>
     (case d of NetworkPolicyAmendment a \<Rightarrow> amendment_action a = RuleDeny | _ \<Rightarrow> False)"

definition review_actions :: "active_call option \<Rightarrow> bool \<Rightarrow> str \<Rightarrow> review_decision \<Rightarrow> service_action list" where
  "review_actions owner guardian message d =
     (case review_outcome guardian message d of None \<Rightarrow> [] | Some outcome \<Rightarrow> record_for owner outcome) @
     (if resolve_review d = AllowForSession then [ForgetDenied, AddApproved] else []) @
     (if caches_session_deny d then [ForgetApproved, AddDenied] else []) @
     settle (resolve_review d)"

datatype approval_pc =
  CheckDenied
| CheckApproved
| GetPending
| Listen nat
| CheckDecision nat nat
| Blocked nat nat
| OwnTurn nat
| OwnResolve nat turn_info
| AskHooks nat turn_info "active_call option"
| AskReview nat turn_info "active_call option"
| Act nat "service_action list" network_decision
| is_Returned: Returned network_decision
| Dropped

definition update_arc :: "nat \<Rightarrow> (pending_approval \<Rightarrow> pending_approval) \<Rightarrow> approval_service \<Rightarrow> approval_service" where
  "update_arc pid f s = (if pid < length (arcs s) then s\<lparr>arcs := (arcs s)[pid := f (arcs s ! pid)]\<rparr> else s)"

fun perform :: "host_key \<Rightarrow> nat \<Rightarrow> service_action \<Rightarrow> approval_service \<Rightarrow> approval_service" where
  "perform key pid (RecordSingle outcome) s = s"
| "perform key pid (RecordCall rid outcome) s = record_call_outcome rid outcome s"
| "perform key pid ForgetDenied s = s\<lparr>denied_hosts := denied_hosts s - {key}\<rparr>"
| "perform key pid AddApproved s = s\<lparr>approved_hosts := insert key (approved_hosts s)\<rparr>"
| "perform key pid ForgetApproved s = s\<lparr>approved_hosts := approved_hosts s - {key}\<rparr>"
| "perform key pid AddDenied s = s\<lparr>denied_hosts := insert key (denied_hosts s)\<rparr>"
| "perform key pid (SetDecision d) s = update_arc pid (pending_decision_update (\<lambda>_. Some d)) s"
| "perform key pid NotifyWaiters s = update_arc pid (notify_count_update Suc) s"
| "perform key pid RemovePending s = s\<lparr>pending_hosts := (pending_hosts s)(key := None)\<rparr>"

definition next_actions :: "service_action \<Rightarrow> service_action list \<Rightarrow> approval_service \<Rightarrow> service_action list" where
  "next_actions a as s =
     (case a of RecordSingle outcome \<Rightarrow> record_for (resolve_single_active_call s) outcome @ as | _ \<Rightarrow> as)"

definition refuse :: "network_request \<Rightarrow> nat \<Rightarrow> approval_pc" where
  "refuse r pid = Act pid (refuse_actions r) (network_deny NOT_ALLOWED)"

fun advance ::
  "approval_input \<Rightarrow> network_request \<Rightarrow> approval_service \<Rightarrow> approval_pc \<Rightarrow> (approval_service \<times> approval_pc) option" where
  "advance inp r s CheckDenied =
     Some (s, if key_of r \<in> denied_hosts s then Returned (network_deny NOT_ALLOWED) else CheckApproved)"
| "advance inp r s CheckApproved =
     Some (s, if key_of r \<in> approved_hosts s then Returned NetworkAllow else GetPending)"
| "advance inp r s GetPending =
     (case get_or_create_pending_approval (key_of r) s of
        ((pid, is_owner), s) \<Rightarrow> Some (s, if is_owner then OwnTurn pid else Listen pid))"
| "advance inp r s (Listen pid) = Some (s, CheckDecision pid (notify_count (arcs s ! pid)))"
| "advance inp r s (CheckDecision pid n) =
     (case pending_decision (arcs s ! pid) of
        Some d \<Rightarrow> Some (s, Returned (to_network_decision d))
      | None \<Rightarrow> Some (s, Blocked pid n))"
| "advance inp r s (Blocked pid n) = (if n < notify_count (arcs s ! pid) then Some (s, Listen pid) else None)"
| "advance inp r s (OwnTurn pid) =
     (case turn_now inp of
        None \<Rightarrow> Some (s, refuse r pid)
      | Some t \<Rightarrow>
          if \<not> permission_profile_allows_network_approval_flow (turn_profile t) then Some (s, refuse r pid)
          else if \<not> allows_network_approval_flow (turn_policy t) then Some (s, refuse r pid)
          else Some (s, OwnResolve pid t))"
| "advance inp r s (OwnResolve pid t) = Some (s, AskHooks pid t (resolve_single_active_call s))"
| "advance inp r s (AskHooks pid t owner) =
     (case hook_answer inp of
        Some HookAllow \<Rightarrow> Some (s, Act pid (settle AllowOnce) NetworkAllow)
      | Some (HookDeny message) \<Rightarrow>
          Some (s, Act pid (record_for owner (DeniedByPolicy message) @ settle PendingDeny) (network_deny NOT_ALLOWED))
      | None \<Rightarrow> Some (s, AskReview pid t owner))"
| "advance inp r s (AskReview pid t owner) =
     Some (s, Act pid (review_actions owner (routes_approval_to_guardian t) (guardian_message inp) (review_answer inp))
       (to_network_decision (resolve_review (review_answer inp))))"
| "advance inp r s (Act pid (a # as) d) = Some (perform (key_of r) pid a s, Act pid (next_actions a as s) d)"
| "advance inp r s (Act pid [] d) = Some (s, Returned d)"
| "advance inp r s (Returned d) = None"
| "advance inp r s Dropped = None"

section \<open>All requests\<close>

text \<open>
  The requests in the order of their arrival, and three records the code does not keep: the approvals given
  by a hook or a reviewer, each with the turn it was given in and whether it was for the session or only for
  the requests that share one pending approval; the pending approval each request owns or waits for; and the
  pending approvals whose owner was dropped before it woke the waiters.
\<close>

datatype grant_kind = GrantSession | GrantOnce nat

record approval_system =
  service :: approval_service
  requests :: "(network_request \<times> approval_pc) list"
  grants :: "(host_key \<times> turn_info \<times> grant_kind) set"
  joined :: "nat \<Rightarrow> nat option"
  orphaned :: "nat set"

definition init_system :: approval_system where
  "init_system = \<lparr>service = new_service, requests = [], grants = {}, joined = Map.empty, orphaned = {}\<rparr>"

fun grant_of :: "approval_input \<Rightarrow> approval_pc \<Rightarrow> (turn_info \<times> grant_kind) option" where
  "grant_of inp (AskHooks pid t owner) = (if hook_answer inp = Some HookAllow then Some (t, GrantOnce pid) else None)"
| "grant_of inp (AskReview pid t owner) =
     (case resolve_review (review_answer inp) of
        AllowOnce \<Rightarrow> Some (t, GrantOnce pid)
      | AllowForSession \<Rightarrow> Some (t, GrantSession)
      | PendingDeny \<Rightarrow> None)"
| "grant_of inp _ = None"

definition granting :: "host_key \<Rightarrow> approval_input \<Rightarrow> approval_pc \<Rightarrow> (host_key \<times> turn_info \<times> grant_kind) set" where
  "granting key inp pc = (case grant_of inp pc of Some g \<Rightarrow> {(key, g)} | None \<Rightarrow> {})"

fun joining :: "approval_pc \<Rightarrow> approval_pc \<Rightarrow> nat option \<Rightarrow> nat option" where
  "joining GetPending (OwnTurn pid) _ = Some pid"
| "joining GetPending (Listen pid) _ = Some pid"
| "joining _ _ j = j"

definition set_pc :: "nat \<Rightarrow> approval_pc \<Rightarrow> approval_system \<Rightarrow> approval_system" where
  "set_pc i pc st = st\<lparr>requests := (requests st)[i := (fst (requests st ! i), pc)]\<rparr>"

inductive request_step :: "approval_system \<Rightarrow> approval_system \<Rightarrow> bool" where
  request_step:
    "\<lbrakk>i < length (requests st); requests st ! i = (r, pc); advance inp r (service st) pc = Some (s, pc')\<rbrakk> \<Longrightarrow>
     request_step st (set_pc i pc' st\<lparr>service := s, grants := grants st \<union> granting (key_of r) inp pc,
       joined := (joined st)(i := joining pc pc' (joined st i))\<rparr>)"

text \<open>
  The future of a request can be dropped wherever it awaits something: until it has returned, except
  between setting the decision and waking the waiters, which \<^verbatim>\<open>set_decision\<close> does without awaiting.
  Nothing is undone then.
\<close>

fun will_notify :: "nat \<Rightarrow> approval_pc \<Rightarrow> bool" where
  "will_notify pid (OwnTurn p) \<longleftrightarrow> p = pid"
| "will_notify pid (OwnResolve p t) \<longleftrightarrow> p = pid"
| "will_notify pid (AskHooks p t owner) \<longleftrightarrow> p = pid"
| "will_notify pid (AskReview p t owner) \<longleftrightarrow> p = pid"
| "will_notify pid (Act p as d) \<longleftrightarrow> p = pid \<and> NotifyWaiters \<in> set as"
| "will_notify pid pc \<longleftrightarrow> False"

fun droppable :: "approval_pc \<Rightarrow> bool" where
  "droppable (Act pid as d) \<longleftrightarrow> (case as of [] \<Rightarrow> False | a # _ \<Rightarrow> a \<noteq> NotifyWaiters)"
| "droppable (Returned d) \<longleftrightarrow> False"
| "droppable Dropped \<longleftrightarrow> False"
| "droppable pc \<longleftrightarrow> True"

definition drop_request :: "nat \<Rightarrow> approval_system \<Rightarrow> approval_system" where
  "drop_request i st =
     set_pc i Dropped st\<lparr>orphaned := orphaned st \<union> {pid. will_notify pid (snd (requests st ! i))}\<rparr>"

text \<open>
  Requests arrive, take steps and are dropped, calls begin and end, and the proxy reports blocked requests.
\<close>

inductive approval_step :: "approval_system \<Rightarrow> approval_system \<Rightarrow> bool" where
  step_request: "request_step st st' \<Longrightarrow> approval_step st st'"
| step_drop: "\<lbrakk>i < length (requests st); droppable (snd (requests st ! i))\<rbrakk> \<Longrightarrow> approval_step st (drop_request i st)"
| step_arrive: "approval_step st (st\<lparr>requests := requests st @ [(r, CheckDenied)]\<rparr>)"
| step_register: "approval_step st (st\<lparr>service := register_call rid turn command (service st)\<rparr>)"
| step_unregister: "approval_step st (st\<lparr>service := unregister_call rid (service st)\<rparr>)"
| step_take: "approval_step st (st\<lparr>service := snd (take_call_outcome rid (service st))\<rparr>)"
| step_blocked: "approval_step st (st\<lparr>service := record_blocked_request b (service st)\<rparr>)"

text \<open>A session takes over the approved hosts of another, and with them the approvals given there for the session.\<close>

definition take_over :: "approval_system \<Rightarrow> approval_system \<Rightarrow> approval_system" where
  "take_over other st = st\<lparr>service := sync_session_approved_hosts_to (service other) (service st),
     grants := grants st \<union> {g \<in> grants other. snd (snd g) = GrantSession}\<rparr>"

inductive approval_reachable :: "approval_system \<Rightarrow> bool" where
  reach_init: "approval_reachable init_system"
| reach_step: "\<lbrakk>approval_reachable st; approval_step st st'\<rbrakk> \<Longrightarrow> approval_reachable st'"
| reach_sync: "\<lbrakk>approval_reachable st; approval_reachable other\<rbrakk> \<Longrightarrow> approval_reachable (take_over other st)"

text \<open>What may be left of a request: an answer, nothing, or a wait for an owner that was dropped.\<close>

fun finished :: "nat set \<Rightarrow> approval_pc \<Rightarrow> bool" where
  "finished lost (Returned d) \<longleftrightarrow> True"
| "finished lost Dropped \<longleftrightarrow> True"
| "finished lost (Blocked pid n) \<longleftrightarrow> pid \<in> lost"
| "finished lost pc \<longleftrightarrow> False"

definition all_finished :: "approval_system \<Rightarrow> bool" where
  "all_finished st \<longleftrightarrow> list_all (\<lambda>r. finished (orphaned st) (snd r)) (requests st)"


section \<open>Invariants\<close>

lemmas service_ops = register_call_def unregister_call_def take_call_outcome_def record_blocked_request_def
  record_outcome_for_single_active_call_def record_call_outcome_def sync_session_approved_hosts_to_def

abbreviation decided :: "approval_service \<Rightarrow> nat \<Rightarrow> bool" where
  "decided s pid \<equiv> pending_decision (arcs s ! pid) \<noteq> None"

abbreviation notified :: "approval_service \<Rightarrow> nat \<Rightarrow> nat" where
  "notified s pid \<equiv> notify_count (arcs s ! pid)"

text \<open>Waiters are woken only after the decision is set, and the entry is removed once.\<close>

fun actions_ok :: "service_action list \<Rightarrow> bool \<Rightarrow> bool" where
  "actions_ok [] b \<longleftrightarrow> True"
| "actions_ok (SetDecision d # as) b \<longleftrightarrow> actions_ok as True"
| "actions_ok (NotifyWaiters # as) b \<longleftrightarrow> b \<and> actions_ok as b"
| "actions_ok (RemovePending # as) b \<longleftrightarrow> RemovePending \<notin> set as \<and> actions_ok as b"
| "actions_ok (_ # as) b \<longleftrightarrow> actions_ok as b"

fun pc_ok :: "approval_service \<Rightarrow> approval_pc \<Rightarrow> bool" where
  "pc_ok s (Listen pid) \<longleftrightarrow> pid < length (arcs s)"
| "pc_ok s (CheckDecision pid n) \<longleftrightarrow> pid < length (arcs s) \<and> n \<le> notified s pid"
| "pc_ok s (Blocked pid n) \<longleftrightarrow> pid < length (arcs s) \<and> n = 0"
| "pc_ok s (OwnTurn pid) \<longleftrightarrow> pid < length (arcs s)"
| "pc_ok s (OwnResolve pid t) \<longleftrightarrow> pid < length (arcs s)"
| "pc_ok s (AskHooks pid t owner) \<longleftrightarrow> pid < length (arcs s)"
| "pc_ok s (AskReview pid t owner) \<longleftrightarrow> pid < length (arcs s)"
| "pc_ok s (Act pid as d) \<longleftrightarrow> pid < length (arcs s) \<and> actions_ok as (decided s pid)"
| "pc_ok s pc \<longleftrightarrow> True"

fun owner_pc :: "approval_pc \<Rightarrow> nat option" where
  "owner_pc (OwnTurn pid) = Some pid"
| "owner_pc (OwnResolve pid t) = Some pid"
| "owner_pc (AskHooks pid t owner) = Some pid"
| "owner_pc (AskReview pid t owner) = Some pid"
| "owner_pc (Act pid as d) = (if RemovePending \<in> set as then Some pid else None)"
| "owner_pc pc = None"

definition arcs_ok :: "approval_service \<Rightarrow> bool" where
  "arcs_ok s \<longleftrightarrow> (\<forall>pid < length (arcs s). notified s pid \<noteq> 0 \<longrightarrow> decided s pid)"

definition hosts_ok :: "approval_service \<Rightarrow> bool" where
  "hosts_ok s \<longleftrightarrow> (\<forall>key pid. pending_hosts s key = Some pid \<longrightarrow> pid < length (arcs s))"

definition arcs_grow :: "approval_service \<Rightarrow> approval_service \<Rightarrow> bool" where
  "arcs_grow s s' \<longleftrightarrow> length (arcs s) \<le> length (arcs s') \<and>
     (\<forall>pid < length (arcs s). notified s pid \<le> notified s' pid \<and> (decided s pid \<longrightarrow> decided s' pid))"

lemma actions_ok_mono: "actions_ok as b \<Longrightarrow> (b \<Longrightarrow> c) \<Longrightarrow> actions_ok as c"
  by (induction as b arbitrary: c rule: actions_ok.induct) auto

lemma pc_ok_grow: "pc_ok s pc \<Longrightarrow> arcs_grow s s' \<Longrightarrow> pc_ok s' pc"
  by (cases pc) (auto simp: arcs_grow_def intro: actions_ok_mono elim: order.trans)

lemma actions_ok_settle [simp]: "actions_ok (settle d) b"
  by (simp add: settle_def)

lemma actions_ok_record [simp]: "actions_ok (record_for owner outcome @ as) b = actions_ok as b"
  by (simp add: record_for_def split: option.splits)

lemma settle_facts [simp]:
  "SetDecision d \<in> set (settle d)" "NotifyWaiters \<in> set (settle d)" "RemovePending \<in> set (settle d)"
  by (simp_all add: settle_def)

lemma record_facts [simp]:
  "RemovePending \<notin> set (record_for owner outcome)" "NotifyWaiters \<notin> set (record_for owner outcome)"
  by (auto simp: record_for_def split: option.splits)

lemma actions_ok_refuse [simp]: "actions_ok (refuse_actions r) b"
  by (simp add: refuse_actions_def settle_def)

lemma actions_ok_review [simp]: "actions_ok (review_actions owner guardian message d) b"
  by (simp add: review_actions_def split: option.splits)

lemma review_facts [simp]:
  "NotifyWaiters \<in> set (review_actions owner guardian message d)"
  "RemovePending \<in> set (review_actions owner guardian message d)"
  "NotifyWaiters \<in> set (refuse_actions r)" "RemovePending \<in> set (refuse_actions r)"
  by (simp_all add: review_actions_def refuse_actions_def)

lemma next_actions_facts:
  "(NotifyWaiters \<in> set (next_actions a as s)) = (NotifyWaiters \<in> set as)"
  "(RemovePending \<in> set (next_actions a as s)) = (RemovePending \<in> set as)"
  by (auto simp: next_actions_def split: service_action.splits)

lemma arcs_update_arc [simp]:
  "length (arcs (update_arc pid f s)) = length (arcs s)"
  "pending_hosts (update_arc pid f s) = pending_hosts s"
  "approved_hosts (update_arc pid f s) = approved_hosts s"
  "denied_hosts (update_arc pid f s) = denied_hosts s"
  by (simp_all add: update_arc_def)

lemma nth_update_arc:
  "p < length (arcs s) \<Longrightarrow> arcs (update_arc pid f s) ! p = (if p = pid then f (arcs s ! p) else arcs s ! p)"
  by (simp add: update_arc_def)

lemma record_call_outcome_frame [simp]:
  "arcs (record_call_outcome rid outcome s) = arcs s" "pending_hosts (record_call_outcome rid outcome s) = pending_hosts s"
  "approved_hosts (record_call_outcome rid outcome s) = approved_hosts s"
  by (simp_all add: record_call_outcome_def)

lemma perform_grow: "arcs_grow s (perform key pid a s)"
  by (cases a) (auto simp: arcs_grow_def nth_update_arc)

lemma arcs_grow_refl [simp]: "arcs_grow s s"
  by (simp add: arcs_grow_def)

lemma get_or_create_grow: "get_or_create_pending_approval key s = (r, s') \<Longrightarrow> arcs_grow s s'"
  by (auto simp: get_or_create_pending_approval_def arcs_grow_def nth_append split: option.splits)

lemma advance_grow: "advance inp r s pc = Some (s', pc') \<Longrightarrow> arcs_grow s s'"
  by (induction inp r s pc rule: advance.induct)
    (auto simp: perform_grow get_or_create_grow split: option.splits if_splits hook_decision.splits prod.splits)

lemma perform_arcs_ok:
  assumes "arcs_ok s" "actions_ok (a # as) (decided s pid)"
  shows "arcs_ok (perform key pid a s)"
  using assms by (cases a) (auto simp: arcs_ok_def nth_update_arc)

lemma get_or_create_arcs_ok: "get_or_create_pending_approval key s = (r, s') \<Longrightarrow> arcs_ok s \<Longrightarrow> arcs_ok s'"
  by (auto simp: get_or_create_pending_approval_def arcs_ok_def new_pending_def nth_append less_Suc_eq split: option.splits)

lemma advance_arcs_ok:
  "\<lbrakk>advance inp r s pc = Some (s', pc'); arcs_ok s; pc_ok s pc\<rbrakk> \<Longrightarrow> arcs_ok s'"
  by (induction inp r s pc rule: advance.induct)
    (auto simp: perform_arcs_ok get_or_create_arcs_ok
      simp del: actions_ok.simps split: option.splits if_splits hook_decision.splits prod.splits)

lemma perform_decided:
  "pid < length (arcs s) \<Longrightarrow> actions_ok (a # as) (decided s pid) \<Longrightarrow> actions_ok as (decided (perform key pid a s) pid)"
  by (cases a) (auto simp: nth_update_arc)

lemma actions_ok_next: "actions_ok as b \<Longrightarrow> actions_ok (next_actions a as s) b"
  by (auto simp: next_actions_def split: service_action.splits)

lemma perform_length [simp]: "length (arcs (perform key pid a s)) = length (arcs s)"
  by (cases a) auto

lemma get_or_create_new:
  "get_or_create_pending_approval key s = ((pid, b), s') \<Longrightarrow> hosts_ok s \<Longrightarrow> pid < length (arcs s')"
  by (auto simp: get_or_create_pending_approval_def hosts_ok_def split: option.splits)

lemma advance_pc_ok:
  "\<lbrakk>advance inp r s pc = Some (s', pc'); arcs_ok s; hosts_ok s; pc_ok s pc\<rbrakk> \<Longrightarrow> pc_ok s' pc'"
  by (induction inp r s pc rule: advance.induct)
    (auto simp: refuse_def arcs_ok_def actions_ok_next perform_decided get_or_create_new
      simp del: actions_ok.simps not_None_eq split: option.splits if_splits hook_decision.splits prod.splits)

definition owner_change :: "host_key \<Rightarrow> approval_service \<Rightarrow> approval_pc \<Rightarrow> approval_service \<Rightarrow> approval_pc \<Rightarrow> bool" where
  "owner_change key s pc s' pc' \<longleftrightarrow>
     owner_pc pc' = owner_pc pc \<and> pending_hosts s' = pending_hosts s \<or>
     owner_pc pc = None \<and> pending_hosts s key = None \<and> owner_pc pc' = Some (length (arcs s)) \<and>
       pending_hosts s' = (pending_hosts s)(key \<mapsto> length (arcs s)) \<and> length (arcs s) < length (arcs s') \<or>
     owner_pc pc \<noteq> None \<and> owner_pc pc' = None \<and> pending_hosts s' = (pending_hosts s)(key := None)"

lemma perform_owner_change:
  "actions_ok (a # as) b \<Longrightarrow>
   owner_change key s (Act pid (a # as) d) (perform key pid a s) (Act pid (next_actions a as s) d)"
  by (cases a) (auto simp: owner_change_def next_actions_facts next_actions_def)

lemma get_or_create_owner_change:
  "get_or_create_pending_approval key s = ((pid, own), s') \<Longrightarrow>
   owner_change key s GetPending s' (if own then OwnTurn pid else Listen pid)"
  by (auto simp: get_or_create_pending_approval_def owner_change_def split: option.splits)

lemma owner_change_same: "owner_pc pc' = owner_pc pc \<Longrightarrow> owner_change key s pc s pc'"
  by (simp add: owner_change_def)

lemma advance_owner:
  "\<lbrakk>advance inp r s pc = Some (s', pc'); pc_ok s pc\<rbrakk> \<Longrightarrow> owner_change (key_of r) s pc s' pc'"
  by (induction inp r s pc rule: advance.induct)
    (auto simp: perform_owner_change owner_change_same refuse_def simp del: actions_ok.simps
      dest!: get_or_create_owner_change
      split: option.splits if_splits hook_decision.splits prod.splits)


definition owners_ok :: "approval_service \<Rightarrow> (network_request \<times> approval_pc) list \<Rightarrow> bool" where
  "owners_ok s rq \<longleftrightarrow>
     (\<forall>i < length rq. \<forall>pid. owner_pc (snd (rq ! i)) = Some pid \<longrightarrow> pending_hosts s (key_of (fst (rq ! i))) = Some pid) \<and>
     (\<forall>i < length rq. \<forall>j < length rq. \<forall>pid.
        owner_pc (snd (rq ! i)) = Some pid \<longrightarrow> owner_pc (snd (rq ! j)) = Some pid \<longrightarrow> i = j)"

definition notifiers_ok :: "nat set \<Rightarrow> approval_service \<Rightarrow> (network_request \<times> approval_pc) list \<Rightarrow> bool" where
  "notifiers_ok lost s rq \<longleftrightarrow>
     (\<forall>pid < length (arcs s). notified s pid = 0 \<longrightarrow> pid \<in> lost \<or> (\<exists>i < length rq. will_notify pid (snd (rq ! i))))"

lemma owners_okD:
  assumes "owners_ok s rq" "i < length rq" "owner_pc (snd (rq ! i)) = Some pid"
  shows "pending_hosts s (key_of (fst (rq ! i))) = Some pid"
    and "\<lbrakk>j < length rq; owner_pc (snd (rq ! j)) = Some pid\<rbrakk> \<Longrightarrow> j = i"
  using assms unfolding owners_ok_def by blast+

lemma owners_ok_step:
  assumes ok: "owners_ok s rq" "hosts_ok s" and i: "i < length rq" "rq ! i = (r, pc)"
    and change: "owner_change (key_of r) s pc s' pc'"
  shows "owners_ok s' (rq[i := (r, pc')])"
proof -
  let ?rq = "rq[i := (r, pc')]"
  have key: "pending_hosts s' (key_of (fst (?rq ! j))) = Some pid"
    if j: "j < length rq" "owner_pc (snd (?rq ! j)) = Some pid" for j pid
  proof (cases "j = i")
    case True
    then show ?thesis using i j change owners_okD(1) [OF ok(1) i(1)] by (auto simp: owner_change_def) metis
  next
    case False
    then have old: "pending_hosts s (key_of (fst (rq ! j))) = Some pid"
      using j owners_okD(1) [OF ok(1) j(1)] by simp
    have "owner_pc pc \<noteq> None \<Longrightarrow> key_of (fst (rq ! j)) \<noteq> key_of r"
      using i j False old owners_okD [OF ok(1) i(1)] by fastforce
    with old change False show ?thesis by (auto simp: owner_change_def)
  qed
  have unique: "j = k"
    if j: "j < length rq" "owner_pc (snd (?rq ! j)) = Some pid"
      and k: "k < length rq" "owner_pc (snd (?rq ! k)) = Some pid" for j k pid
  proof -
    have fresh: False if "l < length rq" "l \<noteq> i" "owner_pc (snd (rq ! l)) = Some (length (arcs s))" for l
      using owners_okD(1) [OF ok(1) that(1,3)] ok(2) by (auto simp: hosts_ok_def)
    have old: "owner_pc (snd (rq ! l)) = Some pid" if "l = j \<or> l = k" "l \<noteq> i" for l
      using that j(2) k(2) by (auto simp: nth_list_update)
    have new: "owner_pc pc' = Some pid" if "i = j \<or> i = k"
      using that i(1) j(2) k(2) by auto
    show ?thesis
    proof (cases "owner_pc pc = Some pid")
      case True
      then show ?thesis
        using owners_okD(2) [OF ok(1) i(1)] i(2) old j(1) k(1) by (metis snd_conv)
    next
      case False
      then have "length (arcs s) = pid" if "i = j \<or> i = k"
        using new [OF that] change by (auto simp: owner_change_def)
      then show ?thesis
        using fresh old j(1) k(1) owners_okD(2) [OF ok(1)] by metis
    qed
  qed
  show ?thesis using key unique unfolding owners_ok_def by auto
qed

lemma advance_hosts_ok:
  assumes "advance inp r s pc = Some (s', pc')" "hosts_ok s" "pc_ok s pc"
  shows "hosts_ok s'"
proof -
  have "length (arcs s) \<le> length (arcs s')" using advance_grow [OF assms(1)] by (simp add: arcs_grow_def)
  then show ?thesis using advance_owner [OF assms(1,3)] assms(2)
    by (fastforce simp: owner_change_def hosts_ok_def split: if_splits)
qed

lemma advance_notify:
  assumes "advance inp r s pc = Some (s', pc')" "pc_ok s pc" "pid < length (arcs s')" "notified s' pid = 0"
  shows "(if pid < length (arcs s) then will_notify pid pc \<longrightarrow> will_notify pid pc' else will_notify pid pc')"
  using assms
proof (induction inp r s pc rule: advance.induct)
  case (11 inp r s pid a as d)
  then show ?case by (cases a) (auto simp: next_actions_facts next_actions_def nth_update_arc)
next
  case (3 inp r s)
  then show ?case by (auto simp: get_or_create_pending_approval_def split: option.splits if_splits)
qed (auto simp: refuse_def split: option.splits if_splits hook_decision.splits)

lemma notifiers_ok_step:
  assumes ok: "notifiers_ok lost s rq" and i: "i < length rq" "rq ! i = (r, pc)"
    and step: "advance inp r s pc = Some (s', pc')" "pc_ok s pc"
  shows "notifiers_ok lost s' (rq[i := (r, pc')])"
  unfolding notifiers_ok_def
proof (intro allI impI)
  fix pid assume p: "pid < length (arcs s')" "notified s' pid = 0"
  note n = advance_notify [OF step p]
  show "pid \<in> lost \<or> (\<exists>j < length (rq[i := (r, pc')]). will_notify pid (snd (rq[i := (r, pc')] ! j)))"
  proof (cases "pid < length (arcs s)")
    case True
    then have "notified s pid = 0" using advance_grow [OF step(1)] p by (fastforce simp: arcs_grow_def)
    then consider "pid \<in> lost" | j where "j < length rq" "will_notify pid (snd (rq ! j))"
      using ok True by (auto simp: notifiers_ok_def)
    then show ?thesis
    proof cases
      case (2 j)
      then show ?thesis using n True i by (cases "j = i") auto
    qed simp
  next
    case False
    then show ?thesis using n i by auto
  qed
qed


definition system_ok :: "approval_system \<Rightarrow> bool" where
  "system_ok st \<longleftrightarrow>
     arcs_ok (service st) \<and> hosts_ok (service st) \<and> list_all (\<lambda>(r, pc). pc_ok (service st) pc) (requests st) \<and>
     owners_ok (service st) (requests st) \<and> notifiers_ok (orphaned st) (service st) (requests st)"

lemma system_okD:
  assumes "system_ok st"
  shows "arcs_ok (service st)" "hosts_ok (service st)" "owners_ok (service st) (requests st)"
    "notifiers_ok (orphaned st) (service st) (requests st)"
    "i < length (requests st) \<Longrightarrow> requests st ! i = (r, pc) \<Longrightarrow> pc_ok (service st) pc"
  using assms by (force simp: system_ok_def list_all_length)+

lemma request_step_ok:
  assumes "request_step st st'" "system_ok st"
  shows "system_ok st'"
  using assms(1)
proof cases
  case (request_step i r pc inp s pc')
  note ok = system_okD [OF assms(2)]
  have pc: "pc_ok (service st) pc" using ok(5) request_step(2,3) by blast
  note adv = request_step(4)
  have "list_all (\<lambda>(r, pc). pc_ok s pc) ((requests st)[i := (r, pc')])"
    using assms(2) advance_pc_ok [OF adv ok(1,2) pc] pc_ok_grow [OF _ advance_grow [OF adv]] request_step(2)
    by (fastforce simp: system_ok_def list_all_length nth_list_update)
  then show ?thesis
    using request_step advance_arcs_ok [OF adv ok(1) pc] advance_hosts_ok [OF adv ok(2) pc]
      owners_ok_step [OF ok(3,2) request_step(2,3) advance_owner [OF adv pc]]
      notifiers_ok_step [OF ok(4) request_step(2,3) adv pc]
    by (simp add: system_ok_def set_pc_def)
qed

text \<open>The other steps keep the pending approvals.\<close>

lemma service_frame:
  "arcs (register_call rid turn command s) = arcs s" "pending_hosts (register_call rid turn command s) = pending_hosts s"
  "arcs (unregister_call rid s) = arcs s" "pending_hosts (unregister_call rid s) = pending_hosts s"
  "arcs (snd (take_call_outcome rid s)) = arcs s" "pending_hosts (snd (take_call_outcome rid s)) = pending_hosts s"
  "arcs (record_blocked_request b s) = arcs s" "pending_hosts (record_blocked_request b s) = pending_hosts s"
  "arcs (sync_session_approved_hosts_to o' s) = arcs s"
  "pending_hosts (sync_session_approved_hosts_to o' s) = pending_hosts s"
  by (simp_all add: service_ops split: option.splits)

lemma pc_ok_cong: "arcs s = arcs s' \<Longrightarrow> pc_ok s pc = pc_ok s' pc"
  by (cases pc) auto

lemma system_ok_frame:
  assumes "arcs (service st') = arcs (service st)" "pending_hosts (service st') = pending_hosts (service st)"
    "requests st' = requests st" "orphaned st' = orphaned st" "system_ok st"
  shows "system_ok st'"
  using assms pc_ok_cong [OF assms(1)]
  by (simp add: system_ok_def arcs_ok_def hosts_ok_def owners_ok_def notifiers_ok_def)

lemma system_ok_arrive:
  assumes "system_ok st"
  shows "system_ok (st\<lparr>requests := requests st @ [(r, CheckDenied)]\<rparr>)"
proof -
  have "owners_ok (service st) (requests st @ [(r, CheckDenied)])"
    using system_okD(3) [OF assms] unfolding owners_ok_def
    by (auto simp: nth_append less_Suc_eq split: if_splits)
  moreover have "notifiers_ok (orphaned st) (service st) (requests st @ [(r, CheckDenied)])"
    using system_okD(4) [OF assms] unfolding notifiers_ok_def
    by (metis length_append less_SucI length_Cons list.size(3) add_0_right add_Suc_right nth_append)
  ultimately show ?thesis using assms by (simp add: system_ok_def)
qed

lemma system_ok_drop:
  assumes "system_ok st" "i < length (requests st)" "droppable (snd (requests st ! i))"
  shows "system_ok (drop_request i st)"
proof -
  let ?pc = "snd (requests st ! i)" and ?rq = "(requests st)[i := (fst (requests st ! i), Dropped)]"
  note ok = system_okD [OF assms(1)]
  have "pc_ok (service st) (snd (?rq ! n))" if "n < length (requests st)" for n
    using assms(1) that by (cases "n = i") (auto simp: system_ok_def list_all_length split_beta)
  then have "list_all (\<lambda>(r, pc). pc_ok (service st) pc) ?rq" by (simp add: list_all_length split_beta)
  moreover have "owners_ok (service st) ?rq"
    using ok(3) assms(2) unfolding owners_ok_def by (auto simp: nth_list_update split: if_splits)
  moreover have "notifiers_ok (orphaned st \<union> {pid. will_notify pid ?pc}) (service st) ?rq"
    unfolding notifiers_ok_def
  proof (intro allI impI)
    fix pid assume "pid < length (arcs (service st))" "notified (service st) pid = 0"
    then consider "pid \<in> orphaned st" | j where "j < length (requests st)" "will_notify pid (snd (requests st ! j))"
      using ok(4) by (auto simp: notifiers_ok_def)
    then show "pid \<in> orphaned st \<union> {pid. will_notify pid ?pc} \<or> (\<exists>j < length ?rq. will_notify pid (snd (?rq ! j)))"
    proof cases
      case (2 j)
      then show ?thesis by (cases "j = i") auto
    qed simp
  qed
  ultimately show ?thesis using ok by (simp add: system_ok_def drop_request_def set_pc_def)
qed

lemma approval_step_ok: "approval_step st st' \<Longrightarrow> system_ok st \<Longrightarrow> system_ok st'"
proof (induction rule: approval_step.induct)
  case (step_request st st')
  then show ?case by (simp add: request_step_ok)
next
  case (step_drop i st)
  then show ?case by (simp add: system_ok_drop)
next
  case (step_arrive st r)
  then show ?case by (simp add: system_ok_arrive)
qed (erule system_ok_frame [rotated 4]; simp add: service_frame)+

lemma reachable_ok: "approval_reachable st \<Longrightarrow> system_ok st"
proof (induction rule: approval_reachable.induct)
  case reach_init
  show ?case
    by (simp add: init_system_def new_service_def system_ok_def arcs_ok_def hosts_ok_def owners_ok_def notifiers_ok_def)
next
  case (reach_step st st')
  then show ?case using approval_step_ok by blast
next
  case (reach_sync st other)
  show ?case by (rule system_ok_frame [OF _ _ _ _ reach_sync(3)]) (simp_all add: take_over_def service_frame)
qed


section \<open>Every request returns\<close>

fun action_weight :: "service_action \<Rightarrow> nat" where
  "action_weight (RecordSingle outcome) = 2"
| "action_weight a = 1"

fun active_weight :: "approval_pc \<Rightarrow> nat" where
  "active_weight CheckDenied = 20"
| "active_weight CheckApproved = 19"
| "active_weight GetPending = 18"
| "active_weight (OwnTurn pid) = 17"
| "active_weight (OwnResolve pid t) = 16"
| "active_weight (AskHooks pid t owner) = 15"
| "active_weight (AskReview pid t owner) = 14"
| "active_weight (Act pid as d) = 1 + sum_list (map action_weight as)"
| "active_weight pc = 0"

fun wait_weight :: "approval_service \<Rightarrow> approval_pc \<Rightarrow> nat" where
  "wait_weight s (Listen pid) = 3"
| "wait_weight s (CheckDecision pid n) = 2"
| "wait_weight s (Blocked pid n) = (if decided s pid then 4 else 1)"
| "wait_weight s pc = 0"

definition active_work :: "approval_system \<Rightarrow> nat" where
  "active_work st = sum_list (map (\<lambda>(r, pc). active_weight pc) (requests st))"

definition wait_work :: "approval_system \<Rightarrow> nat" where
  "wait_work st = sum_list (map (\<lambda>(r, pc). wait_weight (service st) pc) (requests st))"

definition work :: "approval_system \<Rightarrow> nat" where
  "work st = active_work st * (4 * length (requests st) + 1) + wait_work st"

lemma weight_settle [simp]: "sum_list (map action_weight (settle d)) = 3"
  by (simp add: settle_def)

lemma weight_record: "sum_list (map action_weight (record_for owner outcome)) \<le> 1"
  by (simp add: record_for_def split: option.splits)

lemma weight_record_less [simp]: "1 < k \<Longrightarrow> sum_list (map action_weight (record_for owner outcome)) < k"
  using weight_record [of owner outcome] by linarith

lemma weight_review: "sum_list (map action_weight (review_actions owner guardian message d)) \<le> 8"
  by (auto simp: review_actions_def split: option.splits intro: order.trans [OF weight_record])

lemma weight_next: "sum_list (map action_weight (next_actions a as s)) < action_weight a + sum_list (map action_weight as)"
  by (cases a) (use weight_record [of "resolve_single_active_call s"] in \<open>auto simp: next_actions_def less_Suc_eq_le intro: le_trans\<close>)

lemma advance_work:
  assumes "advance inp r s pc = Some (s', pc')" "arcs_ok s" "pc_ok s pc"
  shows "active_weight pc' < active_weight pc \<or>
    active_weight pc' = active_weight pc \<and> s' = s \<and> wait_weight s pc' < wait_weight s pc"
  using assms
proof (induction inp r s pc rule: advance.induct)
  case (10 inp r s pid t owner)
  then show ?case
    using weight_review [of owner "routes_approval_to_guardian t" "guardian_message inp" "review_answer inp"] by auto
next
  case (9 inp r s pid t owner)
  then show ?case
    by (auto split: option.splits hook_decision.splits)
next
  case (11 inp r s pid a as d)
  then show ?case using weight_next by auto
qed (auto simp: refuse_def refuse_actions_def arcs_ok_def get_or_create_pending_approval_def
      split: option.splits if_splits prod.splits)

lemma wait_weight_le: "wait_weight s pc \<le> 4"
  by (cases pc) auto

lemma sum_list_le: "(\<And>x. x \<in> set xs \<Longrightarrow> f x \<le> (k::nat)) \<Longrightarrow> sum_list (map f xs) \<le> k * length xs"
  by (induction xs) (auto intro: add_mono)

lemma wait_work_le: "wait_work st \<le> 4 * length (requests st)"
  unfolding wait_work_def by (rule sum_list_le) (auto simp: wait_weight_le)

lemma active_weight_start: "\<lbrakk>advance inp r s pc = Some (s', pc'); active_weight pc \<le> 20\<rbrakk> \<Longrightarrow> active_weight pc \<le> 20"
  by simp

lemma request_step_work:
  assumes "request_step st st'" "system_ok st"
  shows "work st' < work st \<and> length (requests st') = length (requests st)"
  using assms(1)
proof cases
  case (request_step i r pc inp s pc')
  have len: "length (requests st') = length (requests st)" using request_step by (simp add: set_pc_def)
  have le: "f (requests st ! i) \<le> sum_list (map f (requests st))" for f :: "_ \<Rightarrow> nat"
    by (rule member_le_sum_list) (use request_step(2) in simp_all)
  have upd: "sum_list (map f ((requests st)[i := (r, pc')])) = sum_list (map f (requests st)) + f (r, pc') - f (r, pc)"
    for f :: "_ \<Rightarrow> nat"
    using request_step(2,3) by (simp add: map_update sum_list_update)
  have act: "active_work st' = active_work st + active_weight pc' - active_weight pc" "active_weight pc \<le> active_work st"
    using upd [of "\<lambda>(r, pc). active_weight pc"] le [of "\<lambda>(r, pc). active_weight pc"] request_step
    by (simp_all add: active_work_def set_pc_def)
  consider "active_weight pc' < active_weight pc"
    | "active_weight pc' = active_weight pc" "s = service st" "wait_weight s pc' < wait_weight s pc"
    using advance_work [OF request_step(4)] system_okD(1,5) [OF assms(2)] request_step(2,3) by blast
  then show ?thesis
  proof cases
    case 1
    then have "active_work st' + 1 \<le> active_work st" using act by linarith
    then have "(active_work st' + 1) * (4 * length (requests st) + 1) \<le> active_work st * (4 * length (requests st) + 1)"
      by (rule mult_le_mono1)
    then show ?thesis using wait_work_le [of st'] len by (simp add: work_def)
  next
    case 2
    then have "wait_work st' < wait_work st"
      using upd [of "\<lambda>(r, pc). wait_weight s pc"] le [of "\<lambda>(r, pc). wait_weight s pc"] request_step
      by (simp add: wait_work_def set_pc_def)
    then show ?thesis using act 2 len by (simp add: work_def)
  qed
qed

lemma request_step_progress:
  assumes "system_ok st" "\<not> all_finished st"
  shows "\<exists>st'. request_step st st'"
proof -
  note ok = system_okD [OF assms(1)]
  obtain inp :: approval_input where True by simp
  have step: "\<exists>st'. request_step st st'" if "i < length (requests st)" "advance inp r (service st) pc \<noteq> None"
    "requests st ! i = (r, pc)" for i r pc
    using that request_step.request_step [OF that(1,3)] by (auto simp: not_None_eq)
  obtain i where i: "i < length (requests st)" "\<not> finished (orphaned st) (snd (requests st ! i))"
    using assms(2) by (auto simp: all_finished_def list_all_length)
  obtain r pc where rpc: "requests st ! i = (r, pc)" by fastforce
  show ?thesis
  proof (cases "advance inp r (service st) pc")
    case (Some a)
    then show ?thesis using step [OF i(1) _ rpc] by simp
  next
    case None
    then obtain pid n where pc: "pc = Blocked pid n" "\<not> n < notified (service st) pid" "pid \<notin> orphaned st"
      using i(2) rpc ok(5) [OF i(1) rpc]
      by (cases "(inp, r, service st, pc)" rule: advance.cases)
        (auto split: option.splits if_splits hook_decision.splits prod.splits)
    then have "pid < length (arcs (service st))" "notified (service st) pid = 0" using ok(5) [OF i(1) rpc] by auto
    then obtain j where j: "j < length (requests st)" "will_notify pid (snd (requests st ! j))"
      using ok(4) pc(3) by (auto simp: notifiers_ok_def)
    obtain r' pc' where rpc': "requests st ! j = (r', pc')" by fastforce
    have "advance inp r' (service st) pc' \<noteq> None"
      using j(2) rpc' by (cases "(inp, r', service st, pc')" rule: advance.cases)
        (auto split: option.splits if_splits hook_decision.splits)
    then show ?thesis using step [OF j(1) _ rpc'] by blast
  qed
qed

lemma request_steps_ok:
  "(request_step ^^ n) st st' \<Longrightarrow> system_ok st \<Longrightarrow>
   system_ok st' \<and> n + work st' \<le> work st \<and> length (requests st') = length (requests st)"
proof (induction n arbitrary: st')
  case (Suc n)
  then obtain st1 where st1: "(request_step ^^ n) st st1" "request_step st1 st'" by auto
  then show ?case using Suc request_step_ok [OF st1(2)] request_step_work [OF st1(2)] by fastforce
qed auto

lemma active_weight_le:
  "advance inp r s pc = Some (s', pc') \<Longrightarrow> active_weight pc \<le> 20 \<Longrightarrow> arcs_ok s \<Longrightarrow> pc_ok s pc \<Longrightarrow> active_weight pc' \<le> 20"
  using advance_work by fastforce

lemma reachable_weight: "approval_reachable st \<Longrightarrow> list_all (\<lambda>(r, pc). active_weight pc \<le> 20) (requests st)"
proof (induction rule: approval_reachable.induct)
  case (reach_step st st')
  from reach_step(2) show ?case
  proof cases
    case step_request
    then show ?thesis
    proof cases
      case (request_step i r pc inp s pc')
      have "active_weight pc' \<le> 20"
        using active_weight_le [OF request_step(4)] reach_step(3) request_step(2,3)
          system_okD(1,5) [OF reachable_ok [OF reach_step(1)]]
        by (fastforce simp: list_all_length)
      then show ?thesis using request_step reach_step(3)
        by (auto simp: list_all_length set_pc_def nth_list_update)
    qed
  next
    case (step_drop i)
    then show ?thesis using reach_step(3)
      by (auto simp: list_all_length drop_request_def set_pc_def nth_list_update)
  qed (use reach_step(3) in auto)
qed (simp_all add: init_system_def take_over_def)

lemma request_steps_orphaned: "(request_step ^^ n) st st' \<Longrightarrow> orphaned st' = orphaned st"
proof (induction n arbitrary: st')
  case (Suc n)
  then obtain st1 where st1: "(request_step ^^ n) st st1" "request_step st1 st'" by auto
  from st1(2) have "orphaned st' = orphaned st1" by cases (simp add: set_pc_def)
  with Suc.IH [OF st1(1)] show ?case by simp
qed simp

text \<open>
  C9: handling network requests ends, and gets stuck only behind a dropped owner.  From any state that
  interleaved requests, dropped requests, calls and blocked requests can lead to, the requests at hand take
  at most quadratically many steps, and as long as some request can still make progress one of them takes a
  step: in the end each has returned or was dropped, or it waits for a decision whose owner was dropped
  before it woke the waiters.  Without such a drop every request that is not dropped itself returns; in
  particular no waiter misses the wake-up of the request that decides for it.
\<close>

theorem network_requests_return:
  assumes "approval_reachable st" "(request_step ^^ n) st st'"
  shows "n \<le> 104 * (length (requests st))\<^sup>2 \<and>
    ((\<exists>st''. request_step st' st'') \<or>
     (\<forall>i < length (requests st'). case snd (requests st' ! i) of
        Returned _ \<Rightarrow> True | Dropped \<Rightarrow> True | Blocked pid _ \<Rightarrow> pid \<in> orphaned st | _ \<Rightarrow> False))"
proof -
  let ?l = "length (requests st)"
  note steps = request_steps_ok [OF assms(2) reachable_ok [OF assms(1)]]
  have "active_work st \<le> 20 * ?l"
    unfolding active_work_def by (rule sum_list_le) (use reachable_weight [OF assms(1)] in \<open>auto simp: list_all_iff\<close>)
  then have "work st \<le> 20 * ?l * (4 * ?l + 1) + 4 * ?l"
    unfolding work_def by (intro add_mono mult_right_mono wait_work_le) simp_all
  also have "\<dots> \<le> 104 * ?l\<^sup>2"
    by (cases ?l) (simp_all add: power2_eq_square algebra_simps)
  finally have "n \<le> 104 * ?l\<^sup>2" using steps by simp
  moreover have "case pc of Returned _ \<Rightarrow> True | Dropped \<Rightarrow> True | Blocked pid _ \<Rightarrow> pid \<in> orphaned st | _ \<Rightarrow> False"
    if "finished (orphaned st') pc" for pc
    using that request_steps_orphaned [OF assms(2)] by (cases pc) simp_all
  then have "\<forall>i < length (requests st'). case snd (requests st' ! i) of
        Returned _ \<Rightarrow> True | Dropped \<Rightarrow> True | Blocked pid _ \<Rightarrow> pid \<in> orphaned st | _ \<Rightarrow> False"
    if "all_finished st'"
    using that by (simp add: all_finished_def list_all_length)
  ultimately show ?thesis using steps request_step_progress [of st'] by auto
qed


text \<open>A request is at a question when its next step awaits a hook or a reviewer.\<close>

fun asking :: "approval_pc \<Rightarrow> bool" where
  "asking (AskHooks pid t owner) \<longleftrightarrow> True"
| "asking (AskReview pid t owner) \<longleftrightarrow> True"
| "asking pc \<longleftrightarrow> False"


section \<open>Only approved accesses are allowed\<close>

definition turn_may_ask :: "turn_info \<Rightarrow> bool" where
  "turn_may_ask t \<longleftrightarrow>
     permission_profile_allows_network_approval_flow (turn_profile t) \<and> allows_network_approval_flow (turn_policy t)"

text \<open>
  A host approved for the session, and a host approved by the answer to the question that a pending approval
  stands for: for the session, or once for the requests that share it.
\<close>

definition session_granted_host :: "approval_system \<Rightarrow> host_key \<Rightarrow> bool" where
  "session_granted_host st key \<longleftrightarrow> (\<exists>t. (key, t, GrantSession) \<in> grants st \<and> turn_may_ask t)"

definition pending_granted :: "approval_system \<Rightarrow> host_key \<Rightarrow> nat \<Rightarrow> bool" where
  "pending_granted st key pid \<longleftrightarrow>
     session_granted_host st key \<or> (\<exists>t. (key, t, GrantOnce pid) \<in> grants st \<and> turn_may_ask t)"

text \<open>
  The host a pending approval was created for is known to no state; the invariant supplies it.  The last
  argument is the pending approval the request has joined.
\<close>

fun pc_granted ::
  "(host_key \<Rightarrow> bool) \<Rightarrow> (host_key \<Rightarrow> nat \<Rightarrow> bool) \<Rightarrow> (nat \<Rightarrow> host_key) \<Rightarrow> host_key \<Rightarrow> approval_pc \<Rightarrow> nat option \<Rightarrow> bool" where
  "pc_granted G P kk key (Listen pid) j \<longleftrightarrow> j = Some pid \<and> kk pid = key"
| "pc_granted G P kk key (CheckDecision pid n) j \<longleftrightarrow> j = Some pid \<and> kk pid = key"
| "pc_granted G P kk key (Blocked pid n) j \<longleftrightarrow> j = Some pid \<and> kk pid = key"
| "pc_granted G P kk key (OwnTurn pid) j \<longleftrightarrow> j = Some pid \<and> kk pid = key"
| "pc_granted G P kk key (OwnResolve pid t) j \<longleftrightarrow> j = Some pid \<and> kk pid = key \<and> turn_may_ask t"
| "pc_granted G P kk key (AskHooks pid t owner) j \<longleftrightarrow> j = Some pid \<and> kk pid = key \<and> turn_may_ask t"
| "pc_granted G P kk key (AskReview pid t owner) j \<longleftrightarrow> j = Some pid \<and> kk pid = key \<and> turn_may_ask t"
| "pc_granted G P kk key (Act pid as d) j \<longleftrightarrow> j = Some pid \<and> kk pid = key \<and> (AddApproved \<in> set as \<longrightarrow> G key) \<and>
     (d = NetworkAllow \<or> (\<exists>x \<in> set as. \<exists>d. x = SetDecision d \<and> d \<noteq> PendingDeny) \<longrightarrow> P key pid)"
| "pc_granted G P kk key (Returned d) j \<longleftrightarrow> (d = NetworkAllow \<longrightarrow> G key \<or> (\<exists>pid. j = Some pid \<and> P key pid))"
| "pc_granted G P kk key pc j \<longleftrightarrow> True"

definition service_granted ::
  "(host_key \<Rightarrow> bool) \<Rightarrow> (host_key \<Rightarrow> nat \<Rightarrow> bool) \<Rightarrow> (nat \<Rightarrow> host_key) \<Rightarrow> approval_service \<Rightarrow> bool" where
  "service_granted G P kk s \<longleftrightarrow>
     (\<forall>key \<in> approved_hosts s. G key) \<and>
     (\<forall>key pid. pending_hosts s key = Some pid \<longrightarrow> kk pid = key) \<and>
     (\<forall>pid < length (arcs s). \<forall>d. pending_decision (arcs s ! pid) = Some d \<longrightarrow> d \<noteq> PendingDeny \<longrightarrow> P (kk pid) pid)"

lemma network_deny_simps [simp]: "network_deny reason \<noteq> NetworkAllow"
  by (simp add: network_deny_def deny_with_source_def)

lemma to_network_decision_allow [simp]: "to_network_decision d = NetworkAllow \<longleftrightarrow> d \<noteq> PendingDeny"
  by (cases d) simp_all

lemma pc_granted_mono:
  "pc_granted G P kk key pc j \<Longrightarrow> (\<And>k. G k \<Longrightarrow> G' k) \<Longrightarrow> (\<And>k pid. P k pid \<Longrightarrow> P' k pid) \<Longrightarrow> pc_granted G' P' kk key pc j"
  by (cases pc) auto

lemma service_granted_mono:
  "service_granted G P kk s \<Longrightarrow> (\<And>k. G k \<Longrightarrow> G' k) \<Longrightarrow> (\<And>k pid. P k pid \<Longrightarrow> P' k pid) \<Longrightarrow> service_granted G' P' kk s"
  by (auto simp: service_granted_def)

lemma record_set: "set (record_for owner outcome) \<subseteq> range (\<lambda>(r, x). RecordCall r x)"
  by (auto simp: record_for_def split: option.splits)

lemma record_not [simp]:
  "AddApproved \<notin> set (record_for owner outcome)" "SetDecision d \<notin> set (record_for owner outcome)"
  using record_set [of owner outcome] by auto

lemma perform_granted:
  assumes "service_granted G P kk s" "pc_granted G P kk key (Act pid (a # as) d) j"
  shows "service_granted G P kk (perform key pid a s) \<and> pc_granted G P kk key (Act pid (next_actions a as s) d) j"
  using assms
  by (cases a) (auto simp: service_granted_def next_actions_def nth_update_arc record_call_outcome_def split: if_splits)

lemma review_actions_granted:
  "(AddApproved \<in> set (review_actions owner guardian message d) \<longrightarrow> resolve_review d = AllowForSession) \<and>
   (SetDecision x \<in> set (review_actions owner guardian message d) \<longrightarrow> x = resolve_review d)"
  by (auto simp: review_actions_def settle_def split: option.splits if_splits)

lemma advance_granted:
  assumes "advance inp r s pc = Some (s', pc')" "pc \<noteq> GetPending"
    and "service_granted G P kk s" "pc_granted G P kk (key_of r) pc j" "pc_ok s pc"
    and "\<And>t. \<lbrakk>grant_of inp pc = Some (t, GrantSession); turn_may_ask t\<rbrakk> \<Longrightarrow> G (key_of r)"
    and "\<And>t pid. \<lbrakk>grant_of inp pc = Some (t, GrantOnce pid); turn_may_ask t\<rbrakk> \<Longrightarrow> P (key_of r) pid"
    and "\<And>k pid. G k \<Longrightarrow> P k pid"
  shows "service_granted G P kk s' \<and> pc_granted G P kk (key_of r) pc' j"
  using assms
proof (induction inp r s pc rule: advance.induct)
  case (11 inp r s pid a as d)
  then show ?case using perform_granted [of G P kk s "key_of r" pid a as d j] by auto
next
  case (10 inp r s pid t owner)
  then show ?case
    using review_actions_granted [of owner "routes_approval_to_guardian t" "guardian_message inp" "review_answer inp"]
    by (cases "resolve_review (review_answer inp)") auto
qed (auto simp: service_granted_def refuse_def refuse_actions_def settle_def turn_may_ask_def
      split: option.splits if_splits hook_decision.splits)

lemma pc_granted_other:
  "pc_granted G P kk key pc j \<Longrightarrow> pc_ok s pc \<Longrightarrow> pc_granted G P (kk(length (arcs s) := k)) key pc j"
  by (cases pc) auto

lemma get_or_create_granted:
  assumes "get_or_create_pending_approval key s = ((pid, own), s')" "service_granted G P kk s" "hosts_ok s"
  obtains kk' where "service_granted G P kk' s'" "kk' pid = key" "kk' = kk \<or> kk' = kk(length (arcs s) := key)"
proof (cases "pending_hosts s key")
  case None
  have "pending_hosts s k \<noteq> Some (length (arcs s))" for k
    using assms(3) by (auto simp: hosts_ok_def)
  with None have "service_granted G P (kk(length (arcs s) := key)) s'" "pid = length (arcs s)"
    using assms by (auto simp: get_or_create_pending_approval_def service_granted_def hosts_ok_def new_pending_def
        nth_append less_Suc_eq split: if_splits)
  then show thesis using that by auto
next
  case (Some p)
  then show thesis
    using assms that [of kk] by (auto simp: get_or_create_pending_approval_def service_granted_def)
qed

definition system_granted :: "(nat \<Rightarrow> host_key) \<Rightarrow> approval_system \<Rightarrow> bool" where
  "system_granted kk st \<longleftrightarrow> service_granted (session_granted_host st) (pending_granted st) kk (service st) \<and>
     (\<forall>i < length (requests st). pc_granted (session_granted_host st) (pending_granted st) kk
        (key_of (fst (requests st ! i))) (snd (requests st ! i)) (joined st i))"

lemma granted_mono:
  assumes "grants st \<subseteq> grants st'"
  shows "session_granted_host st k \<Longrightarrow> session_granted_host st' k" "pending_granted st k pid \<Longrightarrow> pending_granted st' k pid"
  using assms by (auto simp: session_granted_host_def pending_granted_def)

lemma request_step_granted:
  assumes "request_step st st'" "system_ok st" "system_granted kk st"
  shows "\<exists>kk'. system_granted kk' st'"
  using assms(1)
proof cases
  case (request_step i r pc inp s pc')
  let ?G = "session_granted_host st'" and ?P = "pending_granted st'"
  note ok = system_okD [OF assms(2)]
  have "grants st \<subseteq> grants st'" using request_step(1) by (auto simp: set_pc_def)
  note mono = granted_mono [OF this]
  have pc: "pc_ok (service st) pc" using ok(5) request_step(2,3) by fastforce
  have old: "service_granted ?G ?P kk (service st)"
    "\<And>j. j < length (requests st) \<Longrightarrow>
      pc_granted ?G ?P kk (key_of (fst (requests st ! j))) (snd (requests st ! j)) (joined st j)"
    using assms(3) mono by (auto simp: system_granted_def intro: service_granted_mono pc_granted_mono)
  have "\<exists>kk'. service_granted ?G ?P kk' s \<and> pc_granted ?G ?P kk' (key_of r) pc' (joining pc pc' (joined st i)) \<and>
      (kk' = kk \<or> (\<exists>k. kk' = kk(length (arcs (service st)) := k)))"
  proof (cases "pc = GetPending")
    case True
    then obtain pid own where get: "get_or_create_pending_approval (key_of r) (service st) = ((pid, own), s)"
        "pc' = (if own then OwnTurn pid else Listen pid)"
      using request_step(4) by (auto split: prod.splits)
    from get_or_create_granted [OF get(1) old(1) ok(2)] show ?thesis using get(2) True by (auto split: if_splits)
  next
    case False
    then have j: "joining pc pc' (joined st i) = joined st i" by (cases pc) simp_all
    have "service_granted ?G ?P kk s \<and> pc_granted ?G ?P kk (key_of r) pc' (joined st i)"
    proof (rule advance_granted [OF request_step(4) False old(1) _ pc])
      show "pc_granted ?G ?P kk (key_of r) pc (joined st i)" using old(2) [OF request_step(2)] request_step(3) by simp
      show "?G (key_of r)" if "grant_of inp pc = Some (t, GrantSession)" "turn_may_ask t" for t
        using that request_step(1) by (auto simp: session_granted_host_def set_pc_def granting_def)
      show "?P (key_of r) pid" if "grant_of inp pc = Some (t, GrantOnce pid)" "turn_may_ask t" for t pid
        using that request_step(1) by (auto simp: pending_granted_def set_pc_def granting_def)
    qed (simp add: pending_granted_def)
    then show ?thesis unfolding j by blast
  qed
  then obtain kk' where kk': "service_granted ?G ?P kk' s"
    "pc_granted ?G ?P kk' (key_of r) pc' (joining pc pc' (joined st i))"
    "kk' = kk \<or> (\<exists>k. kk' = kk(length (arcs (service st)) := k))" by blast
  have other: "pc_granted ?G ?P kk' (key_of (fst (requests st ! j))) (snd (requests st ! j)) (joined st j)"
    if "j < length (requests st)" for j
    using kk'(3) old(2) [OF that] pc_granted_other ok(5) that by (metis prod.collapse)
  have st': "service st' = s" "requests st' = (requests st)[i := (r, pc')]"
      "joined st' = (joined st)(i := joining pc pc' (joined st i))"
    using request_step(1,3) by (simp_all add: set_pc_def)
  have "pc_granted ?G ?P kk' (key_of (fst (requests st' ! j))) (snd (requests st' ! j)) (joined st' j)"
    if "j < length (requests st')" for j
    using that other [of j] kk'(2) by (cases "j = i") (simp_all add: st')
  with kk'(1) have "system_granted kk' st'" by (simp add: system_granted_def st'(1))
  then show ?thesis by blast
qed

lemma approved_frame [simp]:
  "approved_hosts (register_call rid turn command s) = approved_hosts s"
  "approved_hosts (unregister_call rid s) = approved_hosts s"
  "approved_hosts (snd (take_call_outcome rid s)) = approved_hosts s"
  "approved_hosts (record_blocked_request b s) = approved_hosts s"
  by (simp_all add: service_ops split: option.splits)

lemma granted_cong:
  "grants st' = grants st \<Longrightarrow> session_granted_host st' = session_granted_host st"
  "grants st' = grants st \<Longrightarrow> pending_granted st' = pending_granted st"
  by (auto simp: session_granted_host_def pending_granted_def fun_eq_iff)

lemma system_granted_frame:
  assumes "system_granted kk st" "arcs (service st') = arcs (service st)" "pending_hosts (service st') = pending_hosts (service st)"
    "approved_hosts (service st') = approved_hosts (service st)"
    "requests st' = requests st" "grants st' = grants st" "joined st' = joined st"
  shows "system_granted kk st'"
  using assms(1) by (simp add: system_granted_def service_granted_def granted_cong [OF assms(6)] assms(2-7))

lemma approval_step_granted:
  "approval_step st st' \<Longrightarrow> system_ok st \<Longrightarrow> system_granted kk st \<Longrightarrow> \<exists>kk'. system_granted kk' st'"
proof (induction rule: approval_step.induct)
  case (step_request st st')
  then show ?case using request_step_granted by blast
next
  case (step_drop i st)
  have g: "grants (drop_request i st) = grants st" by (simp add: drop_request_def set_pc_def)
  have "pc_granted (session_granted_host st) (pending_granted st) kk
      (key_of (fst (requests (drop_request i st) ! j))) (snd (requests (drop_request i st) ! j)) (joined (drop_request i st) j)"
    if "j < length (requests st)" for j
    using step_drop(1,4) that by (cases "j = i") (auto simp: system_granted_def drop_request_def set_pc_def)
  then show ?case using step_drop(4)
    by (intro exI [of _ kk]) (simp add: system_granted_def granted_cong [OF g], simp add: drop_request_def set_pc_def)
next
  case (step_arrive st r)
  let ?st = "st\<lparr>requests := requests st @ [(r, CheckDenied)]\<rparr>"
  have g: "grants ?st = grants st" by simp
  show ?case using step_arrive
    by (intro exI [of _ kk]) (auto simp: system_granted_def granted_cong [OF g] nth_append less_Suc_eq)
qed (intro exI [of _ kk]; erule system_granted_frame; simp add: service_frame)+

lemma reachable_granted: "approval_reachable st \<Longrightarrow> \<exists>kk. system_granted kk st"
proof (induction rule: approval_reachable.induct)
  case reach_init
  show ?case by (simp add: init_system_def new_service_def system_granted_def service_granted_def)
next
  case (reach_step st st')
  then show ?case using approval_step_granted reachable_ok by blast
next
  case (reach_sync st other)
  let ?st = "take_over other st"
  obtain kk kk' where kk: "system_granted kk st" "system_granted kk' other" using reach_sync(3,4) by blast
  have "grants st \<subseteq> grants ?st" by (simp add: take_over_def)
  note mono = granted_mono [OF this]
  have "session_granted_host ?st k" if "session_granted_host other k" for k
    using that by (fastforce simp: session_granted_host_def take_over_def)
  then have "service_granted (session_granted_host ?st) (pending_granted ?st) kk (service ?st)"
    using kk mono by (auto simp: system_granted_def service_granted_def take_over_def sync_session_approved_hosts_to_def)
  moreover have "pc_granted (session_granted_host ?st) (pending_granted ?st) kk
      (key_of (fst (requests st ! i))) (snd (requests st ! i)) (joined st i)" if "i < length (requests st)" for i
    using kk(1) that mono by (auto simp: system_granted_def intro: pc_granted_mono)
  ultimately have "system_granted kk ?st" by (simp add: system_granted_def) (simp add: take_over_def)
  then show ?case by blast
qed

text \<open>
  C7: a network access is let through only when it was approved by a hook or a reviewer, in a turn with
  managed permissions whose approval policy is not \<^verbatim>\<open>never\<close>: either that host, protocol and port was
  approved for the session, this one or one whose approvals this one took over, or it was approved once by
  the answer to the question that this very request asked or waited for.
\<close>

theorem network_access_was_approved:
  assumes "approval_reachable st" "i < length (requests st)" "requests st ! i = (r, Returned NetworkAllow)"
  shows "\<exists>t g. (key_of r, t, g) \<in> grants st \<and> turn_policy t \<noteq> Never \<and>
    (\<exists>permissions network. turn_profile t = Managed permissions network) \<and>
    (g = GrantSession \<or> (\<exists>pid. g = GrantOnce pid \<and> joined st i = Some pid))"
proof -
  obtain kk where "system_granted kk st" using reachable_granted [OF assms(1)] by blast
  then have "pc_granted (session_granted_host st) (pending_granted st) kk
      (key_of (fst (requests st ! i))) (snd (requests st ! i)) (joined st i)"
    using assms(2) by (simp add: system_granted_def)
  then have "session_granted_host st (key_of r) \<or> (\<exists>pid. joined st i = Some pid \<and> pending_granted st (key_of r) pid)"
    by (simp add: assms(3))
  moreover have "turn_may_ask t \<longleftrightarrow> turn_policy t \<noteq> Never \<and> (\<exists>permissions network. turn_profile t = Managed permissions network)" for t
    by (cases "turn_profile t")
      (auto simp: turn_may_ask_def permission_profile_allows_network_approval_flow_def allows_network_approval_flow_def)
  ultimately show ?thesis by (auto simp: session_granted_host_def pending_granted_def)
qed

section \<open>Sample runs\<close>

text \<open>Request \<^verbatim>\<open>i\<close> takes \<^verbatim>\<open>n\<close> steps with the same answers.\<close>

definition moved :: "approval_input \<Rightarrow> nat \<Rightarrow> network_request \<times> approval_pc \<Rightarrow> approval_service \<times> approval_pc \<Rightarrow>
   approval_system \<Rightarrow> approval_system" where
  "moved inp i rpc spc st = set_pc i (snd spc) st\<lparr>service := fst spc,
     grants := grants st \<union> granting (key_of (fst rpc)) inp (snd rpc),
     joined := (joined st)(i := joining (snd rpc) (snd spc) (joined st i))\<rparr>"

fun run_request :: "approval_input \<Rightarrow> nat \<Rightarrow> nat \<Rightarrow> approval_system \<Rightarrow> approval_system option" where
  "run_request inp i 0 st = Some st"
| "run_request inp i (Suc n) st =
     (if i < length (requests st) then
        (case advance inp (fst (requests st ! i)) (service st) (snd (requests st ! i)) of
           None \<Rightarrow> None
         | Some spc \<Rightarrow> run_request inp i n (moved inp i (requests st ! i) spc st))
      else None)"

lemma run_request_steps: "run_request inp i n st = Some st' \<Longrightarrow> (request_step ^^ n) st st'"
proof (induction n arbitrary: st)
  case (Suc n)
  then obtain spc where step: "i < length (requests st)"
      "advance inp (fst (requests st ! i)) (service st) (snd (requests st ! i)) = Some spc"
      "run_request inp i n (moved inp i (requests st ! i) spc st) = Some st'"
    by (auto split: if_splits option.splits)
  have "request_step st (moved inp i (requests st ! i) spc st)"
    unfolding moved_def by (rule request_step.request_step) (use step in auto)
  then show ?case using Suc.IH [OF step(3)] by (blast intro: relpowp_Suc_I2)
qed simp

lemma reachable_steps: "(request_step ^^ n) st st' \<Longrightarrow> approval_reachable st \<Longrightarrow> approval_reachable st'"
  by (induction n arbitrary: st') (auto intro: reach_step step_request)

definition sample_request :: network_request where
  "sample_request = \<lparr>request_protocol = ProxyHttpsConnect, request_host = lit ''Example.org'', request_port = 443\<rparr>"

definition sample_turn :: turn_info where
  "sample_turn = \<lparr>turn_profile = profile_read_only, turn_policy = OnRequest, turn_auto_review = False\<rparr>"

definition sample_input :: approval_input where
  "sample_input = \<lparr>turn_now = Some sample_turn, hook_answer = None,
     review_answer = ApprovedForSession, guardian_message = []\<rparr>"

definition sample_system :: "approval_pc list \<Rightarrow> approval_system" where
  "sample_system pcs = init_system\<lparr>requests := map (Pair sample_request) pcs\<rparr>"

lemma sample_reachable: "approval_reachable (sample_system (replicate n CheckDenied))"
proof (induction n)
  case (Suc n)
  have "sample_system (replicate (Suc n) CheckDenied) =
    (sample_system (replicate n CheckDenied))\<lparr>requests := requests (sample_system (replicate n CheckDenied)) @ [(sample_request, CheckDenied)]\<rparr>"
    by (simp add: sample_system_def init_system_def replicate_append_same [symmetric])
  then show ?case using reach_step [OF Suc step_arrive] by metis
qed (simp add: sample_system_def init_system_def reach_init [unfolded init_system_def])

lemmas run_eval = moved_def sample_system_def init_system_def new_service_def sample_input_def sample_turn_def set_pc_def
  get_or_create_pending_approval_def new_pending_def allows_network_approval_flow_def
  permission_profile_allows_network_approval_flow_def profile_read_only_def numeral_eq_Suc
  resolve_single_active_call_def review_actions_def settle_def next_actions_def update_arc_def caches_session_deny_def
  granting_def

text \<open>Two requests for one host: the first asks and is approved for the session, the second waits for it.\<close>

definition sample_pending :: "pending_decision option \<Rightarrow> approval_service" where
  "sample_pending d = new_service\<lparr>
     pending_hosts := [key_of sample_request \<mapsto> 0],
     arcs := [\<lparr>pending_decision = d, notify_count = 0\<rparr>]\<rparr>"

definition sample_waiting :: approval_system where
  "sample_waiting = (sample_system [AskReview 0 sample_turn None, Blocked 0 0])\<lparr>service := sample_pending None,
     joined := [0 \<mapsto> 0, 1 \<mapsto> 0]\<rparr>"

definition sample_answered :: approval_system where
  "sample_answered = (sample_system [Returned NetworkAllow, Returned NetworkAllow])\<lparr>
     service := new_service\<lparr>approved_hosts := {key_of sample_request},
       arcs := [\<lparr>pending_decision = Some AllowForSession, notify_count = 1\<rparr>]\<rparr>,
     grants := {(key_of sample_request, sample_turn, GrantSession)}, joined := [0 \<mapsto> 0, 1 \<mapsto> 0]\<rparr>"

lemma run_asks:
  "Option.bind (run_request sample_input 0 6 (sample_system [CheckDenied, CheckDenied])) (run_request sample_input 1 5) =
   Some sample_waiting"
  by (simp add: sample_waiting_def sample_pending_def run_eval)

lemma run_answers:
  "Option.bind (run_request sample_input 0 7 sample_waiting) (run_request sample_input 1 3) = Some sample_answered"
  by (simp add: sample_answered_def sample_waiting_def sample_pending_def run_eval)

lemma bind_steps:
  assumes "Option.bind (run_request inp i m st) (run_request inp' j n) = Some st'"
  shows "(request_step ^^ (m + n)) st st'"
proof -
  obtain st1 where "run_request inp i m st = Some st1" "run_request inp' j n st1 = Some st'"
    using assms by (auto simp: bind_eq_Some_conv)
  then show ?thesis using run_request_steps relpowp_trans by metis
qed

lemma sample_waiting_reachable: "approval_reachable sample_waiting"
  using reachable_steps [OF bind_steps [OF run_asks]] sample_reachable [of 2] by (simp add: numeral_2_eq_2)

lemma sample_answered_reachable: "approval_reachable sample_answered"
  using reachable_steps [OF bind_steps [OF run_answers]] sample_waiting_reachable by simp

theorem network_requests_return_witness:
  "(request_step ^^ (7 + 3)) sample_waiting sample_answered \<and> 7 + 3 \<le> 104 * (length (requests sample_waiting))\<^sup>2 \<and>
   ((\<exists>st''. request_step sample_answered st'') \<or>
    (\<forall>i < length (requests sample_answered). case snd (requests sample_answered ! i) of
       Returned _ \<Rightarrow> True | Dropped \<Rightarrow> True | Blocked pid _ \<Rightarrow> pid \<in> orphaned sample_waiting | _ \<Rightarrow> False))"
  using network_requests_return [OF sample_waiting_reachable bind_steps [OF run_answers]] bind_steps [OF run_answers] by simp


theorem network_access_was_approved_witness:
  "requests sample_answered ! 1 = (sample_request, Returned NetworkAllow) \<and>
   (\<exists>t g. (key_of sample_request, t, g) \<in> grants sample_answered \<and> turn_policy t \<noteq> Never \<and>
     (\<exists>permissions network. turn_profile t = Managed permissions network) \<and>
     (g = GrantSession \<or> (\<exists>pid. g = GrantOnce pid \<and> joined sample_answered 1 = Some pid)))"
proof -
  have a: "1 < length (requests sample_answered)" "requests sample_answered ! 1 = (sample_request, Returned NetworkAllow)"
    by (simp_all add: sample_answered_def sample_system_def)
  show ?thesis using network_access_was_approved [OF sample_answered_reachable a] a by simp
qed


section \<open>Dropped owners\<close>

text \<open>
  Nothing takes back a pending approval when the future that owns it is dropped.  Dropped while it waits for
  the answer, it leaves every request that waits for the decision waiting for ever.
\<close>

fun works_on :: "approval_pc \<Rightarrow> nat option" where
  "works_on (OwnTurn pid) = Some pid"
| "works_on (OwnResolve pid t) = Some pid"
| "works_on (AskHooks pid t owner) = Some pid"
| "works_on (AskReview pid t owner) = Some pid"
| "works_on (Act pid as d) = Some pid"
| "works_on pc = None"

definition abandoned :: "approval_system \<Rightarrow> bool" where
  "abandoned st \<longleftrightarrow> arcs (service st) \<noteq> [] \<and> arcs (service st) ! 0 = new_pending \<and>
     1 < length (requests st) \<and> snd (requests st ! 1) = Blocked 0 0 \<and>
     (\<forall>i < length (requests st). works_on (snd (requests st ! i)) \<noteq> Some 0)"

lemma advance_abandoned:
  assumes "advance inp r s pc = Some (s', pc')" "arcs s \<noteq> []" "arcs s ! 0 = new_pending" "works_on pc \<noteq> Some 0"
  shows "arcs s' \<noteq> [] \<and> arcs s' ! 0 = new_pending \<and> works_on pc' \<noteq> Some 0"
  using assms
proof (induction inp r s pc rule: advance.induct)
  case (11 inp r s pid a as d)
  then show ?case by (cases a) (auto simp: update_arc_def split: if_splits)
qed (auto simp: get_or_create_pending_approval_def refuse_def nth_append
      split: option.splits if_splits hook_decision.splits)

text \<open>The waiter leaves its wait only when it is dropped too.\<close>

lemma abandoned_step:
  "approval_step st st' \<Longrightarrow> abandoned st \<Longrightarrow> abandoned st' \<or> snd (requests st' ! 1) = Dropped"
proof (induction rule: approval_step.induct)
  case (step_request st st')
  from step_request(1) show ?case
  proof cases
    case (request_step i r pc inp s pc')
    have "i \<noteq> 1"
      using request_step(2-4) step_request(2) by (auto simp: abandoned_def new_pending_def)
    then show ?thesis
      using request_step step_request(2) advance_abandoned [OF request_step(4)]
      by (auto simp: abandoned_def set_pc_def nth_list_update)
  qed
next
  case (step_drop i st)
  then show ?case by (auto simp: abandoned_def drop_request_def set_pc_def nth_list_update)
next
  case (step_arrive st r)
  then show ?case by (auto simp: abandoned_def nth_append less_Suc_eq)
qed (simp_all add: abandoned_def service_frame)

lemma dropped_stays:
  "approval_step st st' \<Longrightarrow> i < length (requests st) \<Longrightarrow> snd (requests st ! i) = Dropped \<Longrightarrow>
    i < length (requests st') \<and> snd (requests st' ! i) = Dropped"
proof (induction rule: approval_step.induct)
  case (step_request st st')
  from step_request(1) show ?case
  proof cases
    case (request_step j r pc inp s pc')
    then show ?thesis using step_request(2,3) by (cases "j = i") (auto simp: set_pc_def)
  qed
next
  case (step_drop j st)
  then show ?case by (cases "j = i") (auto simp: drop_request_def set_pc_def)
qed (auto simp: nth_append)

lemma dropped_owner_blocks_waiter:
  assumes "approval_step\<^sup>*\<^sup>* (drop_request 0 sample_waiting) st"
  shows "approval_step sample_waiting (drop_request 0 sample_waiting)"
    and "snd (requests st ! 1) = Blocked 0 0 \<or> snd (requests st ! 1) = Dropped"
proof -
  show "approval_step sample_waiting (drop_request 0 sample_waiting)"
    by (rule step_drop) (simp_all add: sample_waiting_def sample_system_def)
  have "abandoned (drop_request 0 sample_waiting)"
    by (simp add: abandoned_def drop_request_def set_pc_def sample_waiting_def sample_system_def sample_pending_def
        new_pending_def less_Suc_eq)
  with assms have "abandoned st \<or> 1 < length (requests st) \<and> snd (requests st ! 1) = Dropped"
  proof (induction rule: rtranclp_induct)
    case (step st st')
    then consider "abandoned st" | "1 < length (requests st)" "snd (requests st ! 1) = Dropped" by blast
    then show ?case
    proof cases
      case 1
      have "length (requests st) \<le> length (requests st')"
        using step(2) by cases (auto simp: drop_request_def set_pc_def elim: request_step.cases)
      with 1 abandoned_step [OF step(2)] show ?thesis by (auto simp: abandoned_def)
    qed (use dropped_stays [OF step(2)] in blast)
  qed simp
  then show "snd (requests st ! 1) = Blocked 0 0 \<or> snd (requests st ! 1) = Dropped" by (auto simp: abandoned_def)
qed

text \<open>
  Dropped after it has set the decision, while it waits for the lock to remove the entry, the owner leaves
  the decided entry behind: an answer that allowed one access allows every later request for the host.
\<close>

definition once_input :: approval_input where
  "once_input = sample_input\<lparr>review_answer := Approved\<rparr>"

definition left_behind :: approval_system where
  "left_behind = (sample_system [Dropped])\<lparr>
     service := new_service\<lparr>pending_hosts := [key_of sample_request \<mapsto> 0],
       arcs := [\<lparr>pending_decision = Some AllowOnce, notify_count = 1\<rparr>]\<rparr>,
     grants := {(key_of sample_request, sample_turn, GrantOnce 0)}, joined := [0 \<mapsto> 0]\<rparr>"

lemma dropped_owner_leaves_answer:
  shows "approval_reachable left_behind"
    and "map_option (map snd \<circ> requests)
       (run_request any_input 1 5 (left_behind\<lparr>requests := requests left_behind @ [(sample_request, CheckDenied)]\<rparr>)) =
     Some [Dropped, Returned NetworkAllow]"
proof -
  let ?st = "(sample_system [Act 0 [RemovePending] NetworkAllow])\<lparr>
     service := new_service\<lparr>pending_hosts := [key_of sample_request \<mapsto> 0],
       arcs := [\<lparr>pending_decision = Some AllowOnce, notify_count = 1\<rparr>]\<rparr>,
     grants := {(key_of sample_request, sample_turn, GrantOnce 0)}, joined := [0 \<mapsto> 0]\<rparr>"
  have "run_request once_input 0 9 (sample_system [CheckDenied]) = Some ?st"
    by (simp add: once_input_def run_eval)
  from reachable_steps [OF run_request_steps [OF this]] sample_reachable [of 1] have "approval_reachable ?st" by simp
  moreover have "drop_request 0 ?st = left_behind"
    by (simp add: drop_request_def left_behind_def set_pc_def sample_system_def init_system_def)
  moreover have "approval_step ?st (drop_request 0 ?st)"
    by (rule step_drop) (simp_all add: sample_system_def)
  ultimately show "approval_reachable left_behind" using reach_step by metis
  show "map_option (map snd \<circ> requests)
       (run_request any_input 1 5 (left_behind\<lparr>requests := requests left_behind @ [(sample_request, CheckDenied)]\<rparr>)) =
     Some [Dropped, Returned NetworkAllow]"
    by (simp add: left_behind_def run_eval)
qed

end
