(* ===== verification/Permission_Grants.thy ===== *)
theory Permission_Grants
  imports Policy_Transforms Network_Approval
begin

text \<open>
  Permissions granted during a session (\<^verbatim>\<open>Session::request_permissions_for_cwd\<close> and the functions it calls in
  \<^verbatim>\<open>core/src/session/mod.rs\<close>, the grants of \<^verbatim>\<open>core/src/state/turn.rs\<close> and \<^verbatim>\<open>state/session.rs\<close>, the types of
  \<^verbatim>\<open>protocol/src/request_permissions.rs\<close>, the tool \<^verbatim>\<open>handlers/request_permissions.rs\<close>), and how a tool call
  picks them up (\<^verbatim>\<open>core/src/tools/handlers/mod.rs\<close>).  A request is asked of the user or of the guardian;
  between the question and its answer anything may happen, so the operations are the actions of a state
  machine and a run is any list of them.  The invariant at the end says that what is granted is put together
  from answers to requests that were made.
\<close>

section \<open>Requests and responses\<close>

datatype grant_scope = ScopeTurn | ScopeSession

text \<open>\<^verbatim>\<open>RequestPermissionProfile\<close> has the fields of \<^verbatim>\<open>AdditionalPermissionProfile\<close>; the conversions copy them.\<close>

type_synonym request_permission_profile = additional_permission_profile

definition empty_profile :: additional_permission_profile where
  "empty_profile = \<lparr>add_network = None, add_file_system = None\<rparr>"

record permissions_response =
  response_permissions :: request_permission_profile
  response_scope :: grant_scope
  response_strict :: bool

text \<open>The channel of a pending request is known by the id of the call that waits on it.\<close>

record pending_request =
  pending_permissions :: request_permission_profile
  pending_cwd :: abs_path_buf

record turn_grants =
  pending_requests :: "str \<Rightarrow> pending_request option"
  turn_granted :: "additional_permission_profile option"
  strict_enabled :: bool

definition new_turn_grants :: turn_grants where
  "new_turn_grants = \<lparr>pending_requests = Map.empty, turn_granted = None, strict_enabled = False\<rparr>"

text \<open>
  The state of a session: the turns so far, which of them is active, the grants of the session, and the
  requests the guardian is reviewing, each with the turn it was made in.
\<close>

record guardian_review =
  review_call :: str
  review_turn :: "nat option"
  review_permissions :: request_permission_profile
  review_cwd :: abs_path_buf

record grant_state =
  active_turn :: "nat option"
  turns :: "turn_grants list"
  session_granted :: "additional_permission_profile option"
  reviews :: "nat \<Rightarrow> guardian_review option"
  next_review :: nat

definition init_grants :: grant_state where
  "init_grants = \<lparr>active_turn = None, turns = [], session_granted = None, reviews = Map.empty, next_review = 0\<rparr>"

definition record_turn_grants :: "additional_permission_profile \<Rightarrow> turn_grants \<Rightarrow> turn_grants" where
  "record_turn_grants p t = t\<lparr>turn_granted := merge_permission_profiles (turn_granted t) (Some p)\<rparr>"

definition enable_strict_auto_review :: "turn_grants \<Rightarrow> turn_grants" where
  "enable_strict_auto_review t = t\<lparr>strict_enabled := True\<rparr>"

definition record_session_grants :: "additional_permission_profile \<Rightarrow> grant_state \<Rightarrow> grant_state" where
  "record_session_grants p s = s\<lparr>session_granted := merge_permission_profiles (session_granted s) (Some p)\<rparr>"

definition insert_pending_request :: "str \<Rightarrow> pending_request \<Rightarrow> turn_grants \<Rightarrow> turn_grants \<times> pending_request option" where
  "insert_pending_request key p t = (t\<lparr>pending_requests := (pending_requests t)(key \<mapsto> p)\<rparr>, pending_requests t key)"

definition remove_pending_request :: "str \<Rightarrow> turn_grants \<Rightarrow> turn_grants \<times> pending_request option" where
  "remove_pending_request key t = (t\<lparr>pending_requests := (pending_requests t)(key := None)\<rparr>, pending_requests t key)"

definition clear_pending :: "turn_grants \<Rightarrow> turn_grants" where
  "clear_pending t = t\<lparr>pending_requests := Map.empty\<rparr>"

definition update_turn :: "nat \<Rightarrow> (turn_grants \<Rightarrow> turn_grants) \<Rightarrow> grant_state \<Rightarrow> grant_state" where
  "update_turn i f s = s\<lparr>turns := (turns s)[i := f (turns s ! i)]\<rparr>"

section \<open>Answers\<close>

definition no_grant :: permissions_response where
  "no_grant = \<lparr>response_permissions = empty_profile, response_scope = ScopeTurn, response_strict = False\<rparr>"

fun response_of_decision :: "request_permission_profile \<Rightarrow> review_decision \<Rightarrow> permissions_response" where
  "response_of_decision p Approved =
     \<lparr>response_permissions = p, response_scope = ScopeTurn, response_strict = False\<rparr>"
| "response_of_decision p (ApprovedExecpolicyAmendment _) =
     \<lparr>response_permissions = p, response_scope = ScopeTurn, response_strict = False\<rparr>"
| "response_of_decision p ApprovedForSession =
     \<lparr>response_permissions = p, response_scope = ScopeSession, response_strict = False\<rparr>"
| "response_of_decision p (NetworkPolicyAmendment a) =
     (case amendment_action a of
        RuleAllow \<Rightarrow> \<lparr>response_permissions = p, response_scope = ScopeTurn, response_strict = False\<rparr>
      | RuleDeny \<Rightarrow> no_grant)"
| "response_of_decision p Abort = no_grant"
| "response_of_decision p Denied = no_grant"
| "response_of_decision p TimedOut = no_grant"

definition normalize_request_permissions_response ::
  "glob_builder \<Rightarrow> os_env \<Rightarrow> request_permission_profile \<Rightarrow> permissions_response \<Rightarrow> str \<Rightarrow> permissions_response" where
  "normalize_request_permissions_response build env requested r cwd =
     (if response_strict r \<and> response_scope r = ScopeSession then no_grant
      else if add_perms_empty (response_permissions r) then r
      else r\<lparr>response_permissions :=
        intersect_permission_profiles build env requested (response_permissions r) cwd\<rparr>)"

definition record_granted_request_permissions_for_turn ::
  "permissions_response \<Rightarrow> nat option \<Rightarrow> grant_state \<Rightarrow> grant_state" where
  "record_granted_request_permissions_for_turn r originating s =
     (if add_perms_empty (response_permissions r) then s
      else case response_scope r of
        ScopeTurn \<Rightarrow>
          (case originating of
             None \<Rightarrow> s
           | Some i \<Rightarrow> update_turn i
               (\<lambda>t. let t = record_turn_grants (response_permissions r) t
                    in if response_strict r then enable_strict_auto_review t else t) s)
      | ScopeSession \<Rightarrow> record_session_grants (response_permissions r) s)"

section \<open>The actions of a session\<close>

text \<open>
  What an action makes visible: the reply to a call, \<^verbatim>\<open>None\<close> when it was cancelled, when there is no turn or
  when a later request with its id replaces it (the calls still pending when a turn ends get no reply), and
  the recording of an answer (the request, its directory, the answer, and the turn it is recorded for).
\<close>

datatype grant_event =
  Replied str "permissions_response option"
| Recorded request_permission_profile abs_path_buf permissions_response "nat option"

definition allows_request_permissions :: "granular_config \<Rightarrow> bool" where
  "allows_request_permissions g = Exec_Approval.request_permissions g"

definition auto_denied :: "ask_for_approval \<Rightarrow> bool" where
  "auto_denied p =
     (case p of Never \<Rightarrow> True | Granular g \<Rightarrow> \<not> allows_request_permissions g | _ \<Rightarrow> False)"

definition settle_request ::
  "glob_builder \<Rightarrow> os_env \<Rightarrow> str \<Rightarrow> request_permission_profile \<Rightarrow> abs_path_buf \<Rightarrow> permissions_response \<Rightarrow>
    nat option \<Rightarrow> grant_state \<Rightarrow> grant_state \<times> grant_event list" where
  "settle_request build env call requested cwd r originating s =
     (let r' = normalize_request_permissions_response build env requested r cwd in
      (record_granted_request_permissions_for_turn r' originating s,
       [Recorded requested cwd r originating, Replied call (Some r')]))"

definition request_permissions_for_cwd ::
  "turn_info \<Rightarrow> str \<Rightarrow> request_permission_profile \<Rightarrow> abs_path_buf \<Rightarrow> grant_state \<Rightarrow> grant_state \<times> grant_event list" where
  "request_permissions_for_cwd tc call p cwd s =
     (if auto_denied (turn_policy tc) then (s, [Replied call (Some no_grant)])
      else if routes_approval_to_guardian tc then
        (s\<lparr>reviews := (reviews s)(next_review s \<mapsto> \<lparr>review_call = call, review_turn = active_turn s,
             review_permissions = p, review_cwd = cwd\<rparr>),
           next_review := next_review s + 1\<rparr>, [])
      else
        case active_turn s of
          None \<Rightarrow> (s, [Replied call None])
        | Some i \<Rightarrow>
            (let (t, prev) = insert_pending_request call \<lparr>pending_permissions = p, pending_cwd = cwd\<rparr> (turns s ! i) in
             (update_turn i (\<lambda>_. t) s, if prev \<noteq> None then [Replied call None] else [])))"

definition guardian_decides ::
  "glob_builder \<Rightarrow> os_env \<Rightarrow> nat \<Rightarrow> review_decision \<Rightarrow> grant_state \<Rightarrow> grant_state \<times> grant_event list" where
  "guardian_decides build env rid d s =
     (case reviews s rid of
        None \<Rightarrow> (s, [])
      | Some r \<Rightarrow>
          settle_request build env (review_call r) (review_permissions r) (review_cwd r)
            (response_of_decision (review_permissions r) d) (review_turn r)
            (s\<lparr>reviews := (reviews s)(rid := None)\<rparr>))"

definition cancel_review :: "nat \<Rightarrow> grant_state \<Rightarrow> grant_state \<times> grant_event list" where
  "cancel_review rid s =
     (case reviews s rid of
        None \<Rightarrow> (s, [])
      | Some r \<Rightarrow> (s\<lparr>reviews := (reviews s)(rid := None)\<rparr>, [Replied (review_call r) None]))"

definition cancel_request :: "str \<Rightarrow> grant_state \<Rightarrow> grant_state \<times> grant_event list" where
  "cancel_request call s =
     (case active_turn s of
        None \<Rightarrow> (s, [Replied call None])
      | Some i \<Rightarrow> (update_turn i (\<lambda>t. fst (remove_pending_request call t)) s, [Replied call None]))"

definition notify_request_permissions_response ::
  "glob_builder \<Rightarrow> os_env \<Rightarrow> str \<Rightarrow> permissions_response \<Rightarrow> grant_state \<Rightarrow> grant_state \<times> grant_event list" where
  "notify_request_permissions_response build env call r s =
     (case active_turn s of
        None \<Rightarrow> (s, [])
      | Some i \<Rightarrow>
          (let (t, entry) = remove_pending_request call (turns s ! i) in
           case entry of
             None \<Rightarrow> (update_turn i (\<lambda>_. t) s, [])
           | Some p \<Rightarrow>
               settle_request build env call (pending_permissions p) (pending_cwd p) r (Some i)
                 (update_turn i (\<lambda>_. t) s)))"

text \<open>A task starts in the active turn, or in a new one; a turn ends by being aborted or finished.\<close>

definition start_turn :: "grant_state \<Rightarrow> grant_state" where
  "start_turn s =
     (case active_turn s of
        Some _ \<Rightarrow> s
      | None \<Rightarrow> s\<lparr>active_turn := Some (length (turns s)), turns := turns s @ [new_turn_grants]\<rparr>)"

definition abort_turn :: "grant_state \<Rightarrow> grant_state" where
  "abort_turn s =
     (case active_turn s of
        None \<Rightarrow> s
      | Some i \<Rightarrow> (update_turn i clear_pending s)\<lparr>active_turn := None\<rparr>)"

definition finish_turn :: "grant_state \<Rightarrow> grant_state" where
  "finish_turn s = s\<lparr>active_turn := None\<rparr>"

text \<open>The tool \<^verbatim>\<open>request_permissions\<close>: a request that is malformed or empty never reaches the session.\<close>

datatype request_error = InvalidPermissions string | NoPermissions

definition handle_request_permissions ::
  "os_env \<Rightarrow> turn_info \<Rightarrow> str \<Rightarrow> request_permission_profile \<Rightarrow> abs_path_buf \<Rightarrow> grant_state \<Rightarrow>
    request_error + (grant_state \<times> grant_event list)" where
  "handle_request_permissions env tc call p cwd s =
     (case normalize_additional_permissions env p of
        Inl e \<Rightarrow> Inl (InvalidPermissions e)
      | Inr p' \<Rightarrow>
          if add_perms_empty p' then Inl NoPermissions
          else Inr (request_permissions_for_cwd tc call p' cwd s))"

datatype grant_action =
  StartTurn
| AbortTurn
| FinishTurn
| RequestPermissions turn_info str request_permission_profile abs_path_buf
| GuardianDecides nat review_decision
| CancelReview nat
| CancelRequest str
| Respond str permissions_response

fun perform_grant ::
  "glob_builder \<Rightarrow> os_env \<Rightarrow> grant_action \<Rightarrow> grant_state \<Rightarrow> grant_state \<times> grant_event list" where
  "perform_grant build env StartTurn s = (start_turn s, [])"
| "perform_grant build env AbortTurn s = (abort_turn s, [])"
| "perform_grant build env FinishTurn s = (finish_turn s, [])"
| "perform_grant build env (RequestPermissions tc call p cwd) s =
     (case handle_request_permissions env tc call p cwd s of Inl _ \<Rightarrow> (s, []) | Inr r \<Rightarrow> r)"
| "perform_grant build env (GuardianDecides rid d) s = guardian_decides build env rid d s"
| "perform_grant build env (CancelReview rid) s = cancel_review rid s"
| "perform_grant build env (CancelRequest call) s = cancel_request call s"
| "perform_grant build env (Respond call r) s = notify_request_permissions_response build env call r s"

fun run_grants ::
  "glob_builder \<Rightarrow> os_env \<Rightarrow> grant_action list \<Rightarrow> grant_state \<times> grant_event list \<Rightarrow> grant_state \<times> grant_event list" where
  "run_grants build env [] (s, evs) = (s, evs)"
| "run_grants build env (a # as) (s, evs) =
     (let (s', evs') = perform_grant build env a s in run_grants build env as (s', evs @ evs'))"

section \<open>What a tool call gets\<close>

definition granted_turn_permissions :: "grant_state \<Rightarrow> additional_permission_profile option" where
  "granted_turn_permissions s = (case active_turn s of None \<Rightarrow> None | Some i \<Rightarrow> turn_granted (turns s ! i))"

definition strict_auto_review_enabled_for_turn :: "grant_state \<Rightarrow> bool" where
  "strict_auto_review_enabled_for_turn s \<longleftrightarrow>
     (case active_turn s of None \<Rightarrow> False | Some i \<Rightarrow> strict_enabled (turns s ! i))"

definition uses_additional_permissions :: "sandbox_permissions \<Rightarrow> bool" where
  "uses_additional_permissions sp \<longleftrightarrow> sp = WithAdditionalPermissions"

record effective_additional_permissions =
  effective_sandbox_permissions :: sandbox_permissions
  effective_permissions :: "additional_permission_profile option"
  effective_preapproved :: bool

text \<open>Profiles are compared field by field, paths by their components.\<close>

definition fs_perms_eq :: "file_system_permissions \<Rightarrow> file_system_permissions \<Rightarrow> bool" where
  "fs_perms_eq a b \<longleftrightarrow> list_all2 entry_eq (perm_entries a) (perm_entries b) \<and> perm_glob_depth a = perm_glob_depth b"

definition profile_eq :: "additional_permission_profile \<Rightarrow> additional_permission_profile \<Rightarrow> bool" where
  "profile_eq a b \<longleftrightarrow> add_network a = add_network b \<and>
     rel_option fs_perms_eq (add_file_system a) (add_file_system b)"

definition permissions_are_preapproved ::
  "glob_builder \<Rightarrow> os_env \<Rightarrow> additional_permission_profile \<Rightarrow> additional_permission_profile \<Rightarrow> str \<Rightarrow> bool" where
  "permissions_are_preapproved build env eff given cwd =
     profile_eq (intersect_permission_profiles build env eff given cwd)
       (intersect_permission_profiles build env eff eff cwd)"

definition apply_granted_turn_permissions ::
  "glob_builder \<Rightarrow> os_env \<Rightarrow> grant_state \<Rightarrow> str \<Rightarrow> sandbox_permissions \<Rightarrow> additional_permission_profile option \<Rightarrow>
    effective_additional_permissions" where
  "apply_granted_turn_permissions build env s cwd sp additional =
     (if sp = RequireEscalated then
        \<lparr>effective_sandbox_permissions = sp, effective_permissions = additional, effective_preapproved = False\<rparr>
      else
        let given = merge_permission_profiles (session_granted s) (granted_turn_permissions s);
            eff = merge_permission_profiles additional given;
            preapproved = (case (eff, given) of
               (Some e, Some g) \<Rightarrow> permissions_are_preapproved build env e g cwd
             | _ \<Rightarrow> False)
        in \<lparr>effective_sandbox_permissions =
              (if eff \<noteq> None \<and> \<not> uses_additional_permissions sp then WithAdditionalPermissions else sp),
            effective_permissions = eff, effective_preapproved = preapproved\<rparr>)"

definition implicit_granted_permissions ::
  "sandbox_permissions \<Rightarrow> additional_permission_profile option \<Rightarrow> effective_additional_permissions \<Rightarrow>
    additional_permission_profile option" where
  "implicit_granted_permissions sp additional eff =
     (if \<not> uses_additional_permissions sp \<and> sp \<noteq> RequireEscalated \<and> additional = None
      then effective_permissions eff else None)"

datatype additional_permissions_error =
  AdditionalPermissionsDisabled
| PolicyNotOnRequest ask_for_approval
| MissingAdditionalPermissions
| InvalidAdditionalPermissions string
| EmptyAdditionalPermissions
| UnusedAdditionalPermissions

definition normalize_and_validate_additional_permissions ::
  "os_env \<Rightarrow> bool \<Rightarrow> ask_for_approval \<Rightarrow> sandbox_permissions \<Rightarrow> additional_permission_profile option \<Rightarrow> bool \<Rightarrow>
    additional_permissions_error + additional_permission_profile option" where
  "normalize_and_validate_additional_permissions env allowed policy sp additional preapproved =
     (let uses = uses_additional_permissions sp in
      if \<not> preapproved \<and> \<not> allowed \<and> (uses \<or> additional \<noteq> None) then Inl AdditionalPermissionsDisabled
      else if uses then
        (if \<not> preapproved \<and> policy \<noteq> OnRequest then Inl (PolicyNotOnRequest policy)
         else case additional of
           None \<Rightarrow> Inl MissingAdditionalPermissions
         | Some a \<Rightarrow>
             (case normalize_additional_permissions env a of
                Inl e \<Rightarrow> Inl (InvalidAdditionalPermissions e)
              | Inr n \<Rightarrow> if add_perms_empty n then Inl EmptyAdditionalPermissions else Inr (Some n)))
      else if additional \<noteq> None then Inl UnusedAdditionalPermissions
      else Inr None)"


section \<open>Grants are the union of the recorded answers\<close>

lemma entry_eq_trans: "entry_eq a b \<Longrightarrow> entry_eq b c \<Longrightarrow> entry_eq a c"
proof -
  have o: "option_path_eq x y \<Longrightarrow> option_path_eq y z \<Longrightarrow> option_path_eq x z" for x y z
    by (cases x; cases y; cases z) (auto simp: path_eq_def)
  have s: "special_path_eq x y \<Longrightarrow> special_path_eq y z \<Longrightarrow> special_path_eq x z" for x y z
    by (cases x; cases y; cases z) (auto intro: o)
  have "file_system_path_eq x y \<Longrightarrow> file_system_path_eq y z \<Longrightarrow> file_system_path_eq x z" for x y z
    by (cases x; cases y; cases z) (auto intro: s simp: path_eq_def)
  then show "entry_eq a b \<Longrightarrow> entry_eq b c \<Longrightarrow> entry_eq a c" by (auto simp: entry_eq_def)
qed

definition entries_of :: "additional_permission_profile option \<Rightarrow> sandbox_entry list" where
  "entries_of p = (case Option.bind p add_file_system of None \<Rightarrow> [] | Some f \<Rightarrow> perm_entries f)"

definition network_on :: "additional_permission_profile option \<Rightarrow> bool" where
  "network_on p \<longleftrightarrow> enables (Option.bind p add_network)"

definition keeps :: "sandbox_entry list \<Rightarrow> sandbox_entry list \<Rightarrow> bool" where
  "keeps es ds \<longleftrightarrow> (\<forall>d \<in> set ds. \<exists>e \<in> set es. entry_eq e d)"

lemma keeps_trans: "keeps es ds \<Longrightarrow> keeps ds cs \<Longrightarrow> keeps es cs"
  unfolding keeps_def by (meson entry_eq_trans)

lemma keeps_refl [simp]: "keeps es es"
  unfolding keeps_def using entry_eq_refl by blast

lemma keeps_Nil [simp]: "keeps es []"
  by (simp add: keeps_def)

lemma nothing_granted [simp]: "entries_of None = []" "\<not> network_on None"
  by (simp_all add: entries_of_def network_on_def enables_def)

lemma merge_permission_entries_keeps:
  "set (merge_permission_entries bs ps) \<subseteq> set bs \<union> set ps \<and> keeps (merge_permission_entries bs ps) bs \<and>
    keeps (merge_permission_entries bs ps) ps"
  using foldl_push_missing [of "[]" "bs @ ps"] by (fastforce simp: merge_permission_entries_def keeps_def)

lemma option_filter_fs: "entries_of (Some \<lparr>add_network = n, add_file_system = option_filter (\<lambda>f. \<not> fs_perms_empty f) x\<rparr>) =
    entries_of (Some \<lparr>add_network = n, add_file_system = x\<rparr>)"
  by (auto simp: entries_of_def option_filter_def fs_perms_empty_def split: option.split)

lemma option_filter_empty:
  "entries_of (option_filter (\<lambda>a. \<not> add_perms_empty a) p) = entries_of p"
  "network_on (option_filter (\<lambda>a. \<not> add_perms_empty a) p) = network_on p"
  by (auto simp: entries_of_def network_on_def option_filter_def add_perms_empty_def enables_def split: option.splits bind_splits)

lemma merge_profiles:
  "set (entries_of (merge_permission_profiles b (Some p))) \<subseteq> set (entries_of b) \<union> set (entries_of (Some p))" (is ?sub)
  "keeps (entries_of (merge_permission_profiles b (Some p))) (entries_of b)" (is ?base)
  "keeps (entries_of (merge_permission_profiles b (Some p))) (entries_of (Some p))" (is ?new)
  "network_on (merge_permission_profiles b (Some p)) \<longleftrightarrow> network_on b \<or> network_on (Some p)" (is ?net)
proof -
  have "?sub \<and> ?base \<and> ?new \<and> ?net"
  proof (cases b)
    case None
    then show ?thesis by (simp add: merge_permission_profiles_def option_filter_empty)
  next
    case (Some base)
    have net: ?net
      by (simp add: Some merge_permission_profiles_def option_filter_empty)
        (auto simp: network_on_def enabled_network_def enables_def)
    let ?x = "case (add_file_system base, add_file_system p) of
        (Some fb, Some fp) \<Rightarrow> Some \<lparr>perm_entries = merge_permission_entries (perm_entries fb) (perm_entries fp),
          perm_glob_depth = nonzero (merge_glob_scan_max_depth (perm_entries fb) (perm_glob_depth fb) (perm_entries fp) (perm_glob_depth fp))\<rparr>
      | (Some fb, None) \<Rightarrow> Some fb | (None, Some fp) \<Rightarrow> Some fp | (None, None) \<Rightarrow> None"
    have "entries_of (merge_permission_profiles b (Some p)) = entries_of (Some \<lparr>add_network = None, add_file_system = ?x\<rparr>)"
      by (auto simp: Some merge_permission_profiles_def option_filter_empty entries_of_def option_filter_def
          fs_perms_empty_def add_perms_empty_def split: option.split)
    with net merge_permission_entries_keeps show ?thesis
      by (cases "add_file_system base"; cases "add_file_system p") (simp_all add: Some entries_of_def keeps_def)
  qed
  then show ?sub ?base ?new ?net by blast+
qed

text \<open>What is granted is put together from a list of profiles: nothing added, no entry forgotten.\<close>

definition built_from :: "additional_permission_profile list \<Rightarrow> additional_permission_profile option \<Rightarrow> bool" where
  "built_from ps g \<longleftrightarrow>
     set (entries_of g) \<subseteq> (\<Union>p \<in> set ps. set (entries_of (Some p))) \<and>
     (\<forall>p \<in> set ps. keeps (entries_of g) (entries_of (Some p))) \<and>
     (network_on g \<longleftrightarrow> (\<exists>p \<in> set ps. network_on (Some p)))"

lemma built_from_Nil: "built_from [] None"
  by (simp add: built_from_def)

lemma built_from_merge:
  assumes "built_from ps g"
  shows "built_from (ps @ [p]) (merge_permission_profiles g (Some p))"
  unfolding built_from_def
proof (intro conjI ballI)
  show "set (entries_of (merge_permission_profiles g (Some p))) \<subseteq> (\<Union>p \<in> set (ps @ [p]). set (entries_of (Some p)))"
    using merge_profiles(1) [of g p] assms by (auto simp: built_from_def)
  show "keeps (entries_of (merge_permission_profiles g (Some p))) (entries_of (Some p'))" if "p' \<in> set (ps @ [p])" for p'
  proof (cases "p' = p")
    case False
    with that assms have "keeps (entries_of g) (entries_of (Some p'))" by (auto simp: built_from_def)
    then show ?thesis by (rule keeps_trans [OF merge_profiles(2)])
  qed (simp add: merge_profiles(3))
  show "network_on (merge_permission_profiles g (Some p)) \<longleftrightarrow> (\<exists>p' \<in> set (ps @ [p]). network_on (Some p'))"
    using merge_profiles(4) [of g p] assms by (auto simp: built_from_def)
qed

lemma built_from_union:
  assumes "built_from ps a" "built_from qs b"
  shows "built_from (ps @ qs) (merge_permission_profiles a b)"
proof (cases b)
  case None
  have "keeps x ys \<Longrightarrow> ys = [] \<or> x \<noteq> []" for x ys by (cases ys) (auto simp: keeps_def)
  with assms None have "entries_of (Some p) = []" if "p \<in> set qs" for p using that by (fastforce simp: built_from_def)
  with assms None show ?thesis by (auto simp: built_from_def merge_permission_profiles_def)
next
  case (Some p)
  show ?thesis unfolding built_from_def Some
  proof (intro conjI ballI)
    show "set (entries_of (merge_permission_profiles a (Some p))) \<subseteq> (\<Union>p \<in> set (ps @ qs). set (entries_of (Some p)))"
      using merge_profiles(1) [of a p] assms by (auto simp: built_from_def Some)
    show "keeps (entries_of (merge_permission_profiles a (Some p))) (entries_of (Some p'))" if "p' \<in> set (ps @ qs)" for p'
    proof (cases "p' \<in> set ps")
      case True
      with assms have "keeps (entries_of a) (entries_of (Some p'))" by (auto simp: built_from_def)
      then show ?thesis by (rule keeps_trans [OF merge_profiles(2)])
    next
      case False
      with that assms have "keeps (entries_of (Some p)) (entries_of (Some p'))" by (auto simp: built_from_def Some)
      then show ?thesis by (rule keeps_trans [OF merge_profiles(3)])
    qed
    show "network_on (merge_permission_profiles a (Some p)) \<longleftrightarrow> (\<exists>p' \<in> set (ps @ qs). network_on (Some p'))"
      using merge_profiles(4) [of a p] assms by (auto simp: built_from_def Some)
  qed
qed


section \<open>Every grant was asked for and answered\<close>

text \<open>
  What a list of actions says of a request, read off the list alone.  A request that reaches the session
  is routed to the user, under the id of its call, or to the guardian, under a number of its own.  It stays
  open until it is answered, cancelled or, for one put to the user, until its turn ends or another request
  takes over its id.
\<close>

definition routed ::
  "os_env \<Rightarrow> grant_action \<Rightarrow> (bool \<times> str \<times> request_permission_profile \<times> abs_path_buf) option" where
  "routed env a =
     (case a of
        RequestPermissions tc call p0 cwd \<Rightarrow>
          (case normalize_additional_permissions env p0 of
             Inl _ \<Rightarrow> None
           | Inr p \<Rightarrow> if add_perms_empty p \<or> auto_denied (turn_policy tc) then None
                      else Some (routes_approval_to_guardian tc, call, p, cwd))
      | _ \<Rightarrow> None)"

definition review_count :: "os_env \<Rightarrow> grant_action list \<Rightarrow> nat" where
  "review_count env acts = length (filter (\<lambda>a. case routed env a of Some (guardian, _) \<Rightarrow> guardian | None \<Rightarrow> False) acts)"

definition ends_turn :: "grant_action \<Rightarrow> bool" where
  "ends_turn a \<longleftrightarrow> a = AbortTurn \<or> a = FinishTurn"

definition closes_request :: "os_env \<Rightarrow> str \<Rightarrow> grant_action \<Rightarrow> bool" where
  "closes_request env call a \<longleftrightarrow> ends_turn a \<or>
     (case a of Respond c _ \<Rightarrow> c = call | CancelRequest c \<Rightarrow> c = call | _ \<Rightarrow> False) \<or>
     (case routed env a of Some (guardian, c, _) \<Rightarrow> \<not> guardian \<and> c = call | None \<Rightarrow> False)"

definition closes_review :: "nat \<Rightarrow> grant_action \<Rightarrow> bool" where
  "closes_review rid a \<longleftrightarrow> (case a of GuardianDecides n _ \<Rightarrow> n = rid | CancelReview n \<Rightarrow> n = rid | _ \<Rightarrow> False)"

text \<open>
  An answer belongs to the one request it closes: the user's to the open request of that call, the
  guardian's to the open request under review by that number.  The flag says that the turn in which the
  request was made has not ended since.
\<close>

definition answers ::
  "os_env \<Rightarrow> grant_action list \<Rightarrow> grant_action \<Rightarrow> grant_action list \<Rightarrow> grant_action \<Rightarrow>
    request_permission_profile \<Rightarrow> abs_path_buf \<Rightarrow> permissions_response \<Rightarrow> bool" where
  "answers env before request between answer p cwd r \<longleftrightarrow>
     (\<exists>call. routed env request = Some (False, call, p, cwd) \<and> answer = Respond call r \<and>
        (\<forall>a \<in> set between. \<not> closes_request env call a)) \<or>
     (\<exists>call d. routed env request = Some (True, call, p, cwd) \<and> r = response_of_decision p d \<and>
        answer = GuardianDecides (review_count env before) d \<and>
        (\<forall>a \<in> set between. \<not> closes_review (review_count env before) a))"

definition answered ::
  "os_env \<Rightarrow> grant_action list \<Rightarrow> bool \<Rightarrow> request_permission_profile \<Rightarrow> abs_path_buf \<Rightarrow> permissions_response \<Rightarrow> bool" where
  "answered env acts current p cwd r \<longleftrightarrow>
     (\<exists>before request between answer after. acts = before @ request # between @ answer # after \<and>
        answers env before request between answer p cwd r \<and>
        (current \<longrightarrow> (\<forall>a \<in> set (between @ answer # after). \<not> ends_turn a)))"

definition open_request :: "os_env \<Rightarrow> grant_action list \<Rightarrow> str \<Rightarrow> request_permission_profile \<Rightarrow> abs_path_buf \<Rightarrow> bool" where
  "open_request env acts call p cwd \<longleftrightarrow>
     (\<exists>before request between. acts = before @ request # between \<and> routed env request = Some (False, call, p, cwd) \<and>
        (\<forall>a \<in> set between. \<not> closes_request env call a))"

definition open_review ::
  "os_env \<Rightarrow> grant_action list \<Rightarrow> bool \<Rightarrow> nat \<Rightarrow> request_permission_profile \<Rightarrow> abs_path_buf \<Rightarrow> bool" where
  "open_review env acts current rid p cwd \<longleftrightarrow>
     (\<exists>before request between call. acts = before @ request # between \<and> routed env request = Some (True, call, p, cwd) \<and>
        rid = review_count env before \<and> (\<forall>a \<in> set between. \<not> closes_review rid a) \<and>
        (current \<longrightarrow> (\<forall>a \<in> set between. \<not> ends_turn a)))"

lemma closes_review_simps [simp]:
  "closes_review rid (GuardianDecides n d) \<longleftrightarrow> n = rid" "closes_review rid (CancelReview n) \<longleftrightarrow> n = rid"
  "\<not> closes_review rid StartTurn" "\<not> closes_review rid AbortTurn" "\<not> closes_review rid FinishTurn"
  "\<not> closes_review rid (RequestPermissions tc call p cwd)" "\<not> closes_review rid (CancelRequest call)"
  "\<not> closes_review rid (Respond call r)"
  by (simp_all add: closes_review_def)

lemma routed_simps [simp]:
  "routed env StartTurn = None" "routed env AbortTurn = None" "routed env FinishTurn = None"
  "routed env (GuardianDecides n d) = None" "routed env (CancelReview n) = None"
  "routed env (CancelRequest call) = None" "routed env (Respond call r) = None"
  by (simp_all add: routed_def)

lemma closes_request_simps [simp]:
  "closes_request env call (Respond c r) \<longleftrightarrow> c = call" "closes_request env call (CancelRequest c) \<longleftrightarrow> c = call"
  "\<not> closes_request env call StartTurn" "\<not> closes_request env call (GuardianDecides n d)"
  "\<not> closes_request env call (CancelReview n)"
  "closes_request env call (RequestPermissions tc c p0 cwd) \<longleftrightarrow>
     (\<exists>p cwd'. routed env (RequestPermissions tc c p0 cwd) = Some (False, call, p, cwd'))"
  by (auto simp: closes_request_def ends_turn_def split: option.splits)

lemma ends_turn_simps [simp]:
  "ends_turn AbortTurn" "ends_turn FinishTurn" "\<not> ends_turn StartTurn" "\<not> ends_turn (GuardianDecides n d)"
  "\<not> ends_turn (CancelReview n)" "\<not> ends_turn (CancelRequest c)" "\<not> ends_turn (Respond c r)"
  "\<not> ends_turn (RequestPermissions tc c p cwd)"
  by (simp_all add: ends_turn_def)

lemma review_count_append [simp]:
  "review_count env [] = 0"
  "review_count env (acts @ [a]) = review_count env acts +
     (case routed env a of Some (guardian, _) \<Rightarrow> if guardian then 1 else 0 | None \<Rightarrow> 0)"
  by (auto simp: review_count_def split: option.split)

lemma snoc_split: "xs = ys @ z # zs \<Longrightarrow> xs @ [a] = ys @ z # (zs @ [a])"
  by simp

lemma open_request_append:
  assumes "open_request env acts call p cwd" "\<not> closes_request env call a"
  shows "open_request env (acts @ [a]) call p cwd"
proof -
  obtain before request between where "acts = before @ request # between" "routed env request = Some (False, call, p, cwd)"
      "\<forall>a \<in> set between. \<not> closes_request env call a"
    using assms(1) by (auto simp: open_request_def)
  with assms(2) show ?thesis
    unfolding open_request_def by (intro exI [of _ before] exI [of _ request] exI [of _ "between @ [a]"]) auto
qed

lemma open_review_append:
  assumes "open_review env acts current rid p cwd" "\<not> closes_review rid a" "now \<longrightarrow> current \<and> \<not> ends_turn a"
  shows "open_review env (acts @ [a]) now rid p cwd"
proof -
  obtain before request between call where "acts = before @ request # between" "routed env request = Some (True, call, p, cwd)"
      "rid = review_count env before" "\<forall>a \<in> set between. \<not> closes_review rid a"
      "current \<longrightarrow> (\<forall>a \<in> set between. \<not> ends_turn a)"
    using assms(1) by (auto simp: open_review_def)
  with assms(2,3) show ?thesis
    unfolding open_review_def
    by (intro exI [of _ before] exI [of _ request] exI [of _ "between @ [a]"] exI [of _ call]) auto
qed

lemma answered_append:
  assumes "answered env acts current p cwd r" "now \<longrightarrow> current \<and> \<not> ends_turn a"
  shows "answered env (acts @ [a]) now p cwd r"
proof -
  obtain before request between answer after where "acts = before @ request # between @ answer # after"
      "answers env before request between answer p cwd r"
      "current \<longrightarrow> (\<forall>a \<in> set (between @ answer # after). \<not> ends_turn a)"
    using assms(1) unfolding answered_def by blast
  with assms(2) show ?thesis
    unfolding answered_def
    by (intro exI [of _ before] exI [of _ request] exI [of _ between] exI [of _ answer] exI [of _ "after @ [a]"]) auto
qed

lemma answered_weaken: "answered env acts current p cwd r \<Longrightarrow> now \<longrightarrow> current \<Longrightarrow> answered env acts now p cwd r"
  unfolding answered_def by blast

lemma open_new:
  "routed env a = Some (False, call, p, cwd) \<Longrightarrow> open_request env (acts @ [a]) call p cwd"
  "routed env a = Some (True, call, p, cwd) \<Longrightarrow> open_review env (acts @ [a]) current (review_count env acts) p cwd"
  unfolding open_request_def open_review_def by fastforce+

lemma answer_request:
  assumes "open_request env acts call p cwd"
  shows "answered env (acts @ [Respond call r]) current p cwd r"
proof -
  obtain before request between where o: "acts = before @ request # between" "routed env request = Some (False, call, p, cwd)"
      "\<forall>a \<in> set between. \<not> closes_request env call a"
    using assms by (auto simp: open_request_def)
  then have "answers env before request between (Respond call r) p cwd r" by (auto simp: answers_def)
  moreover have "\<forall>a \<in> set (between @ [Respond call r]). \<not> ends_turn a" using o(3) by (auto simp: closes_request_def)
  ultimately show ?thesis unfolding answered_def o(1) by fastforce
qed

lemma answer_review:
  assumes "open_review env acts current rid p cwd"
  shows "answered env (acts @ [GuardianDecides rid d]) current p cwd (response_of_decision p d)"
proof -
  obtain before request between call where o: "acts = before @ request # between"
      "routed env request = Some (True, call, p, cwd)"
      "rid = review_count env before" "\<forall>a \<in> set between. \<not> closes_review rid a"
      "current \<longrightarrow> (\<forall>a \<in> set between. \<not> ends_turn a)"
    using assms by (auto simp: open_review_def)
  then have "answers env before request between (GuardianDecides rid d) p cwd (response_of_decision p d)"
    by (auto simp: answers_def)
  moreover have "current \<longrightarrow> (\<forall>a \<in> set (between @ [GuardianDecides rid d]). \<not> ends_turn a)" using o(5) by auto
  ultimately show ?thesis unfolding answered_def o(1) by fastforce
qed

text \<open>The profiles recorded for the session (\<^verbatim>\<open>None\<close>) or for a turn.\<close>

definition recorded_profile ::
  "glob_builder \<Rightarrow> os_env \<Rightarrow> nat option \<Rightarrow> grant_event \<Rightarrow> additional_permission_profile list" where
  "recorded_profile build env k ev =
     (case ev of
        Replied _ _ \<Rightarrow> []
      | Recorded p cwd r t \<Rightarrow>
          (let r' = normalize_request_permissions_response build env p r cwd in
           if (case response_scope r' of ScopeSession \<Rightarrow> k = None | ScopeTurn \<Rightarrow> k \<noteq> None \<and> t = k)
           then [response_permissions r'] else []))"

definition recorded_profiles ::
  "glob_builder \<Rightarrow> os_env \<Rightarrow> nat option \<Rightarrow> grant_event list \<Rightarrow> additional_permission_profile list" where
  "recorded_profiles build env k evs = concat (map (recorded_profile build env k) evs)"

lemma recorded_profiles_append [simp]:
  "recorded_profiles build env k (evs @ evs') = recorded_profiles build env k evs @ recorded_profiles build env k evs'"
  "recorded_profiles build env k [] = []"
  "recorded_profiles build env k (ev # evs) = recorded_profile build env k ev @ recorded_profiles build env k evs"
  by (simp_all add: recorded_profiles_def)

definition valid_turn :: "grant_state \<Rightarrow> nat option \<Rightarrow> bool" where
  "valid_turn s t \<longleftrightarrow> (case t of None \<Rightarrow> True | Some i \<Rightarrow> i < length (turns s))"

lemma valid_turn_reviews [simp]:
  "valid_turn (s\<lparr>reviews := f\<rparr>) t = valid_turn s t" "valid_turn (s\<lparr>reviews := f, next_review := n\<rparr>) t = valid_turn s t"
  by (simp_all add: valid_turn_def split: option.split)

text \<open>A turn is current while it is the active one.\<close>

definition is_current :: "grant_state \<Rightarrow> nat option \<Rightarrow> bool" where
  "is_current s t \<longleftrightarrow> t \<noteq> None \<and> t = active_turn s"

definition event_ok :: "os_env \<Rightarrow> grant_action list \<Rightarrow> grant_state \<Rightarrow> grant_event \<Rightarrow> bool" where
  "event_ok env acts s ev =
     (case ev of
        Replied _ _ \<Rightarrow> True
      | Recorded p cwd r t \<Rightarrow> answered env acts (is_current s t) p cwd r \<and> valid_turn s t)"

definition requests_ok :: "os_env \<Rightarrow> grant_action list \<Rightarrow> grant_state \<Rightarrow> bool" where
  "requests_ok env acts s \<longleftrightarrow>
     valid_turn s (active_turn s) \<and> next_review s = review_count env acts \<and>
     (\<forall>i call pd. active_turn s = Some i \<longrightarrow> pending_requests (turns s ! i) call = Some pd \<longrightarrow>
        open_request env acts call (pending_permissions pd) (pending_cwd pd)) \<and>
     (\<forall>rid r. reviews s rid = Some r \<longrightarrow> valid_turn s (review_turn r) \<and>
        open_review env acts (is_current s (review_turn r)) rid (review_permissions r) (review_cwd r))"

definition grants_ok :: "glob_builder \<Rightarrow> os_env \<Rightarrow> grant_state \<Rightarrow> grant_event list \<Rightarrow> bool" where
  "grants_ok build env s evs \<longleftrightarrow>
     built_from (recorded_profiles build env None evs) (session_granted s) \<and>
     (\<forall>i < length (turns s). built_from (recorded_profiles build env (Some i) evs) (turn_granted (turns s ! i)))"

definition grant_inv :: "glob_builder \<Rightarrow> os_env \<Rightarrow> grant_action list \<Rightarrow> grant_state \<Rightarrow> grant_event list \<Rightarrow> bool" where
  "grant_inv build env acts s evs \<longleftrightarrow>
     requests_ok env acts s \<and> grants_ok build env s evs \<and> (\<forall>ev \<in> set evs. event_ok env acts s ev)"

text \<open>A profile without network and without entries adds nothing.\<close>

lemma built_from_empty:
  assumes "built_from ps g" "add_perms_empty p"
  shows "built_from (ps @ [p]) g"
proof -
  have "entries_of (Some p) = []" "\<not> network_on (Some p)"
    using assms(2) by (simp_all add: add_perms_empty_def entries_of_def network_on_def enables_def)
  with assms(1) show ?thesis by (auto simp: built_from_def)
qed

lemma record_built_from:
  assumes "built_from ps g"
  shows "built_from (ps @ [p]) (if add_perms_empty p then g else merge_permission_profiles g (Some p))"
  using built_from_empty [OF assms] built_from_merge [OF assms] by simp

lemma record_session_field:
  "session_granted (record_granted_request_permissions_for_turn r t s) =
     (if response_scope r = ScopeSession \<and> \<not> add_perms_empty (response_permissions r)
      then merge_permission_profiles (session_granted s) (Some (response_permissions r)) else session_granted s)"
  by (cases "response_scope r")
    (auto simp: record_granted_request_permissions_for_turn_def record_session_grants_def update_turn_def split: option.split)

lemma record_turn_field:
  "i < length (turns s) \<Longrightarrow> turn_granted (turns (record_granted_request_permissions_for_turn r t s) ! i) =
     (if response_scope r = ScopeTurn \<and> t = Some i \<and> \<not> add_perms_empty (response_permissions r)
      then merge_permission_profiles (turn_granted (turns s ! i)) (Some (response_permissions r))
      else turn_granted (turns s ! i))"
  by (cases "response_scope r")
    (auto simp: record_granted_request_permissions_for_turn_def record_session_grants_def update_turn_def
      record_turn_grants_def enable_strict_auto_review_def nth_list_update Let_def split: option.split)

lemma record_other_fields:
  "length (turns (record_granted_request_permissions_for_turn r t s)) = length (turns s)"
  "active_turn (record_granted_request_permissions_for_turn r t s) = active_turn s"
  "reviews (record_granted_request_permissions_for_turn r t s) = reviews s"
  "next_review (record_granted_request_permissions_for_turn r t s) = next_review s"
  by (auto simp: record_granted_request_permissions_for_turn_def record_session_grants_def update_turn_def
      split: option.split grant_scope.split)

lemma record_pending:
  assumes "i < length (turns s)"
  shows "pending_requests (turns (record_granted_request_permissions_for_turn r t s) ! i) = pending_requests (turns s ! i)"
  using assms
  by (cases "t = Some i")
    (auto simp: record_granted_request_permissions_for_turn_def record_session_grants_def update_turn_def
      record_turn_grants_def enable_strict_auto_review_def Let_def split: option.split grant_scope.split)

lemma settle_grants_ok:
  assumes "grants_ok build env s evs" "settle_request build env call p cwd r t s = (s', evs')"
  shows "grants_ok build env s' (evs @ evs')"
proof -
  let ?r = "normalize_request_permissions_response build env p r cwd"
  have s': "s' = record_granted_request_permissions_for_turn ?r t s"
    and evs': "evs' = [Recorded p cwd r t, Replied call (Some ?r)]"
    using assms(2) by (auto simp: settle_request_def Let_def)
  show ?thesis
    unfolding grants_ok_def
  proof (intro conjI allI impI)
    show "built_from (recorded_profiles build env None (evs @ evs')) (session_granted s')"
      using assms(1) record_built_from [of "recorded_profiles build env None evs" "session_granted s" "response_permissions ?r"]
      by (cases "response_scope ?r")
        (simp_all add: grants_ok_def s' evs' record_session_field recorded_profile_def Let_def split: if_splits)
    show "built_from (recorded_profiles build env (Some i) (evs @ evs')) (turn_granted (turns s' ! i))"
      if "i < length (turns s')" for i
      using that assms(1) record_built_from [of "recorded_profiles build env (Some i) evs" "turn_granted (turns s ! i)" "response_permissions ?r"]
      by (cases "response_scope ?r")
        (auto simp: grants_ok_def s' evs' record_turn_field record_other_fields recorded_profile_def Let_def split: if_splits)
  qed
qed

lemma settle_requests_ok:
  assumes "requests_ok env acts s" "settle_request build env call p cwd r t s = (s', evs')"
  shows "requests_ok env acts s'" "length (turns s') = length (turns s)" "active_turn s' = active_turn s"
proof -
  have s': "s' = record_granted_request_permissions_for_turn (normalize_request_permissions_response build env p r cwd) t s"
    using assms(2) by (auto simp: settle_request_def Let_def)
  show l: "length (turns s') = length (turns s)" by (simp add: s' record_other_fields)
  show a: "active_turn s' = active_turn s" by (simp add: s' record_other_fields)
  have v: "valid_turn s' = valid_turn s" "is_current s' = is_current s"
    using l a by (auto simp: valid_turn_def is_current_def fun_eq_iff split: option.split)
  have p: "pending_requests (turns s' ! i) = pending_requests (turns s ! i)" if "i < length (turns s)" for i
    using that by (simp add: s' record_pending)
  have f: "reviews s' = reviews s" "next_review s' = next_review s" by (simp_all add: s' record_other_fields)
  have "i < length (turns s)" if "active_turn s = Some i" for i
    using assms(1) that by (simp add: requests_ok_def valid_turn_def)
  with assms(1) p show "requests_ok env acts s'" by (auto simp: requests_ok_def v f a)
qed

text \<open>Each action keeps the invariant; actions that settle nothing leave the grants alone.\<close>

lemma update_turn_simps [simp]:
  "length (turns (update_turn i f s)) = length (turns s)"
  "session_granted (update_turn i f s) = session_granted s"
  "active_turn (update_turn i f s) = active_turn s"
  "reviews (update_turn i f s) = reviews s"
  "next_review (update_turn i f s) = next_review s"
  "is_current (update_turn i f s) = is_current s"
  "j < length (turns s) \<Longrightarrow> turns (update_turn i f s) ! j = (if j = i then f (turns s ! i) else turns s ! j)"
  by (auto simp: update_turn_def nth_list_update is_current_def fun_eq_iff)

lemma valid_turn_update [simp]: "valid_turn (update_turn i f s) = valid_turn s"
  by (auto simp: valid_turn_def fun_eq_iff split: option.split)

lemma grants_ok_quiet:
  assumes "grants_ok build env s evs" "session_granted s' = session_granted s" "length (turns s') = length (turns s)"
    "\<And>i. i < length (turns s) \<Longrightarrow> turn_granted (turns s' ! i) = turn_granted (turns s ! i)"
    "\<And>ev. ev \<in> set evs' \<Longrightarrow> (\<exists>c r. ev = Replied c r)"
  shows "grants_ok build env s' (evs @ evs')"
proof -
  have "recorded_profiles build env k evs' = []" for k
    using assms(5) by (fastforce simp: recorded_profiles_def recorded_profile_def split: grant_event.split)
  with assms(1-4) show ?thesis by (simp add: grants_ok_def)
qed

text \<open>
  What a step must do for the requests: the ones that stay open are not closed by the action, and a new one
  is the one the action makes; a turn that is current after the step was so before.
\<close>

definition keeps_current :: "grant_action \<Rightarrow> grant_state \<Rightarrow> grant_state \<Rightarrow> bool" where
  "keeps_current a s s' \<longleftrightarrow> length (turns s) \<le> length (turns s') \<and>
     (\<forall>t. valid_turn s t \<longrightarrow> is_current s' t \<longrightarrow> is_current s t \<and> \<not> ends_turn a)"

lemma keeps_currentI:
  "active_turn s' = active_turn s \<Longrightarrow> length (turns s') = length (turns s) \<Longrightarrow> \<not> ends_turn a \<Longrightarrow> keeps_current a s s'"
  by (simp add: keeps_current_def is_current_def)

lemma keeps_current_valid: "keeps_current a s s' \<Longrightarrow> valid_turn s t \<Longrightarrow> valid_turn s' t"
  by (auto simp: keeps_current_def valid_turn_def split: option.splits)

lemma requests_ok_step:
  assumes ok: "requests_ok env acts s" and cur: "keeps_current a s s'"
    and "valid_turn s' (active_turn s')" "next_review s' = review_count env (acts @ [a])"
    and pend: "\<And>i call pd. active_turn s' = Some i \<Longrightarrow> pending_requests (turns s' ! i) call = Some pd \<Longrightarrow>
      active_turn s = Some i \<and> pending_requests (turns s ! i) call = Some pd \<and> \<not> closes_request env call a \<or>
      routed env a = Some (False, call, pending_permissions pd, pending_cwd pd)"
    and rev: "\<And>rid r. reviews s' rid = Some r \<Longrightarrow>
      reviews s rid = Some r \<and> \<not> closes_review rid a \<or>
      valid_turn s' (review_turn r) \<and> rid = next_review s \<and>
        (\<exists>call. routed env a = Some (True, call, review_permissions r, review_cwd r))"
  shows "requests_ok env (acts @ [a]) s'"
  unfolding requests_ok_def
proof (intro conjI allI impI)
  show "open_request env (acts @ [a]) call (pending_permissions pd) (pending_cwd pd)"
    if "active_turn s' = Some i" "pending_requests (turns s' ! i) call = Some pd" for i call pd
    using pend [OF that] ok open_request_append open_new(1) unfolding requests_ok_def by metis
  fix rid r
  assume r: "reviews s' rid = Some r"
  show "valid_turn s' (review_turn r)"
    using rev [OF r] ok keeps_current_valid [OF cur] unfolding requests_ok_def by blast
  show "open_review env (acts @ [a]) (is_current s' (review_turn r)) rid (review_permissions r) (review_cwd r)"
  proof (cases "reviews s rid = Some r \<and> \<not> closes_review rid a")
    case True
    with ok have "valid_turn s (review_turn r)"
        "open_review env acts (is_current s (review_turn r)) rid (review_permissions r) (review_cwd r)"
      by (auto simp: requests_ok_def)
    with True cur show ?thesis by (intro open_review_append) (auto simp: keeps_current_def)
  next
    case False
    with rev [OF r] ok open_new(2) show ?thesis unfolding requests_ok_def by metis
  qed
qed (use assms in auto)

lemma event_ok_mono:
  assumes "event_ok env acts s ev" "keeps_current a s s'"
  shows "event_ok env (acts @ [a]) s' ev"
proof (cases ev)
  case (Recorded p cwd r t)
  with assms(1) have e: "answered env acts (is_current s t) p cwd r" "valid_turn s t" by (auto simp: event_ok_def)
  have "answered env (acts @ [a]) (is_current s' t) p cwd r"
    by (rule answered_append [OF e(1)]) (use assms(2) e(2) in \<open>simp add: keeps_current_def\<close>)
  with keeps_current_valid [OF assms(2) e(2)] show ?thesis by (simp add: event_ok_def Recorded)
qed (simp add: event_ok_def)

lemma settle_keeps_inv:
  assumes "grant_inv build env acts s evs" "requests_ok env (acts @ [a]) s1" "grants_ok build env s1 evs"
    "length (turns s1) = length (turns s)" "active_turn s1 = active_turn s" "\<not> ends_turn a"
    "settle_request build env call p cwd r t s1 = (s', evs')"
    "answered env (acts @ [a]) (is_current s t) p cwd r" "valid_turn s t"
  shows "grant_inv build env (acts @ [a]) s' (evs @ evs')"
proof -
  note l = settle_requests_ok [OF assms(2,7)]
  have cur: "keeps_current a s s'" by (rule keeps_currentI) (simp_all add: l assms(4-6))
  have "is_current s' t = is_current s t" by (simp add: is_current_def l assms(5))
  then have "\<forall>ev \<in> set evs'. event_ok env (acts @ [a]) s' ev"
    using assms(7,8) keeps_current_valid [OF cur assms(9)] by (auto simp: settle_request_def Let_def event_ok_def)
  moreover have "\<forall>ev \<in> set evs. event_ok env (acts @ [a]) s' ev"
    using assms(1) event_ok_mono [OF _ cur] by (auto simp: grant_inv_def)
  ultimately show ?thesis using settle_grants_ok [OF assms(3,7)] l(1) by (auto simp: grant_inv_def)
qed

lemma quiet_keeps_inv:
  assumes "grant_inv build env acts s evs" "keeps_current a s s'"
    "requests_ok env (acts @ [a]) s'" "grants_ok build env s' (evs @ evs')"
    "\<And>ev. ev \<in> set evs' \<Longrightarrow> (\<exists>c r. ev = Replied c r)"
  shows "grant_inv build env (acts @ [a]) s' (evs @ evs')"
  using assms(1,3-5) event_ok_mono [OF _ assms(2)] by (fastforce simp: grant_inv_def event_ok_def)

text \<open>A step that settles nothing leaves the grants alone; one that closes no open request need not change the state.\<close>

lemma idle_action:
  assumes inv: "grant_inv build env acts s evs" and "routed env a = None \<or> active_turn s = None \<and> (\<exists>x. routed env a = Some (False, x))"
    and "\<not> ends_turn a \<or> active_turn s = None"
    and "\<And>i call pd. active_turn s = Some i \<Longrightarrow> pending_requests (turns s ! i) call = Some pd \<Longrightarrow> \<not> closes_request env call a"
    and "\<And>rid r. reviews s rid = Some r \<Longrightarrow> \<not> closes_review rid a"
    and ev: "\<And>ev. ev \<in> set evs' \<Longrightarrow> (\<exists>c r. ev = Replied c r)"
  shows "grant_inv build env (acts @ [a]) s (evs @ evs')"
proof (rule quiet_keeps_inv [OF inv _ _ _ ev])
  show cur: "keeps_current a s s" using assms(3) by (auto simp: keeps_current_def is_current_def)
  have ok: "requests_ok env acts s" "grants_ok build env s evs" using inv by (auto simp: grant_inv_def)
  show "requests_ok env (acts @ [a]) s"
    by (rule requests_ok_step [OF ok(1) cur]) (use assms(2,4,5) ok(1) in \<open>auto simp: requests_ok_def split: option.split\<close>)
  show "grants_ok build env s (evs @ evs')" by (rule grants_ok_quiet [OF ok(2)]) (simp_all add: ev)
qed

lemma start_turn_inv:
  assumes inv: "grant_inv build env acts s evs"
  shows "grant_inv build env (acts @ [StartTurn]) (start_turn s) (evs @ [])"
proof (cases "active_turn s")
  case None
  have cur: "keeps_current StartTurn s (start_turn s)"
    by (auto simp: keeps_current_def is_current_def start_turn_def None valid_turn_def)
  show ?thesis
  proof (rule quiet_keeps_inv [OF inv cur])
    have ok: "requests_ok env acts s" using inv by (simp add: grant_inv_def)
    show "requests_ok env (acts @ [StartTurn]) (start_turn s)"
      by (rule requests_ok_step [OF ok cur])
        (use ok in \<open>auto simp: None start_turn_def valid_turn_def requests_ok_def new_turn_grants_def\<close>)
    have "\<And>ev. ev \<in> set evs \<Longrightarrow> recorded_profile build env (Some (length (turns s))) ev = []"
      using assms by (fastforce simp: grant_inv_def event_ok_def valid_turn_def recorded_profile_def Let_def
          split: grant_event.splits option.splits grant_scope.splits)
    then have "recorded_profiles build env (Some (length (turns s))) evs = []" by (simp add: recorded_profiles_def)
    with assms show "grants_ok build env (start_turn s) (evs @ [])"
      by (auto simp: None grant_inv_def grants_ok_def start_turn_def nth_append less_Suc_eq built_from_Nil new_turn_grants_def)
  qed simp
next
  case (Some i)
  have "grant_inv build env (acts @ [StartTurn]) s (evs @ [])" by (rule idle_action [OF inv]) simp_all
  then show ?thesis by (simp add: start_turn_def Some)
qed

lemma finish_turn_inv:
  assumes inv: "grant_inv build env acts s evs"
  shows "grant_inv build env (acts @ [FinishTurn]) (finish_turn s) (evs @ [])"
proof (rule quiet_keeps_inv [OF inv])
  show cur: "keeps_current FinishTurn s (finish_turn s)" by (auto simp: keeps_current_def is_current_def finish_turn_def)
  have ok: "requests_ok env acts s" using inv by (simp add: grant_inv_def)
  show "requests_ok env (acts @ [FinishTurn]) (finish_turn s)"
    by (rule requests_ok_step [OF ok cur]) (use ok in \<open>auto simp: finish_turn_def valid_turn_def requests_ok_def\<close>)
  show "grants_ok build env (finish_turn s) (evs @ [])"
    by (rule grants_ok_quiet [of build env s]) (use inv in \<open>auto simp: grant_inv_def finish_turn_def\<close>)
qed simp

lemma abort_turn_inv:
  assumes inv: "grant_inv build env acts s evs"
  shows "grant_inv build env (acts @ [AbortTurn]) (abort_turn s) (evs @ [])"
proof (cases "active_turn s")
  case None
  have "grant_inv build env (acts @ [AbortTurn]) s (evs @ [])" by (rule idle_action [OF inv]) (simp_all add: None)
  then show ?thesis by (simp add: abort_turn_def None)
next
  case (Some i)
  show ?thesis
  proof (rule quiet_keeps_inv [OF inv])
    show cur: "keeps_current AbortTurn s (abort_turn s)"
      by (auto simp: keeps_current_def is_current_def abort_turn_def Some)
    have ok: "requests_ok env acts s" using inv by (simp add: grant_inv_def)
    show "requests_ok env (acts @ [AbortTurn]) (abort_turn s)"
      by (rule requests_ok_step [OF ok cur])
        (use ok in \<open>auto simp: abort_turn_def Some valid_turn_def requests_ok_def\<close>)
    show "grants_ok build env (abort_turn s) (evs @ [])"
      by (rule grants_ok_quiet [of build env s]) (use inv in \<open>auto simp: grant_inv_def abort_turn_def Some clear_pending_def\<close>)
  qed simp
qed

lemma request_inv:
  assumes inv: "grant_inv build env acts s evs"
    and r: "handle_request_permissions env tc call p0 cwd s = Inr (s', evs')"
  shows "grant_inv build env (acts @ [RequestPermissions tc call p0 cwd]) s' (evs @ evs')"
proof -
  let ?a = "RequestPermissions tc call p0 cwd"
  have ok: "requests_ok env acts s" "grants_ok build env s evs"
    using inv by (auto simp: grant_inv_def)
  from r obtain p where p: "normalize_additional_permissions env p0 = Inr p" "\<not> add_perms_empty p"
    and q: "request_permissions_for_cwd tc call p cwd s = (s', evs')"
    by (auto simp: handle_request_permissions_def split: sum.splits if_splits)
  have routed: "routed env ?a = (if auto_denied (turn_policy tc) then None
      else Some (routes_approval_to_guardian tc, call, p, cwd))"
    using p by (simp add: routed_def)
  consider (deny) "auto_denied (turn_policy tc)" "s' = s" "evs' = [Replied call (Some no_grant)]"
    | (review) "routed env ?a = Some (True, call, p, cwd)" "evs' = []"
        "s' = s\<lparr>reviews := (reviews s)(next_review s \<mapsto> \<lparr>review_call = call, review_turn = active_turn s,
          review_permissions = p, review_cwd = cwd\<rparr>), next_review := next_review s + 1\<rparr>"
    | (idle) "routed env ?a = Some (False, call, p, cwd)" "active_turn s = None" "s' = s" "evs' = [Replied call None]"
    | (ask) i where "routed env ?a = Some (False, call, p, cwd)" "active_turn s = Some i"
        "s' = update_turn i (\<lambda>_. (turns s ! i)\<lparr>pending_requests :=
           (pending_requests (turns s ! i))(call \<mapsto> \<lparr>pending_permissions = p, pending_cwd = cwd\<rparr>)\<rparr>) s"
        "evs' = [] \<or> evs' = [Replied call None]"
    using q routed by (auto simp: request_permissions_for_cwd_def insert_pending_request_def split: if_splits option.splits)
  then show ?thesis
  proof cases
    case deny
    then show ?thesis using routed unfolding deny(2) by (intro idle_action [OF inv]) auto
  next
    case idle
    then show ?thesis unfolding idle(3) by (intro idle_action [OF inv]) auto
  next
    case review
    show ?thesis
    proof (rule quiet_keeps_inv [OF inv])
      show cur: "keeps_current ?a s s'" by (rule keeps_currentI) (simp_all add: review(3))
      have v: "valid_turn s' = valid_turn s" by (simp add: review(3) fun_eq_iff)
      show "requests_ok env (acts @ [?a]) s'"
      proof (rule requests_ok_step [OF ok(1) cur])
        show "valid_turn s' (active_turn s')" using ok(1) by (simp add: v requests_ok_def) (simp add: review(3))
        show "next_review s' = review_count env (acts @ [?a])" using ok(1) review by (simp add: requests_ok_def)
      next
        fix rid g assume "reviews s' rid = Some g"
        then show "reviews s rid = Some g \<and> \<not> closes_review rid ?a \<or> valid_turn s' (review_turn g) \<and> rid = next_review s \<and>
            (\<exists>call. routed env ?a = Some (True, call, review_permissions g, review_cwd g))"
          using ok(1) review(1) by (auto simp: v review(3) requests_ok_def split: if_splits)
      qed (simp add: review(1,3))
      show "grants_ok build env s' (evs @ evs')"
        by (rule grants_ok_quiet [OF ok(2)]) (simp_all add: review(2,3))
    qed (simp add: review(2))
  next
    case (ask i)
    have i: "i < length (turns s)" using ok(1) ask(2) by (simp add: requests_ok_def valid_turn_def)
    show ?thesis
    proof (rule quiet_keeps_inv [OF inv])
      show cur: "keeps_current ?a s s'" by (rule keeps_currentI) (simp_all add: ask(3))
      show "requests_ok env (acts @ [?a]) s'"
        by (rule requests_ok_step [OF ok(1) cur])
          (use ok(1) i ask(1,2) in \<open>auto simp: ask(3) requests_ok_def split: if_splits\<close>)
      show "grants_ok build env s' (evs @ evs')"
        by (rule grants_ok_quiet [OF ok(2)]) (use ask(3,4) in auto)
    qed (use ask(4) in auto)
  qed
qed

lemma decide_inv:
  assumes inv: "grant_inv build env acts s evs" and d: "guardian_decides build env rid d s = (s', evs')"
  shows "grant_inv build env (acts @ [GuardianDecides rid d]) s' (evs @ evs')"
proof (cases "reviews s rid")
  case None
  then have s': "s' = s" "evs' = []" using d by (auto simp: guardian_decides_def)
  show ?thesis unfolding s' by (rule idle_action [OF inv]) (use None in auto)
next
  case (Some r)
  let ?s = "s\<lparr>reviews := (reviews s)(rid := None)\<rparr>"
  have ok: "requests_ok env acts s" using inv by (simp add: grant_inv_def)
  have a: "open_review env acts (is_current s (review_turn r)) rid (review_permissions r) (review_cwd r)"
      "valid_turn s (review_turn r)"
    using ok Some by (auto simp: requests_ok_def)
  have cur: "keeps_current (GuardianDecides rid d) s ?s" by (rule keeps_currentI) simp_all
  have "requests_ok env (acts @ [GuardianDecides rid d]) ?s"
    by (rule requests_ok_step [OF ok cur]) (use ok in \<open>auto simp: requests_ok_def split: if_splits\<close>)
  moreover have "grants_ok build env ?s evs" using inv by (auto simp: grant_inv_def grants_ok_def)
  ultimately show ?thesis
    using d a answer_review [OF a(1), of d]
    by (intro settle_keeps_inv [OF inv, of _ ?s]) (auto simp: guardian_decides_def Some)
qed

lemma respond_inv:
  assumes inv: "grant_inv build env acts s evs" and d: "notify_request_permissions_response build env call r s = (s', evs')"
  shows "grant_inv build env (acts @ [Respond call r]) s' (evs @ evs')"
proof (cases "active_turn s")
  case None
  then have s': "s' = s" "evs' = []" using d by (auto simp: notify_request_permissions_response_def)
  show ?thesis unfolding s' by (rule idle_action [OF inv]) (use None in auto)
next
  case (Some i)
  let ?s = "update_turn i (\<lambda>_. fst (remove_pending_request call (turns s ! i))) s"
  have ok0: "requests_ok env acts s" using inv by (simp add: grant_inv_def)
  have i: "i < length (turns s)" using ok0 Some by (simp add: requests_ok_def valid_turn_def)
  have cur: "keeps_current (Respond call r) s ?s" by (rule keeps_currentI) simp_all
  have ok: "requests_ok env (acts @ [Respond call r]) ?s"
    by (rule requests_ok_step [OF ok0 cur])
      (use ok0 i Some in \<open>auto simp: requests_ok_def remove_pending_request_def split: if_splits\<close>)
  have g: "grants_ok build env ?s (evs @ [])"
    by (rule grants_ok_quiet [of build env s]) (use inv in \<open>auto simp: grant_inv_def remove_pending_request_def\<close>)
  show ?thesis
  proof (cases "pending_requests (turns s ! i) call")
    case None
    then have "s' = ?s" "evs' = []" using d by (auto simp: notify_request_permissions_response_def Some remove_pending_request_def)
    with ok g cur show ?thesis by (intro quiet_keeps_inv [OF inv]) auto
  next
    case pd: (Some pd)
    then have "open_request env acts call (pending_permissions pd) (pending_cwd pd)"
      using ok0 Some by (auto simp: requests_ok_def)
    note answered = answer_request [OF this]
    moreover have "settle_request build env call (pending_permissions pd) (pending_cwd pd) r (Some i) ?s = (s', evs')"
      using d pd by (auto simp: notify_request_permissions_response_def Some remove_pending_request_def)
    moreover have "valid_turn s (Some i)" using i by (simp add: valid_turn_def)
    ultimately show ?thesis using ok g by (intro settle_keeps_inv [OF inv, of _ ?s]) auto
  qed
qed

lemma cancel_inv:
  assumes inv: "grant_inv build env acts s evs"
  shows "cancel_review rid s = (s', evs') \<Longrightarrow> grant_inv build env (acts @ [CancelReview rid]) s' (evs @ evs')"
    and "cancel_request call s = (s', evs') \<Longrightarrow> grant_inv build env (acts @ [CancelRequest call]) s' (evs @ evs')"
proof -
  have ok: "requests_ok env acts s" "grants_ok build env s evs"
    using inv by (auto simp: grant_inv_def)
  show "grant_inv build env (acts @ [CancelReview rid]) s' (evs @ evs')" if c: "cancel_review rid s = (s', evs')"
  proof (rule quiet_keeps_inv [OF inv])
    show cur: "keeps_current (CancelReview rid) s s'"
      by (rule keeps_currentI) (use c in \<open>auto simp: cancel_review_def split: option.splits\<close>)
    show "requests_ok env (acts @ [CancelReview rid]) s'"
      by (rule requests_ok_step [OF ok(1) cur])
        (use ok(1) c in \<open>auto simp: cancel_review_def requests_ok_def split: option.splits if_splits\<close>)
    show "grants_ok build env s' (evs @ evs')"
      by (rule grants_ok_quiet [OF ok(2)]) (use c in \<open>auto simp: cancel_review_def split: option.splits\<close>)
  qed (use c in \<open>auto simp: cancel_review_def split: option.splits\<close>)
  show "grant_inv build env (acts @ [CancelRequest call]) s' (evs @ evs')" if c: "cancel_request call s = (s', evs')"
  proof (rule quiet_keeps_inv [OF inv])
    show cur: "keeps_current (CancelRequest call) s s'"
      by (rule keeps_currentI) (use c in \<open>auto simp: cancel_request_def split: option.splits\<close>)
    have "i < length (turns s)" if "active_turn s = Some i" for i
      using ok(1) that by (simp add: requests_ok_def valid_turn_def)
    then show "requests_ok env (acts @ [CancelRequest call]) s'"
      by (intro requests_ok_step [OF ok(1) cur])
        (use ok(1) c in \<open>auto simp: cancel_request_def requests_ok_def remove_pending_request_def
           split: option.splits if_splits\<close>)
    show "grants_ok build env s' (evs @ evs')"
      by (rule grants_ok_quiet [OF ok(2)])
        (use c in \<open>auto simp: cancel_request_def remove_pending_request_def split: option.splits\<close>)
  qed (use c in \<open>auto simp: cancel_request_def split: option.splits\<close>)
qed

lemma perform_inv:
  assumes inv: "grant_inv build env acts s evs" and a: "perform_grant build env a s = (s', evs')"
  shows "grant_inv build env (acts @ [a]) s' (evs @ evs')"
proof (cases a)
  case (RequestPermissions tc call p cwd)
  show ?thesis
  proof (cases "handle_request_permissions env tc call p cwd s")
    case (Inl e)
    then have "routed env a = None"
      by (auto simp: RequestPermissions handle_request_permissions_def routed_def split: sum.splits if_splits)
    then have "grant_inv build env (acts @ [a]) s (evs @ [])"
      by (intro idle_action [OF inv]) (auto simp: RequestPermissions)
    with a Inl show ?thesis by (simp add: RequestPermissions)
  next
    case (Inr r)
    with a RequestPermissions request_inv [OF inv] show ?thesis by (cases r) auto
  qed
qed (use a start_turn_inv [OF inv] abort_turn_inv [OF inv] finish_turn_inv [OF inv] decide_inv [OF inv]
    respond_inv [OF inv] cancel_inv [OF inv] in auto)

lemma run_grants_inv:
  "grant_inv build env acts s evs \<Longrightarrow> run_grants build env as (s, evs) = (s', evs') \<Longrightarrow>
    grant_inv build env (acts @ as) s' evs'"
proof (induction as arbitrary: acts s evs)
  case (Cons a as)
  obtain s1 evs1 where 1: "perform_grant build env a s = (s1, evs1)" by fastforce
  with Cons.IH [OF perform_inv [OF Cons.prems(1) 1]] Cons.prems(2) show ?case by simp
qed simp

lemma init_grants_inv: "grant_inv build env [] init_grants []"
  by (simp add: grant_inv_def requests_ok_def grants_ok_def init_grants_def valid_turn_def built_from_Nil)

end
