(* ===== verification/Granted_Access.thy ===== *)
theory Granted_Access
  imports Permission_Grants
begin

text \<open>
  What the permissions granted in a session allow: a path that a command may read beyond the base policy
  was asked for and granted, and a call whose permissions count as already granted does no more than the
  grants allow.
\<close>

section \<open>What granted permissions let a command read\<close>

definition rootless :: "sandbox_entry list \<Rightarrow> bool" where
  "rootless es \<longleftrightarrow> (\<forall>e \<in> set es. \<forall>s. entry_path e \<noteq> Special (ProjectRoots s))"

lemma intersect_rootless: "rootless (perm_entries (intersect_file_system build env rf gf cwd))"
proof (rule intersect_stages [of env rf build gf cwd])
  fix r1 o1 r2
  let ?acc = "accepted_entries build env rf gf cwd"
  assume 1: "retain_constraining_deny_entries env (perm_entries rf) ?acc cwd ?acc = (r1, o1)"
    and 2: "retain_constraining_deny_entries env (perm_entries gf) ?acc cwd o1 =
      (r2, perm_entries (intersect_file_system build env rf gf cwd))"
  have "x \<in> set ?acc \<Longrightarrow> \<exists>e. x = materialize_cwd_dependent_entry env e cwd" for x
    using accepted_from [of x "\<lambda>e. materialize_cwd_dependent_entry env e cwd" "[]"]
    by (fastforce simp: accepted_entries_def Let_def)
  then have "\<exists>e. x = materialize_cwd_dependent_entry env e cwd"
    if "x \<in> set (perm_entries (intersect_file_system build env rf gf cwd))" for x
    using that retain_steps [OF 1 [unfolded retain_constraining_deny_entries_def]]
      retain_steps [OF 2 [unfolded retain_constraining_deny_entries_def]] by blast
  then show ?thesis using materialize_no_roots by (fastforce simp: rootless_def)
qed

lemma rootless_resolve:
  "rootless es \<Longrightarrow> e \<in> set es \<Longrightarrow> is_absolute cwd \<Longrightarrow> is_absolute cwd' \<Longrightarrow>
    resolve_permission_path env (entry_path e) cwd = resolve_permission_path env (entry_path e) cwd'"
  by (auto simp: rootless_def resolve_permission_path_def split: file_system_path.split special_path.split)

lemma rootless_reads:
  assumes "rootless es" "is_absolute cwd" "is_absolute cwd'" "is_normal_path q"
  shows "can_read_path_with_cwd env (restricted es) q cwd \<longleftrightarrow> can_read_path_with_cwd env (restricted es) q cwd'"
proof -
  have k: "policy_kind (restricted es) = Restricted" by (simp add: restricted_def)
  have R: "set (resolved_entries_with_cwd env (restricted es) cwd) = set (resolved_entries_with_cwd env (restricted es) cwd')"
    using rootless_resolve [OF assms(1) _ assms(2,3)]
    by (auto simp: resolved_restricted assms(2,3))
  show ?thesis unfolding can_read_iff [OF k] R resolve_candidate_id [OF assms(4)] by (rule refl)
qed

text \<open>A deny entry that compares equal to one of another list covers the same paths.\<close>

lemma keeps_deny:
  assumes "keeps es ds" "rootless ds" "is_absolute cwd"
    and "d \<in> set (resolved_entries_with_cwd env (restricted ds) cwd)"
  obtains e where "e \<in> set (resolved_entries_with_cwd env (restricted es) cwd)"
    "resolved_access e = resolved_access d" "depth e = depth d" "\<And>t. covers e t = covers d t"
proof -
  from assms(4) obtain x where x: "x \<in> set ds" "resolve_permission_path env (entry_path x) cwd = Some (resolved_path d)"
      "entry_access x = resolved_access d"
    by (auto simp: resolved_restricted [OF assms(3)])
  with assms(1) obtain y where y: "y \<in> set es" "entry_eq y x" by (auto simp: keeps_def)
  obtain p where p: "resolve_permission_path env (entry_path y) cwd = Some p" "components p = components (resolved_path d)"
      "entry_access y = entry_access x"
    using entry_eq_resolve [OF y(2) _ x(2)] assms(2) x(1) by (auto simp: rootless_def)
  let ?e = "\<lparr>resolved_path = p, resolved_access = resolved_access d\<rparr>"
  show thesis
  proof
    show "?e \<in> set (resolved_entries_with_cwd env (restricted es) cwd)"
      using y(1) p x(3) by (auto simp: resolved_restricted [OF assms(3)])
  qed (use covers_cong [of ?e d] p(2) in \<open>simp_all add: depth_def\<close>)
qed

text \<open>What a union of profiles lets be read, one of them does.\<close>

definition profile_reads :: "os_env \<Rightarrow> additional_permission_profile \<Rightarrow> str \<Rightarrow> str \<Rightarrow> bool" where
  "profile_reads env a q cwd \<longleftrightarrow> can_read_path_with_cwd env (restricted (entries_of (Some a))) q cwd"

lemma union_reads:
  assumes "built_from ps g" "\<forall>p \<in> set ps. rootless (entries_of (Some p))" "is_absolute cwd"
    and "can_read_path_with_cwd env (restricted (entries_of g)) q cwd"
  shows "\<exists>p \<in> set ps. profile_reads env p q cwd"
proof -
  let ?t = "resolve_candidate_path env q cwd"
  let ?R = "\<lambda>es. set (resolved_entries_with_cwd env (restricted es) cwd)"
  have k: "policy_kind (restricted es) = Restricted" for es by (simp add: restricted_def)
  from assms(4) obtain e where e: "e \<in> ?R (entries_of g)" "covers e ?t" "resolved_access e \<noteq> NoAccess"
    and max: "\<forall>d \<in> ?R (entries_of g). covers d ?t \<longrightarrow> resolved_access d = NoAccess \<longrightarrow> depth d < depth e"
    using can_read_iff [OF k] by blast
  from e(1) obtain x where x: "x \<in> set (entries_of g)" "resolve_permission_path env (entry_path x) cwd = Some (resolved_path e)"
      "entry_access x = resolved_access e"
    by (auto simp: resolved_restricted [OF assms(3)])
  with assms(1) obtain p where p: "p \<in> set ps" "x \<in> set (entries_of (Some p))" by (auto simp: built_from_def)
  have keep: "keeps (entries_of g) (entries_of (Some p))" using assms(1) p(1) by (auto simp: built_from_def)
  have "e \<in> ?R (entries_of (Some p))" using p(2) x by (auto simp: resolved_restricted [OF assms(3)])
  moreover have "depth d < depth e"
    if d: "d \<in> ?R (entries_of (Some p))" "covers d ?t" "resolved_access d = NoAccess" for d
  proof -
    from keeps_deny [OF keep _ assms(3) d(1)] assms(2) p(1) obtain d' where "d' \<in> ?R (entries_of g)"
        "resolved_access d' = NoAccess" "depth d' = depth d" "covers d' ?t"
      using d(2,3) by metis
    with max show ?thesis by auto
  qed
  ultimately show ?thesis using p(1) e(2,3) unfolding profile_reads_def can_read_iff [OF k] by blast
qed

text \<open>A recorded answer lets nothing be read that was not both asked for and answered.\<close>

definition normal_profile :: "additional_permission_profile \<Rightarrow> bool" where
  "normal_profile a \<longleftrightarrow> (\<forall>e \<in> set (entries_of (Some a)). \<forall>s. entry_path e = Path s \<longrightarrow> is_normal_path s)"

lemma no_entries_no_reads: "entries_of (Some a) = [] \<Longrightarrow> \<not> profile_reads env a q cwd"
  by (simp add: profile_reads_def can_read_path_with_cwd_def resolve_access_none restricted_def
      resolved_entries_with_cwd_def List.map_filter_def can_read_def)

lemma retain_nothing: "foldl (retain_step env [] cwd) st ds = st"
  by (induction ds) (auto simp: retain_step_def deny_entry_constrains_accepted_grant_def split: prod.split)

lemma normalized_cases:
  fixes p r build env cwd
  defines "r' \<equiv> normalize_request_permissions_response build env p r cwd"
  obtains "entries_of (Some (response_permissions r')) = []" "\<not> network_on (Some (response_permissions r'))"
    | rf gf where "add_file_system p = Some rf" "add_file_system (response_permissions r) = Some gf"
      "entries_of (Some (response_permissions r')) = perm_entries (intersect_file_system build env rf gf cwd)"
      "network_on (Some (response_permissions r')) \<longleftrightarrow> network_on (Some p) \<and> network_on (Some (response_permissions r))"
    | "entries_of (Some (response_permissions r')) = []"
      "network_on (Some (response_permissions r')) \<longleftrightarrow> network_on (Some p) \<and> network_on (Some (response_permissions r))"
proof -
  let ?a = "response_permissions r"
  consider "response_permissions r' = empty_profile" | "add_perms_empty ?a" "response_permissions r' = ?a"
    | "response_permissions r' = intersect_permission_profiles build env p ?a cwd"
    by (cases "response_strict r \<and> response_scope r = ScopeSession"; cases "add_perms_empty ?a")
      (simp_all add: r'_def normalize_request_permissions_response_def no_grant_def)
  then show thesis
  proof cases
    case 3
    have n: "network_on (Some (response_permissions r')) \<longleftrightarrow> network_on (Some p) \<and> network_on (Some ?a)"
      by (simp add: 3 intersect_permission_profiles_def network_on_def enabled_network_def enables_def)
    have e: "entries_of (Some (response_permissions r')) =
        (case add_file_system p of None \<Rightarrow> [] | Some rf \<Rightarrow> perm_entries (intersect_file_system build env rf
           (case add_file_system ?a of Some gf \<Rightarrow> gf | None \<Rightarrow> default_permissions) cwd))"
      by (simp add: 3 intersect_permission_profiles_def option_filter_fs) (simp add: entries_of_def split: option.split)
    have d: "perm_entries (intersect_file_system build env rf default_permissions cwd) = []" for rf
      by (simp add: intersect_file_system_def accepted_entries_def default_permissions_def
          retain_constraining_deny_entries_def retain_nothing)
    show thesis
    proof (cases "add_file_system p")
      case None
      with e n that(3) show thesis by simp
    next
      case (Some rf)
      with e n d that(2,3) show thesis by (cases "add_file_system ?a") auto
    qed
  qed (use that(1) in \<open>auto simp: empty_profile_def add_perms_empty_def entries_of_def network_on_def enables_def\<close>)
qed


lemma normalized_rootless:
  "rootless (entries_of (Some (response_permissions (normalize_request_permissions_response build env p r cwd))))"
  by (rule normalized_cases [of build env p r cwd]) (simp_all add: intersect_rootless, simp_all add: rootless_def)

lemma normalized_reads:
  assumes "profile_reads env (response_permissions (normalize_request_permissions_response build env p r acwd)) q cwd"
    and "is_absolute cwd" "is_absolute acwd" "is_absolute (current_dir env)" "is_normal_path q"
    and "normal_profile (response_permissions r)"
  shows "profile_reads env p q acwd \<and> profile_reads env (response_permissions r) q acwd"
proof (rule normalized_cases [of build env p r acwd])
  fix rf gf
  assume e: "add_file_system p = Some rf" "add_file_system (response_permissions r) = Some gf"
    and i: "entries_of (Some (response_permissions (normalize_request_permissions_response build env p r acwd))) =
      perm_entries (intersect_file_system build env rf gf acwd)"
  have n: "\<forall>g \<in> set (perm_entries gf). \<forall>s. entry_path g = Path s \<longrightarrow> is_normal_path s"
    using assms(6) e(2) by (simp add: normal_profile_def entries_of_def)
  have "can_read_path_with_cwd env (restricted (perm_entries (intersect_file_system build env rf gf acwd))) q acwd"
    using assms(1) rootless_reads [OF intersect_rootless assms(2,3,5)] by (simp add: profile_reads_def i)
  from intersect_reads [OF assms(3,4) n this] show ?thesis by (simp add: profile_reads_def entries_of_def e)
qed (use assms(1) no_entries_no_reads in blast)+

lemma normalized_network:
  "network_on (Some (response_permissions (normalize_request_permissions_response build env p r cwd))) \<Longrightarrow>
    network_on (Some p) \<and> network_on (Some (response_permissions r))"
  by (rule normalized_cases [of build env p r cwd]) auto

lemma recorded_profilesD:
  assumes "a \<in> set (recorded_profiles build env k evs)"
  obtains p acwd r t where "Recorded p acwd r t \<in> set evs" "response_scope r = ScopeTurn \<longrightarrow> k \<noteq> None \<and> t = k"
    "a = response_permissions (normalize_request_permissions_response build env p r acwd)"
proof -
  from assms obtain ev where ev: "ev \<in> set evs" "a \<in> set (recorded_profile build env k ev)"
    by (auto simp: recorded_profiles_def)
  then obtain p acwd r t where r: "ev = Recorded p acwd r t"
      "a = response_permissions (normalize_request_permissions_response build env p r acwd)"
      "case response_scope (normalize_request_permissions_response build env p r acwd) of
         ScopeSession \<Rightarrow> k = None | ScopeTurn \<Rightarrow> k \<noteq> None \<and> t = k"
    by (cases ev) (auto simp: recorded_profile_def Let_def split: if_splits)
  have "response_scope r = ScopeTurn \<longrightarrow> k \<noteq> None \<and> t = k"
    using r(3) by (auto simp: normalize_request_permissions_response_def split: if_splits)
  with ev(1) r(1,2) that show thesis by blast
qed

text \<open>What the session and the active turn have granted is put together from the recorded answers.\<close>

lemma granted_from:
  assumes "grant_inv build env acts s evs"
  obtains ps where "built_from ps (merge_permission_profiles (session_granted s) (granted_turn_permissions s))"
    "\<And>a. a \<in> set ps \<Longrightarrow> \<exists>p acwd r. answered env acts (response_scope r = ScopeTurn) p acwd r \<and>
       a = response_permissions (normalize_request_permissions_response build env p r acwd)"
proof -
  let ?k = "active_turn s"
  have turn: "built_from (if ?k = None then [] else recorded_profiles build env ?k evs) (granted_turn_permissions s)"
  proof (cases "active_turn s")
    case None
    then show ?thesis by (simp add: granted_turn_permissions_def built_from_Nil)
  next
    case (Some i)
    with assms have "i < length (turns s)" by (simp add: grant_inv_def requests_ok_def valid_turn_def)
    with assms Some show ?thesis by (simp add: granted_turn_permissions_def grant_inv_def grants_ok_def)
  qed
  have s: "built_from (recorded_profiles build env None evs) (session_granted s)"
    using assms by (simp add: grant_inv_def grants_ok_def)
  show thesis
  proof (rule that [OF built_from_union [OF s turn]])
    fix a
    assume "a \<in> set (recorded_profiles build env None evs @ (if ?k = None then [] else recorded_profiles build env ?k evs))"
    then have "a \<in> set (recorded_profiles build env None evs) \<or> a \<in> set (recorded_profiles build env ?k evs)"
      by (cases "?k = None") simp_all
    then obtain k where k: "k = None \<or> k = ?k" "a \<in> set (recorded_profiles build env k evs)" by blast
    from k(2) obtain p acwd r t where e: "Recorded p acwd r t \<in> set evs" "response_scope r = ScopeTurn \<longrightarrow> k \<noteq> None \<and> t = k"
        "a = response_permissions (normalize_request_permissions_response build env p r acwd)"
      by (rule recorded_profilesD)
    with assms have "event_ok env acts s (Recorded p acwd r t)" by (simp add: grant_inv_def)
    then have o: "answered env acts (is_current s t) p acwd r" by (simp add: event_ok_def)
    have "(response_scope r = ScopeTurn) \<longrightarrow> is_current s t"
      using k(1) e(2) unfolding is_current_def by blast
    from answered_weaken [OF o this] have "answered env acts (response_scope r = ScopeTurn) p acwd r" .
    with e(3) show "\<exists>p acwd r. answered env acts (response_scope r = ScopeTurn) p acwd r \<and>
       a = response_permissions (normalize_request_permissions_response build env p r acwd)"
      by blast
  qed
qed

text \<open>The policy of a command that asks for nothing itself reads what the base policy or the grants read.\<close>

lemma effective_reads:
  assumes "policy_kind p = Restricted" "is_absolute cwd" "rootless (entries_of g)"
    and "can_read_path_with_cwd env (effective_file_system_sandbox_policy p g) q cwd"
  shows "can_read_path_with_cwd env p q cwd \<or> can_read_path_with_cwd env (restricted (entries_of g)) q cwd"
proof (cases "Option.bind g add_file_system")
  case None
  with assms(4) show ?thesis by (cases g) (auto simp: effective_file_system_sandbox_policy_def)
next
  case (Some f)
  then obtain a where a: "g = Some a" "add_file_system a = Some f" by (cases g) auto
  let ?eff = "effective_file_system_sandbox_policy p (Some a)"
  obtain ds where k: "policy_kind ?eff = Restricted" and es: "policy_entries ?eff = policy_entries p @ ds"
    and ds: "set ds \<subseteq> set (perm_entries f)"
    and keep: "\<forall>d \<in> set (perm_entries f). \<exists>e \<in> set (policy_entries p @ ds). entry_eq e d"
    using effective_entries [OF assms(1) a(2)] by metis
  let ?t = "resolve_candidate_path env q cwd"
  let ?P = "set (resolved_entries_with_cwd env p cwd)" and ?F = "set (resolved_entries_with_cwd env (restricted (perm_entries f)) cwd)"
  have kf: "policy_kind (restricted (perm_entries f)) = Restricted" by (simp add: restricted_def)
  have f: "entries_of g = perm_entries f" by (simp add: a entries_of_def)
  have R: "set (resolved_entries_with_cwd env ?eff cwd) =
      set (resolved_entries_with_cwd env (restricted (policy_entries p @ ds)) cwd)"
    by (simp add: resolved_entries_with_cwd_def restricted_def es)
  from assms(4) obtain e where e: "e \<in> ?P \<union> ?F" "covers e ?t" "resolved_access e \<noteq> NoAccess"
    and max: "\<And>d. d \<in> set (resolved_entries_with_cwd env ?eff cwd) \<Longrightarrow> covers d ?t \<Longrightarrow> resolved_access d = NoAccess \<Longrightarrow> depth d < depth e"
    using resolved_subset [OF ds, of env cwd]
    unfolding a(1) can_read_iff [OF k] by (auto simp: resolved_entries_append [OF es])
  from e(1) show ?thesis
  proof
    assume "e \<in> ?P"
    with e max show ?thesis unfolding can_read_iff [OF assms(1)] by (auto simp: resolved_entries_append [OF es])
  next
    assume "e \<in> ?F"
    moreover have "depth d < depth e" if d: "d \<in> ?F" "covers d ?t" "resolved_access d = NoAccess" for d
    proof -
      have "keeps (policy_entries p @ ds) (perm_entries f)" using keep by (simp add: keeps_def)
      from keeps_deny [OF this _ assms(2) d(1)] assms(3) f d(2,3) max R show ?thesis by metis
    qed
    ultimately show ?thesis using e(2,3) unfolding f can_read_iff [OF kf] by blast
  qed
qed


text \<open>Normalised requests have normalised paths.\<close>

lemma normalize_entries_normal:
  assumes "normalize_entries env acc es = Inr es'" "is_absolute (current_dir env)"
    and "\<forall>e \<in> set acc. \<forall>s. entry_path e = Path s \<longrightarrow> is_normal_path s"
  shows "\<forall>e \<in> set es'. \<forall>s. entry_path e = Path s \<longrightarrow> is_normal_path s"
  using assms
proof (induction env acc es rule: normalize_entries.induct)
  case (2 env acc e es)
  let ?n = "entry (normalize_permission_path env (entry_path e)) (entry_access e)"
  have "entry_path ?n = Path s \<Longrightarrow> is_normal_path s" for s
    using 2(3) by (auto simp: normalize_permission_path_def entry_def env_absolute_normal split: file_system_path.splits)
  then have "\<forall>e \<in> set (push_missing acc ?n). \<forall>s. entry_path e = Path s \<longrightarrow> is_normal_path s"
    using 2(4) push_missing_set(2) [of acc ?n] by blast
  with 2 show ?case by (simp split: if_splits)
qed auto

lemma normalized_request_normal:
  assumes "normalize_additional_permissions env p0 = Inr p" "is_absolute (current_dir env)"
  shows "normal_profile p"
  using assms normalize_entries_normal [of env "[]"]
  by (force simp: normalize_additional_permissions_def normal_profile_def entries_of_def option_filter_def Let_def
      split: option.splits sum.splits if_splits)

definition well_typed_action :: "grant_action \<Rightarrow> bool" where
  "well_typed_action a \<longleftrightarrow>
     (case a of
        RequestPermissions _ _ _ cwd \<Rightarrow> is_absolute cwd
      | Respond _ r \<Rightarrow> normal_profile (response_permissions r)
      | _ \<Rightarrow> True)"

lemma answered_typed:
  assumes "answered env acts current p acwd r" "list_all well_typed_action acts" "is_absolute (current_dir env)"
  shows "is_absolute acwd" "normal_profile (response_permissions r)"
proof -
  obtain before request between answer after where a: "acts = before @ request # between @ answer # after"
    and r: "answers env before request between answer p acwd r"
    using assms(1) unfolding answered_def by blast
  obtain guardian call where "routed env request = Some (guardian, call, p, acwd)" using r by (auto simp: answers_def)
  then obtain tc p0 where q: "request = RequestPermissions tc call p0 acwd" "normalize_additional_permissions env p0 = Inr p"
    by (auto simp: routed_def split: grant_action.splits sum.splits if_splits)
  show "is_absolute acwd" using assms(2) by (simp add: a q well_typed_action_def)
  have e: "normal_profile (response_permissions no_grant)"
    by (simp add: normal_profile_def no_grant_def empty_profile_def entries_of_def)
  have "normal_profile (response_permissions (response_of_decision p d))" for d
    using normalized_request_normal [OF q(2) assms(3)] e by (cases d) (auto split: rule_action.split)
  with r assms(2) show "normal_profile (response_permissions r)"
    by (auto simp: a answers_def well_typed_action_def)
qed

lemma merge_none: "entries_of (merge_permission_profiles None g) = entries_of g"
    "network_on (merge_permission_profiles None g) = network_on g"
  by (cases g; simp add: merge_permission_profiles_def option_filter_empty)+

text \<open>
  C4: a path that a command asking for nothing itself may read under its effective policy, though the base
  policy denies it, was asked for by an earlier request of the session and granted by the answer to that
  very request: the user's to the open request of that call, or the guardian's to the review of that
  request.  A grant for the turn counts only in the turn in which it was asked for.  The network is on only
  if the base policy turns it on or such a request asked for it and such an answer granted it.
\<close>

theorem granted_reads_were_answered:
  assumes "is_absolute (current_dir env)" "is_absolute cwd" "is_normal_path q" "policy_kind p = Restricted"
    and "list_all well_typed_action acts" "run_grants build env acts (init_grants, []) = (s, evs)"
    and "apply_granted_turn_permissions build env s cwd UseDefault None = eff"
  shows "(can_read_path_with_cwd env (effective_file_system_sandbox_policy p (effective_permissions eff)) q cwd \<and>
      \<not> can_read_path_with_cwd env p q cwd \<longrightarrow>
      (\<exists>requested acwd r. answered env acts (response_scope r = ScopeTurn) requested acwd r \<and>
        profile_reads env requested q acwd \<and> profile_reads env (response_permissions r) q acwd)) \<and>
    (network_is_enabled (effective_network_sandbox_policy net (effective_permissions eff)) \<and>
      \<not> network_is_enabled net \<longrightarrow>
      (\<exists>requested acwd r. answered env acts (response_scope r = ScopeTurn) requested acwd r \<and>
        network_on (Some requested) \<and> network_on (Some (response_permissions r))))"
proof -
  let ?g = "merge_permission_profiles (session_granted s) (granted_turn_permissions s)"
  have inv: "grant_inv build env acts s evs"
    using run_grants_inv [OF init_grants_inv assms(6)] by simp
  obtain ps where b: "built_from ps ?g"
    and ps: "\<And>a. a \<in> set ps \<Longrightarrow> \<exists>p acwd r. answered env acts (response_scope r = ScopeTurn) p acwd r \<and>
       a = response_permissions (normalize_request_permissions_response build env p r acwd)"
    using granted_from [OF inv] by metis
  have eff: "effective_permissions eff = merge_permission_profiles None ?g"
    using assms(7) by (auto simp: apply_granted_turn_permissions_def Let_def)
  have rootless_ps: "\<forall>a \<in> set ps. rootless (entries_of (Some a))"
    using ps normalized_rootless by metis
  then have rootless: "rootless (entries_of ?g)" using b by (auto simp: built_from_def rootless_def)
  have reads: "\<exists>requested acwd r. answered env acts (response_scope r = ScopeTurn) requested acwd r \<and>
        profile_reads env requested q acwd \<and> profile_reads env (response_permissions r) q acwd"
    if "can_read_path_with_cwd env (effective_file_system_sandbox_policy p (effective_permissions eff)) q cwd"
      "\<not> can_read_path_with_cwd env p q cwd"
  proof -
    have "can_read_path_with_cwd env (restricted (entries_of ?g)) q cwd"
      using effective_reads [OF assms(4,2) _ that(1)] that(2) rootless unfolding eff merge_none by blast
    from union_reads [OF b rootless_ps assms(2) this] obtain a where a: "a \<in> set ps" "profile_reads env a q cwd" by blast
    from ps [OF a(1)] obtain rq acwd r where r: "answered env acts (response_scope r = ScopeTurn) rq acwd r"
        "a = response_permissions (normalize_request_permissions_response build env rq r acwd)" by blast
    note typed = answered_typed [OF r(1) assms(5,1)]
    from normalized_reads [OF a(2) [unfolded r(2)] assms(2) typed(1) assms(1,3) typed(2)] r(1) show ?thesis by blast
  qed
  have network: "\<exists>requested acwd r. answered env acts (response_scope r = ScopeTurn) requested acwd r \<and>
        network_on (Some requested) \<and> network_on (Some (response_permissions r))"
    if "network_is_enabled (effective_network_sandbox_policy net (effective_permissions eff))" "\<not> network_is_enabled net"
  proof -
    have "network_on (effective_permissions eff)"
      using that by (auto simp: effective_network_sandbox_policy_def merge_network_access_def network_on_def enables_def
          network_is_enabled_def split: option.splits bind_splits if_splits)
    then have "network_on ?g" by (simp add: eff merge_none)
    with b obtain a where a: "a \<in> set ps" "network_on (Some a)" by (auto simp: built_from_def)
    from ps [OF a(1)] obtain rq acwd r where "answered env acts (response_scope r = ScopeTurn) rq acwd r"
        "a = response_permissions (normalize_request_permissions_response build env rq r acwd)" by blast
    with normalized_network a(2) show ?thesis by blast
  qed
  from reads network show ?thesis by blast
qed


text \<open>In a first turn, the read of one directory is requested and granted as requested.\<close>

definition sample_turn_info :: turn_info where
  "sample_turn_info = \<lparr>turn_profile = profile_read_only, turn_policy = OnRequest, turn_auto_review = False\<rparr>"

definition sample_answer :: permissions_response where
  "sample_answer = \<lparr>response_permissions = sample_extra, response_scope = ScopeTurn, response_strict = False\<rparr>"

definition sample_acts :: "grant_action list" where
  "sample_acts = [StartTurn, RequestPermissions sample_turn_info (lit ''c'') sample_extra [slash], Respond (lit ''c'') sample_answer]"

definition sample_granted :: grant_state where
  "sample_granted = \<lparr>active_turn = Some 0,
     turns = [\<lparr>pending_requests = Map.empty, turn_granted = Some sample_extra, strict_enabled = False\<rparr>],
     session_granted = None, reviews = Map.empty, next_review = 0\<rparr>"

lemma sample_extra_normal: "normalize_additional_permissions sample_env sample_extra = Inr sample_extra"
proof -
  have "is_normal_path (abs_display [lit ''w'', lit ''s'', lit ''a''])" by (simp add: valid_name_lit)
  then show ?thesis
    by (simp add: normalize_additional_permissions_def sample_extra_def Let_def is_glob_def entry_def push_missing_def
        normalize_permission_path_def canonicalize_preserving_symlinks_def sample_env_def env_absolute_id
        option_filter_def fs_perms_empty_def)
qed

lemma sample_extra_intersection:
  "intersect_permission_profiles (\<lambda>_. None) sample_env sample_extra sample_extra [slash] = sample_extra"
proof -
  let ?a = "abs_display [lit ''w'', lit ''s'', lit ''a'']"
  let ?f = "\<lparr>perm_entries = [entry (Path ?a) Read], perm_glob_depth = None\<rparr>"
  have n: "is_normal_path ?a" by (simp add: valid_name_lit)
  have m: "new_read_deny_matcher (\<lambda>_. None) sample_env (restricted (perm_entries ?f)) [slash] = None"
    by (simp add: new_read_deny_matcher_def has_denied_read_restrictions_def restricted_def entry_def)
  have a: "can_read (resolve_access_with_cwd sample_env (restricted (perm_entries ?f)) ?a [slash])"
    using n by (simp add: sandbox_eval)
  have acc: "accepted_entries (\<lambda>_. None) sample_env ?f ?f [slash] = [entry (Path ?a) Read]"
    unfolding accepted_entries_def Let_def m
    using a by (simp add: granted_file_system_entry_within_request_def entry_def can_read_def
        resolve_permission_path_def materialize_cwd_dependent_entry_def push_missing_def)
  have "intersect_file_system (\<lambda>_. None) sample_env ?f ?f [slash] = ?f"
    unfolding intersect_file_system_def acc
    by (simp add: retain_constraining_deny_entries_def entry_def nonzero_def merge_glob_scan_max_depth_def
        effective_glob_scan_depth_def denies_glob_def)
  then show ?thesis
    by (simp add: intersect_permission_profiles_def sample_extra_def enables_def enabled_network_def
        option_filter_def fs_perms_empty_def)
qed

lemma sample_run: "run_grants (\<lambda>_. None) sample_env sample_acts (init_grants, []) =
  (sample_granted, [Recorded sample_extra [slash] sample_answer (Some 0), Replied (lit ''c'') (Some sample_answer)])"
proof -
  have ne: "\<not> add_perms_empty sample_extra" by (simp add: sample_extra_def add_perms_empty_def)
  have "normalize_request_permissions_response (\<lambda>_. None) sample_env sample_extra sample_answer [slash] = sample_answer"
    using ne by (simp add: normalize_request_permissions_response_def sample_answer_def sample_extra_intersection)
  moreover have "merge_permission_profiles None (Some sample_extra) = Some sample_extra"
    using ne by (simp add: merge_permission_profiles_def option_filter_def)
  ultimately show ?thesis
    using ne by (simp add: sample_acts_def init_grants_def start_turn_def handle_request_permissions_def sample_extra_normal
        request_permissions_for_cwd_def sample_turn_info_def auto_denied_def routes_approval_to_guardian_def
        insert_pending_request_def new_turn_grants_def update_turn_def notify_request_permissions_response_def
        remove_pending_request_def settle_request_def Let_def record_granted_request_permissions_for_turn_def)
      (simp add: sample_answer_def record_turn_grants_def sample_granted_def update_turn_def fun_eq_iff)
qed

theorem granted_reads_were_answered_witness:
  "\<exists>requested acwd r. answered sample_env sample_acts (response_scope r = ScopeTurn) requested acwd r \<and>
     profile_reads sample_env requested (abs_display [lit ''w'', lit ''s'', lit ''a'']) acwd \<and>
     profile_reads sample_env (response_permissions r) (abs_display [lit ''w'', lit ''s'', lit ''a'']) acwd"
proof -
  let ?q = "abs_display [lit ''w'', lit ''s'', lit ''a'']"
  let ?eff = "effective_file_system_sandbox_policy sample_policy (Some sample_extra)"
  have e: "effective_permissions (apply_granted_turn_permissions (\<lambda>_. None) sample_env sample_granted [slash] UseDefault None)
      = Some sample_extra"
    by (simp add: apply_granted_turn_permissions_def Let_def sample_granted_def granted_turn_permissions_def
        merge_permission_profiles_def option_filter_def sample_extra_def add_perms_empty_def)
  have k: "policy_kind sample_policy = Restricted" by (simp add: sample_policy_def restricted_def)
  have abs: "is_absolute (current_dir sample_env)" "is_absolute [slash]" by (simp_all add: sample_env_def)
  have n: "is_normal_path ?q" by (simp add: valid_name_lit)
  have typed: "list_all well_typed_action sample_acts"
    using n by (simp add: sample_acts_def well_typed_action_def sample_answer_def normal_profile_def entries_of_def
        sample_extra_def entry_def)
  have denied: "\<not> can_read_path_with_cwd sample_env sample_policy ?q [slash]"
    unfolding can_read_iff [OF k] by (simp add: sandbox_eval)
  have eff: "policy_kind ?eff = Restricted" "policy_entries ?eff = policy_entries sample_policy @ [entry (Path ?q) Read]"
    by (simp_all add: effective_file_system_sandbox_policy_def sample_extra_def sample_policy_def restricted_def
        fs_perms_empty_def merge_file_system_policy_with_additional_permissions_def push_missing_def entry_eq_def
        entry_def path_eq_normal valid_name_lit)
  have reads: "can_read_path_with_cwd sample_env ?eff ?q [slash]"
    unfolding can_read_iff [OF eff(1)] resolved_entries_append [OF eff(2)] by (simp add: sandbox_eval)
  show ?thesis
    by (rule granted_reads_were_answered [OF abs n k typed sample_run refl, unfolded e, THEN conjunct1, THEN mp,
          OF conjI [OF reads denied]])
qed


section \<open>What needs no further approval\<close>

text \<open>The entry that decides for a path decides for every path between the two.\<close>

lemma winner_between:
  assumes "policy_kind p = Restricted" "m \<in> set (resolved_entries_with_cwd env p cwd)"
    and max: "\<forall>e \<in> set (resolved_entries_with_cwd env p cwd). covers e t \<longrightarrow>
      (depth e, resolved_access e) \<le> (depth m, resolved_access m)"
    and t': "is_normal_path t'" "covers m t'" "path_starts_with t t'"
  shows "resolve_access_with_cwd env p t' cwd = resolved_access m"
proof -
  have up: "covers e t' \<Longrightarrow> covers e t" for e using t'(3) path_starts_with_trans by (auto simp: covers_def)
  from resolve_access_max [OF assms(1,2), of t', unfolded resolve_candidate_id [OF t'(1)], OF t'(2)]
  obtain k where k: "k \<in> set (resolved_entries_with_cwd env p cwd)" "covers k t'"
      "resolve_access_with_cwd env p t' cwd = resolved_access k"
    and above: "\<forall>e \<in> set (resolved_entries_with_cwd env p cwd). covers e t' \<longrightarrow>
      (depth e, resolved_access e) \<le> (depth k, resolved_access k)"
    by (elim bexE conjE) (rule that)
  have "(depth m, resolved_access m) \<le> (depth k, resolved_access k)"
    by (rule above [rule_format, OF assms(2) t'(2)])
  moreover have "(depth k, resolved_access k) \<le> (depth m, resolved_access m)"
    by (rule max [rule_format, OF k(1) up [OF k(2)]])
  ultimately have "(depth k, resolved_access k) = (depth m, resolved_access m)" by (intro order_antisym)
  with k(3) show ?thesis by simp
qed

lemma no_denies_matcher:
  "\<forall>e \<in> set es. entry_access e \<noteq> NoAccess \<Longrightarrow> new_read_deny_matcher build env (restricted es) cwd = None"
  by (auto simp: new_read_deny_matcher_def has_denied_read_restrictions_def restricted_def list_ex_iff)

text \<open>A granted entry that a request without deny entries covers is accepted.\<close>

lemma covered_is_accepted:
  assumes "\<forall>e \<in> set (perm_entries rf). entry_access e \<noteq> NoAccess" "g \<in> set (perm_entries gf)" "can_read (entry_access g)"
    and "resolve_permission_path env (entry_path g) cwd = Some p"
    and "access_covers (resolve_access_with_cwd env (restricted (perm_entries rf)) p cwd) (entry_access g)"
  shows "\<exists>x \<in> set (perm_entries (intersect_file_system build env rf gf cwd)). entry_eq x (materialize_cwd_dependent_entry env g cwd)"
proof -
  let ?f = "\<lambda>acc e. push_missing acc (materialize_cwd_dependent_entry env e cwd)"
  have keep: "x \<in> set acc \<Longrightarrow> x \<in> set (foldl ?f acc es)" for x acc es
  proof (induction es arbitrary: acc)
    case (Cons c es)
    from Cons.prems have "x \<in> set (?f acc c)" using push_missing_set(1) by blast
    from Cons.IH [OF this] show ?case by simp
  qed simp
  have "\<exists>x \<in> set (foldl ?f acc es). entry_eq x (materialize_cwd_dependent_entry env e cwd)" if "e \<in> set es" for e acc es
    using that
  proof (induction es arbitrary: acc)
    case (Cons c es)
    show ?case
    proof (cases "e = c")
      case True
      obtain x where x: "x \<in> set (?f acc c)" "entry_eq x (materialize_cwd_dependent_entry env c cwd)"
        using push_missing_set(3) by blast
      from keep [OF x(1), of es] x(2) True show ?thesis by auto
    next
      case False
      with Cons.prems have "e \<in> set es" by simp
      from Cons.IH [OF this, of "?f acc c"] show ?thesis by simp
    qed
  qed simp
  moreover have "granted_file_system_entry_within_request env rf (restricted (perm_entries rf)) None g cwd"
    using assms(3-5) by (simp add: granted_file_system_entry_within_request_def)
  ultimately have "\<exists>x \<in> set (accepted_entries build env rf gf cwd). entry_eq x (materialize_cwd_dependent_entry env g cwd)"
    using assms(2) by (simp add: accepted_entries_def Let_def no_denies_matcher [OF assms(1)])
  moreover have "set (accepted_entries build env rf gf cwd) \<subseteq> set (perm_entries (intersect_file_system build env rf gf cwd))"
    by (rule intersect_stages [of env rf build gf cwd]) (use retain_denies(1) in blast)
  ultimately show ?thesis by blast
qed

text \<open>Resolved entries of lists whose entries compare equal pairwise.\<close>

lemma equal_resolved:
  assumes "list_all2 entry_eq xs ys" "is_absolute cwd"
  shows "rootless ys \<Longrightarrow> d \<in> set (resolved_entries_with_cwd env (restricted ys) cwd) \<Longrightarrow>
      \<exists>e \<in> set (resolved_entries_with_cwd env (restricted xs) cwd).
        resolved_access e = resolved_access d \<and> depth e = depth d \<and> (\<forall>t. covers e t = covers d t)"
    and "rootless xs \<Longrightarrow> e \<in> set (resolved_entries_with_cwd env (restricted xs) cwd) \<Longrightarrow>
      \<exists>d \<in> set (resolved_entries_with_cwd env (restricted ys) cwd).
        resolved_access d = resolved_access e \<and> depth d = depth e \<and> (\<forall>t. covers d t = covers e t)"
proof -
  have sym: "entry_eq b a" if "entry_eq a b" for a b
  proof -
    have o: "option_path_eq x y \<Longrightarrow> option_path_eq y x" for x y by (cases x; cases y) (auto simp: path_eq_def)
    have s: "special_path_eq x y \<Longrightarrow> special_path_eq y x" for x y by (cases x; cases y) (auto intro: o)
    have "file_system_path_eq x y \<Longrightarrow> file_system_path_eq y x" for x y
      by (cases x; cases y) (auto intro: s simp: path_eq_def)
    with that show ?thesis by (auto simp: entry_eq_def)
  qed
  have l: "keeps xs ys"
    unfolding keeps_def using assms(1) by (metis in_set_conv_nth list_all2_conv_all_nth)
  have r: "keeps ys xs"
    unfolding keeps_def using assms(1) sym by (metis in_set_conv_nth list_all2_conv_all_nth)
  show "\<exists>e \<in> set (resolved_entries_with_cwd env (restricted xs) cwd).
        resolved_access e = resolved_access d \<and> depth e = depth d \<and> (\<forall>t. covers e t = covers d t)"
    if "rootless ys" "d \<in> set (resolved_entries_with_cwd env (restricted ys) cwd)"
    by (rule keeps_deny [OF l that(1) assms(2) that(2)]) blast
  show "\<exists>d \<in> set (resolved_entries_with_cwd env (restricted ys) cwd).
        resolved_access d = resolved_access e \<and> depth d = depth e \<and> (\<forall>t. covers d t = covers e t)"
    if "rootless xs" "e \<in> set (resolved_entries_with_cwd env (restricted xs) cwd)"
    by (rule keeps_deny [OF r that(1) assms(2) that(2)]) blast
qed


lemma intersect_deny_source:
  assumes "x \<in> set (perm_entries (intersect_file_system build env rf gf cwd))" "entry_access x = NoAccess"
  shows "\<exists>d \<in> set (perm_entries rf) \<union> set (perm_entries gf). entry_access d = NoAccess"
proof (rule intersect_stages [of env rf build gf cwd])
  fix r1 o1 r2
  let ?acc = "accepted_entries build env rf gf cwd"
  assume 1: "retain_constraining_deny_entries env (perm_entries rf) ?acc cwd ?acc = (r1, o1)"
    and 2: "retain_constraining_deny_entries env (perm_entries gf) ?acc cwd o1 =
      (r2, perm_entries (intersect_file_system build env rf gf cwd))"
  have "x \<notin> set ?acc"
  proof
    assume "x \<in> set ?acc"
    then obtain g where "x = materialize_cwd_dependent_entry env g cwd" "granted_file_system_entry_within_request env rf
        (restricted (perm_entries rf)) (new_read_deny_matcher build env (restricted (perm_entries rf)) cwd) g cwd"
      by (rule readable_was_granted)
    with assms(2) show False
      by (simp add: granted_file_system_entry_within_request_def can_read_def)
  qed
  with assms(1) retain_steps [OF 1 [unfolded retain_constraining_deny_entries_def]]
    retain_steps [OF 2 [unfolded retain_constraining_deny_entries_def]] show ?thesis by fastforce
qed

lemma preapproved_entries:
  assumes "permissions_are_preapproved build env E G cwd" "add_file_system E = Some ef"
    and "perm_entries (intersect_file_system build env ef ef cwd) \<noteq> []"
  obtains gf where "add_file_system G = Some gf" "list_all2 entry_eq
    (perm_entries (intersect_file_system build env ef gf cwd)) (perm_entries (intersect_file_system build env ef ef cwd))"
proof (cases "add_file_system G")
  case None
  have "perm_entries (intersect_file_system build env ef default_permissions cwd) = []"
    by (simp add: intersect_file_system_def accepted_entries_def default_permissions_def
        retain_constraining_deny_entries_def retain_nothing)
  with assms None show thesis
    by (simp add: permissions_are_preapproved_def profile_eq_def intersect_permission_profiles_def option_filter_def
        fs_perms_empty_def)
next
  case (Some gf)
  have "rel_option fs_perms_eq (option_filter (\<lambda>f. \<not> fs_perms_empty f) (Some (intersect_file_system build env ef gf cwd)))
      (Some (intersect_file_system build env ef ef cwd))"
    using assms Some by (simp add: permissions_are_preapproved_def profile_eq_def intersect_permission_profiles_def
        option_filter_def fs_perms_empty_def)
  then have "fs_perms_eq (intersect_file_system build env ef gf cwd) (intersect_file_system build env ef ef cwd)"
    by (auto simp: option_filter_def split: if_splits)
  with Some that show thesis by (auto simp: fs_perms_eq_def)
qed

text \<open>
  The deciding entry of a request without deny entries is one of the intersection with the grant, and so
  of the grant; entries of the grant between it and the path were requested as well.
\<close>

lemma preapproved_winner:
  assumes pre: "permissions_are_preapproved build env E G cwd" "add_file_system E = Some ef"
    and cwd: "is_absolute cwd" "is_absolute (current_dir env)"
    and normal: "normal_profile E" "normal_profile G"
    and nd: "\<forall>e \<in> set (perm_entries ef). entry_access e \<noteq> NoAccess"
    and m: "m \<in> set (resolved_entries_with_cwd env (restricted (perm_entries ef)) cwd)" "covers m t"
    and max: "\<forall>e \<in> set (resolved_entries_with_cwd env (restricted (perm_entries ef)) cwd). covers e t \<longrightarrow>
      (depth e, resolved_access e) \<le> (depth m, resolved_access m)"
  obtains gf e where "add_file_system G = Some gf"
    "e \<in> set (resolved_entries_with_cwd env (restricted (perm_entries (intersect_file_system build env ef gf cwd))) cwd)"
    "resolved_access e = resolved_access m" "depth e = depth m" "covers e t"
    "list_all2 entry_eq (perm_entries (intersect_file_system build env ef gf cwd))
       (perm_entries (intersect_file_system build env ef ef cwd))"
proof -
  let ?X = "perm_entries (intersect_file_system build env ef ef cwd)"
  from m(1) obtain x where x: "x \<in> set (perm_entries ef)" "resolve_permission_path env (entry_path x) cwd = Some (resolved_path m)"
      "entry_access x = resolved_access m"
    by (auto simp: resolved_restricted [OF cwd(1)])
  have n: "is_normal_path (resolved_path m)"
    by (rule resolve_permission_path_normal [OF cwd(2) x(2)]) (use normal(1) x(1) pre(2) in \<open>auto simp: normal_profile_def entries_of_def\<close>)
  have "resolve_access_with_cwd env (restricted (perm_entries ef)) (resolved_path m) cwd = resolved_access m"
    by (rule winner_between [OF _ m(1) max n]) (use m(2) in \<open>simp_all add: restricted_def covers_def\<close>)
  moreover have na: "resolved_access m \<noteq> NoAccess" using nd x by auto
  ultimately have "access_covers (resolve_access_with_cwd env (restricted (perm_entries ef)) (resolved_path m) cwd) (entry_access x)"
    by (cases "resolved_access m") (simp_all add: x(3) can_read_def can_write_def)
  then obtain k where k: "k \<in> set ?X" "entry_eq k (materialize_cwd_dependent_entry env x cwd)"
    using covered_is_accepted [OF nd x(1) _ x(2)] na x(3) by (auto simp: can_read_def)
  then obtain gf where gf: "add_file_system G = Some gf" "list_all2 entry_eq
      (perm_entries (intersect_file_system build env ef gf cwd)) ?X"
    using preapproved_entries [OF pre] by (metis empty_iff list.set(1))
  have "resolve_permission_path env (entry_path (materialize_cwd_dependent_entry env x cwd)) cwd = Some (resolved_path m)"
    using x(2) by (simp add: materialize_path)
  from entry_eq_resolve [OF k(2) materialize_no_roots this] obtain p where
      p: "resolve_permission_path env (entry_path k) cwd = Some p" "components p = components (resolved_path m)"
        "entry_access k = resolved_access m"
    using x(3) by auto
  let ?d = "\<lparr>resolved_path = p, resolved_access = resolved_access m\<rparr>"
  have "?d \<in> set (resolved_entries_with_cwd env (restricted ?X) cwd)"
    using k(1) p by (auto simp: resolved_restricted [OF cwd(1)])
  from equal_resolved(1) [OF gf(2) cwd(1) intersect_rootless this] obtain e where
      "e \<in> set (resolved_entries_with_cwd env (restricted (perm_entries (intersect_file_system build env ef gf cwd))) cwd)"
      "resolved_access e = resolved_access ?d" "depth e = depth ?d" "covers e t = covers ?d t"
    by metis
  with gf that covers_cong [of ?d m t] p(2) m(2) show thesis by simp
qed


lemma preapproved_no_denies:
  assumes "list_all2 entry_eq (perm_entries (intersect_file_system build env ef gf cwd))
      (perm_entries (intersect_file_system build env ef ef cwd))"
    and "\<forall>e \<in> set (perm_entries ef). entry_access e \<noteq> NoAccess" "is_absolute cwd"
    and "d \<in> set (resolved_entries_with_cwd env (restricted (perm_entries (intersect_file_system build env ef gf cwd))) cwd)"
  shows "resolved_access d \<noteq> NoAccess"
proof
  assume "resolved_access d = NoAccess"
  with equal_resolved(2) [OF assms(1,3) intersect_rootless assms(4)] obtain d' where
      "d' \<in> set (resolved_entries_with_cwd env (restricted (perm_entries (intersect_file_system build env ef ef cwd))) cwd)"
      "resolved_access d' = NoAccess" by metis
  then obtain x where "x \<in> set (perm_entries (intersect_file_system build env ef ef cwd))" "entry_access x = NoAccess"
    by (auto simp: resolved_restricted [OF assms(3)])
  from intersect_deny_source [OF this] assms(2) show False by blast
qed

lemma preapproved_deeper:
  assumes pre: "permissions_are_preapproved build env E G cwd" "add_file_system E = Some ef" "add_file_system G = Some gf"
    and cwd: "is_absolute cwd" "is_absolute (current_dir env)"
    and normal: "normal_profile E" "normal_profile G"
    and nd: "\<forall>e \<in> set (perm_entries ef). entry_access e \<noteq> NoAccess"
    and m: "m \<in> set (resolved_entries_with_cwd env (restricted (perm_entries ef)) cwd)" "covers m t" "resolved_access m = Write"
    and max: "\<forall>e \<in> set (resolved_entries_with_cwd env (restricted (perm_entries ef)) cwd). covers e t \<longrightarrow>
      (depth e, resolved_access e) \<le> (depth m, resolved_access m)"
    and eq: "list_all2 entry_eq (perm_entries (intersect_file_system build env ef gf cwd))
      (perm_entries (intersect_file_system build env ef ef cwd))"
    and k: "k \<in> set (resolved_entries_with_cwd env (restricted (perm_entries gf)) cwd)" "covers k t" "depth m < depth k"
  shows "resolved_access k = NoAccess"
proof (rule ccontr)
  assume na: "resolved_access k \<noteq> NoAccess"
  from k(1) obtain g where g: "g \<in> set (perm_entries gf)" "resolve_permission_path env (entry_path g) cwd = Some (resolved_path k)"
      "entry_access g = resolved_access k"
    by (auto simp: resolved_restricted [OF cwd(1)])
  have n: "is_normal_path (resolved_path k)"
    by (rule resolve_permission_path_normal [OF cwd(2) g(2)]) (use normal(2) g(1) pre(3) in \<open>auto simp: normal_profile_def entries_of_def\<close>)
  have "covers m (resolved_path k)"
    using path_starts_with_cases [of t "resolved_path m" "resolved_path k"] m(2) k(2,3)
      path_starts_with_length [of "resolved_path m" "resolved_path k"] by (auto simp: covers_def depth_def)
  from winner_between [OF _ m(1) max n this] k(2)
  have "resolve_access_with_cwd env (restricted (perm_entries ef)) (resolved_path k) cwd = Write"
    by (simp add: restricted_def covers_def m(3))
  then have "access_covers (resolve_access_with_cwd env (restricted (perm_entries ef)) (resolved_path k) cwd) (entry_access g)"
    using na g(3) by (cases "resolved_access k") (simp_all add: can_read_def can_write_def)
  with covered_is_accepted [OF nd g(1) _ g(2)] na g(3) obtain y where
      y: "y \<in> set (perm_entries (intersect_file_system build env ef gf cwd))" "entry_eq y (materialize_cwd_dependent_entry env g cwd)"
    by (auto simp: can_read_def)
  have "resolve_permission_path env (entry_path (materialize_cwd_dependent_entry env g cwd)) cwd = Some (resolved_path k)"
    using g(2) by (simp add: materialize_path)
  from entry_eq_resolve [OF y(2) materialize_no_roots this] obtain p where
      p: "resolve_permission_path env (entry_path y) cwd = Some p" "components p = components (resolved_path k)"
        "entry_access y = resolved_access k"
    using g(3) by auto
  let ?d = "\<lparr>resolved_path = p, resolved_access = resolved_access k\<rparr>"
  have "?d \<in> set (resolved_entries_with_cwd env (restricted (perm_entries (intersect_file_system build env ef gf cwd))) cwd)"
    using y(1) p by (auto simp: resolved_restricted [OF cwd(1)])
  from equal_resolved(2) [OF eq cwd(1) intersect_rootless this] obtain d where
      d: "d \<in> set (resolved_entries_with_cwd env (restricted (perm_entries (intersect_file_system build env ef ef cwd))) cwd)"
      "resolved_access d = resolved_access k" "depth d = depth ?d" "covers d t = covers ?d t" by auto
  have c: "covers d t" "depth d = depth k" using d(3,4) covers_cong [of ?d k t] p(2) k(2) by auto
  have "d \<in> set (resolved_entries_with_cwd env (restricted (perm_entries ef)) cwd)"
    by (rule intersect_entry_source(1) [OF cwd _ d(1) _ c(1)])
      (use normal(1) pre(2) d(2) na in \<open>auto simp: normal_profile_def entries_of_def\<close>)
  from max [rule_format, OF this c(1)] c(2) k(3) show False by (simp add: precedence_le)
qed

lemma restricted_max:
  assumes "e \<in> set (resolved_entries_with_cwd env (restricted es) cwd)" "covers e (resolve_candidate_path env q cwd)"
  obtains m where "m \<in> set (resolved_entries_with_cwd env (restricted es) cwd)" "covers m (resolve_candidate_path env q cwd)"
    "resolve_access_with_cwd env (restricted es) q cwd = resolved_access m"
    "\<forall>e \<in> set (resolved_entries_with_cwd env (restricted es) cwd). covers e (resolve_candidate_path env q cwd) \<longrightarrow>
       (depth e, resolved_access e) \<le> (depth m, resolved_access m)"
  using resolve_access_max [OF _ assms] by (elim meta_impE bexE conjE) (simp add: restricted_def, rule that)

lemma preapproved_access:
  assumes pre: "permissions_are_preapproved build env E G cwd" "add_file_system E = Some ef"
    and cwd: "is_absolute cwd" "is_absolute (current_dir env)" and normal: "normal_profile E" "normal_profile G"
    and nd: "\<forall>e \<in> set (perm_entries ef). entry_access e \<noteq> NoAccess"
    and r: "can_read_path_with_cwd env (restricted (perm_entries ef)) q cwd"
  obtains gf where "add_file_system G = Some gf" "can_read_path_with_cwd env (restricted (perm_entries gf)) q cwd"
    "can_write (resolve_access_with_cwd env (restricted (perm_entries ef)) q cwd) \<longrightarrow>
      can_write (resolve_access_with_cwd env (restricted (perm_entries gf)) q cwd)"
proof -
  let ?t = "resolve_candidate_path env q cwd"
  let ?R = "\<lambda>es. set (resolved_entries_with_cwd env (restricted es) cwd)"
  have kind: "policy_kind (restricted es) = Restricted" for es by (simp add: restricted_def)
  from r obtain e0 where "e0 \<in> ?R (perm_entries ef)" "covers e0 ?t"
    unfolding can_read_iff [OF kind] by blast
  then obtain m where m: "m \<in> ?R (perm_entries ef)" "covers m ?t"
      "resolve_access_with_cwd env (restricted (perm_entries ef)) q cwd = resolved_access m"
    and max: "\<forall>e \<in> ?R (perm_entries ef). covers e ?t \<longrightarrow> (depth e, resolved_access e) \<le> (depth m, resolved_access m)"
    by (rule restricted_max)
  from preapproved_winner [OF pre cwd normal nd m(1,2) max] obtain gf e where gf: "add_file_system G = Some gf"
    and e: "e \<in> ?R (perm_entries (intersect_file_system build env ef gf cwd))" "resolved_access e = resolved_access m"
      "depth e = depth m" "covers e ?t"
    and eq: "list_all2 entry_eq (perm_entries (intersect_file_system build env ef gf cwd))
       (perm_entries (intersect_file_system build env ef ef cwd))" .
  have na: "resolved_access m \<noteq> NoAccess"
    using m(1) nd resolved_entries_access [OF m(1)] by (auto simp: restricted_def)
  have gn: "\<forall>g \<in> set (perm_entries gf). \<forall>s. entry_path g = Path s \<longrightarrow> is_normal_path s"
    using normal(2) gf by (simp add: normal_profile_def entries_of_def)
  have "can_read_path_with_cwd env (restricted (perm_entries (intersect_file_system build env ef gf cwd))) q cwd"
    unfolding can_read_iff [OF kind] using e na preapproved_no_denies [OF eq nd cwd(1)] by (intro bexI [of _ e]) auto
  from intersect_reads [OF cwd gn this] have reads: "can_read_path_with_cwd env (restricted (perm_entries gf)) q cwd"
    by blast
  have eg: "e \<in> ?R (perm_entries gf)"
    by (rule intersect_entry_source(1) [OF cwd gn e(1) _ e(4)]) (simp add: e(2) na)
  from eg e(4) obtain k where k: "k \<in> ?R (perm_entries gf)" "covers k ?t"
      "resolve_access_with_cwd env (restricted (perm_entries gf)) q cwd = resolved_access k"
    and kmax: "\<forall>e \<in> ?R (perm_entries gf). covers e ?t \<longrightarrow> (depth e, resolved_access e) \<le> (depth k, resolved_access k)"
    by (rule restricted_max)
  have "can_write (resolve_access_with_cwd env (restricted (perm_entries gf)) q cwd)"
    if "can_write (resolve_access_with_cwd env (restricted (perm_entries ef)) q cwd)"
  proof -
    have w: "resolved_access m = Write" using that m(3) by (simp add: can_write_def)
    have "resolved_access k \<noteq> NoAccess"
      using reads k(3) by (simp add: can_read_path_with_cwd_def can_read_def)
    with preapproved_deeper [OF pre gf cwd normal nd m(1,2) w max eq k(1,2)] have "\<not> depth m < depth k" by blast
    with kmax [rule_format, OF eg e(4)] k(3) e(2,3) w \<open>resolved_access k \<noteq> NoAccess\<close> show ?thesis
      by (cases "resolved_access k") (auto simp: precedence_le can_write_def access_le_Read access_ge_Write)
  qed
  then show thesis by (intro that [OF gf reads] impI)
qed

text \<open>
  C16: a call whose permissions count as already granted reads, writes and uses the network only as the
  grants of the session and the turn allow, when its permissions have no deny entry.
\<close>

theorem preapproved_within_grants:
  assumes "permissions_are_preapproved build env E G cwd" "is_absolute cwd" "is_absolute (current_dir env)"
    and "normal_profile E" "normal_profile G"
    and "\<forall>e \<in> set (entries_of (Some E)). entry_access e \<noteq> NoAccess"
  shows "(profile_reads env E q cwd \<longrightarrow> profile_reads env G q cwd) \<and>
    (can_write (resolve_access_with_cwd env (restricted (entries_of (Some E))) q cwd) \<longrightarrow>
      can_write (resolve_access_with_cwd env (restricted (entries_of (Some G))) q cwd)) \<and>
    (network_on (Some E) \<longrightarrow> network_on (Some G))"
proof -
  let ?acc = "\<lambda>a. resolve_access_with_cwd env (restricted (entries_of (Some a))) q cwd"
  have both: "profile_reads env G q cwd \<and> (can_write (?acc E) \<longrightarrow> can_write (?acc G))" if r: "profile_reads env E q cwd"
  proof (cases "add_file_system E")
    case None
    then show ?thesis using r no_entries_no_reads [of E env q cwd] by (simp add: entries_of_def)
  next
    case (Some ef)
    then have es: "entries_of (Some E) = perm_entries ef" by (simp add: entries_of_def)
    obtain gf where gf: "add_file_system G = Some gf"
      and w: "can_read_path_with_cwd env (restricted (perm_entries gf)) q cwd"
        "can_write (resolve_access_with_cwd env (restricted (perm_entries ef)) q cwd) \<longrightarrow>
          can_write (resolve_access_with_cwd env (restricted (perm_entries gf)) q cwd)"
      by (rule preapproved_access [OF assms(1) Some assms(2-5) assms(6) [unfolded es] r [unfolded profile_reads_def es]])
    have "entries_of (Some G) = perm_entries gf" by (simp add: entries_of_def gf)
    with w show ?thesis by (simp add: profile_reads_def es)
  qed
  have writes: "can_write (?acc G)" if "can_write (?acc E)"
    using both that by (simp add: profile_reads_def can_read_path_with_cwd_def can_read_def can_write_def)
  have network: "network_on (Some G)" if "network_on (Some E)"
    using that assms(1) by (auto simp: permissions_are_preapproved_def profile_eq_def intersect_permission_profiles_def
        network_on_def enabled_network_def split: if_splits)
  from both writes network show ?thesis by blast
qed

theorem preapproved_within_grants_witness:
  "permissions_are_preapproved (\<lambda>_. None) sample_env sample_extra sample_extra [slash] \<and>
   profile_reads sample_env sample_extra (abs_display [lit ''w'', lit ''s'', lit ''a'']) [slash]"
proof -
  let ?q = "abs_display [lit ''w'', lit ''s'', lit ''a'']"
  have p: "permissions_are_preapproved (\<lambda>_. None) sample_env sample_extra sample_extra [slash]"
    by (simp add: permissions_are_preapproved_def profile_eq_def sample_extra_intersection option.rel_refl
        fs_perms_eq_def list.rel_refl)
  have n: "normal_profile sample_extra" "\<forall>e \<in> set (entries_of (Some sample_extra)). entry_access e \<noteq> NoAccess"
    by (simp_all add: normal_profile_def entries_of_def sample_extra_def entry_def valid_name_lit)
  have "profile_reads sample_env sample_extra ?q [slash]"
    by (simp add: profile_reads_def entries_of_def sample_extra_def sandbox_eval can_read_path_with_cwd_def)
  with p preapproved_within_grants [OF p _ _ n(1) n(1) n(2), of ?q] show ?thesis by simp
qed

text \<open>
  The condition on deny entries cannot be dropped: a request that denies reading the very root it asks to
  write, by a pattern without wildcards, intersects to nothing, so that it counts as preapproved by any
  earlier grant, while below the root nothing denies a write.
\<close>

definition exact_globs :: glob_builder where
  "exact_globs g = Some (\<lambda>p. p = g)"

lemma preapproved_by_own_denial:
  defines "b \<equiv> abs_display [lit ''b'']"
  defines "request \<equiv> \<lparr>add_network = None, add_file_system = Some \<lparr>perm_entries =
      [entry (Path b) Write, entry (GlobPattern b) NoAccess], perm_glob_depth = None\<rparr>\<rparr>"
    and "given \<equiv> \<lparr>add_network = Some \<lparr>net_enabled = Some True\<rparr>, add_file_system = None\<rparr>"
    and "inner \<equiv> abs_display [lit ''b'', lit ''c'']"
  shows "permissions_are_preapproved exact_globs sample_env request given [slash]"
    and "can_write (resolve_access_with_cwd sample_env (restricted (entries_of (Some request))) inner [slash])"
    and "entries_of (Some given) = []"
proof -
  have n: "is_normal_path b" "is_normal_path inner" by (simp_all add: b_def inner_def valid_name_lit)
  let ?es = "[entry (Path b) Write, entry (GlobPattern b) NoAccess]"
  let ?f = "\<lparr>perm_entries = ?es, perm_glob_depth = None\<rparr>"
  have globs: "get_unreadable_globs_with_cwd sample_env (restricted ?es) [slash] = [b]"
    using n by (simp add: get_unreadable_globs_with_cwd_def deny_entries_def restricted_def entry_def List.map_filter_def
        resolve_normal_path)
  have roots: "get_unreadable_roots_with_cwd sample_env (restricted ?es) [slash] = []"
    by (simp add: get_unreadable_roots_with_cwd_def restricted_def entry_def resolved_entries_with_cwd_def
        resolve_entry_path_def List.map_filter_def dedup_absolute_paths_def)
  let ?m = "new_read_deny_matcher exact_globs sample_env (restricted ?es) [slash]"
  have m: "?m = Some \<lparr>denied_candidates = [], deny_read_matchers = [\<lambda>p. p = b], invalid_pattern = False\<rparr>"
    unfolding new_read_deny_matcher_def globs roots
    by (simp add: has_denied_read_restrictions_def restricted_def entry_def exact_globs_def List.map_filter_def)
  have "is_read_denied sample_env \<lparr>denied_candidates = [], deny_read_matchers = [\<lambda>p. p = b], invalid_pattern = False\<rparr> b"
    using n by (simp add: is_read_denied_def normalized_and_canonical_candidates_def env_absolute_id push_unique_def
        sample_env_def)
  then have "\<not> granted_file_system_entry_within_request sample_env ?f (restricted ?es) ?m e [slash]" if "e \<in> set ?es" for e
    using that unfolding m
    by (auto simp: granted_file_system_entry_within_request_def entry_def can_read_def resolve_permission_path_def)
  then have "filter (\<lambda>e. granted_file_system_entry_within_request sample_env ?f (restricted ?es) ?m e [slash]) ?es = []"
    unfolding filter_empty_conv by blast
  then have "accepted_entries exact_globs sample_env ?f ?f [slash] = []"
    unfolding accepted_entries_def Let_def file_system_permissions.select_convs by (simp only: foldl_Nil)
  then have self: "perm_entries (intersect_file_system exact_globs sample_env ?f ?f [slash]) = []"
    by (simp add: intersect_file_system_def retain_constraining_deny_entries_def retain_nothing)
  have none: "perm_entries (intersect_file_system exact_globs sample_env ?f default_permissions [slash]) = []"
    by (simp add: intersect_file_system_def accepted_entries_def default_permissions_def
        retain_constraining_deny_entries_def retain_nothing)
  show "permissions_are_preapproved exact_globs sample_env request given [slash]"
    using self none by (simp add: permissions_are_preapproved_def profile_eq_def intersect_permission_profiles_def
        request_def given_def option_filter_def fs_perms_empty_def enables_def enabled_network_def)
  show "can_write (resolve_access_with_cwd sample_env (restricted (entries_of (Some request))) inner [slash])"
    by (simp add: request_def entries_of_def sandbox_eval b_def inner_def)
  show "entries_of (Some given) = []" by (simp add: given_def entries_of_def)
qed


end
