(* ===== verification/Patch_Safety.thy ===== *)
theory Patch_Safety
  imports Invocation Exec_Approval
begin

text \<open>
  \<^verbatim>\<open>codex-rs/core/src/safety.rs\<close>, \<^verbatim>\<open>core/src/apply_patch.rs\<close> and the pure parts of the patch tool
  (\<^verbatim>\<open>tools/handlers/apply_patch.rs\<close>): whether a verified patch is applied at once, after the user
  approves, or not at all, and the events that report a patch while the model is still writing it.
  The theorems compose the sandbox policy with the application of patches: a patch applied without
  asking changes only files the policy lets it write; and the reports lose no progress.
\<close>

section \<open>The check of a patch\<close>

datatype sandbox_type = SandboxTypeNone | MacosSeatbelt | LinuxSeccomp | WindowsRestrictedToken

datatype windows_sandbox_level = WindowsDisabled | WindowsRestricted | WindowsElevated

datatype target_os = TargetMacos | TargetLinux | TargetWindows | TargetOther

definition get_platform_sandbox :: "target_os \<Rightarrow> bool \<Rightarrow> sandbox_type option" where
  "get_platform_sandbox os windows_sandbox_enabled =
     (case os of
        TargetMacos \<Rightarrow> Some MacosSeatbelt
      | TargetLinux \<Rightarrow> Some LinuxSeccomp
      | TargetWindows \<Rightarrow> if windows_sandbox_enabled then Some WindowsRestrictedToken else None
      | TargetOther \<Rightarrow> None)"

datatype safety_check =
  AutoApprove (approved_sandbox: sandbox_type) (user_explicitly_approved: bool)
| AskUser
| Reject (reject_reason: str)

definition PATCH_REJECTED_OUTSIDE_PROJECT_REASON :: str where
  "PATCH_REJECTED_OUTSIDE_PROJECT_REASON =
     lit ''writing outside of the project; rejected by user approval settings''"

definition PATCH_REJECTED_READ_ONLY_REASON :: str where
  "PATCH_REJECTED_READ_ONLY_REASON =
     lit ''writing is blocked by read-only sandbox; rejected by user approval settings''"

definition core_resolve_path :: "abs_path_buf \<Rightarrow> str \<Rightarrow> str" where
  "core_resolve_path base p = (if is_absolute p then p else path_join base p)"

definition lexical_normalize :: "str \<Rightarrow> str" where
  "lexical_normalize p = os_str (foldl push_component \<lparr>rooted = False, names = []\<rparr> (components p))"

definition is_patch_path_writable :: "os_env \<Rightarrow> file_system_sandbox_policy \<Rightarrow> abs_path_buf \<Rightarrow> str \<Rightarrow> bool" where
  "is_patch_path_writable env fs cwd p =
     can_write_path_with_cwd env fs (lexical_normalize (core_resolve_path cwd p)) cwd"

text \<open>The changes are given as the list of entries of the hash map, in the order of its iteration.\<close>

definition is_write_patch_constrained_to_writable_paths ::
  "os_env \<Rightarrow> (str \<times> file_change) list \<Rightarrow> file_system_sandbox_policy \<Rightarrow> abs_path_buf \<Rightarrow> bool" where
  "is_write_patch_constrained_to_writable_paths env cl fs cwd =
     list_all (\<lambda>(p, change).
       case change of
         AddChange _ \<Rightarrow> is_patch_path_writable env fs cwd p
       | DeleteChange _ \<Rightarrow> is_patch_path_writable env fs cwd p
       | UpdateChange _ dest _ \<Rightarrow>
           is_patch_path_writable env fs cwd p \<and>
           (case dest of None \<Rightarrow> True | Some d \<Rightarrow> is_patch_path_writable env fs cwd d)) cl"

definition patch_rejection_reason ::
  "os_env \<Rightarrow> permission_profile \<Rightarrow> file_system_sandbox_policy \<Rightarrow> abs_path_buf \<Rightarrow> str" where
  "patch_rejection_reason env profile fs cwd =
     (case profile of
        Managed _ _ \<Rightarrow>
          if \<not> has_full_disk_write_access fs \<and> get_writable_roots_with_cwd env fs cwd = []
          then PATCH_REJECTED_READ_ONLY_REASON else PATCH_REJECTED_OUTSIDE_PROJECT_REASON
      | _ \<Rightarrow> PATCH_REJECTED_OUTSIDE_PROJECT_REASON)"

definition rejects_sandbox_approval :: "ask_for_approval \<Rightarrow> bool" where
  "rejects_sandbox_approval approval \<longleftrightarrow>
     (case approval of Never \<Rightarrow> True | Granular g \<Rightarrow> \<not> sandbox_approval g | _ \<Rightarrow> False)"

definition assess_patch_safety ::
  "os_env \<Rightarrow> target_os \<Rightarrow> (str \<times> file_change) list \<Rightarrow> ask_for_approval \<Rightarrow> permission_profile \<Rightarrow>
   file_system_sandbox_policy \<Rightarrow> abs_path_buf \<Rightarrow> windows_sandbox_level \<Rightarrow> safety_check" where
  "assess_patch_safety env os cl approval profile fs cwd level =
     (if cl = [] then Reject (lit ''empty patch'')
      else if approval = UnlessTrusted then AskUser
      else if is_write_patch_constrained_to_writable_paths env cl fs cwd \<or> approval = OnFailure then
        (case profile of
           Managed _ _ \<Rightarrow>
             (case get_platform_sandbox os (level \<noteq> WindowsDisabled) of
                Some sandbox_type \<Rightarrow> AutoApprove sandbox_type False
              | None \<Rightarrow>
                  if rejects_sandbox_approval approval
                  then Reject (patch_rejection_reason env profile fs cwd) else AskUser)
         | _ \<Rightarrow> AutoApprove SandboxTypeNone False)
      else if rejects_sandbox_approval approval then Reject (patch_rejection_reason env profile fs cwd)
      else AskUser)"

section \<open>Delegating to the runtime\<close>

record patch_runtime_invocation =
  auto_approved :: bool
  patch_requirement :: exec_approval_requirement

datatype internal_invocation =
  Output str
| DelegateToRuntime patch_runtime_invocation

definition core_apply_patch :: "safety_check \<Rightarrow> internal_invocation" where
  "core_apply_patch safety =
     (case safety of
        AutoApprove _ explicitly \<Rightarrow>
          DelegateToRuntime \<lparr>auto_approved = \<not> explicitly, patch_requirement = Skip False None\<rparr>
      | AskUser \<Rightarrow> DelegateToRuntime \<lparr>auto_approved = False, patch_requirement = NeedsApproval None None\<rparr>
      | Reject reason \<Rightarrow> Output (lit ''patch rejected: '' @ reason))"

datatype protocol_change =
  ProtocolAdd str
| ProtocolDelete str
| ProtocolUpdate str "str option"

fun to_protocol_change :: "file_change \<Rightarrow> protocol_change" where
  "to_protocol_change (AddChange content) = ProtocolAdd content"
| "to_protocol_change (DeleteChange content) = ProtocolDelete content"
| "to_protocol_change (UpdateChange diff dest _) = ProtocolUpdate diff dest"

definition convert_apply_patch_to_protocol :: "(str \<times> file_change) list \<Rightarrow> (str \<rightharpoonup> protocol_change)" where
  "convert_apply_patch_to_protocol cl =
     foldl (\<lambda>result (p, change). result(p \<mapsto> to_protocol_change change)) Map.empty cl"

definition file_paths_for_action :: "str option \<Rightarrow> abs_path_buf \<Rightarrow> (str \<times> file_change) list \<Rightarrow> abs_path_buf list" where
  "file_paths_for_action home cwd cl =
     concat (map (\<lambda>(p, change).
       resolve_path_against_base home p cwd #
       (case change of
          UpdateChange _ (Some dest) _ \<Rightarrow> [resolve_path_against_base home dest cwd]
        | _ \<Rightarrow> [])) cl)"

section \<open>Reporting a patch that is being written\<close>

definition progress_chunk :: "update_file_chunk \<Rightarrow> str" where
  "progress_chunk c =
     (case change_context c of
        Some context \<Rightarrow> lit ''@@ '' @ context @ [newline]
      | None \<Rightarrow> lit ''@@'' @ [newline]) @
     concat (map (\<lambda>l. lit ''-'' @ l @ [newline]) (old_lines c)) @
     concat (map (\<lambda>l. lit ''+'' @ l @ [newline]) (new_lines c)) @
     (if is_end_of_file c then lit ''*** End of File'' @ [newline] else [])"

definition format_update_chunks_for_progress :: "update_file_chunk list \<Rightarrow> str" where
  "format_update_chunks_for_progress chunks = concat (map progress_chunk chunks)"

fun hunk_source_path :: "hunk \<Rightarrow> str" where
  "hunk_source_path (AddFile p _) = p"
| "hunk_source_path (DeleteFile p) = p"
| "hunk_source_path (UpdateFile p _ _) = p"

fun progress_change :: "hunk \<Rightarrow> protocol_change" where
  "progress_change (AddFile _ contents) = ProtocolAdd contents"
| "progress_change (DeleteFile _) = ProtocolDelete []"
| "progress_change (UpdateFile _ dest chunks) = ProtocolUpdate (format_update_chunks_for_progress chunks) dest"

definition convert_apply_patch_hunks_to_protocol :: "hunk list \<Rightarrow> (str \<rightharpoonup> protocol_change)" where
  "convert_apply_patch_hunks_to_protocol hs =
     foldl (\<lambda>result h. result(hunk_source_path h \<mapsto> progress_change h)) Map.empty hs"

record patch_apply_updated =
  updated_call_id :: str
  updated_changes :: "str \<rightharpoonup> protocol_change"

text \<open>Instants are milliseconds of a clock that does not go back.\<close>

record diff_consumer =
  consumer_input :: str
  last_progress :: "hunk list option"
  last_sent_at :: "nat option"
  pending_event :: "patch_apply_updated option"

definition new_consumer :: diff_consumer where
  "new_consumer = \<lparr>consumer_input = [], last_progress = None, last_sent_at = None, pending_event = None\<rparr>"

definition BUFFER_INTERVAL :: nat where
  "BUFFER_INTERVAL = 500"

definition push_delta :: "nat \<Rightarrow> str \<Rightarrow> str \<Rightarrow> diff_consumer \<Rightarrow> patch_apply_updated option \<times> diff_consumer" where
  "push_delta now call_id delta c =
     (let c = c\<lparr>consumer_input := consumer_input c @ delta\<rparr> in
      case parse_patch_streaming (consumer_input c) of
        Inl _ \<Rightarrow> (None, c)
      | Inr args \<Rightarrow>
          if hunks args = [] then (None, c)
          else if last_progress c = Some (hunks args) then (None, c)
          else
            (let event = \<lparr>updated_call_id = call_id,
                   updated_changes = convert_apply_patch_hunks_to_protocol (hunks args)\<rparr>;
                 c = c\<lparr>last_progress := Some (hunks args)\<rparr>
             in if (case last_sent_at c of Some t \<Rightarrow> now - t < BUFFER_INTERVAL | None \<Rightarrow> False)
                then (None, c\<lparr>pending_event := Some event\<rparr>)
                else (Some event, c\<lparr>pending_event := None, last_sent_at := Some now\<rparr>)))"

definition flush_update_on_complete :: "nat \<Rightarrow> diff_consumer \<Rightarrow> patch_apply_updated option \<times> diff_consumer" where
  "flush_update_on_complete now c =
     (pending_event c,
      c\<lparr>pending_event := None,
        last_sent_at := if pending_event c \<noteq> None then Some now else last_sent_at c\<rparr>)"

text \<open>A call: its fragments arrive one by one, each at an instant, and the consumer is flushed at the end.\<close>

fun push_all :: "str \<Rightarrow> (nat \<times> str) list \<Rightarrow> diff_consumer \<Rightarrow> patch_apply_updated list \<times> diff_consumer" where
  "push_all call_id [] c = ([], c)"
| "push_all call_id ((now, delta) # ds) c =
     (let (event, c1) = push_delta now call_id delta c; (events, c2) = push_all call_id ds c1
      in (option_list event @ events, c2))"

definition report_call :: "str \<Rightarrow> (nat \<times> str) list \<Rightarrow> nat \<Rightarrow> patch_apply_updated list" where
  "report_call call_id ds end_time =
     (let (events, c) = push_all call_id ds new_consumer
      in events @ option_list (fst (flush_update_on_complete end_time c)))"

section \<open>Properties of the check\<close>

lemma lexical_normalize_normal: "is_normal_path p \<Longrightarrow> lexical_normalize p = p"
  by (erule is_normal_pathE)
    (simp add: lexical_normalize_def components_abs_display foldl_push_Normal push_component_def)

lemma is_patch_path_writable_normal:
  "is_normal_path p \<Longrightarrow> is_patch_path_writable env fs cwd p = can_write_path_with_cwd env fs p cwd"
  by (simp add: is_patch_path_writable_def core_resolve_path_def is_normal_path_absolute
      lexical_normalize_normal)

lemma auto_approve_constrained:
  assumes "assess_patch_safety env os cl approval profile fs cwd level = AutoApprove st b" "approval \<noteq> OnFailure"
  shows "is_write_patch_constrained_to_writable_paths env cl fs cwd"
  using assms by (auto simp: assess_patch_safety_def split: if_splits)

lemma constrained_change:
  assumes "is_write_patch_constrained_to_writable_paths env cl fs cwd" "(p, c) \<in> set cl"
  shows "is_patch_path_writable env fs cwd p \<and>
    (\<forall>diff d content. c = UpdateChange diff (Some d) content \<longrightarrow> is_patch_path_writable env fs cwd d)"
  using assms by (fastforce simp: is_write_patch_constrained_to_writable_paths_def list_all_iff
      split: file_change.splits option.splits)

text \<open>The paths a change shows, which are those its hunk touches.\<close>

fun shown_paths :: "str \<Rightarrow> file_change \<Rightarrow> str set" where
  "shown_paths p (UpdateChange _ (Some d) _) = {p, d}"
| "shown_paths p c = {p}"

lemma hunk_change_shows:
  assumes "hunk_change diff fs sb home cwd h s = Some (Inr c)"
  shows "shown_paths (resolve_path home cwd h) c = touched home cwd h"
  using assms by (cases h; cases "case h of UpdateFile _ d _ \<Rightarrow> d | _ \<Rightarrow> None")
    (auto simp: Let_def abs_join_def map_sum_Inr_iff split: sum.splits prod.splits)

lemma touched_normal: "is_absolute cwd \<Longrightarrow> q \<in> touched home cwd h \<Longrightarrow> is_normal_path q"
  by (cases h; cases "case h of UpdateFile _ d _ \<Rightarrow> d | _ \<Rightarrow> None") (auto simp: resolve_is_normal_path)

lemma constrained_writable:
  assumes "is_write_patch_constrained_to_writable_paths env cl fs cwd" "(p, c) \<in> set cl"
    "q \<in> shown_paths p c" "is_normal_path q"
  shows "can_write_path_with_cwd env fs q cwd"
  using constrained_change [OF assms(1,2)] assms(3,4)
  by (cases "(p, c)" rule: shown_paths.cases) (auto simp: is_patch_path_writable_normal)

lemma collected_change:
  assumes "collect_changes diff fs sb home cwd hs acc s = Some (Inr cs)"
    and "distinct (map (resolve_path home cwd) hs)" "h \<in> set hs"
  shows "\<exists>c. cs (resolve_path home cwd h) = Some c \<and> hunk_change diff fs sb home cwd h s = Some (Inr c)"
  using assms
proof (induction hs arbitrary: acc)
  case (Cons h0 hs)
  then obtain c where c: "hunk_change diff fs sb home cwd h0 s = Some (Inr c)"
    "collect_changes diff fs sb home cwd hs (acc(resolve_path home cwd h0 \<mapsto> c)) s = Some (Inr cs)"
    by (auto split: option.splits sum.splits)
  show ?case
  proof (cases "h = h0")
    case True
    then show ?thesis
      using c collect_changes_keep [OF c(2), of "resolve_path home cwd h0"] Cons.prems(2) by auto
  next
    case False
    then show ?thesis using Cons.IH [OF c(2)] Cons.prems(2,3) by simp
  qed
qed simp

text \<open>Applying a patch changes only files its hunks touch, also when it fails halfway.\<close>

context file_store
begin

lemma apply_touched:
  assumes "is_absolute cwd" "apply_hunks_to_files fs sb home cwd hs s = Some (r, s')" "view s' q \<noteq> view s q"
  shows "\<exists>h \<in> set hs. q \<in> touched home cwd h"
proof (cases r)
  case (Inr aff)
  with assms(2) have "spec_hunks home cwd hs (view s) = Some (view s')"
    using apply_hunks_to_files_ok [OF assms(1)] by blast
  with assms(3) spec_hunks_frame show ?thesis by metis
next
  case (Inl e)
  with assms(2,3) obtain ds h rest f where hs: "hs = ds @ h # rest"
    and f: "spec_hunks home cwd ds (view s) = Some f" "\<forall>q. q \<notin> touched home cwd h \<longrightarrow> view s' q = f q"
    using apply_hunks_to_files_err [OF assms(1)] by blast
  show ?thesis
  proof (rule ccontr)
    assume "\<not> ?thesis"
    then have "q \<notin> touched home cwd h" "\<forall>h \<in> set ds. q \<notin> touched home cwd h" using hs by auto
    with f spec_hunks_frame assms(3) show False by metis
  qed
qed

end

text \<open>What is shown for approval covers what the hunks touch, when no two hunks are for the same path.\<close>

lemma touched_writable:
  assumes "is_absolute cwd" "collect_changes diff fs sb home cwd hs Map.empty s = Some (Inr cs)"
    and "distinct (map (resolve_path home cwd) hs)" "map_of cl = cs"
    and "is_write_patch_constrained_to_writable_paths env cl policy turn_cwd"
    and "h \<in> set hs" "q \<in> touched home cwd h"
  shows "can_write_path_with_cwd env policy q turn_cwd"
proof -
  obtain change where ch: "cs (resolve_path home cwd h) = Some change" "hunk_change diff fs sb home cwd h s = Some (Inr change)"
    using collected_change [OF assms(2,3,6)] by blast
  then have "(resolve_path home cwd h, change) \<in> set cl"
    using assms(4) map_of_SomeD by metis
  then show ?thesis
    using constrained_writable [OF assms(5)] assms(7) ch(2) hunk_change_shows touched_normal [OF assms(1)] by metis
qed

text \<open>
  C2: a patch that is approved without asking changes only files the sandbox policy lets it write, whether
  applying it succeeds or fails halfway, provided that the approval policy is not \<^verbatim>\<open>on-failure\<close> and that no two
  hunks are for the same path (of two hunks for one path only the last is checked, as
  \<^verbatim>\<open>move_destination_unchecked\<close> shows).
\<close>

theorem auto_approved_patch_confined:
  assumes "is_absolute cwd"
    and "maybe_parse_apply_patch_verified query diff (local_file_system should_run tree_os sandboxed) None
      home argv cwd t = Some (VerifiedBody action)"
    and "maybe_parse_apply_patch query argv = Body args"
    and "distinct (map (resolve_path home (action_cwd action)) (hunks args))"
    and "map_of cl = changes action"
    and "assess_patch_safety env os cl approval profile policy turn_cwd level = AutoApprove st b"
    and "approval \<noteq> OnFailure"
    and "apply_hunks_to_files (local_file_system should_run tree_os sandboxed) None home
      (action_cwd action) (hunks args) t = Some (r, t')"
    and "tree_view t' q \<noteq> tree_view t q"
  shows "can_write_path_with_cwd env policy q turn_cwd"
proof -
  have c: "is_absolute (action_cwd action)"
    "collect_changes diff (local_file_system should_run tree_os sandboxed) None home (action_cwd action)
      (hunks args) Map.empty t = Some (Inr (changes action))"
    using verified_body [OF assms(2)] assms(1,3) effective_cwd_absolute by (metis maybe_apply_patch.inject(1))+
  obtain h where h: "h \<in> set (hunks args)" "q \<in> touched home (action_cwd action) h"
    using local_tree.apply_touched [OF c(1) assms(8,9)] by blast
  show ?thesis
    by (rule touched_writable [OF c assms(4,5) auto_approve_constrained [OF assms(6,7)] h])
qed


theorem auto_approved_patch_confined_witness:
  "can_write_path_with_cwd sample_env sample_policy (lit ''/w/f'') [slash]"
proof -
  have p: "lit ''/w/f'' = abs_display [lit ''w'', lit ''f'']" by (simp add: abs_display_def str_eval slash_def)
  have w: "is_patch_path_writable sample_env sample_policy [slash] (abs_display [lit ''w'', lit ''f''])"
    by (simp add: is_patch_path_writable_normal valid_name_lit sandbox_eval metadata_eval)
  have s: "assess_patch_safety sample_env TargetLinux [(lit ''/w/f'', AddChange [])] OnRequest profile_read_only
      sample_policy [slash] WindowsDisabled = AutoApprove LinuxSeccomp False"
    using w by (simp add: p assess_patch_safety_def is_write_patch_constrained_to_writable_paths_def
        profile_read_only_def get_platform_sandbox_def)
  have a: "is_absolute (lit ''/w'')" by (simp add: str_eval path_eval)
  have v: "tree_view [([[119]], DirNode), ([[119], [102]], FileNode [])] (lit ''/w/f'') \<noteq>
      tree_view [] (lit ''/w/f'')"
  proof -
    have "lit ''/w/f'' = abs_display [[119], [102]]" by (simp add: abs_display_def str_eval slash_def)
    moreover have "list_all valid_name [[119], [102]]" by (simp add: valid_name_def str_eval slash_def)
    ultimately show ?thesis by (simp add: tree_view_def node_at_def)
  qed
  show ?thesis
    by (rule auto_approved_patch_confined [OF a sample_patch_verified [unfolded sample_patch_fs_def]
          sample_patch_parsed _ _ s _ _ v])
      (use sample_patch_applied in \<open>simp_all add: sample_patch_action_def sample_patch_fs_def\<close>)
qed

text \<open>
  Only the last change for a path is checked: a hunk that moves a file elsewhere is not seen when a
  later hunk adds the path again, so the destination of the move escapes the check.
\<close>

lemma move_destination_unchecked:
  assumes "hunk_change diff fs sandbox home cwd (UpdateFile p (Some d) cs) s = Some (Inr c)"
  shows "collect_changes diff fs sandbox home cwd [UpdateFile p (Some d) cs, AddFile p content] Map.empty s =
      Some (Inr [resolve_path_against_base home p cwd \<mapsto> AddChange content]) \<and>
    is_write_patch_constrained_to_writable_paths env [(resolve_path_against_base home p cwd, AddChange content)]
      policy turn_cwd = is_patch_path_writable env policy turn_cwd (resolve_path_against_base home p cwd)"
proof -
  have "collect_changes diff fs sandbox home cwd (UpdateFile p (Some d) cs # hs) Map.empty s =
      collect_changes diff fs sandbox home cwd hs [resolve_path_against_base home p cwd \<mapsto> c] s" for hs
    by (simp only: collect_changes.simps assms option.case sum.case) simp
  then show ?thesis by (simp add: is_write_patch_constrained_to_writable_paths_def)
qed

section \<open>Properties of the reports\<close>

definition progress_event :: "str \<Rightarrow> hunk list \<Rightarrow> patch_apply_updated" where
  "progress_event call_id hs =
     \<lparr>updated_call_id = call_id, updated_changes = convert_apply_patch_hunks_to_protocol hs\<rparr>"

text \<open>What was sent, followed by what is pending, ends with the hunks parsed last.\<close>

definition reports :: "str \<Rightarrow> patch_apply_updated list \<Rightarrow> diff_consumer \<Rightarrow> bool" where
  "reports call_id events c \<longleftrightarrow>
     (\<forall>hs. last_progress c = Some hs \<longrightarrow>
        events @ option_list (pending_event c) \<noteq> [] \<and>
        last (events @ option_list (pending_event c)) = progress_event call_id hs) \<and>
     (\<forall>args. parse_patch_streaming (consumer_input c) = Inr args \<longrightarrow> hunks args \<noteq> [] \<longrightarrow>
        last_progress c = Some (hunks args))"

lemma reports_new: "reports call_id [] new_consumer"
proof -
  have "isl (parse_patch_streaming [])"
    by (simp add: parse_patch_streaming_def parse_patch_text_def str_eval trim_def
        check_patch_boundaries_streaming_def check_patch_boundaries_strict_def
        check_start_and_end_lines_strict_def lines_def split_on.simps)
  then show ?thesis by (auto simp: reports_def new_consumer_def)
qed

lemma push_delta_cases:
  assumes "push_delta now call_id delta c = (e, c')"
  obtains
    (same) "e = None" "c' = c\<lparr>consumer_input := consumer_input c @ delta\<rparr>"
      "\<forall>args. parse_patch_streaming (consumer_input c @ delta) = Inr args \<longrightarrow> hunks args \<noteq> [] \<longrightarrow>
         last_progress c = Some (hunks args)"
  | (pending) args t where "parse_patch_streaming (consumer_input c @ delta) = Inr args" "e = None"
      "last_sent_at c = Some t" "now - t < BUFFER_INTERVAL"
      "c' = c\<lparr>consumer_input := consumer_input c @ delta, last_progress := Some (hunks args),
         pending_event := Some (progress_event call_id (hunks args))\<rparr>"
  | (sent) args where "parse_patch_streaming (consumer_input c @ delta) = Inr args"
      "e = Some (progress_event call_id (hunks args))"
      "\<forall>t. last_sent_at c = Some t \<longrightarrow> BUFFER_INTERVAL \<le> now - t"
      "c' = c\<lparr>consumer_input := consumer_input c @ delta, last_progress := Some (hunks args),
         pending_event := None, last_sent_at := Some now\<rparr>"
  using assms by (cases "parse_patch_streaming (consumer_input c @ delta)")
    (auto simp: push_delta_def progress_event_def Let_def split: if_splits option.splits)

lemma reports_push:
  assumes "reports call_id events c" "push_delta now call_id delta c = (e, c')"
  shows "reports call_id (events @ option_list e) c' \<and> consumer_input c' = consumer_input c @ delta"
  using assms(2) by (cases rule: push_delta_cases) (use assms(1) in \<open>auto simp: reports_def\<close>)

lemma push_all_Cons:
  assumes "push_all call_id ((now, delta) # ds) c = (events, c')"
  obtains e c1 rest where "push_delta now call_id delta c = (e, c1)" "push_all call_id ds c1 = (rest, c')"
    "events = option_list e @ rest"
  using assms by (auto split: prod.splits)

lemma reports_push_all:
  assumes "reports call_id events c" "push_all call_id ds c = (events', c')"
  shows "reports call_id (events @ events') c' \<and> consumer_input c' = consumer_input c @ concat (map snd ds)"
  using assms
proof (induction ds arbitrary: c events events')
  case (Cons d ds)
  obtain now delta where d: "d = (now, delta)" by fastforce
  from Cons.prems(2) [unfolded d] show ?case
  proof (rule push_all_Cons)
    fix e c1 rest
    assume p: "push_delta now call_id delta c = (e, c1)" and q: "push_all call_id ds c1 = (rest, c')"
      and e: "events' = option_list e @ rest"
    show ?thesis
      using Cons.IH [OF conjunct1 [OF reports_push [OF Cons.prems(1) p]] q]
        reports_push [OF Cons.prems(1) p] by (simp add: d e)
  qed
qed simp

text \<open>Between two events that are sent lies the interval, so there are few of them.\<close>

lemma push_all_rate:
  assumes "push_all call_id ds c = (events, c')" "last_sent_at c = Some t"
    "sorted (map fst ds)" "\<forall>d \<in> set ds. t \<le> fst d \<and> fst d \<le> end_time" "t \<le> end_time"
  shows "length events \<le> (end_time - t) div BUFFER_INTERVAL"
  using assms
proof (induction ds arbitrary: c events t)
  case (Cons d ds)
  obtain now delta where d: "d = (now, delta)" by fastforce
  have now: "t \<le> now" "now \<le> end_time" "\<forall>d \<in> set ds. now \<le> fst d \<and> fst d \<le> end_time" "sorted (map fst ds)"
    using Cons.prems(3,4) by (auto simp: d)
  from Cons.prems(1) [unfolded d] show ?case
  proof (rule push_all_Cons)
    fix e c1 rest
    assume p: "push_delta now call_id delta c = (e, c1)" and q: "push_all call_id ds c1 = (rest, c')"
      and e: "events = option_list e @ rest"
    from p show ?thesis
    proof (cases rule: push_delta_cases)
      case (sent args)
      then have "length rest \<le> (end_time - now) div BUFFER_INTERVAL"
        using Cons.IH [OF q, of now] now by simp
      moreover have "(end_time - now) div BUFFER_INTERVAL + 1 \<le> (end_time - t) div BUFFER_INTERVAL"
      proof -
        have "end_time - now + BUFFER_INTERVAL \<le> end_time - t"
          using sent(3) Cons.prems(2) now(1,2) by auto
        then have "(end_time - now + BUFFER_INTERVAL) div BUFFER_INTERVAL \<le> (end_time - t) div BUFFER_INTERVAL"
          by (rule div_le_mono)
        then show ?thesis by (simp add: BUFFER_INTERVAL_def)
      qed
      ultimately show ?thesis using e sent(2) by simp
    qed (use Cons.IH [OF q, of t] Cons.prems now e in auto)
  qed
qed simp

lemma push_all_start:
  assumes "push_all call_id ds c = (events, c')" "last_sent_at c = None"
    "sorted (map fst ds)" "\<forall>d \<in> set ds. start \<le> fst d \<and> fst d \<le> end_time"
  shows "length events \<le> (end_time - start) div BUFFER_INTERVAL + 1"
  using assms
proof (induction ds arbitrary: c events)
  case (Cons d ds)
  obtain now delta where d: "d = (now, delta)" by fastforce
  from Cons.prems(1) [unfolded d] show ?case
  proof (rule push_all_Cons)
    fix e c1 rest
    assume p: "push_delta now call_id delta c = (e, c1)" and q: "push_all call_id ds c1 = (rest, c')"
      and e: "events = option_list e @ rest"
    from p show ?thesis
    proof (cases rule: push_delta_cases)
      case (sent args)
      then have "length rest \<le> (end_time - now) div BUFFER_INTERVAL"
        using push_all_rate [OF q, of now end_time] Cons.prems(3,4) by (auto simp: d)
      also have "\<dots> \<le> (end_time - start) div BUFFER_INTERVAL"
        using Cons.prems(4) by (intro div_le_mono) (auto simp: d)
      finally show ?thesis using e sent(2) by simp
    qed (use Cons.IH [OF q] Cons.prems e in auto)
  qed
qed simp

text \<open>
  The reports of a patch that is being written are complete and bounded: when the text received in
  all parses to some hunks, the last report shows exactly these; and with a clock that does not go
  back there are at most two reports more than intervals of 500 ms since the first fragment.
\<close>

theorem report_call_complete_and_bounded:
  assumes "parse_patch_streaming (concat (map snd ds)) = Inr args" "hunks args \<noteq> []"
    and "sorted (map fst ds)" "\<forall>d \<in> set ds. start \<le> fst d \<and> fst d \<le> end_time"
  shows "report_call call_id ds end_time \<noteq> [] \<and>
    updated_changes (last (report_call call_id ds end_time)) = convert_apply_patch_hunks_to_protocol (hunks args) \<and>
    length (report_call call_id ds end_time) \<le> (end_time - start) div 500 + 2"
proof -
  obtain events c where p: "push_all call_id ds new_consumer = (events, c)" by fastforce
  have r: "report_call call_id ds end_time = events @ option_list (pending_event c)"
    by (simp add: report_call_def p flush_update_on_complete_def)
  have "reports call_id events c" "consumer_input c = concat (map snd ds)"
    using reports_push_all [OF reports_new p] by (simp_all add: new_consumer_def)
  then have "report_call call_id ds end_time \<noteq> []"
    "last (report_call call_id ds end_time) = progress_event call_id (hunks args)"
    using assms(1,2) unfolding r reports_def by auto
  moreover have "length events \<le> (end_time - start) div 500 + 1"
    using push_all_start [OF p _ assms(3,4)] by (simp add: new_consumer_def BUFFER_INTERVAL_def)
  ultimately show ?thesis
    by (cases "pending_event c") (auto simp: progress_event_def r)
qed

theorem report_call_complete_and_bounded_witness:
  "\<exists>e. last (report_call [] [(0, print_patch [DeleteFile (lit ''c'')])] 7) = e \<and>
     updated_changes e (lit ''c'') = Some (ProtocolDelete [])"
proof -
  have "list_all wf_hunk [DeleteFile (lit ''c'')]"
    by (simp add: header_path_def clean_line_def lit_def uc_def newline_def is_whitespace_def)
  then have "parse_patch_streaming (concat (map snd [(0 :: nat, print_patch [DeleteFile (lit ''c'')])])) =
      Inr \<lparr>patch = print_patch [DeleteFile (lit ''c'')], hunks = [DeleteFile (lit ''c'')], workdir = None\<rparr>"
    by (simp add: parse_patch_streaming_def parse_patch_text_print print_patch_lines)
  from report_call_complete_and_bounded [OF this, of 0 7 "[]"] show ?thesis
    by (simp add: convert_apply_patch_hunks_to_protocol_def)
qed


end
