(* ===== verification/Tool_Orchestrator.thy ===== *)
theory Tool_Orchestrator
  imports Network_Approval Patch_Safety
begin

text \<open>
  \<^verbatim>\<open>codex-rs/core/src/tools/orchestrator.rs\<close> with the approval store and the traits of
  \<^verbatim>\<open>core/src/tools/sandboxing.rs\<close> and the choice of a sandbox in \<^verbatim>\<open>sandboxing/src/manager.rs\<close>: a tool call is
  approved, attempted in a sandbox and, when the sandbox denied it, attempted again without one. A tool
  runtime is a record of operations. A log of the questions and attempts is kept beside the state, so
  that the theorems can say what came before an attempt. The contract of a runtime's approval rules is
  the locale \<^verbatim>\<open>cautious_runtime\<close>.
\<close>

section \<open>Choosing a sandbox\<close>

datatype sandboxable_preference = PreferAuto | PreferRequire | PreferForbid

definition should_require_platform_sandbox ::
  "file_system_sandbox_policy \<Rightarrow> network_sandbox_policy \<Rightarrow> bool \<Rightarrow> bool" where
  "should_require_platform_sandbox fs network managed =
     (if managed then True
      else if \<not> network_is_enabled network then policy_kind fs \<noteq> ExternalSandbox
      else case policy_kind fs of Restricted \<Rightarrow> \<not> has_full_disk_write_access fs | _ \<Rightarrow> False)"

definition select_initial ::
  "target_os \<Rightarrow> file_system_sandbox_policy \<Rightarrow> network_sandbox_policy \<Rightarrow> sandboxable_preference \<Rightarrow>
   windows_sandbox_level \<Rightarrow> bool \<Rightarrow> sandbox_type" where
  "select_initial os fs network pref level managed =
     (let platform = (case get_platform_sandbox os (level \<noteq> WindowsDisabled) of
            Some s \<Rightarrow> s | None \<Rightarrow> SandboxTypeNone)
      in case pref of
           PreferForbid \<Rightarrow> SandboxTypeNone
         | PreferRequire \<Rightarrow> platform
         | PreferAuto \<Rightarrow> if should_require_platform_sandbox fs network managed then platform else SandboxTypeNone)"

section \<open>The approval store\<close>

type_synonym approval_store = "str \<rightharpoonup> review_decision"

text \<open>Keys are stored serialised; the serialiser may fail.\<close>

definition store_get :: "('k \<Rightarrow> str option) \<Rightarrow> 'k \<Rightarrow> approval_store \<Rightarrow> review_decision option" where
  "store_get ser key store = Option.bind (ser key) store"

definition store_put :: "('k \<Rightarrow> str option) \<Rightarrow> 'k \<Rightarrow> review_decision \<Rightarrow> approval_store \<Rightarrow> approval_store" where
  "store_put ser key d store = (case ser key of None \<Rightarrow> store | Some s \<Rightarrow> store(s \<mapsto> d))"

text \<open>What a tool call can read and change: the store, the network approvals and the rest of the session.\<close>

record 's world =
  tool_approvals :: approval_store
  network_service :: approval_service
  session :: 's

definition with_cached_approval ::
  "('k \<Rightarrow> str option) \<Rightarrow> 'k list \<Rightarrow> ('s world \<Rightarrow> review_decision \<times> 's world) \<Rightarrow> 's world \<Rightarrow> review_decision \<times> 's world" where
  "with_cached_approval ser keys fetch w =
     (if keys = [] then fetch w
      else if list_all (\<lambda>key. store_get ser key (tool_approvals w) = Some ApprovedForSession) keys
      then (ApprovedForSession, w)
      else case fetch w of (d, w) \<Rightarrow>
        (d, if d = ApprovedForSession
            then w\<lparr>tool_approvals := fold (\<lambda>key. store_put ser key ApprovedForSession) keys (tool_approvals w)\<rparr>
            else w))"

section \<open>Runtimes\<close>

record exec_output =
  exit_code :: int
  out_stdout :: str
  out_stderr :: str
  out_aggregated :: str

datatype tool_error =
  Rejected str
| SandboxDenied exec_output "decision_payload option"
| CommandTimedOut exec_output
| ToolFailed str

record permission_request_payload =
  hook_tool_name :: str
  hook_command :: str
  hook_description :: "str option"

record approval_ctx =
  ctx_call_id :: str
  ctx_guardian_review :: "str option"
  ctx_retry_reason :: "str option"
  ctx_network :: "network_approval_context option"

datatype network_approval_mode = ModeImmediate | ModeDeferred

record network_approval_spec =
  spec_has_network :: bool
  spec_mode :: network_approval_mode
  spec_command :: str

record sandbox_attempt =
  attempt_sandbox :: sandbox_type
  attempt_permissions :: permission_profile
  attempt_managed_network :: bool
  attempt_cwd :: abs_path_buf
  attempt_linux_exe :: "str option"
  attempt_legacy_landlock :: bool
  attempt_windows_level :: windows_sandbox_level
  attempt_private_desktop :: bool

record ('rq, 'out, 's) tool_runtime =
  tool_sandbox_mode :: "'rq \<Rightarrow> sandbox_override"
  tool_bypass_approval :: "ask_for_approval \<Rightarrow> bool \<Rightarrow> bool"
  tool_requirement :: "'rq \<Rightarrow> exec_approval_requirement option"
  tool_permission_payload :: "'rq \<Rightarrow> permission_request_payload option"
  tool_wants_no_sandbox :: "ask_for_approval \<Rightarrow> bool"
  tool_start_approval :: "'rq \<Rightarrow> approval_ctx \<Rightarrow> 's world \<Rightarrow> review_decision \<times> 's world"
  tool_preference :: sandboxable_preference
  tool_escalates :: bool
  tool_network_spec :: "'rq \<Rightarrow> network_approval_spec option"
  tool_run :: "'rq \<Rightarrow> sandbox_attempt \<Rightarrow> 's world \<Rightarrow> (tool_error + 'out) \<times> 's world"

text \<open>The default methods of the traits.\<close>

definition default_should_bypass_approval :: "ask_for_approval \<Rightarrow> bool \<Rightarrow> bool" where
  "default_should_bypass_approval policy already_approved = (if already_approved then True else policy = Never)"

definition default_wants_no_sandbox_approval :: "ask_for_approval \<Rightarrow> bool" where
  "default_wants_no_sandbox_approval policy =
     (case policy of
        OnFailure \<Rightarrow> True
      | UnlessTrusted \<Rightarrow> True
      | Never \<Rightarrow> False
      | OnRequest \<Rightarrow> False
      | Granular g \<Rightarrow> sandbox_approval g)"

text \<open>The operations of the session, and the context of the turn.\<close>

record 's session_ops =
  strict_auto_review :: "'s world \<Rightarrow> bool"
  permission_hooks :: "str \<Rightarrow> permission_request_payload \<Rightarrow> 's world \<Rightarrow> hook_decision option \<times> 's world"
  rejection_message :: "str \<Rightarrow> 's world \<Rightarrow> str \<times> 's world"
  new_id :: "'s world \<Rightarrow> str \<times> 's world"

record turn_context =
  turn :: turn_info
  turn_sub_id :: str
  turn_call_id :: str
  turn_cwd :: abs_path_buf
  turn_has_network :: bool
  turn_windows_level :: windows_sandbox_level
  turn_private_desktop :: bool
  turn_linux_exe :: "str option"
  turn_legacy_landlock :: bool

section \<open>Attempts\<close>

datatype orch_event =
  Hooked "hook_decision option"
| Reviewed approval_ctx review_decision
| Attempted sandbox_attempt "tool_error option"

record 's orch =
  orch_world :: "'s world"
  orch_log :: "orch_event list"

definition note_event :: "orch_event \<Rightarrow> 's world \<Rightarrow> 's orch \<Rightarrow> 's orch" where
  "note_event e w st = st\<lparr>orch_world := w, orch_log := orch_log st @ [e]\<rparr>"

definition try_then ::
  "('e + 'a) \<times> 'st \<Rightarrow> ('a \<Rightarrow> 'st \<Rightarrow> ('e + 'b) \<times> 'st) \<Rightarrow> ('e + 'b) \<times> 'st" where
  "try_then r k = (case r of (Inl e, st) \<Rightarrow> (Inl e, st) | (Inr a, st) \<Rightarrow> k a st)"

fun error_of :: "'e + 'a \<Rightarrow> 'e option" where
  "error_of (Inl e) = Some e"
| "error_of (Inr a) = None"

record active_network_approval =
  active_registration :: "str option"
  active_mode :: network_approval_mode

definition into_deferred :: "active_network_approval \<Rightarrow> str option" where
  "into_deferred a = (if active_mode a = ModeDeferred then active_registration a else None)"

definition begin_network_approval ::
  "'s session_ops \<Rightarrow> str \<Rightarrow> bool \<Rightarrow> network_approval_spec option \<Rightarrow> 's world \<Rightarrow>
   active_network_approval option \<times> 's world" where
  "begin_network_approval ops turn_id managed spec w =
     (case spec of
        None \<Rightarrow> (None, w)
      | Some spec \<Rightarrow>
          if \<not> managed \<or> \<not> spec_has_network spec then (None, w)
          else
            let (rid, w) = new_id ops w in
            (Some \<lparr>active_registration = Some rid, active_mode = spec_mode spec\<rparr>,
             w\<lparr>network_service := register_call rid turn_id (spec_command spec) (network_service w)\<rparr>))"

definition finish_immediate_network_approval ::
  "active_network_approval \<Rightarrow> 's world \<Rightarrow> (tool_error + unit) \<times> 's world" where
  "finish_immediate_network_approval a w =
     (case active_registration a of
        None \<Rightarrow> (Inr (), w)
      | Some rid \<Rightarrow>
          let (outcome, s) = take_call_outcome rid (network_service w);
              w = w\<lparr>network_service := unregister_call rid s\<rparr> in
          (case outcome of
             Some DeniedByUser \<Rightarrow> (Inl (Rejected (lit ''rejected by user'')), w)
           | Some (DeniedByPolicy m) \<Rightarrow> (Inl (Rejected m), w)
           | None \<Rightarrow> (Inr (), w)))"

definition finish_deferred_network_approval :: "str option \<Rightarrow> 's world \<Rightarrow> 's world" where
  "finish_deferred_network_approval deferred w =
     (case deferred of
        None \<Rightarrow> w
      | Some rid \<Rightarrow> w\<lparr>network_service := unregister_call rid (network_service w)\<rparr>)"

text \<open>The result that \<^verbatim>\<open>run_attempt\<close> hands on is the one that is logged.\<close>

definition settle_network ::
  "active_network_approval option \<Rightarrow> tool_error + 'out \<Rightarrow> 's world \<Rightarrow> ((tool_error + 'out) \<times> str option) \<times> 's world" where
  "settle_network active result w =
     (case active of
        None \<Rightarrow> ((result, None), w)
      | Some a \<Rightarrow>
          (case active_mode a of
             ModeImmediate \<Rightarrow>
               (case finish_immediate_network_approval a w of
                  (Inl e, w) \<Rightarrow> ((Inl e, None), w)
                | (Inr _, w) \<Rightarrow> ((result, None), w))
           | ModeDeferred \<Rightarrow>
               if \<not> isl result then ((result, into_deferred a), w)
               else ((result, None), finish_deferred_network_approval (into_deferred a) w)))"

definition run_attempt ::
  "('rq, 'out, 's) tool_runtime \<Rightarrow> 's session_ops \<Rightarrow> 'rq \<Rightarrow> turn_context \<Rightarrow> sandbox_attempt \<Rightarrow> bool \<Rightarrow> 's orch \<Rightarrow>
   ((tool_error + 'out) \<times> str option) \<times> 's orch" where
  "run_attempt rt ops rq tc attempt managed st =
     (let (active, w) = begin_network_approval ops (turn_sub_id tc) managed (tool_network_spec rt rq) (orch_world st);
          (result, w) = tool_run rt rq attempt w;
          (r, w) = settle_network active result w
      in (r, note_event (Attempted attempt (error_of (fst r))) w st))"

section \<open>Approval\<close>

definition request_approval ::
  "('rq, 'out, 's) tool_runtime \<Rightarrow> 's session_ops \<Rightarrow> 'rq \<Rightarrow> str \<Rightarrow> approval_ctx \<Rightarrow> bool \<Rightarrow> 's orch \<Rightarrow>
   (tool_error + review_decision) \<times> 's orch" where
  "request_approval rt ops rq run_id ctx evaluate_hooks st =
     (let start = (\<lambda>st. let (d, w) = tool_start_approval rt rq ctx (orch_world st) in
            (Inr d, note_event (Reviewed ctx d) w st))
      in case (if evaluate_hooks then tool_permission_payload rt rq else None) of
           None \<Rightarrow> start st
         | Some payload \<Rightarrow>
             (let (answer, w) = permission_hooks ops run_id payload (orch_world st);
                  st = note_event (Hooked answer) w st
              in case answer of
                   Some HookAllow \<Rightarrow> (Inr Approved, st)
                 | Some (HookDeny m) \<Rightarrow> (Inl (Rejected m), st)
                 | None \<Rightarrow> start st))"

definition reject_if_not_approved ::
  "'s session_ops \<Rightarrow> str option \<Rightarrow> review_decision \<Rightarrow> 's orch \<Rightarrow> (tool_error + unit) \<times> 's orch" where
  "reject_if_not_approved ops guardian_review d st =
     (let reject = (case guardian_review of
            Some review_id \<Rightarrow>
              (let (m, w) = rejection_message ops review_id (orch_world st) in
               (Inl (Rejected m), st\<lparr>orch_world := w\<rparr>))
          | None \<Rightarrow> (Inl (Rejected (lit ''rejected by user'')), st))
      in case d of
           Denied \<Rightarrow> reject
         | Abort \<Rightarrow> reject
         | TimedOut \<Rightarrow> (Inl (Rejected guardian_timeout_message), st)
         | NetworkPolicyAmendment a \<Rightarrow>
             (case amendment_action a of
                RuleAllow \<Rightarrow> (Inr (), st)
              | RuleDeny \<Rightarrow> (Inl (Rejected (lit ''rejected by user'')), st))
         | _ \<Rightarrow> (Inr (), st))"

definition new_review :: "'s session_ops \<Rightarrow> bool \<Rightarrow> 's orch \<Rightarrow> str option \<times> 's orch" where
  "new_review ops wanted st =
     (if wanted then (let (rid, w) = new_id ops (orch_world st) in (Some rid, st\<lparr>orch_world := w\<rparr>)) else (None, st))"

definition ask_and_reject ::
  "('rq, 'out, 's) tool_runtime \<Rightarrow> 's session_ops \<Rightarrow> 'rq \<Rightarrow> turn_context \<Rightarrow> str \<Rightarrow> bool \<Rightarrow> str option \<Rightarrow>
   network_approval_context option \<Rightarrow> bool \<Rightarrow> 's orch \<Rightarrow> (tool_error + unit) \<times> 's orch" where
  "ask_and_reject rt ops rq tc run_id guardian reason network evaluate_hooks st =
     (let (review, st) = new_review ops guardian st;
          ctx = \<lparr>ctx_call_id = turn_call_id tc, ctx_guardian_review = review, ctx_retry_reason = reason,
            ctx_network = network\<rparr>
      in try_then (request_approval rt ops rq run_id ctx evaluate_hooks st)
           (\<lambda>d. reject_if_not_approved ops review d))"

section \<open>The orchestrator\<close>

text \<open>The attempted phase returns whether the call has been approved.\<close>

definition approve_first ::
  "('rq, 'out, 's) tool_runtime \<Rightarrow> 's session_ops \<Rightarrow> 'rq \<Rightarrow> turn_context \<Rightarrow> ask_for_approval \<Rightarrow> bool \<Rightarrow> 's orch \<Rightarrow>
   (tool_error + bool) \<times> 's orch" where
  "approve_first rt ops rq tc approval strict st =
     (let use_guardian = routes_approval_to_guardian (turn tc) \<or> strict;
          requirement = (case tool_requirement rt rq of
            Some r \<Rightarrow> r
          | None \<Rightarrow> default_exec_approval_requirement approval (profile_file_system (turn_profile (turn tc))))
      in case requirement of
           Skip _ _ \<Rightarrow>
             if strict then
               try_then (ask_and_reject rt ops rq tc (turn_call_id tc) True None None False st) (\<lambda>_ st. (Inr True, st))
             else (Inr False, st)
         | ForbiddenCommand reason \<Rightarrow> (Inl (Rejected reason), st)
         | NeedsApproval reason _ \<Rightarrow>
             try_then (ask_and_reject rt ops rq tc (turn_call_id tc) use_guardian reason None (\<not> strict) st)
               (\<lambda>_ st. (Inr True, st)))"

definition initial_sandbox :: "('rq, 'out, 's) tool_runtime \<Rightarrow> target_os \<Rightarrow> 'rq \<Rightarrow> turn_context \<Rightarrow> sandbox_type" where
  "initial_sandbox rt os rq tc =
     (case tool_sandbox_mode rt rq of
        BypassSandboxFirstAttempt \<Rightarrow> SandboxTypeNone
      | NoOverride \<Rightarrow>
          select_initial os (profile_file_system (turn_profile (turn tc))) (profile_network (turn_profile (turn tc)))
            (tool_preference rt) (turn_windows_level tc) (turn_has_network tc))"

definition make_attempt :: "turn_context \<Rightarrow> sandbox_type \<Rightarrow> str option \<Rightarrow> sandbox_attempt" where
  "make_attempt tc sandbox linux_exe =
     \<lparr>attempt_sandbox = sandbox, attempt_permissions = turn_profile (turn tc),
      attempt_managed_network = turn_has_network tc, attempt_cwd = turn_cwd tc, attempt_linux_exe = linux_exe,
      attempt_legacy_landlock = turn_legacy_landlock tc, attempt_windows_level = turn_windows_level tc,
      attempt_private_desktop = turn_private_desktop tc\<rparr>"

definition denial_network_context :: "bool \<Rightarrow> decision_payload option \<Rightarrow> network_approval_context option" where
  "denial_network_context managed decision =
     (if managed then Option.bind decision network_approval_context_from_payload else None)"

definition may_retry ::
  "('rq, 'out, 's) tool_runtime \<Rightarrow> turn_context \<Rightarrow> ask_for_approval \<Rightarrow> decision_payload option \<Rightarrow> bool" where
  "may_retry rt tc approval decision =
     (let network = denial_network_context (turn_has_network tc) decision in
      if decision \<noteq> None \<and> network = None then False
      else if \<not> tool_escalates rt then False
      else if \<not> tool_wants_no_sandbox rt approval then
        approval = OnRequest \<and> network \<noteq> None \<and>
        (case default_exec_approval_requirement approval (profile_file_system (turn_profile (turn tc))) of
           NeedsApproval _ _ \<Rightarrow> True | _ \<Rightarrow> False)
      else True)"

definition build_denial_reason_from_output :: "exec_output \<Rightarrow> str" where
  "build_denial_reason_from_output outp = lit ''command failed; retry without sandbox?''"

definition retry_reason :: "network_approval_context option \<Rightarrow> exec_output \<Rightarrow> str" where
  "retry_reason network outp =
     (case network of
        Some ctx \<Rightarrow> lit ''Network access to '' @ [34] @ context_host ctx @ [34] @ lit '' is blocked by policy.''
      | None \<Rightarrow> build_denial_reason_from_output outp)"

definition approve_retry ::
  "('rq, 'out, 's) tool_runtime \<Rightarrow> 's session_ops \<Rightarrow> 'rq \<Rightarrow> turn_context \<Rightarrow> ask_for_approval \<Rightarrow> bool \<Rightarrow> bool \<Rightarrow>
   exec_output \<Rightarrow> decision_payload option \<Rightarrow> 's orch \<Rightarrow> (tool_error + unit) \<times> 's orch" where
  "approve_retry rt ops rq tc approval strict already_approved outp decision st =
     (let network = denial_network_context (turn_has_network tc) decision;
          bypass = \<not> strict \<and> tool_bypass_approval rt approval already_approved \<and> network = None
      in if bypass then (Inr (), st)
         else ask_and_reject rt ops rq tc (turn_call_id tc @ lit '':retry'')
           (routes_approval_to_guardian (turn tc) \<or> strict) (Some (retry_reason network outp)) network (\<not> strict) st)"

definition after_first ::
  "('rq, 'out, 's) tool_runtime \<Rightarrow> 's session_ops \<Rightarrow> 'rq \<Rightarrow> turn_context \<Rightarrow> ask_for_approval \<Rightarrow> bool \<Rightarrow> bool \<Rightarrow>
   (tool_error + 'out) \<times> str option \<Rightarrow> 's orch \<Rightarrow> (tool_error + 'out \<times> str option) \<times> 's orch" where
  "after_first rt ops rq tc approval strict already_approved attempted st =
     (case attempted of
        (Inr out, deferred) \<Rightarrow> (Inr (out, deferred), st)
      | (Inl (SandboxDenied outp decision), _) \<Rightarrow>
          if may_retry rt tc approval decision then
            try_then (approve_retry rt ops rq tc approval strict already_approved outp decision st)
              (\<lambda>_ st. case run_attempt rt ops rq tc (make_attempt tc SandboxTypeNone None) (turn_has_network tc) st of
                 ((Inl e, _), st) \<Rightarrow> (Inl e, st)
               | ((Inr out, deferred), st) \<Rightarrow> (Inr (out, deferred), st))
          else (Inl (SandboxDenied outp decision), st)
      | (Inl e, _) \<Rightarrow> (Inl e, st))"

definition orchestrate ::
  "('rq, 'out, 's) tool_runtime \<Rightarrow> 's session_ops \<Rightarrow> target_os \<Rightarrow> 'rq \<Rightarrow> turn_context \<Rightarrow> ask_for_approval \<Rightarrow>
   's orch \<Rightarrow> (tool_error + 'out \<times> str option) \<times> 's orch" where
  "orchestrate rt ops os rq tc approval st =
     (let strict = strict_auto_review ops (orch_world st) in
      try_then (approve_first rt ops rq tc approval strict st)
        (\<lambda>already_approved st.
           case run_attempt rt ops rq tc (make_attempt tc (initial_sandbox rt os rq tc) (turn_linux_exe tc))
             (turn_has_network tc) st of
             (attempted, st) \<Rightarrow> after_first rt ops rq tc approval strict already_approved attempted st))"

section \<open>What the log shows\<close>

definition accepted :: "review_decision \<Rightarrow> bool" where
  "accepted d \<longleftrightarrow> resolve_review d \<noteq> PendingDeny"

fun approves :: "orch_event \<Rightarrow> bool" where
  "approves (Hooked answer) \<longleftrightarrow> answer = Some HookAllow"
| "approves (Reviewed ctx d) \<longleftrightarrow> accepted d"
| "approves (Attempted attempt err) \<longleftrightarrow> False"

abbreviation approved_in :: "orch_event list \<Rightarrow> bool" where
  "approved_in es \<equiv> list_ex approves es"

fun is_attempt :: "orch_event \<Rightarrow> bool" where
  "is_attempt (Attempted attempt err) \<longleftrightarrow> True"
| "is_attempt e \<longleftrightarrow> False"

abbreviation only_questions :: "orch_event list \<Rightarrow> bool" where
  "only_questions es \<equiv> list_all (\<lambda>e. \<not> is_attempt e) es"

lemma note_event_log [simp]: "orch_log (note_event e w st) = orch_log st @ [e]"
  by (simp add: note_event_def)

lemma try_then_Inr: "try_then r k = (Inr b, st') \<longleftrightarrow> (\<exists>a st. r = (Inr a, st) \<and> k a st = (Inr b, st'))"
  by (auto simp: try_then_def split: prod.splits sum.splits)

lemma try_thenE:
  assumes "try_then r k = (x, st')"
  obtains (failed) e where "r = (Inl e, st')" "x = Inl e"
  | (then_ok) a st where "r = (Inr a, st)" "k a st = (x, st')"
  using assms by (cases r; cases "fst r") (auto simp: try_then_def)

lemma new_review_log [simp]: "new_review ops wanted st = (review, st') \<Longrightarrow> orch_log st' = orch_log st"
  by (auto simp: new_review_def split: if_splits prod.splits)

lemma reject_log:
  "reject_if_not_approved ops review d st = (r, st') \<Longrightarrow> orch_log st' = orch_log st \<and> (r = Inr () \<longleftrightarrow> accepted d)"
  by (cases d) (auto simp: reject_if_not_approved_def accepted_def split: option.splits prod.splits rule_action.splits)

lemma request_approval_log:
  assumes "request_approval rt ops rq run_id ctx hooks st = (r, st')"
  obtains es where "orch_log st' = orch_log st @ es" "only_questions es" "length es \<le> 2"
    "\<forall>d. r = Inr d \<longrightarrow> accepted d \<longrightarrow> approved_in es"
  using assms
  by (fastforce simp: request_approval_def Let_def accepted_def split: option.splits prod.splits hook_decision.splits if_splits)

lemma ask_log:
  assumes "ask_and_reject rt ops rq tc run_id guardian reason network hooks st = (r, st')"
  obtains es where "orch_log st' = orch_log st @ es" "only_questions es" "length es \<le> 2"
    "r = Inr () \<longrightarrow> approved_in es"
proof -
  obtain review st1 where new: "new_review ops guardian st = (review, st1)" by fastforce
  let ?ctx = "\<lparr>ctx_call_id = turn_call_id tc, ctx_guardian_review = review, ctx_retry_reason = reason, ctx_network = network\<rparr>"
  have "try_then (request_approval rt ops rq run_id ?ctx hooks st1) (\<lambda>d. reject_if_not_approved ops review d) = (r, st')"
    using assms by (simp add: ask_and_reject_def new)
  then show thesis
  proof (cases rule: try_thenE)
    case (failed e)
    from request_approval_log [OF failed(1)] show thesis using that new failed by auto
  next
    case (then_ok d st2)
    from request_approval_log [OF then_ok(1)] obtain es where es: "orch_log st2 = orch_log st @ es" "only_questions es"
      "length es \<le> 2" "accepted d \<longrightarrow> approved_in es"
      using new by auto
    show thesis by (rule that [of es]) (use es reject_log [OF then_ok(2)] in auto)
  qed
qed

definition requirement_for ::
  "('rq, 'out, 's) tool_runtime \<Rightarrow> 'rq \<Rightarrow> turn_context \<Rightarrow> ask_for_approval \<Rightarrow> exec_approval_requirement" where
  "requirement_for rt rq tc approval =
     (case tool_requirement rt rq of
        Some r \<Rightarrow> r
      | None \<Rightarrow> default_exec_approval_requirement approval (profile_file_system (turn_profile (turn tc))))"

lemma ask_then_log:
  assumes "try_then (ask_and_reject rt ops rq tc run_id guardian reason network hooks st) (\<lambda>_ st. (Inr True, st)) = (r, st')"
  obtains es where "orch_log st' = orch_log st @ es" "only_questions es" "length es \<le> 2"
    "\<forall>already. r = Inr already \<longrightarrow> already \<and> approved_in es"
  using assms
proof (cases rule: try_thenE)
  case (failed e)
  from ask_log [OF failed(1)] show thesis using that failed(2) by auto
next
  case (then_ok a st1)
  from ask_log [OF then_ok(1)] show thesis using that then_ok(2) by auto
qed

lemma approve_first_log:
  assumes "approve_first rt ops rq tc approval strict st = (r, st')"
  obtains es where "orch_log st' = orch_log st @ es" "only_questions es" "length es \<le> 2"
    "\<forall>already. r = Inr already \<longrightarrow> (already \<longrightarrow> approved_in es) \<and> (strict \<longrightarrow> already) \<and>
       (case requirement_for rt rq tc approval of Skip _ _ \<Rightarrow> True | NeedsApproval _ _ \<Rightarrow> already | _ \<Rightarrow> False)"
proof (cases "requirement_for rt rq tc approval")
  case (Skip b am)
  show thesis
  proof (cases strict)
    case True
    with assms Skip have "try_then (ask_and_reject rt ops rq tc (turn_call_id tc) True None None False st)
        (\<lambda>_ st. (Inr True, st)) = (r, st')"
      by (simp add: approve_first_def requirement_for_def Let_def)
    from ask_then_log [OF this] obtain es where "orch_log st' = orch_log st @ es" "only_questions es" "length es \<le> 2"
      "\<forall>already. r = Inr already \<longrightarrow> already \<and> approved_in es" by blast
    then show thesis using Skip by (intro that [of es]) auto
  next
    case False
    with assms Skip have "st' = st" "r = Inr False"
      by (auto simp: approve_first_def requirement_for_def Let_def)
    then show thesis using False Skip by (intro that [of "[]"]) auto
  qed
next
  case (NeedsApproval reason am)
  with assms have "try_then (ask_and_reject rt ops rq tc (turn_call_id tc)
      (routes_approval_to_guardian (turn tc) \<or> strict) reason None (\<not> strict) st) (\<lambda>_ st. (Inr True, st)) = (r, st')"
    by (simp add: approve_first_def requirement_for_def Let_def)
  from ask_then_log [OF this] obtain es where "orch_log st' = orch_log st @ es" "only_questions es" "length es \<le> 2"
    "\<forall>already. r = Inr already \<longrightarrow> already \<and> approved_in es" by blast
  then show thesis using NeedsApproval by (intro that [of es]) auto
next
  case (ForbiddenCommand reason)
  with assms show thesis
    unfolding approve_first_def requirement_for_def Let_def by (intro that [of "[]"]) auto
qed

lemma run_attempt_log:
  "run_attempt rt ops rq tc attempt managed st = ((x, deferred), st') \<Longrightarrow>
   orch_log st' = orch_log st @ [Attempted attempt (error_of x)]"
  by (auto simp: run_attempt_def Let_def split: prod.splits)

text \<open>
  The shape of a log: questions, an attempt, and possibly, after a denial by the sandbox, questions and an
  attempt without a sandbox.
\<close>

definition first_attempt :: "('rq, 'out, 's) tool_runtime \<Rightarrow> target_os \<Rightarrow> 'rq \<Rightarrow> turn_context \<Rightarrow> sandbox_attempt" where
  "first_attempt rt os rq tc = make_attempt tc (initial_sandbox rt os rq tc) (turn_linux_exe tc)"

definition second_attempt :: "turn_context \<Rightarrow> sandbox_attempt" where
  "second_attempt tc = make_attempt tc SandboxTypeNone None"

lemma orchestrate_log:
  assumes "orchestrate rt ops os rq tc approval \<lparr>orch_world = w, orch_log = []\<rparr> = (r, st')"
  obtains (no_attempt) e where "only_questions (orch_log st')" "r = Inl e" "length (orch_log st') \<le> 2"
  | (one_attempt) es err fs already where "orch_log st' = es @ Attempted (first_attempt rt os rq tc) err # fs"
      "only_questions es" "only_questions fs" "length es \<le> 2" "length fs \<le> 2"
      "(already \<longrightarrow> approved_in es) \<and> (strict_auto_review ops w \<longrightarrow> already) \<and>
       (case requirement_for rt rq tc approval of Skip _ _ \<Rightarrow> True | NeedsApproval _ _ \<Rightarrow> already | _ \<Rightarrow> False)"
  | (two_attempts) es outp decision fs err already where
      "orch_log st' = es @ Attempted (first_attempt rt os rq tc) (Some (SandboxDenied outp decision)) # fs @
         [Attempted (second_attempt tc) err]"
      "only_questions es" "only_questions fs" "length es \<le> 2" "length fs \<le> 2"
      "(already \<longrightarrow> approved_in es) \<and> (strict_auto_review ops w \<longrightarrow> already) \<and>
       (case requirement_for rt rq tc approval of Skip _ _ \<Rightarrow> True | NeedsApproval _ _ \<Rightarrow> already | _ \<Rightarrow> False)"
      "may_retry rt tc approval decision"
      "approved_in fs \<or> \<not> strict_auto_review ops w \<and> tool_bypass_approval rt approval already \<and>
         denial_network_context (turn_has_network tc) decision = None"
proof -
  define st where "st = \<lparr>orch_world = w, orch_log = []\<rparr>"
  have log: "orch_log st = []" and world: "orch_world st = w" by (simp_all add: st_def)
  let ?strict = "strict_auto_review ops w"
  let ?step = "\<lambda>already_approved st. case run_attempt rt ops rq tc (first_attempt rt os rq tc) (turn_has_network tc) st of
     (x, st) \<Rightarrow> after_first rt ops rq tc approval ?strict already_approved x st"
  have "try_then (approve_first rt ops rq tc approval ?strict st) ?step = (r, st')"
    using assms(1) by (simp add: orchestrate_def first_attempt_def st_def Let_def)
  then show thesis
  proof (cases rule: try_thenE)
    case (failed e)
    from approve_first_log [OF failed(1)] obtain es where "orch_log st' = es" "only_questions es" "length es \<le> 2"
      using log by auto
    then show thesis using no_attempt failed(2) by simp
  next
    case (then_ok already st1)
    from approve_first_log [OF then_ok(1)] obtain es where es: "orch_log st1 = es" "only_questions es" "length es \<le> 2"
      and ok: "(already \<longrightarrow> approved_in es) \<and> (?strict \<longrightarrow> already) \<and>
       (case requirement_for rt rq tc approval of Skip _ _ \<Rightarrow> True | NeedsApproval _ _ \<Rightarrow> already | _ \<Rightarrow> False)"
      using log by auto
    obtain x deferred st2 where run: "run_attempt rt ops rq tc (first_attempt rt os rq tc) (turn_has_network tc) st1 =
        ((x, deferred), st2)" by (metis prod.exhaust)
    note log2 = run_attempt_log [OF run]
    have after: "after_first rt ops rq tc approval ?strict already (x, deferred) st2 = (r, st')"
      using then_ok(2) run by simp
    show thesis
    proof (cases "\<exists>outp decision. x = Inl (SandboxDenied outp decision) \<and> may_retry rt tc approval decision")
      case False
      then have "st' = st2" using after
        by (auto simp: after_first_def split: sum.splits tool_error.splits if_splits)
      then show thesis using one_attempt [of es "error_of x" "[]" already] es ok log2 by simp
    next
      case True
      then obtain outp decision where x: "x = Inl (SandboxDenied outp decision)" "may_retry rt tc approval decision"
        by blast
      obtain q st3 where ask: "approve_retry rt ops rq tc approval ?strict already outp decision st2 = (q, st3)"
        by fastforce
      obtain fs where fs: "orch_log st3 = orch_log st2 @ fs" "only_questions fs" "length fs \<le> 2"
        "q = Inr () \<longrightarrow> approved_in fs \<or> \<not> ?strict \<and> tool_bypass_approval rt approval already \<and>
           denial_network_context (turn_has_network tc) decision = None"
      proof (cases "\<not> ?strict \<and> tool_bypass_approval rt approval already \<and>
           denial_network_context (turn_has_network tc) decision = None")
        case True
        then show thesis using ask that [of "[]"] by (simp add: approve_retry_def)
      next
        case False
        then have "\<exists>run_id g reason n h. ask_and_reject rt ops rq tc run_id g reason n h st2 = (q, st3)"
          using ask unfolding approve_retry_def Let_def if_not_P [OF False] by blast
        then obtain run_id g reason n h where "ask_and_reject rt ops rq tc run_id g reason n h st2 = (q, st3)" by blast
        from ask_log [OF this] show thesis using that by blast
      qed
      show thesis
      proof (cases q)
        case (Inl e)
        then have "st' = st3" using after ask x by (simp add: after_first_def try_then_def)
        then show thesis using one_attempt [of es "error_of x" fs already] es ok log2 fs by simp
      next
        case (Inr u)
        obtain y deferred' st4 where run2: "run_attempt rt ops rq tc (second_attempt tc) (turn_has_network tc) st3 =
            ((y, deferred'), st4)" by (metis prod.exhaust)
        then have "st' = st4" using after ask x Inr
          by (auto simp: after_first_def try_then_def second_attempt_def split: sum.splits)
        then show thesis
          using two_attempts [of es outp decision fs "error_of y" already] es ok log2 fs x run_attempt_log [OF run2] Inr
          by simp
      qed
    qed
  qed
qed


section \<open>Attempts come after approvals\<close>

definition attempts :: "orch_event list \<Rightarrow> sandbox_attempt list" where
  "attempts es = List.map_filter (\<lambda>e. case e of Attempted a err \<Rightarrow> Some a | _ \<Rightarrow> None) es"

lemma attempts_simps [simp]:
  "attempts [] = []" "attempts (es @ fs) = attempts es @ attempts fs"
  "attempts (Attempted a err # es) = a # attempts es"
  by (simp_all add: attempts_def List.map_filter_def)

lemma attempts_questions [simp]: "only_questions es \<Longrightarrow> attempts es = []"
  by (auto simp: attempts_def List.map_filter_def list_all_iff filter_empty_conv split: orch_event.splits)

lemma questions_no_attempt: "only_questions es \<Longrightarrow> Attempted a err \<notin> set es"
  by (auto simp: list_all_iff)

text \<open>The part of a log before an attempt.\<close>

lemma before_attempt:
  assumes "xs @ Attempted a err # ys = es @ Attempted b err' # zs" "only_questions es"
  shows "\<exists>us. xs = es @ us"
proof (cases "length es \<le> length xs")
  case True
  then show ?thesis using assms(1) by (metis append_eq_append_conv_if append_take_drop_id)
next
  case False
  then have "Attempted a err \<in> set es"
    using assms(1) by (metis (no_types, lifting) not_le nth_append_length nth_append nth_mem)
  then show ?thesis using questions_no_attempt [OF assms(2)] by blast
qed

text \<open>
  A tool call makes at most two attempts, the second one without a sandbox and only after the sandbox denied
  the first one; and it asks at most four questions.
\<close>

theorem tool_call_bounded:
  assumes "orchestrate rt ops os rq tc approval \<lparr>orch_world = w, orch_log = []\<rparr> = (r, st)"
  shows "attempts (orch_log st) \<in> {[], [first_attempt rt os rq tc], [first_attempt rt os rq tc, second_attempt tc]} \<and>
    (length (attempts (orch_log st)) = 2 \<longrightarrow>
       (\<exists>outp decision. Attempted (first_attempt rt os rq tc) (Some (SandboxDenied outp decision)) \<in> set (orch_log st))) \<and>
    length (filter (\<lambda>e. \<not> is_attempt e) (orch_log st)) \<le> 4"
proof -
  have le: "length (filter (\<lambda>e. \<not> is_attempt e) es) \<le> length es" for es by simp
  show ?thesis
    using assms
  proof (cases rule: orchestrate_log)
    case no_attempt
    then show ?thesis using le [of "orch_log st"] by (simp del: length_filter_le)
  next
    case (one_attempt es err fs already)
    then show ?thesis using le [of es] le [of fs] by (simp del: length_filter_le)
  next
    case (two_attempts es outp decision fs err already)
    then show ?thesis using le [of es] le [of fs] by (auto simp del: length_filter_le)
  qed
qed

text \<open>
  C8: when approval is needed, or the turn is under strict review, no attempt is made before a hook or a
  reviewer approved the call; and a call that is forbidden is never attempted.
\<close>

theorem no_attempt_before_approval:
  assumes "orchestrate rt ops os rq tc approval \<lparr>orch_world = w, orch_log = []\<rparr> = (r, st)"
    and "orch_log st = xs @ Attempted a err # ys"
  shows "case requirement_for rt rq tc approval of
      Skip _ _ \<Rightarrow> (if strict_auto_review ops w then approved_in xs else True)
    | NeedsApproval _ _ \<Rightarrow> approved_in xs
    | ForbiddenCommand _ \<Rightarrow> False"
proof -
  have "\<exists>es already us. xs = es @ us \<and> (already \<longrightarrow> approved_in es) \<and> (strict_auto_review ops w \<longrightarrow> already) \<and>
       (case requirement_for rt rq tc approval of Skip _ _ \<Rightarrow> True | NeedsApproval _ _ \<Rightarrow> already | _ \<Rightarrow> False)"
    using assms(1)
  proof (cases rule: orchestrate_log)
    case no_attempt
    then show ?thesis using assms(2) by simp
  next
    case (one_attempt es err' fs already)
    then show ?thesis using before_attempt [of xs a err ys es _ err' fs] assms(2) by auto
  next
    case (two_attempts es outp decision fs err' already)
    then show ?thesis using before_attempt [of xs a err ys es] assms(2) by (metis orch.select_convs(1))
  qed
  then show ?thesis by (auto split: exec_approval_requirement.splits)
qed

section \<open>Cautious runtimes\<close>

text \<open>
  The contract of the two approval rules a runtime may override: an unapproved retry goes unasked only
  under \<^verbatim>\<open>Never\<close>, and under \<^verbatim>\<open>Never\<close> there is no retry without a sandbox.
\<close>

locale cautious_runtime =
  fixes bypass :: "ask_for_approval \<Rightarrow> bool \<Rightarrow> bool" and wants :: "ask_for_approval \<Rightarrow> bool"
  assumes bypass_unapproved: "bypass p False \<Longrightarrow> p = Never"
    and wants_never: "\<not> wants Never"
begin

lemma retry_was_approved:
  assumes "tool_bypass_approval rt = bypass" "tool_wants_no_sandbox rt = wants"
    and "orchestrate rt ops os rq tc approval \<lparr>orch_world = w, orch_log = []\<rparr> = (r, st)"
    and "orch_log st = xs @ [Attempted a err]" "attempts xs \<noteq> []"
  shows "approval \<noteq> Never \<and> approved_in xs \<and> attempt_sandbox a = SandboxTypeNone"
  using assms(3)
proof (cases rule: orchestrate_log)
  case no_attempt
  then show ?thesis using assms(4) by simp
next
  case (one_attempt es err' fs already)
  then have "attempts xs @ [a] = [first_attempt rt os rq tc]"
    using assms(4) by (metis attempts_questions attempts_simps append_Nil append_Nil2 append.assoc)
  then show ?thesis using assms(5) by simp
next
  case (two_attempts es outp decision fs err' already)
  then have x: "xs = es @ Attempted (first_attempt rt os rq tc) (Some (SandboxDenied outp decision)) # fs"
    "a = second_attempt tc"
    using assms(4) by (metis append.assoc append_Cons append1_eq_conv orch_event.inject(3))+
  have never: "approval \<noteq> Never"
    using two_attempts(7) wants_never assms(2) by (auto simp: may_retry_def Let_def split: if_splits)
  have "approved_in es \<or> approved_in fs"
    using two_attempts(6,8) bypass_unapproved never assms(1) by (cases already) auto
  then show ?thesis using x never by (auto simp: second_attempt_def make_attempt_def)
qed

end

interpretation default_rules: cautious_runtime default_should_bypass_approval default_wants_no_sandbox_approval
  by unfold_locales (auto simp: default_should_bypass_approval_def default_wants_no_sandbox_approval_def)


section \<open>Approvals for the session\<close>

definition all_cached :: "('k \<Rightarrow> str option) \<Rightarrow> 'k list \<Rightarrow> 's world \<Rightarrow> bool" where
  "all_cached ser keys w \<longleftrightarrow>
     keys \<noteq> [] \<and> list_all (\<lambda>key. store_get ser key (tool_approvals w) = Some ApprovedForSession) keys"

text \<open>
  The stores a session can reach, with the serialised keys a reviewer approved for the session. While a
  question is open other calls may ask and store answers: the store is any one reached by then.
\<close>

inductive approval_history :: "'s world \<Rightarrow> str set \<Rightarrow> bool" where
  history_start: "tool_approvals w = Map.empty \<Longrightarrow> approval_history w {}"
| history_other: "\<lbrakk>approval_history w given; tool_approvals w' = tool_approvals w\<rbrakk> \<Longrightarrow> approval_history w' given"
| history_asked:
    "\<lbrakk>\<not> all_cached id keys w; with_cached_approval id keys fetch w = (d, w');
      approval_history (snd (fetch w)) given\<rbrakk> \<Longrightarrow>
     approval_history w' (given \<union> (if d = ApprovedForSession then {s. Some s \<in> set keys} else {}))"

lemma fold_store_put:
  "fold (\<lambda>key. store_put ser key d) keys store s = (if Some s \<in> set (map ser keys) then Some d else store s)"
  by (induction keys arbitrary: store) (auto simp: store_put_def split: option.splits)

lemma cached_approval_ser: "with_cached_approval ser keys fetch w = with_cached_approval id (map ser keys) fetch w"
proof -
  have "fold (\<lambda>key. store_put ser key d) keys store = fold (\<lambda>key. store_put id key d) (map ser keys) store" for d store
    by (rule ext) (simp only: fold_store_put, simp)
  then show ?thesis
    by (auto simp: with_cached_approval_def store_get_def list_all_iff split: prod.splits)
qed

lemma approval_history_only_given:
  "approval_history w given \<Longrightarrow> (case tool_approvals w s of Some d \<Rightarrow> d = ApprovedForSession \<and> s \<in> given | None \<Rightarrow> s \<notin> given)"
proof (induction rule: approval_history.induct)
  case (history_asked keys w fetch d w' given)
  have w': "tool_approvals w' = (if d = ApprovedForSession
      then fold (\<lambda>key. store_put id key ApprovedForSession) keys (tool_approvals (snd (fetch w)))
      else tool_approvals (snd (fetch w)))"
    using history_asked(1,2) by (cases "keys = []")
      (auto simp: with_cached_approval_def all_cached_def split: prod.splits if_splits)
  show ?case using history_asked.IH unfolding w' by (simp add: fold_store_put split: if_splits option.splits)
qed (auto split: option.splits)

text \<open>
  A question is answered from the store, against what the reviewer would say now, only when every one
  of its keys was approved for the session before, whatever was asked meanwhile.
\<close>

theorem cached_answer_was_given:
  assumes "approval_history w given"
    and "with_cached_approval ser keys fetch w = (d, w')" "fst (fetch w) \<noteq> d"
  shows "d = ApprovedForSession \<and> w' = w \<and> set (map ser keys) \<subseteq> Some ` given"
proof -
  have cached: "all_cached ser keys w" "d = ApprovedForSession" "w' = w"
    using assms(2,3) by (auto simp: with_cached_approval_def all_cached_def split: if_splits prod.splits)
  have "s \<in> given" if "tool_approvals w s = Some ApprovedForSession" for s
    using approval_history_only_given [OF assms(1), of s] that by simp
  then show ?thesis using cached
    by (force simp: all_cached_def list_all_iff store_get_def bind_eq_Some_conv)
qed

section \<open>A sample call\<close>

definition sample_turn_context :: turn_context where
  "sample_turn_context = \<lparr>turn = sample_turn\<lparr>turn_policy := OnFailure\<rparr>, turn_sub_id = [], turn_call_id = [],
     turn_cwd = [slash], turn_has_network = False, turn_windows_level = WindowsDisabled, turn_private_desktop = False,
     turn_linux_exe = None,
     turn_legacy_landlock = False\<rparr>"

definition sample_output :: exec_output where
  "sample_output = \<lparr>exit_code = 1, out_stdout = [], out_stderr = lit ''sandbox'', out_aggregated = []\<rparr>"

definition sample_runtime :: "(unit, nat, unit) tool_runtime" where
  "sample_runtime = \<lparr>tool_sandbox_mode = (\<lambda>_. NoOverride), tool_bypass_approval = default_should_bypass_approval,
     tool_requirement = (\<lambda>_. Some (NeedsApproval None None)), tool_permission_payload = (\<lambda>_. None),
     tool_wants_no_sandbox = default_wants_no_sandbox_approval,
     tool_start_approval = (\<lambda>_ ctx w. with_cached_approval Some [lit ''key''] (\<lambda>w. (ApprovedForSession, w)) w),
     tool_preference = PreferRequire, tool_escalates = True, tool_network_spec = (\<lambda>_. None),
     tool_run = (\<lambda>_ attempt w. (if attempt_sandbox attempt = SandboxTypeNone then Inr 0
       else Inl (SandboxDenied sample_output None), w))\<rparr>"

definition sample_ops :: "unit session_ops" where
  "sample_ops = \<lparr>strict_auto_review = (\<lambda>_. False), permission_hooks = (\<lambda>_ _ w. (None, w)),
     rejection_message = (\<lambda>_ w. ([], w)), new_id = (\<lambda>w. ([], w))\<rparr>"

definition sample_world :: "unit world" where
  "sample_world = \<lparr>tool_approvals = Map.empty, network_service = new_service, session = ()\<rparr>"

definition sample_ctx :: approval_ctx where
  "sample_ctx = \<lparr>ctx_call_id = [], ctx_guardian_review = None, ctx_retry_reason = None, ctx_network = None\<rparr>"

definition sample_log :: "orch_event list" where
  "sample_log =
     [Reviewed sample_ctx ApprovedForSession,
      Attempted (make_attempt sample_turn_context LinuxSeccomp None) (Some (SandboxDenied sample_output None))]"

lemmas sample_eval = sample_turn_context_def sample_runtime_def sample_ops_def sample_ctx_def

abbreviation sample_approved_world :: "unit world" where
  "sample_approved_world \<equiv> sample_world\<lparr>tool_approvals := [lit ''key'' \<mapsto> ApprovedForSession]\<rparr>"

lemma sample_answer:
  "with_cached_approval Some [lit ''key''] (\<lambda>w. (ApprovedForSession, w)) sample_world =
   (ApprovedForSession, sample_approved_world)"
  by (simp add: with_cached_approval_def store_get_def store_put_def sample_world_def)

lemma sample_question:
  "ask_and_reject sample_runtime sample_ops () sample_turn_context run_id False None None b
     \<lparr>orch_world = sample_world, orch_log = []\<rparr> =
   (Inr (), \<lparr>orch_world = sample_approved_world, orch_log = [Reviewed sample_ctx ApprovedForSession]\<rparr>)"
proof -
  have "tool_permission_payload sample_runtime () = None"
    "tool_start_approval sample_runtime () ctx sample_world = (ApprovedForSession, sample_approved_world)"
    "turn_call_id sample_turn_context = []" for ctx
    by (simp_all add: sample_runtime_def sample_answer sample_turn_context_def)
  then show ?thesis
    by (simp add: ask_and_reject_def new_review_def, simp add: request_approval_def, simp add: try_then_def,
        simp add: note_event_def, simp add: reject_if_not_approved_def, simp add: sample_ctx_def)
qed

lemma sample_approved:
  "approve_first sample_runtime sample_ops () sample_turn_context OnFailure False \<lparr>orch_world = sample_world, orch_log = []\<rparr> =
   (Inr True, \<lparr>orch_world = sample_approved_world, orch_log = [Reviewed sample_ctx ApprovedForSession]\<rparr>)"
proof -
  have "tool_requirement sample_runtime () = Some (NeedsApproval None None)"
    "routes_approval_to_guardian (turn sample_turn_context) = False"
    by (simp_all add: sample_runtime_def routes_approval_to_guardian_def sample_turn_context_def sample_turn_def)
  then show ?thesis by (simp add: approve_first_def sample_question try_then_def)
qed

lemma sample_attempt:
  "run_attempt sample_runtime sample_ops () sample_turn_context (make_attempt sample_turn_context s e) b st =
   (if s = SandboxTypeNone then (Inr 0, None) else (Inl (SandboxDenied sample_output None), None),
    note_event (Attempted (make_attempt sample_turn_context s e)
      (if s = SandboxTypeNone then None else Some (SandboxDenied sample_output None))) (orch_world st) st)"
  by (simp add: run_attempt_def begin_network_approval_def settle_network_def sample_runtime_def make_attempt_def)

lemma sample_sandbox: "initial_sandbox sample_runtime TargetLinux () sample_turn_context = LinuxSeccomp"
  by (simp add: initial_sandbox_def select_initial_def get_platform_sandbox_def sample_runtime_def)

lemma sample_retry:
  "may_retry sample_runtime sample_turn_context OnFailure None"
  "approve_retry sample_runtime sample_ops () sample_turn_context OnFailure False True outp None st = (Inr (), st)"
  by (simp_all add: may_retry_def approve_retry_def denial_network_context_def sample_runtime_def
      default_wants_no_sandbox_approval_def default_should_bypass_approval_def)

lemma sample_call:
  "orchestrate sample_runtime sample_ops TargetLinux () sample_turn_context OnFailure
     \<lparr>orch_world = sample_world, orch_log = []\<rparr> =
   (Inr (0, None), \<lparr>orch_world = sample_approved_world,
      orch_log = sample_log @ [Attempted (make_attempt sample_turn_context SandboxTypeNone None) None]\<rparr>)"
proof -
  have "strict_auto_review sample_ops w = False" "turn_linux_exe sample_turn_context = None" for w
    by (simp_all add: sample_ops_def sample_turn_context_def)
  then show ?thesis
    by (simp add: orchestrate_def sample_approved try_then_def sample_sandbox sample_attempt after_first_def sample_retry
        note_event_def sample_log_def)
qed

theorem tool_call_bounded_witness:
  "attempts (sample_log @ [Attempted (make_attempt sample_turn_context SandboxTypeNone None) None]) \<in>
   {[], [first_attempt sample_runtime TargetLinux () sample_turn_context],
    [first_attempt sample_runtime TargetLinux () sample_turn_context, second_attempt sample_turn_context]}"
  using tool_call_bounded [OF sample_call] by simp

theorem no_attempt_before_approval_witness: "approved_in [Reviewed sample_ctx ApprovedForSession]"
proof -
  have "sample_log @ [Attempted (make_attempt sample_turn_context SandboxTypeNone None) None] =
      [Reviewed sample_ctx ApprovedForSession] @
      Attempted (make_attempt sample_turn_context LinuxSeccomp None) (Some (SandboxDenied sample_output None)) #
      [Attempted (make_attempt sample_turn_context SandboxTypeNone None) None]"
    by (simp add: sample_log_def)
  from no_attempt_before_approval [OF sample_call, unfolded orch.select_convs, OF this] show ?thesis
    by (simp add: requirement_for_def sample_runtime_def)
qed

theorem cached_answer_was_given_witness:
  "\<exists>given. set (map Some [lit ''key'']) \<subseteq> Some ` given"
proof -
  let ?fetch = "\<lambda>w :: unit world. (ApprovedForSession, w)"
  let ?w = "sample_world\<lparr>tool_approvals := [lit ''key'' \<mapsto> ApprovedForSession]\<rparr>"
  have "with_cached_approval id [Some (lit ''key'')] ?fetch sample_world = (ApprovedForSession, ?w)"
    by (simp add: with_cached_approval_def store_get_def store_put_def sample_world_def)
  then have h: "approval_history ?w ({} \<union> (if ApprovedForSession = ApprovedForSession
      then {s. Some s \<in> set [Some (lit ''key'')]} else {}))"
    by (intro history_asked [of _ sample_world ?fetch])
      (simp_all add: all_cached_def store_get_def sample_world_def history_start)
  have c: "with_cached_approval Some [lit ''key''] (\<lambda>w. (Denied, w)) ?w = (ApprovedForSession, ?w)"
    by (simp add: with_cached_approval_def store_get_def)
  have "set (map Some [lit ''key'']) \<subseteq> Some ` {s. Some s \<in> set [Some (lit ''key'')]}"
    using cached_answer_was_given [OF h c] by simp
  then show ?thesis by blast
qed

end
