(* ===== verification/Patch_Runtime.thy ===== *)
theory Patch_Runtime
  imports Granted_Access Tool_Orchestrator
begin

text \<open>
  The patch tool from the call to the files: \<^verbatim>\<open>codex-rs/core/src/tools/handlers/apply_patch.rs\<close> verifies a
  patch, assesses it and hands it to the orchestrator; \<^verbatim>\<open>core/src/tools/runtimes/apply_patch.rs\<close> asks for
  approval and applies it inside the sandbox of the attempt; \<^verbatim>\<open>is_likely_sandbox_denied\<close>
  (\<^verbatim>\<open>core/src/exec.rs\<close>) recognises a denial in the output; \<^verbatim>\<open>ToolEmitter::finish\<close>
  (\<^verbatim>\<open>core/src/tools/events.rs\<close>) turns the outcome into the answer for the model. The theorems compose the
  patch engine, the policies, the grants and the orchestrator.
\<close>

section \<open>Recognising a denial\<close>

definition SANDBOX_DENIED_KEYWORDS :: "str list" where
  "SANDBOX_DENIED_KEYWORDS = map lit [''operation not permitted'', ''permission denied'', ''read-only file system'',
     ''seccomp'', ''sandbox'', ''landlock'', ''failed to write file'']"

text \<open>
  Searched for ASCII words, a text in lower case is the one below: besides the ASCII letters only the
  Kelvin sign and the dotted capital I have ASCII letters in their lower case.
\<close>

definition lowercase_char :: "uchar \<Rightarrow> str" where
  "lowercase_char c = (if c = 0x212A then [107] else if c = 0x130 then [105, 0x307] else [to_ascii_lowercase_char c])"

definition to_lowercase :: "str \<Rightarrow> str" where
  "to_lowercase s = concat (map lowercase_char s)"

definition QUICK_REJECT_EXIT_CODES :: "int list" where
  "QUICK_REJECT_EXIT_CODES = [2, 126, 127]"

definition EXIT_CODE_SIGNAL_BASE :: int where
  "EXIT_CODE_SIGNAL_BASE = 128"

definition SIGSYS_CODE :: int where
  "SIGSYS_CODE = 31"

definition has_sandbox_keyword :: "exec_output \<Rightarrow> bool" where
  "has_sandbox_keyword outp \<longleftrightarrow>
     list_ex (\<lambda>section. list_ex (\<lambda>needle. str_contains (to_lowercase section) needle) SANDBOX_DENIED_KEYWORDS)
       [out_stderr outp, out_stdout outp, out_aggregated outp]"

definition is_likely_sandbox_denied :: "sandbox_type \<Rightarrow> exec_output \<Rightarrow> bool" where
  "is_likely_sandbox_denied sandbox outp =
     (if sandbox = SandboxTypeNone \<or> exit_code outp = 0 then False
      else if has_sandbox_keyword outp then True
      else if exit_code outp \<in> set QUICK_REJECT_EXIT_CODES then False
      else sandbox = LinuxSeccomp \<and> exit_code outp = EXIT_CODE_SIGNAL_BASE + SIGSYS_CODE)"

section \<open>The runtime\<close>

record fs_sandbox_context =
  sbx_permissions :: permission_profile
  sbx_cwd :: "abs_path_buf option"
  sbx_windows_level :: windows_sandbox_level
  sbx_private_desktop :: bool
  sbx_legacy_landlock :: bool

record apply_patch_request =
  patch_action :: apply_patch_action
  patch_file_paths :: "abs_path_buf list"
  patch_changes :: "str \<rightharpoonup> protocol_change"
  patch_approval :: exec_approval_requirement
  patch_permissions :: "additional_permission_profile option"
  patch_preapproved :: bool

text \<open>What the guardian is shown, and the questions a runtime can put to the reviewers of the session.\<close>

datatype guardian_request =
  GuardianPatch str abs_path_buf "abs_path_buf list" str
| GuardianCommand str "str list" abs_path_buf sandbox_permissions "additional_permission_profile option" "str option"
    "bool option"

record command_question =
  question_call :: str
  question_command :: "str list"
  question_cwd :: abs_path_buf
  question_reason :: "str option"
  question_network :: "network_approval_context option"
  question_amendment :: "str list option"
  question_permissions :: "additional_permission_profile option"

record 's reviewers =
  guardian_review_request :: "str \<Rightarrow> guardian_request \<Rightarrow> str option \<Rightarrow> 's world \<Rightarrow> review_decision \<times> 's world"
  request_patch_approval :: "str \<Rightarrow> (str \<rightharpoonup> protocol_change) \<Rightarrow> str option \<Rightarrow> 's world \<Rightarrow> review_decision option \<times> 's world"
  request_command_approval :: "command_question \<Rightarrow> 's world \<Rightarrow> review_decision \<times> 's world"

text \<open>A question whose channel is closed counts as denied.\<close>

definition ask_patch ::
  "'s reviewers \<Rightarrow> str \<Rightarrow> (str \<rightharpoonup> protocol_change) \<Rightarrow> str option \<Rightarrow> 's world \<Rightarrow> review_decision \<times> 's world" where
  "ask_patch rv call_id cs reason w =
     (case request_patch_approval rv call_id cs reason w of (answer, w) \<Rightarrow>
        (case answer of Some d \<Rightarrow> d | None \<Rightarrow> Denied, w))"

definition patch_start_approval ::
  "'s reviewers \<Rightarrow> (abs_path_buf \<Rightarrow> str option) \<Rightarrow> apply_patch_request \<Rightarrow> approval_ctx \<Rightarrow> 's world \<Rightarrow>
   review_decision \<times> 's world" where
  "patch_start_approval rv ser rq ctx w =
     (case ctx_guardian_review ctx of
        Some review_id \<Rightarrow>
          guardian_review_request rv review_id
            (GuardianPatch (ctx_call_id ctx) (action_cwd (patch_action rq)) (patch_file_paths rq)
              (action_patch (patch_action rq)))
            (ctx_retry_reason ctx) w
      | None \<Rightarrow>
          if patch_preapproved rq \<and> ctx_retry_reason ctx = None then (Approved, w)
          else case ctx_retry_reason ctx of
            Some reason \<Rightarrow> ask_patch rv (ctx_call_id ctx) (patch_changes rq) (Some reason) w
          | None \<Rightarrow>
              with_cached_approval ser (patch_file_paths rq)
                (ask_patch rv (ctx_call_id ctx) (patch_changes rq) None) w)"

definition patch_wants_no_sandbox_approval :: "ask_for_approval \<Rightarrow> bool" where
  "patch_wants_no_sandbox_approval policy =
     (case policy of
        Never \<Rightarrow> False
      | Granular g \<Rightarrow> sandbox_approval g
      | OnFailure \<Rightarrow> True
      | OnRequest \<Rightarrow> True
      | UnlessTrusted \<Rightarrow> True)"

text \<open>The outer option is the panic of a profile that cannot be rebuilt.\<close>

definition file_system_sandbox_context_for_attempt ::
  "apply_patch_request \<Rightarrow> sandbox_attempt \<Rightarrow> fs_sandbox_context option option" where
  "file_system_sandbox_context_for_attempt rq attempt =
     (if attempt_sandbox attempt = SandboxTypeNone then Some None
      else map_option (\<lambda>pr. Some \<lparr>sbx_permissions = pr, sbx_cwd = Some (attempt_cwd attempt),
              sbx_windows_level = attempt_windows_level attempt,
              sbx_private_desktop = attempt_private_desktop attempt,
              sbx_legacy_landlock = attempt_legacy_landlock attempt\<rparr>)
            (effective_permission_profile (attempt_permissions attempt) (patch_permissions rq)))"

text \<open>A panic ends the task of the call; it is the failure below, which the lemmas rule out.\<close>

definition task_panicked :: tool_error where
  "task_panicked = ToolFailed (lit ''task panicked'')"

definition patch_output :: "'s patch_run \<Rightarrow> exec_output" where
  "patch_output r = \<lparr>exit_code = (if isl (run_result r) then 1 else 0), out_stdout = run_stdout r,
     out_stderr = run_stderr r, out_aggregated = run_stdout r @ run_stderr r\<rparr>"

definition patch_tool_run ::
  "('s, fs_sandbox_context) executor_file_system option \<Rightarrow> str option \<Rightarrow> apply_patch_request \<Rightarrow> sandbox_attempt \<Rightarrow>
   's world \<Rightarrow> (tool_error + exec_output) \<times> 's world" where
  "patch_tool_run environment home rq attempt w =
     (case environment of
        None \<Rightarrow> (Inl (Rejected (lit ''apply_patch is unavailable in this session'')), w)
      | Some fs \<Rightarrow>
          (case file_system_sandbox_context_for_attempt rq attempt of
             None \<Rightarrow> (Inl task_panicked, w)
           | Some sandbox \<Rightarrow>
               (case apply_patch fs sandbox home (action_patch (patch_action rq)) (action_cwd (patch_action rq))
                       (session w) of
                  None \<Rightarrow> (Inl task_panicked, w)
                | Some r \<Rightarrow>
                    (if isl (run_result r) \<and> is_likely_sandbox_denied (attempt_sandbox attempt) (patch_output r)
                     then Inl (SandboxDenied (patch_output r) None) else Inr (patch_output r),
                     w\<lparr>session := run_state r\<rparr>))))"

definition patch_runtime ::
  "'s reviewers \<Rightarrow> (abs_path_buf \<Rightarrow> str option) \<Rightarrow> ('s, fs_sandbox_context) executor_file_system option \<Rightarrow>
   str option \<Rightarrow> (apply_patch_request, exec_output, 's) tool_runtime" where
  "patch_runtime rv ser environment home =
     \<lparr>tool_sandbox_mode = (\<lambda>_. NoOverride),
      tool_bypass_approval = default_should_bypass_approval,
      tool_requirement = (\<lambda>rq. Some (patch_approval rq)),
      tool_permission_payload = (\<lambda>rq. Some \<lparr>hook_tool_name = lit ''apply_patch'',
        hook_command = action_patch (patch_action rq), hook_description = None\<rparr>),
      tool_wants_no_sandbox = patch_wants_no_sandbox_approval,
      tool_start_approval = patch_start_approval rv ser,
      tool_preference = PreferAuto,
      tool_escalates = True,
      tool_network_spec = (\<lambda>_. None),
      tool_run = patch_tool_run environment home\<rparr>"

section \<open>The handler\<close>

record 's patch_env =
  pe_os :: os_env
  pe_target :: target_os
  pe_globs :: glob_builder
  pe_environment :: "('s, fs_sandbox_context) executor_file_system option"
  pe_remote :: bool
  pe_ops :: "'s session_ops"
  pe_reviewers :: "'s reviewers"
  pe_grants :: "'s world \<Rightarrow> grant_state"
  pe_query :: "str \<Rightarrow> extract_heredoc_error + query_match list"
  pe_diff :: "str \<Rightarrow> str \<Rightarrow> str"
  pe_entries :: "(str \<rightharpoonup> file_change) \<Rightarrow> (str \<times> file_change) list"
  pe_path_key :: "abs_path_buf \<Rightarrow> str option"
  pe_format :: "bool \<Rightarrow> exec_output \<Rightarrow> str"

definition write_permissions_for_paths ::
  "os_env \<Rightarrow> abs_path_buf list \<Rightarrow> file_system_sandbox_policy \<Rightarrow> abs_path_buf \<Rightarrow> additional_permission_profile option" where
  "write_permissions_for_paths env paths policy cwd =
     (let parents = map (\<lambda>p. case parent p of Some q \<Rightarrow> q | None \<Rightarrow> p) paths;
          write_paths = map (env_absolute env)
            (sort_key abs_names (remdups (filter (\<lambda>p. \<not> can_write_path_with_cwd env policy p cwd) parents)))
      in if write_paths = [] then None
         else case normalize_additional_permissions env
                \<lparr>add_network = None, add_file_system = Some (from_read_write_roots (Some []) (Some write_paths))\<rparr> of
           Inl _ \<Rightarrow> None
         | Inr a \<Rightarrow> Some a)"

definition granted_policy :: "'s patch_env \<Rightarrow> turn_context \<Rightarrow> 's world \<Rightarrow> file_system_sandbox_policy" where
  "granted_policy pe tc w =
     effective_file_system_sandbox_policy (profile_file_system (turn_profile (turn tc)))
       (merge_permission_profiles (session_granted (pe_grants pe w)) (granted_turn_permissions (pe_grants pe w)))"

definition effective_patch_permissions ::
  "'s patch_env \<Rightarrow> turn_context \<Rightarrow> apply_patch_action \<Rightarrow> 's world \<Rightarrow>
   abs_path_buf list \<times> effective_additional_permissions \<times> file_system_sandbox_policy" where
  "effective_patch_permissions pe tc action w =
     (let paths = file_paths_for_action (home_dir (pe_os pe)) (action_cwd action) (pe_entries pe (changes action));
          policy = granted_policy pe tc w
      in (paths,
          apply_granted_turn_permissions (pe_globs pe) (pe_os pe) (pe_grants pe w) (turn_cwd tc) UseDefault
            (write_permissions_for_paths (pe_os pe) paths policy (turn_cwd tc)),
          policy))"

text \<open>
  The answer for the model: \<open>Inl\<close> is \<^verbatim>\<open>FunctionCallError::RespondToModel\<close>. The first argument of the
  formatting is whether the tool has free-form output.
\<close>

datatype tool_emitter = EmitShell bool | EmitPatch | EmitUnifiedExec

definition finish_call :: "(bool \<Rightarrow> exec_output \<Rightarrow> str) \<Rightarrow> tool_emitter \<Rightarrow> tool_error + exec_output \<Rightarrow> str + str" where
  "finish_call fmt emitter outcome =
     (let content = fmt (emitter = EmitShell True) in
      case outcome of
        Inr outp \<Rightarrow> if exit_code outp = 0 then Inr (content outp) else Inl (content outp)
      | Inl (CommandTimedOut outp) \<Rightarrow> Inl (content outp)
      | Inl (SandboxDenied outp _) \<Rightarrow> Inl (content outp)
      | Inl (ToolFailed err) \<Rightarrow> Inl (lit ''execution error: '' @ err)
      | Inl (Rejected msg) \<Rightarrow>
          Inl (if msg = lit ''rejected by user''
               then (if emitter = EmitPatch then lit ''patch rejected by user'' else lit ''exec command rejected by user'')
               else msg))"

datatype patch_apply_status = PatchCompleted | PatchFailed | PatchDeclined

record patch_apply_end =
  end_stdout :: str
  end_stderr :: str
  end_success :: bool
  end_status :: patch_apply_status

text \<open>The event that closes a patch.\<close>

definition patch_end_event :: "tool_error + exec_output \<Rightarrow> patch_apply_end" where
  "patch_end_event outcome =
     (let of_output = (\<lambda>outp. \<lparr>end_stdout = out_stdout outp, end_stderr = out_stderr outp,
            end_success = (exit_code outp = 0),
            end_status = (if exit_code outp = 0 then PatchCompleted else PatchFailed)\<rparr>);
          of_message = (\<lambda>msg status. \<lparr>end_stdout = [], end_stderr = msg, end_success = False, end_status = status\<rparr>)
      in case outcome of
           Inr outp \<Rightarrow> of_output outp
         | Inl (CommandTimedOut outp) \<Rightarrow> of_output outp
         | Inl (SandboxDenied outp _) \<Rightarrow> of_output outp
         | Inl (ToolFailed err) \<Rightarrow> of_message (lit ''execution error: '' @ err) PatchFailed
         | Inl (Rejected msg) \<Rightarrow>
             of_message (if msg = lit ''rejected by user'' then lit ''patch rejected by user'' else msg) PatchDeclined)"

text \<open>What follows the verification, in both entry points.\<close>

definition run_verified_patch ::
  "'s patch_env \<Rightarrow> turn_context \<Rightarrow> apply_patch_action \<Rightarrow> 's orch \<Rightarrow> (str + str) \<times> 's orch" where
  "run_verified_patch pe tc action st =
     (case effective_patch_permissions pe tc action (orch_world st) of (paths, eff, policy) \<Rightarrow>
        case core_apply_patch (assess_patch_safety (pe_os pe) (pe_target pe) (pe_entries pe (changes action))
               (turn_policy (turn tc)) (turn_profile (turn tc)) policy (turn_cwd tc) (turn_windows_level tc)) of
          Output refusal \<Rightarrow> (Inl refusal, st)
        | DelegateToRuntime delegated \<Rightarrow>
            (let rq = \<lparr>patch_action = action, patch_file_paths = paths,
                   patch_changes = convert_apply_patch_to_protocol (pe_entries pe (changes action)),
                   patch_approval = patch_requirement delegated, patch_permissions = effective_permissions eff,
                   patch_preapproved = effective_preapproved eff\<rparr>;
                 (outcome, st) = orchestrate
                   (patch_runtime (pe_reviewers pe) (pe_path_key pe) (pe_environment pe) (home_dir (pe_os pe)))
                   (pe_ops pe) (pe_target pe) rq tc (turn_policy (turn tc)) st
             in (finish_call (pe_format pe) EmitPatch (map_sum id fst outcome), st)))"

text \<open>On a remote environment the files are read through its sandbox already when the patch is verified.\<close>

definition turn_sandbox_context :: "turn_context \<Rightarrow> additional_permission_profile option \<Rightarrow> fs_sandbox_context option" where
  "turn_sandbox_context tc additional =
     map_option (\<lambda>pr. \<lparr>sbx_permissions = pr, sbx_cwd = Some (turn_cwd tc), sbx_windows_level = turn_windows_level tc,
         sbx_private_desktop = turn_private_desktop tc, sbx_legacy_landlock = turn_legacy_landlock tc\<rparr>)
       (effective_permission_profile (turn_profile (turn tc)) additional)"

definition verify_patch ::
  "'s patch_env \<Rightarrow> ('s, fs_sandbox_context) executor_file_system \<Rightarrow> turn_context \<Rightarrow> str list \<Rightarrow> abs_path_buf \<Rightarrow> 's \<Rightarrow>
   maybe_apply_patch_verified option" where
  "verify_patch pe fs tc argv cwd s =
     maybe_parse_apply_patch_verified (pe_query pe) (pe_diff pe) fs
       (if pe_remote pe then turn_sandbox_context tc None else None) (home_dir (pe_os pe)) argv cwd s"

datatype tool_payload = FunctionPayload "str + str" | CustomPayload str | OtherPayload

text \<open>
  The arguments of a function call are given parsed, or with the answer to arguments that do not parse.
  \<^verbatim>\<open>None\<close> is a panic of the verification.
\<close>

definition handle_apply_patch ::
  "'s patch_env \<Rightarrow> (apply_patch_error \<Rightarrow> str) \<Rightarrow> turn_context \<Rightarrow> tool_payload \<Rightarrow> 's orch \<Rightarrow> ((str + str) \<times> 's orch) option" where
  "handle_apply_patch pe show_error tc payload st =
     (case (case payload of
              FunctionPayload args \<Rightarrow> args
            | CustomPayload input \<Rightarrow> Inr input
            | OtherPayload \<Rightarrow> Inl (lit ''apply_patch handler received unsupported payload'')) of
        Inl e \<Rightarrow> Some (Inl e, st)
      | Inr input \<Rightarrow>
          (case pe_environment pe of
             None \<Rightarrow> Some (Inl (lit ''apply_patch is unavailable in this session''), st)
           | Some fs \<Rightarrow>
               map_option (\<lambda>verified. case verified of
                   VerifiedBody action \<Rightarrow> run_verified_patch pe tc action st
                 | CorrectnessError e \<Rightarrow> (Inl (lit ''apply_patch verification failed: '' @ show_error e), st)
                 | VerifiedShellParseError _ \<Rightarrow> (Inl (lit ''apply_patch handler received invalid patch input''), st)
                 | VerifiedNotApplyPatch \<Rightarrow> (Inl (lit ''apply_patch handler received non-apply_patch input''), st))
               (verify_patch pe fs tc [lit ''apply_patch'', input] (turn_cwd tc) (session (orch_world st)))))"

text \<open>A command that turns out to be a patch; the warning to the model goes first.\<close>

definition intercept_apply_patch ::
  "'s patch_env \<Rightarrow> ('s, fs_sandbox_context) executor_file_system \<Rightarrow> (apply_patch_error \<Rightarrow> str) \<Rightarrow>
   ('s world \<Rightarrow> 's world) \<Rightarrow> turn_context \<Rightarrow> str list \<Rightarrow> abs_path_buf \<Rightarrow> 's orch \<Rightarrow> ((str + str option) \<times> 's orch) option" where
  "intercept_apply_patch pe fs show_error warn tc argv cwd st =
     map_option (\<lambda>verified. case verified of
         VerifiedBody action \<Rightarrow>
           (case run_verified_patch pe tc action (st\<lparr>orch_world := warn (orch_world st)\<rparr>) of
              (r, st) \<Rightarrow> (map_sum id Some r, st))
       | CorrectnessError e \<Rightarrow> (Inl (lit ''apply_patch verification failed: '' @ show_error e), st)
       | VerifiedShellParseError _ \<Rightarrow> (Inr None, st)
       | VerifiedNotApplyPatch \<Rightarrow> (Inr None, st))
     (verify_patch pe fs tc argv cwd (session (orch_world st)))"


section \<open>A patch is parsed twice\<close>

text \<open>The runtime parses the text that verification extracted; without carriage returns it reads the same hunks.\<close>

lemma boundaries_strict:
  assumes "check_patch_boundaries_strict ls = Inr (pl, hl)"
  shows "pl = ls \<and> hl = butlast (tl ls) \<and> ls \<noteq> [] \<and> trim (hd ls) = BEGIN_PATCH_MARKER \<and> trim (last ls) = END_PATCH_MARKER"
  using assms
  by (auto simp: check_patch_boundaries_strict_def check_start_and_end_lines_strict_def Let_def
      split: list.splits if_splits sum.splits)

lemma boundaries_strict_intro:
  assumes "ls \<noteq> []" "trim (hd ls) = BEGIN_PATCH_MARKER" "trim (last ls) = END_PATCH_MARKER"
  shows "check_patch_boundaries_strict ls = Inr (ls, butlast (tl ls))"
  using assms
  by (auto simp: check_patch_boundaries_strict_def check_start_and_end_lines_strict_def Let_def split: list.splits)

lemma boundaries_lenient:
  assumes "check_patch_boundaries_lenient ls = Inr (pl, hl)"
  shows "check_patch_boundaries_strict pl = Inr (pl, hl) \<and> set pl \<subseteq> set ls"
proof (cases "check_patch_boundaries_strict ls")
  case (Inr r)
  then show ?thesis using assms boundaries_strict [of ls pl hl] by (auto simp: check_patch_boundaries_lenient_def)
next
  case (Inl e)
  then have s: "check_patch_boundaries_strict (butlast (tl ls)) = Inr (pl, hl)"
    using assms by (auto simp: check_patch_boundaries_lenient_def split: list.splits if_splits)
  have "set (butlast (tl ls)) \<subseteq> set ls" by (cases ls) (auto dest: in_set_butlastD)
  then show ?thesis using s boundaries_strict [OF s] by auto
qed

lemma markers_differ: "BEGIN_PATCH_MARKER \<noteq> END_PATCH_MARKER" "BEGIN_PATCH_MARKER \<noteq> []" "END_PATCH_MARKER \<noteq> []"
  by (simp_all add: BEGIN_PATCH_MARKER_def END_PATCH_MARKER_def lit_def uc_def)

lemma chomp_cr_keeps:
  assumes "13 \<notin> set l"
  shows "chomp_cr l = l"
proof -
  have "drop k l \<noteq> [13]" for k using assms in_set_dropD [of 13 k l] by auto
  then show ?thesis by (auto simp: chomp_cr_def strip_suffix_def)
qed

lemma lines_no_newline: "l \<in> set (lines s) \<Longrightarrow> newline \<notin> set l"
proof -
  have c: "set (chomp_cr p) \<subseteq> set p" for p
    by (auto simp: chomp_cr_def strip_suffix_def split: if_splits dest: in_set_takeD)
  assume "l \<in> set (lines s)"
  then have "l \<in> chomp_cr ` set (split_on newline s) \<or> l \<in> set (split_on newline s)"
    by (auto simp: lines_def Let_def split: if_splits dest: in_set_butlastD)
  then show ?thesis using split_on_no_sep [of newline s] c by blast
qed

lemma lines_join_plain:
  assumes "\<forall>l \<in> set ls. newline \<notin> set l \<and> 13 \<notin> set l" "ls \<noteq> []" "last ls \<noteq> []"
  shows "lines (join [newline] ls) = ls"
proof -
  have "map chomp_cr (butlast ls) = butlast ls"
    using assms(1) by (intro map_idI chomp_cr_keeps) (auto dest: in_set_butlastD)
  then show ?thesis using assms split_on_join [of ls newline] by (simp add: lines_def Let_def)
qed

lemma trim_end_append: "trim_end e \<noteq> [] \<Longrightarrow> trim_end (x @ e) = x @ trim_end e"
  by (auto simp: trim_end_def dropWhile_append)

lemma join_Cons: "ls \<noteq> [] \<Longrightarrow> join sep (l # ls) = l @ sep @ join sep ls"
  by (cases ls) auto

lemma trim_nonempty: "trim s \<noteq> [] \<Longrightarrow> trim_start s \<noteq> [] \<and> trim_end s \<noteq> []"
proof -
  have "trim_start [] = []" "trim_end [] = []" by (simp_all add: trim_start_def trim_end_def)
  then show "trim s \<noteq> [] \<Longrightarrow> trim_start s \<noteq> [] \<and> trim_end s \<noteq> []"
    by (metis trim_def trim_start_trim_end)
qed

lemma trim_of_trim_start: "trim (trim_start s) = trim s"
  by (simp add: trim_def)

lemma trim_join:
  assumes "trim f \<noteq> []" "trim e \<noteq> []"
  shows "trim (join sep (f # mid @ [e])) = join sep (trim_start f # mid @ [trim_end e])"
proof -
  have f: "trim_start f \<noteq> []" and e: "trim_end e \<noteq> []"
    using assms trim_nonempty by blast+
  define x where "x = trim_start f @ sep @ (if mid = [] then [] else join sep mid @ sep)"
  have "join sep (f # mid @ [e]) = f @ sep @ (if mid = [] then [] else join sep mid @ sep) @ e"
    by (simp add: join_Cons join_snoc)
  then have "trim (join sep (f # mid @ [e])) = trim_end (x @ e)"
    using f by (simp add: trim_def x_def trim_start_append)
  also have "\<dots> = x @ trim_end e" using e by (rule trim_end_append)
  also have "\<dots> = join sep (trim_start f # mid @ [trim_end e])"
    by (simp add: x_def join_Cons join_snoc)
  finally show ?thesis .
qed

lemma trim_subset: "set (trim_start s) \<subseteq> set s" "set (trim_end s) \<subseteq> set s"
  by (auto simp: trim_start_def trim_end_def dest: set_dropWhileD)

lemma set_join: "set (join sep ls) \<subseteq> \<Union> (set ` set ls) \<union> set sep" "l \<in> set ls \<Longrightarrow> set l \<subseteq> set (join sep ls)"
  by (induction sep ls rule: join.induct) auto

lemma reparse:
  assumes "parse_patch text = Inr args" "13 \<notin> set (patch args)"
  shows "\<exists>args'. parse_patch (patch args) = Inr args' \<and> hunks args' = hunks args"
proof -
  obtain pl hl hs where b: "check_patch_boundaries_lenient (lines (trim text)) = Inr (pl, hl)"
    and hs: "parse_hunks False hl 2 = Inr hs" and args: "args = \<lparr>patch = join [newline] pl, hunks = hs, workdir = None\<rparr>"
    using assms(1) by (auto simp: parse_patch_def PARSE_IN_STRICT_MODE_def parse_patch_text_def Let_def
        split: sum.splits)
  have strict: "check_patch_boundaries_strict pl = Inr (pl, hl)" and sub: "set pl \<subseteq> set (lines (trim text))"
    using boundaries_lenient [OF b] by auto
  note s = boundaries_strict [OF strict]
  obtain f mid e where pl: "pl = f # mid @ [e]"
    using s markers_differ(1) by (cases pl; cases "tl pl" rule: rev_cases) auto
  let ?pl = "trim_start f # mid @ [trim_end e]"
  have clean: "newline \<notin> set l \<and> 13 \<notin> set l" if "l \<in> set pl" for l
    using sub that lines_no_newline [of l] set_join(2) [OF that, of "[newline]"] assms(2) args by auto
  have e: "trim_end e \<noteq> []" using s markers_differ(3) trim_nonempty [of e] by (simp add: pl)
  have "lines (trim (join [newline] pl)) = lines (join [newline] ?pl)"
    using s markers_differ(2,3) by (simp add: pl trim_join)
  also have "\<dots> = ?pl"
    using clean trim_subset e by (intro lines_join_plain) (fastforce simp: pl)+
  finally have l: "lines (trim (join [newline] pl)) = ?pl" .
  have "check_patch_boundaries_strict ?pl = Inr (?pl, butlast (tl ?pl))"
    using s by (intro boundaries_strict_intro) (simp_all add: pl trim_of_trim_start)
  moreover have "butlast (tl ?pl) = hl" using s by (simp add: pl)
  ultimately have "parse_patch (join [newline] pl) = Inr \<lparr>patch = join [newline] ?pl, hunks = hs, workdir = None\<rparr>"
    using hs by (simp add: parse_patch_def PARSE_IN_STRICT_MODE_def parse_patch_text_def Let_def l
        check_patch_boundaries_lenient_def)
  then show ?thesis by (simp add: args)
qed

lemma body_parsed:
  assumes "maybe_parse_apply_patch query argv = Body args"
  shows "\<exists>text a. parse_patch text = Inr a \<and> patch args = patch a \<and> hunks args = hunks a"
proof -
  have sh: "\<exists>text a. parse_patch text = Inr a \<and> patch args = patch a \<and> hunks args = hunks a"
    if "shell_patch query argv = Body args"
    using that by (fastforce simp: shell_patch_def split: option.splits sum.splits extract_heredoc_error.splits)
  show ?thesis
    using assms sh by (auto simp: maybe_parse_apply_patch_def split: list.splits if_splits sum.splits)
qed


section \<open>Calls without a question\<close>

lemma ask_logs_a_question:
  "ask_and_reject rt ops rq tc run_id guardian reason network hooks st = (r, st') \<Longrightarrow>
   length (orch_log st) < length (orch_log st')"
proof -
  assume a: "ask_and_reject rt ops rq tc run_id guardian reason network hooks st = (r, st')"
  obtain review st1 where new: "new_review ops guardian st = (review, st1)" by fastforce
  let ?ctx = "\<lparr>ctx_call_id = turn_call_id tc, ctx_guardian_review = review, ctx_retry_reason = reason, ctx_network = network\<rparr>"
  obtain d st2 where q: "request_approval rt ops rq run_id ?ctx hooks st1 = (d, st2)" by fastforce
  then have l: "length (orch_log st1) < length (orch_log st2)"
    by (auto simp: request_approval_def Let_def split: option.splits prod.splits hook_decision.splits if_splits)
  have "try_then (d, st2) (\<lambda>d. reject_if_not_approved ops review d) = (r, st')"
    using a by (simp add: ask_and_reject_def new q)
  then show ?thesis
  proof (cases rule: try_thenE)
    case (failed e)
    then show ?thesis using l new by simp
  next
    case (then_ok x st3)
    then show ?thesis using l new reject_log [OF then_ok(2)] by simp
  qed
qed

lemma orchestrate_unasked:
  assumes "orchestrate rt ops os rq tc approval \<lparr>orch_world = w, orch_log = []\<rparr> = (r, st)"
    and "orch_log st = [Attempted a err]"
  obtains x deferred amendment b where "requirement_for rt rq tc approval = Skip b amendment"
    "run_attempt rt ops rq tc (first_attempt rt os rq tc) (turn_has_network tc) \<lparr>orch_world = w, orch_log = []\<rparr> = ((x, deferred), st)"
    "map_sum id fst r = x"
proof -
  define st0 where "st0 = \<lparr>orch_world = w, orch_log = []\<rparr>"
  have log0: "orch_log st0 = []" and world: "orch_world st0 = w" by (simp_all add: st0_def)
  let ?strict = "strict_auto_review ops w"
  let ?step = "\<lambda>already st. case run_attempt rt ops rq tc (first_attempt rt os rq tc) (turn_has_network tc) st of
     (x, st) \<Rightarrow> after_first rt ops rq tc approval ?strict already x st"
  have "try_then (approve_first rt ops rq tc approval ?strict st0) ?step = (r, st)"
    using assms(1) by (simp add: orchestrate_def first_attempt_def st0_def Let_def)
  then show thesis
  proof (cases rule: try_thenE)
    case (failed e)
    from approve_first_log [OF failed(1)] show thesis using log0 assms(2) by auto
  next
    case (then_ok already st1)
    from approve_first_log [OF then_ok(1)] obtain es where es: "orch_log st1 = es" "only_questions es"
      and ok: "(already \<longrightarrow> approved_in es) \<and> (?strict \<longrightarrow> already) \<and>
       (case requirement_for rt rq tc approval of Skip _ _ \<Rightarrow> True | NeedsApproval _ _ \<Rightarrow> already | _ \<Rightarrow> False)"
      using log0 by auto
    obtain x deferred st2 where run: "run_attempt rt ops rq tc (first_attempt rt os rq tc) (turn_has_network tc) st1 =
        ((x, deferred), st2)" by (metis prod.exhaust)
    note log2 = run_attempt_log [OF run]
    have after: "after_first rt ops rq tc approval ?strict already (x, deferred) st2 = (r, st)"
      using then_ok(2) run by simp
    have grows: "length (orch_log st2) \<le> length (orch_log st) \<and>
        (length (orch_log st) = length (orch_log st2) \<longrightarrow> st = st2 \<and> map_sum id fst r = x)"
    proof (cases "\<exists>outp decision. x = Inl (SandboxDenied outp decision) \<and> may_retry rt tc approval decision")
      case False
      then show ?thesis using after
        by (auto simp: after_first_def split: sum.splits tool_error.splits if_splits)
    next
      case True
      then obtain outp decision where x: "x = Inl (SandboxDenied outp decision)" "may_retry rt tc approval decision" by blast
      obtain q st3 where ask: "approve_retry rt ops rq tc approval ?strict already outp decision st2 = (q, st3)" by fastforce
      have "st3 = st2 \<and> q = Inr () \<or> length (orch_log st2) < length (orch_log st3)"
        using ask unfolding approve_retry_def Let_def by (auto split: if_splits dest: ask_logs_a_question)
      moreover have "q = Inr u \<Longrightarrow> length (orch_log st3) < length (orch_log st)" for u
        using after ask x by (auto simp: after_first_def try_then_def split: prod.splits sum.splits dest!: run_attempt_log)
      moreover have "q = Inl e \<Longrightarrow> st = st3" for e
        using after ask x by (auto simp: after_first_def try_then_def)
      ultimately show ?thesis by (cases q) fastforce+
    qed
    have "es = []" using es assms(2) log2 grows by (cases es) auto
    then have st: "st = st2" "map_sum id fst r = x" using grows log2 assms(2) es by auto
    have "\<not> already" using ok \<open>es = []\<close> by auto
    then obtain b am where skip: "requirement_for rt rq tc approval = Skip b am" "\<not> ?strict"
      using ok by (auto split: exec_approval_requirement.splits)
    have "st1 = st0" using then_ok(1) skip by (auto simp: approve_first_def requirement_for_def Let_def)
    then show thesis using that [OF skip(1)] run st by (simp add: st0_def)
  qed
qed

context cautious_runtime
begin

lemma unsandboxed_after_refusal:
  assumes "tool_bypass_approval rt = bypass" "tool_wants_no_sandbox rt = wants"
    and "orchestrate rt ops os rq tc approval \<lparr>orch_world = w, orch_log = []\<rparr> = (r, st)"
    and "orch_log st = xs @ Attempted a err # ys" "attempt_sandbox a = SandboxTypeNone"
    and "initial_sandbox rt os rq tc \<noteq> SandboxTypeNone"
  shows "\<exists>es outp decision fs. xs = es @ Attempted (first_attempt rt os rq tc) (Some (SandboxDenied outp decision)) # fs \<and>
    ys = [] \<and> approval \<noteq> Never \<and>
    (approved_in fs \<or> approved_in es \<and> \<not> strict_auto_review ops w \<and>
       denial_network_context (turn_has_network tc) decision = None)"
proof -
  have first: "a \<noteq> first_attempt rt os rq tc"
    using assms(5,6) by (auto simp: first_attempt_def make_attempt_def)
  have only: False
    if "Attempted a err \<in> set (es @ Attempted (first_attempt rt os rq tc) e # fs)" "only_questions es" "only_questions fs" for es e fs
    using that first by (auto dest: questions_no_attempt)
  from assms(3) show ?thesis
  proof (cases rule: orchestrate_log)
    case no_attempt
    then show ?thesis using assms(4) by simp
  next
    case (one_attempt es err' fs already)
    have "Attempted a err \<in> set (orch_log st)" using assms(4) by simp
    then show ?thesis using only [of es err' fs] one_attempt(1-3) by auto
  next
    case (two_attempts es outp decision fs err' already)
    let ?us = "es @ Attempted (first_attempt rt os rq tc) (Some (SandboxDenied outp decision)) # fs"
    have eq: "xs @ Attempted a err # ys = ?us @ [Attempted (second_attempt tc) err']"
      using two_attempts(1) assms(4) by simp
    have "ys = [] \<and> xs = ?us"
    proof (cases ys rule: rev_cases)
      case Nil
      then show ?thesis using eq by (metis append1_eq_conv)
    next
      case (snoc ys' y)
      then have "(xs @ Attempted a err # ys') @ [y] = ?us @ [Attempted (second_attempt tc) err']" using eq by simp
      then have "xs @ Attempted a err # ys' = ?us" by (simp only: append1_eq_conv)
      then have "Attempted a err \<in> set ?us" by (metis in_set_conv_decomp)
      then show ?thesis using only [of es "Some (SandboxDenied outp decision)" fs] two_attempts(2,3) by blast
    qed
    moreover have never: "approval \<noteq> Never"
      using two_attempts(7) wants_never assms(2) by (auto simp: may_retry_def Let_def split: if_splits)
    moreover have "approved_in fs \<or> approved_in es \<and> \<not> strict_auto_review ops w \<and>
        denial_network_context (turn_has_network tc) decision = None"
      using two_attempts(6,8) bypass_unapproved never assms(1) by (cases already) auto
    ultimately show ?thesis by blast
  qed
qed

end

interpretation patch_rules: cautious_runtime default_should_bypass_approval patch_wants_no_sandbox_approval
  by unfold_locales (auto simp: default_should_bypass_approval_def patch_wants_no_sandbox_approval_def)


section \<open>The runtime and the files\<close>

lemma attempt_context:
  "\<exists>sandbox. file_system_sandbox_context_for_attempt rq attempt = Some sandbox \<and>
     (sandbox = None \<longleftrightarrow> attempt_sandbox attempt = SandboxTypeNone) \<and>
     (\<forall>c. sandbox = Some c \<longrightarrow> effective_permission_profile (attempt_permissions attempt) (patch_permissions rq) = Some (sbx_permissions c))"
  using effective_profile_exists [of "attempt_permissions attempt" "patch_permissions rq"]
  by (auto simp: file_system_sandbox_context_for_attempt_def)

lemma apply_patch_not_None: "apply_patch fs sandbox home patch_text cwd s \<noteq> None"
proof -
  have "apply_hunks_to_files fs sandbox home cwd hs s \<noteq> None" for hs
    by (simp add: apply_hunks_to_files_def apply_hunk_loop_not_None del: not_None_eq)
  then show ?thesis
    by (auto simp: apply_patch_def apply_hunks_def simp del: not_None_eq split: sum.splits option.splits)
qed

lemma patch_runtime_simps [simp]:
  "tool_requirement (patch_runtime rv ser environment home) rq = Some (patch_approval rq)"
  "tool_network_spec (patch_runtime rv ser environment home) rq = None"
  "tool_run (patch_runtime rv ser environment home) = patch_tool_run environment home"
  "tool_bypass_approval (patch_runtime rv ser environment home) = default_should_bypass_approval"
  "tool_wants_no_sandbox (patch_runtime rv ser environment home) = patch_wants_no_sandbox_approval"
  "tool_sandbox_mode (patch_runtime rv ser environment home) rq = NoOverride"
  "tool_preference (patch_runtime rv ser environment home) = PreferAuto"
  by (simp_all add: patch_runtime_def)

lemma patch_tool_run_cases:
  assumes "patch_tool_run (Some fs) home rq attempt w = (x, w')"
  obtains sandbox run where "file_system_sandbox_context_for_attempt rq attempt = Some sandbox"
    "apply_patch fs sandbox home (action_patch (patch_action rq)) (action_cwd (patch_action rq)) (session w) = Some run"
    "session w' = run_state run" "error_of x = None \<longrightarrow> x = Inr (patch_output run)" "x \<noteq> Inl task_panicked"
proof -
  obtain sandbox where s: "file_system_sandbox_context_for_attempt rq attempt = Some sandbox"
    using attempt_context by metis
  obtain run where r: "apply_patch fs sandbox home (action_patch (patch_action rq)) (action_cwd (patch_action rq)) (session w) = Some run"
    using apply_patch_not_None by (metis not_None_eq)
  show thesis
    using that [OF s r] assms by (auto simp: patch_tool_run_def s r task_panicked_def)
qed

context file_store
begin

lemma apply_patch_effect:
  assumes "is_absolute cwd" "parse_patch text = Inr args" "apply_patch fs sb home text cwd s = Some run"
  shows "view (run_state run) q \<noteq> view s q \<Longrightarrow> \<exists>h \<in> set (hunks args). q \<in> touched home cwd h"
    and "\<not> isl (run_result run) \<Longrightarrow> spec_hunks home cwd (hunks args) (view s) = Some (view (run_state run))"
proof -
  obtain res s' where a: "apply_hunks_to_files fs sb home cwd (hunks args) s = Some (res, s')" "run_state run = s'"
    "isl (run_result run) \<longleftrightarrow> isl res"
    using assms(2,3) by (auto simp: apply_patch_def apply_hunks_def split: option.splits sum.splits)
  show "view (run_state run) q \<noteq> view s q \<Longrightarrow> \<exists>h \<in> set (hunks args). q \<in> touched home cwd h"
    using apply_touched [OF assms(1) a(1)] a(2) by blast
  show "\<not> isl (run_result run) \<Longrightarrow> spec_hunks home cwd (hunks args) (view s) = Some (view (run_state run))"
    using apply_hunks_to_files_ok [OF assms(1)] a by (cases res) auto
qed

end

lemma verified_patchE:
  assumes "verify_patch pe fs tc [cmd, input] cwd s = Some (VerifiedBody action)" "cmd = lit ''apply_patch''"
  obtains sb args where "parse_patch input = Inr args" "action_patch action = patch args" "action_cwd action = cwd"
    "collect_changes (pe_diff pe) fs sb (home_dir (pe_os pe)) cwd (hunks args) Map.empty s = Some (Inr (changes action))"
proof -
  obtain args where a: "maybe_parse_apply_patch (pe_query pe) [cmd, input] = Body args"
    "collect_changes (pe_diff pe) fs (if pe_remote pe then turn_sandbox_context tc None else None)
       (home_dir (pe_os pe)) (action_cwd action) (hunks args) Map.empty s = Some (Inr (changes action))"
    "action_cwd action = (case workdir args of Some dir \<Rightarrow> abs_join (home_dir (pe_os pe)) cwd dir | None \<Rightarrow> cwd)"
    "action_patch action = patch args"
    using verified_body [OF assms(1) [unfolded verify_patch_def]] by metis
  have p: "parse_patch input = Inr args"
    using a(1) assms(2) by (auto simp: maybe_parse_apply_patch_def APPLY_PATCH_COMMANDS_def split: sum.splits)
  then have "workdir args = None" by (auto simp: parse_patch_def parse_patch_text_def Let_def split: sum.splits)
  with a p that show thesis by simp
qed

lemma finish_success:
  "finish_call fmt emitter outcome = Inr content \<Longrightarrow> \<exists>outp. outcome = Inr outp \<and> exit_code outp = 0"
  by (auto simp: finish_call_def Let_def split: sum.splits tool_error.splits if_splits)

lemma run_verified_patch_attempts:
  assumes "run_verified_patch pe tc action \<lparr>orch_world = w, orch_log = []\<rparr> = (r, st)" "orch_log st \<noteq> []"
  obtains rq outcome safety delegated where
    "safety = assess_patch_safety (pe_os pe) (pe_target pe) (pe_entries pe (changes action)) (turn_policy (turn tc))
       (turn_profile (turn tc)) (granted_policy pe tc w) (turn_cwd tc) (turn_windows_level tc)"
    "core_apply_patch safety = DelegateToRuntime delegated" "patch_approval rq = patch_requirement delegated" "patch_action rq = action"
    "orchestrate (patch_runtime (pe_reviewers pe) (pe_path_key pe) (pe_environment pe) (home_dir (pe_os pe)))
       (pe_ops pe) (pe_target pe) rq tc (turn_policy (turn tc)) \<lparr>orch_world = w, orch_log = []\<rparr> = (outcome, st)"
    "r = finish_call (pe_format pe) EmitPatch (map_sum id fst outcome)"
proof -
  let ?safety = "assess_patch_safety (pe_os pe) (pe_target pe) (pe_entries pe (changes action)) (turn_policy (turn tc))
     (turn_profile (turn tc)) (granted_policy pe tc w) (turn_cwd tc) (turn_windows_level tc)"
  obtain paths eff where e: "effective_patch_permissions pe tc action w = (paths, eff, granted_policy pe tc w)"
    by (simp add: effective_patch_permissions_def Let_def)
  show thesis
  proof (cases "core_apply_patch ?safety")
    case (Output refusal)
    then show thesis using assms by (auto simp: run_verified_patch_def e)
  next
    case (DelegateToRuntime delegated)
    define rq where "rq = \<lparr>patch_action = action, patch_file_paths = paths,
      patch_changes = convert_apply_patch_to_protocol (pe_entries pe (changes action)),
      patch_approval = patch_requirement delegated, patch_permissions = effective_permissions eff,
      patch_preapproved = effective_preapproved eff\<rparr>"
    obtain outcome st1 where o: "orchestrate (patch_runtime (pe_reviewers pe) (pe_path_key pe) (pe_environment pe) (home_dir (pe_os pe)))
       (pe_ops pe) (pe_target pe) rq tc (turn_policy (turn tc)) \<lparr>orch_world = w, orch_log = []\<rparr> = (outcome, st1)"
      by fastforce
    then have "r = finish_call (pe_format pe) EmitPatch (map_sum id fst outcome)" "st1 = st"
      using assms(1) by (auto simp: run_verified_patch_def e DelegateToRuntime rq_def [symmetric])
    then show thesis using that [OF refl DelegateToRuntime, of rq outcome] o by (simp add: rq_def)
  qed
qed

text \<open>A patch that ran unasked was approved by the safety check, and its one run is the patch as it was verified.\<close>

lemma unasked_patch_run:
  assumes "pe_environment pe = Some fs"
    and "handle_apply_patch pe show_error tc (CustomPayload input) \<lparr>orch_world = w, orch_log = []\<rparr> = Some (r, st)"
    and "orch_log st = [Attempted a err]"
    and "verify_patch pe fs tc [lit ''apply_patch'', input] (turn_cwd tc) (session w) = Some (VerifiedBody action)"
    and "action_cwd action = turn_cwd tc"
  obtains sandbox prun x s b where
    "apply_patch fs sandbox (home_dir (pe_os pe)) (action_patch action) (turn_cwd tc) (session w) = Some prun"
    "session (orch_world st) = run_state prun" "error_of x = None \<longrightarrow> x = Inr (patch_output prun)"
    "r = finish_call (pe_format pe) EmitPatch x"
    "assess_patch_safety (pe_os pe) (pe_target pe) (pe_entries pe (changes action)) (turn_policy (turn tc))
       (turn_profile (turn tc)) (granted_policy pe tc w) (turn_cwd tc) (turn_windows_level tc) = AutoApprove s b"
proof -
  let ?home = "home_dir (pe_os pe)"
  have "run_verified_patch pe tc action \<lparr>orch_world = w, orch_log = []\<rparr> = (r, st)"
    using assms(2) by (simp add: handle_apply_patch_def assms(1,4))
  then obtain rq outcome safety delegated where rv:
    "safety = assess_patch_safety (pe_os pe) (pe_target pe) (pe_entries pe (changes action)) (turn_policy (turn tc))
       (turn_profile (turn tc)) (granted_policy pe tc w) (turn_cwd tc) (turn_windows_level tc)"
    "core_apply_patch safety = DelegateToRuntime delegated" "patch_approval rq = patch_requirement delegated" "patch_action rq = action"
    "orchestrate (patch_runtime (pe_reviewers pe) (pe_path_key pe) (pe_environment pe) ?home)
       (pe_ops pe) (pe_target pe) rq tc (turn_policy (turn tc)) \<lparr>orch_world = w, orch_log = []\<rparr> = (outcome, st)"
    "r = finish_call (pe_format pe) EmitPatch (map_sum id fst outcome)"
    by (rule run_verified_patch_attempts) (use assms(3) in auto)
  obtain x deferred am b where req: "requirement_for (patch_runtime (pe_reviewers pe) (pe_path_key pe) (pe_environment pe) ?home)
      rq tc (turn_policy (turn tc)) = Skip b am"
    and run: "run_attempt (patch_runtime (pe_reviewers pe) (pe_path_key pe) (pe_environment pe) ?home) (pe_ops pe) rq tc
      (first_attempt (patch_runtime (pe_reviewers pe) (pe_path_key pe) (pe_environment pe) ?home) (pe_target pe) rq tc)
      (turn_has_network tc) \<lparr>orch_world = w, orch_log = []\<rparr> = ((x, deferred), st)" "map_sum id fst outcome = x"
    by (rule orchestrate_unasked [OF rv(5) assms(3)])
  have skip: "patch_requirement delegated = Skip b am" using req by (simp add: requirement_for_def rv(3))
  obtain attempt where tool: "patch_tool_run (Some fs) ?home rq attempt w = (x, orch_world st)"
    using run(1) by (auto simp: run_attempt_def begin_network_approval_def settle_network_def note_event_def assms(1)
        split: prod.splits)
  from patch_tool_run_cases [OF tool] obtain sandbox prun where p:
    "apply_patch fs sandbox ?home (action_patch action) (turn_cwd tc) (session w) = Some prun"
    "session (orch_world st) = run_state prun" "error_of x = None \<longrightarrow> x = Inr (patch_output prun)"
    by (metis rv(4) assms(5))
  obtain s b' where "safety = AutoApprove s b'"
    using rv(2) skip by (cases safety) (auto simp: core_apply_patch_def)
  then show thesis using that [OF p, of s b'] rv(1,6) run(2) by simp
qed

text \<open>
  C1: when the environment runs a patch of the model, sent as the input of the custom tool, without any
  question, the approval policy is not \<^verbatim>\<open>on-failure\<close>, no two hunks are for the same path and the patch has no
  carriage return, then the files that change are files the policy of the turn, widened by the grants, lets
  it write; and a patch reported as applied was applied in full, hunk by hunk. The environment may be any file
  system that is a file store in every sandbox.  The lemmas \<^verbatim>\<open>on_failure_asks_nothing\<close> and
  \<^verbatim>\<open>move_destination_unchecked\<close> show why the first two conditions are there.
\<close>

theorem unasked_patch_confined:
  assumes "pe_environment pe = Some fs" "\<forall>sb. file_store fs sb view" "is_absolute (turn_cwd tc)"
    and "handle_apply_patch pe show_error tc (CustomPayload input) \<lparr>orch_world = w, orch_log = []\<rparr> = Some (r, st)"
    and "orch_log st = [Attempted a err]" "turn_policy (turn tc) \<noteq> OnFailure"
    and "verify_patch pe fs tc [lit ''apply_patch'', input] (turn_cwd tc) (session w) = Some (VerifiedBody action)"
    and "map_of (pe_entries pe (changes action)) = changes action"
    and "parse_patch (action_patch action) = Inr args" "13 \<notin> set (action_patch action)"
    and "distinct (map (resolve_path (home_dir (pe_os pe)) (turn_cwd tc)) (hunks args))"
  shows "(view (session (orch_world st)) q \<noteq> view (session w) q \<longrightarrow>
      can_write_path_with_cwd (pe_os pe) (granted_policy pe tc w) q (turn_cwd tc)) \<and>
    (\<not> isl r \<longrightarrow> spec_hunks (home_dir (pe_os pe)) (turn_cwd tc) (hunks args) (view (session w)) =
      Some (view (session (orch_world st))))"
proof -
  let ?home = "home_dir (pe_os pe)"
  from verified_patchE [OF assms(7) refl] obtain sb0 vargs where v: "parse_patch input = Inr vargs"
    "action_patch action = patch vargs" "action_cwd action = turn_cwd tc"
    "collect_changes (pe_diff pe) fs sb0 ?home (turn_cwd tc) (hunks vargs) Map.empty (session w) = Some (Inr (changes action))"
    by metis
  have same: "hunks args = hunks vargs" using reparse [OF v(1)] v(2) assms(9,10) by auto
  obtain sandbox prun x s b where p:
    "apply_patch fs sandbox ?home (action_patch action) (turn_cwd tc) (session w) = Some prun"
    "session (orch_world st) = run_state prun" "error_of x = None \<longrightarrow> x = Inr (patch_output prun)"
    and r: "r = finish_call (pe_format pe) EmitPatch x"
    and auto_approved: "assess_patch_safety (pe_os pe) (pe_target pe) (pe_entries pe (changes action)) (turn_policy (turn tc))
       (turn_profile (turn tc)) (granted_policy pe tc w) (turn_cwd tc) (turn_windows_level tc) = AutoApprove s b"
    by (rule unasked_patch_run [OF assms(1,4,5,7) v(3)])
  have store: "file_store fs sandbox view" using assms(2) by blast
  note effect = file_store.apply_patch_effect [OF store assms(3,9) p(1)]
  have safe: "is_write_patch_constrained_to_writable_paths (pe_os pe) (pe_entries pe (changes action)) (granted_policy pe tc w)
      (turn_cwd tc)"
    using auto_approve_constrained auto_approved assms(6) by metis
  have "can_write_path_with_cwd (pe_os pe) (granted_policy pe tc w) q (turn_cwd tc)"
    if "view (session (orch_world st)) q \<noteq> view (session w) q"
    using effect(1) that touched_writable [OF assms(3) v(4) _ assms(8) safe] assms(11) unfolding p(2) same by blast
  moreover have "\<not> isl (run_result prun)" if "\<not> isl r"
  proof -
    from that obtain content where "r = Inr content" by (cases r) auto
    then obtain outp where "x = Inr outp" "exit_code outp = 0" using finish_success r by metis
    then show ?thesis using p(3) by (auto simp: patch_output_def split: if_splits)
  qed
  ultimately show ?thesis using effect(2) p(2) by auto
qed


section \<open>A sample patch\<close>

text \<open>The tree behaves alike in every sandbox that needs no helper.\<close>

lemma local_file_system_plain:
  fixes os :: "'s os_fs" and sb :: "'sb option"
  shows "read_file (local_file_system (\<lambda>_. False) os sbx) p sb = direct_read_file os p (None :: 'sb option)"
  "write_file (local_file_system (\<lambda>_. False) os sbx) p c sb = direct_write_file os p c (None :: 'sb option)"
  "create_directory (local_file_system (\<lambda>_. False) os sbx) p r sb = direct_create_directory os p r (None :: 'sb option)"
  "get_metadata (local_file_system (\<lambda>_. False) os sbx) p sb = direct_get_metadata os p (None :: 'sb option)"
  "remove_path (local_file_system (\<lambda>_. False) os sbx) p r f sb = direct_remove os p r f (None :: 'sb option)"
  by (auto simp: local_file_system_def file_system_for_def unsandboxed_file_system_def
      direct_file_system_def reject_platform_sandbox_context_def is_some_and_def try_query_def
      try_update_def Let_def fun_eq_iff direct_defs split: option.splits)

abbreviation plain_tree :: "(tree_fs, fs_sandbox_context) executor_file_system" where
  "plain_tree \<equiv> local_file_system (\<lambda>_. False) tree_os None"

interpretation plain_tree: file_store plain_tree sb tree_view
proof -
  have "file_store plain_tree None tree_view" by (rule local_tree.file_store_axioms)
  then show "file_store plain_tree sb tree_view" by (simp add: file_store_def local_file_system_plain)
qed

definition sample_patch_turn :: turn_context where
  "sample_patch_turn = sample_turn_context\<lparr>turn := \<lparr>turn_profile = Managed (ManagedRestricted (policy_entries sample_policy) None)
     NetworkRestricted, turn_policy = OnRequest, turn_auto_review = False\<rparr>, turn_cwd := lit ''/w''\<rparr>"

definition sample_reviewers :: "'s reviewers" where
  "sample_reviewers = \<lparr>guardian_review_request = (\<lambda>_ _ _ w. (Denied, w)), request_patch_approval = (\<lambda>_ _ _ w. (None, w)),
     request_command_approval = (\<lambda>_ w. (Denied, w))\<rparr>"

definition plain_ops :: "'s session_ops" where
  "plain_ops = \<lparr>strict_auto_review = (\<lambda>_. False), permission_hooks = (\<lambda>_ _ w. (None, w)),
     rejection_message = (\<lambda>_ w. ([], w)), new_id = (\<lambda>w. ([], w))\<rparr>"

definition sample_patch_env :: "tree_fs patch_env" where
  "sample_patch_env = \<lparr>pe_os = sample_env, pe_target = TargetLinux, pe_globs = (\<lambda>_. None), pe_environment = Some plain_tree,
     pe_remote = False, pe_ops = plain_ops, pe_reviewers = sample_reviewers, pe_grants = (\<lambda>_. init_grants),
     pe_query = (\<lambda>_. Inr []), pe_diff = (\<lambda>_ _. []), pe_entries = (\<lambda>_. [(lit ''/w/f'', AddChange [])]), pe_path_key = Some,
     pe_format = (\<lambda>_ outp. out_stdout outp)\<rparr>"

abbreviation tree_world :: "tree_fs \<Rightarrow> tree_fs world" where
  "tree_world t \<equiv> \<lparr>tool_approvals = Map.empty, network_service = new_service, session = t\<rparr>"

abbreviation sample_patch_text :: str where
  "sample_patch_text \<equiv> print_patch [AddFile (lit ''f'') []]"

abbreviation sample_tree :: tree_fs where
  "sample_tree \<equiv> [([[119]], DirNode), ([[119], [102]], FileNode [])]"

lemma sample_patch_text_parsed:
  "parse_patch sample_patch_text = Inr \<lparr>patch = sample_patch_text, hunks = [AddFile (lit ''f'') []], workdir = None\<rparr>"
  by (rule parse_patch_print)
    (simp add: header_path_def clean_line_def lit_def uc_def newline_def is_whitespace_def content_lines_def unlines_def)

lemma sample_text_verified:
  "verify_patch sample_patch_env plain_tree sample_patch_turn [lit ''apply_patch'', sample_patch_text] (lit ''/w'') [] =
     Some (VerifiedBody sample_patch_action)"
  by (simp add: verify_patch_def sample_patch_env_def maybe_parse_apply_patch_verified_def maybe_parse_apply_patch_def
      APPLY_PATCH_COMMANDS_def is_raw_patch_def parse_shell_script_def sample_patch_text_parsed sample_patch_path
      sample_patch_action_def sample_env_def)

lemma sample_text_applied:
  "apply_patch plain_tree sb None sample_patch_text (lit ''/w'') [] =
     Some \<lparr>run_result = Inr (), run_stdout = print_summary \<lparr>added = [lit ''f''], modified = [], deleted = []\<rparr>,
       run_stderr = [], run_state = sample_tree\<rparr>"
proof -
  have "apply_hunks_to_files plain_tree sb None (lit ''/w'') [AddFile (lit ''f'') []] [] =
     Some (Inr \<lparr>added = [lit ''f''], modified = [], deleted = []\<rparr>, sample_tree)"
    by (simp add: str_eval path_eval files_eval upt_rec local_file_system_plain)
  then show ?thesis by (simp add: apply_patch_def sample_patch_text_parsed apply_hunks_def)
qed

lemma sample_w: "lit ''/w/f'' = abs_display [lit ''w'', lit ''f'']" "lit ''/w'' = abs_display [lit ''w'']"
  by (simp_all add: abs_display_def str_eval slash_def)

lemma sample_granted_policy: "granted_policy sample_patch_env sample_patch_turn w = sample_policy"
  by (simp add: granted_policy_def sample_patch_env_def sample_patch_turn_def init_grants_def granted_turn_permissions_def
      merge_permission_profiles_def effective_file_system_sandbox_policy_def sample_policy_def restricted_def)

lemma sample_writable: "can_write_path_with_cwd sample_env sample_policy (abs_display [lit ''w'']) (lit ''/w'')"
  "can_write_path_with_cwd sample_env sample_policy (abs_display [lit ''w'', lit ''f'']) (lit ''/w'')"
  by (simp_all add: sandbox_eval metadata_eval)


lemma sample_effective:
  assumes "pe_os pe = sample_env" "pe_globs pe = (\<lambda>_. None)" "pe_grants pe = (\<lambda>_. init_grants)"
    "pe_entries pe = (\<lambda>_. [(lit ''/w/f'', AddChange [])])"
  shows "\<exists>eff. effective_patch_permissions pe sample_patch_turn sample_patch_action w = ([lit ''/w/f''], eff, sample_policy)"
  using assms
  by (simp add: effective_patch_permissions_def Let_def file_paths_for_action_def sample_patch_action_def sample_patch_path
      sample_env_def str_eval path_eval granted_policy_def sample_patch_turn_def init_grants_def granted_turn_permissions_def
      merge_permission_profiles_def effective_file_system_sandbox_policy_def sample_policy_def restricted_def)

lemma sample_safe:
  "core_apply_patch (assess_patch_safety sample_env TargetLinux [(lit ''/w/f'', AddChange [])] OnRequest
      (turn_profile (turn sample_patch_turn)) sample_policy (lit ''/w'') (turn_windows_level sample_patch_turn)) =
   DelegateToRuntime \<lparr>auto_approved = True, patch_requirement = Skip False None\<rparr>"
  using sample_writable(2)
  by (simp add: assess_patch_safety_def core_apply_patch_def is_write_patch_constrained_to_writable_paths_def sample_w
      is_patch_path_writable_normal valid_name_lit sample_patch_turn_def get_platform_sandbox_def)

lemma sample_patch_sandbox:
  "initial_sandbox (patch_runtime rv ser environment home) TargetLinux rq sample_patch_turn = LinuxSeccomp"
  by (simp add: initial_sandbox_def select_initial_def should_require_platform_sandbox_def get_platform_sandbox_def
      sample_patch_turn_def network_is_enabled_def)

lemma patch_run_attempt:
  assumes "patch_tool_run environment home rq attempt (orch_world st) = (x, w)"
  shows "run_attempt (patch_runtime rv ser environment home) ops rq tc attempt managed st =
    ((x, None), note_event (Attempted attempt (error_of x)) w st)"
  using assms by (simp add: run_attempt_def begin_network_approval_def settle_network_def)

abbreviation sample_added :: exec_output where
  "sample_added \<equiv> \<lparr>exit_code = 0, out_stdout = print_summary \<lparr>added = [lit ''f''], modified = [], deleted = []\<rparr>, out_stderr = [],
     out_aggregated = print_summary \<lparr>added = [lit ''f''], modified = [], deleted = []\<rparr>\<rparr>"

lemma plain_patch_run:
  assumes "patch_action rq = sample_patch_action"
  shows "patch_tool_run (Some plain_tree) None rq attempt (tree_world []) = (Inr sample_added, tree_world sample_tree)"
  using attempt_context [of rq attempt] assms
  by (auto simp: patch_tool_run_def sample_text_applied sample_patch_action_def patch_output_def)

lemma not_asked_first:
  assumes "patch_approval rq = Skip False None" "\<not> strict"
  shows "approve_first (patch_runtime rv ser environment home) ops rq tc policy strict st = (Inr False, st)"
  using assms by (simp add: approve_first_def Let_def)

lemma sample_turn_simps:
  "turn_linux_exe sample_patch_turn = None" "turn_cwd sample_patch_turn = lit ''/w''"
  "turn_policy (turn sample_patch_turn) = OnRequest"
  by (simp_all add: sample_patch_turn_def sample_turn_context_def)

lemma sample_env_simps:
  "pe_environment sample_patch_env = Some plain_tree" "pe_target sample_patch_env = TargetLinux"
  "pe_os sample_patch_env = sample_env" "pe_ops sample_patch_env = plain_ops" "home_dir sample_env = None"
  "pe_entries sample_patch_env m = [(lit ''/w/f'', AddChange [])]" "pe_format sample_patch_env b outp = out_stdout outp"
  by (simp_all add: sample_patch_env_def sample_env_def)

lemma sample_unasked:
  "handle_apply_patch sample_patch_env (\<lambda>_. []) sample_patch_turn (CustomPayload sample_patch_text)
     \<lparr>orch_world = tree_world [], orch_log = []\<rparr> =
   Some (Inr (print_summary \<lparr>added = [lit ''f''], modified = [], deleted = []\<rparr>),
     \<lparr>orch_world = tree_world sample_tree,
      orch_log = [Attempted (make_attempt sample_patch_turn LinuxSeccomp None) None]\<rparr>)"
proof -
  obtain eff where eff: "effective_patch_permissions sample_patch_env sample_patch_turn sample_patch_action (tree_world []) =
      ([lit ''/w/f''], eff, sample_policy)"
    using sample_effective [of sample_patch_env] by (auto simp: sample_patch_env_def)
  have "strict_auto_review plain_ops w' = False" for w' :: "tree_fs world" by (simp add: plain_ops_def)
  then have "orchestrate (patch_runtime rv ser (Some plain_tree) None) plain_ops TargetLinux rq sample_patch_turn OnRequest
      \<lparr>orch_world = tree_world [], orch_log = []\<rparr> = (Inr (sample_added, None), \<lparr>orch_world = tree_world sample_tree,
        orch_log = [Attempted (make_attempt sample_patch_turn LinuxSeccomp None) None]\<rparr>)"
    if "patch_action rq = sample_patch_action" "patch_approval rq = Skip False None" for rv ser rq
    using that
    by (simp add: orchestrate_def try_then_def not_asked_first sample_patch_sandbox sample_turn_simps
        patch_run_attempt [where x = "Inr sample_added" and w = "tree_world sample_tree"] plain_patch_run after_first_def note_event_def)
  then have "run_verified_patch sample_patch_env sample_patch_turn sample_patch_action \<lparr>orch_world = tree_world [], orch_log = []\<rparr> =
      (Inr (print_summary \<lparr>added = [lit ''f''], modified = [], deleted = []\<rparr>), \<lparr>orch_world = tree_world sample_tree,
        orch_log = [Attempted (make_attempt sample_patch_turn LinuxSeccomp None) None]\<rparr>)"
    by (simp add: run_verified_patch_def eff sample_safe sample_env_simps sample_turn_simps finish_call_def)
  then show ?thesis by (simp add: handle_apply_patch_def sample_env_simps sample_turn_simps sample_text_verified)
qed

text \<open>The witness adds a file to the writable directory.\<close>

theorem unasked_patch_confined_witness:
  "can_write_path_with_cwd sample_env sample_policy (lit ''/w/f'') (lit ''/w'') \<and>
   spec_hunks None (lit ''/w'') [AddFile (lit ''f'') []] (tree_view []) = Some (tree_view sample_tree)"
proof -
  have s: "\<forall>sb. file_store plain_tree sb tree_view" using plain_tree.file_store_axioms by blast
  have a: "is_absolute (lit ''/w'')" by (simp add: str_eval path_eval)
  have n: "tree_view sample_tree (lit ''/w/f'') \<noteq> tree_view [] (lit ''/w/f'')"
  proof -
    have "lit ''/w/f'' = abs_display [[119], [102]]" by (simp add: abs_display_def str_eval slash_def)
    moreover have "list_all valid_name [[119], [102]]" by (simp add: valid_name_def str_eval slash_def)
    ultimately show ?thesis by (simp add: tree_view_def node_at_def)
  qed
  have clean: "13 \<notin> set sample_patch_text"
    by (simp add: print_patch_def BEGIN_PATCH_MARKER_def END_PATCH_MARKER_def ADD_FILE_MARKER_def content_lines_def unlines_def str_eval)
  have pe: "pe_environment sample_patch_env = Some plain_tree" "pe_os sample_patch_env = sample_env" "home_dir sample_env = None"
    "turn_cwd sample_patch_turn = lit ''/w''" "turn_policy (turn sample_patch_turn) \<noteq> OnFailure"
    "map_of (pe_entries sample_patch_env (changes sample_patch_action)) = changes sample_patch_action"
    "action_patch sample_patch_action = sample_patch_text" "session (tree_world t) = t" for t
    by (simp_all add: sample_patch_env_def sample_env_def sample_patch_turn_def sample_patch_action_def)
  show ?thesis
    using unasked_patch_confined [OF pe(1) s _ sample_unasked, of "make_attempt sample_patch_turn LinuxSeccomp None" None
        sample_patch_action "\<lparr>patch = sample_patch_text, hunks = [AddFile (lit ''f'') []], workdir = None\<rparr>" "lit ''/w/f''"]
      n a clean pe sample_text_verified sample_patch_text_parsed sample_granted_policy by simp
qed

section \<open>Outside the sandbox\<close>

lemma handle_attempts:
  assumes "handle_apply_patch pe show_error tc payload \<lparr>orch_world = w, orch_log = []\<rparr> = Some (r, st)" "orch_log st \<noteq> []"
  obtains rq outcome where
    "orchestrate (patch_runtime (pe_reviewers pe) (pe_path_key pe) (pe_environment pe) (home_dir (pe_os pe)))
       (pe_ops pe) (pe_target pe) rq tc (turn_policy (turn tc)) \<lparr>orch_world = w, orch_log = []\<rparr> = (outcome, st)"
proof -
  have "\<exists>action. run_verified_patch pe tc action \<lparr>orch_world = w, orch_log = []\<rparr> = (r, st)"
    using assms
    apply (auto simp: handle_apply_patch_def split: sum.split_asm option.split_asm)
    subgoal for input fs verified by (cases verified) auto
    done
  then obtain action where "run_verified_patch pe tc action \<lparr>orch_world = w, orch_log = []\<rparr> = (r, st)" ..
  from run_verified_patch_attempts [OF this assms(2)] that show thesis by metis
qed

text \<open>
  C3: where the policy of the turn calls for a sandbox and the platform has one, a patch is tried outside it
  only last, after the sandbox refused an attempt inside it, and never when nothing may be asked; a hook or a
  reviewer approved the retry, or had approved the patch before the first attempt, which counts for the retry
  unless the turn is under strict review or the refusal was about the network.  Inside the sandbox, the files
  are reached only under the profile of the turn with the permissions of the request.
\<close>

theorem patch_outside_sandbox_approved:
  assumes "handle_apply_patch pe show_error tc payload \<lparr>orch_world = w, orch_log = []\<rparr> = Some (r, st)"
    and "orch_log st = xs @ Attempted a err # ys"
    and "should_require_platform_sandbox (profile_file_system (turn_profile (turn tc)))
      (profile_network (turn_profile (turn tc))) (turn_has_network tc)"
    and "get_platform_sandbox (pe_target pe) (turn_windows_level tc \<noteq> WindowsDisabled) = Some s"
  shows "if attempt_sandbox a = SandboxTypeNone
    then turn_policy (turn tc) \<noteq> Never \<and> ys = [] \<and>
      (\<exists>es b outp decision fs. xs = es @ Attempted b (Some (SandboxDenied outp decision)) # fs \<and> attempt_sandbox b = s \<and>
         (approved_in fs \<or> approved_in es \<and> \<not> strict_auto_review (pe_ops pe) w \<and>
            denial_network_context (turn_has_network tc) decision = None))
    else \<forall>rq. \<exists>c. file_system_sandbox_context_for_attempt rq a = Some (Some c) \<and>
      effective_permission_profile (turn_profile (turn tc)) (patch_permissions rq) = Some (sbx_permissions c)"
proof (cases "attempt_sandbox a = SandboxTypeNone")
  case True
  let ?rt = "patch_runtime (pe_reviewers pe) (pe_path_key pe) (pe_environment pe) (home_dir (pe_os pe))"
  from handle_attempts [OF assms(1)] obtain rq outcome where o:
    "orchestrate ?rt (pe_ops pe) (pe_target pe) rq tc (turn_policy (turn tc)) \<lparr>orch_world = w, orch_log = []\<rparr> = (outcome, st)"
    using assms(2) by auto
  have s: "s \<noteq> SandboxTypeNone" using assms(4) by (auto simp: get_platform_sandbox_def split: target_os.splits if_splits)
  have i: "initial_sandbox ?rt (pe_target pe) rq tc = s"
    using assms(3,4) by (simp add: initial_sandbox_def select_initial_def)
  then have "attempt_sandbox (first_attempt ?rt (pe_target pe) rq tc) = s" by (simp add: first_attempt_def make_attempt_def)
  moreover have "initial_sandbox ?rt (pe_target pe) rq tc \<noteq> SandboxTypeNone" using s i by simp
  from patch_rules.unsandboxed_after_refusal [OF _ _ o assms(2) True this]
  obtain es outp decision fs where
    "xs = es @ Attempted (first_attempt ?rt (pe_target pe) rq tc) (Some (SandboxDenied outp decision)) # fs"
    "ys = []" "turn_policy (turn tc) \<noteq> Never"
    "approved_in fs \<or> approved_in es \<and> \<not> strict_auto_review (pe_ops pe) w \<and>
       denial_network_context (turn_has_network tc) decision = None"
    by auto
  ultimately show ?thesis unfolding if_P [OF True] by blast
next
  case False
  from handle_attempts [OF assms(1)] obtain rq outcome where o:
    "orchestrate (patch_runtime (pe_reviewers pe) (pe_path_key pe) (pe_environment pe) (home_dir (pe_os pe)))
       (pe_ops pe) (pe_target pe) rq tc (turn_policy (turn tc)) \<lparr>orch_world = w, orch_log = []\<rparr> = (outcome, st)"
    using assms(2) by auto
  have "Attempted a err \<in> set (orch_log st)" by (simp add: assms(2))
  with o have "attempt_permissions a = turn_profile (turn tc)"
    by (cases rule: orchestrate_log)
      (fastforce simp: first_attempt_def second_attempt_def make_attempt_def list_all_iff)+
  then show ?thesis using False attempt_context [of _ a] by fastforce
qed

text \<open>The tree behind a sandbox whose helper is missing: every operation is refused.\<close>

abbreviation guarded_tree :: "(tree_fs, fs_sandbox_context) executor_file_system" where
  "guarded_tree \<equiv> local_file_system (\<lambda>_. True) tree_os None"

definition approving_reviewers :: "'s reviewers" where
  "approving_reviewers = sample_reviewers\<lparr>request_patch_approval := \<lambda>_ _ _ w. (Some Approved, w)\<rparr>"

definition guarded_env :: "tree_fs patch_env" where
  "guarded_env = sample_patch_env\<lparr>pe_environment := Some guarded_tree, pe_reviewers := approving_reviewers\<rparr>"

lemma contains_prefix: "prefix p s \<Longrightarrow> str_contains s p"
  by (auto simp: str_contains_def str_find_None_iff)

text \<open>A write that fails always looks like a denial: the keywords contain the message of the patch tool itself.\<close>

lemma failed_write_is_denial:
  assumes "attempt \<noteq> SandboxTypeNone" "out_stderr outp = lit ''Failed to write file '' @ tl_text" "exit_code outp \<noteq> 0"
  shows "is_likely_sandbox_denied attempt outp"
proof -
  have "prefix (lit ''failed to write file'') (to_lowercase (lit ''Failed to write file '' @ tl_text))"
    by (simp add: to_lowercase_def lowercase_char_def to_ascii_lowercase_char_def lit_def uc_def)
  then show ?thesis
    using assms by (auto simp: is_likely_sandbox_denied_def has_sandbox_keyword_def SANDBOX_DENIED_KEYWORDS_def dest!: contains_prefix)
qed

text \<open>The message of a deletion that the sandbox refuses has no such word: no retry is offered.\<close>

lemma refused_deletion_unrecognised:
  "\<not> is_likely_sandbox_denied MacosSeatbelt
     \<lparr>exit_code = 1, out_stdout = [], out_stderr = lit ''Failed to delete file /p/f'' @ [newline],
      out_aggregated = lit ''Failed to delete file /p/f'' @ [newline]\<rparr>"
  by (simp add: is_likely_sandbox_denied_def has_sandbox_keyword_def SANDBOX_DENIED_KEYWORDS_def to_lowercase_def
      lowercase_char_def to_ascii_lowercase_char_def lit_def uc_def newline_def str_contains_def str_find_Cons str_find_Nil
      starts_with_def strip_prefix_def QUICK_REJECT_EXIT_CODES_def)

lemma guarded_refuses:
  "apply_patch guarded_tree (Some c) None sample_patch_text (lit ''/w'') [] =
     Some \<lparr>run_result = Inl (IoError (lit ''I/O error'') sandbox_unavailable), run_stdout = [],
       run_stderr = lit ''Failed to write file /w/f'' @ [newline], run_state = []\<rparr>"
proof -
  have "write_file guarded_tree p b (Some c) t = (Inl sandbox_unavailable, t)" for p b t
    by (simp add: local_file_system_def file_system_for_def is_some_and_def)
  then have "apply_hunks_to_files guarded_tree (Some c) None (lit ''/w'') [AddFile (lit ''f'') []] [] =
      Some (Inl (failed_to_write (lit ''/w/f'') sandbox_unavailable), [])"
    by (simp add: apply_hunks_to_files_def sample_patch_path write_file_with_missing_parent_retry_def sandbox_unavailable_def
        then_record_def encode_def)
  then show ?thesis
    by (simp add: apply_patch_def sample_patch_text_parsed apply_hunks_def failed_to_write_def show_anyhow_def lit_append [symmetric])
qed

lemma guarded_text_verified:
  "verify_patch guarded_env guarded_tree sample_patch_turn [lit ''apply_patch'', sample_patch_text] (lit ''/w'') [] =
     Some (VerifiedBody sample_patch_action)"
  by (simp add: verify_patch_def guarded_env_def sample_patch_env_def maybe_parse_apply_patch_verified_def maybe_parse_apply_patch_def
      APPLY_PATCH_COMMANDS_def is_raw_patch_def parse_shell_script_def sample_patch_text_parsed sample_patch_path
      sample_patch_action_def sample_env_def)

abbreviation sample_refused :: exec_output where
  "sample_refused \<equiv> \<lparr>exit_code = 1, out_stdout = [], out_stderr = lit ''Failed to write file /w/f'' @ [newline],
     out_aggregated = lit ''Failed to write file /w/f'' @ [newline]\<rparr>"

lemma guarded_unsandboxed:
  "apply_patch guarded_tree None None sample_patch_text (lit ''/w'') [] = apply_patch plain_tree None None sample_patch_text (lit ''/w'') []"
proof -
  have "apply_hunks_to_files guarded_tree None None (lit ''/w'') [AddFile (lit ''f'') []] [] =
     Some (Inr \<lparr>added = [lit ''f''], modified = [], deleted = []\<rparr>, sample_tree)"
    by (simp add: str_eval path_eval files_eval upt_rec)
  then show ?thesis
    by (subst sample_text_applied) (simp add: apply_patch_def sample_patch_text_parsed apply_hunks_def)
qed

lemma guarded_patch_run:
  assumes "patch_action rq = sample_patch_action"
  shows "patch_tool_run (Some guarded_tree) None rq (make_attempt sample_patch_turn LinuxSeccomp x) (tree_world []) =
      (Inl (SandboxDenied sample_refused None), tree_world [])"
    "patch_tool_run (Some guarded_tree) None rq (make_attempt sample_patch_turn SandboxTypeNone x) (tree_world []) =
      (Inr sample_added, tree_world sample_tree)"
proof -
  have "is_likely_sandbox_denied LinuxSeccomp sample_refused"
    by (rule failed_write_is_denial [where tl_text = "lit ''/w/f'' @ [newline]"]) (simp_all add: lit_append [symmetric])
  then show "patch_tool_run (Some guarded_tree) None rq (make_attempt sample_patch_turn LinuxSeccomp x) (tree_world []) =
      (Inl (SandboxDenied sample_refused None), tree_world [])"
    using attempt_context [of rq "make_attempt sample_patch_turn LinuxSeccomp x"] assms
    by (auto simp: patch_tool_run_def guarded_refuses sample_patch_action_def patch_output_def make_attempt_def)
  show "patch_tool_run (Some guarded_tree) None rq (make_attempt sample_patch_turn SandboxTypeNone x) (tree_world []) =
      (Inr sample_added, tree_world sample_tree)"
    using assms
    by (simp add: patch_tool_run_def guarded_unsandboxed sample_text_applied sample_patch_action_def patch_output_def
        file_system_sandbox_context_for_attempt_def make_attempt_def)
qed

abbreviation retry_ctx :: approval_ctx where
  "retry_ctx \<equiv> \<lparr>ctx_call_id = turn_call_id sample_patch_turn, ctx_guardian_review = None,
     ctx_retry_reason = Some (lit ''command failed; retry without sandbox?''), ctx_network = None\<rparr>"

abbreviation guarded_log :: "orch_event list" where
  "guarded_log \<equiv> [Attempted (make_attempt sample_patch_turn LinuxSeccomp None) (Some (SandboxDenied sample_refused None)),
     Hooked None, Reviewed retry_ctx Approved, Attempted (make_attempt sample_patch_turn SandboxTypeNone None) None]"

lemma retry_asks:
  "patch_start_approval approving_reviewers ser rq retry_ctx w = (Approved, w)"
  by (simp add: patch_start_approval_def ask_patch_def approving_reviewers_def)

lemma retry_approved:
  "approve_retry (patch_runtime approving_reviewers ser environment home) plain_ops rq sample_patch_turn OnRequest False False
     sample_refused None \<lparr>orch_world = w, orch_log = es\<rparr> =
   (Inr (), \<lparr>orch_world = w, orch_log = es @ [Hooked None, Reviewed retry_ctx Approved]\<rparr>)"
proof -
  let ?rt = "patch_runtime approving_reviewers ser environment home"
  have "\<not> routes_approval_to_guardian (turn sample_patch_turn)"
    by (simp add: routes_approval_to_guardian_def sample_patch_turn_def)
  moreover have "request_approval ?rt plain_ops rq run_id retry_ctx True \<lparr>orch_world = w, orch_log = es\<rparr> =
      (Inr Approved, \<lparr>orch_world = w, orch_log = es @ [Hooked None, Reviewed retry_ctx Approved]\<rparr>)" for run_id
    by (simp add: request_approval_def Let_def retry_asks note_event_def patch_runtime_def plain_ops_def)
  ultimately show ?thesis
    by (simp add: approve_retry_def Let_def default_should_bypass_approval_def ask_and_reject_def new_review_def
        try_then_def reject_if_not_approved_def retry_reason_def build_denial_reason_from_output_def denial_network_context_def
        patch_runtime_def [THEN arg_cong [of _ _ tool_bypass_approval]])
qed

lemma guarded_retried:
  "handle_apply_patch guarded_env (\<lambda>_. []) sample_patch_turn (CustomPayload sample_patch_text)
     \<lparr>orch_world = tree_world [], orch_log = []\<rparr> =
   Some (Inr (print_summary \<lparr>added = [lit ''f''], modified = [], deleted = []\<rparr>),
     \<lparr>orch_world = tree_world sample_tree, orch_log = guarded_log\<rparr>)"
proof -
  have env: "pe_environment guarded_env = Some guarded_tree" "pe_reviewers guarded_env = approving_reviewers"
    "pe_target guarded_env = TargetLinux" "pe_os guarded_env = sample_env" "pe_ops guarded_env = plain_ops"
    "pe_entries guarded_env m = [(lit ''/w/f'', AddChange [])]" "pe_format guarded_env b outp = out_stdout outp"
    "home_dir sample_env = None" for m b outp
    by (simp_all add: guarded_env_def sample_env_simps)
  obtain eff where eff: "effective_patch_permissions guarded_env sample_patch_turn sample_patch_action (tree_world []) =
      ([lit ''/w/f''], eff, sample_policy)"
    using sample_effective [of guarded_env] by (auto simp: guarded_env_def sample_patch_env_def)
  let ?rt = "patch_runtime approving_reviewers (pe_path_key guarded_env) (Some guarded_tree) None"
  have "strict_auto_review plain_ops w' = False" for w' :: "tree_fs world" by (simp add: plain_ops_def)
  moreover have "may_retry ?rt sample_patch_turn OnRequest None"
    by (simp add: may_retry_def Let_def patch_wants_no_sandbox_approval_def patch_runtime_def)
  ultimately have "orchestrate ?rt plain_ops TargetLinux rq sample_patch_turn OnRequest \<lparr>orch_world = tree_world [], orch_log = []\<rparr> =
      (Inr (sample_added, None), \<lparr>orch_world = tree_world sample_tree, orch_log = guarded_log\<rparr>)"
    if "patch_action rq = sample_patch_action" "patch_approval rq = Skip False None" for rq
    using that
    by (simp add: orchestrate_def try_then_def not_asked_first sample_patch_sandbox sample_turn_simps retry_approved
        patch_run_attempt [where x = "Inl (SandboxDenied sample_refused None)" and w = "tree_world []"]
        patch_run_attempt [where x = "Inr sample_added" and w = "tree_world sample_tree"] guarded_patch_run
        after_first_def note_event_def)
  then have "run_verified_patch guarded_env sample_patch_turn sample_patch_action \<lparr>orch_world = tree_world [], orch_log = []\<rparr> =
      (Inr (print_summary \<lparr>added = [lit ''f''], modified = [], deleted = []\<rparr>),
       \<lparr>orch_world = tree_world sample_tree, orch_log = guarded_log\<rparr>)"
    by (simp add: run_verified_patch_def eff sample_safe env sample_turn_simps finish_call_def)
  then show ?thesis by (simp add: handle_apply_patch_def env sample_turn_simps guarded_text_verified)
qed

text \<open>The witness asks after the refusal of the sandbox and writes the file outside it.\<close>

theorem patch_outside_sandbox_approved_witness:
  "\<exists>es b outp decision fs. butlast guarded_log = es @ Attempted b (Some (SandboxDenied outp decision)) # fs \<and>
     attempt_sandbox b = LinuxSeccomp \<and> approved_in (es @ fs)"
proof -
  have "should_require_platform_sandbox (profile_file_system (turn_profile (turn sample_patch_turn)))
      (profile_network (turn_profile (turn sample_patch_turn))) (turn_has_network sample_patch_turn)"
    by (simp add: should_require_platform_sandbox_def sample_patch_turn_def network_is_enabled_def)
  moreover have "get_platform_sandbox (pe_target guarded_env) (turn_windows_level sample_patch_turn \<noteq> WindowsDisabled) = Some LinuxSeccomp"
    by (simp add: guarded_env_def sample_env_simps get_platform_sandbox_def)
  moreover have "orch_log \<lparr>orch_world = tree_world sample_tree, orch_log = guarded_log\<rparr> =
      butlast guarded_log @ Attempted (make_attempt sample_patch_turn SandboxTypeNone None) None # []"
    by simp
  moreover have "attempt_sandbox (make_attempt sample_patch_turn SandboxTypeNone None) = SandboxTypeNone"
    by (simp add: make_attempt_def)
  ultimately have "\<exists>es b outp decision fs. butlast guarded_log = es @ Attempted b (Some (SandboxDenied outp decision)) # fs \<and>
     attempt_sandbox b = LinuxSeccomp \<and> (approved_in fs \<or> approved_in es \<and> \<not> strict_auto_review (pe_ops guarded_env) (tree_world []) \<and>
            denial_network_context (turn_has_network sample_patch_turn) decision = None)"
    using patch_outside_sandbox_approved [OF guarded_retried] by fastforce
  then show ?thesis by (metis list_ex_append)
qed


text \<open>
  Under \<^verbatim>\<open>OnFailure\<close> a patch for any file is sent to the sandbox without a question, and the request carries
  write permission for the directories of its files: the refusal that should lead to the question never comes.
\<close>

lemma on_failure_asks_nothing:
  assumes "get_platform_sandbox os (level \<noteq> WindowsDisabled) = Some s" "cl \<noteq> []"
  shows "core_apply_patch (assess_patch_safety env os cl OnFailure (Managed fs net) policy cwd level) =
     DelegateToRuntime \<lparr>auto_approved = True, patch_requirement = Skip False None\<rparr>"
  using assms by (simp add: assess_patch_safety_def core_apply_patch_def)

lemma patch_carries_write_permission:
  "effective_permissions (fst (snd (effective_patch_permissions pe tc action w))) =
     merge_permission_profiles
       (write_permissions_for_paths (pe_os pe) (fst (effective_patch_permissions pe tc action w)) (granted_policy pe tc w) (turn_cwd tc))
       (merge_permission_profiles (session_granted (pe_grants pe w)) (granted_turn_permissions (pe_grants pe w)))"
  by (simp add: effective_patch_permissions_def apply_granted_turn_permissions_def Let_def)


end
