(* ===== verification/Stream_Text.thy ===== *)
theory Stream_Text
  imports Rust_Std
begin

text \<open>
  \<^verbatim>\<open>codex-rs/utils/stream-parser/src/stream_text.rs\<close>: the interface of the parsers that receive the text
  of the model piece by piece. The law the clients rely on, that the pieces do not matter, is the
  locale \<^verbatim>\<open>stream_text_parser\<close>; the parsers interpret it in their own theories. Extracted payloads
  are compared up to a normal form, since a parser may report a run of text in several parts.
\<close>

section \<open>Chunks\<close>

record 'e text_chunk =
  visible_text :: str
  extracted :: "'e list"

definition empty_chunk :: "'e text_chunk" where
  "empty_chunk = \<lparr>visible_text = [], extracted = []\<rparr>"

definition chunk_is_empty :: "'e text_chunk \<Rightarrow> bool" where
  "chunk_is_empty c \<longleftrightarrow> visible_text c = [] \<and> extracted c = []"

definition append_chunk :: "'e text_chunk \<Rightarrow> 'e text_chunk \<Rightarrow> 'e text_chunk" where
  "append_chunk a b =
     \<lparr>visible_text = visible_text a @ visible_text b, extracted = extracted a @ extracted b\<rparr>"

lemma append_chunk_simps [simp]:
  "visible_text (append_chunk a b) = visible_text a @ visible_text b"
  "extracted (append_chunk a b) = extracted a @ extracted b"
  "append_chunk empty_chunk a = a" "append_chunk a empty_chunk = a"
  "append_chunk (append_chunk a b) c = append_chunk a (append_chunk b c)"
  by (simp_all add: append_chunk_def empty_chunk_def)

lemma empty_chunk_simps [simp]: "visible_text empty_chunk = []" "extracted empty_chunk = []"
  by (simp_all add: empty_chunk_def)

section \<open>Feeding a parser\<close>

text \<open>A push that does not return, or panics, is \<^verbatim>\<open>None\<close>.\<close>

type_synonym ('s, 'e) push = "'s \<Rightarrow> str \<Rightarrow> ('e text_chunk \<times> 's) option"
type_synonym ('s, 'e) flush = "'s \<Rightarrow> 'e text_chunk \<times> 's"

primrec push_chunks :: "('s, 'e) push \<Rightarrow> 's \<Rightarrow> str list \<Rightarrow> ('e text_chunk \<times> 's) option" where
  "push_chunks push s [] = Some (empty_chunk, s)"
| "push_chunks push s (t # ts) =
     (case push s t of
        None \<Rightarrow> None
      | Some (c, s1) \<Rightarrow> map_option (\<lambda>(c2, s2). (append_chunk c c2, s2)) (push_chunks push s1 ts))"

definition run_stream :: "('s, 'e) push \<Rightarrow> ('s, 'e) flush \<Rightarrow> 's \<Rightarrow> str list \<Rightarrow> 'e text_chunk option" where
  "run_stream push finish s ts =
     map_option (\<lambda>(c, s1). append_chunk c (fst (finish s1))) (push_chunks push s ts)"

text \<open>Two chunks that show the same: equal text, and equal payloads up to the normal form.\<close>

definition same_chunk :: "('e list \<Rightarrow> 'e list) \<Rightarrow> 'e text_chunk \<Rightarrow> 'e text_chunk \<Rightarrow> bool" where
  "same_chunk norm a b \<longleftrightarrow> visible_text a = visible_text b \<and> norm (extracted a) = norm (extracted b)"

lemma same_chunk_refl [simp]: "same_chunk norm a a"
  by (simp add: same_chunk_def)

lemma same_chunk_trans: "same_chunk norm a b \<Longrightarrow> same_chunk norm b c \<Longrightarrow> same_chunk norm a c"
  by (simp add: same_chunk_def)

lemma same_chunk_sym: "same_chunk norm a b \<Longrightarrow> same_chunk norm b a"
  by (simp add: same_chunk_def)

lemma same_chunk_id: "same_chunk id a b \<longleftrightarrow> a = b"
  by (cases a; cases b) (simp add: same_chunk_def)

section \<open>The contract of a parser\<close>

locale stream_text_parser =
  fixes push :: "'s \<Rightarrow> str \<Rightarrow> ('e text_chunk \<times> 's) option"
    and finish :: "'s \<Rightarrow> 'e text_chunk \<times> 's"
    and ok :: "'s \<Rightarrow> bool"
    and norm :: "'e list \<Rightarrow> 'e list"
  assumes push_returns: "ok s \<Longrightarrow> \<exists>c s'. push s t = Some (c, s') \<and> ok s'"
    and push_Nil: "ok s \<Longrightarrow> push s [] = Some (empty_chunk, s)"
    and push_append: "ok s \<Longrightarrow> push s t = Some (c1, s1) \<Longrightarrow> push s1 u = Some (c2, s2) \<Longrightarrow>
      \<exists>c. push s (t @ u) = Some (c, s2) \<and> same_chunk norm c (append_chunk c1 c2)"
    and norm_left: "norm (norm xs @ ys) = norm (xs @ ys)"
    and norm_right: "norm (xs @ norm ys) = norm (xs @ ys)"
begin

lemma same_append:
  assumes "same_chunk norm a a'" "same_chunk norm b b'"
  shows "same_chunk norm (append_chunk a b) (append_chunk a' b')"
proof -
  have "norm (extracted a @ extracted b) = norm (norm (extracted a) @ norm (extracted b))"
    by (simp add: norm_left norm_right)
  also have "\<dots> = norm (extracted a' @ extracted b')"
    using assms by (simp add: same_chunk_def norm_left norm_right)
  finally show ?thesis using assms by (simp add: same_chunk_def)
qed

lemma push_chunks_concat:
  assumes "ok s"
  shows "\<exists>c c' s'. push_chunks push s ts = Some (c, s') \<and> push s (concat ts) = Some (c', s') \<and>
    same_chunk norm c c' \<and> ok s'"
  using assms
proof (induction ts arbitrary: s)
  case (Cons t ts)
  obtain c1 s1 where 1: "push s t = Some (c1, s1)" "ok s1" using push_returns [OF Cons.prems] by blast
  obtain c2 c2' s2 where 2: "push_chunks push s1 ts = Some (c2, s2)" "push s1 (concat ts) = Some (c2', s2)"
    "same_chunk norm c2 c2'" "ok s2" using Cons.IH [OF 1(2)] by blast
  obtain c where "push s (t @ concat ts) = Some (c, s2)" "same_chunk norm c (append_chunk c1 c2')"
    using push_append [OF Cons.prems 1(1) 2(2)] by blast
  moreover have "same_chunk norm (append_chunk c1 c2) (append_chunk c1 c2')"
    using same_append 2(3) by simp
  ultimately show ?case using 1 2 same_chunk_trans same_chunk_sym by fastforce
qed (simp add: push_Nil)

text \<open>However the text is cut into pieces, the parser shows the same.\<close>

lemma run_stream_concat:
  assumes "ok s"
  shows "\<exists>c c'. run_stream push finish s ts = Some c \<and> run_stream push finish s [concat ts] = Some c' \<and>
    same_chunk norm c c'"
  using push_chunks_concat [OF assms, of ts] same_append
  by (fastforce simp: run_stream_def)

end

end
