(* ===== verification/Stream_Tags.thy ===== *)
theory Stream_Tags
  imports Stream_Text
begin

text \<open>
  \<^verbatim>\<open>codex-rs/utils/stream-parser/src/inline_hidden_tag.rs\<close> and \<^verbatim>\<open>citation.rs\<close>: the parser that hides
  inline tags in streamed text and extracts their contents. Positions count characters instead of
  bytes. The theorems show that pushing a piece always returns, that the pieces do not matter when no
  opening delimiter occurs inside another, and which citations a text contains.
\<close>

section \<open>The parser\<close>

record 'a tag_spec =
  spec_tag :: 'a
  spec_open :: str
  spec_close :: str

record 'a active_tag =
  active_name :: 'a
  active_close :: str
  active_content :: str

record 'a extracted_tag =
  extracted_name :: 'a
  tag_content :: str

record 'a inline_parser =
  inline_specs :: "'a tag_spec list"
  inline_pending :: str
  inline_active :: "'a active_tag option"

text \<open>The assertions of \<^verbatim>\<open>new\<close>: a panic is \<^verbatim>\<open>None\<close>.\<close>

definition new_inline :: "'a tag_spec list \<Rightarrow> 'a inline_parser option" where
  "new_inline ss =
     (if ss \<noteq> [] \<and> list_all (\<lambda>s. spec_open s \<noteq> [] \<and> spec_close s \<noteq> []) ss
      then Some \<lparr>inline_specs = ss, inline_pending = [], inline_active = None\<rparr> else None)"

text \<open>\<^verbatim>\<open>Iterator::min_by\<close>: the first of the least elements.\<close>

fun min_by :: "('a \<Rightarrow> 'a \<Rightarrow> bool) \<Rightarrow> 'a list \<Rightarrow> 'a option" where
  "min_by lt [] = None"
| "min_by lt (x # xs) =
     (case min_by lt xs of None \<Rightarrow> Some x | Some y \<Rightarrow> if lt y x then Some y else Some x)"

definition opens_before :: "nat \<times> nat \<times> nat \<Rightarrow> nat \<times> nat \<times> nat \<Rightarrow> bool" where
  "opens_before a b \<longleftrightarrow>
     (case (a, b) of ((pos_a, len_a, idx_a), (pos_b, len_b, idx_b)) \<Rightarrow>
        pos_a < pos_b \<or> pos_a = pos_b \<and> (len_b < len_a \<or> len_b = len_a \<and> idx_a < idx_b))"

definition open_candidates :: "'a tag_spec list \<Rightarrow> str \<Rightarrow> (nat \<times> nat \<times> nat) list" where
  "open_candidates ss pending =
     List.map_filter (\<lambda>(idx, spec). map_option (\<lambda>pos. (pos, length (spec_open spec), idx))
       (str_find pending (spec_open spec))) (enumerate 0 ss)"

definition find_next_open :: "'a tag_spec list \<Rightarrow> str \<Rightarrow> (nat \<times> nat) option" where
  "find_next_open ss pending =
     map_option (\<lambda>(pos, _, idx). (pos, idx)) (min_by opens_before (open_candidates ss pending))"

fun longest_from :: "str \<Rightarrow> str \<Rightarrow> nat \<Rightarrow> nat" where
  "longest_from s needle 0 = 0"
| "longest_from s needle (Suc k) =
     (if ends_with s (take (Suc k) needle) then Suc k else longest_from s needle k)"

definition longest_suffix_prefix_len :: "str \<Rightarrow> str \<Rightarrow> nat" where
  "longest_suffix_prefix_len s needle = longest_from s needle (min (length s) (length needle - 1))"

definition max_open_prefix_suffix_len :: "'a tag_spec list \<Rightarrow> str \<Rightarrow> nat" where
  "max_open_prefix_suffix_len ss pending =
     fold max (map (\<lambda>s. longest_suffix_prefix_len pending (spec_open s)) ss) 0"

definition show_text :: "str \<Rightarrow> 'e text_chunk \<Rightarrow> 'e text_chunk" where
  "show_text t out = out\<lparr>visible_text := visible_text out @ t\<rparr>"

definition emit :: "'e \<Rightarrow> 'e text_chunk \<Rightarrow> 'e text_chunk" where
  "emit e out = out\<lparr>extracted := extracted out @ [e]\<rparr>"

text \<open>The loop of \<^verbatim>\<open>push_str\<close>; that it returns is a theorem.\<close>

partial_function (option) push_loop ::
  "'a tag_spec list \<Rightarrow> 'a active_tag option \<Rightarrow> str \<Rightarrow> 'a extracted_tag text_chunk \<Rightarrow>
   ('a extracted_tag text_chunk \<times> 'a active_tag option \<times> str) option" where
  "push_loop ss active pending out =
     (case active of
        Some a \<Rightarrow>
          (case str_find pending (active_close a) of
             Some i \<Rightarrow>
               push_loop ss None (drop (i + length (active_close a)) pending)
                 (emit \<lparr>extracted_name = active_name a, tag_content = active_content a @ take i pending\<rparr> out)
           | None \<Rightarrow>
               (let n = length pending - longest_suffix_prefix_len pending (active_close a) in
                Some (out, Some (a\<lparr>active_content := active_content a @ take n pending\<rparr>), drop n pending)))
      | None \<Rightarrow>
          (case find_next_open ss pending of
             Some (i, k) \<Rightarrow>
               push_loop ss
                 (Some \<lparr>active_name = spec_tag (ss ! k), active_close = spec_close (ss ! k), active_content = []\<rparr>)
                 (drop (i + length (spec_open (ss ! k))) pending) (show_text (take i pending) out)
           | None \<Rightarrow>
               (let n = length pending - max_open_prefix_suffix_len ss pending in
                Some (show_text (take n pending) out, None, drop n pending))))"

definition inline_push ::
  "'a inline_parser \<Rightarrow> str \<Rightarrow> ('a extracted_tag text_chunk \<times> 'a inline_parser) option" where
  "inline_push p chunk =
     map_option (\<lambda>(out, active, pending). (out, p\<lparr>inline_active := active, inline_pending := pending\<rparr>))
       (push_loop (inline_specs p) (inline_active p) (inline_pending p @ chunk) empty_chunk)"

definition inline_finish :: "'a inline_parser \<Rightarrow> 'a extracted_tag text_chunk \<times> 'a inline_parser" where
  "inline_finish p =
     (case inline_active p of
        Some a \<Rightarrow>
          (emit \<lparr>extracted_name = active_name a, tag_content = active_content a @ inline_pending p\<rparr> empty_chunk,
           p\<lparr>inline_active := None, inline_pending := []\<rparr>)
      | None \<Rightarrow> (show_text (inline_pending p) empty_chunk, p\<lparr>inline_pending := []\<rparr>))"

section \<open>Citations\<close>

datatype citation_tag = Citation

definition CITATION_OPEN :: str where
  "CITATION_OPEN = lit ''<oai-mem-citation>''"

definition CITATION_CLOSE :: str where
  "CITATION_CLOSE = lit ''</oai-mem-citation>''"

definition citation_specs :: "citation_tag tag_spec list" where
  "citation_specs = [\<lparr>spec_tag = Citation, spec_open = CITATION_OPEN, spec_close = CITATION_CLOSE\<rparr>]"

definition new_citations :: "citation_tag inline_parser" where
  "new_citations = \<lparr>inline_specs = citation_specs, inline_pending = [], inline_active = None\<rparr>"

definition contents :: "'a extracted_tag text_chunk \<Rightarrow> str text_chunk" where
  "contents c = \<lparr>visible_text = visible_text c, extracted = map tag_content (extracted c)\<rparr>"

definition citation_push ::
  "citation_tag inline_parser \<Rightarrow> str \<Rightarrow> (str text_chunk \<times> citation_tag inline_parser) option" where
  "citation_push p chunk = map_option (map_prod contents id) (inline_push p chunk)"

definition citation_finish :: "citation_tag inline_parser \<Rightarrow> str text_chunk \<times> citation_tag inline_parser" where
  "citation_finish p = map_prod contents id (inline_finish p)"

definition strip_citations :: "str \<Rightarrow> (str \<times> str list) option" where
  "strip_citations text =
     (case citation_push new_citations text of
        None \<Rightarrow> None
      | Some (out, p) \<Rightarrow>
          (let tail = fst (citation_finish p) in
           Some (visible_text out @ visible_text tail, extracted out @ extracted tail)))"

lemma strip_citations_new: "new_inline citation_specs = Some new_citations"
  by (simp add: new_inline_def citation_specs_def new_citations_def CITATION_OPEN_def CITATION_CLOSE_def)

section \<open>Searching in text that grows\<close>

text \<open>The position found does not move when text is appended.\<close>

lemma str_find_bound: "str_find s p = Some i \<Longrightarrow> i + length p \<le> length s"
  by (auto simp: str_find_Some_iff dest: prefix_length_le)

lemma prefix_append_short: "prefix p (s @ y) \<Longrightarrow> length p \<le> length s \<Longrightarrow> prefix p s"
  by (metis prefix_length_prefix prefixI)

lemma str_find_append: "str_find s p = Some i \<Longrightarrow> str_find (s @ y) p = Some i"
proof -
  assume f: "str_find s p = Some i"
  then have i: "i + length p \<le> length s" "prefix p (drop i s)" "\<forall>j < i. \<not> prefix p (drop j s)"
    using str_find_bound by (auto simp: str_find_Some_iff)
  have "\<not> prefix p (drop j (s @ y))" if "j < i" for j
  proof
    assume "prefix p (drop j (s @ y))"
    moreover have "length p \<le> length (drop j s)" using i(1) that by simp
    moreover have "drop j (s @ y) = drop j s @ y" using i(1) that by simp
    ultimately have "prefix p (drop j s)" using prefix_append_short by metis
    then show False using i(3) that by blast
  qed
  with i show ?thesis by (auto simp: str_find_Some_iff)
qed

text \<open>Text that cannot begin a match may be dropped before searching.\<close>

lemma str_find_skip:
  assumes "n \<le> length s" "\<forall>i < n. \<not> prefix p (drop i s)"
  shows "str_find s p = map_option ((+) n) (str_find (drop n s) p)"
proof (cases "str_find (drop n s) p")
  case None
  have "\<not> prefix p (drop i s)" if "i \<le> length s" for i
  proof (cases "i < n")
    case False
    with None that show ?thesis
      by (auto simp: str_find_None_iff dest: spec [of _ "i - n"])
  qed (use assms in auto)
  then have "str_find s p = None" by (simp add: str_find_None_iff)
  with None show ?thesis by simp
next
  case (Some j)
  then have "n + j \<le> length s" "prefix p (drop (n + j) s)" "\<forall>k < j. \<not> prefix p (drop (n + k) s)"
    using assms(1) by (auto simp: str_find_Some_iff add.commute)
  moreover have "\<not> prefix p (drop i s)" if "i < n + j" for i
  proof (cases "i < n")
    case False
    with that have "i - n < j" by linarith
    with calculation(3) have "\<not> prefix p (drop (n + (i - n)) s)" by blast
    with False show ?thesis by simp
  qed (use assms in auto)
  ultimately have "str_find s p = Some (n + j)" by (simp add: str_find_Some_iff)
  with Some show ?thesis by simp
qed

text \<open>The length of the longest proper prefix of a delimiter that the text ends with.\<close>

lemma longest_from_le: "longest_from s p k \<le> k \<and> ends_with s (take (longest_from s p k) p)"
  by (induction k) (auto simp: ends_with_def)

lemma longest_from_max: "m \<le> k \<Longrightarrow> ends_with s (take m p) \<Longrightarrow> m \<le> longest_from s p k"
  by (induction k) (auto simp: le_Suc_eq)

lemma longest_suffix:
  assumes "p \<noteq> []"
  shows "suffix (take (longest_suffix_prefix_len s p) p) s" "longest_suffix_prefix_len s p < length p"
    "longest_suffix_prefix_len s p \<le> length s"
  using longest_from_le [of s p "min (length s) (length p - 1)"] assms
  by (auto simp: longest_suffix_prefix_len_def ends_with_suffix)
    (metis One_nat_def Suc_pred length_greater_0_conv less_Suc_eq_le min.bounded_iff)

lemma longest_suffix_max:
  assumes "m < length p" "suffix (take m p) s"
  shows "m \<le> longest_suffix_prefix_len s p"
proof -
  have "m \<le> length s" using suffix_length_le [OF assms(2)] assms(1) by simp
  then show ?thesis
    using assms longest_from_max [of m "min (length s) (length p - 1)" s p]
    by (auto simp: longest_suffix_prefix_len_def ends_with_suffix)
qed

lemma longest_suffix_unique:
  assumes "p \<noteq> []" "\<And>m. m < length p \<Longrightarrow> suffix (take m p) s \<longleftrightarrow> suffix (take m p) t"
  shows "longest_suffix_prefix_len s p = longest_suffix_prefix_len t p"
  using longest_suffix [OF assms(1), of s] longest_suffix [OF assms(1), of t] assms(2)
    longest_suffix_max [of "longest_suffix_prefix_len s p" p t] longest_suffix_max [of "longest_suffix_prefix_len t p" p s]
  by (meson le_antisym)

text \<open>What is kept is enough to find every match and every partial match once more text arrives.\<close>

lemma suffix_kept:
  assumes "suffix w u" "length w \<le> k"
  shows "suffix w (drop (length u - k) u)"
proof -
  obtain x where u: "u = x @ w" using assms(1) by (auto simp: suffix_def)
  with assms(2) have "length u - k \<le> length x" by simp
  then show ?thesis unfolding u by (auto simp: suffix_def)
qed

lemma no_match_before_kept:
  assumes "str_find u p = None" "p \<noteq> []" "longest_suffix_prefix_len u p \<le> k" "i < length u - k"
  shows "\<not> prefix p (drop i (u @ y))"
proof
  assume pre: "prefix p (drop i (u @ y))"
  have d: "drop i (u @ y) = drop i u @ y" using assms(4) by simp
  show False
  proof (cases "length p \<le> length (drop i u)")
    case True
    then have "prefix p (drop i u)" using pre prefix_append_short unfolding d by blast
    with assms(1,4) show False by (auto simp: str_find_None_iff)
  next
    case False
    then have "take (length (drop i u)) p = drop i u"
      using pre unfolding d by (metis append_eq_conv_conj linorder_linear prefix_def take_all take_append diff_is_0_eq
          append_Nil2 take0)
    then have "suffix (take (length (drop i u)) p) u" by (metis suffix_drop)
    then have "length (drop i u) \<le> k" using False longest_suffix_max assms(3) by (metis le_trans linorder_not_le)
    with assms(4) show False by simp
  qed
qed

lemma str_find_kept:
  assumes "str_find u p = None" "p \<noteq> []" "longest_suffix_prefix_len u p \<le> k"
  shows "str_find (u @ y) p = map_option ((+) (length u - k)) (str_find (drop (length u - k) u @ y) p)"
  using str_find_skip [of "length u - k" "u @ y" p] no_match_before_kept [OF assms] by simp

lemma longest_suffix_kept:
  assumes "p \<noteq> []" "longest_suffix_prefix_len u p \<le> k"
  shows "longest_suffix_prefix_len (u @ y) p = longest_suffix_prefix_len (drop (length u - k) u @ y) p"
proof (rule longest_suffix_unique [OF assms(1)])
  fix m
  assume m: "m < length p"
  show "suffix (take m p) (u @ y) \<longleftrightarrow> suffix (take m p) (drop (length u - k) u @ y)"
  proof
    assume s: "suffix (take m p) (u @ y)"
    show "suffix (take m p) (drop (length u - k) u @ y)"
    proof (cases "suffix (take m p) y")
      case False
      with s obtain w where w: "take m p = w @ y" "suffix w u" by (auto simp: suffix_append)
      then have "w = take (length w) p" using m by (metis append_eq_conv_conj min.strict_order_iff prefix_def
            take_is_prefix take_take)
      moreover have "length w < length p" using w(1) m by (metis append_take_drop_id length_append
            length_take less_le_trans linorder_not_less min.absorb4 not_add_less1)
      ultimately have "length w \<le> k" using longest_suffix_max [of "length w" p u] w(2) assms(2) by simp
      then show ?thesis using w suffix_kept by (auto simp: suffix_append)
    qed (auto simp: suffix_append)
  next
    assume "suffix (take m p) (drop (length u - k) u @ y)"
    then show "suffix (take m p) (u @ y)" by (auto simp: suffix_append dest: suffix_order.trans [OF _ suffix_drop])
  qed
qed


section \<open>The next opening delimiter\<close>

lemma min_by_None [simp]: "min_by lt xs = None \<longleftrightarrow> xs = []"
  by (cases xs) (auto split: option.splits)

lemma min_by_Some:
  assumes "min_by lt xs = Some x" "\<And>a b. lt a b \<or> a = b \<or> lt b a" "\<And>a b c. lt a b \<Longrightarrow> lt b c \<Longrightarrow> lt a c"
  shows "x \<in> set xs \<and> (\<forall>y \<in> set xs. y = x \<or> lt x y)"
  using assms(1)
proof (induction xs arbitrary: x)
  case (Cons z zs)
  show ?case
  proof (cases "min_by lt zs")
    case (Some m)
    with Cons.IH [OF Some] Cons.prems show ?thesis
      using assms(2,3) by (auto split: if_splits) (metis+)
  qed (use Cons.prems in simp)
qed simp

lemma opens_before_total: "opens_before a b \<or> a = b \<or> opens_before b a"
  by (cases a; cases b) (auto simp: opens_before_def)

lemma opens_before_trans: "opens_before a b \<Longrightarrow> opens_before b c \<Longrightarrow> opens_before a c"
  by (cases a; cases b; cases c) (auto simp: opens_before_def)

lemma opens_before_irrefl: "opens_before a b \<Longrightarrow> \<not> opens_before b a"
  by (cases a; cases b) (auto simp: opens_before_def)

definition candidate :: "'a tag_spec list \<Rightarrow> str \<Rightarrow> nat \<times> nat \<times> nat \<Rightarrow> bool" where
  "candidate ss u c \<longleftrightarrow>
     (case c of (i, n, k) \<Rightarrow>
        k < length ss \<and> n = length (spec_open (ss ! k)) \<and> str_find u (spec_open (ss ! k)) = Some i)"

lemma first_opening:
  assumes "min_by opens_before xs = Some x"
  shows "x \<in> set xs \<and> (\<forall>y \<in> set xs. y = x \<or> opens_before x y)"
proof (rule min_by_Some [OF assms])
  show "opens_before a b \<or> a = b \<or> opens_before b a" for a b by (rule opens_before_total)
  show "opens_before a b \<Longrightarrow> opens_before b c \<Longrightarrow> opens_before a c" for a b c by (rule opens_before_trans)
qed

lemma set_open_candidates: "c \<in> set (open_candidates ss u) \<longleftrightarrow> candidate ss u c"
  by (cases c) (force simp: open_candidates_def candidate_def List.map_filter_def in_set_enumerate_eq image_iff)

lemma find_next_open_None: "find_next_open ss u = None \<longleftrightarrow> (\<forall>s \<in> set ss. str_find u (spec_open s) = None)"
proof -
  have "find_next_open ss u = None \<longleftrightarrow> set (open_candidates ss u) = {}"
    by (simp add: find_next_open_def)
  also have "\<dots> \<longleftrightarrow> (\<forall>c. \<not> candidate ss u c)"
    using all_not_in_conv [of "set (open_candidates ss u)"] by (simp only: set_open_candidates)
  also have "\<dots> \<longleftrightarrow> (\<forall>k < length ss. str_find u (spec_open (ss ! k)) = None)"
  proof (intro iffI allI impI notI)
    fix k
    assume "\<forall>c. \<not> candidate ss u c" "k < length ss"
    then show "str_find u (spec_open (ss ! k)) = None"
      by (cases "str_find u (spec_open (ss ! k))") (auto simp: candidate_def)
  qed (auto simp: candidate_def)
  finally show ?thesis by (simp add: all_set_conv_all_nth)
qed

lemma find_next_open_Some:
  "find_next_open ss u = Some (i, k) \<longleftrightarrow>
     (let best = (i, length (spec_open (ss ! k)), k)
      in candidate ss u best \<and> (\<forall>c. candidate ss u c \<longrightarrow> c = best \<or> opens_before best c))"
proof
  assume "find_next_open ss u = Some (i, k)"
  then obtain n where m: "min_by opens_before (open_candidates ss u) = Some (i, n, k)"
    by (auto simp: find_next_open_def)
  have "candidate ss u (i, n, k) \<and> (\<forall>c. candidate ss u c \<longrightarrow> c = (i, n, k) \<or> opens_before (i, n, k) c)"
    using first_opening [OF m] unfolding set_open_candidates [symmetric] by blast
  moreover from this have "n = length (spec_open (ss ! k))" by (simp add: candidate_def)
  ultimately show
    "let best = (i, length (spec_open (ss ! k)), k)
     in candidate ss u best \<and> (\<forall>c. candidate ss u c \<longrightarrow> c = best \<or> opens_before best c)"
    by simp
next
  let ?best = "(i, length (spec_open (ss ! k)), k)"
  assume "let best = ?best in candidate ss u best \<and> (\<forall>c. candidate ss u c \<longrightarrow> c = best \<or> opens_before best c)"
  then have b: "candidate ss u ?best" "\<And>c. candidate ss u c \<Longrightarrow> c = ?best \<or> opens_before ?best c"
    by (auto simp: Let_def)
  then obtain x where x: "min_by opens_before (open_candidates ss u) = Some x"
    using set_open_candidates [of ?best ss u] by (cases "min_by opens_before (open_candidates ss u)") auto
  from first_opening [OF x] have "candidate ss u x" "\<forall>y. candidate ss u y \<longrightarrow> y = x \<or> opens_before x y"
    unfolding set_open_candidates [symmetric] by blast+
  then have "x = ?best" using b opens_before_irrefl by metis
  with x show "find_next_open ss u = Some (i, k)" by (simp add: find_next_open_def)
qed

lemma find_next_open_bound: "find_next_open ss u = Some (i, k) \<Longrightarrow>
    k < length ss \<and> str_find u (spec_open (ss ! k)) = Some i"
  by (auto simp: find_next_open_Some candidate_def Let_def)

text \<open>No opening delimiter occurs inside another one.\<close>

definition infix_free :: "'a tag_spec list \<Rightarrow> bool" where
  "infix_free ss \<longleftrightarrow>
     (\<forall>s \<in> set ss. \<forall>t \<in> set ss. spec_open s \<noteq> spec_open t \<longrightarrow> \<not> str_contains (spec_open t) (spec_open s))"

lemma str_contains_middle: "str_contains (x @ p @ y) p"
proof -
  have "prefix p (drop (length x) (x @ p @ y))" by simp
  moreover have "length x \<le> length (x @ p @ y)" by simp
  ultimately show ?thesis unfolding str_contains_def str_find_None_iff by blast
qed

lemma match_inside:
  assumes "prefix q (drop j s)" "prefix p (drop i s)" "j \<le> i" "i + length p \<le> j + length q" "i \<le> length s"
  shows "str_contains q p"
proof -
  obtain a where a: "drop j s = q @ a" using assms(1) by (auto simp: prefix_def)
  obtain b where b: "drop i s = p @ b" using assms(2) by (auto simp: prefix_def)
  have "drop i s = drop (i - j) (drop j s)" using assms(3) by simp
  also have "\<dots> = drop (i - j) q @ a" using a assms(3,4) by (cases "i - j \<le> length q") auto
  finally have "drop (i - j) q @ a = p @ b" using b by simp
  moreover have "length p \<le> length (drop (i - j) q)" using assms(3,4) by simp
  ultimately have "prefix p (drop (i - j) q)" by (metis prefixI prefix_append_short)
  then obtain c where "q = take (i - j) q @ p @ c" by (metis append_take_drop_id prefix_def)
  then show ?thesis by (metis str_contains_middle)
qed

lemma find_next_open_append:
  assumes "infix_free ss" "find_next_open ss u = Some (i, k)"
  shows "find_next_open ss (u @ y) = Some (i, k)"
proof -
  let ?best = "(i, length (spec_open (ss ! k)), k)"
  have b: "candidate ss u ?best" "\<And>c. candidate ss u c \<Longrightarrow> c = ?best \<or> opens_before ?best c"
    using assms(2) by (auto simp: find_next_open_Some Let_def)
  then have k: "k < length ss" "str_find u (spec_open (ss ! k)) = Some i" by (auto simp: candidate_def)
  have "c = ?best \<or> opens_before ?best c" if c: "candidate ss (u @ y) c" for c
  proof -
    obtain j n m where cd: "c = (j, n, m)" by (cases c)
    show ?thesis
    proof (cases "str_find u (spec_open (ss ! m))")
      case (Some j')
      with c cd have "candidate ss u c" using str_find_append by (fastforce simp: candidate_def)
      then show ?thesis by (rule b(2))
    next
      case None
      have f: "m < length ss" "str_find (u @ y) (spec_open (ss ! m)) = Some j" using c cd by (auto simp: candidate_def)
      have "i < j"
      proof (rule ccontr)
        assume "\<not> i < j"
        then have "j \<le> i" by simp
        have ik: "i + length (spec_open (ss ! k)) \<le> length u" using str_find_bound [OF k(2)] .
        have pm: "prefix (spec_open (ss ! m)) (drop j (u @ y))" using f(2) by (simp add: str_find_Some_iff)
        have over: "length u < j + length (spec_open (ss ! m))"
        proof (rule ccontr)
          assume "\<not> length u < j + length (spec_open (ss ! m))"
          then have "prefix (spec_open (ss ! m)) (drop j u)" "j \<le> length u"
            using pm prefix_append_short [of _ "drop j u" y] by auto
          with None show False by (simp add: str_find_None_iff)
        qed
        have "prefix (spec_open (ss ! k)) (drop i (u @ y))"
          using str_find_append [OF k(2)] by (simp add: str_find_Some_iff)
        then have "str_contains (spec_open (ss ! m)) (spec_open (ss ! k))"
          using match_inside [OF pm _ \<open>j \<le> i\<close>] ik over by simp
        then have "spec_open (ss ! k) = spec_open (ss ! m)" using assms(1) nth_mem [OF k(1)] nth_mem [OF f(1)] by (auto simp: infix_free_def)
        with None k(2) show False by simp
      qed
      then show ?thesis by (simp add: cd opens_before_def)
    qed
  qed
  moreover have "candidate ss (u @ y) ?best" using k str_find_append by (simp add: candidate_def)
  ultimately show ?thesis unfolding find_next_open_Some Let_def by blast
qed


section \<open>The loop\<close>

text \<open>Delimiters are not empty, so every turn of the loop consumes text.\<close>

definition nonempty_specs :: "'a tag_spec list \<Rightarrow> bool" where
  "nonempty_specs ss \<longleftrightarrow> list_all (\<lambda>s. spec_open s \<noteq> [] \<and> spec_close s \<noteq> []) ss"

definition active_ok :: "'a active_tag option \<Rightarrow> bool" where
  "active_ok active \<longleftrightarrow> (case active of None \<Rightarrow> True | Some a \<Rightarrow> active_close a \<noteq> [])"

lemma nonempty_nth: "nonempty_specs ss \<Longrightarrow> k < length ss \<Longrightarrow> spec_open (ss ! k) \<noteq> [] \<and> spec_close (ss ! k) \<noteq> []"
  by (simp add: nonempty_specs_def list_all_length)

lemma show_text_append: "show_text t (append_chunk a b) = append_chunk a (show_text t b)"
  by (simp add: show_text_def append_chunk_def)

lemma emit_append: "emit e (append_chunk a b) = append_chunk a (emit e b)"
  by (simp add: emit_def append_chunk_def)

text \<open>One turn of the loop: it stops, or goes on with less text.\<close>

datatype 'a turn =
  Stop "'a extracted_tag text_chunk" "'a active_tag option" str
| Continue "'a extracted_tag text_chunk" "'a active_tag option" str

definition turn :: "'a tag_spec list \<Rightarrow> 'a active_tag option \<Rightarrow> str \<Rightarrow> 'a turn" where
  "turn ss active u =
     (case active of
        Some a \<Rightarrow>
          (case str_find u (active_close a) of
             Some i \<Rightarrow>
               Continue (emit \<lparr>extracted_name = active_name a, tag_content = active_content a @ take i u\<rparr> empty_chunk)
                 None (drop (i + length (active_close a)) u)
           | None \<Rightarrow>
               (let n = length u - longest_suffix_prefix_len u (active_close a) in
                Stop empty_chunk (Some (a\<lparr>active_content := active_content a @ take n u\<rparr>)) (drop n u)))
      | None \<Rightarrow>
          (case find_next_open ss u of
             Some (i, k) \<Rightarrow>
               Continue (show_text (take i u) empty_chunk)
                 (Some \<lparr>active_name = spec_tag (ss ! k), active_close = spec_close (ss ! k), active_content = []\<rparr>)
                 (drop (i + length (spec_open (ss ! k))) u)
           | None \<Rightarrow>
               (let n = length u - max_open_prefix_suffix_len ss u in
                Stop (show_text (take n u) empty_chunk) None (drop n u))))"

lemma append_show: "append_chunk out (show_text t empty_chunk) = show_text t out"
  and append_emit: "append_chunk out (emit e empty_chunk) = emit e out"
  by (simp_all add: show_text_def emit_def append_chunk_def empty_chunk_def)

lemma push_loop_turn:
  "push_loop ss active u out =
     (case turn ss active u of
        Stop o1 a1 v \<Rightarrow> Some (append_chunk out o1, a1, v)
      | Continue o1 a1 v \<Rightarrow> push_loop ss a1 v (append_chunk out o1))"
  by (subst push_loop.simps)
    (auto simp: turn_def append_show append_emit Let_def split: option.splits)

lemma turn_Continue:
  assumes "nonempty_specs ss" "active_ok active" "turn ss active u = Continue o1 a1 v"
  shows "length v < length u \<and> active_ok a1"
proof (cases active)
  case (Some a)
  then obtain i where i: "str_find u (active_close a) = Some i" "v = drop (i + length (active_close a)) u" "a1 = None"
    using assms(3) by (auto simp: turn_def Let_def split: option.splits)
  moreover have "active_close a \<noteq> []" using assms(2) Some by (simp add: active_ok_def)
  ultimately show ?thesis using str_find_bound [OF i(1)] by (cases u) (auto simp: active_ok_def)
next
  case None
  then obtain i k where i: "find_next_open ss u = Some (i, k)" "v = drop (i + length (spec_open (ss ! k))) u"
    and a1: "a1 = Some \<lparr>active_name = spec_tag (ss ! k), active_close = spec_close (ss ! k), active_content = []\<rparr>"
    using assms(3) by (auto simp: turn_def Let_def split: option.splits)
  have k: "k < length ss" "str_find u (spec_open (ss ! k)) = Some i" using find_next_open_bound [OF i(1)] by auto
  show ?thesis
    using str_find_bound [OF k(2)] nonempty_nth [OF assms(1) k(1)] by (cases u) (auto simp: i(2) a1 active_ok_def)
qed

lemma push_loop_acc:
  assumes "nonempty_specs ss" "active_ok active"
  shows "push_loop ss active u (append_chunk out out') =
    map_option (\<lambda>(c, r). (append_chunk out c, r)) (push_loop ss active u out')"
  using assms(2)
proof (induction u arbitrary: active out' rule: length_induct)
  case (1 u)
  show ?case
  proof (cases "turn ss active u")
    case (Continue o1 a1 v)
    then show ?thesis
      using 1 turn_Continue [OF assms(1) 1(2) Continue]
      by (simp add: push_loop_turn [of ss active u])
  qed (simp add: push_loop_turn [of ss active u])
qed

lemma push_loop_returns:
  assumes "nonempty_specs ss" "active_ok active"
  shows "\<exists>c a v. push_loop ss active u out = Some (c, a, v) \<and> active_ok a"
  using assms(2)
proof (induction u arbitrary: active out rule: length_induct)
  case (1 u)
  show ?case
  proof (cases "turn ss active u")
    case (Continue o1 a1 v)
    then show ?thesis
      using 1 turn_Continue [OF assms(1) 1(2) Continue]
      by (simp add: push_loop_turn [of ss active u])
  next
    case (Stop o1 a1 v)
    then have "active_ok a1"
      using 1(2) by (auto simp: turn_def active_ok_def Let_def split: option.splits)
    with Stop show ?thesis by (simp add: push_loop_turn [of ss active u])
  qed
qed

text \<open>The turn on more text begins like the turn on less.\<close>

lemma fold_max_ge: "a \<le> fold max xs (a :: nat) \<and> (\<forall>x \<in> set xs. x \<le> fold max xs a)"
  by (induction xs arbitrary: a) (fastforce)+

lemma max_open_ge: "s \<in> set ss \<Longrightarrow> longest_suffix_prefix_len u (spec_open s) \<le> max_open_prefix_suffix_len ss u"
  using fold_max_ge [of 0 "map (\<lambda>s. longest_suffix_prefix_len u (spec_open s)) ss"]
  by (auto simp: max_open_prefix_suffix_len_def)

lemma max_open_le: "\<forall>s \<in> set ss. spec_open s \<noteq> [] \<Longrightarrow> max_open_prefix_suffix_len ss u \<le> length u"
proof -
  have "fold max xs b \<le> n" if "b \<le> n" "\<forall>x \<in> set xs. x \<le> n" for xs and b n :: nat
    using that by (induction xs arbitrary: b) auto
  moreover assume "\<forall>s \<in> set ss. spec_open s \<noteq> []"
  ultimately show ?thesis using longest_suffix(3) by (auto simp: max_open_prefix_suffix_len_def)
qed


lemma turn_Continue_append:
  assumes "infix_free ss" "turn ss active u = Continue o1 a1 v" "nonempty_specs ss" "active_ok active"
  shows "turn ss active (u @ y) = Continue o1 a1 (v @ y)"
proof (cases active)
  case (Some a)
  then obtain i where i: "str_find u (active_close a) = Some i" "v = drop (i + length (active_close a)) u" "a1 = None"
    "o1 = emit \<lparr>extracted_name = active_name a, tag_content = active_content a @ take i u\<rparr> empty_chunk"
    using assms(2) by (auto simp: turn_def Let_def split: option.splits)
  then show ?thesis
    using Some str_find_append [OF i(1)] str_find_bound [OF i(1)] by (simp add: turn_def)
next
  case None
  then obtain i k where i: "find_next_open ss u = Some (i, k)" "v = drop (i + length (spec_open (ss ! k))) u"
    "a1 = Some \<lparr>active_name = spec_tag (ss ! k), active_close = spec_close (ss ! k), active_content = []\<rparr>"
    "o1 = show_text (take i u) empty_chunk"
    using assms(2) by (auto simp: turn_def Let_def split: option.splits)
  have "str_find u (spec_open (ss ! k)) = Some i" using find_next_open_bound [OF i(1)] by simp
  from str_find_bound [OF this] show ?thesis
    using None i find_next_open_append [OF assms(1) i(1)] by (simp add: turn_def)
qed

text \<open>What two turns show when the first only advances inside the text.\<close>

definition then_turn :: "'a extracted_tag text_chunk \<Rightarrow> 'a turn \<Rightarrow> 'a turn" where
  "then_turn out t =
     (case t of Stop o1 a v \<Rightarrow> Stop (append_chunk out o1) a v | Continue o1 a v \<Rightarrow> Continue (append_chunk out o1) a v)"

lemma find_next_open_kept:
  assumes "find_next_open ss u = None" "\<forall>s \<in> set ss. spec_open s \<noteq> []"
  shows "find_next_open ss (u @ y) = map_option (\<lambda>(i, k). (length u - max_open_prefix_suffix_len ss u + i, k))
    (find_next_open ss (drop (length u - max_open_prefix_suffix_len ss u) u @ y))"
proof -
  let ?n = "length u - max_open_prefix_suffix_len ss u"
  have f: "str_find (u @ y) (spec_open s) = map_option ((+) ?n) (str_find (drop ?n u @ y) (spec_open s))"
    if "s \<in> set ss" for s
    using str_find_kept [of u "spec_open s" "max_open_prefix_suffix_len ss u" y] assms that max_open_ge [OF that]
    by (simp add: find_next_open_None)
  have c: "candidate ss (u @ y) (?n + i, m, k) \<longleftrightarrow> candidate ss (drop ?n u @ y) (i, m, k)" for i m k
    using f [of "ss ! k"] by (cases "str_find (drop ?n u @ y) (spec_open (ss ! k))") (auto simp: candidate_def)
  have c': "candidate ss (u @ y) (j, m, k) \<Longrightarrow> \<exists>i. j = ?n + i" for j m k
    using f [of "ss ! k"] by (cases "str_find (drop ?n u @ y) (spec_open (ss ! k))") (auto simp: candidate_def)
  show ?thesis
  proof (cases "find_next_open ss (drop ?n u @ y)")
    case None
    then have "find_next_open ss (u @ y) = None" using f by (simp add: find_next_open_None)
    with None show ?thesis by simp
  next
    case (Some b)
    then obtain i k where b: "find_next_open ss (drop ?n u @ y) = Some (i, k)" by (cases b) auto
    let ?best = "(i, length (spec_open (ss ! k)), k)"
    have 1: "candidate ss (drop ?n u @ y) ?best"
      "\<And>c. candidate ss (drop ?n u @ y) c \<Longrightarrow> c = ?best \<or> opens_before ?best c"
      using b unfolding find_next_open_Some Let_def by blast+
    have "find_next_open ss (u @ y) = Some (?n + i, k)"
      unfolding find_next_open_Some Let_def
    proof (intro conjI allI impI)
      show "candidate ss (u @ y) (?n + i, length (spec_open (ss ! k)), k)" using 1(1) c by simp
      fix x
      assume x: "candidate ss (u @ y) x"
      obtain j m k' where xd: "x = (j, m, k')" by (cases x)
      then obtain i' where j: "j = ?n + i'" using c' x by blast
      then have "candidate ss (drop ?n u @ y) (i', m, k')" using x c by (simp add: xd)
      from 1(2) [OF this] show "x = (?n + i, length (spec_open (ss ! k)), k) \<or>
          opens_before (?n + i, length (spec_open (ss ! k)), k) x"
        by (auto simp: xd j opens_before_def)
    qed
    with b show ?thesis by simp
  qed
qed

lemma max_open_kept:
  assumes "\<forall>s \<in> set ss. spec_open s \<noteq> []"
  shows "max_open_prefix_suffix_len ss (u @ y) =
    max_open_prefix_suffix_len ss (drop (length u - max_open_prefix_suffix_len ss u) u @ y)"
proof -
  have "map (\<lambda>s. longest_suffix_prefix_len (u @ y) (spec_open s)) ss =
      map (\<lambda>s. longest_suffix_prefix_len (drop (length u - max_open_prefix_suffix_len ss u) u @ y) (spec_open s)) ss"
    using assms max_open_ge longest_suffix_kept by (intro map_cong) (auto intro!: longest_suffix_kept max_open_ge)
  from arg_cong [OF this, of "\<lambda>xs. fold max xs 0"] show ?thesis
    by (simp only: max_open_prefix_suffix_len_def [of ss "_ @ y"])
qed

lemma take_past: "n \<le> length u \<Longrightarrow> take (n + i) (u @ y) = take n u @ take i (drop n u @ y)"
  by (simp add: take_add) (simp add: add.commute)

lemma drop_past: "n \<le> length u \<Longrightarrow> drop (n + i) (u @ y) = drop i (drop n u @ y)"
  by (simp add: add.commute flip: drop_drop)

lemma turn_Stop_append:
  assumes "turn ss active u = Stop o1 a1 v" "nonempty_specs ss" "active_ok active"
  shows "turn ss active (u @ y) = then_turn o1 (turn ss a1 (v @ y))"
proof (cases active)
  case (Some a)
  let ?n = "length u - longest_suffix_prefix_len u (active_close a)"
  have ne: "active_close a \<noteq> []" using assms(3) Some by (simp add: active_ok_def)
  have s: "str_find u (active_close a) = None" "o1 = empty_chunk" "v = drop ?n u"
    "a1 = Some (a\<lparr>active_content := active_content a @ take ?n u\<rparr>)"
    using assms(1) Some by (auto simp: turn_def Let_def split: option.splits)
  have le: "longest_suffix_prefix_len u (active_close a) \<le> length u" using longest_suffix(3) [OF ne] .
  have f: "str_find (u @ y) (active_close a) = map_option ((+) ?n) (str_find (v @ y) (active_close a))"
    using str_find_kept [OF s(1) ne order.refl] s(3) by simp
  have l: "longest_suffix_prefix_len (u @ y) (active_close a) = longest_suffix_prefix_len (v @ y) (active_close a)"
    using longest_suffix_kept [OF ne order.refl] s(3) by simp
  have len: "length (u @ y) - k = ?n + (length (v @ y) - k)" if "k \<le> length (v @ y)" for k
    using that le s(3) by simp
  have tk: "take (?n + i) (u @ y) = take ?n u @ take i (v @ y)" for i
    using take_past [of ?n u] s(3) by simp
  have dr: "drop (?n + i) (u @ y) = drop i (v @ y)" for i using drop_past [of ?n u] s(3) by simp
  define r where "r = length (v @ y) - longest_suffix_prefix_len (v @ y) (active_close a)"
  have "length (u @ y) - longest_suffix_prefix_len (u @ y) (active_close a) = ?n + r"
    unfolding l r_def by (rule len [OF longest_suffix(3) [OF ne]])
  then show ?thesis
    using Some s(4) f r_def [symmetric]
    by (cases "str_find (v @ y) (active_close a)")
      (simp_all add: turn_def then_turn_def s(2) Let_def tk dr add.assoc del: take_append drop_append length_append)
next
  case None
  let ?n = "length u - max_open_prefix_suffix_len ss u"
  have ne: "\<forall>s \<in> set ss. spec_open s \<noteq> []" using assms(2) by (auto simp: nonempty_specs_def list_all_iff)
  have s: "find_next_open ss u = None" "o1 = show_text (take ?n u) empty_chunk" "v = drop ?n u" "a1 = None"
    using assms(1) None by (auto simp: turn_def Let_def split: option.splits)
  have le: "max_open_prefix_suffix_len ss u \<le> length u" using max_open_le [OF ne] .
  have f: "find_next_open ss (u @ y) = map_option (\<lambda>(i, k). (?n + i, k)) (find_next_open ss (v @ y))"
    using find_next_open_kept [OF s(1) ne] s(3) by simp
  have l: "max_open_prefix_suffix_len ss (u @ y) = max_open_prefix_suffix_len ss (v @ y)"
    using max_open_kept [OF ne] s(3) by simp
  have len: "length (u @ y) - k = ?n + (length (v @ y) - k)" if "k \<le> length (v @ y)" for k
    using that le s(3) by simp
  have tk: "take (?n + i) (u @ y) = take ?n u @ take i (v @ y)" for i
    using take_past [of ?n u] s(3) by simp
  have dr: "drop (?n + i) (u @ y) = drop i (v @ y)" for i using drop_past [of ?n u] s(3) by simp
  have sh: "show_text (a @ b) empty_chunk = append_chunk (show_text a empty_chunk) (show_text b empty_chunk)" for a b
    by (simp add: show_text_def append_chunk_def empty_chunk_def)
  define r where "r = length (v @ y) - max_open_prefix_suffix_len ss (v @ y)"
  have "length (u @ y) - max_open_prefix_suffix_len ss (u @ y) = ?n + r"
    unfolding l r_def by (rule len [OF max_open_le [OF ne]])
  then show ?thesis
    using None s(4) f r_def [symmetric]
    by (cases "find_next_open ss (v @ y)")
      (auto simp: turn_def then_turn_def s(2) Let_def tk dr sh add.assoc
        simp del: take_append drop_append length_append)
qed


lemma push_loop_append:
  assumes "infix_free ss" "nonempty_specs ss" "active_ok active"
    and "push_loop ss active u out = Some (out1, a1, v)"
  shows "push_loop ss active (u @ y) out = push_loop ss a1 (v @ y) out1"
  using assms(3,4)
proof (induction u arbitrary: active out rule: length_induct)
  case (1 u)
  show ?case
  proof (cases "turn ss active u")
    case (Stop o1 a2 v2)
    then have "out1 = append_chunk out o1" "a1 = a2" "v = v2"
      using 1(3) by (simp_all add: push_loop_turn [of ss active u])
    then show ?thesis
      using turn_Stop_append [OF Stop assms(2) 1(2), of y]
      by (simp add: push_loop_turn [of ss active] push_loop_turn [of ss a2] then_turn_def split: turn.split)
  next
    case (Continue o1 a2 v2)
    have "length v2 < length u" "active_ok a2" using turn_Continue [OF assms(2) 1(2) Continue] by auto
    moreover have "push_loop ss a2 v2 (append_chunk out o1) = Some (out1, a1, v)"
      using 1(3) Continue by (simp add: push_loop_turn [of ss active u])
    ultimately have "push_loop ss a2 (v2 @ y) (append_chunk out o1) = push_loop ss a1 (v @ y) out1"
      using 1(1) by blast
    then show ?thesis
      using turn_Continue_append [OF assms(1) Continue assms(2) 1(2), of y]
      by (simp add: push_loop_turn [of ss active])
  qed
qed

section \<open>The contract\<close>

text \<open>A parser between two pushes: what it keeps holds no complete delimiter and no text to show.\<close>

definition inline_wf :: "'a inline_parser \<Rightarrow> bool" where
  "inline_wf p \<longleftrightarrow> nonempty_specs (inline_specs p) \<and> active_ok (inline_active p)"

definition inline_ok :: "'a inline_parser \<Rightarrow> bool" where
  "inline_ok p \<longleftrightarrow> inline_wf p \<and> infix_free (inline_specs p) \<and> inline_push p [] = Some (empty_chunk, p)"

lemma inline_push_returns:
  assumes "inline_wf p"
  shows "\<exists>c p'. inline_push p t = Some (c, p') \<and> inline_wf p' \<and> inline_specs p' = inline_specs p"
  using push_loop_returns [of "inline_specs p" "inline_active p" "inline_pending p @ t" empty_chunk] assms
  by (auto simp: inline_push_def inline_wf_def)

lemma inline_push_append:
  assumes "inline_wf p" "infix_free (inline_specs p)" "inline_push p t = Some (c1, p1)"
  shows "inline_push p (t @ u) = map_option (\<lambda>(c2, p2). (append_chunk c1 c2, p2)) (inline_push p1 u)"
proof -
  let ?ss = "inline_specs p"
  obtain a v where l: "push_loop ?ss (inline_active p) (inline_pending p @ t) empty_chunk = Some (c1, a, v)"
    and p1: "p1 = p\<lparr>inline_active := a, inline_pending := v\<rparr>"
    using assms(3) by (auto simp: inline_push_def)
  have w: "nonempty_specs ?ss" "active_ok (inline_active p)" using assms(1) by (auto simp: inline_wf_def)
  have a: "active_ok a" using push_loop_returns [OF w] l by (metis option.inject prod.inject)
  have "push_loop ?ss (inline_active p) (inline_pending p @ t @ u) empty_chunk = push_loop ?ss a (v @ u) c1"
    using push_loop_append [OF assms(2) w l, of u] by simp
  also have "\<dots> = map_option (\<lambda>(c, r). (append_chunk c1 c, r)) (push_loop ?ss a (v @ u) empty_chunk)"
    using push_loop_acc [OF w(1) a, of "v @ u" c1 empty_chunk] by simp
  finally show ?thesis by (simp add: inline_push_def p1 option.map_comp o_def case_prod_beta)
qed

lemma inline_push_settles:
  assumes "inline_wf p" "infix_free (inline_specs p)" "inline_push p t = Some (c1, p1)"
  shows "inline_ok p1"
proof -
  have 1: "inline_wf p1" "inline_specs p1 = inline_specs p"
    using inline_push_returns [OF assms(1), of t] assms(3) by auto
  then obtain c p2 where p2: "inline_push p1 [] = Some (c, p2)" using inline_push_returns by blast
  then have "append_chunk c1 c = c1" "p2 = p1"
    using inline_push_append [OF assms, of "[]"] assms(3) by auto
  then have "c = empty_chunk"
    by (cases c; cases c1) (simp add: append_chunk_def empty_chunk_def)
  with p2 \<open>p2 = p1\<close> 1 assms(2) show ?thesis by (simp add: inline_ok_def)
qed

lemma new_inline_wf: "new_inline ss = Some p \<Longrightarrow> inline_wf p \<and> inline_specs p = ss"
  by (auto simp: new_inline_def inline_wf_def nonempty_specs_def active_ok_def split: if_splits)

lemma push_fresh:
  assumes "nonempty_specs ss"
  shows "push_loop ss None [] out = Some (out, None, [])"
proof -
  have ne: "\<forall>s \<in> set ss. spec_open s \<noteq> []" using assms by (auto simp: nonempty_specs_def list_all_iff)
  then have "find_next_open ss [] = None" by (auto simp: find_next_open_None str_find_Nil)
  then show ?thesis by (subst push_loop.simps) (simp add: Let_def show_text_def)
qed

lemma new_inline_ok: "new_inline ss = Some p \<Longrightarrow> infix_free ss \<Longrightarrow> inline_ok p"
  using new_inline_wf [of ss p] push_fresh [of ss empty_chunk]
  by (cases p) (auto simp: inline_ok_def inline_wf_def inline_push_def new_inline_def split: if_splits)

interpretation inline: stream_text_parser inline_push inline_finish inline_ok id
proof
  fix p :: "'a inline_parser" and t u c1 p1 c2 p2
  assume ok: "inline_ok p"
  then have w: "inline_wf p" "infix_free (inline_specs p)" by (auto simp: inline_ok_def)
  show "\<exists>c p'. inline_push p t = Some (c, p') \<and> inline_ok p'"
    using inline_push_returns [OF w(1), of t] inline_push_settles [OF w] by blast
  show "inline_push p [] = Some (empty_chunk, p)" using ok by (simp add: inline_ok_def)
  show "inline_push p t = Some (c1, p1) \<Longrightarrow> inline_push p1 u = Some (c2, p2) \<Longrightarrow>
      \<exists>c. inline_push p (t @ u) = Some (c, p2) \<and> same_chunk id c (append_chunk c1 c2)"
    using inline_push_append [OF w, of t c1 p1 u] by simp
qed simp_all

text \<open>
  C31: pushing text into a parser of inline tags always returns, whatever the text, its pieces and the
  delimiters, as long as the constructor accepted them: every turn of the loop consumes text.
\<close>

theorem inline_push_terminates:
  assumes "new_inline ss = Some p"
  shows "push_chunks inline_push p ts \<noteq> None"
proof -
  have "push_chunks inline_push p ts \<noteq> None" if "inline_wf p" for p :: "'a inline_parser"
    using that
  proof (induction ts arbitrary: p)
    case (Cons t ts)
    obtain c p' where "inline_push p t = Some (c, p')" "inline_wf p'"
      using inline_push_returns [OF Cons.prems] by blast
    with Cons.IH [of p'] show ?case by auto
  qed simp
  then show ?thesis using new_inline_wf [OF assms] by blast
qed

text \<open>
  C30: how the model cuts its text into pieces does not matter: when no opening delimiter occurs inside
  another one, the text shown and the contents extracted are those of the whole text pushed at once.
\<close>

theorem inline_chunks_do_not_matter:
  assumes "new_inline ss = Some p" "infix_free ss"
  shows "run_stream inline_push inline_finish p ts = run_stream inline_push inline_finish p [concat ts]"
  using inline.run_stream_concat [OF new_inline_ok [OF assms], of ts] by (auto simp: same_chunk_id)


definition sample_specs :: "nat tag_spec list" where
  "sample_specs = [\<lparr>spec_tag = 1, spec_open = [1, 2], spec_close = [3]\<rparr>, \<lparr>spec_tag = 2, spec_open = [1, 4], spec_close = [5]\<rparr>]"

lemma sample_infix_free: "infix_free sample_specs"
  by (simp add: infix_free_def sample_specs_def str_contains_def str_find.simps starts_with_def)

theorem inline_push_terminates_witness:
  "\<exists>p. new_inline sample_specs = Some p \<and> push_chunks inline_push p [[1], [2, 3, 1, 4]] \<noteq> None"
proof -
  have "new_inline sample_specs = Some \<lparr>inline_specs = sample_specs, inline_pending = [], inline_active = None\<rparr>"
    by (simp add: new_inline_def sample_specs_def)
  with inline_push_terminates [OF this] show ?thesis by blast
qed

theorem inline_chunks_do_not_matter_witness:
  "\<exists>p. new_inline sample_specs = Some p \<and>
     run_stream inline_push inline_finish p [[0, 1], [4], [7, 5, 1]] = run_stream inline_push inline_finish p [[0, 1, 4, 7, 5, 1]]"
  using inline_chunks_do_not_matter [OF _ sample_infix_free, of _ "[[0, 1], [4], [7, 5, 1]]"]
  by (simp add: new_inline_def sample_specs_def)

text \<open>
  Without that condition the pieces matter: with the delimiters \<^verbatim>\<open>ab\<close> and \<^verbatim>\<open>abc\<close>, the text \<^verbatim>\<open>abc\<close> opens
  the longer one when it arrives at once and the shorter one when it arrives in two pieces.
\<close>

definition overlapping_specs :: "nat tag_spec list" where
  "overlapping_specs = [\<lparr>spec_tag = 1, spec_open = [1, 2], spec_close = [9]\<rparr>, \<lparr>spec_tag = 2, spec_open = [1, 2, 3], spec_close = [9]\<rparr>]"

lemma chunks_matter_for_overlapping_tags:
  "\<exists>p. new_inline overlapping_specs = Some p \<and>
     run_stream inline_push inline_finish p [[1, 2], [3]] \<noteq> run_stream inline_push inline_finish p [[1, 2, 3]]"
  by (simp add: new_inline_def overlapping_specs_def run_stream_def inline_push_def push_loop.simps find_next_open_def
      open_candidates_def List.map_filter_def str_find.simps starts_with_def opens_before_def Let_def
      longest_suffix_prefix_len_def inline_finish_def emit_def show_text_def append_chunk_def empty_chunk_def)


section \<open>Citations\<close>

lemma citation_infix_free: "infix_free citation_specs"
  by (simp add: infix_free_def citation_specs_def)

definition citation_ok :: "citation_tag inline_parser \<Rightarrow> bool" where
  "citation_ok p \<longleftrightarrow> inline_ok p \<and> inline_specs p = citation_specs"

lemma contents_append: "contents (append_chunk a b) = append_chunk (contents a) (contents b)"
  and contents_empty: "contents empty_chunk = empty_chunk"
  by (simp_all add: contents_def append_chunk_def empty_chunk_def)

interpretation citations: stream_text_parser citation_push citation_finish citation_ok id
proof
  fix p t u c1 p1 c2 p2
  assume ok: "citation_ok p"
  then have w: "inline_wf p" "inline_ok p" by (auto simp: citation_ok_def inline_ok_def)
  show "\<exists>c p'. citation_push p t = Some (c, p') \<and> citation_ok p'"
    using inline_push_returns [OF w(1), of t] inline.push_returns [OF w(2), of t] ok
    by (auto simp: citation_push_def citation_ok_def)
  show "citation_push p [] = Some (empty_chunk, p)"
    using inline.push_Nil [OF w(2)] by (simp add: citation_push_def contents_empty)
  show "citation_push p t = Some (c1, p1) \<Longrightarrow> citation_push p1 u = Some (c2, p2) \<Longrightarrow>
      \<exists>c. citation_push p (t @ u) = Some (c, p2) \<and> same_chunk id c (append_chunk c1 c2)"
    using inline_push_append [OF w(1), of t _ _ u] w(2)
    by (auto simp: citation_push_def inline_ok_def contents_append)
qed simp_all

lemma new_citations_ok: "citation_ok new_citations"
  using new_inline_ok [OF strip_citations_new citation_infix_free]
  by (simp add: citation_ok_def) (simp add: new_citations_def)

text \<open>A text with citations: visible pieces and bodies, and how it ends.\<close>

fun cited_text :: "(str \<times> str) list \<Rightarrow> str \<Rightarrow> str" where
  "cited_text [] tail = tail"
| "cited_text ((v, b) # ps) tail = v @ CITATION_OPEN @ b @ CITATION_CLOSE @ cited_text ps tail"

text \<open>A delimiter whose first character occurs only once is found right after text without it.\<close>

lemma str_find_delimiter:
  assumes "\<not> str_contains v (c # r)" "c \<notin> set r"
  shows "str_find (v @ (c # r) @ rest) (c # r) = Some (length v)"
proof -
  have "\<not> prefix (c # r) (drop j (v @ (c # r) @ rest))" if j: "j < length v" for j
  proof
    assume p: "prefix (c # r) (drop j (v @ (c # r) @ rest))"
    show False
    proof (cases "length (c # r) \<le> length (drop j v)")
      case True
      then have "prefix (c # r) (drop j v)" using p j prefix_append_short [of "c # r" "drop j v"] by simp
      with assms(1) j show False by (auto simp: str_contains_def str_find_None_iff)
    next
      case False
      define m where "m = length v - j"
      have m: "0 < m" "m < length (c # r)" using False j by (auto simp: m_def)
      obtain zs where "drop j (v @ (c # r) @ rest) = (c # r) @ zs" using p by (auto simp: prefix_def)
      then have "(c # r) ! m = drop j (v @ (c # r) @ rest) ! m" using m(2) by (simp only: nth_append if_True)
      also have "\<dots> = c" using j by (simp add: m_def nth_append)
      finally have "r ! (m - 1) = c" using m(1) by (simp add: nth_Cons')
      moreover have "m - 1 < length r" using m by simp
      ultimately show False using assms(2) nth_mem by metis
    qed
  qed
  then show ?thesis by (auto simp: str_find_Some_iff)
qed

lemma CITATION_OPEN_Cons: "CITATION_OPEN = 60 # tl CITATION_OPEN \<and> 60 \<notin> set (tl CITATION_OPEN)"
  and CITATION_CLOSE_Cons: "CITATION_CLOSE = 60 # tl CITATION_CLOSE \<and> 60 \<notin> set (tl CITATION_CLOSE)"
  by (simp_all add: CITATION_OPEN_def CITATION_CLOSE_def lit_def uc_def)

lemma find_CITATION_OPEN:
  "\<not> str_contains v CITATION_OPEN \<Longrightarrow> str_find (v @ CITATION_OPEN @ rest) CITATION_OPEN = Some (length v)"
  using str_find_delimiter [of v 60 "tl CITATION_OPEN" rest] CITATION_OPEN_Cons by metis

lemma find_CITATION_CLOSE:
  "\<not> str_contains v CITATION_CLOSE \<Longrightarrow> str_find (v @ CITATION_CLOSE @ rest) CITATION_CLOSE = Some (length v)"
  using str_find_delimiter [of v 60 "tl CITATION_CLOSE" rest] CITATION_CLOSE_Cons by metis

lemma find_next_citation:
  "find_next_open citation_specs u = map_option (\<lambda>i. (i, 0)) (str_find u CITATION_OPEN)"
  by (cases "str_find u CITATION_OPEN")
    (simp_all add: find_next_open_def open_candidates_def List.map_filter_def citation_specs_def)

lemma citation_spec_0 [simp]:
  "spec_tag (citation_specs ! 0) = Citation" "spec_open (citation_specs ! 0) = CITATION_OPEN"
  "spec_close (citation_specs ! 0) = CITATION_CLOSE"
  by (simp_all add: citation_specs_def)

definition open_citation :: "citation_tag active_tag" where
  "open_citation = \<lparr>active_name = Citation, active_close = CITATION_CLOSE, active_content = []\<rparr>"

lemma push_loop_cited:
  assumes "list_all (\<lambda>(v, b). \<not> str_contains v CITATION_OPEN \<and> \<not> str_contains b CITATION_CLOSE) ps"
  shows "push_loop citation_specs None (cited_text ps tail) out =
    push_loop citation_specs None tail
      (append_chunk out \<lparr>visible_text = concat (map fst ps),
         extracted = map (\<lambda>(v, b). \<lparr>extracted_name = Citation, tag_content = b\<rparr>) ps\<rparr>)"
  using assms
proof (induction ps arbitrary: out)
  case (Cons p ps)
  obtain v b where p: "p = (v, b)" by (cases p)
  let ?rest = "b @ CITATION_CLOSE @ cited_text ps tail"
  have 1: "turn citation_specs None (v @ CITATION_OPEN @ ?rest) =
      Continue (show_text v empty_chunk) (Some open_citation) ?rest"
    using Cons.prems find_CITATION_OPEN [of v ?rest]
    by (simp add: p turn_def find_next_citation open_citation_def)
  have 2: "turn citation_specs (Some open_citation) ?rest =
      Continue (emit \<lparr>extracted_name = Citation, tag_content = b\<rparr> empty_chunk) None (cited_text ps tail)"
    using Cons.prems find_CITATION_CLOSE [of b "cited_text ps tail"] by (simp add: p turn_def open_citation_def)
  have "append_chunk (append_chunk out (append_chunk (show_text v empty_chunk)
        (emit \<lparr>extracted_name = Citation, tag_content = b\<rparr> empty_chunk)))
      \<lparr>visible_text = concat (map fst ps), extracted = map (\<lambda>(v, b). \<lparr>extracted_name = Citation, tag_content = b\<rparr>) ps\<rparr> =
    append_chunk out \<lparr>visible_text = concat (map fst (p # ps)),
       extracted = map (\<lambda>(v, b). \<lparr>extracted_name = Citation, tag_content = b\<rparr>) (p # ps)\<rparr>"
    by (simp add: p append_chunk_def show_text_def emit_def)
  then show ?case
    using Cons.IH Cons.prems
    by (simp add: p push_loop_turn [of citation_specs None "v @ _"] push_loop_turn [of citation_specs "Some open_citation"] 1 2)
qed (simp flip: empty_chunk_def)


lemma strip_citations_loop:
  "strip_citations text =
     map_option (\<lambda>(out, a, v).
       let c = contents (append_chunk out (fst (inline_finish
         \<lparr>inline_specs = citation_specs, inline_pending = v, inline_active = a\<rparr>)))
       in (visible_text c, extracted c)) (push_loop citation_specs None text empty_chunk)"
  by (cases "push_loop citation_specs None text empty_chunk")
    (auto simp: strip_citations_def citation_push_def citation_finish_def inline_push_def new_citations_def
      contents_def Let_def)

text \<open>
  The citations of a text are its bodies between the delimiters, in order, and what is shown is the
  text without them; a citation that the text leaves open ends with the text.
\<close>

theorem strip_citations_roundtrip:
  assumes "list_all (\<lambda>(v, b). \<not> str_contains v CITATION_OPEN \<and> \<not> str_contains b CITATION_CLOSE) ps"
    and "\<not> str_contains v CITATION_OPEN" "\<not> str_contains b CITATION_CLOSE"
  shows "strip_citations (cited_text ps v) = Some (concat (map fst ps) @ v, map snd ps) \<and>
    strip_citations (cited_text ps (v @ CITATION_OPEN @ b)) = Some (concat (map fst ps) @ v, map snd ps @ [b])"
proof
  let ?out = "\<lparr>visible_text = concat (map fst ps),
    extracted = map (\<lambda>(v, b). \<lparr>extracted_name = Citation, tag_content = b\<rparr>) ps\<rparr>"
  have snd: "map tag_content (map (\<lambda>(v, b). \<lparr>extracted_name = Citation, tag_content = b\<rparr>) ps) = map snd ps"
    by (induction ps) auto
  have p: "push_loop citation_specs None (cited_text ps t) empty_chunk = push_loop citation_specs None t ?out" for t
    using push_loop_cited [OF assms(1), of t empty_chunk] by simp
  let ?n = "length v - max_open_prefix_suffix_len citation_specs v"
  have "turn citation_specs None v = Stop (show_text (take ?n v) empty_chunk) None (drop ?n v)"
    using assms(2) by (simp add: turn_def find_next_citation str_contains_def Let_def)
  then show "strip_citations (cited_text ps v) = Some (concat (map fst ps) @ v, map snd ps)"
    by (simp add: strip_citations_loop p push_loop_turn [of citation_specs None v] contents_def append_chunk_def
        inline_finish_def show_text_def snd del: map_map)
  have 1: "turn citation_specs None (v @ CITATION_OPEN @ b) =
      Continue (show_text v empty_chunk) (Some open_citation) b"
    using find_CITATION_OPEN [OF assms(2), of b] by (simp add: turn_def find_next_citation open_citation_def)
  let ?k = "length b - longest_suffix_prefix_len b CITATION_CLOSE"
  have 2: "turn citation_specs (Some open_citation) b =
      Stop empty_chunk (Some (open_citation\<lparr>active_content := take ?k b\<rparr>)) (drop ?k b)"
    using assms(3) by (simp add: turn_def open_citation_def str_contains_def Let_def)
  have l: "push_loop citation_specs None (cited_text ps (v @ CITATION_OPEN @ b)) empty_chunk =
      Some (append_chunk ?out (show_text v empty_chunk), Some (open_citation\<lparr>active_content := take ?k b\<rparr>), drop ?k b)"
    by (simp add: p push_loop_turn [of citation_specs None "v @ _"] 1 push_loop_turn [of citation_specs "Some open_citation"] 2)
  show "strip_citations (cited_text ps (v @ CITATION_OPEN @ b)) = Some (concat (map fst ps) @ v, map snd ps @ [b])"
    using l by (simp add: strip_citations_loop contents_def append_chunk_def inline_finish_def show_text_def
        emit_def open_citation_def snd del: map_map)
qed

theorem strip_citations_roundtrip_witness:
  "strip_citations (cited_text [(lit ''a'', lit ''b'')] (lit ''c <oai'')) = Some (lit ''ac <oai'', [lit ''b''])"
proof -
  have "\<not> str_contains (lit s) CITATION_OPEN" if "length s < 18" for s
    using that str_find_bound [of "lit s" CITATION_OPEN]
    by (cases "str_find (lit s) CITATION_OPEN") (auto simp: str_contains_def CITATION_OPEN_def)
  moreover have "\<not> str_contains (lit s) CITATION_CLOSE" if "length s < 18" for s
    using that str_find_bound [of "lit s" CITATION_CLOSE]
    by (cases "str_find (lit s) CITATION_CLOSE") (auto simp: str_contains_def CITATION_CLOSE_def)
  ultimately show ?thesis
    using strip_citations_roundtrip [of "[(lit ''a'', lit ''b'')]" "lit ''c <oai''" "[]"]
    by (simp flip: lit_append add: str_contains_def str_find_Nil CITATION_CLOSE_def)
qed


end
