(* ===== verification/Stream_Plan.thy ===== *)
theory Stream_Plan
  imports Stream_Tags
begin

text \<open>
  \<^verbatim>\<open>codex-rs/utils/stream-parser/src/tagged_line_parser.rs\<close>, \<^verbatim>\<open>proposed_plan.rs\<close> and \<^verbatim>\<open>assistant_text.rs\<close>: tags that
  stand alone on a line, the blocks of a proposed plan, and the parser of the assistant's text, which
  removes citations and then plan blocks. The theorems show that the incremental line parser computes
  what reading the text line by line would, and that the pieces of the text do not matter.
\<close>

section \<open>Tags on a line of their own\<close>

record 'a line_tag_spec =
  line_open :: str
  line_close :: str
  line_tag :: 'a

datatype 'a line_segment = NormalSegment str | TagStart 'a | TagDelta 'a str | TagEnd 'a

record 'a line_parser =
  line_specs :: "'a line_tag_spec list"
  active_tag :: "'a option"
  detect_tag :: bool
  line_buffer :: str

definition new_line_parser :: "'a line_tag_spec list \<Rightarrow> 'a line_parser" where
  "new_line_parser ss = \<lparr>line_specs = ss, active_tag = None, detect_tag = True, line_buffer = []\<rparr>"

definition push_segment :: "'a line_segment list \<Rightarrow> 'a line_segment \<Rightarrow> 'a line_segment list" where
  "push_segment segs seg =
     (case seg of
        NormalSegment delta \<Rightarrow>
          if delta = [] then segs
          else (case rev segs of
                  NormalSegment existing # before \<Rightarrow> rev before @ [NormalSegment (existing @ delta)]
                | _ \<Rightarrow> segs @ [NormalSegment delta])
      | TagDelta tag delta \<Rightarrow>
          if delta = [] then segs
          else (case rev segs of
                  TagDelta existing_tag existing # before \<Rightarrow>
                    if existing_tag = tag then rev before @ [TagDelta tag (existing @ delta)]
                    else segs @ [TagDelta tag delta]
                | _ \<Rightarrow> segs @ [TagDelta tag delta])
      | _ \<Rightarrow> segs @ [seg])"

definition push_text :: "'a line_parser \<Rightarrow> str \<Rightarrow> 'a line_segment list \<Rightarrow> 'a line_segment list" where
  "push_text p text segs =
     (case active_tag p of
        Some tag \<Rightarrow> push_segment segs (TagDelta tag text)
      | None \<Rightarrow> push_segment segs (NormalSegment text))"

definition is_tag_prefix :: "'a line_parser \<Rightarrow> str \<Rightarrow> bool" where
  "is_tag_prefix p slug \<longleftrightarrow>
     (let slug = trim_end slug in
      list_ex (\<lambda>s. starts_with (line_open s) slug \<or> starts_with (line_close s) slug) (line_specs p))"

definition match_open :: "'a line_parser \<Rightarrow> str \<Rightarrow> 'a option" where
  "match_open p slug = map_option line_tag (List.find (\<lambda>s. line_open s = slug) (line_specs p))"

definition match_close :: "'a line_parser \<Rightarrow> str \<Rightarrow> 'a option" where
  "match_close p slug = map_option line_tag (List.find (\<lambda>s. line_close s = slug) (line_specs p))"

definition line_slug :: "str \<Rightarrow> str" where
  "line_slug line = trim_end (trim_start (case strip_suffix [newline] line of Some l \<Rightarrow> l | None \<Rightarrow> line))"

definition finish_line ::
  "'a line_parser \<Rightarrow> 'a line_segment list \<Rightarrow> 'a line_parser \<times> 'a line_segment list" where
  "finish_line p segs =
     (let line = line_buffer p; p = p\<lparr>line_buffer := []\<rparr>; slug = line_slug line in
      case (match_open p slug, active_tag p) of
        (Some tag, None) \<Rightarrow> (p\<lparr>active_tag := Some tag, detect_tag := True\<rparr>, push_segment segs (TagStart tag))
      | _ \<Rightarrow>
          (case match_close p slug of
             Some tag \<Rightarrow>
               if active_tag p = Some tag
               then (p\<lparr>active_tag := None, detect_tag := True\<rparr>, push_segment segs (TagEnd tag))
               else (p\<lparr>detect_tag := True\<rparr>, push_text p line segs)
           | None \<Rightarrow> (p\<lparr>detect_tag := True\<rparr>, push_text p line segs)))"

definition parse_char ::
  "'a line_parser \<times> str \<times> 'a line_segment list \<Rightarrow> uchar \<Rightarrow> 'a line_parser \<times> str \<times> 'a line_segment list" where
  "parse_char st ch =
     (case st of (p, run, segs) \<Rightarrow>
        if detect_tag p then
          (let segs = (if run \<noteq> [] then push_text p run segs else segs);
               p = p\<lparr>line_buffer := line_buffer p @ [ch]\<rparr>
           in if ch = newline then (case finish_line p segs of (p, segs) \<Rightarrow> (p, [], segs))
              else
                let slug = trim_start (line_buffer p) in
                if slug = [] \<or> is_tag_prefix p slug then (p, [], segs)
                else
                  let buffered = line_buffer p; p = p\<lparr>line_buffer := [], detect_tag := False\<rparr> in
                  (p, [], push_text p buffered segs))
        else
          (let run = run @ [ch] in
           if ch = newline then (p\<lparr>detect_tag := True\<rparr>, [], push_text p run segs) else (p, run, segs)))"

definition parse_lines :: "'a line_parser \<Rightarrow> str \<Rightarrow> 'a line_segment list \<times> 'a line_parser" where
  "parse_lines p delta =
     (case foldl parse_char (p, [], []) delta of
        (p, run, segs) \<Rightarrow> (if run \<noteq> [] then push_text p run segs else segs, p))"

definition finish_buffer ::
  "'a line_parser \<Rightarrow> 'a line_parser \<times> 'a line_segment list" where
  "finish_buffer p =
     (if line_buffer p = [] then (p, [])
      else
        let buffered = line_buffer p; p = p\<lparr>line_buffer := []\<rparr>; slug = line_slug buffered in
        case (match_open p slug, active_tag p) of
          (Some tag, None) \<Rightarrow> (p\<lparr>active_tag := Some tag\<rparr>, push_segment [] (TagStart tag))
        | _ \<Rightarrow>
            (case match_close p slug of
               Some tag \<Rightarrow>
                 if active_tag p = Some tag then (p\<lparr>active_tag := None\<rparr>, push_segment [] (TagEnd tag))
                 else (p, push_text p buffered [])
             | None \<Rightarrow> (p, push_text p buffered [])))"

definition finish_lines :: "'a line_parser \<Rightarrow> 'a line_segment list \<times> 'a line_parser" where
  "finish_lines p =
     (let (p, segs) = finish_buffer p in
      case active_tag p of
        Some tag \<Rightarrow> (push_segment segs (TagEnd tag), p\<lparr>active_tag := None, detect_tag := True\<rparr>)
      | None \<Rightarrow> (segs, p\<lparr>detect_tag := True\<rparr>))"

section \<open>Proposed plans\<close>

datatype plan_tag = ProposedPlan

datatype plan_segment = PlanNormal str | PlanStart | PlanDelta str | PlanEnd

definition plan_specs :: "plan_tag line_tag_spec list" where
  "plan_specs = [\<lparr>line_open = lit ''<proposed_plan>'', line_close = lit ''</proposed_plan>'', line_tag = ProposedPlan\<rparr>]"

definition new_plan_parser :: "plan_tag line_parser" where
  "new_plan_parser = new_line_parser plan_specs"

fun to_plan :: "plan_tag line_segment \<Rightarrow> plan_segment" where
  "to_plan (NormalSegment text) = PlanNormal text"
| "to_plan (TagStart ProposedPlan) = PlanStart"
| "to_plan (TagDelta ProposedPlan text) = PlanDelta text"
| "to_plan (TagEnd ProposedPlan) = PlanEnd"

fun normal_text :: "plan_segment \<Rightarrow> str" where
  "normal_text (PlanNormal text) = text"
| "normal_text _ = []"

definition map_segments :: "plan_tag line_segment list \<Rightarrow> plan_segment text_chunk" where
  "map_segments segs =
     foldl (\<lambda>out seg. out\<lparr>visible_text := visible_text out @ normal_text (to_plan seg),
       extracted := extracted out @ [to_plan seg]\<rparr>) empty_chunk segs"

definition plan_push :: "plan_tag line_parser \<Rightarrow> str \<Rightarrow> plan_segment text_chunk \<times> plan_tag line_parser" where
  "plan_push p chunk = map_prod map_segments id (parse_lines p chunk)"

definition plan_finish :: "plan_tag line_parser \<Rightarrow> plan_segment text_chunk \<times> plan_tag line_parser" where
  "plan_finish p = map_prod map_segments id (finish_lines p)"

definition strip_proposed_plan_blocks :: "str \<Rightarrow> str" where
  "strip_proposed_plan_blocks text =
     (let (out, p) = plan_push new_plan_parser text in visible_text out @ visible_text (fst (plan_finish p)))"

fun plan_text_step :: "bool \<times> str \<Rightarrow> plan_segment \<Rightarrow> bool \<times> str" where
  "plan_text_step (saw, text) PlanStart = (True, [])"
| "plan_text_step (saw, text) (PlanDelta delta) = (saw, text @ delta)"
| "plan_text_step (saw, text) _ = (saw, text)"

definition extract_proposed_plan_text :: "str \<Rightarrow> str option" where
  "extract_proposed_plan_text text =
     (let (out, p) = plan_push new_plan_parser text;
          (saw_plan_block, plan_text) = foldl plan_text_step (False, []) (extracted out @ extracted (fst (plan_finish p)))
      in if saw_plan_block then Some plan_text else None)"

section \<open>The assistant's text\<close>

record assistant_chunk =
  assistant_visible :: str
  citations :: "str list"
  plan_segments :: "plan_segment list"

record assistant_parser =
  plan_mode :: bool
  citation_parser :: "citation_tag inline_parser"
  plan_parser :: "plan_tag line_parser"

definition new_assistant :: "bool \<Rightarrow> assistant_parser" where
  "new_assistant mode =
     \<lparr>plan_mode = mode, citation_parser = new_citations, plan_parser = new_plan_parser\<rparr>"

definition parse_visible_text :: "assistant_parser \<Rightarrow> str \<Rightarrow> assistant_chunk \<times> assistant_parser" where
  "parse_visible_text p text =
     (if \<not> plan_mode p then (\<lparr>assistant_visible = text, citations = [], plan_segments = []\<rparr>, p)
      else let (plan_chunk, q) = plan_push (plan_parser p) text in
        (\<lparr>assistant_visible = visible_text plan_chunk, citations = [], plan_segments = extracted plan_chunk\<rparr>,
         p\<lparr>plan_parser := q\<rparr>))"

definition assistant_push :: "assistant_parser \<Rightarrow> str \<Rightarrow> (assistant_chunk \<times> assistant_parser) option" where
  "assistant_push p chunk =
     map_option (\<lambda>(citation_chunk, cp).
       let (out, p) = parse_visible_text (p\<lparr>citation_parser := cp\<rparr>) (visible_text citation_chunk)
       in (out\<lparr>citations := extracted citation_chunk\<rparr>, p)) (citation_push (citation_parser p) chunk)"

definition assistant_finish :: "assistant_parser \<Rightarrow> assistant_chunk \<times> assistant_parser" where
  "assistant_finish p =
     (let (citation_chunk, cp) = citation_finish (citation_parser p);
          (out, p) = parse_visible_text (p\<lparr>citation_parser := cp\<rparr>) (visible_text citation_chunk);
          (out, p) =
            (if plan_mode p then
               (let (tail, q) = plan_finish (plan_parser p) in
                (if chunk_is_empty tail then out
                 else out\<lparr>assistant_visible := assistant_visible out @ visible_text tail,
                          plan_segments := plan_segments out @ extracted tail\<rparr>,
                 p\<lparr>plan_parser := q\<rparr>))
             else (out, p))
      in (out\<lparr>citations := extracted citation_chunk\<rparr>, p))"

section \<open>Coalescing\<close>

text \<open>The normal form of a list of segments: adjacent text of the same kind is one segment.\<close>

definition coalesce :: "'a line_segment list \<Rightarrow> 'a line_segment list" where
  "coalesce segs = foldl push_segment [] segs"

text \<open>How a segment is added: to the last one when they are of the same kind, else at the end.\<close>

definition kind_of :: "'a line_segment \<Rightarrow> 'a option option" where
  "kind_of seg = (case seg of NormalSegment _ \<Rightarrow> Some None | TagDelta tag _ \<Rightarrow> Some (Some tag) | _ \<Rightarrow> None)"

fun text_of :: "'a line_segment \<Rightarrow> str" where
  "text_of (NormalSegment t) = t"
| "text_of (TagDelta _ t) = t"
| "text_of _ = []"

definition text_segment :: "'a option \<Rightarrow> str \<Rightarrow> 'a line_segment" where
  "text_segment k t = (case k of None \<Rightarrow> NormalSegment t | Some tag \<Rightarrow> TagDelta tag t)"

lemma kind_of_text_segment [simp]: "kind_of (text_segment k t) = Some k" "text_of (text_segment k t) = t"
  by (simp_all add: kind_of_def text_segment_def split: option.split)

lemma kind_of_Some: "kind_of seg = Some k \<longleftrightarrow> seg = text_segment k (text_of seg)"
  by (cases seg; cases k) (auto simp: kind_of_def text_segment_def)

lemma kind_of_cases: obtains k t where "seg = text_segment k t" | "kind_of seg = None"
  using kind_of_Some [of seg] by (cases "kind_of seg") blast+

lemma push_segment_mark: "kind_of seg = None \<Longrightarrow> push_segment segs seg = segs @ [seg]"
  by (cases seg) (simp_all add: kind_of_def push_segment_def)

lemma push_segment_Nil [simp]: "push_segment segs (text_segment k []) = segs"
  by (simp add: push_segment_def text_segment_def split: option.split)

lemma push_segment_same: "t \<noteq> [] \<Longrightarrow>
    push_segment (segs @ [text_segment k s]) (text_segment k t) = segs @ [text_segment k (s @ t)]"
  by (simp add: push_segment_def text_segment_def split: option.split)

lemma push_segment_other: "t \<noteq> [] \<Longrightarrow> segs = [] \<or> kind_of (last segs) \<noteq> Some k \<Longrightarrow>
    push_segment segs (text_segment k t) = segs @ [text_segment k t]"
  by (cases segs rule: rev_cases; cases k) (auto simp: push_segment_def text_segment_def kind_of_def
      split: option.splits line_segment.splits)

lemma push_segment_cases:
  obtains (nothing) k where "seg = text_segment k []" "push_segment segs seg = segs"
  | (merged) k s t pre where "seg = text_segment k t" "t \<noteq> []" "segs = pre @ [text_segment k s]"
      "push_segment segs seg = pre @ [text_segment k (s @ t)]"
  | (added) "push_segment segs seg = segs @ [seg]" "\<forall>k. seg \<noteq> text_segment k []"
      "\<forall>k t pre s. seg = text_segment k t \<longrightarrow> segs \<noteq> pre @ [text_segment k s]"
proof (cases rule: kind_of_cases [of seg])
  case (1 k t)
  consider "t = []" | pre s where "t \<noteq> []" "segs = pre @ [text_segment k s]"
    | "t \<noteq> []" "segs = [] \<or> kind_of (last segs) \<noteq> Some k"
    using kind_of_Some [of "last segs" k] by (metis append_butlast_last_id)
  then show ?thesis
  proof cases
    case none: 1
    with 1 show ?thesis using that(1) by auto
  next
    case (2 pre s)
    with 1 push_segment_same [of t pre k s] show ?thesis using that(2) by auto
  next
    case 3
    have ne: "text_segment k t \<noteq> text_segment k' []" for k'
      using 3(1) by (metis kind_of_text_segment(2))
    have "segs \<noteq> pre @ [text_segment k' s]" if "text_segment k t = text_segment k' t'" for pre s k' t'
      using 3(2) that by (metis kind_of_text_segment(1) last_snoc option.inject snoc_eq_iff_butlast)
    then show ?thesis using push_segment_other [OF 3] 1 ne by (intro that(3)) auto
  qed
next
  case 2
  then have "\<forall>k t. seg \<noteq> text_segment k t" by auto
  with push_segment_mark [OF 2] show ?thesis by (intro that(3)) auto
qed

text \<open>Text may be added in parts.\<close>

lemma push_segment_append:
  "push_segment (push_segment segs (text_segment k s)) (text_segment k t) = push_segment segs (text_segment k (s @ t))"
proof (cases "s = [] \<or> t = []")
  case False
  then show ?thesis
  proof (cases "segs = [] \<or> kind_of (last segs) \<noteq> Some k")
    case True
    with False show ?thesis by (simp add: push_segment_other push_segment_same)
  next
    case other: False
    then obtain pre r where "segs = pre @ [text_segment k r]"
      using kind_of_Some [of "last segs" k] by (metis append_butlast_last_id)
    with False show ?thesis by (simp add: push_segment_same)
  qed
qed auto

lemma foldl_push_segment: "foldl push_segment s (push_segment c seg) = push_segment (foldl push_segment s c) seg"
proof (cases rule: push_segment_cases [of seg c])
  case (merged k r t pre)
  then show ?thesis by (simp add: push_segment_append)
qed auto

lemma foldl_coalesce: "foldl push_segment s (coalesce ys) = foldl push_segment s ys"
  unfolding coalesce_def by (induction ys rule: rev_induct) (auto simp: foldl_push_segment)

lemma coalesce_right: "coalesce (xs @ coalesce ys) = coalesce (xs @ ys)"
  by (simp add: coalesce_def [of "_ @ _"] foldl_coalesce)

lemma coalesce_idem: "coalesce (coalesce xs) = coalesce xs"
  using coalesce_right [of "[]" xs] by simp

lemma coalesce_left: "coalesce (coalesce xs @ ys) = coalesce (xs @ ys)"
  using coalesce_idem [of xs] by (simp add: coalesce_def)

section \<open>The line parser does not see the pieces\<close>

lemma push_text_segment: "push_text p t segs = push_segment segs (text_segment (active_tag p) t)"
  by (simp add: push_text_def text_segment_def split: option.split)

lemma push_text_Nil [simp]: "push_text p [] segs = segs"
  by (simp add: push_text_segment)

lemma push_text_append: "push_text p t (push_text p s segs) = push_text p (s @ t) segs"
  by (simp add: push_text_segment push_segment_append)

lemma push_text_cong [simp]:
  "push_text (p\<lparr>line_buffer := b\<rparr>) = push_text p" "push_text (p\<lparr>detect_tag := d\<rparr>) = push_text p"
  by (simp_all add: push_text_def fun_eq_iff)

lemma foldl_push_text: "foldl push_segment s (push_text p t c) = push_text p t (foldl push_segment s c)"
  by (simp add: push_text_segment foldl_push_segment)

text \<open>Two runs of the loop: the second has already put out some segments and holds some text back.\<close>

definition ahead ::
  "'a line_segment list \<Rightarrow> 'a line_parser \<times> str \<times> 'a line_segment list \<Rightarrow> 'a line_parser \<times> str \<times> 'a line_segment list \<Rightarrow> bool" where
  "ahead base a b \<longleftrightarrow>
     (case (a, b) of ((p, run, segs), (q, run2, segs2)) \<Rightarrow>
        p = q \<and> foldl push_segment base (push_text p run segs) = push_text q run2 segs2)"

lemma finish_line_push:
  "finish_line p (foldl push_segment base segs) =
     (let (p', segs') = finish_line p segs in (p', foldl push_segment base segs'))"
  by (simp add: finish_line_def Let_def foldl_push_segment foldl_push_text split: option.split)

lemma ahead_char:
  assumes "ahead base a b"
  shows "ahead base (parse_char a ch) (parse_char b ch)"
proof -
  obtain p run segs where a: "a = (p, run, segs)" by (cases a) auto
  obtain run2 segs2 where b: "b = (p, run2, segs2)" and
    eq: "foldl push_segment base (push_text p run segs) = push_text p run2 segs2"
    using assms by (cases b) (auto simp: ahead_def a)
  have eq': "push_text p run (foldl push_segment base segs) = push_text p run2 segs2"
    using eq by (simp add: foldl_push_text)
  have flush: "(if r \<noteq> [] then push_text p r s else s) = push_text p r s" for r s by simp
  show ?thesis
  proof (cases "detect_tag p")
    case True
    show ?thesis
    proof (cases "ch = newline")
      case True
      let ?p = "p\<lparr>line_buffer := line_buffer p @ [ch]\<rparr>"
      obtain p' segs' where f: "finish_line ?p (push_text p run segs) = (p', segs')" by fastforce
      have "finish_line ?p (push_text p run2 segs2) = (p', foldl push_segment base segs')"
        using finish_line_push [of ?p base "push_text p run segs"] by (simp add: eq f)
      with f True \<open>detect_tag p\<close> show ?thesis
        unfolding a b parse_char_def by (simp only: flush prod.case if_True Let_def) (simp add: ahead_def)
    next
      case False
      with True show ?thesis
        unfolding a b parse_char_def
        by (simp only: flush prod.case if_True Let_def) (simp add: ahead_def foldl_push_text eq')
    qed
  next
    case False
    have "foldl push_segment base (push_text p (run @ [ch]) segs) = push_text p (run2 @ [ch]) segs2"
      unfolding push_text_append [symmetric] foldl_push_text eq' ..
    with False show ?thesis by (cases "ch = newline") (simp_all add: a b parse_char_def ahead_def Let_def)
  qed
qed

lemma ahead_chars: "ahead base a b \<Longrightarrow> ahead base (foldl parse_char a cs) (foldl parse_char b cs)"
  by (induction cs arbitrary: a b) (simp_all add: ahead_char)

lemma parse_lines_eq: "parse_lines p t = (case foldl parse_char (p, [], []) t of (p, run, segs) \<Rightarrow> (push_text p run segs, p))"
  by (auto simp: parse_lines_def split: prod.split)

lemma parse_lines_append:
  assumes "parse_lines p t = (segs1, p1)" "parse_lines p1 u = (segs2, p2)"
  shows "parse_lines p (t @ u) = (foldl push_segment segs1 segs2, p2)"
proof -
  obtain run1 s1 where 1: "foldl parse_char (p, [], []) t = (p1, run1, s1)" "segs1 = push_text p1 run1 s1"
    using assms(1) by (auto simp: parse_lines_eq split: prod.splits)
  obtain run2 s2 where 2: "foldl parse_char (p1, [], []) u = (p2, run2, s2)" "segs2 = push_text p2 run2 s2"
    using assms(2) by (auto simp: parse_lines_eq split: prod.splits)
  have "ahead segs1 (p1, [], []) (p1, run1, s1)" by (simp add: ahead_def 1(2))
  from ahead_chars [OF this, of u] show ?thesis
    by (auto simp: parse_lines_eq 1(1) 2 ahead_def split: prod.splits)
qed


section \<open>The contracts of the plan and assistant parsers\<close>

fun of_plan :: "plan_segment \<Rightarrow> plan_tag line_segment" where
  "of_plan (PlanNormal text) = NormalSegment text"
| "of_plan PlanStart = TagStart ProposedPlan"
| "of_plan (PlanDelta text) = TagDelta ProposedPlan text"
| "of_plan PlanEnd = TagEnd ProposedPlan"

lemma of_plan_to_plan [simp]: "of_plan (to_plan seg) = seg"
  by (cases seg rule: to_plan.cases) auto

definition coalesce_plan :: "plan_segment list \<Rightarrow> plan_segment list" where
  "coalesce_plan segs = map to_plan (coalesce (map of_plan segs))"

lemma map_of_plan_to_plan [simp]: "map of_plan (map to_plan segs) = segs"
  by (induction segs) auto

lemma coalesce_plan_left: "coalesce_plan (coalesce_plan xs @ ys) = coalesce_plan (xs @ ys)"
  unfolding coalesce_plan_def by (simp add: coalesce_left del: map_map)

lemma coalesce_plan_right: "coalesce_plan (xs @ coalesce_plan ys) = coalesce_plan (xs @ ys)"
  unfolding coalesce_plan_def by (simp add: coalesce_right del: map_map)

definition line_text :: "plan_tag line_segment list \<Rightarrow> str" where
  "line_text segs = concat (map (normal_text \<circ> to_plan) segs)"

lemma map_segments_eq: "map_segments segs = \<lparr>visible_text = line_text segs, extracted = map to_plan segs\<rparr>"
proof -
  have "foldl (\<lambda>out seg. out\<lparr>visible_text := visible_text out @ normal_text (to_plan seg),
      extracted := extracted out @ [to_plan seg]\<rparr>) c segs =
    append_chunk c \<lparr>visible_text = line_text segs, extracted = map to_plan segs\<rparr>" for c
    by (induction segs arbitrary: c) (auto simp: line_text_def append_chunk_def)
  then show ?thesis by (simp add: map_segments_def)
qed

lemma line_text_append: "line_text (xs @ ys) = line_text xs @ line_text ys"
  by (simp add: line_text_def)

lemma line_text_push: "line_text (push_segment segs seg) = line_text segs @ normal_text (to_plan seg)"
proof (cases rule: push_segment_cases [of seg segs])
  case (nothing k)
  then show ?thesis by (cases k; cases "the k") (auto simp: text_segment_def)
next
  case (merged k s t pre)
  then show ?thesis by (cases k; cases "the k") (auto simp: text_segment_def line_text_def)
qed (simp add: line_text_def)

lemma line_text_foldl: "line_text (foldl push_segment xs ys) = line_text xs @ line_text ys"
proof (induction ys rule: rev_induct)
  case (snoc y ys)
  then show ?case by (simp add: line_text_push line_text_append) (simp add: line_text_def)
qed (simp add: line_text_def)

lemma foldl_push_coalesce: "coalesce (foldl push_segment xs ys) = coalesce (xs @ ys)"
proof (induction ys rule: rev_induct)
  case (snoc y ys)
  have "coalesce (foldl push_segment xs (ys @ [y])) = push_segment (coalesce (foldl push_segment xs ys)) y"
    by (simp add: coalesce_def foldl_push_segment)
  with snoc show ?case by (simp add: coalesce_def)
qed simp

lemma parse_lines_Nil [simp]: "parse_lines p [] = ([], p)"
  by (simp add: parse_lines_def)

text \<open>The parser as one that always returns.\<close>

definition plan_push_some :: "plan_tag line_parser \<Rightarrow> str \<Rightarrow> (plan_segment text_chunk \<times> plan_tag line_parser) option" where
  "plan_push_some p t = Some (plan_push p t)"

lemma plan_push_append:
  assumes "plan_push p t = (c1, p1)" "plan_push p1 u = (c2, p2)"
  shows "\<exists>c. plan_push p (t @ u) = (c, p2) \<and> same_chunk coalesce_plan c (append_chunk c1 c2)"
proof -
  obtain s1 where 1: "parse_lines p t = (s1, p1)" "c1 = map_segments s1"
    using assms(1) by (cases "parse_lines p t") (auto simp: plan_push_def)
  obtain s2 where 2: "parse_lines p1 u = (s2, p2)" "c2 = map_segments s2"
    using assms(2) by (cases "parse_lines p1 u") (auto simp: plan_push_def)
  have "coalesce_plan (map to_plan (foldl push_segment s1 s2)) = coalesce_plan (map to_plan s1 @ map to_plan s2)"
    unfolding coalesce_plan_def map_append map_of_plan_to_plan foldl_push_coalesce ..
  with parse_lines_append [OF 1(1) 2(1)] show ?thesis
    by (simp add: plan_push_def 1(2) 2(2) same_chunk_def map_segments_eq line_text_foldl del: map_map)
qed

interpretation plans: stream_text_parser plan_push_some plan_finish "\<lambda>_. True" coalesce_plan
proof
  fix p t u c1 p1 c2 p2
  show "\<exists>c p'. plan_push_some p t = Some (c, p') \<and> True" by (cases "plan_push p t") (simp add: plan_push_some_def)
  show "plan_push_some p [] = Some (empty_chunk, p)"
    by (simp add: plan_push_some_def plan_push_def map_segments_def)
  show "plan_push_some p t = Some (c1, p1) \<Longrightarrow> plan_push_some p1 u = Some (c2, p2) \<Longrightarrow>
      \<exists>c. plan_push_some p (t @ u) = Some (c, p2) \<and> same_chunk coalesce_plan c (append_chunk c1 c2)"
    using plan_push_append [of p t c1 p1 u c2 p2] by (auto simp: plan_push_some_def)
qed (simp_all add: coalesce_plan_left coalesce_plan_right)

text \<open>
  An adapter of this development: the assistant's parser has no implementation of \<^verbatim>\<open>StreamTextParser\<close>
  in the source; its chunk is made one of the interface, with citations and plan segments as payloads, so
  that the lemmas of the interface apply to it.
\<close>

definition assistant_text_chunk :: "assistant_chunk \<Rightarrow> (str + plan_segment) text_chunk" where
  "assistant_text_chunk c =
     \<lparr>visible_text = assistant_visible c, extracted = map Inl (citations c) @ map Inr (plan_segments c)\<rparr>"

definition assistant_push_text ::
  "assistant_parser \<Rightarrow> str \<Rightarrow> ((str + plan_segment) text_chunk \<times> assistant_parser) option" where
  "assistant_push_text p t = map_option (map_prod assistant_text_chunk id) (assistant_push p t)"

definition assistant_finish_text :: "assistant_parser \<Rightarrow> (str + plan_segment) text_chunk \<times> assistant_parser" where
  "assistant_finish_text p = map_prod assistant_text_chunk id (assistant_finish p)"

fun lefts :: "('a + 'b) list \<Rightarrow> 'a list" where
  "lefts [] = []"
| "lefts (Inl a # xs) = a # lefts xs"
| "lefts (Inr _ # xs) = lefts xs"

fun rights :: "('a + 'b) list \<Rightarrow> 'b list" where
  "rights [] = []"
| "rights (Inr b # xs) = b # rights xs"
| "rights (Inl _ # xs) = rights xs"

lemma lefts_append [simp]: "lefts (xs @ ys) = lefts xs @ lefts ys"
  by (induction xs rule: lefts.induct) auto

lemma rights_append [simp]: "rights (xs @ ys) = rights xs @ rights ys"
  by (induction xs rule: rights.induct) auto

lemma lefts_map [simp]: "lefts (map Inl xs) = xs" "lefts (map Inr ys) = []"
proof -
  show "lefts (map Inl xs) = xs" by (induction xs) auto
  show "lefts (map Inr ys) = []" by (induction ys) auto
qed

lemma rights_map [simp]: "rights (map Inr ys) = ys" "rights (map Inl xs) = []"
proof -
  show "rights (map Inr ys) = ys" by (induction ys) auto
  show "rights (map Inl xs) = []" by (induction xs) auto
qed

definition coalesce_payload :: "(str + plan_segment) list \<Rightarrow> (str + plan_segment) list" where
  "coalesce_payload xs = map Inl (lefts xs) @ map Inr (coalesce_plan (rights xs))"


definition assistant_ok :: "assistant_parser \<Rightarrow> bool" where
  "assistant_ok p \<longleftrightarrow> citation_ok (citation_parser p)"

lemma coalesce_plan_Nil [simp]: "coalesce_plan [] = []"
  by (simp add: coalesce_plan_def coalesce_def)

text \<open>What a push shows of the visible part of a piece.\<close>

definition visible_part :: "assistant_parser \<Rightarrow> str \<Rightarrow> str \<times> plan_segment list \<times> plan_tag line_parser" where
  "visible_part p text =
     (if plan_mode p
      then (case plan_push (plan_parser p) text of (c, q) \<Rightarrow> (visible_text c, extracted c, q))
      else (text, [], plan_parser p))"

lemma assistant_push_text_eq:
  "assistant_push_text p t =
     map_option (\<lambda>(c, cp). case visible_part p (visible_text c) of (v, segs, q) \<Rightarrow>
        (\<lparr>visible_text = v, extracted = map Inl (extracted c) @ map Inr segs\<rparr>,
         p\<lparr>citation_parser := cp, plan_parser := q\<rparr>)) (citation_push (citation_parser p) t)"
  by (cases "citation_push (citation_parser p) t"; cases p)
    (auto simp: assistant_push_text_def assistant_push_def visible_part_def parse_visible_text_def
      assistant_text_chunk_def Let_def split: prod.split)

lemma assistant_push_textE:
  assumes "assistant_push_text p t = Some (c, p1)"
  obtains d cp v s q where "citation_push (citation_parser p) t = Some (d, cp)"
    "visible_part p (visible_text d) = (v, s, q)"
    "c = \<lparr>visible_text = v, extracted = map Inl (extracted d) @ map Inr s\<rparr>"
    "p1 = p\<lparr>citation_parser := cp, plan_parser := q\<rparr>"
proof -
  obtain d cp where d: "citation_push (citation_parser p) t = Some (d, cp)"
    using assms by (auto simp: assistant_push_text_eq)
  obtain v s q where v: "visible_part p (visible_text d) = (v, s, q)" by (cases "visible_part p (visible_text d)")
  show thesis using assms by (intro that [OF d v]) (simp_all add: assistant_push_text_eq d v)
qed

lemma visible_part_append:
  assumes "visible_part p t = (v1, s1, q1)" "visible_part (p\<lparr>citation_parser := cp, plan_parser := q1\<rparr>) u = (v2, s2, q2)"
  shows "\<exists>s. visible_part p (t @ u) = (v1 @ v2, s, q2) \<and> coalesce_plan s = coalesce_plan (s1 @ s2)"
proof (cases "plan_mode p")
  case True
  obtain c1 where 1: "plan_push (plan_parser p) t = (c1, q1)" "v1 = visible_text c1" "s1 = extracted c1"
    using assms(1) True by (auto simp: visible_part_def split: prod.splits)
  obtain c2 where 2: "plan_push q1 u = (c2, q2)" "v2 = visible_text c2" "s2 = extracted c2"
    using assms(2) True by (auto simp: visible_part_def split: prod.splits)
  from plan_push_append [OF 1(1) 2(1)] True show ?thesis
    by (auto simp: visible_part_def 1 2 same_chunk_def split: prod.split)
qed (use assms in \<open>auto simp: visible_part_def\<close>)

interpretation assistant: stream_text_parser assistant_push_text assistant_finish_text assistant_ok coalesce_payload
proof
  fix p t u c1 p1 c2 p2
  assume ok: "assistant_ok p"
  then have c: "citation_ok (citation_parser p)" by (simp add: assistant_ok_def)
  show "\<exists>c p'. assistant_push_text p t = Some (c, p') \<and> assistant_ok p'"
  proof -
    obtain d cp where d: "citation_push (citation_parser p) t = Some (d, cp)" "citation_ok cp"
      using citations.push_returns [OF c, of t] by blast
    then show ?thesis
      by (cases "visible_part p (visible_text d)") (simp add: assistant_push_text_eq assistant_ok_def)
  qed
  show "assistant_push_text p [] = Some (empty_chunk, p)"
  proof -
    have "visible_part p [] = ([], [], plan_parser p)"
      by (simp add: visible_part_def plan_push_def map_segments_def)
    moreover have "p\<lparr>citation_parser := citation_parser p, plan_parser := plan_parser p\<rparr> = p" by (cases p) simp
    ultimately show ?thesis
      using citations.push_Nil [OF c] by (simp add: assistant_push_text_eq empty_chunk_def)
  qed
  assume p: "assistant_push_text p t = Some (c1, p1)" "assistant_push_text p1 u = Some (c2, p2)"
  obtain d1 cp1 v1 s1 q1 where
    1: "citation_push (citation_parser p) t = Some (d1, cp1)" "visible_part p (visible_text d1) = (v1, s1, q1)"
      "c1 = \<lparr>visible_text = v1, extracted = map Inl (extracted d1) @ map Inr s1\<rparr>"
      "p1 = p\<lparr>citation_parser := cp1, plan_parser := q1\<rparr>"
    using p(1) by (rule assistant_push_textE)
  obtain d2 cp2 v2 s2 q2 where
    2: "citation_push (citation_parser p1) u = Some (d2, cp2)" "visible_part p1 (visible_text d2) = (v2, s2, q2)"
      "c2 = \<lparr>visible_text = v2, extracted = map Inl (extracted d2) @ map Inr s2\<rparr>"
      "p2 = p1\<lparr>citation_parser := cp2, plan_parser := q2\<rparr>"
    using p(2) by (rule assistant_push_textE)
  have cp: "citation_push cp1 u = Some (d2, cp2)" using 2(1) 1(4) by simp
  obtain d where d: "citation_push (citation_parser p) (t @ u) = Some (d, cp2)" "d = append_chunk d1 d2"
    using citations.push_append [OF c 1(1) cp] by (auto simp: same_chunk_id)
  obtain s where "visible_part p (visible_text d1 @ visible_text d2) = (v1 @ v2, s, q2)"
    "coalesce_plan s = coalesce_plan (s1 @ s2)"
    using visible_part_append [OF 1(2) 2(2) [unfolded 1(4)]] by blast
  then show "\<exists>c. assistant_push_text p (t @ u) = Some (c, p2) \<and> same_chunk coalesce_payload c (append_chunk c1 c2)"
    by (simp add: assistant_push_text_eq d 1(3,4) 2(3,4) same_chunk_def coalesce_payload_def)
qed (simp_all add: coalesce_payload_def coalesce_plan_left coalesce_plan_right)

text \<open>
  C28: however the assistant's text is cut into pieces, the text shown, the citations and the segments of
  the proposed plan, with adjacent text joined, are those of the whole text; and the parser never
  fails to return.
\<close>

theorem assistant_chunks_do_not_matter:
  "\<exists>a b. run_stream assistant_push_text assistant_finish_text (new_assistant mode) ts = Some a \<and>
     run_stream assistant_push_text assistant_finish_text (new_assistant mode) [concat ts] = Some b \<and>
     visible_text a = visible_text b \<and> lefts (extracted a) = lefts (extracted b) \<and>
     coalesce_plan (rights (extracted a)) = coalesce_plan (rights (extracted b))"
proof -
  have "assistant_ok (new_assistant mode)" by (simp add: assistant_ok_def new_assistant_def new_citations_ok)
  from assistant.run_stream_concat [OF this, of ts] obtain a b where
    ab: "run_stream assistant_push_text assistant_finish_text (new_assistant mode) ts = Some a"
      "run_stream assistant_push_text assistant_finish_text (new_assistant mode) [concat ts] = Some b"
      "same_chunk coalesce_payload a b" by blast
  then have "lefts (coalesce_payload (extracted a)) = lefts (coalesce_payload (extracted b))"
    "rights (coalesce_payload (extracted a)) = rights (coalesce_payload (extracted b))"
    by (simp_all add: same_chunk_def)
  then have "lefts (extracted a) = lefts (extracted b)"
    "coalesce_plan (rights (extracted a)) = coalesce_plan (rights (extracted b))"
    by (simp_all only: coalesce_payload_def lefts_append rights_append lefts_map rights_map append_Nil append_Nil2)
  with ab show ?thesis by (simp add: same_chunk_def)
qed


section \<open>Reading line by line\<close>

text \<open>The reference: the lines of the text, each a tag, or text inside or outside the open block.\<close>

definition text_lines :: "str \<Rightarrow> str list" where
  "text_lines text =
     (let ps = split_on newline text in
      map (\<lambda>l. l @ [newline]) (butlast ps) @ (if last ps = [] then [] else [last ps]))"

definition line_tag_of :: "'a line_parser \<Rightarrow> str \<Rightarrow> 'a line_segment" where
  "line_tag_of p l =
     (case (match_open p (line_slug l), active_tag p) of
        (Some tag, None) \<Rightarrow> TagStart tag
      | _ \<Rightarrow>
          (case match_close p (line_slug l) of
             Some tag \<Rightarrow> if active_tag p = Some tag then TagEnd tag else text_segment (active_tag p) l
           | None \<Rightarrow> text_segment (active_tag p) l))"

fun after_segment :: "'a option \<Rightarrow> 'a line_segment \<Rightarrow> 'a option" where
  "after_segment active (TagStart tag) = Some tag"
| "after_segment active (TagEnd tag) = None"
| "after_segment active _ = active"

fun read_lines :: "'a line_parser \<Rightarrow> str list \<Rightarrow> 'a line_segment list" where
  "read_lines p [] = (case active_tag p of Some tag \<Rightarrow> [TagEnd tag] | None \<Rightarrow> [])"
| "read_lines p (l # ls) =
     (let seg = line_tag_of p l in seg # read_lines (p\<lparr>active_tag := after_segment (active_tag p) seg\<rparr>) ls)"

definition parse_text :: "'a line_tag_spec list \<Rightarrow> str \<Rightarrow> 'a line_segment list" where
  "parse_text ss text =
     (let (segs, p) = parse_lines (new_line_parser ss) text in segs @ fst (finish_lines p))"

text \<open>A line that is a tag in the end looks like one all the time.\<close>

definition may_be_tag :: "'a line_parser \<Rightarrow> str \<Rightarrow> bool" where
  "may_be_tag p l \<longleftrightarrow> trim_start l = [] \<or> is_tag_prefix p (trim_start l)"

lemma trim_end_prefix_mono: "prefix a b \<Longrightarrow> prefix (trim_end a) (trim_end b)"
proof -
  assume "prefix a b"
  then obtain r where b: "b = a @ r" by (auto simp: prefix_def)
  show ?thesis
  proof (cases "\<forall>c \<in> set r. is_whitespace c")
    case True
    then have "trim_end b = trim_end a" by (simp add: b trim_end_def dropWhile_append)
    then show ?thesis by simp
  next
    case False
    then have "trim_end b = a @ trim_end r" by (auto simp: b trim_end_def dropWhile_append)
    then show ?thesis using trim_end_prefix [of a] by (simp add: prefix_order.trans)
  qed
qed

lemma may_be_tag_prefix:
  assumes "may_be_tag p (l @ r)"
  shows "may_be_tag p l"
proof (cases "trim_start l = []")
  case False
  then have "trim_start (l @ r) = trim_start l @ r" by (rule trim_start_append)
  with assms False have "is_tag_prefix p (trim_start l @ r)" by (auto simp: may_be_tag_def)
  moreover have "prefix (trim_end (trim_start l)) (trim_end (trim_start l @ r))"
    by (rule trim_end_prefix_mono) simp
  ultimately show ?thesis
    by (auto simp: may_be_tag_def is_tag_prefix_def list_ex_iff Let_def starts_with_prefix dest: prefix_order.trans)
qed (simp add: may_be_tag_def)

lemma line_slug_no_newline: "newline \<notin> set l \<Longrightarrow> line_slug l = trim l \<and> line_slug (l @ [newline]) = trim l"
proof -
  assume "newline \<notin> set l"
  then have "strip_suffix [newline] l = None" "strip_suffix [newline] (l @ [newline]) = Some l"
    by (cases "strip_suffix [newline] l") (auto simp: strip_suffix_Some)
  then show ?thesis by (simp add: line_slug_def trim_def)
qed

lemma match_may_be_tag:
  assumes "match_open p (trim l) \<noteq> None \<or> match_close p (trim l) \<noteq> None"
  shows "may_be_tag p l"
proof -
  obtain s where s: "s \<in> set (line_specs p)" "line_open s = trim l \<or> line_close s = trim l"
    using assms by (auto simp: match_open_def match_close_def find_Some_iff) (metis nth_mem)+
  then have "is_tag_prefix p (trim_start l)"
    unfolding is_tag_prefix_def list_ex_iff Let_def starts_with_prefix
    by (intro bexI [of _ s]) (auto simp: trim_def)
  then show ?thesis by (simp add: may_be_tag_def)
qed

lemma match_cong [simp]:
  "match_open (p\<lparr>line_buffer := b\<rparr>) = match_open p" "match_open (p\<lparr>detect_tag := d\<rparr>) = match_open p"
  "match_open (p\<lparr>active_tag := a\<rparr>) = match_open p"
  "match_close (p\<lparr>line_buffer := b\<rparr>) = match_close p" "match_close (p\<lparr>detect_tag := d\<rparr>) = match_close p"
  "match_close (p\<lparr>active_tag := a\<rparr>) = match_close p"
  "is_tag_prefix (p\<lparr>line_buffer := b\<rparr>) = is_tag_prefix p" "is_tag_prefix (p\<lparr>detect_tag := d\<rparr>) = is_tag_prefix p"
  "is_tag_prefix (p\<lparr>active_tag := a\<rparr>) = is_tag_prefix p"
  by (simp_all add: match_open_def match_close_def is_tag_prefix_def fun_eq_iff)

lemma may_be_tag_cong [simp]:
  "may_be_tag (p\<lparr>line_buffer := b\<rparr>) = may_be_tag p" "may_be_tag (p\<lparr>detect_tag := d\<rparr>) = may_be_tag p"
  by (simp_all add: may_be_tag_def fun_eq_iff)

text \<open>A parser at the start of a line.\<close>

definition at_line_start :: "'a line_parser \<Rightarrow> bool" where
  "at_line_start p \<longleftrightarrow> detect_tag p \<and> line_buffer p = []"

lemma detecting_line:
  assumes "detect_tag p" "newline \<notin> set l" "may_be_tag p (line_buffer p @ l)"
  shows "foldl parse_char (p, [], segs) l = (p\<lparr>line_buffer := line_buffer p @ l\<rparr>, [], segs)"
  using assms
proof (induction l arbitrary: p)
  case (Cons c l)
  have "may_be_tag p (line_buffer p @ [c])"
    using may_be_tag_prefix [of p "line_buffer p @ [c]" l] Cons.prems(3) by simp
  then have "parse_char (p, [], segs) c = (p\<lparr>line_buffer := line_buffer p @ [c]\<rparr>, [], segs)"
    using Cons.prems(1,2) by (auto simp: parse_char_def may_be_tag_def Let_def)
  with Cons.IH [of "p\<lparr>line_buffer := line_buffer p @ [c]\<rparr>"] Cons.prems show ?case by simp
qed simp

lemma passing_line:
  assumes "\<not> detect_tag p" "newline \<notin> set l"
  shows "foldl parse_char (p, run, segs) l = (p, run @ l, segs)"
  using assms
proof (induction l arbitrary: run)
  case (Cons c l)
  then have "parse_char (p, run, segs) c = (p, run @ [c], segs)" by (auto simp: parse_char_def Let_def)
  with Cons show ?case by simp
qed simp

lemma text_line:
  assumes "detect_tag p" "newline \<notin> set l" "\<not> may_be_tag p (line_buffer p @ l)" "may_be_tag p (line_buffer p)"
  shows "\<exists>run segs'. foldl parse_char (p, [], segs) l = (p\<lparr>line_buffer := [], detect_tag := False\<rparr>, run, segs') \<and>
    push_text p run segs' = push_text p (line_buffer p @ l) segs"
  using assms
proof (induction l arbitrary: p)
  case (Cons c l)
  let ?p = "p\<lparr>line_buffer := line_buffer p @ [c]\<rparr>"
  show ?case
  proof (cases "may_be_tag p (line_buffer p @ [c])")
    case True
    then have "parse_char (p, [], segs) c = (?p, [], segs)"
      using Cons.prems(1,2) by (auto simp: parse_char_def may_be_tag_def Let_def)
    with Cons.IH [of ?p] Cons.prems True show ?thesis by simp
  next
    case False
    then have "parse_char (p, [], segs) c =
        (p\<lparr>line_buffer := [], detect_tag := False\<rparr>, [], push_text p (line_buffer p @ [c]) segs)"
      using Cons.prems(1,2) by (auto simp: parse_char_def may_be_tag_def Let_def)
    with passing_line [of "p\<lparr>line_buffer := [], detect_tag := False\<rparr>" l] Cons.prems(2) show ?thesis
      by (simp add: push_text_append)
  qed
qed simp


lemma after_text_segment [simp]: "after_segment a (text_segment k t) = a"
  by (simp add: text_segment_def split: option.split)

lemma update_active_id [simp]: "active_tag p = a \<Longrightarrow> p\<lparr>active_tag := a\<rparr> = p"
  by (cases p) simp

lemma finish_line_eq:
  assumes "detect_tag p"
  shows "finish_line p segs =
    (p\<lparr>line_buffer := [], active_tag := after_segment (active_tag p) (line_tag_of p (line_buffer p))\<rparr>,
     push_segment segs (line_tag_of p (line_buffer p)))"
  using assms by (auto simp: finish_line_def Let_def push_text_segment line_tag_of_def
      split: option.split intro!: line_parser.equality)

lemma finish_buffer_eq:
  assumes "line_buffer p \<noteq> []"
  shows "finish_buffer p =
    (p\<lparr>line_buffer := [], active_tag := after_segment (active_tag p) (line_tag_of p (line_buffer p))\<rparr>,
     push_segment [] (line_tag_of p (line_buffer p)))"
  using assms by (auto simp: finish_buffer_def Let_def push_text_segment line_tag_of_def
      split: option.split intro!: line_parser.equality)

lemma line_tag_of_cong [simp]:
  "line_tag_of (p\<lparr>line_buffer := b\<rparr>) = line_tag_of p" "line_tag_of (p\<lparr>detect_tag := d\<rparr>) = line_tag_of p"
  by (simp_all add: line_tag_of_def fun_eq_iff split: option.split)

lemma no_tag_line:
  assumes "newline \<notin> set l" "\<not> may_be_tag p l" "l' = l \<or> l' = l @ [newline]"
  shows "line_tag_of p l' = text_segment (active_tag p) l'"
proof -
  have "match_open p (trim l) = None" "match_close p (trim l) = None"
    using match_may_be_tag [of p l] assms(2) by blast+
  moreover have "line_slug l' = trim l" using line_slug_no_newline [OF assms(1)] assms(3) by auto
  ultimately show ?thesis by (simp add: line_tag_of_def)
qed

lemma parse_line:
  assumes "at_line_start p" "newline \<notin> set l"
  shows "foldl parse_char (p, [], segs) (l @ [newline]) =
    (p\<lparr>active_tag := after_segment (active_tag p) (line_tag_of p (l @ [newline]))\<rparr>, [],
     push_segment segs (line_tag_of p (l @ [newline])))"
proof (cases "may_be_tag p l")
  case True
  have "foldl parse_char (p, [], segs) l = (p\<lparr>line_buffer := l\<rparr>, [], segs)"
    using detecting_line [of p l segs] assms True by (simp add: at_line_start_def)
  moreover have "p\<lparr>line_buffer := []\<rparr> = p" using assms(1) by (cases p) (simp add: at_line_start_def)
  ultimately show ?thesis
    using assms(1) finish_line_eq [of "p\<lparr>line_buffer := l @ [newline]\<rparr>" segs]
    by (simp add: parse_char_def at_line_start_def Let_def)
next
  case False
  have "may_be_tag p []" by (simp add: may_be_tag_def trim_start_def)
  then obtain run segs' where r: "foldl parse_char (p, [], segs) l = (p\<lparr>line_buffer := [], detect_tag := False\<rparr>, run, segs')"
    "push_text p run segs' = push_text p l segs"
    using text_line [of p l segs] assms False by (auto simp: at_line_start_def)
  have "push_text p (run @ [newline]) segs' = push_text p (l @ [newline]) segs"
    by (simp add: r(2) flip: push_text_append)
  moreover have "p\<lparr>line_buffer := [], detect_tag := True\<rparr> = p" using assms(1) by (cases p) (simp add: at_line_start_def)
  ultimately show ?thesis
    using no_tag_line [OF assms(2) False, of "l @ [newline]"]
    by (simp add: r(1) parse_char_def Let_def push_text_segment)
qed

lemma parse_complete_lines:
  assumes "at_line_start p" "\<forall>l \<in> set ls. newline \<notin> set l"
  shows "\<exists>p' segs'. foldl parse_char (p, [], segs) (concat (map (\<lambda>l. l @ [newline]) ls)) = (p', [], segs') \<and>
    at_line_start p' \<and>
    foldl push_segment segs' (read_lines p' rest) =
      foldl push_segment segs (read_lines p (map (\<lambda>l. l @ [newline]) ls @ rest))"
  using assms
proof (induction ls arbitrary: p segs)
  case (Cons l ls)
  let ?seg = "line_tag_of p (l @ [newline])"
  let ?p = "p\<lparr>active_tag := after_segment (active_tag p) ?seg\<rparr>"
  have "at_line_start ?p" using Cons.prems(1) by (simp add: at_line_start_def)
  from Cons.IH [OF this, of "push_segment segs ?seg"] Cons.prems
    parse_line [OF Cons.prems(1), of l segs] show ?case by (auto simp: Let_def)
qed simp

lemma parse_last_line:
  assumes "at_line_start p" "newline \<notin> set l" "foldl parse_char (p, [], segs) l = (p', run, segs')"
  shows "foldl push_segment (push_text p' run segs') (fst (finish_lines p')) =
    foldl push_segment segs (read_lines p (if l = [] then [] else [l]))"
proof (cases "l = []")
  case True
  with assms show ?thesis
    by (auto simp: finish_lines_def finish_buffer_def at_line_start_def push_segment_def split: option.split)
next
  case ne: False
  show ?thesis
  proof (cases "may_be_tag p l")
    case True
    then have "foldl parse_char (p, [], segs) l = (p\<lparr>line_buffer := l\<rparr>, [], segs)"
      using detecting_line [of p l segs] assms by (simp add: at_line_start_def)
    then have "p' = p\<lparr>line_buffer := l\<rparr>" "run = []" "segs' = segs" using assms(3) by auto
    moreover have "foldl push_segment segs (push_segment [] seg) = push_segment segs seg" for seg
      by (simp add: foldl_push_segment)
    ultimately show ?thesis
      using finish_buffer_eq [of "p\<lparr>line_buffer := l\<rparr>"] ne
      by (simp add: finish_lines_def Let_def foldl_push_segment  split: option.split)
  next
    case False
    have "may_be_tag p []" by (simp add: may_be_tag_def trim_start_def)
    then have r: "p' = p\<lparr>line_buffer := [], detect_tag := False\<rparr>" "push_text p run segs' = push_text p l segs"
      using text_line [of p l segs] assms False by (auto simp: at_line_start_def)
    then show ?thesis
      using no_tag_line [OF assms(2) False, of l] ne
      by (auto simp: finish_lines_def finish_buffer_def Let_def push_text_segment push_segment_def [of _ "TagEnd _"]
          split: option.split)
  qed
qed

text \<open>
  C29: the line parser, which decides character by character whether a line may still be a tag, finds what
  reading the complete text line by line finds, with adjacent text joined: a line that is a tag but
  for surrounding white space opens or closes a block, every other line is text, and a block that is
  open at the end is closed.
\<close>

theorem parse_text_reads_lines:
  "coalesce (parse_text ss text) = coalesce (read_lines (new_line_parser ss) (text_lines text))"
proof -
  let ?p = "new_line_parser ss" and ?ps = "split_on newline text"
  have nl: "\<forall>l \<in> set ?ps. newline \<notin> set l" by (rule split_on_no_sep)
  have whole: "text = concat (map (\<lambda>l. l @ [newline]) (butlast ?ps)) @ last ?ps"
  proof -
    have "join [newline] ps = concat (map (\<lambda>l. l @ [newline]) (butlast ps)) @ last ps" if "ps \<noteq> []" for ps
      using that by (induction "[newline]" ps rule: join.induct) auto
    then show ?thesis using join_split_on [of newline "text"] by simp
  qed
  have "at_line_start ?p" by (simp add: at_line_start_def new_line_parser_def)
  from parse_complete_lines [OF this, of "butlast ?ps" "[]" "if last ?ps = [] then [] else [last ?ps]"]
  obtain p1 segs1 where
    1: "foldl parse_char (?p, [], []) (concat (map (\<lambda>l. l @ [newline]) (butlast ?ps))) = (p1, [], segs1)" "at_line_start p1"
      "foldl push_segment segs1 (read_lines p1 (if last ?ps = [] then [] else [last ?ps])) =
        foldl push_segment [] (read_lines ?p (text_lines text))"
    using nl by (auto simp: text_lines_def Let_def dest: in_set_butlastD)
  obtain p2 run segs2 where 2: "foldl parse_char (p1, [], segs1) (last ?ps) = (p2, run, segs2)"
    by (cases "foldl parse_char (p1, [], segs1) (last ?ps)")
  have "parse_lines ?p text = (push_text p2 run segs2, p2)"
    unfolding parse_lines_eq by (subst whole) (simp add: 1(1) 2)
  then have "coalesce (parse_text ss text) = coalesce (push_text p2 run segs2 @ fst (finish_lines p2))"
    by (simp add: parse_text_def)
  also have "\<dots> = coalesce (foldl push_segment (push_text p2 run segs2) (fst (finish_lines p2)))"
    by (simp add: foldl_push_coalesce)
  also have "\<dots> = coalesce (coalesce (read_lines ?p (text_lines text)))"
    using parse_last_line [OF 1(2) _ 2] nl 1(3) by (simp add: coalesce_def)
  finally show ?thesis by (simp add: coalesce_idem)
qed


end
