(* ===== verification/Stream_Bytes.thy ===== *)
theory Stream_Bytes
  imports Stream_Plan Utf8
begin

text \<open>
  \<^verbatim>\<open>codex-rs/utils/stream-parser/src/utf8_stream.rs\<close>: a stream parser fed with raw bytes, which keeps back the
  bytes of a code point that a piece cuts in two. It is a client of the contract \<^verbatim>\<open>stream_text_parser\<close>,
  so its lemmas hold for every parser that satisfies it; the theorem instantiates them with the
  parser of the assistant's text.
\<close>

section \<open>The parser\<close>

datatype utf8_stream_error =
  InvalidUtf8 (invalid_at: nat) (invalid_len: nat)
| IncompleteUtf8AtEof

record 's utf8_stream =
  inner_parser :: 's
  pending_utf8 :: "byte list"

definition new_utf8_stream :: "'s \<Rightarrow> 's utf8_stream" where
  "new_utf8_stream inner = \<lparr>inner_parser = inner, pending_utf8 = []\<rparr>"

definition push_inner ::
  "('s, 'e) push \<Rightarrow> 's utf8_stream \<Rightarrow> str \<Rightarrow> byte list \<Rightarrow>
   ((utf8_stream_error + 'e text_chunk) \<times> 's utf8_stream) option" where
  "push_inner push p text rest =
     map_option (\<lambda>(out, inner). (Inr out, \<lparr>inner_parser = inner, pending_utf8 = rest\<rparr>)) (push (inner_parser p) text)"

definition push_bytes ::
  "('s, 'e) push \<Rightarrow> 's utf8_stream \<Rightarrow> byte list \<Rightarrow>
   ((utf8_stream_error + 'e text_chunk) \<times> 's utf8_stream) option" where
  "push_bytes push p chunk =
     (let bytes = pending_utf8 p @ chunk in
      case from_utf8 bytes of
        Inr text \<Rightarrow> push_inner push p text []
      | Inl err \<Rightarrow>
          (case error_len err of
             Some n \<Rightarrow> Some (Inl (InvalidUtf8 (valid_up_to err) n), p)
           | None \<Rightarrow>
               if valid_up_to err = 0 then Some (Inr empty_chunk, p\<lparr>pending_utf8 := bytes\<rparr>)
               else
                 (case from_utf8 (take (valid_up_to err) bytes) of
                    Inl prefix_err \<Rightarrow>
                      Some (Inl (InvalidUtf8 (valid_up_to prefix_err)
                        (case error_len prefix_err of Some n \<Rightarrow> n | None \<Rightarrow> 0)), p)
                  | Inr text \<Rightarrow> push_inner push p text (drop (valid_up_to err) bytes))))"

definition pending_error :: "byte list \<Rightarrow> utf8_stream_error option" where
  "pending_error bytes =
     (if bytes = [] then None
      else case from_utf8 bytes of
        Inr _ \<Rightarrow> None
      | Inl err \<Rightarrow>
          (case error_len err of Some n \<Rightarrow> Some (InvalidUtf8 (valid_up_to err) n) | None \<Rightarrow> Some IncompleteUtf8AtEof))"

definition finish_bytes ::
  "('s, 'e) push \<Rightarrow> ('s, 'e) flush \<Rightarrow> 's utf8_stream \<Rightarrow>
   ((utf8_stream_error + 'e text_chunk) \<times> 's utf8_stream) option" where
  "finish_bytes push finish p =
     (case pending_error (pending_utf8 p) of
        Some e \<Rightarrow> Some (Inl e, p)
      | None \<Rightarrow>
          (case (if pending_utf8 p = [] then Some (Inr empty_chunk, p)
                 else case from_utf8 (pending_utf8 p) of
                   Inl err \<Rightarrow>
                     Some (Inl (InvalidUtf8 (valid_up_to err) (case error_len err of Some n \<Rightarrow> n | None \<Rightarrow> 0)), p)
                 | Inr text \<Rightarrow> push_inner push p text []) of
             None \<Rightarrow> None
           | Some (Inl e, p1) \<Rightarrow> Some (Inl e, p1)
           | Some (Inr out, p1) \<Rightarrow>
               (let (tail, inner) = finish (inner_parser p1) in
                Some (Inr (append_chunk out tail), p1\<lparr>inner_parser := inner\<rparr>))))"

definition into_inner :: "'s utf8_stream \<Rightarrow> utf8_stream_error + 's" where
  "into_inner p = (case pending_error (pending_utf8 p) of Some e \<Rightarrow> Inl e | None \<Rightarrow> Inr (inner_parser p))"

definition into_inner_lossy :: "'s utf8_stream \<Rightarrow> 's" where
  "into_inner_lossy p = inner_parser p"

text \<open>Feeding all pieces, up to the first error, and finishing.\<close>

fun push_all_bytes ::
  "('s, 'e) push \<Rightarrow> 's utf8_stream \<Rightarrow> byte list list \<Rightarrow>
   ((utf8_stream_error + 'e text_chunk) \<times> 's utf8_stream) option" where
  "push_all_bytes push p [] = Some (Inr empty_chunk, p)"
| "push_all_bytes push p (b # bs) =
     (case push_bytes push p b of
        None \<Rightarrow> None
      | Some (Inl e, p1) \<Rightarrow> Some (Inl e, p1)
      | Some (Inr c, p1) \<Rightarrow> map_option (map_prod (map_sum id (append_chunk c)) id) (push_all_bytes push p1 bs))"

definition run_bytes ::
  "('s, 'e) push \<Rightarrow> ('s, 'e) flush \<Rightarrow> 's \<Rightarrow> byte list list \<Rightarrow> (utf8_stream_error + 'e text_chunk) option" where
  "run_bytes push finish s bs =
     (case push_all_bytes push (new_utf8_stream s) bs of
        None \<Rightarrow> None
      | Some (Inl e, p1) \<Rightarrow> Some (Inl e)
      | Some (Inr c, p1) \<Rightarrow> map_option (\<lambda>(r, _). map_sum id (append_chunk c) r) (finish_bytes push finish p1))"

section \<open>What a push decodes\<close>

text \<open>An error leaves the parser as it was: no part of the piece has been seen.\<close>

lemma push_bytes_rolls_back: "push_bytes push p chunk = Some (Inl e, p') \<Longrightarrow> p' = p"
  by (auto simp: push_bytes_def push_inner_def Let_def split: sum.splits option.splits if_splits)

lemma from_utf8_decode:
  assumes "decode bytes = (s, e, rest)"
  shows "from_utf8 bytes =
    (case e of
       Complete \<Rightarrow> Inr s
     | Invalid k \<Rightarrow> Inl \<lparr>valid_up_to = length (encode s), error_len = Some k\<rparr>
     | Incomplete \<Rightarrow> Inl \<lparr>valid_up_to = length (encode s), error_len = None\<rparr>)"
  using decode_sound [OF assms] assms by (auto simp: from_utf8_def split: utf8_end.split)

lemma push_bytes_invalid:
  assumes "decode (pending_utf8 p @ chunk) = (s, Invalid k, rest)"
  shows "push_bytes push p chunk = Some (Inl (InvalidUtf8 (length (encode s)) k), p)"
  by (simp add: push_bytes_def from_utf8_decode [OF assms])

context stream_text_parser
begin

lemma push_bytes_decodes:
  assumes "ok (inner_parser p)" "decode (pending_utf8 p @ chunk) = (s, e, rest)" "\<forall>k. e \<noteq> Invalid k"
    and "push (inner_parser p) s = Some (c, i)"
  shows "push_bytes push p chunk = Some (Inr c, \<lparr>inner_parser = i, pending_utf8 = rest\<rparr>)"
proof -
  have d: "pending_utf8 p @ chunk = encode s @ rest" "list_all is_scalar s" "rest = [] \<longleftrightarrow> e = Complete"
    using decode_sound [OF assms(2)] by auto
  show ?thesis
  proof (cases e)
    case Complete
    then show ?thesis
      using d(3) assms(4) by (simp add: push_bytes_def from_utf8_decode [OF assms(2)] push_inner_def)
  next
    case Incomplete
    show ?thesis
    proof (cases "s = []")
      case True
      then have "c = empty_chunk" "i = inner_parser p" "pending_utf8 p @ chunk = rest"
        using push_Nil [OF assms(1)] assms(4) d(1) by auto
      then show ?thesis
        using True Incomplete from_utf8_decode [OF assms(2)]
          utf8_stream.equality [of "p\<lparr>pending_utf8 := rest\<rparr>" "\<lparr>inner_parser = inner_parser p, pending_utf8 = rest\<rparr>"]
        by (simp add: push_bytes_def)
    next
      case False
      then have "encode s \<noteq> []" by (cases s) auto
      moreover have "from_utf8 (encode s @ rest) = Inl \<lparr>valid_up_to = length (encode s), error_len = None\<rparr>"
        using from_utf8_decode [OF assms(2)] d(1) Incomplete by simp
      ultimately show ?thesis
        using d(1,2) assms(4) by (simp add: push_bytes_def push_inner_def)
    qed
  qed (use assms(3) in simp)
qed

text \<open>Pieces of bytes are like the piece of text they decode to; what they cut off stays pending.\<close>

lemma push_all_bytes_decodes:
  assumes "ok (inner_parser p)" "decode (pending_utf8 p) = ([], e0, pending_utf8 p)"
    and "decode (pending_utf8 p @ concat bs) = (s, e, rest)" "\<forall>k. e \<noteq> Invalid k"
  shows "\<exists>c c' i. push_all_bytes push p bs = Some (Inr c, \<lparr>inner_parser = i, pending_utf8 = rest\<rparr>) \<and>
    push (inner_parser p) s = Some (c', i) \<and> same_chunk norm c c' \<and> ok i"
  using assms
proof (induction bs arbitrary: p s e0)
  case Nil
  then show ?case using push_Nil by (cases p) auto
next
  case (Cons b bs)
  obtain s1 e1 r1 where 1: "decode (pending_utf8 p @ b) = (s1, e1, r1)" by (cases "decode (pending_utf8 p @ b)")
  have e1: "\<forall>k. e1 \<noteq> Invalid k"
    using decode_Invalid_append [of "pending_utf8 p @ b" s1 _ r1 "concat bs"] 1 Cons.prems(3,4) by auto
  obtain c1 i1 where c1: "push (inner_parser p) s1 = Some (c1, i1)" "ok i1" using push_returns [OF Cons.prems(1)] by blast
  let ?p1 = "\<lparr>inner_parser = i1, pending_utf8 = r1\<rparr>"
  have p1: "push_bytes push p b = Some (Inr c1, ?p1)" using push_bytes_decodes [OF Cons.prems(1) 1 e1 c1(1)] .
  obtain s2 where s2: "decode (r1 @ concat bs) = (s2, e, rest)" "s = s1 @ s2"
    using decode_append [OF 1, of "concat bs"] Cons.prems(3) by (auto split: prod.splits)
  obtain c2 c2' i2 where 2: "push_all_bytes push ?p1 bs = Some (Inr c2, \<lparr>inner_parser = i2, pending_utf8 = rest\<rparr>)"
    "push i1 s2 = Some (c2', i2)" "same_chunk norm c2 c2'" "ok i2"
    using Cons.IH [of ?p1 e1 s2] c1(2) decode_rest [OF 1] s2(1) Cons.prems(4) by auto
  obtain c' where c': "push (inner_parser p) s = Some (c', i2)" "same_chunk norm c' (append_chunk c1 c2')"
    using push_append [OF Cons.prems(1) c1(1) 2(2)] s2(2) by auto
  have "same_chunk norm (append_chunk c1 c2) c'"
    using same_append [OF same_chunk_refl 2(3)] same_chunk_sym [OF c'(2)] same_chunk_trans by blast
  with p1 2(1,4) c'(1) show ?case by simp
qed

lemma push_all_bytes_invalid:
  assumes "ok (inner_parser p)" "decode (pending_utf8 p) = ([], e0, pending_utf8 p)" "\<forall>k. e0 \<noteq> Invalid k"
    and "decode (pending_utf8 p @ concat bs) = (s, Invalid k, rest)"
  shows "\<exists>n p'. push_all_bytes push p bs = Some (Inl (InvalidUtf8 n k), p')"
  using assms
proof (induction bs arbitrary: p s e0)
  case (Cons b bs)
  obtain s1 e1 r1 where 1: "decode (pending_utf8 p @ b) = (s1, e1, r1)" by (cases "decode (pending_utf8 p @ b)")
  show ?case
  proof (cases "\<exists>k. e1 = Invalid k")
    case True
    then have "e1 = Invalid k"
      using decode_Invalid_append [of "pending_utf8 p @ b" s1 _ r1 "concat bs"] 1 Cons.prems(4) by auto
    then show ?thesis using push_bytes_invalid [of p b s1 k r1 push] 1 by simp
  next
    case False
    obtain c1 i1 where c1: "push (inner_parser p) s1 = Some (c1, i1)" "ok i1" using push_returns [OF Cons.prems(1)] by blast
    let ?p1 = "\<lparr>inner_parser = i1, pending_utf8 = r1\<rparr>"
    have p1: "push_bytes push p b = Some (Inr c1, ?p1)"
      using push_bytes_decodes [OF Cons.prems(1) 1 _ c1(1)] False by simp
    obtain s2 where "decode (r1 @ concat bs) = (s2, Invalid k, rest)"
      using decode_append [OF 1, of "concat bs"] Cons.prems(4) by (auto split: prod.splits)
    then obtain n p' where "push_all_bytes push ?p1 bs = Some (Inl (InvalidUtf8 n k), p')"
      using Cons.IH [of ?p1 e1 s2] c1(2) decode_rest [OF 1] False by auto
    with p1 show ?thesis by simp
  qed
qed simp

lemma run_bytes_decodes:
  assumes "ok s"
  shows "case decode (concat bs) of
      (text, Complete, _) \<Rightarrow>
        (\<exists>c c'. run_bytes push finish s bs = Some (Inr c) \<and> run_stream push finish s [text] = Some c' \<and>
           same_chunk norm c c')
    | (_, Incomplete, _) \<Rightarrow> run_bytes push finish s bs = Some (Inl IncompleteUtf8AtEof)
    | (_, Invalid k, _) \<Rightarrow> (\<exists>n. run_bytes push finish s bs = Some (Inl (InvalidUtf8 n k)))"
proof -
  let ?p = "new_utf8_stream s"
  have p: "ok (inner_parser ?p)" "decode (pending_utf8 ?p) = ([], Complete, pending_utf8 ?p)"
    using assms by (simp_all add: new_utf8_stream_def)
  obtain dec e rest where d: "decode (concat bs) = (dec, e, rest)" by (cases "decode (concat bs)")
  then have d': "decode (pending_utf8 ?p @ concat bs) = (dec, e, rest)" by (simp add: new_utf8_stream_def)
  show ?thesis
  proof (cases e)
    case (Invalid k)
    then show ?thesis
      using push_all_bytes_invalid [OF p _ d' [unfolded Invalid]] d by (auto simp: run_bytes_def)
  next
    case Complete
    then have r: "rest = []" using decode_sound [OF d] by simp
    obtain c c' i where "push_all_bytes push ?p bs = Some (Inr c, \<lparr>inner_parser = i, pending_utf8 = []\<rparr>)"
      "push s dec = Some (c', i)" "same_chunk norm c c'"
      using push_all_bytes_decodes [OF p d'] Complete r by (auto simp: new_utf8_stream_def)
    then show ?thesis
      using d Complete same_append [OF \<open>same_chunk norm c c'\<close> same_chunk_refl]
      by (cases "finish i") (simp add: run_bytes_def finish_bytes_def pending_error_def run_stream_def)
  next
    case Incomplete
    then have r: "rest \<noteq> []" using decode_sound [OF d] by simp
    obtain c i where "push_all_bytes push ?p bs = Some (Inr c, \<lparr>inner_parser = i, pending_utf8 = rest\<rparr>)"
      using push_all_bytes_decodes [OF p d'] Incomplete by auto
    moreover have "from_utf8 rest = Inl \<lparr>valid_up_to = length (encode []), error_len = None\<rparr>"
      using from_utf8_decode [OF decode_rest [OF d]] Incomplete by simp
    ultimately show ?thesis
      using d Incomplete r by (simp add: run_bytes_def finish_bytes_def pending_error_def)
  qed
qed

end

text \<open>
  What it means for a parser over bytes to decode them: the bytes may be cut anywhere.
\<close>

definition decodes_bytes ::
  "('s, 'e) push \<Rightarrow> ('s, 'e) flush \<Rightarrow> ('e list \<Rightarrow> 'e list) \<Rightarrow> 's \<Rightarrow> byte list list \<Rightarrow> bool" where
  "decodes_bytes push finish norm s bs \<longleftrightarrow>
     (case decode (concat bs) of
        (text, Complete, _) \<Rightarrow>
          (\<exists>c c'. run_bytes push finish s bs = Some (Inr c) \<and> run_stream push finish s [text] = Some c' \<and>
             same_chunk norm c c')
      | (_, Incomplete, _) \<Rightarrow> run_bytes push finish s bs = Some (Inl IncompleteUtf8AtEof)
      | (_, Invalid k, _) \<Rightarrow> (\<exists>n. run_bytes push finish s bs = Some (Inl (InvalidUtf8 n k))))"

text \<open>
  C27: the bytes given to a stream parser may be cut anywhere, also inside a code point: valid UTF-8 shows
  what the decoded text shows when pushed at once, an incomplete code point at the end is
  reported as such, and any other malformed sequence is reported with its length.  This holds for the
  citation parser and the plan parser, which the code can wrap, and for the parser of the assistant's text
  behind the adapter of \<^verbatim>\<open>Stream_Plan\<close>.
\<close>

theorem assistant_bytes_decode:
  "decodes_bytes citation_push citation_finish id new_citations bs \<and>
   decodes_bytes plan_push_some plan_finish coalesce_plan new_plan_parser bs \<and>
   (case decode (concat bs) of
      (text, Complete, _) \<Rightarrow>
        (\<exists>c c'. run_bytes assistant_push_text assistant_finish_text (new_assistant mode) bs = Some (Inr c) \<and>
           run_stream assistant_push_text assistant_finish_text (new_assistant mode) [text] = Some c' \<and>
           same_chunk coalesce_payload c c')
    | (_, Incomplete, _) \<Rightarrow>
        run_bytes assistant_push_text assistant_finish_text (new_assistant mode) bs = Some (Inl IncompleteUtf8AtEof)
    | (_, Invalid k, _) \<Rightarrow>
        (\<exists>n. run_bytes assistant_push_text assistant_finish_text (new_assistant mode) bs = Some (Inl (InvalidUtf8 n k))))"
proof (intro conjI)
  show "decodes_bytes citation_push citation_finish id new_citations bs"
    unfolding decodes_bytes_def by (rule citations.run_bytes_decodes [OF new_citations_ok])
  show "decodes_bytes plan_push_some plan_finish coalesce_plan new_plan_parser bs"
    unfolding decodes_bytes_def by (rule plans.run_bytes_decodes [OF TrueI])
qed (rule assistant.run_bytes_decodes, simp add: assistant_ok_def new_assistant_def new_citations_ok)

end
