(* ===== verification/Head_Tail_Buffer.thy ===== *)
theory Head_Tail_Buffer
  imports Rust_Std
begin

text \<open>
  The capped buffer of a command's output, \<^verbatim>\<open>codex-rs/core/src/unified_exec/head_tail_buffer.rs\<close>: it keeps a
  prefix and a suffix of what was pushed and counts what it dropped in between. The abstract specification
  is a function of the whole output; every operation refines it.
\<close>

section \<open>The buffer\<close>

type_synonym chunk = "nat list"

record head_tail_buffer =
  max_bytes :: nat
  head_budget :: nat
  tail_budget :: nat
  head_chunks :: "chunk list"
  tail_chunks :: "chunk list"
  head_bytes :: nat
  tail_bytes :: nat
  omitted_bytes :: nat

definition new_buffer :: "nat \<Rightarrow> head_tail_buffer" where
  "new_buffer cap =
     \<lparr>max_bytes = cap, head_budget = cap div 2, tail_budget = usat_sub cap (cap div 2), head_chunks = [], tail_chunks = [],
      head_bytes = 0, tail_bytes = 0, omitted_bytes = 0\<rparr>"

definition retained_bytes :: "head_tail_buffer \<Rightarrow> nat" where
  "retained_bytes b = usat_add (head_bytes b) (tail_bytes b)"

text \<open>The loop over the front chunks: what is left of the excess, and the three fields it changes.\<close>

fun trim_loop :: "nat \<Rightarrow> chunk list \<Rightarrow> nat \<Rightarrow> nat \<Rightarrow> chunk list \<times> nat \<times> nat" where
  "trim_loop excess [] tb om = ([], tb, om)"
| "trim_loop excess (front # rest) tb om =
     (if excess = 0 then (front # rest, tb, om)
      else if length front \<le> excess then
        trim_loop (excess - length front) rest (usat_sub tb (length front)) (usat_add om (length front))
      else (drop excess front # rest, usat_sub tb excess, usat_add om excess))"

definition trim_tail_to_budget :: "head_tail_buffer \<Rightarrow> head_tail_buffer" where
  "trim_tail_to_budget b =
     (case trim_loop (usat_sub (tail_bytes b) (tail_budget b)) (tail_chunks b) (tail_bytes b) (omitted_bytes b) of
        (tail, tb, om) \<Rightarrow> b\<lparr>tail_chunks := tail, tail_bytes := tb, omitted_bytes := om\<rparr>)"

definition push_to_tail :: "chunk \<Rightarrow> head_tail_buffer \<Rightarrow> head_tail_buffer" where
  "push_to_tail c b =
     (if tail_budget b = 0 then b\<lparr>omitted_bytes := usat_add (omitted_bytes b) (length c)\<rparr>
      else if tail_budget b \<le> length c then
        let kept = drop (usat_sub (length c) (tail_budget b)) c;
            dropped = usat_sub (length c) (length kept)
        in b\<lparr>omitted_bytes := usat_add (usat_add (omitted_bytes b) (tail_bytes b)) dropped,
             tail_bytes := length kept, tail_chunks := [kept]\<rparr>
      else trim_tail_to_budget
        (b\<lparr>tail_bytes := usat_add (tail_bytes b) (length c), tail_chunks := tail_chunks b @ [c]\<rparr>))"

definition push_chunk :: "chunk \<Rightarrow> head_tail_buffer \<Rightarrow> head_tail_buffer" where
  "push_chunk c b =
     (if max_bytes b = 0 then b\<lparr>omitted_bytes := usat_add (omitted_bytes b) (length c)\<rparr>
      else if head_bytes b < head_budget b then
        let remaining = usat_sub (head_budget b) (head_bytes b) in
        if length c \<le> remaining then
          b\<lparr>head_bytes := usat_add (head_bytes b) (length c), head_chunks := head_chunks b @ [c]\<rparr>
        else
          let head_part = take remaining c;
              b = (if head_part \<noteq> [] then b\<lparr>head_bytes := usat_add (head_bytes b) (length head_part),
                     head_chunks := head_chunks b @ [head_part]\<rparr> else b)
          in push_to_tail (drop remaining c) b
      else push_to_tail c b)"

definition snapshot_chunks :: "head_tail_buffer \<Rightarrow> chunk list" where
  "snapshot_chunks b = head_chunks b @ tail_chunks b"

definition to_bytes :: "head_tail_buffer \<Rightarrow> nat list" where
  "to_bytes b = concat (head_chunks b) @ concat (tail_chunks b)"

definition drain_chunks :: "head_tail_buffer \<Rightarrow> chunk list \<times> head_tail_buffer" where
  "drain_chunks b =
     (head_chunks b @ tail_chunks b,
      b\<lparr>head_chunks := [], tail_chunks := [], head_bytes := 0, tail_bytes := 0, omitted_bytes := 0\<rparr>)"

section \<open>The specification\<close>

text \<open>What is kept of an output: its first half budget, and the last bytes of the rest.\<close>

definition kept_tail :: "nat \<Rightarrow> 'a list \<Rightarrow> 'a list" where
  "kept_tail n xs = drop (length xs - n) xs"

definition buffers :: "head_tail_buffer \<Rightarrow> nat \<Rightarrow> nat list \<Rightarrow> bool" where
  "buffers b cap bytes \<longleftrightarrow>
     max_bytes b = cap \<and> head_budget b = cap div 2 \<and> tail_budget b = cap - cap div 2 \<and>
     concat (head_chunks b) = take (cap div 2) bytes \<and>
     concat (tail_chunks b) = kept_tail (cap - cap div 2) (drop (cap div 2) bytes) \<and>
     head_bytes b = length (concat (head_chunks b)) \<and> tail_bytes b = length (concat (tail_chunks b)) \<and>
     omitted_bytes b = length bytes - cap"

lemma kept_tail_append: "kept_tail n (kept_tail n xs @ ys) = kept_tail n (xs @ ys)"
  by (cases "n \<le> length xs") (auto simp: kept_tail_def add.commute)

lemma length_kept_tail [simp]: "length (kept_tail n xs) = min n (length xs)"
  by (auto simp: kept_tail_def)

lemma trim_loop_spec:
  assumes "excess \<le> length (concat cs)" "length (concat cs) \<le> tb" "om + excess \<le> USIZE_MAX"
  shows "\<exists>cs'. trim_loop excess cs tb om = (cs', tb - excess, om + excess) \<and> concat cs' = drop excess (concat cs)"
  using assms
proof (induction excess cs tb om rule: trim_loop.induct)
  case (2 excess front rest tb om)
  show ?case
  proof (cases "excess \<noteq> 0 \<and> length front \<le> excess")
    case True
    then have om: "usat_add om (length front) = om + length front" using 2(4) by (simp add: usat_add_def)
    have "\<exists>cs'. trim_loop (excess - length front) rest (tb - length front) (om + length front) =
        (cs', tb - length front - (excess - length front), om + length front + (excess - length front)) \<and>
        concat cs' = drop (excess - length front) (concat rest)"
      using 2(1) [unfolded om usat_sub_def] True 2(2-4) by simp
    then show ?thesis using True 2(4) by (auto simp: usat_sub_def om)
  next
    case False
    then show ?thesis using 2(4) by (auto simp: usat_sub_def usat_add_def)
  qed
qed auto

lemma push_to_tail_spec:
  assumes "tail_bytes b = length (concat (tail_chunks b))" "tail_bytes b \<le> tail_budget b"
    and "omitted_bytes b + tail_bytes b + length c \<le> USIZE_MAX" "tail_budget b \<le> USIZE_MAX"
  shows "\<exists>cs. concat cs = kept_tail (tail_budget b) (concat (tail_chunks b) @ c) \<and>
    push_to_tail c b = b\<lparr>tail_chunks := cs, tail_bytes := length (concat cs),
      omitted_bytes := omitted_bytes b + (tail_bytes b + length c - tail_budget b)\<rparr>"
proof -
  let ?t = "concat (tail_chunks b)"
  consider "tail_budget b = 0" | "tail_budget b \<noteq> 0" "tail_budget b \<le> length c" | "length c < tail_budget b" by linarith
  then show ?thesis
  proof cases
    case 1
    then have "?t = []" using assms(1,2) by simp
    then show ?thesis using 1 assms
      by (intro exI [of _ "tail_chunks b"]) (auto simp: push_to_tail_def kept_tail_def usat_add_def)
  next
    case 2
    let ?kept = "drop (length c - tail_budget b) c"
    have "?kept = kept_tail (tail_budget b) (?t @ c)" using 2 by (auto simp: kept_tail_def)
    moreover have "usat_add (usat_add (omitted_bytes b) (tail_bytes b)) (length c - tail_budget b) =
        omitted_bytes b + (tail_bytes b + length c - tail_budget b)"
      using 2 assms by (auto simp: usat_add_def)
    ultimately show ?thesis using 2
      by (intro exI [of _ "[?kept]"]) (auto simp: push_to_tail_def usat_sub_def Let_def)
  next
    case 3
    let ?cs = "tail_chunks b @ [c]" and ?tb = "tail_bytes b + length c"
    let ?ex = "?tb - tail_budget b"
    have tb: "usat_add (tail_bytes b) (length c) = ?tb" using assms by (auto simp: usat_add_def)
    obtain cs where cs: "trim_loop ?ex ?cs ?tb (omitted_bytes b) = (cs, ?tb - ?ex, omitted_bytes b + ?ex)"
      "concat cs = drop ?ex (concat ?cs)"
    proof -
      have "\<exists>cs. trim_loop ?ex ?cs ?tb (omitted_bytes b) = (cs, ?tb - ?ex, omitted_bytes b + ?ex) \<and> concat cs = drop ?ex (concat ?cs)"
        by (rule trim_loop_spec) (use assms in simp_all)
      then show thesis using that by blast
    qed
    then have k: "concat cs = kept_tail (tail_budget b) (?t @ c)" using assms(1) by (simp add: kept_tail_def)
    show ?thesis using 3 cs k assms(1)
      by (intro exI [of _ cs]) (auto simp: push_to_tail_def trim_tail_to_budget_def tb [unfolded assms(1)] usat_sub_def)
  qed
qed

lemma buffers_new: "buffers (new_buffer cap) cap []"
  by (auto simp: buffers_def new_buffer_def kept_tail_def usat_sub_def)

lemma buffers_push:
  assumes "buffers b cap bytes" "length bytes + length c \<le> USIZE_MAX" "cap \<le> USIZE_MAX"
  shows "buffers (push_chunk c b) cap (bytes @ c)"
proof -
  let ?h = "cap div 2" and ?T = "cap - cap div 2"
  note b = assms(1) [unfolded buffers_def]
  have om: "usat_add (omitted_bytes b) (length c) = length bytes - cap + length c" if "cap = 0"
    using b assms(2) that by (auto simp: usat_add_def)
  have tail: "buffers (push_to_tail d b') cap (bytes @ c)"
    if "b' = b\<lparr>head_chunks := hs, head_bytes := length (concat hs)\<rparr>" "concat hs = take ?h (bytes @ c)"
      "c = e @ d" "drop ?h bytes @ d = drop ?h (bytes @ c)" "e \<noteq> [] \<longrightarrow> length bytes < ?h" for b' hs d e
  proof -
    have l: "length (concat (tail_chunks b)) = min ?T (length bytes - ?h)" using b by simp
    have b': "tail_chunks b' = tail_chunks b" "tail_bytes b' = min ?T (length bytes - ?h)" "tail_budget b' = ?T"
      "omitted_bytes b' = length bytes - cap"
      using b that(1) l by simp_all
    have bounds: "length d \<le> length c" "length bytes + length c \<le> USIZE_MAX" using that(3) assms(2) by auto
    have "\<exists>cs. concat cs = kept_tail (tail_budget b') (concat (tail_chunks b') @ d) \<and>
      push_to_tail d b' = b'\<lparr>tail_chunks := cs, tail_bytes := length (concat cs),
        omitted_bytes := omitted_bytes b' + (tail_bytes b' + length d - tail_budget b')\<rparr>"
      by (rule push_to_tail_spec) (unfold b', use l bounds assms(3) in \<open>auto simp: min_def intro: le_trans [of _ cap]\<close>)
    then obtain cs where cs: "concat cs = kept_tail ?T (kept_tail ?T (drop ?h bytes) @ d)"
      "push_to_tail d b' = b'\<lparr>tail_chunks := cs, tail_bytes := length (concat cs),
        omitted_bytes := length bytes - cap + (min ?T (length bytes - ?h) + length d - ?T)\<rparr>"
      unfolding b' using b by metis
    have "length (drop ?h bytes @ d) = length (drop ?h (bytes @ c))" using that(4) by (rule arg_cong)
    then have d: "length bytes - ?h + length d = length bytes + length c - ?h" by (simp only: length_drop length_append)
    have "length bytes - cap + (min ?T (length bytes - ?h) + length d - ?T) = length bytes + length c - cap"
    proof (cases "cap = 0")
      case True
      then show ?thesis using d by simp
    next
      case False
      then have h: "?h < cap" by simp
      show ?thesis
      proof (cases "cap \<le> length bytes")
        case True
        then have "length d = length c" "min ?T (length bytes - ?h) = ?T" using d h by simp_all
        then show ?thesis using True by simp
      next
        case False
        then have "min ?T (length bytes - ?h) = length bytes - ?h" by simp
        then show ?thesis using False d h by simp
      qed
    qed
    then have om: "length bytes - cap + (min ?T (length bytes - ?h) + length d - ?T) = length (bytes @ c) - cap" by simp
    have k: "concat cs = kept_tail ?T (drop ?h (bytes @ c))"
      using cs(1) by (simp only: kept_tail_append that(4))
    have "max_bytes b' = cap" "head_budget b' = ?h" "head_chunks b' = hs" "head_bytes b' = length (concat hs)"
      using that(1) b by simp_all
    then show ?thesis
      unfolding cs(2) om using k that(2) b'(3) by (simp add: buffers_def del: drop_append take_append)
  qed
  have head: "head_bytes b = min ?h (length bytes)" using b by simp
  have budgets: "max_bytes b = cap" "head_budget b = ?h" "tail_budget b = ?T" using b by simp_all
  show ?thesis
  proof (cases "cap = 0")
    case True
    then show ?thesis using om b by (auto simp: push_chunk_def buffers_def kept_tail_def)
  next
    case False
    show ?thesis
    proof (cases "length bytes < ?h")
      case False2: False
      have "push_chunk c b = push_to_tail c b" using False False2 by (simp add: push_chunk_def budgets head)
      moreover have "buffers (push_to_tail c b) cap (bytes @ c)"
      proof (rule tail [of b "head_chunks b" "[]" c])
        show "b = b\<lparr>head_chunks := head_chunks b, head_bytes := length (concat (head_chunks b))\<rparr>"
          using b by (cases b) simp
        show "concat (head_chunks b) = take ?h (bytes @ c)" using b False2 by simp
      qed (use False2 in simp_all)
      ultimately show ?thesis by simp
    next
      case True
      let ?r = "?h - length bytes"
      have r: "usat_sub (head_budget b) (head_bytes b) = ?r" using b True by (simp add: usat_sub_def)
      show ?thesis
      proof (cases "length c \<le> ?r")
        case fits: True
        have hb: "head_bytes b = length bytes" "concat (head_chunks b) = bytes" "concat (tail_chunks b) = []" "tail_bytes b = 0"
          "omitted_bytes b = 0"
          using b True by (simp_all add: kept_tail_def)
        have "push_chunk c b = b\<lparr>head_bytes := length bytes + length c, head_chunks := head_chunks b @ [c]\<rparr>"
          using True False fits assms(2) by (simp add: push_chunk_def budgets hb usat_add_def usat_sub_def)
        moreover have "length bytes + length c \<le> ?h" "length bytes + length c \<le> cap" using fits True by linarith+
        ultimately show ?thesis by (simp add: buffers_def budgets hb kept_tail_def)
      next
        case split: False
        let ?b = "b\<lparr>head_bytes := length (concat (head_chunks b @ [take ?r c])), head_chunks := head_chunks b @ [take ?r c]\<rparr>"
        have hb: "head_bytes b = length bytes" "length (concat (head_chunks b)) = length bytes" using b True by simp_all
        have "take ?r c \<noteq> []" using True split by auto
        then have "push_chunk c b = push_to_tail (drop ?r c) ?b"
          using True False split hb assms(2) by (auto simp: push_chunk_def budgets usat_add_def usat_sub_def Let_def)
        moreover have "buffers (push_to_tail (drop ?r c) ?b) cap (bytes @ c)"
        proof (rule tail [of _ "head_chunks b @ [take ?r c]" "take ?r c"])
          show "?b = b\<lparr>head_chunks := head_chunks b @ [take ?r c], head_bytes := length (concat (head_chunks b @ [take ?r c]))\<rparr>"
            by (cases b) simp
          show "concat (head_chunks b @ [take ?r c]) = take ?h (bytes @ c)" using b True by simp
        qed (use True in simp_all)
        ultimately show ?thesis by simp
      qed
    qed
  qed
qed

definition push_chunks :: "chunk list \<Rightarrow> head_tail_buffer \<Rightarrow> head_tail_buffer" where
  "push_chunks cs b = fold push_chunk cs b"

lemma buffers_push_chunks:
  assumes "buffers b cap bytes" "length bytes + length (concat cs) \<le> USIZE_MAX" "cap \<le> USIZE_MAX"
  shows "buffers (push_chunks cs b) cap (bytes @ concat cs)"
  using assms
proof (induction cs arbitrary: b bytes)
  case (Cons c cs)
  then show ?case
    using Cons.IH [OF buffers_push [of b cap bytes c]] by (simp add: push_chunks_def)
qed (simp add: push_chunks_def)

text \<open>
  C40: however an output is cut into chunks, the buffer holds its first half budget and the last bytes of
  the rest, never more than its capacity, and counts exactly the bytes it dropped; it gives them all up when drained.
\<close>

theorem buffer_keeps_head_and_tail:
  assumes "length (concat cs) \<le> USIZE_MAX" "cap \<le> USIZE_MAX" "push_chunks cs (new_buffer cap) = b"
  shows "to_bytes b = take (cap div 2) (concat cs) @ kept_tail (cap - cap div 2) (drop (cap div 2) (concat cs)) \<and>
    concat (snapshot_chunks b) = to_bytes b \<and> retained_bytes b = min cap (length (concat cs)) \<and>
    retained_bytes b + omitted_bytes b = length (concat cs) \<and>
    concat (fst (drain_chunks b)) = to_bytes b \<and> buffers (snd (drain_chunks b)) cap []"
proof -
  have b: "buffers b cap (concat cs)"
    using buffers_push_chunks [OF buffers_new, of cs cap] assms by simp
  then have "retained_bytes b = min cap (length (concat cs))"
    using assms(2) by (auto simp: buffers_def retained_bytes_def usat_add_def)
  then show ?thesis using b
    by (auto simp: buffers_def to_bytes_def snapshot_chunks_def drain_chunks_def kept_tail_def)
qed

theorem buffer_keeps_head_and_tail_witness:
  "to_bytes (push_chunks [[1, 2, 3], [4], [5, 6, 7]] (new_buffer 4)) = [1, 2, 6, 7] \<and>
   omitted_bytes (push_chunks [[1, 2, 3], [4], [5, 6, 7]] (new_buffer 4)) = 3"
  using buffer_keeps_head_and_tail [of "[[1, 2, 3], [4], [5, 6, 7]]" 4, OF _ _ refl]
  by (simp add: USIZE_MAX_def kept_tail_def)

end
