(* ===== verification/Output_Truncation.thy ===== *)
theory Output_Truncation
  imports Utf8
begin

text \<open>
  Truncating the output of tools: \<^verbatim>\<open>codex-rs/utils/string/src/truncate.rs\<close> keeps the two ends of a text and
  replaces its middle by a marker, \<^verbatim>\<open>codex-rs/utils/output-truncation/src/lib.rs\<close> applies a policy in bytes or
  in approximate tokens (\<^verbatim>\<open>TruncationPolicy\<close> of \<^verbatim>\<open>codex-rs/protocol/src/protocol.rs\<close>) to a text and to the items
  of an output. Offsets are bytes of the UTF-8 form, as in the code; a slice off a character boundary panics.
\<close>

section \<open>Tokens and bytes\<close>

definition APPROX_BYTES_PER_TOKEN :: nat where
  "APPROX_BYTES_PER_TOKEN = 4"

definition approx_token_count :: "str \<Rightarrow> nat" where
  "approx_token_count s = usat_add (str_len s) (usat_sub APPROX_BYTES_PER_TOKEN 1) div APPROX_BYTES_PER_TOKEN"

definition approx_bytes_for_tokens :: "nat \<Rightarrow> nat" where
  "approx_bytes_for_tokens tokens = usat_mul tokens APPROX_BYTES_PER_TOKEN"

definition approx_tokens_from_byte_count :: "nat \<Rightarrow> nat" where
  "approx_tokens_from_byte_count n = min U64_MAX (n + usat_sub APPROX_BYTES_PER_TOKEN 1) div APPROX_BYTES_PER_TOKEN"

definition approx_tokens_from_byte_count_i64 :: "int \<Rightarrow> int" where
  "approx_tokens_from_byte_count_i64 n =
     (if n \<le> 0 then 0 else min I64_MAX (int (approx_tokens_from_byte_count (nat n))))"

section \<open>Cutting a string\<close>

text \<open>The two slices of a string at a byte offset.\<close>

fun split_at_byte :: "nat \<Rightarrow> str \<Rightarrow> (str \<times> str) option" where
  "split_at_byte n s =
     (if n = 0 then Some ([], s)
      else case s of
        [] \<Rightarrow> None
      | c # s' \<Rightarrow> if len_utf8 c \<le> n then map_option (\<lambda>(a, b). (c # a, b)) (split_at_byte (n - len_utf8 c) s') else None)"

declare split_at_byte.simps [simp del]

record split_marks =
  prefix_end :: nat
  suffix_start :: nat
  suffix_started :: bool
  removed_chars :: nat

primrec split_loop :: "nat \<Rightarrow> nat \<Rightarrow> str \<Rightarrow> nat \<Rightarrow> split_marks \<Rightarrow> split_marks" where
  "split_loop beginning tail_target [] idx m = m"
| "split_loop beginning tail_target (c # s) idx m =
     (let char_end = idx + len_utf8 c in
      split_loop beginning tail_target s char_end
        (if char_end \<le> beginning then m\<lparr>prefix_end := char_end\<rparr>
         else if tail_target \<le> idx then
           (if suffix_started m then m else m\<lparr>suffix_start := idx, suffix_started := True\<rparr>)
         else m\<lparr>removed_chars := usat_add (removed_chars m) 1\<rparr>))"

definition split_string :: "str \<Rightarrow> nat \<Rightarrow> nat \<Rightarrow> (nat \<times> str \<times> str) option" where
  "split_string s beginning end_bytes =
     (if s = [] then Some (0, [], [])
      else
        let m = split_loop beginning (usat_sub (str_len s) end_bytes) s 0
              \<lparr>prefix_end = 0, suffix_start = str_len s, suffix_started = False, removed_chars = 0\<rparr>;
            start = (if suffix_start m < prefix_end m then prefix_end m else suffix_start m)
        in (case (split_at_byte (prefix_end m) s, split_at_byte start s) of
              (Some (before, _), Some (_, after)) \<Rightarrow> Some (removed_chars m, before, after)
            | _ \<Rightarrow> None))"

definition split_budget :: "nat \<Rightarrow> nat \<times> nat" where
  "split_budget budget = (let left = budget div 2 in (left, budget - left))"

abbreviation ellipsis :: uchar where
  "ellipsis \<equiv> 0x2026"

definition format_truncation_marker :: "bool \<Rightarrow> nat \<Rightarrow> str" where
  "format_truncation_marker use_tokens n =
     [ellipsis] @ show_nat n @ lit (if use_tokens then '' tokens truncated'' else '' chars truncated'') @ [ellipsis]"

definition removed_units :: "bool \<Rightarrow> nat \<Rightarrow> nat \<Rightarrow> nat" where
  "removed_units use_tokens bytes chars = (if use_tokens then approx_tokens_from_byte_count bytes else min U64_MAX chars)"

definition assemble_truncated_output :: "str \<Rightarrow> str \<Rightarrow> str \<Rightarrow> str" where
  "assemble_truncated_output before after marker = before @ marker @ after"

definition truncate_with_byte_estimate :: "str \<Rightarrow> nat \<Rightarrow> bool \<Rightarrow> str option" where
  "truncate_with_byte_estimate s cap use_tokens =
     (if s = [] then Some []
      else if cap = 0 then Some (format_truncation_marker use_tokens (removed_units use_tokens (str_len s) (length s)))
      else if str_len s \<le> cap then Some s
      else
        let (left, right) = split_budget cap in
        map_option (\<lambda>(removed, before, after).
            assemble_truncated_output before after
              (format_truncation_marker use_tokens (removed_units use_tokens (usat_sub (str_len s) cap) removed)))
          (split_string s left right))"

definition truncate_middle_chars :: "str \<Rightarrow> nat \<Rightarrow> str option" where
  "truncate_middle_chars s cap = truncate_with_byte_estimate s cap False"

definition truncate_middle_with_token_budget :: "str \<Rightarrow> nat \<Rightarrow> (str \<times> nat option) option" where
  "truncate_middle_with_token_budget s tokens =
     (if s = [] then Some ([], None)
      else if 0 < tokens \<and> str_len s \<le> approx_bytes_for_tokens tokens then Some (s, None)
      else map_option (\<lambda>r. (r, if r = s then None else Some (approx_token_count s)))
             (truncate_with_byte_estimate s (approx_bytes_for_tokens tokens) True))"

section \<open>Policies\<close>

datatype truncation_policy = PolicyBytes nat | PolicyTokens nat

fun token_budget :: "truncation_policy \<Rightarrow> nat" where
  "token_budget (PolicyBytes n) = approx_tokens_from_byte_count n"
| "token_budget (PolicyTokens n) = n"

fun byte_budget :: "truncation_policy \<Rightarrow> nat" where
  "byte_budget (PolicyBytes n) = n"
| "byte_budget (PolicyTokens n) = approx_bytes_for_tokens n"

text \<open>
  The product of a limit with a double \<open>k / 2 ^ 52\<close>, rounded to 53 significant bits (ties to even) as the limit
  itself is, then rounded up to an integer; the conversion to \<^verbatim>\<open>usize\<close> saturates.
\<close>

fun bit_length :: "nat \<Rightarrow> nat" where
  "bit_length n = (if n = 0 then 0 else Suc (bit_length (n div 2)))"

declare bit_length.simps [simp del]

definition round_to_double :: "nat \<Rightarrow> nat" where
  "round_to_double n =
     (let unit = 2 ^ (bit_length n - 53); q = n div unit; r = n mod unit
      in (if 2 * r < unit \<or> 2 * r = unit \<and> even q then q else q + 1) * unit)"

definition scale_limit :: "nat \<Rightarrow> nat \<Rightarrow> nat" where
  "scale_limit k n = min USIZE_MAX ((round_to_double (round_to_double n * k) + (2 ^ 52 - 1)) div 2 ^ 52)"

fun policy_mul :: "truncation_policy \<Rightarrow> nat \<Rightarrow> truncation_policy" where
  "policy_mul (PolicyBytes n) k = PolicyBytes (scale_limit k n)"
| "policy_mul (PolicyTokens n) k = PolicyTokens (scale_limit k n)"

definition truncate_text :: "str \<Rightarrow> truncation_policy \<Rightarrow> str option" where
  "truncate_text content policy =
     (case policy of
        PolicyBytes n \<Rightarrow> truncate_middle_chars content n
      | PolicyTokens n \<Rightarrow> map_option fst (truncate_middle_with_token_budget content n))"

definition formatted_truncate_text :: "str \<Rightarrow> truncation_policy \<Rightarrow> str option" where
  "formatted_truncate_text content policy =
     (if str_len content \<le> byte_budget policy then Some content
      else map_option (\<lambda>r. lit ''Total output lines: '' @ show_nat (length (lines content)) @ [newline, newline] @ r)
             (truncate_text content policy))"

section \<open>The items of an output\<close>

datatype image_detail = DetailAuto | DetailLow | DetailHigh | DetailOriginal

datatype output_item =
  OutputItemText str
| OutputItemImage str "image_detail option"

definition combine_segments :: "str list \<Rightarrow> str" where
  "combine_segments segments = foldl (\<lambda>combined t. (if combined = [] then combined else combined @ [newline]) @ t) [] segments"

definition formatted_truncate_text_content_items_with_policy ::
  "output_item list \<Rightarrow> truncation_policy \<Rightarrow> (output_item list \<times> nat option) option" where
  "formatted_truncate_text_content_items_with_policy items policy =
     (let segments = List.map_filter (\<lambda>i. case i of OutputItemText t \<Rightarrow> Some t | _ \<Rightarrow> None) items in
      if segments = [] then Some (items, None)
      else
        let combined = combine_segments segments in
        if str_len combined \<le> byte_budget policy then Some (items, None)
        else map_option (\<lambda>r. (OutputItemText r # filter (\<lambda>i. case i of OutputItemImage _ _ \<Rightarrow> True | _ \<Rightarrow> False) items,
                 Some (approx_token_count combined)))
               (formatted_truncate_text combined policy))"

fun item_cost :: "truncation_policy \<Rightarrow> str \<Rightarrow> nat" where
  "item_cost (PolicyBytes _) t = str_len t"
| "item_cost (PolicyTokens _) t = approx_token_count t"

fun policy_limit :: "truncation_policy \<Rightarrow> nat" where
  "policy_limit (PolicyBytes n) = byte_budget (PolicyBytes n)"
| "policy_limit (PolicyTokens n) = token_budget (PolicyTokens n)"

fun with_limit :: "truncation_policy \<Rightarrow> nat \<Rightarrow> truncation_policy" where
  "with_limit (PolicyBytes _) n = PolicyBytes n"
| "with_limit (PolicyTokens _) n = PolicyTokens n"

text \<open>The loop over the items: the budget left, the texts omitted and what has been put out.\<close>

fun truncate_items :: "truncation_policy \<Rightarrow> output_item list \<Rightarrow> nat \<Rightarrow> nat \<Rightarrow> output_item list \<Rightarrow>
    (nat \<times> output_item list) option" where
  "truncate_items policy [] budget omitted outp = Some (omitted, outp)"
| "truncate_items policy (OutputItemText t # items) budget omitted outp =
     (if budget = 0 then truncate_items policy items budget (omitted + 1) outp
      else if item_cost policy t \<le> budget then
        truncate_items policy items (usat_sub budget (item_cost policy t)) omitted (outp @ [OutputItemText t])
      else case truncate_text t (with_limit policy budget) of
        None \<Rightarrow> None
      | Some snippet \<Rightarrow>
          if snippet = [] then truncate_items policy items 0 (omitted + 1) outp
          else truncate_items policy items 0 omitted (outp @ [OutputItemText snippet]))"
| "truncate_items policy (OutputItemImage url detail # items) budget omitted outp =
     truncate_items policy items budget omitted (outp @ [OutputItemImage url detail])"

definition truncate_function_output_items_with_policy ::
  "output_item list \<Rightarrow> truncation_policy \<Rightarrow> output_item list option" where
  "truncate_function_output_items_with_policy items policy =
     map_option (\<lambda>(omitted, outp).
         if 0 < omitted then outp @ [OutputItemText (lit ''[omitted '' @ show_nat omitted @ lit '' text items ...]'')] else outp)
       (truncate_items policy items (policy_limit policy) 0 [])"

section \<open>The two ends\<close>

text \<open>The longest prefix and the longest suffix within a number of bytes.\<close>

fun prefix_within :: "nat \<Rightarrow> str \<Rightarrow> str" where
  "prefix_within n [] = []"
| "prefix_within n (c # s) = (if len_utf8 c \<le> n then c # prefix_within (n - len_utf8 c) s else [])"

fun suffix_within :: "nat \<Rightarrow> str \<Rightarrow> str" where
  "suffix_within n [] = []"
| "suffix_within n (c # s) = (if str_len (c # s) \<le> n then c # s else suffix_within n s)"

lemma prefix_within_prefix: "\<exists>r. s = prefix_within n s @ r"
  by (induction s arbitrary: n) auto

lemma prefix_within_len: "str_len (prefix_within n s) \<le> n"
proof (induction s arbitrary: n)
  case (Cons c s)
  show ?case using Cons.IH [of "n - len_utf8 c"] by auto
qed simp

lemma prefix_within_longest: "str_len p \<le> n \<Longrightarrow> prefix p s \<Longrightarrow> prefix p (prefix_within n s)"
proof (induction s arbitrary: n p)
  case (Cons c s)
  then show ?case by (cases p) auto
qed simp

lemma suffix_within_suffix: "\<exists>l. s = l @ suffix_within n s"
proof (induction s)
  case (Cons c s)
  then show ?case by (cases "str_len (c # s) \<le> n") (auto intro: exI [of _ "[]"] exI [of _ "c # _"])
qed simp

lemma suffix_within_len: "str_len (suffix_within n s) \<le> n"
  by (induction s) auto

lemma suffix_within_longest: "str_len q \<le> n \<Longrightarrow> suffix q s \<Longrightarrow> suffix q (suffix_within n s)"
proof (induction s)
  case (Cons c s)
  then show ?case by (auto simp: suffix_Cons)
qed simp

lemma split_at_byte_append [simp]: "split_at_byte (str_len p) (p @ r) = Some (p, r)"
proof (induction p)
  case Nil
  then show ?case by (subst split_at_byte.simps) simp
next
  case (Cons c p)
  then show ?case by (subst split_at_byte.simps) (simp add: add_eq_0_iff_both_eq_0)
qed

lemma split_loop_prefix:
  assumes "prefix_end m = idx" "idx \<le> b" "prefix_within (b - idx) s @ r = s"
  shows "split_loop b t s idx m =
    split_loop b t r (idx + str_len (prefix_within (b - idx) s)) (m\<lparr>prefix_end := idx + str_len (prefix_within (b - idx) s)\<rparr>)"
  using assms
proof (induction s arbitrary: idx m)
  case Nil
  then show ?case by (cases m) simp
next
  case (Cons c s)
  show ?case
  proof (cases "idx + len_utf8 c \<le> b")
    case True
    then have c: "prefix_within (b - idx) (c # s) = c # prefix_within (b - (idx + len_utf8 c)) s" by (auto simp: le_diff_conv2 add.commute)
    with Cons.prems(3) have "prefix_within (b - (idx + len_utf8 c)) s @ r = s" by simp
    from Cons.IH [OF _ True this, of "m\<lparr>prefix_end := idx + len_utf8 c\<rparr>"] True show ?thesis
      unfolding c by (simp add: Let_def add.assoc)
  next
    case False
    then have "prefix_within (b - idx) (c # s) = []" using Cons.prems(2) by auto
    with Cons.prems show ?thesis by (cases m) simp
  qed
qed

lemma split_loop_started: "suffix_started m \<Longrightarrow> b < idx + len_utf8 (hd s) \<Longrightarrow> t \<le> idx \<Longrightarrow> split_loop b t s idx m = m"
  by (induction s arbitrary: idx) (auto simp: Let_def)

lemma split_loop_rest:
  assumes "\<not> suffix_started m" "s = [] \<or> b < idx + len_utf8 (hd s)" "suffix_start m = idx + str_len s"
  shows "\<exists>b'. split_loop b (idx + str_len s - e) s idx m =
    m\<lparr>suffix_start := idx + str_len s - str_len (suffix_within e s), suffix_started := b',
      removed_chars := (if s = suffix_within e s then removed_chars m
        else min USIZE_MAX (removed_chars m + (length s - length (suffix_within e s))))\<rparr>"
  using assms
proof (induction s arbitrary: idx m)
  case Nil
  then show ?case by (cases m) auto
next
  case (Cons c s)
  have "\<exists>l. s = l @ suffix_within e s" by (rule suffix_within_suffix)
  then have le: "length (suffix_within e s) \<le> length s" "str_len (suffix_within e s) \<le> str_len s"
    by (metis length_append le_add2, metis str_len_append le_add2)
  have long: "c # s \<noteq> suffix_within e s" using le(1) by (metis impossible_Cons)
  show ?case
  proof (cases "str_len (c # s) \<le> e")
    case True
    then have "split_loop b (idx + str_len (c # s) - e) (c # s) idx m =
        split_loop b (idx + str_len (c # s) - e) s (idx + len_utf8 c) (m\<lparr>suffix_start := idx, suffix_started := True\<rparr>)"
      using Cons.prems by (simp add: Let_def)
    also have "\<dots> = m\<lparr>suffix_start := idx, suffix_started := True\<rparr>"
      using Cons.prems True by (intro split_loop_started) (auto intro: trans_less_add1 trans_less_add2)
    finally show ?thesis using True by (cases m) auto
  next
    case False
    let ?m = "m\<lparr>removed_chars := usat_add (removed_chars m) 1\<rparr>"
    have "split_loop b (idx + str_len (c # s) - e) (c # s) idx m =
        split_loop b (idx + len_utf8 c + str_len s - e) s (idx + len_utf8 c) ?m"
      using False Cons.prems by (simp add: Let_def add.assoc)
    moreover have "s = [] \<or> b < idx + len_utf8 c + len_utf8 (hd s)" using Cons.prems by auto
    ultimately show ?thesis
      using Cons.IH [of ?m "idx + len_utf8 c"] Cons.prems False le long
      by (auto simp: add.assoc usat_add_def Suc_diff_le min_def)
  qed
qed

lemma suffix_within_append: "n < str_len r \<Longrightarrow> suffix_within n (p @ r) = suffix_within n r"
  by (induction p) auto

lemma prefix_within_stops: "s = prefix_within n s @ r \<Longrightarrow> r = [] \<or> n < str_len (prefix_within n s) + len_utf8 (hd r)"
  by (induction s arbitrary: n) (fastforce split: if_splits)+

text \<open>The loop finds the two ends, and counts what lies between them.\<close>

lemma split_string_ends:
  assumes "b + e < str_len s" "str_len s \<le> USIZE_MAX"
  shows "\<exists>mid. s = prefix_within b s @ mid @ suffix_within e s \<and> mid \<noteq> [] \<and>
    split_string s b e = Some (length mid, prefix_within b s, suffix_within e s)"
proof -
  obtain r where r: "s = prefix_within b s @ r" using prefix_within_prefix by metis
  have "str_len s = str_len (prefix_within b s) + str_len r" by (metis r str_len_append)
  then have long: "e < str_len r" using assms(1) prefix_within_len [of b s] by simp
  have q: "suffix_within e s = suffix_within e r" by (metis r suffix_within_append [OF long])
  obtain mid where mid: "r = mid @ suffix_within e r" using suffix_within_suffix by metis
  have ne: "mid \<noteq> []" using mid long suffix_within_len [of e r] by (metis append_Nil not_less)
  have len: "length mid \<le> USIZE_MAX"
  proof -
    have "length x \<le> str_len x" for x
    proof (induction x)
      case (Cons c x)
      then show ?case using len_utf8_pos [of c] by (simp add: Suc_le_eq del: len_utf8_pos)
    qed simp
    moreover have "length mid \<le> length s" by (metis r mid length_append le_add1 le_add2 order_trans)
    ultimately show ?thesis using assms(2) by (meson order_trans)
  qed
  let ?m = "\<lparr>prefix_end = 0, suffix_start = str_len s, suffix_started = False, removed_chars = 0\<rparr>"
  let ?n = "str_len (prefix_within b s)"
  have sl: "str_len s = ?n + str_len r" by (rule \<open>str_len s = ?n + str_len r\<close>)
  have "r \<noteq> suffix_within e r" using mid ne by (metis append_self_conv2)
  then obtain b' where "split_loop b (?n + str_len r - e) r ?n (?m\<lparr>prefix_end := ?n\<rparr>) =
      \<lparr>prefix_end = ?n, suffix_start = ?n + str_len r - str_len (suffix_within e r), suffix_started = b',
        removed_chars = min USIZE_MAX (length r - length (suffix_within e r))\<rparr>"
    using split_loop_rest [of "?m\<lparr>prefix_end := ?n\<rparr>" r b ?n e] prefix_within_stops [OF r] sl by auto
  moreover have "length r - length (suffix_within e r) = length mid" "str_len r = str_len mid + str_len (suffix_within e r)"
    using mid by (metis length_append add_diff_cancel_right', metis str_len_append)
  ultimately have loop: "split_loop b (str_len s - e) s 0 ?m =
      \<lparr>prefix_end = ?n, suffix_start = str_len (prefix_within b s @ mid), suffix_started = b', removed_chars = length mid\<rparr>"
    using split_loop_prefix [of ?m 0 b s r] r [symmetric] len sl by (simp add: min_absorb2)
  have s: "s = prefix_within b s @ mid @ suffix_within e s" using r mid q by simp
  have "split_at_byte (str_len (prefix_within b s @ mid)) s = Some (prefix_within b s @ mid, suffix_within e s)"
    using split_at_byte_append [of "prefix_within b s @ mid" "suffix_within e s"] s by simp
  moreover have "split_at_byte ?n s = Some (prefix_within b s, r)"
    using split_at_byte_append [of "prefix_within b s" r] r by simp
  moreover have "s \<noteq> []" using assms(1) by auto
  ultimately show ?thesis using s ne by (auto simp: split_string_def Let_def loop usat_sub_def)
qed


lemma within_0: "prefix_within 0 s = []" "suffix_within 0 s = []"
  using len_utf8_pos by (induction s) (auto simp: not_le)

lemma truncate_with_byte_estimate_ends:
  assumes "cap < str_len s" "str_len s \<le> USIZE_MAX" "split_budget cap = (b, e)"
  shows "\<exists>mid. s = prefix_within b s @ mid @ suffix_within e s \<and> mid \<noteq> [] \<and> length mid \<le> str_len s \<and>
    truncate_with_byte_estimate s cap use_tokens = Some (prefix_within b s @
      format_truncation_marker use_tokens (removed_units use_tokens (str_len s - cap) (length mid)) @ suffix_within e s)"
proof -
  have "b + e = cap" using assms(3) by (auto simp: split_budget_def Let_def)
  with split_string_ends [of b e s] assms(1,2) obtain mid where mid: "s = prefix_within b s @ mid @ suffix_within e s" "mid \<noteq> []"
    "split_string s b e = Some (length mid, prefix_within b s, suffix_within e s)" by auto
  have len: "length x \<le> str_len x" for x
  proof (induction x)
    case (Cons c x)
    then show ?case using len_utf8_pos [of c] by (simp add: Suc_le_eq del: len_utf8_pos)
  qed simp
  have "length mid \<le> str_len s" using len [of s] by (subst (asm) mid(1)) simp
  moreover have "s \<noteq> []" using assms(1) by auto
  moreover have "mid = s" if "cap = 0"
    using that assms(3) mid(1) by (simp add: split_budget_def Let_def within_0)
  ultimately show ?thesis
    using mid assms
    by (intro exI [of _ mid])
      (auto simp: truncate_with_byte_estimate_def assemble_truncated_output_def usat_sub_def split_budget_def Let_def within_0)
qed

lemma len_utf8_nonzero [simp]: "len_utf8 c \<noteq> 0"
  by (simp add: len_utf8_def)

lemma truncate_text_short:
  assumes "str_len s \<le> byte_budget policy"
  shows "truncate_text s policy = Some s"
proof (cases s)
  case Nil
  then show ?thesis
    by (cases policy) (simp_all add: truncate_text_def truncate_middle_chars_def truncate_with_byte_estimate_def
        truncate_middle_with_token_budget_def)
next
  case (Cons c s')
  then have "0 < str_len s" by simp
  then show ?thesis
    using assms Cons
    by (cases policy) (auto simp: truncate_text_def truncate_middle_chars_def truncate_with_byte_estimate_def
        truncate_middle_with_token_budget_def approx_bytes_for_tokens_def usat_mul_def)
qed

lemma truncate_text_ends:
  assumes "byte_budget policy < str_len s" "str_len s \<le> USIZE_MAX" "split_budget (byte_budget policy) = (b, e)"
    and "use_tokens = (case policy of PolicyTokens _ \<Rightarrow> True | _ \<Rightarrow> False)"
  shows "\<exists>mid. s = prefix_within b s @ mid @ suffix_within e s \<and> mid \<noteq> [] \<and> length mid \<le> str_len s \<and>
    truncate_text s policy = Some (prefix_within b s @
      format_truncation_marker use_tokens (removed_units use_tokens (str_len s - byte_budget policy) (length mid)) @ suffix_within e s)"
  using truncate_with_byte_estimate_ends [OF assms(1-3), of use_tokens] assms
  by (cases policy) (auto simp: truncate_text_def truncate_middle_chars_def truncate_middle_with_token_budget_def)

text \<open>
  C14: a text over the budget keeps the longest prefix of whole characters within half the bytes of the budget and the
  longest suffix within the rest, with a marker between them that counts what is missing; a text within the
  budget is kept as it is, and no slice is taken off a character boundary.
\<close>

theorem truncated_text_keeps_ends:
  assumes "str_len s \<le> USIZE_MAX" "split_budget (byte_budget policy) = (b, e)"
    and "use_tokens = (case policy of PolicyTokens _ \<Rightarrow> True | _ \<Rightarrow> False)"
  shows "if str_len s \<le> byte_budget policy then truncate_text s policy = Some s
    else \<exists>before mid after. s = before @ mid @ after \<and> mid \<noteq> [] \<and>
      str_len before \<le> b \<and> (\<forall>p. prefix p s \<and> str_len p \<le> b \<longrightarrow> prefix p before) \<and>
      str_len after \<le> e \<and> (\<forall>q. suffix q s \<and> str_len q \<le> e \<longrightarrow> suffix q after) \<and>
      truncate_text s policy = Some (before @
        format_truncation_marker use_tokens (removed_units use_tokens (str_len s - byte_budget policy) (length mid)) @ after)"
proof (cases "str_len s \<le> byte_budget policy")
  case True
  then show ?thesis using truncate_text_short by simp
next
  case False
  then show ?thesis
    using truncate_text_ends [OF _ assms] prefix_within_len suffix_within_len prefix_within_longest suffix_within_longest
    by (smt (verit) not_le)
qed

theorem truncated_text_keeps_ends_witness:
  "truncate_text [97, 0x1F600, 98] (PolicyBytes 3) =
     Some ([97] @ format_truncation_marker False 1 @ [98])"
proof -
  let ?s = "[97, 0x1F600, 98] :: str"
  have over: "\<not> str_len ?s \<le> byte_budget (PolicyBytes 3)" and "str_len ?s \<le> USIZE_MAX"
    and "split_budget (byte_budget (PolicyBytes 3)) = (1, 2)"
    by (simp_all add: split_budget_def len_utf8_def USIZE_MAX_def)
  then have "\<exists>before mid after. ?s = before @ mid @ after \<and> mid \<noteq> [] \<and>
      str_len before \<le> 1 \<and> (\<forall>p. prefix p ?s \<and> str_len p \<le> 1 \<longrightarrow> prefix p before) \<and>
      str_len after \<le> 2 \<and> (\<forall>q. suffix q ?s \<and> str_len q \<le> 2 \<longrightarrow> suffix q after) \<and>
      truncate_text ?s (PolicyBytes 3) = Some (before @
        format_truncation_marker False (removed_units False (str_len ?s - byte_budget (PolicyBytes 3)) (length mid)) @ after)"
    using truncated_text_keeps_ends [of ?s "PolicyBytes 3" 1 2 False, unfolded if_not_P [OF over]] by simp
  then obtain before mid after where split: "?s = before @ mid @ after"
      "str_len before \<le> 1" "str_len after \<le> 2" "prefix [97] ?s \<and> str_len [97] \<le> 1 \<longrightarrow> prefix [97] before"
      "suffix [98] ?s \<and> str_len [98] \<le> 2 \<longrightarrow> suffix [98] after" "truncate_text ?s (PolicyBytes 3) =
        Some (before @ format_truncation_marker False (removed_units False (str_len ?s - byte_budget (PolicyBytes 3)) (length mid)) @ after)"
    by blast
  have "suffix [98] ?s" by (simp add: suffix_def)
  with split(4,5) obtain x y where "before = 97 # x" "after = y @ [98]" by (auto simp: prefix_def suffix_def len_utf8_def)
  with split(1-3) have "before = [97]" "mid = [0x1F600]" "after = [98]"
    by (cases x; cases mid; cases y; auto simp: len_utf8_def)+
  then show ?thesis using split(6) by (simp add: U64_MAX_def removed_units_def)
qed

section \<open>The bound on an output\<close>

definition is_image :: "output_item \<Rightarrow> bool" where
  "is_image i = (case i of OutputItemImage _ _ \<Rightarrow> True | _ \<Rightarrow> False)"

definition text_bytes :: "output_item list \<Rightarrow> nat" where
  "text_bytes items = sum_list (map (\<lambda>i. case i of OutputItemText t \<Rightarrow> str_len t | _ \<Rightarrow> 0) items)"

definition policy_bytes :: "truncation_policy \<Rightarrow> nat" where
  "policy_bytes policy = (case policy of PolicyBytes n \<Rightarrow> n | PolicyTokens n \<Rightarrow> 4 * n)"

lemma text_bytes_simps [simp]:
  "text_bytes [] = 0" "text_bytes (OutputItemText t # items) = str_len t + text_bytes items"
  "text_bytes (OutputItemImage u d # items) = text_bytes items" "text_bytes (xs @ ys) = text_bytes xs + text_bytes ys"
  by (simp_all add: text_bytes_def)

lemma is_image_simps [simp]: "\<not> is_image (OutputItemText t)" "is_image (OutputItemImage u d)"
  by (simp_all add: is_image_def)

lemma show_nat_bound: "n < 10 ^ k \<Longrightarrow> 0 < k \<Longrightarrow> str_len (show_nat n) \<le> k"
proof (induction n arbitrary: k rule: show_nat.induct)
  case (1 n)
  show ?case
  proof (cases "n < 10")
    case True
    then show ?thesis using 1 by (subst show_nat.simps) (simp add: len_utf8_def)
  next
    case False
    then obtain k' where k: "k = Suc k'" "0 < k'" using 1(2) by (cases k; cases "k - 1") auto
    then have "n div 10 < 10 ^ k'" using 1(2) by (simp add: less_mult_imp_div_less mult.commute)
    with 1(1) False k have "str_len (show_nat (n div 10)) \<le> k'" by simp
    moreover have "48 + n mod 10 < 128" by simp
    ultimately show ?thesis using False k by (subst show_nat.simps) (simp add: len_utf8_def)
  qed
qed

lemma marker_bound: "n \<le> U64_MAX \<Longrightarrow> str_len (format_truncation_marker use_tokens n) \<le> 43"
  using show_nat_bound [of n 20]
  by (cases use_tokens) (simp_all add: format_truncation_marker_def U64_MAX_def lit_def uc_def len_utf8_def)

lemma removed_units_bound: "removed_units use_tokens x y \<le> U64_MAX"
  by (auto simp: removed_units_def approx_tokens_from_byte_count_def intro: order_trans [OF div_le_dividend])

lemma byte_budget_bound: "byte_budget policy \<le> policy_bytes policy"
  by (cases policy) (simp_all add: policy_bytes_def approx_bytes_for_tokens_def usat_mul_def APPROX_BYTES_PER_TOKEN_def)

lemma truncate_text_bound:
  assumes "str_len s \<le> USIZE_MAX"
  shows "\<exists>r. truncate_text s policy = Some r \<and> str_len r \<le> policy_bytes policy + 43"
proof (cases "str_len s \<le> byte_budget policy")
  case True
  then show ?thesis using truncate_text_short byte_budget_bound [of policy] by fastforce
next
  case False
  obtain b e where be: "split_budget (byte_budget policy) = (b, e)" by (cases "split_budget (byte_budget policy)")
  then have "b + e = byte_budget policy" by (auto simp: split_budget_def Let_def)
  then have "str_len (prefix_within b s) + str_len (suffix_within e s) \<le> policy_bytes policy"
    using prefix_within_len [of b s] suffix_within_len [of e s] byte_budget_bound [of policy] by simp
  moreover obtain use_tokens n where "n \<le> U64_MAX" "truncate_text s policy =
      Some (prefix_within b s @ format_truncation_marker use_tokens n @ suffix_within e s)"
    using truncate_text_ends [OF _ assms be refl] False removed_units_bound by (metis not_le)
  ultimately show ?thesis using marker_bound [of n use_tokens] by simp
qed

text \<open>What a text within the limit costs, in bytes.\<close>

lemma item_cost_bytes: "str_len t \<le> nat I64_MAX \<Longrightarrow> str_len t \<le> policy_bytes (with_limit policy (item_cost policy t))"
  by (cases policy)
    (auto simp: policy_bytes_def approx_token_count_def usat_add_def usat_sub_def APPROX_BYTES_PER_TOKEN_def min_def
      USIZE_MAX_def I64_MAX_def)

lemma policy_bytes_with_limit:
  "policy_bytes (with_limit policy m) + policy_bytes (with_limit policy (n - m)) = policy_bytes (with_limit policy n)" if "m \<le> n"
  using that by (cases policy) (auto simp: policy_bytes_def)

lemma truncate_items_bound:
  assumes "\<forall>t. OutputItemText t \<in> set items \<longrightarrow> str_len t \<le> nat I64_MAX"
  shows "\<exists>om' outp'. truncate_items policy items budget om outp = Some (om', outp') \<and> om' \<le> om + length items \<and>
    filter is_image outp' = filter is_image outp @ filter is_image items \<and>
    text_bytes outp' \<le> text_bytes outp + (if budget = 0 then 0 else policy_bytes (with_limit policy budget) + 43)"
  using assms
proof (induction items arbitrary: budget om outp)
  case (Cons i items)
  have IH: "\<exists>om' outp'. truncate_items policy items budget om outp = Some (om', outp') \<and> om' \<le> om + length items \<and>
    filter is_image outp' = filter is_image outp @ filter is_image items \<and>
    text_bytes outp' \<le> text_bytes outp + (if budget = 0 then 0 else policy_bytes (with_limit policy budget) + 43)" for budget om outp
    using Cons by auto
  show ?case
  proof (cases i)
    case (OutputItemImage url detail)
    then show ?thesis using IH [of budget om "outp @ [i]"] by auto
  next
    case (OutputItemText t)
    then have t: "str_len t \<le> nat I64_MAX" using Cons.prems by simp
    then have "str_len t \<le> USIZE_MAX" by (simp add: I64_MAX_def USIZE_MAX_def)
    then obtain r where r: "truncate_text t (with_limit policy budget) = Some r" "str_len r \<le> policy_bytes (with_limit policy budget) + 43"
      using truncate_text_bound by blast
    consider "budget = 0" | "0 < budget" "item_cost policy t \<le> budget" | "0 < budget" "\<not> item_cost policy t \<le> budget" "r = []"
      | "0 < budget" "\<not> item_cost policy t \<le> budget" "r \<noteq> []" by blast
    then show ?thesis
    proof cases
      case 1
      then show ?thesis using IH [of 0 "om + 1" outp] OutputItemText by auto
    next
      case 2
      then show ?thesis
        using IH [of "budget - item_cost policy t" om "outp @ [i]"] OutputItemText item_cost_bytes [OF t, of policy]
          policy_bytes_with_limit [OF 2(2), of policy]
        by (auto simp: usat_sub_def split: if_splits)
    next
      case 3
      then show ?thesis using IH [of 0 "om + 1" outp] OutputItemText r(1) by auto
    next
      case 4
      then show ?thesis using IH [of 0 om "outp @ [OutputItemText r]"] OutputItemText r by auto
    qed
  qed
qed simp

text \<open>
  Truncating an output never panics, keeps every image in its place among the images, and leaves texts of at most the
  bytes of the policy and 88 more for the markers, whatever the output.
\<close>

lemma truncated_output_bounded:
  assumes "\<forall>t. OutputItemText t \<in> set items \<longrightarrow> str_len t \<le> nat I64_MAX" "length items \<le> USIZE_MAX"
  shows "\<exists>outp. truncate_function_output_items_with_policy items policy = Some outp \<and>
    filter is_image outp = filter is_image items \<and> text_bytes outp \<le> policy_bytes policy + 88"
proof -
  obtain om outp where r: "truncate_items policy items (policy_limit policy) 0 [] = Some (om, outp)" "om \<le> length items"
    "filter is_image outp = filter is_image items"
    "text_bytes outp \<le> (if policy_limit policy = 0 then 0 else policy_bytes (with_limit policy (policy_limit policy)) + 43)"
    using truncate_items_bound [OF assms(1), of policy "policy_limit policy" 0 "[]"] by auto
  have "with_limit policy (policy_limit policy) = policy" by (cases policy) simp_all
  with r(4) have "text_bytes outp \<le> policy_bytes policy + 43" by (auto split: if_splits)
  moreover have "om < 10 ^ 20" using r(2) assms(2) by (simp add: USIZE_MAX_def)
  then have "str_len (show_nat om) \<le> 20" by (rule show_nat_bound) simp
  then have "str_len (lit ''[omitted '' @ show_nat om @ lit '' text items ...]'') \<le> 45"
    by (simp add: lit_def uc_def len_utf8_def)
  ultimately show ?thesis
    using r(1,3) by (auto simp: truncate_function_output_items_with_policy_def)
qed

end
