(* ===== verification/Context_History.thy ===== *)
theory Context_History
  imports Output_Truncation
begin

text \<open>
  The conversation that is sent to the model: \<^verbatim>\<open>ContextManager\<close> of \<^verbatim>\<open>codex-rs/core/src/context_manager/history.rs\<close>
  with the normalisation of \<^verbatim>\<open>normalize.rs\<close>, over the items of \<^verbatim>\<open>codex-rs/protocol/src/models.rs\<close>. A prompt pairs
  every call with an output and every output with a call; removing an item removes its counterpart; a rollback
  cuts the history at the boundary of a turn. JSON values are a type parameter, as is the settings baseline.
\<close>

section \<open>Items\<close>

datatype content_item =
  InputText str
| InputImage str "image_detail option"
| OutputText str

datatype output_body =
  BodyText str
| BodyItems "output_item list"

record output_payload =
  payload_body :: output_body
  payload_success :: "bool option"

definition payload_from_text :: "str \<Rightarrow> output_payload" where
  "payload_from_text content = \<lparr>payload_body = BodyText content, payload_success = None\<rparr>"

datatype message_phase = Commentary | FinalAnswer

datatype reasoning_summary = SummaryText str

datatype reasoning_content = ReasoningText str | PlainReasoning str

datatype local_shell_status = ShellCompleted | ShellInProgress | ShellIncomplete

record local_shell_exec_action =
  shell_command :: "str list"
  shell_timeout_ms :: "nat option"
  shell_working_directory :: "str option"
  shell_env :: "(str \<rightharpoonup> str) option"
  shell_user :: "str option"

datatype web_search_action =
  WebSearch "str option" "str list option"
| OpenPage "str option"
| FindInPage "str option" "str option"
| OtherSearch

datatype 'j response_item =
  Message "str option" str "content_item list" "message_phase option"
| Reasoning str "reasoning_summary list" "reasoning_content list option" "str option"
| LocalShellCall "str option" "str option" local_shell_status local_shell_exec_action
| FunctionCall "str option" str "str option" str str
| ToolSearchCall "str option" "str option" "str option" str 'j
| FunctionCallOutput str output_payload
| CustomToolCall "str option" "str option" str str str
| CustomToolCallOutput str "str option" output_payload
| ToolSearchOutput "str option" str str "'j list"
| WebSearchCall "str option" "str option" "web_search_action option"
| ImageGenerationCall str str "str option" str
| Compaction str
| OtherItem

section \<open>Normalisation\<close>

text \<open>In a debug build an inconsistency panics, in a release build it is only logged.\<close>

definition error_or_panic :: "bool \<Rightarrow> unit option" where
  "error_or_panic debug = (if debug then None else Some ())"

text \<open>The output that is missing for an item, and whether its absence is an error.\<close>

fun missing_output :: "'j response_item list \<Rightarrow> 'j response_item \<Rightarrow> ('j response_item \<times> bool) option" where
  "missing_output items (FunctionCall _ _ _ _ call_id) =
     (if list_ex (\<lambda>i. case i of FunctionCallOutput existing _ \<Rightarrow> existing = call_id | _ \<Rightarrow> False) items then None
      else Some (FunctionCallOutput call_id (payload_from_text (lit ''aborted'')), False))"
| "missing_output items (ToolSearchCall _ (Some call_id) _ _ _) =
     (if list_ex (\<lambda>i. case i of ToolSearchOutput (Some existing) _ _ _ \<Rightarrow> existing = call_id | _ \<Rightarrow> False) items then None
      else Some (ToolSearchOutput (Some call_id) (lit ''completed'') (lit ''client'') [], False))"
| "missing_output items (CustomToolCall _ _ call_id _ _) =
     (if list_ex (\<lambda>i. case i of CustomToolCallOutput existing _ _ \<Rightarrow> existing = call_id | _ \<Rightarrow> False) items then None
      else Some (CustomToolCallOutput call_id None (payload_from_text (lit ''aborted'')), True))"
| "missing_output items (LocalShellCall _ (Some call_id) _ _) =
     (if list_ex (\<lambda>i. case i of FunctionCallOutput existing _ \<Rightarrow> existing = call_id | _ \<Rightarrow> False) items then None
      else Some (FunctionCallOutput call_id (payload_from_text (lit ''aborted'')), True))"
| "missing_output items item = None"

primrec missing_outputs :: "bool \<Rightarrow> 'j response_item list \<Rightarrow> nat \<Rightarrow> 'j response_item list \<Rightarrow>
    (nat \<times> 'j response_item) list option" where
  "missing_outputs debug items idx [] = Some []"
| "missing_outputs debug items idx (item # items_left) =
     (case missing_output items item of
        None \<Rightarrow> missing_outputs debug items (idx + 1) items_left
      | Some (outp, serious) \<Rightarrow>
          (case (if serious then error_or_panic debug else Some ()) of
             None \<Rightarrow> None
           | Some _ \<Rightarrow> map_option ((#) (idx, outp)) (missing_outputs debug items (idx + 1) items_left)))"

definition insert_at :: "nat \<Rightarrow> 'a \<Rightarrow> 'a list \<Rightarrow> 'a list" where
  "insert_at n x xs = take n xs @ x # drop n xs"

definition ensure_call_outputs_present :: "bool \<Rightarrow> 'j response_item list \<Rightarrow> 'j response_item list option" where
  "ensure_call_outputs_present debug items =
     map_option (\<lambda>missing. foldl (\<lambda>items (idx, outp). insert_at (idx + 1) outp items) items (rev missing))
       (missing_outputs debug items 0 items)"

definition function_call_ids :: "'j response_item list \<Rightarrow> str list" where
  "function_call_ids = List.map_filter (\<lambda>i. case i of FunctionCall _ _ _ _ call_id \<Rightarrow> Some call_id | _ \<Rightarrow> None)"

definition tool_search_call_ids :: "'j response_item list \<Rightarrow> str list" where
  "tool_search_call_ids = List.map_filter (\<lambda>i. case i of ToolSearchCall _ (Some call_id) _ _ _ \<Rightarrow> Some call_id | _ \<Rightarrow> None)"

definition local_shell_call_ids :: "'j response_item list \<Rightarrow> str list" where
  "local_shell_call_ids = List.map_filter (\<lambda>i. case i of LocalShellCall _ (Some call_id) _ _ \<Rightarrow> Some call_id | _ \<Rightarrow> None)"

definition custom_tool_call_ids :: "'j response_item list \<Rightarrow> str list" where
  "custom_tool_call_ids = List.map_filter (\<lambda>i. case i of CustomToolCall _ _ call_id _ _ \<Rightarrow> Some call_id | _ \<Rightarrow> None)"

fun has_call :: "'j response_item list \<Rightarrow> 'j response_item \<Rightarrow> bool" where
  "has_call items (FunctionCallOutput call_id _) \<longleftrightarrow>
     call_id \<in> set (function_call_ids items) \<or> call_id \<in> set (local_shell_call_ids items)"
| "has_call items (CustomToolCallOutput call_id _ _) \<longleftrightarrow> call_id \<in> set (custom_tool_call_ids items)"
| "has_call items (ToolSearchOutput call_id _ execution _) \<longleftrightarrow>
     (if execution = lit ''server'' then True
      else case call_id of Some cid \<Rightarrow> cid \<in> set (tool_search_call_ids items) | None \<Rightarrow> True)"
| "has_call items item \<longleftrightarrow> True"

primrec retain_with_call :: "bool \<Rightarrow> 'j response_item list \<Rightarrow> 'j response_item list \<Rightarrow> 'j response_item list option" where
  "retain_with_call debug items [] = Some []"
| "retain_with_call debug items (item # items_left) =
     (if has_call items item then map_option ((#) item) (retain_with_call debug items items_left)
      else case error_or_panic debug of None \<Rightarrow> None | Some _ \<Rightarrow> retain_with_call debug items items_left)"

definition remove_orphan_outputs :: "bool \<Rightarrow> 'j response_item list \<Rightarrow> 'j response_item list option" where
  "remove_orphan_outputs debug items = retain_with_call debug items items"

fun remove_first_matching :: "('a \<Rightarrow> bool) \<Rightarrow> 'a list \<Rightarrow> 'a list" where
  "remove_first_matching p [] = []"
| "remove_first_matching p (x # xs) = (if p x then xs else x # remove_first_matching p xs)"

fun remove_corresponding_for :: "'j response_item \<Rightarrow> 'j response_item list \<Rightarrow> 'j response_item list" where
  "remove_corresponding_for (FunctionCall _ _ _ _ call_id) items =
     remove_first_matching (\<lambda>i. case i of FunctionCallOutput existing _ \<Rightarrow> existing = call_id | _ \<Rightarrow> False) items"
| "remove_corresponding_for (FunctionCallOutput call_id _) items =
     (let is_call = (\<lambda>i. case i of FunctionCall _ _ _ _ existing \<Rightarrow> existing = call_id | _ \<Rightarrow> False);
          is_shell = (\<lambda>i. case i of LocalShellCall _ (Some existing) _ _ \<Rightarrow> existing = call_id | _ \<Rightarrow> False)
      in if list_ex is_call items then remove_first_matching is_call items
         else if list_ex is_shell items then remove_first_matching is_shell items
         else items)"
| "remove_corresponding_for (ToolSearchCall _ (Some call_id) _ _ _) items =
     remove_first_matching (\<lambda>i. case i of ToolSearchOutput (Some existing) _ _ _ \<Rightarrow> existing = call_id | _ \<Rightarrow> False) items"
| "remove_corresponding_for (ToolSearchOutput (Some call_id) _ _ _) items =
     remove_first_matching (\<lambda>i. case i of ToolSearchCall _ (Some existing) _ _ _ \<Rightarrow> existing = call_id | _ \<Rightarrow> False) items"
| "remove_corresponding_for (CustomToolCall _ _ call_id _ _) items =
     remove_first_matching (\<lambda>i. case i of CustomToolCallOutput existing _ _ \<Rightarrow> existing = call_id | _ \<Rightarrow> False) items"
| "remove_corresponding_for (CustomToolCallOutput call_id _ _) items =
     remove_first_matching (\<lambda>i. case i of CustomToolCall _ _ existing _ _ \<Rightarrow> existing = call_id | _ \<Rightarrow> False) items"
| "remove_corresponding_for (LocalShellCall _ (Some call_id) _ _) items =
     remove_first_matching (\<lambda>i. case i of FunctionCallOutput existing _ \<Rightarrow> existing = call_id | _ \<Rightarrow> False) items"
| "remove_corresponding_for item items = items"

definition IMAGE_CONTENT_OMITTED_PLACEHOLDER :: str where
  "IMAGE_CONTENT_OMITTED_PLACEHOLDER = lit ''image content omitted because you do not support image input''"

datatype input_modality = TextModality | ImageModality

definition strip_content :: "content_item \<Rightarrow> content_item" where
  "strip_content c = (case c of InputImage _ _ \<Rightarrow> InputText IMAGE_CONTENT_OMITTED_PLACEHOLDER | _ \<Rightarrow> c)"

definition strip_output_item :: "output_item \<Rightarrow> output_item" where
  "strip_output_item c = (case c of OutputItemImage _ _ \<Rightarrow> OutputItemText IMAGE_CONTENT_OMITTED_PLACEHOLDER | _ \<Rightarrow> c)"

definition strip_payload :: "output_payload \<Rightarrow> output_payload" where
  "strip_payload p =
     (case payload_body p of
        BodyText _ \<Rightarrow> p
      | BodyItems items \<Rightarrow> p\<lparr>payload_body := BodyItems (map strip_output_item items)\<rparr>)"

fun strip_item :: "'j response_item \<Rightarrow> 'j response_item" where
  "strip_item (Message mid role content phase) = Message mid role (map strip_content content) phase"
| "strip_item (FunctionCallOutput call_id p) = FunctionCallOutput call_id (strip_payload p)"
| "strip_item (CustomToolCallOutput call_id name p) = CustomToolCallOutput call_id name (strip_payload p)"
| "strip_item (ImageGenerationCall gid status prompt _) = ImageGenerationCall gid status prompt []"
| "strip_item item = item"

definition strip_images_when_unsupported :: "input_modality list \<Rightarrow> 'j response_item list \<Rightarrow> 'j response_item list" where
  "strip_images_when_unsupported modalities items =
     (if ImageModality \<in> set modalities then items else map strip_item items)"

section \<open>What the history looks at\<close>

text \<open>
  The parsers and printers of third-party libraries: the XML of a hook prompt (its text and the identifier of its run),
  whether a text is the JSON of an inter-agent message, the length of an item printed as JSON, and the size of an
  image given in base64.
\<close>

record 'j history_env =
  xml_hook_prompt :: "str \<Rightarrow> (str \<times> str) option"
  json_inter_agent :: "str \<Rightarrow> bool"
  json_length :: "'j response_item \<Rightarrow> nat option"
  base64_image_size :: "str \<Rightarrow> (nat \<times> nat) option"

record hook_prompt_fragment =
  hook_prompt_text :: str
  hook_run_id :: str

definition parse_hook_prompt_fragment :: "'j history_env \<Rightarrow> str \<Rightarrow> hook_prompt_fragment option" where
  "parse_hook_prompt_fragment env text =
     (case xml_hook_prompt env (trim text) of
        None \<Rightarrow> None
      | Some (content, run_id) \<Rightarrow>
          if trim run_id = [] then None else Some \<lparr>hook_prompt_text = content, hook_run_id = run_id\<rparr>)"

text \<open>Markers are ASCII, so that comparing as many characters as the marker has bytes is what the code does.\<close>

definition eq_ignore_ascii_case :: "str \<Rightarrow> str \<Rightarrow> bool" where
  "eq_ignore_ascii_case a b \<longleftrightarrow> to_ascii_lowercase a = to_ascii_lowercase b"

definition matches_markers :: "str \<times> str \<Rightarrow> str \<Rightarrow> bool" where
  "matches_markers markers text =
     (case markers of (start_marker, end_marker) \<Rightarrow>
        if start_marker = [] \<or> end_marker = [] then False
        else
          let trimmed = trim_start text;
              starts = length start_marker \<le> length trimmed \<and> eq_ignore_ascii_case (take (length start_marker) trimmed) start_marker;
              trimmed = trim_end trimmed;
              ends = eq_ignore_ascii_case (drop (usat_sub (length trimmed) (length end_marker)) trimmed) end_marker
          in starts \<and> ends)"

definition CONTEXTUAL_USER_FRAGMENTS :: "(str \<times> str) list" where
  "CONTEXTUAL_USER_FRAGMENTS = map (map_prod lit lit)
     [(''# AGENTS.md instructions for '', ''</INSTRUCTIONS>''), (''<environment_context>'', ''</environment_context>''),
      (''<skill>'', ''</skill>''), (''<user_shell_command>'', ''</user_shell_command>''),
      (''<turn_aborted>'', ''</turn_aborted>''), (''<subagent_notification>'', ''</subagent_notification>'')]"

definition is_standard_contextual_user_text :: "str \<Rightarrow> bool" where
  "is_standard_contextual_user_text text \<longleftrightarrow> list_ex (\<lambda>m. matches_markers m text) CONTEXTUAL_USER_FRAGMENTS"

definition is_contextual_user_fragment :: "'j history_env \<Rightarrow> content_item \<Rightarrow> bool" where
  "is_contextual_user_fragment env c =
     (case c of InputText text \<Rightarrow> parse_hook_prompt_fragment env text \<noteq> None \<or> is_standard_contextual_user_text text
      | _ \<Rightarrow> False)"

definition is_contextual_user_message_content :: "'j history_env \<Rightarrow> content_item list \<Rightarrow> bool" where
  "is_contextual_user_message_content env content \<longleftrightarrow> list_ex (is_contextual_user_fragment env) content"

definition CONTEXTUAL_DEVELOPER_PREFIXES :: "str list" where
  "CONTEXTUAL_DEVELOPER_PREFIXES = map lit [''<permissions instructions>'', ''<model_switch>'', ''<collaboration_mode>'',
     ''<realtime_conversation>'', ''<personality_spec>'']"

definition is_contextual_dev_fragment :: "content_item \<Rightarrow> bool" where
  "is_contextual_dev_fragment c =
     (case c of
        InputText text \<Rightarrow>
          (let trimmed = trim_start text in
           list_ex (\<lambda>p. length p \<le> length trimmed \<and> eq_ignore_ascii_case (take (length p) trimmed) p) CONTEXTUAL_DEVELOPER_PREFIXES)
      | _ \<Rightarrow> False)"

definition is_contextual_dev_message_content :: "content_item list \<Rightarrow> bool" where
  "is_contextual_dev_message_content content \<longleftrightarrow> list_ex is_contextual_dev_fragment content"

definition has_non_contextual_dev_message_content :: "content_item list \<Rightarrow> bool" where
  "has_non_contextual_dev_message_content content \<longleftrightarrow> list_ex (\<lambda>c. \<not> is_contextual_dev_fragment c) content"

fun is_inter_agent_instruction_content :: "'j history_env \<Rightarrow> content_item list \<Rightarrow> bool" where
  "is_inter_agent_instruction_content env [InputText text] = json_inter_agent env text"
| "is_inter_agent_instruction_content env [OutputText text] = json_inter_agent env text"
| "is_inter_agent_instruction_content env content = False"

fun is_user_turn_boundary :: "'j history_env \<Rightarrow> 'j response_item \<Rightarrow> bool" where
  "is_user_turn_boundary env (Message _ role content _) \<longleftrightarrow>
     role = lit ''user'' \<and> \<not> is_contextual_user_message_content env content \<or>
     role = lit ''assistant'' \<and> is_inter_agent_instruction_content env content"
| "is_user_turn_boundary env item \<longleftrightarrow> False"

fun is_api_message :: "'j response_item \<Rightarrow> bool" where
  "is_api_message (Message _ role _ _) \<longleftrightarrow> role \<noteq> lit ''system''"
| "is_api_message OtherItem \<longleftrightarrow> False"
| "is_api_message item \<longleftrightarrow> True"

fun is_model_generated_item :: "'j response_item \<Rightarrow> bool" where
  "is_model_generated_item (Message _ role _ _) \<longleftrightarrow> role = lit ''assistant''"
| "is_model_generated_item (FunctionCallOutput _ _) \<longleftrightarrow> False"
| "is_model_generated_item (ToolSearchOutput _ _ _ _) \<longleftrightarrow> False"
| "is_model_generated_item (CustomToolCallOutput _ _ _) \<longleftrightarrow> False"
| "is_model_generated_item OtherItem \<longleftrightarrow> False"
| "is_model_generated_item item \<longleftrightarrow> True"

fun is_codex_generated_item :: "'j response_item \<Rightarrow> bool" where
  "is_codex_generated_item (FunctionCallOutput _ _) \<longleftrightarrow> True"
| "is_codex_generated_item (ToolSearchOutput _ _ _ _) \<longleftrightarrow> True"
| "is_codex_generated_item (CustomToolCallOutput _ _ _) \<longleftrightarrow> True"
| "is_codex_generated_item (Message _ role _ _) \<longleftrightarrow> role = lit ''developer''"
| "is_codex_generated_item item \<longleftrightarrow> False"

definition user_message_positions :: "'j history_env \<Rightarrow> 'j response_item list \<Rightarrow> nat list" where
  "user_message_positions env items = map fst (filter (\<lambda>(idx, item). is_user_turn_boundary env item) (enumerate 0 items))"

section \<open>Token usage\<close>

type_synonym i64 = "64 word"

record token_usage =
  input_tokens :: i64
  cached_input_tokens :: i64
  output_tokens :: i64
  reasoning_output_tokens :: i64
  total_tokens :: i64

definition no_usage :: token_usage where
  "no_usage = \<lparr>input_tokens = 0, cached_input_tokens = 0, output_tokens = 0, reasoning_output_tokens = 0, total_tokens = 0\<rparr>"

definition add_usage :: "token_usage \<Rightarrow> token_usage \<Rightarrow> token_usage" where
  "add_usage a b =
     \<lparr>input_tokens = input_tokens a + input_tokens b,
      cached_input_tokens = cached_input_tokens a + cached_input_tokens b,
      output_tokens = output_tokens a + output_tokens b,
      reasoning_output_tokens = reasoning_output_tokens a + reasoning_output_tokens b,
      total_tokens = total_tokens a + total_tokens b\<rparr>"

record token_usage_info =
  total_token_usage :: token_usage
  last_token_usage :: token_usage
  model_context_window :: "i64 option"

definition append_last_usage :: "token_usage \<Rightarrow> token_usage_info \<Rightarrow> token_usage_info" where
  "append_last_usage last_usage i =
     i\<lparr>total_token_usage := add_usage (total_token_usage i) last_usage, last_token_usage := last_usage\<rparr>"

definition new_or_append :: "token_usage_info option \<Rightarrow> token_usage option \<Rightarrow> i64 option \<Rightarrow> token_usage_info option" where
  "new_or_append info last_usage window =
     (if info = None \<and> last_usage = None then None
      else
        let i = (case info of Some i \<Rightarrow> i
               | None \<Rightarrow> \<lparr>total_token_usage = no_usage, last_token_usage = no_usage, model_context_window = window\<rparr>);
            i = (case last_usage of Some u \<Rightarrow> append_last_usage u i | None \<Rightarrow> i)
        in Some (case window of Some n \<Rightarrow> i\<lparr>model_context_window := Some n\<rparr> | None \<Rightarrow> i))"

definition fill_to_context_window :: "i64 \<Rightarrow> token_usage_info \<Rightarrow> token_usage_info" where
  "fill_to_context_window window i =
     (let delta = window - total_tokens (total_token_usage i);
          delta = (if sint delta < 0 then 0 else delta)
      in i\<lparr>model_context_window := Some window, total_token_usage := no_usage\<lparr>total_tokens := window\<rparr>,
           last_token_usage := no_usage\<lparr>total_tokens := delta\<rparr>\<rparr>)"

definition full_context_window :: "i64 \<Rightarrow> token_usage_info" where
  "full_context_window window =
     fill_to_context_window window
       \<lparr>total_token_usage = no_usage, last_token_usage = no_usage, model_context_window = Some window\<rparr>"

section \<open>The size of the history\<close>

definition estimate_reasoning_length :: "nat \<Rightarrow> nat" where
  "estimate_reasoning_length n = usat_sub (usat_mul n 3 div 4) 650"

definition RESIZED_IMAGE_BYTES_ESTIMATE :: int where
  "RESIZED_IMAGE_BYTES_ESTIMATE = 7373"

definition ORIGINAL_IMAGE_PATCH_SIZE :: int where
  "ORIGINAL_IMAGE_PATCH_SIZE = 32"

definition ORIGINAL_IMAGE_MAX_PATCHES :: nat where
  "ORIGINAL_IMAGE_MAX_PATCHES = 10000"

definition i64_of :: "nat \<Rightarrow> int" where
  "i64_of n = min I64_MAX (int n)"

definition parse_base64_image_data_url :: "str \<Rightarrow> str option" where
  "parse_base64_image_data_url url =
     (if \<not> (5 \<le> length url \<and> eq_ignore_ascii_case (take 5 url) (lit ''data:'')) then None
      else case str_find [44] url of
        None \<Rightarrow> None
      | Some comma \<Rightarrow>
          (let metadata = drop 5 (take comma url);
               parts = split_on 59 metadata;
               mime = (case parts of m # _ \<Rightarrow> m | [] \<Rightarrow> [])
           in if \<not> (6 \<le> length mime \<and> eq_ignore_ascii_case (take 6 mime) (lit ''image/'')) then None
              else if \<not> list_ex (\<lambda>p. eq_ignore_ascii_case p (lit ''base64'')) (tl parts) then None
              else Some (drop (comma + 1) url)))"

text \<open>The cache of estimates, keyed by a digest of the address, does not change the value.\<close>

definition estimate_original_image_bytes :: "'j history_env \<Rightarrow> str \<Rightarrow> int option" where
  "estimate_original_image_bytes env url =
     (case parse_base64_image_data_url url of
        None \<Rightarrow> None
      | Some payload \<Rightarrow>
          (case base64_image_size env payload of
             None \<Rightarrow> None
           | Some (width, height) \<Rightarrow>
               (let wide = isat_add (int width) (isat_sub ORIGINAL_IMAGE_PATCH_SIZE 1) div ORIGINAL_IMAGE_PATCH_SIZE;
                    high = isat_add (int height) (isat_sub ORIGINAL_IMAGE_PATCH_SIZE 1) div ORIGINAL_IMAGE_PATCH_SIZE;
                    patches = min (nat (min I64_MAX (wide * high))) ORIGINAL_IMAGE_MAX_PATCHES
                in Some (i64_of (approx_bytes_for_tokens patches)))))"

definition image_estimate :: "'j history_env \<Rightarrow> str \<Rightarrow> image_detail option \<Rightarrow> int \<times> int \<Rightarrow> int \<times> int" where
  "image_estimate env url detail acc =
     (case acc of (payload_bytes, replacement_bytes) \<Rightarrow>
        (case parse_base64_image_data_url url of
           None \<Rightarrow> (payload_bytes, replacement_bytes)
         | Some payload \<Rightarrow>
             (isat_add payload_bytes (i64_of (str_len payload)),
              isat_add replacement_bytes
                (if detail = Some DetailOriginal
                 then (case estimate_original_image_bytes env url of Some n \<Rightarrow> n | None \<Rightarrow> RESIZED_IMAGE_BYTES_ESTIMATE)
                 else RESIZED_IMAGE_BYTES_ESTIMATE))))"

definition payload_estimate :: "'j history_env \<Rightarrow> output_payload \<Rightarrow> int \<times> int" where
  "payload_estimate env p =
     (case payload_body p of
        BodyItems items \<Rightarrow>
          foldl (\<lambda>acc i. case i of OutputItemImage url detail \<Rightarrow> image_estimate env url detail acc | _ \<Rightarrow> acc) (0, 0) items
      | BodyText _ \<Rightarrow> (0, 0))"

fun image_data_url_estimate_adjustment :: "'j history_env \<Rightarrow> 'j response_item \<Rightarrow> int \<times> int" where
  "image_data_url_estimate_adjustment env (Message _ _ content _) =
     foldl (\<lambda>acc c. case c of InputImage url detail \<Rightarrow> image_estimate env url detail acc | _ \<Rightarrow> acc) (0, 0) content"
| "image_data_url_estimate_adjustment env (FunctionCallOutput _ p) = payload_estimate env p"
| "image_data_url_estimate_adjustment env (CustomToolCallOutput _ _ p) = payload_estimate env p"
| "image_data_url_estimate_adjustment env item = (0, 0)"

fun estimate_response_item_model_visible_bytes :: "'j history_env \<Rightarrow> 'j response_item \<Rightarrow> int" where
  "estimate_response_item_model_visible_bytes env (Reasoning _ _ _ (Some content)) = i64_of (estimate_reasoning_length (str_len content))"
| "estimate_response_item_model_visible_bytes env (Compaction content) = i64_of (estimate_reasoning_length (str_len content))"
| "estimate_response_item_model_visible_bytes env item =
     (let raw = (case json_length env item of Some n \<Rightarrow> i64_of n | None \<Rightarrow> 0);
          (payload_bytes, replacement_bytes) = image_data_url_estimate_adjustment env item
      in if payload_bytes = 0 \<or> replacement_bytes = 0 then raw
         else isat_add (isat_sub raw payload_bytes) replacement_bytes)"

definition estimate_item_token_count :: "'j history_env \<Rightarrow> 'j response_item \<Rightarrow> int" where
  "estimate_item_token_count env item =
     approx_tokens_from_byte_count_i64 (estimate_response_item_model_visible_bytes env item)"

section \<open>The history\<close>

record ('j, 'r) context_manager =
  history_items :: "'j response_item list"
  history_version :: nat
  history_tokens :: "token_usage_info option"
  reference_context :: "'r option"

definition new_context_manager :: "('j, 'r) context_manager" where
  "new_context_manager =
     \<lparr>history_items = [], history_version = 0, history_tokens = new_or_append None None None, reference_context = None\<rparr>"

definition set_token_usage_full :: "i64 \<Rightarrow> ('j, 'r) context_manager \<Rightarrow> ('j, 'r) context_manager" where
  "set_token_usage_full window h =
     h\<lparr>history_tokens := Some (case history_tokens h of
         Some i \<Rightarrow> fill_to_context_window window i | None \<Rightarrow> full_context_window window)\<rparr>"

definition update_token_info :: "token_usage \<Rightarrow> i64 option \<Rightarrow> ('j, 'r) context_manager \<Rightarrow> ('j, 'r) context_manager" where
  "update_token_info usage window h = h\<lparr>history_tokens := new_or_append (history_tokens h) (Some usage) window\<rparr>"

definition truncate_function_output_payload :: "output_payload \<Rightarrow> truncation_policy \<Rightarrow> output_payload option" where
  "truncate_function_output_payload outp policy =
     map_option (\<lambda>body. \<lparr>payload_body = body, payload_success = payload_success outp\<rparr>)
       (case payload_body outp of
          BodyText content \<Rightarrow> map_option BodyText (truncate_text content policy)
        | BodyItems items \<Rightarrow> map_option BodyItems (truncate_function_output_items_with_policy items policy))"

text \<open>The double nearest to 1.2, in units of \<open>2 ^ -52\<close>.\<close>

definition serialization_budget :: nat where
  "serialization_budget = 5404319552844595"

fun process_item :: "'j response_item \<Rightarrow> truncation_policy \<Rightarrow> 'j response_item option" where
  "process_item (FunctionCallOutput call_id outp) policy =
     map_option (FunctionCallOutput call_id) (truncate_function_output_payload outp (policy_mul policy serialization_budget))"
| "process_item (CustomToolCallOutput call_id name outp) policy =
     map_option (CustomToolCallOutput call_id name) (truncate_function_output_payload outp (policy_mul policy serialization_budget))"
| "process_item item policy = Some item"

primrec record_items :: "'j response_item list \<Rightarrow> truncation_policy \<Rightarrow> ('j, 'r) context_manager \<Rightarrow> ('j, 'r) context_manager option" where
  "record_items [] policy h = Some h"
| "record_items (item # items) policy h =
     (if \<not> is_api_message item then record_items items policy h
      else case process_item item policy of
        None \<Rightarrow> None
      | Some processed \<Rightarrow> record_items items policy (h\<lparr>history_items := history_items h @ [processed]\<rparr>))"

definition normalize_history :: "bool \<Rightarrow> input_modality list \<Rightarrow> 'j response_item list \<Rightarrow> 'j response_item list option" where
  "normalize_history debug modalities items =
     (case ensure_call_outputs_present debug items of
        None \<Rightarrow> None
      | Some items \<Rightarrow> map_option (strip_images_when_unsupported modalities) (remove_orphan_outputs debug items))"

definition for_prompt :: "bool \<Rightarrow> input_modality list \<Rightarrow> ('j, 'r) context_manager \<Rightarrow> 'j response_item list option" where
  "for_prompt debug modalities h = normalize_history debug modalities (history_items h)"

definition replace_history :: "'j response_item list \<Rightarrow> ('j, 'r) context_manager \<Rightarrow> ('j, 'r) context_manager" where
  "replace_history items h = h\<lparr>history_items := items, history_version := min U64_MAX (history_version h + 1)\<rparr>"

definition remove_first_item :: "('j, 'r) context_manager \<Rightarrow> ('j, 'r) context_manager" where
  "remove_first_item h =
     (case history_items h of
        [] \<Rightarrow> h
      | removed # items \<Rightarrow> h\<lparr>history_items := remove_corresponding_for removed items\<rparr>)"

definition remove_last_item :: "('j, 'r) context_manager \<Rightarrow> bool \<times> ('j, 'r) context_manager" where
  "remove_last_item h =
     (if history_items h = [] then (False, h)
      else (True, h\<lparr>history_items := remove_corresponding_for (last (history_items h)) (butlast (history_items h)),
              history_version := min U64_MAX (history_version h + 1)\<rparr>))"

text \<open>The last position at which a predicate holds.\<close>

definition rposition :: "('a \<Rightarrow> bool) \<Rightarrow> 'a list \<Rightarrow> nat option" where
  "rposition p xs =
     (case filter (\<lambda>i. p (xs ! i)) (rev [0..<length xs]) of i # _ \<Rightarrow> Some i | [] \<Rightarrow> None)"

definition replace_last_turn_images :: "'j history_env \<Rightarrow> str \<Rightarrow> ('j, 'r) context_manager \<Rightarrow> bool \<times> ('j, 'r) context_manager" where
  "replace_last_turn_images env placeholder h =
     (case rposition (\<lambda>i. (case i of FunctionCallOutput _ _ \<Rightarrow> True | _ \<Rightarrow> False) \<or> is_user_turn_boundary env i) (history_items h) of
        None \<Rightarrow> (False, h)
      | Some idx \<Rightarrow>
          (case history_items h ! idx of
             FunctionCallOutput call_id outp \<Rightarrow>
               (case payload_body outp of
                  BodyText _ \<Rightarrow> (False, h)
                | BodyItems items \<Rightarrow>
                    (let replaced = list_ex (\<lambda>i. case i of OutputItemImage _ _ \<Rightarrow> True | _ \<Rightarrow> False) items;
                         items = map (\<lambda>i. case i of OutputItemImage _ _ \<Rightarrow> OutputItemText placeholder | _ \<Rightarrow> i) items;
                         h = h\<lparr>history_items := (history_items h)[idx := FunctionCallOutput call_id (outp\<lparr>payload_body := BodyItems items\<rparr>)]\<rparr>
                     in (replaced, if replaced then h\<lparr>history_version := min U64_MAX (history_version h + 1)\<rparr> else h)))
           | _ \<Rightarrow> (False, h)))"

text \<open>The loop over the items before a cut: the new cut, and whether the baseline of the settings is gone.\<close>

fun trim_pre_turn_context_updates :: "'j history_env \<Rightarrow> 'j response_item list \<Rightarrow> nat \<Rightarrow> nat \<Rightarrow> bool \<Rightarrow> nat \<times> bool" where
  "trim_pre_turn_context_updates env snapshot first_idx 0 cleared = (0, cleared)"
| "trim_pre_turn_context_updates env snapshot first_idx (Suc cut_idx) cleared =
     (if \<not> first_idx < Suc cut_idx then (Suc cut_idx, cleared)
      else case snapshot ! cut_idx of
        Message _ role content _ \<Rightarrow>
          if role = lit ''developer'' \<and> is_contextual_dev_message_content content then
            trim_pre_turn_context_updates env snapshot first_idx cut_idx (cleared \<or> has_non_contextual_dev_message_content content)
          else if role = lit ''user'' \<and> is_contextual_user_message_content env content then
            trim_pre_turn_context_updates env snapshot first_idx cut_idx cleared
          else (Suc cut_idx, cleared)
      | _ \<Rightarrow> (Suc cut_idx, cleared))"

definition drop_last_n_user_turns :: "'j history_env \<Rightarrow> nat \<Rightarrow> ('j, 'r) context_manager \<Rightarrow> ('j, 'r) context_manager" where
  "drop_last_n_user_turns env num_turns h =
     (if num_turns = 0 then h
      else
        let snapshot = history_items h; positions = user_message_positions env snapshot in
        case positions of
          [] \<Rightarrow> replace_history snapshot h
        | first_idx # _ \<Rightarrow>
            (let cut_idx = (if length positions \<le> num_turns then first_idx else positions ! (length positions - num_turns));
                 (cut_idx, cleared) = trim_pre_turn_context_updates env snapshot first_idx cut_idx False;
                 h = (if cleared then h\<lparr>reference_context := None\<rparr> else h)
             in replace_history (take cut_idx snapshot) h))"

definition estimate_token_count_with_base_instructions :: "'j history_env \<Rightarrow> str \<Rightarrow> ('j, 'r) context_manager \<Rightarrow> int option" where
  "estimate_token_count_with_base_instructions env base_text h =
     Some (isat_add (i64_of (approx_token_count base_text)) (foldl isat_add 0 (map (estimate_item_token_count env) (history_items h))))"

definition get_non_last_reasoning_items_tokens :: "'j history_env \<Rightarrow> ('j, 'r) context_manager \<Rightarrow> int" where
  "get_non_last_reasoning_items_tokens env h =
     (case rposition (is_user_turn_boundary env) (history_items h) of
        None \<Rightarrow> 0
      | Some last_user_index \<Rightarrow>
          foldl isat_add 0 (map (estimate_item_token_count env)
            (filter (\<lambda>i. case i of Reasoning _ _ _ (Some _) \<Rightarrow> True | _ \<Rightarrow> False) (take last_user_index (history_items h)))))"

definition items_after_last_model_generated_item :: "('j, 'r) context_manager \<Rightarrow> 'j response_item list" where
  "items_after_last_model_generated_item h =
     (let start = (case rposition is_model_generated_item (history_items h) of
            None \<Rightarrow> length (history_items h) | Some idx \<Rightarrow> usat_add idx 1)
      in drop start (history_items h))"

definition get_total_token_usage :: "'j history_env \<Rightarrow> bool \<Rightarrow> ('j, 'r) context_manager \<Rightarrow> int" where
  "get_total_token_usage env server_reasoning_included h =
     (let last_tokens = (case history_tokens h of Some i \<Rightarrow> sint (total_tokens (last_token_usage i)) | None \<Rightarrow> 0);
          after = foldl isat_add 0 (map (estimate_item_token_count env) (items_after_last_model_generated_item h))
      in if server_reasoning_included then isat_add last_tokens after
         else isat_add (isat_add last_tokens (get_non_last_reasoning_items_tokens env h)) after)"

record total_token_usage_breakdown =
  last_api_response_total_tokens :: int
  all_history_items_model_visible_bytes :: int
  estimated_tokens_added :: int
  estimated_bytes_added :: int

definition get_total_token_usage_breakdown :: "'j history_env \<Rightarrow> ('j, 'r) context_manager \<Rightarrow> total_token_usage_breakdown" where
  "get_total_token_usage_breakdown env h =
     (let usage = (case history_tokens h of Some i \<Rightarrow> last_token_usage i | None \<Rightarrow> no_usage);
          added = items_after_last_model_generated_item h
      in \<lparr>last_api_response_total_tokens = sint (total_tokens usage),
          all_history_items_model_visible_bytes =
            foldl isat_add 0 (map (estimate_response_item_model_visible_bytes env) (history_items h)),
          estimated_tokens_added = foldl isat_add 0 (map (estimate_item_token_count env) added),
          estimated_bytes_added = foldl isat_add 0 (map (estimate_response_item_model_visible_bytes env) added)\<rparr>)"

section \<open>Calls and outputs\<close>

text \<open>The identifier under which an item is a call or an output, with the family that must agree.\<close>

datatype call_family = FunctionFamily | CustomFamily | SearchFamily

fun call_key :: "'j response_item \<Rightarrow> (call_family \<times> str) option" where
  "call_key (FunctionCall _ _ _ _ call_id) = Some (FunctionFamily, call_id)"
| "call_key (LocalShellCall _ (Some call_id) _ _) = Some (FunctionFamily, call_id)"
| "call_key (CustomToolCall _ _ call_id _ _) = Some (CustomFamily, call_id)"
| "call_key (ToolSearchCall _ (Some call_id) _ _ _) = Some (SearchFamily, call_id)"
| "call_key item = None"

fun output_key :: "'j response_item \<Rightarrow> (call_family \<times> str) option" where
  "output_key (FunctionCallOutput call_id _) = Some (FunctionFamily, call_id)"
| "output_key (CustomToolCallOutput call_id _ _) = Some (CustomFamily, call_id)"
| "output_key (ToolSearchOutput (Some call_id) _ _ _) = Some (SearchFamily, call_id)"
| "output_key item = None"

text \<open>The outputs of searches that ran on the server need no call.\<close>

fun needs_call :: "'j response_item \<Rightarrow> bool" where
  "needs_call (ToolSearchOutput _ _ execution _) \<longleftrightarrow> execution \<noteq> lit ''server''"
| "needs_call item \<longleftrightarrow> True"

definition paired :: "'j response_item list \<Rightarrow> bool" where
  "paired items \<longleftrightarrow>
     (\<forall>i \<in> set items. \<forall>k. call_key i = Some k \<longrightarrow> (\<exists>j \<in> set items. output_key j = Some k)) \<and>
     (\<forall>j \<in> set items. \<forall>k. output_key j = Some k \<and> needs_call j \<longrightarrow> (\<exists>i \<in> set items. call_key i = Some k))"

text \<open>The output put in for a call that has none.\<close>

fun synthetic_output :: "(call_family \<times> str) \<Rightarrow> 'j response_item" where
  "synthetic_output (FunctionFamily, call_id) = FunctionCallOutput call_id (payload_from_text (lit ''aborted''))"
| "synthetic_output (CustomFamily, call_id) = CustomToolCallOutput call_id None (payload_from_text (lit ''aborted''))"
| "synthetic_output (SearchFamily, call_id) = ToolSearchOutput (Some call_id) (lit ''completed'') (lit ''client'') []"

definition has_output_in :: "'j response_item list \<Rightarrow> (call_family \<times> str) \<Rightarrow> bool" where
  "has_output_in items k \<longleftrightarrow> (\<exists>j \<in> set items. output_key j = Some k)"

definition has_call_in :: "'j response_item list \<Rightarrow> (call_family \<times> str) \<Rightarrow> bool" where
  "has_call_in items k \<longleftrightarrow> (\<exists>i \<in> set items. call_key i = Some k)"

lemma output_matches [simp]:
  "(case i of FunctionCallOutput e _ \<Rightarrow> e = c | _ \<Rightarrow> False) \<longleftrightarrow> output_key i = Some (FunctionFamily, c)"
  "(case i of CustomToolCallOutput e _ _ \<Rightarrow> e = c | _ \<Rightarrow> False) \<longleftrightarrow> output_key i = Some (CustomFamily, c)"
  "(case i of ToolSearchOutput (Some e) _ _ _ \<Rightarrow> e = c | _ \<Rightarrow> False) \<longleftrightarrow> output_key i = Some (SearchFamily, c)"
  by (cases i rule: output_key.cases; simp)+

lemma call_matches [simp]:
  "(case i of CustomToolCall _ _ e _ _ \<Rightarrow> e = c | _ \<Rightarrow> False) \<longleftrightarrow> call_key i = Some (CustomFamily, c)"
  "(case i of ToolSearchCall _ (Some e) _ _ _ \<Rightarrow> e = c | _ \<Rightarrow> False) \<longleftrightarrow> call_key i = Some (SearchFamily, c)"
  by (cases i rule: call_key.cases; simp)+

lemma function_call_matches:
  "(case i of FunctionCall _ _ _ _ e \<Rightarrow> e = c | _ \<Rightarrow> False) \<or> (case i of LocalShellCall _ (Some e) _ _ \<Rightarrow> e = c | _ \<Rightarrow> False) \<longleftrightarrow>
   call_key i = Some (FunctionFamily, c)"
  by (cases i rule: call_key.cases; simp)

lemma call_id_matches:
  "(case i of CustomToolCall _ _ e _ _ \<Rightarrow> Some e | _ \<Rightarrow> None) = Some c \<longleftrightarrow> call_key i = Some (CustomFamily, c)"
  "(case i of ToolSearchCall _ (Some e) _ _ _ \<Rightarrow> Some e | _ \<Rightarrow> None) = Some c \<longleftrightarrow> call_key i = Some (SearchFamily, c)"
  "(case i of FunctionCall _ _ _ _ e \<Rightarrow> Some e | _ \<Rightarrow> None) = Some c \<or>
   (case i of LocalShellCall _ (Some e) _ _ \<Rightarrow> Some e | _ \<Rightarrow> None) = Some c \<longleftrightarrow> call_key i = Some (FunctionFamily, c)"
  by (cases i rule: call_key.cases; simp)+

lemma in_map_filter: "c \<in> set (List.map_filter f xs) \<longleftrightarrow> (\<exists>x \<in> set xs. f x = Some c)"
  by (induction xs) (auto simp: List.map_filter_simps split: option.split)

lemma missing_output_key:
  "map_option fst (missing_output items i) =
     (case call_key i of None \<Rightarrow> None | Some k \<Rightarrow> if has_output_in items k then None else Some (synthetic_output k))"
  by (cases "(items, i)" rule: missing_output.cases) (simp_all add: has_output_in_def list_ex_iff)

lemma has_call_key:
  "has_call items i \<longleftrightarrow> (case output_key i of None \<Rightarrow> True | Some k \<Rightarrow> needs_call i \<longrightarrow> has_call_in items k)"
proof -
  have "c \<in> set (function_call_ids items) \<or> c \<in> set (local_shell_call_ids items) \<longleftrightarrow> has_call_in items (FunctionFamily, c)"
    "c \<in> set (custom_tool_call_ids items) \<longleftrightarrow> has_call_in items (CustomFamily, c)"
    "c \<in> set (tool_search_call_ids items) \<longleftrightarrow> has_call_in items (SearchFamily, c)" for c
    unfolding function_call_ids_def local_shell_call_ids_def custom_tool_call_ids_def tool_search_call_ids_def has_call_in_def
      in_map_filter call_id_matches(1,2) call_id_matches(3) [symmetric] by blast+
  then show ?thesis by (cases "(items, i)" rule: has_call.cases) (auto split: option.split)
qed

text \<open>The normalisation as one pass over the items.\<close>

definition completed :: "'j response_item list \<Rightarrow> 'j response_item \<Rightarrow> 'j response_item list" where
  "completed items i =
     i # (case call_key i of None \<Rightarrow> [] | Some k \<Rightarrow> if has_output_in items k then [] else [synthetic_output k])"

lemma insert_missing:
  assumes "length pre = n"
  shows "\<exists>ms. missing_outputs False items n rest_items = Some ms \<and> (\<forall>(idx, x) \<in> set ms. n \<le> idx) \<and>
    foldl (\<lambda>l (idx, x). insert_at (idx + 1) x l) (pre @ rest_items) (rev ms) = pre @ concat (map (completed items) rest_items)"
  using assms
proof (induction rest_items arbitrary: pre n)
  case (Cons i rest_items)
  from Cons.IH [of "pre @ [i]" "Suc n"] Cons.prems obtain ms where ms:
    "missing_outputs False items (Suc n) rest_items = Some ms" "\<forall>(idx, x) \<in> set ms. Suc n \<le> idx"
    "foldl (\<lambda>l (idx, x). insert_at (idx + 1) x l) (pre @ i # rest_items) (rev ms) = pre @ i # concat (map (completed items) rest_items)"
    by auto
  show ?case
  proof (cases "missing_output items i")
    case None
    then have "completed items i = [i]" using missing_output_key [of items i] by (auto simp: completed_def split: option.splits if_splits)
    then show ?thesis using ms None by (fastforce simp: Suc_le_eq)
  next
    case (Some m)
    obtain x serious where m: "m = (x, serious)" by (cases m)
    have "completed items i = [i, x]" using missing_output_key [of items i] Some m by (auto simp: completed_def split: option.splits if_splits)
    then show ?thesis
      using ms Some m Cons.prems by (fastforce simp: error_or_panic_def insert_at_def Suc_le_eq)
  qed
qed simp

lemma ensure_completes:
  "ensure_call_outputs_present False items = Some (concat (map (completed items) items))"
  using insert_missing [of "[]" 0 items items] by (auto simp: ensure_call_outputs_present_def)

lemma retain_filters: "retain_with_call False items xs = Some (filter (has_call items) xs)"
  by (induction xs) (simp_all add: error_or_panic_def)

lemma missing_outputs_debug: "missing_outputs True items n xs = Some ms \<Longrightarrow> missing_outputs False items n xs = Some ms"
  by (induction xs arbitrary: n ms) (auto simp: error_or_panic_def split: option.splits if_splits)

lemma retain_debug: "retain_with_call True items xs = Some ys \<Longrightarrow> retain_with_call False items xs = Some ys"
  by (induction xs arbitrary: ys) (auto simp: error_or_panic_def split: if_splits)

text \<open>A debug build returns what a release build returns, when it returns.\<close>

lemma for_prompt_debug:
  assumes "for_prompt True modalities h = Some items"
  shows "for_prompt False modalities h = Some items"
proof -
  have "ensure_call_outputs_present True xs = Some ys \<Longrightarrow> ensure_call_outputs_present False xs = Some ys" for xs ys
    by (auto simp: ensure_call_outputs_present_def dest: missing_outputs_debug)
  then show ?thesis
    using assms retain_debug
    by (fastforce simp: for_prompt_def normalize_history_def remove_orphan_outputs_def split: option.splits)
qed

lemma synthetic_keys [simp]:
  "call_key (synthetic_output k) = None" "output_key (synthetic_output k) = Some k" "needs_call (synthetic_output k)"
  by (cases k rule: synthetic_output.cases; simp add: lit_def uc_def)+

lemma call_not_output: "call_key i = Some k \<Longrightarrow> output_key i = None"
  by (cases i rule: call_key.cases) simp_all

lemma strip_keys [simp]: "call_key (strip_item i) = call_key i" "output_key (strip_item i) = output_key i" "needs_call (strip_item i) = needs_call i"
  by (cases i rule: strip_item.cases; simp)+

lemma in_completed:
  "x \<in> set (completed items i) \<longleftrightarrow> x = i \<or> (\<exists>k. call_key i = Some k \<and> \<not> has_output_in items k \<and> x = synthetic_output k)"
  by (cases "call_key i") (auto simp: completed_def)

lemma set_completed:
  "x \<in> set (concat (map (completed items) items)) \<longleftrightarrow>
     x \<in> set items \<or> (\<exists>k. has_call_in items k \<and> \<not> has_output_in items k \<and> x = synthetic_output k)"
  unfolding set_concat set_map has_call_in_def by (auto simp: in_completed simp del: split_paired_Ex)

lemma completed_calls: "has_call_in (concat (map (completed items) items)) = has_call_in items"
  by (rule ext) (simp only: has_call_in_def Bex_def set_completed, force)

definition normalized :: "'j response_item list \<Rightarrow> 'j response_item list" where
  "normalized items = filter (has_call items) (concat (map (completed items) items))"

lemma normalize_history_normalized:
  "normalize_history False modalities items = Some (strip_images_when_unsupported modalities (normalized items))"
proof -
  have "has_call (concat (map (completed items) items)) = has_call items"
    by (rule ext) (simp only: has_call_key completed_calls)
  then show ?thesis
    by (simp add: normalize_history_def ensure_completes remove_orphan_outputs_def retain_filters normalized_def)
qed

lemma set_normalized:
  "x \<in> set (normalized items) \<longleftrightarrow>
     x \<in> set items \<and> has_call items x \<or> (\<exists>k. has_call_in items k \<and> \<not> has_output_in items k \<and> x = synthetic_output k)"
  by (auto simp: normalized_def set_completed has_call_key simp del: set_concat)

lemma normalized_calls: "has_call_in (normalized items) k \<longleftrightarrow> has_call_in items k"
proof -
  have "call_key i = Some k \<Longrightarrow> has_call items i" for i by (simp add: has_call_key call_not_output)
  then show ?thesis by (auto simp: has_call_in_def set_normalized)
qed

lemma paired_iff:
  "paired items \<longleftrightarrow> (\<forall>k. has_call_in items k \<longrightarrow> has_output_in items k) \<and> (\<forall>j \<in> set items. has_call items j)"
  by (auto simp: paired_def has_call_in_def has_output_in_def has_call_key split: option.splits)

lemma normalized_paired: "paired (normalized items)"
proof -
  have "has_output_in (normalized items) k" if "has_call_in items k" for k
  proof (cases "has_output_in items k")
    case True
    then obtain j where "j \<in> set items" "output_key j = Some k" by (auto simp: has_output_in_def)
    with that have "j \<in> set (normalized items)" by (simp add: set_normalized has_call_key)
    then show ?thesis using \<open>output_key j = Some k\<close> by (auto simp: has_output_in_def)
  next
    case False
    then have "synthetic_output k \<in> set (normalized items)" using that unfolding set_normalized by blast
    then show ?thesis by (auto simp: has_output_in_def intro: bexI [where x = "synthetic_output k"])
  qed
  moreover have "has_call (normalized items) j" if "j \<in> set (normalized items)" for j
    using that by (auto simp: set_normalized has_call_key normalized_calls split: option.splits)
  ultimately show ?thesis by (simp add: paired_iff normalized_calls)
qed

lemma normalized_keeps_others: "filter (\<lambda>i. output_key i = None) (normalized items) = filter (\<lambda>i. output_key i = None) items"
proof -
  have "filter (\<lambda>i. output_key i = None \<and> has_call items i) (concat (map (completed items) xs)) = filter (\<lambda>i. output_key i = None) xs" for xs
    by (induction xs) (auto simp: completed_def has_call_key split: option.split)
  then show ?thesis by (simp add: normalized_def conj_commute)
qed

lemma normalized_fixed: "paired items \<Longrightarrow> normalized items = items"
proof -
  assume p: "paired items"
  then have "completed items i = [i]" if "i \<in> set items" for i
    using that by (auto simp: completed_def paired_iff has_call_in_def split: option.split)
  then have "concat (map (completed items) items) = concat (map (\<lambda>i. [i]) items)"
    by (simp cong: map_cong)
  then show ?thesis using p by (simp add: normalized_def paired_iff)
qed

fun shows_image :: "'j response_item \<Rightarrow> bool" where
  "shows_image (Message _ _ content _) \<longleftrightarrow> list_ex (\<lambda>c. case c of InputImage _ _ \<Rightarrow> True | _ \<Rightarrow> False) content"
| "shows_image (FunctionCallOutput _ p) \<longleftrightarrow> (case payload_body p of BodyItems items \<Rightarrow> list_ex is_image items | BodyText _ \<Rightarrow> False)"
| "shows_image (CustomToolCallOutput _ _ p) \<longleftrightarrow> (case payload_body p of BodyItems items \<Rightarrow> list_ex is_image items | BodyText _ \<Rightarrow> False)"
| "shows_image (ImageGenerationCall _ _ _ r) \<longleftrightarrow> r \<noteq> []"
| "shows_image i \<longleftrightarrow> False"

lemma strip_shows_no_image: "\<not> shows_image (strip_item i)"
  by (cases i rule: strip_item.cases)
    (auto simp: list_ex_iff strip_content_def strip_payload_def strip_output_item_def is_image_def
      split: content_item.splits output_body.splits output_item.splits)

abbreviation as_shown :: "input_modality list \<Rightarrow> 'j response_item \<Rightarrow> 'j response_item" where
  "as_shown modalities \<equiv> (if ImageModality \<in> set modalities then (\<lambda>i. i) else strip_item)"

lemma strip_images_map: "strip_images_when_unsupported modalities items = map (as_shown modalities) items"
  by (simp add: strip_images_when_unsupported_def)

lemma paired_map:
  assumes "\<And>i. call_key (f i) = call_key i" "\<And>i. output_key (f i) = output_key i" "\<And>i. needs_call (f i) = needs_call i"
  shows "paired (map f items) = paired items"
  using assms by (simp add: paired_def)

text \<open>
  C10: in the prompt built from any history every call has an output and every output that needs one has a call; no image
  is left where the model takes none; all other items are there in their order, and a history whose calls and
  outputs are paired already is sent as it is.
\<close>

theorem prompt_is_paired:
  "\<exists>items. for_prompt False modalities h = Some items \<and> paired items \<and>
     (ImageModality \<notin> set modalities \<longrightarrow> list_all (\<lambda>i. \<not> shows_image i) items) \<and>
     filter (\<lambda>i. output_key i = None) items = map (as_shown modalities) (filter (\<lambda>i. output_key i = None) (history_items h)) \<and>
     (paired (history_items h) \<longrightarrow> items = map (as_shown modalities) (history_items h))"
proof -
  have "for_prompt False modalities h = Some (map (as_shown modalities) (normalized (history_items h)))"
    by (simp add: for_prompt_def normalize_history_normalized strip_images_map)
  moreover have "paired (map (as_shown modalities) (normalized (history_items h)))"
    using normalized_paired by (subst paired_map) auto
  moreover have "filter (\<lambda>i. output_key i = None) (map (as_shown modalities) xs) = map (as_shown modalities) (filter (\<lambda>i. output_key i = None) xs)"
    for xs :: "'a response_item list"
    by (simp add: filter_map o_def)
  ultimately show ?thesis
    using normalized_keeps_others normalized_fixed by (auto simp: list_all_iff strip_shows_no_image)
qed


section \<open>Removing items\<close>

text \<open>No two calls of a family, and no two outputs, carry the same identifier.\<close>

definition unique_keys :: "'j response_item list \<Rightarrow> bool" where
  "unique_keys items \<longleftrightarrow> distinct (List.map_filter call_key items) \<and> distinct (List.map_filter output_key items)"

lemma remove_first_is_filter:
  assumes "distinct (List.map_filter f xs)" "list_ex p xs" "\<And>x. p x \<Longrightarrow> f x = Some k"
  shows "remove_first_matching p xs = filter (\<lambda>x. f x \<noteq> Some k) xs"
  using assms
proof (induction xs)
  case (Cons x xs)
  show ?case
  proof (cases "p x")
    case True
    then have "k \<notin> set (List.map_filter f xs)" using Cons.prems by (simp add: List.map_filter_simps)
    then have "filter (\<lambda>y. f y \<noteq> Some k) xs = xs" by (auto simp: in_map_filter filter_id_conv)
    then show ?thesis using True Cons.prems(3) by simp
  next
    case False
    then have ex: "list_ex p xs" using Cons.prems by simp
    then obtain y where "y \<in> set xs" "p y" by (auto simp: list_ex_iff)
    then have "k \<in> set (List.map_filter f xs)" using Cons.prems(3) by (auto simp: in_map_filter)
    then have "f x \<noteq> Some k" using Cons.prems(1) by (auto simp: List.map_filter_simps)
    moreover have "distinct (List.map_filter f xs)"
      using Cons.prems(1) by (auto simp: List.map_filter_simps split: option.splits)
    ultimately show ?thesis using Cons.IH [OF _ ex] Cons.prems(3) False by simp
  qed
qed simp

lemma remove_first_none: "\<not> list_ex p xs \<Longrightarrow> remove_first_matching p xs = xs"
  by (induction xs) auto

lemma remove_first_key:
  "distinct (List.map_filter f xs) \<Longrightarrow> remove_first_matching (\<lambda>x. f x = Some k) xs = filter (\<lambda>x. f x \<noteq> Some k) xs"
  by (cases "list_ex (\<lambda>x. f x = Some k) xs")
    (auto simp: remove_first_is_filter remove_first_none list_ex_iff filter_id_conv)

lemma matchers:
  "(\<lambda>i. case i of FunctionCallOutput e _ \<Rightarrow> e = c | _ \<Rightarrow> False) = (\<lambda>i. output_key i = Some (FunctionFamily, c))"
  "(\<lambda>i. case i of CustomToolCallOutput e _ _ \<Rightarrow> e = c | _ \<Rightarrow> False) = (\<lambda>i. output_key i = Some (CustomFamily, c))"
  "(\<lambda>i. case i of ToolSearchOutput (Some e) _ _ _ \<Rightarrow> e = c | _ \<Rightarrow> False) = (\<lambda>i. output_key i = Some (SearchFamily, c))"
  "(\<lambda>i. case i of CustomToolCall _ _ e _ _ \<Rightarrow> e = c | _ \<Rightarrow> False) = (\<lambda>i. call_key i = Some (CustomFamily, c))"
  "(\<lambda>i. case i of ToolSearchCall _ (Some e) _ _ _ \<Rightarrow> e = c | _ \<Rightarrow> False) = (\<lambda>i. call_key i = Some (SearchFamily, c))"
  by (rule ext; simp)+

text \<open>With unique identifiers the counterpart of an item is what has its key on the other side.\<close>

lemma remove_corresponding_filter:
  assumes "unique_keys items"
  shows "remove_corresponding_for i items =
    filter (\<lambda>j. (call_key i \<noteq> None \<longrightarrow> output_key j \<noteq> call_key i) \<and> (output_key i \<noteq> None \<longrightarrow> call_key j \<noteq> output_key i)) items"
proof -
  note u = assms [unfolded unique_keys_def, THEN conjunct1] assms [unfolded unique_keys_def, THEN conjunct2]
  have fn: "remove_corresponding_for (FunctionCallOutput c p) items = filter (\<lambda>j. call_key j \<noteq> Some (FunctionFamily, c)) items" for c p
  proof -
    have m: "(case j of FunctionCall _ _ _ _ e \<Rightarrow> e = c | _ \<Rightarrow> False) \<Longrightarrow> call_key j = Some (FunctionFamily, c)"
      "(case j of LocalShellCall _ (Some e) _ _ \<Rightarrow> e = c | _ \<Rightarrow> False) \<Longrightarrow> call_key j = Some (FunctionFamily, c)"
      for j :: "'a response_item" using function_call_matches [of c j] by blast+
    have "\<not> list_ex (\<lambda>j. case j of FunctionCall _ _ _ _ e \<Rightarrow> e = c | _ \<Rightarrow> False) items \<Longrightarrow>
        \<not> list_ex (\<lambda>j. case j of LocalShellCall _ (Some e) _ _ \<Rightarrow> e = c | _ \<Rightarrow> False) items \<Longrightarrow>
        filter (\<lambda>j. call_key j \<noteq> Some (FunctionFamily, c)) items = items"
      unfolding list_ex_iff filter_id_conv function_call_matches [symmetric] by blast
    then show ?thesis
      using remove_first_is_filter [OF u(1) _ m(1)] remove_first_is_filter [OF u(1) _ m(2)] by (auto simp: Let_def)
  qed
  show ?thesis
    by (cases "(i, items)" rule: remove_corresponding_for.cases) (simp_all add: fn matchers remove_first_key u filter_id_conv del: remove_corresponding_for.simps(2))
qed

lemma distinct_map_filter_filter: "distinct (List.map_filter f xs) \<Longrightarrow> distinct (List.map_filter f (filter p xs))"
  by (induction xs) (auto simp: List.map_filter_simps in_map_filter split: option.splits)

text \<open>Taking out one item of a paired history, together with its counterpart.\<close>

lemma removal_paired:
  assumes "paired xs" "set xs = insert x (set ys)" "unique_keys ys"
    and "\<forall>k. call_key x = Some k \<longrightarrow> \<not> has_call_in ys k" "\<forall>k. output_key x = Some k \<longrightarrow> \<not> has_output_in ys k"
  shows "paired (remove_corresponding_for x ys) \<and> unique_keys (remove_corresponding_for x ys)"
proof -
  let ?keep = "\<lambda>j. (call_key x \<noteq> None \<longrightarrow> output_key j \<noteq> call_key x) \<and> (output_key x \<noteq> None \<longrightarrow> call_key j \<noteq> output_key x)"
  have r: "remove_corresponding_for x ys = filter ?keep ys" by (rule remove_corresponding_filter [OF assms(3)])
  have p: "\<exists>j \<in> set xs. output_key j = Some k" if "i \<in> set xs" "call_key i = Some k" for i k
    using assms(1) that unfolding paired_def by blast
  have q: "\<exists>i \<in> set xs. call_key i = Some k" if "j \<in> set xs" "output_key j = Some k" "needs_call j" for j k
    using assms(1) that unfolding paired_def by blast
  have "\<exists>j \<in> set (filter ?keep ys). output_key j = Some k" if i: "i \<in> set (filter ?keep ys)" "call_key i = Some k" for i k
  proof -
    obtain j where j: "j \<in> set xs" "output_key j = Some k" using p [of i k] assms(2) i by auto
    then have "j \<noteq> x" using i by auto
    moreover have "has_call_in ys k" using i by (auto simp: has_call_in_def simp del: split_paired_All)
    then have "call_key x \<noteq> Some k" using assms(4) by blast
    moreover have "call_key j = None" using j(2) call_not_output by (cases "call_key j") fastforce+
    ultimately show ?thesis using j assms(2) by (intro bexI [of _ j]) auto
  qed
  moreover have "\<exists>i \<in> set (filter ?keep ys). call_key i = Some k"
    if j: "j \<in> set (filter ?keep ys)" "output_key j = Some k" "needs_call j" for j k
  proof -
    obtain i where i: "i \<in> set xs" "call_key i = Some k" using q [of j k] assms(2) j by auto
    then have "i \<noteq> x" using j by auto
    moreover have "has_output_in ys k" using j by (auto simp: has_output_in_def simp del: split_paired_All)
    then have "output_key x \<noteq> Some k" using assms(5) by blast
    ultimately show ?thesis using i assms(2) call_not_output [OF i(2)] by (intro bexI [of _ i]) auto
  qed
  ultimately have "paired (filter ?keep ys)" unfolding paired_def by blast
  moreover have "unique_keys (filter ?keep ys)" using assms(3) by (simp add: unique_keys_def distinct_map_filter_filter)
  ultimately show ?thesis by (simp add: r)
qed

lemma unique_keys_cons:
  assumes "unique_keys (x # ys)"
  shows "unique_keys ys" "\<forall>k. call_key x = Some k \<longrightarrow> \<not> has_call_in ys k" "\<forall>k. output_key x = Some k \<longrightarrow> \<not> has_output_in ys k"
  using assms by (auto simp: unique_keys_def List.map_filter_simps in_map_filter has_call_in_def has_output_in_def split: option.splits)

lemma unique_keys_snoc: "unique_keys (ys @ [x]) = unique_keys (x # ys)"
  by (auto simp: unique_keys_def map_filter_def)

text \<open>
  C11: where identifiers are unique, removing the oldest or the newest item of a history whose calls and outputs are
  paired removes its counterpart too, so that the rest is paired and no normalisation is needed.
\<close>

theorem removal_keeps_pairs:
  assumes "paired (history_items h)" "unique_keys (history_items h)"
  shows "paired (history_items (remove_first_item h)) \<and> unique_keys (history_items (remove_first_item h)) \<and>
    paired (history_items (snd (remove_last_item h))) \<and> unique_keys (history_items (snd (remove_last_item h)))"
proof -
  have "paired (history_items (remove_first_item h)) \<and> unique_keys (history_items (remove_first_item h))"
  proof (cases "history_items h")
    case (Cons x ys)
    then show ?thesis
      using removal_paired [of "history_items h" x ys] unique_keys_cons [of x ys] assms by (simp add: remove_first_item_def)
  qed (use assms in \<open>simp add: remove_first_item_def\<close>)
  moreover have "paired (history_items (snd (remove_last_item h))) \<and> unique_keys (history_items (snd (remove_last_item h)))"
  proof (cases "history_items h" rule: rev_cases)
    case (snoc ys x)
    then show ?thesis
      using removal_paired [of "history_items h" x ys] unique_keys_cons [of x ys] assms unique_keys_snoc [of ys x]
      by (simp add: remove_last_item_def)
  qed (use assms in \<open>simp add: remove_last_item_def\<close>)
  ultimately show ?thesis by blast
qed

section \<open>Rollback\<close>

fun is_context_update :: "'j history_env \<Rightarrow> 'j response_item \<Rightarrow> bool" where
  "is_context_update env (Message _ role content _) \<longleftrightarrow>
     role = lit ''developer'' \<and> is_contextual_dev_message_content content \<or>
     role = lit ''user'' \<and> is_contextual_user_message_content env content"
| "is_context_update env i \<longleftrightarrow> False"

fun is_mixed_context :: "'j response_item \<Rightarrow> bool" where
  "is_mixed_context (Message _ role content _) \<longleftrightarrow>
     role = lit ''developer'' \<and> is_contextual_dev_message_content content \<and> has_non_contextual_dev_message_content content"
| "is_mixed_context i \<longleftrightarrow> False"

abbreviation turns_in :: "'j history_env \<Rightarrow> 'j response_item list \<Rightarrow> nat" where
  "turns_in env items \<equiv> length (filter (is_user_turn_boundary env) items)"

lemma trim_loop_trims:
  assumes "trim_pre_turn_context_updates env items first_idx n cleared = (m, cleared')"
  shows "m \<le> n \<and> (first_idx \<le> n \<longrightarrow> first_idx \<le> m) \<and>
    (first_idx \<le> n \<longrightarrow> m = first_idx \<or> 0 < m \<and> \<not> is_context_update env (items ! (m - 1))) \<and> (\<forall>i. m \<le> i \<and> i < n \<longrightarrow> is_context_update env (items ! i)) \<and>
    cleared' = (cleared \<or> (\<exists>i. m \<le> i \<and> i < n \<and> is_mixed_context (items ! i)))"
  using assms
proof (induction env items first_idx n cleared rule: trim_pre_turn_context_updates.induct)
  case (2 env items first_idx n cleared)
  show ?case
  proof (cases "first_idx < Suc n \<and> is_context_update env (items ! n)")
    case True
    then obtain a role content b where i: "items ! n = Message a role content b" by (cases "items ! n") auto
    have step: "trim_pre_turn_context_updates env items first_idx n (cleared \<or> is_mixed_context (items ! n)) = (m, cleared')"
      using 2(3) True i by (auto split: if_splits)
    have ih: "m \<le> n \<and> (first_idx \<le> n \<longrightarrow> first_idx \<le> m) \<and>
      (first_idx \<le> n \<longrightarrow> m = first_idx \<or> 0 < m \<and> \<not> is_context_update env (items ! (m - 1))) \<and> (\<forall>i. m \<le> i \<and> i < n \<longrightarrow> is_context_update env (items ! i)) \<and>
      cleared' = (cleared \<or> is_mixed_context (items ! n) \<or> (\<exists>i. m \<le> i \<and> i < n \<and> is_mixed_context (items ! i)))"
      using 2 True i step by (auto split: if_splits)
    then show ?thesis using True by (auto simp: less_Suc_eq)
  next
    case False
    then have "(m, cleared') = (Suc n, cleared)" using 2(3) by (auto split: if_splits response_item.splits)
    with False show ?thesis by auto
  qed
qed simp

definition positions_from :: "('a \<Rightarrow> bool) \<Rightarrow> nat \<Rightarrow> 'a list \<Rightarrow> nat list" where
  "positions_from p off items = map fst (filter (\<lambda>(idx, item). p item) (enumerate off items))"

lemma positions_from_simps [simp]:
  "positions_from p off [] = []"
  "positions_from p off (x # items) = (if p x then off # positions_from p (Suc off) items else positions_from p (Suc off) items)"
  by (simp_all add: positions_from_def)

lemma positions_at:
  assumes "j < length (positions_from p off items)"
  shows "off \<le> positions_from p off items ! j \<and> positions_from p off items ! j - off < length items \<and>
    p (items ! (positions_from p off items ! j - off)) \<and>
    length (filter p (take (positions_from p off items ! j - off) items)) = j"
  using assms
proof (induction items arbitrary: off j)
  case (Cons x items)
  show ?case
  proof (cases "p x \<and> j = 0")
    case True
    then show ?thesis by simp
  next
    case False
    define j' where "j' = (if p x then j - 1 else j)"
    have "j' < length (positions_from p (Suc off) items)" using Cons.prems False by (auto simp: j'_def)
    note ih = Cons.IH [OF this]
    have q: "positions_from p off (x # items) ! j = positions_from p (Suc off) items ! j'" using False by (cases j) (auto simp: j'_def)
    obtain d where d: "positions_from p (Suc off) items ! j' = Suc off + d" using ih by (metis le_iff_add)
    have "d < length items" "p (items ! d)" "length (filter p (take d items)) = j'" using ih by (simp_all add: d)
    then show ?thesis unfolding q d using False by (auto simp: j'_def)
  qed
qed simp

lemma length_positions: "length (user_message_positions env items) = turns_in env items"
proof -
  have "length (positions_from p off items) = length (filter p items)" for p :: "'a response_item \<Rightarrow> bool" and off
    by (induction items arbitrary: off) auto
  then show ?thesis by (simp add: user_message_positions_def flip: positions_from_def)
qed

lemma position_at:
  assumes "j < turns_in env items"
  defines "q \<equiv> user_message_positions env items ! j"
  shows "q < length items \<and> is_user_turn_boundary env (items ! q) \<and> turns_in env (take q items) = j"
  using positions_at [of j "is_user_turn_boundary env" 0 items] assms length_positions [of env items]
  by (simp add: user_message_positions_def flip: positions_from_def)

lemma context_update_no_turn: "is_context_update env i \<Longrightarrow> \<not> is_user_turn_boundary env i"
  by (cases "(env, i)" rule: is_context_update.cases) (auto simp: lit_def uc_def)

lemma takeWhile_prefix_take:
  assumes "q < length xs" "\<not> P (xs ! q)" "q \<le> m"
  shows "prefix (takeWhile P xs) (take m xs)"
proof -
  have "length (takeWhile P xs) \<le> q"
    using assms(1,2) by (metis leI nth_mem set_takeWhileD takeWhile_nth)
  then have "takeWhile P xs = take (length (takeWhile P xs)) (take m xs)"
    using assms(3) takeWhile_eq_take [of P xs] by (simp add: min_absorb1)
  then show ?thesis by (metis take_is_prefix)
qed

text \<open>The turn from which a rollback drops.\<close>

lemma rollback_cut:
  assumes "0 < n" "user_message_positions env items = first_idx # ps"
  defines "c \<equiv> (if length (first_idx # ps) \<le> n then first_idx else (first_idx # ps) ! (length (first_idx # ps) - n))"
  shows "first_idx \<le> c \<and> c < length items \<and> is_user_turn_boundary env (items ! c) \<and>
    turns_in env (take c items) = turns_in env items - n \<and> turns_in env (take first_idx items) = 0"
proof -
  let ?j = "if length (first_idx # ps) \<le> n then 0 else length (first_idx # ps) - n"
  have len: "turns_in env items = length (first_idx # ps)" using assms(2) length_positions [of env items] by simp
  have c: "c = user_message_positions env items ! ?j" using assms(2) by (simp add: c_def)
  have "?j < turns_in env items" using len assms(1) by simp
  from position_at [OF this] have at_c: "c < length items" "is_user_turn_boundary env (items ! c)"
    "turns_in env (take c items) = turns_in env items - n"
    using len unfolding c by auto
  have at_0: "turns_in env (take first_idx items) = 0" "first_idx < length items"
    using position_at [of 0 env items] len assms(2) by auto
  have "first_idx \<le> c"
  proof (rule ccontr)
    assume "\<not> first_idx \<le> c"
    then have "items ! c \<in> set (take first_idx items)" using at_c(1) by (force simp: in_set_conv_nth)
    then show False using at_0(1) at_c(2) by (auto simp: filter_empty_conv)
  qed
  with at_c at_0 show ?thesis by blast
qed

lemma trimmed_run:
  assumes "trim_pre_turn_context_updates env items first_idx c False = (m, cleared)" "first_idx \<le> c" "c < length items"
  defines "trimmed \<equiv> drop m (take c items)"
  shows "take c items = take m items @ trimmed" "list_all (is_context_update env) trimmed"
    and "cleared \<longleftrightarrow> list_ex is_mixed_context trimmed" "first_idx \<le> m" "m \<le> c"
    and "m = first_idx \<or> \<not> is_context_update env (last (take m items))"
proof -
  note t = trim_loop_trims [OF assms(1)]
  show "first_idx \<le> m" "m \<le> c" using t assms(2) by simp_all
  have "take m (take c items) = take m items" using t by (simp add: min_absorb1)
  then show "take c items = take m items @ trimmed" by (metis trimmed_def append_take_drop_id)
  have nth: "i < length trimmed \<Longrightarrow> trimmed ! i = items ! (m + i) \<and> m + i < c" for i using assms(3) by (auto simp: trimmed_def)
  show "list_all (is_context_update env) trimmed" using t nth by (auto simp: list_all_length)
  show "cleared \<longleftrightarrow> list_ex is_mixed_context trimmed"
  proof
    assume cleared
    then obtain i where "m \<le> i" "i < c" "is_mixed_context (items ! i)" using t by auto
    then show "list_ex is_mixed_context trimmed"
      using assms(3) by (auto simp: list_ex_length trimmed_def intro!: exI [of _ "i - m"])
  next
    assume "list_ex is_mixed_context trimmed"
    then show cleared using t nth by (fastforce simp: list_ex_length)
  qed
  show "m = first_idx \<or> \<not> is_context_update env (last (take m items))"
  proof (cases "m = first_idx")
    case False
    then have "0 < m" "\<not> is_context_update env (items ! (m - 1))" "m \<le> c" using t assms(2) by simp_all
    moreover from this have "last (take m items) = items ! (m - 1)" using assms(3) by (subst last_conv_nth) auto
    ultimately show ?thesis by simp
  qed simp
qed

lemma before_first_turn:
  assumes "user_message_positions env items = first_idx # ps" "turns_in env (take first_idx items) = 0"
  shows "takeWhile (\<lambda>i. \<not> is_user_turn_boundary env i) items = take first_idx items"
proof (rule takeWhile_eq_take_P_nth)
  have "0 < turns_in env items" using length_positions [of env items, unfolded assms(1)] by (metis length_Cons zero_less_Suc)
  from position_at [OF this] show "\<not> \<not> is_user_turn_boundary env (items ! first_idx)" using assms(1) by simp
  show "\<not> is_user_turn_boundary env (items ! i)" if "i < first_idx" "i < length items" for i
  proof -
    have "items ! i \<in> set (take first_idx items)" using that by (auto simp: in_set_conv_nth)
    with assms(2) show ?thesis by (simp add: filter_empty_conv)
  qed
qed


section \<open>Recording\<close>

fun output_bytes :: "'j response_item \<Rightarrow> nat" where
  "output_bytes (FunctionCallOutput _ p) = (case payload_body p of BodyText t \<Rightarrow> str_len t | BodyItems items \<Rightarrow> text_bytes items)"
| "output_bytes (CustomToolCallOutput _ _ p) = (case payload_body p of BodyText t \<Rightarrow> str_len t | BodyItems items \<Rightarrow> text_bytes items)"
| "output_bytes i = 0"

text \<open>What fits in memory.\<close>

definition payload_fits :: "output_payload \<Rightarrow> bool" where
  "payload_fits p \<longleftrightarrow>
     (case payload_body p of
        BodyText t \<Rightarrow> str_len t \<le> nat I64_MAX
      | BodyItems items \<Rightarrow> (\<forall>t. OutputItemText t \<in> set items \<longrightarrow> str_len t \<le> nat I64_MAX) \<and> length items \<le> USIZE_MAX)"

fun item_fits :: "'j response_item \<Rightarrow> bool" where
  "item_fits (FunctionCallOutput _ p) \<longleftrightarrow> payload_fits p"
| "item_fits (CustomToolCallOutput _ _ p) \<longleftrightarrow> payload_fits p"
| "item_fits i \<longleftrightarrow> True"

lemma truncated_payload:
  assumes "payload_fits p"
  shows "\<exists>p'. truncate_function_output_payload p policy = Some p' \<and> payload_success p' = payload_success p \<and>
    (case payload_body p' of BodyText t \<Rightarrow> str_len t | BodyItems items \<Rightarrow> text_bytes items) \<le> policy_bytes policy + 88"
proof (cases "payload_body p")
  case (BodyText t)
  then have "str_len t \<le> USIZE_MAX" using assms by (simp add: payload_fits_def I64_MAX_def USIZE_MAX_def)
  with truncate_text_bound [of t policy] BodyText show ?thesis
    by (auto simp: truncate_function_output_payload_def)
next
  case (BodyItems items)
  with truncated_output_bounded [of items policy] assms show ?thesis
    by (auto simp: truncate_function_output_payload_def payload_fits_def)
qed

text \<open>Recording keeps what an item is, and its keys.\<close>

lemma processed_item:
  assumes "item_fits i"
  shows "\<exists>i'. process_item i policy = Some i' \<and> call_key i' = call_key i \<and> output_key i' = output_key i \<and>
    output_bytes i' \<le> policy_bytes (policy_mul policy serialization_budget) + 88 \<and> (output_key i = None \<longrightarrow> i' = i)"
  using assms truncated_payload
  by (cases "(i, policy)" rule: process_item.cases) (fastforce simp: option.map_sel)+

text \<open>
  C13: recording items never panics and appends, in their order, those that are not system messages; they keep their
  identifiers, what is not an output is recorded as it is, and the text of a recorded output is bounded by the
  bytes of the policy with its allowance for serialisation, and 88 more for the markers.
\<close>

theorem recorded_outputs_bounded:
  assumes "list_all item_fits items"
  shows "\<exists>new h'. record_items items policy h = Some h' \<and> history_items h' = history_items h @ new \<and>
    list_all2 (\<lambda>i i'. call_key i' = call_key i \<and> output_key i' = output_key i \<and> (output_key i = None \<longrightarrow> i' = i) \<and>
      output_bytes i' \<le> policy_bytes (policy_mul policy serialization_budget) + 88) (filter is_api_message items) new"
  using assms
proof (induction items arbitrary: h)
  case Nil
  show ?case by (intro exI [of _ "[]"] exI [of _ h]) simp
next
  case (Cons i items)
  then have fits: "list_all item_fits items" "item_fits i" by simp_all
  show ?case
  proof (cases "is_api_message i")
    case False
    then show ?thesis using Cons.IH [OF fits(1), of h] by simp
  next
    case True
    obtain i' where i': "process_item i policy = Some i'" "call_key i' = call_key i" "output_key i' = output_key i"
      "output_bytes i' \<le> policy_bytes (policy_mul policy serialization_budget) + 88" "output_key i = None \<longrightarrow> i' = i"
      using processed_item [OF fits(2)] by blast
    from Cons.IH [OF fits(1), of "h\<lparr>history_items := history_items h @ [i']\<rparr>"] obtain new h' where
      "record_items items policy (h\<lparr>history_items := history_items h @ [i']\<rparr>) = Some h'"
      "history_items h' = history_items h @ i' # new"
      "list_all2 (\<lambda>i i'. call_key i' = call_key i \<and> output_key i' = output_key i \<and> (output_key i = None \<longrightarrow> i' = i) \<and>
        output_bytes i' \<le> policy_bytes (policy_mul policy serialization_budget) + 88) (filter is_api_message items) new"
      by auto
    then show ?thesis using True i' by (intro exI [of _ "i' # new"] exI [of _ h']) simp
  qed
qed

section \<open>A sample history\<close>

definition sample_call :: "unit response_item" where
  "sample_call = FunctionCall None [115] None [] [49]"

definition sample_output :: "str \<Rightarrow> unit response_item" where
  "sample_output t = FunctionCallOutput [49] (payload_from_text t)"

definition sample_user :: "unit response_item" where
  "sample_user = Message None (lit ''user'') [InputImage [97] None] None"

definition sample_history :: "(unit, unit) context_manager" where
  "sample_history = new_context_manager\<lparr>history_items := [sample_user, sample_call, sample_output [97]]\<rparr>"

definition sample_update :: "unit response_item" where
  "sample_update = Message None (lit ''developer'') [InputText (lit ''<model_switch>'')] None"

definition sample_turns :: "(unit, unit) context_manager" where
  "sample_turns = new_context_manager\<lparr>history_items := [sample_user, sample_call, sample_update, sample_user]\<rparr>"

definition sample_history_env :: "unit history_env" where
  "sample_history_env =
     \<lparr>xml_hook_prompt = (\<lambda>_. None), json_inter_agent = (\<lambda>_. False), json_length = (\<lambda>_. None),
      base64_image_size = (\<lambda>_. None)\<rparr>"

lemma sample_update_item: "is_contextual_dev_fragment (InputText (lit ''<model_switch>''))"
  by code_simp

lemma sample_paired: "paired (history_items sample_history)" "unique_keys (history_items sample_history)"
  by (simp_all add: sample_history_def paired_def sample_user_def sample_call_def sample_output_def unique_keys_def
      List.map_filter_simps)

text \<open>The witnesses: the prompt of the sample, a rollback, removals, and recording its output.\<close>

theorem prompt_is_paired_witness:
  "for_prompt False [TextModality] sample_history =
     Some [Message None (lit ''user'') [InputText IMAGE_CONTENT_OMITTED_PLACEHOLDER] None, sample_call, sample_output [97]]"
  using prompt_is_paired [of "[TextModality]" sample_history] sample_paired(1)
  by (auto simp: sample_history_def sample_user_def sample_call_def sample_output_def strip_content_def strip_payload_def
      payload_from_text_def)


theorem removal_keeps_pairs_witness: "history_items (remove_first_item (remove_first_item sample_history)) = [] \<and>
  paired (history_items (snd (remove_last_item sample_history)))"
  using removal_keeps_pairs [OF sample_paired]
  by (simp add: remove_first_item_def sample_history_def sample_user_def sample_call_def sample_output_def)

theorem recorded_outputs_bounded_witness:
  "\<exists>h'. record_items [sample_call, sample_output [97]] (PolicyBytes 0) sample_history = Some h' \<and>
     length (history_items h') = 5"
proof -
  have "list_all item_fits [sample_call, sample_output [97]]"
    by (simp add: sample_call_def sample_output_def payload_fits_def payload_from_text_def len_utf8_def I64_MAX_def)
  from recorded_outputs_bounded [OF this, of "PolicyBytes 0" sample_history] show ?thesis
    by (auto simp: sample_call_def sample_output_def sample_history_def dest!: list_all2_lengthD)
qed

end
