(* ===== verification/Ip_Address.thy ===== *)
theory Ip_Address
  imports Rust_Std
begin

text \<open>
  IP addresses as the standard library reads them (\<^verbatim>\<open>std::net\<close>), and the addresses that the managed proxy treats
  as not public, \<^verbatim>\<open>codex-rs/network-proxy/src/policy.rs\<close>.
\<close>

section \<open>Addresses\<close>

text \<open>A version 6 address is the list of its eight segments.\<close>

datatype ip_addr = V4 "32 word" | V6 "nat list"

definition ipv4_of :: "nat \<Rightarrow> nat \<Rightarrow> nat \<Rightarrow> nat \<Rightarrow> 32 word" where
  "ipv4_of a b c d = word_of_nat (((a * 256 + b) * 256 + c) * 256 + d)"

definition octet :: "nat \<Rightarrow> 32 word \<Rightarrow> nat" where
  "octet i ip = unat ip div 2 ^ (8 * (3 - i)) mod 256"

section \<open>Reading an address\<close>

definition to_digit :: "nat \<Rightarrow> uchar \<Rightarrow> nat option" where
  "to_digit radix c =
     (let d = (if 48 \<le> c \<and> c \<le> 57 then Some (c - 48)
               else if 97 \<le> c \<and> c \<le> 122 then Some (c - 87)
               else if 65 \<le> c \<and> c \<le> 90 then Some (c - 55) else None)
      in case d of Some n \<Rightarrow> if n < radix then Some n else None | None \<Rightarrow> None)"

definition read_number :: "nat \<Rightarrow> nat \<Rightarrow> bool \<Rightarrow> nat \<Rightarrow> str \<Rightarrow> (nat \<times> str) option" where
  "read_number radix max_digits allow_zero_prefix bound s =
     (let ds = takeWhile (\<lambda>c. to_digit radix c \<noteq> None) s;
          n = foldl (\<lambda>acc c. acc * radix + the (to_digit radix c)) 0 ds
      in if max_digits < length ds \<or> ds = [] then None
         else if \<not> allow_zero_prefix \<and> hd ds = 48 \<and> 1 < length ds then None
         else if bound < n then None
         else Some (n, drop (length ds) s))"

definition read_separator :: "uchar \<Rightarrow> nat \<Rightarrow> (str \<Rightarrow> 'a option) \<Rightarrow> str \<Rightarrow> 'a option" where
  "read_separator sep index inner s =
     (if index = 0 then inner s else case s of c # s' \<Rightarrow> if c = sep then inner s' else None | [] \<Rightarrow> None)"

definition read_ipv4 :: "str \<Rightarrow> (32 word \<times> str) option" where
  "read_ipv4 s =
     (let group = (\<lambda>i. read_separator 46 i (read_number 10 3 False 255)) in
      case group 0 s of None \<Rightarrow> None | Some (a, s) \<Rightarrow>
      case group 1 s of None \<Rightarrow> None | Some (b, s) \<Rightarrow>
      case group 2 s of None \<Rightarrow> None | Some (c, s) \<Rightarrow>
      case group 3 s of None \<Rightarrow> None | Some (d, s) \<Rightarrow> Some (ipv4_of a b c d, s))"

function read_groups :: "nat \<Rightarrow> nat \<Rightarrow> nat list \<Rightarrow> str \<Rightarrow> nat list \<times> bool \<times> str" where
  "read_groups limit i acc s =
     (if limit \<le> i then (acc, False, s)
      else case (if i < limit - 1 then read_separator 58 i read_ipv4 s else None) of
        Some (ip, s) \<Rightarrow> (acc @ [unat ip div 65536, unat ip mod 65536], True, s)
      | None \<Rightarrow>
          (case read_separator 58 i (read_number 16 4 True 65535) s of
             Some (g, s) \<Rightarrow> read_groups limit (i + 1) (acc @ [g]) s
           | None \<Rightarrow> (acc, False, s)))"
  by pat_completeness auto

termination by (relation "measure (\<lambda>(limit, i, acc, s). limit - i)") auto

declare read_groups.simps [simp del]

definition read_ipv6 :: "str \<Rightarrow> (nat list \<times> str) option" where
  "read_ipv6 s =
     (case read_groups 8 0 [] s of (head, ipv4, s) \<Rightarrow>
        if length head = 8 then Some (head, s)
        else if ipv4 then None
        else case s of
          c # c' # s \<Rightarrow>
            if c = 58 \<and> c' = 58 then
              (case read_groups (8 - (length head + 1)) 0 [] s of (tail, _, s) \<Rightarrow>
                 Some (head @ replicate (8 - length head - length tail) 0 @ tail, s))
            else None
        | _ \<Rightarrow> None)"

definition parse_ip :: "str \<Rightarrow> ip_addr option" where
  "parse_ip s =
     (case (case read_ipv4 s of Some (ip, s) \<Rightarrow> Some (V4 ip, s) | None \<Rightarrow> map_option (apfst V6) (read_ipv6 s)) of
        Some (ip, s) \<Rightarrow> if s = [] then Some ip else None
      | None \<Rightarrow> None)"

section \<open>Public addresses\<close>

definition ipv4_in_cidr :: "32 word \<Rightarrow> nat list \<Rightarrow> nat \<Rightarrow> bool" where
  "ipv4_in_cidr ip base bits \<longleftrightarrow>
     (let base = ipv4_of (base ! 0) (base ! 1) (base ! 2) (base ! 3);
          mask = (if bits = 0 then 0 else push_bit (32 - bits) (- 1))
      in and ip mask = and base mask)"

definition is_loopback_v4 :: "32 word \<Rightarrow> bool" where
  "is_loopback_v4 ip \<longleftrightarrow> octet 0 ip = 127"

definition is_private_v4 :: "32 word \<Rightarrow> bool" where
  "is_private_v4 ip \<longleftrightarrow> octet 0 ip = 10 \<or> octet 0 ip = 172 \<and> 16 \<le> octet 1 ip \<and> octet 1 ip \<le> 31 \<or>
     octet 0 ip = 192 \<and> octet 1 ip = 168"

definition is_link_local_v4 :: "32 word \<Rightarrow> bool" where
  "is_link_local_v4 ip \<longleftrightarrow> octet 0 ip = 169 \<and> octet 1 ip = 254"

definition is_multicast_v4 :: "32 word \<Rightarrow> bool" where
  "is_multicast_v4 ip \<longleftrightarrow> 224 \<le> octet 0 ip \<and> octet 0 ip \<le> 239"

definition is_non_public_ipv4 :: "32 word \<Rightarrow> bool" where
  "is_non_public_ipv4 ip \<longleftrightarrow>
     is_loopback_v4 ip \<or> is_private_v4 ip \<or> is_link_local_v4 ip \<or> ip = 0 \<or> is_multicast_v4 ip \<or> ip = - 1 \<or>
     ipv4_in_cidr ip [0, 0, 0, 0] 8 \<or> ipv4_in_cidr ip [100, 64, 0, 0] 10 \<or> ipv4_in_cidr ip [192, 0, 0, 0] 24 \<or>
     ipv4_in_cidr ip [192, 0, 2, 0] 24 \<or> ipv4_in_cidr ip [198, 18, 0, 0] 15 \<or> ipv4_in_cidr ip [198, 51, 100, 0] 24 \<or>
     ipv4_in_cidr ip [203, 0, 113, 0] 24 \<or> ipv4_in_cidr ip [240, 0, 0, 0] 4"

definition segment :: "nat list \<Rightarrow> nat \<Rightarrow> 16 word" where
  "segment ip i = word_of_nat (ip ! i)"

definition to_ipv4 :: "nat list \<Rightarrow> 32 word option" where
  "to_ipv4 ip =
     (if take 5 ip = [0, 0, 0, 0, 0] \<and> (ip ! 5 = 0 \<or> ip ! 5 = 0xFFFF)
      then Some (word_of_nat (ip ! 6 * 65536 + ip ! 7)) else None)"

definition is_loopback_v6 :: "nat list \<Rightarrow> bool" where
  "is_loopback_v6 ip \<longleftrightarrow> ip = [0, 0, 0, 0, 0, 0, 0, 1]"

definition is_non_public_ipv6 :: "nat list \<Rightarrow> bool" where
  "is_non_public_ipv6 ip \<longleftrightarrow>
     (case to_ipv4 ip of
        Some v4 \<Rightarrow> is_non_public_ipv4 v4 \<or> is_loopback_v6 ip
      | None \<Rightarrow>
          is_loopback_v6 ip \<or> ip = replicate 8 0 \<or> and (segment ip 0) 0xFF00 = 0xFF00 \<or>
          and (segment ip 0) 0xFE00 = 0xFC00 \<or> and (segment ip 0) 0xFFC0 = 0xFE80)"

fun is_non_public_ip :: "ip_addr \<Rightarrow> bool" where
  "is_non_public_ip (V4 ip) = is_non_public_ipv4 ip"
| "is_non_public_ip (V6 ip) = is_non_public_ipv6 ip"

fun is_loopback_ip :: "ip_addr \<Rightarrow> bool" where
  "is_loopback_ip (V4 ip) = is_loopback_v4 ip"
| "is_loopback_ip (V6 ip) = is_loopback_v6 ip"

section \<open>The blocks of addresses\<close>

text \<open>The blocks that are not public, by their first addresses and the bits they fix.\<close>

definition in_block :: "nat \<Rightarrow> nat \<times> nat \<Rightarrow> bool" where
  "in_block n b \<longleftrightarrow> n div 2 ^ (32 - snd b) = fst b div 2 ^ (32 - snd b)"

definition dotted :: "nat \<Rightarrow> nat \<Rightarrow> nat \<Rightarrow> nat \<Rightarrow> nat" where
  "dotted a b c d = ((a * 256 + b) * 256 + c) * 256 + d"

definition NON_PUBLIC_BLOCKS :: "(nat \<times> nat) list" where
  "NON_PUBLIC_BLOCKS =
     [(dotted 0 0 0 0, 8), (dotted 10 0 0 0, 8), (dotted 100 64 0 0, 10), (dotted 127 0 0 0, 8), (dotted 169 254 0 0, 16),
      (dotted 172 16 0 0, 12), (dotted 192 0 0 0, 24), (dotted 192 0 2 0, 24), (dotted 192 168 0 0, 16), (dotted 198 18 0 0, 15),
      (dotted 198 51 100 0, 24), (dotted 203 0 113 0, 24), (dotted 224 0 0 0, 4), (dotted 240 0 0 0, 4)]"

lemma and_high_bits: "and (w :: 32 word) (push_bit k (- 1)) = push_bit k (drop_bit k w)"
  by (rule bit_word_eqI) (simp only: push_bit_minus_one_eq_not_mask bit_and_iff bit_not_iff bit_mask_iff bit_push_bit_iff bit_drop_bit_eq comp_def, auto)

lemma push_drop_bit_iff:
  "push_bit k (drop_bit k (ip :: 32 word)) = push_bit k (drop_bit k base) \<longleftrightarrow> drop_bit k ip = drop_bit k base"
proof
  assume eq: "push_bit k (drop_bit k ip) = push_bit k (drop_bit k base)"
  show "drop_bit k ip = drop_bit k base"
  proof (rule bit_word_eqI)
    fix n
    have "bit (push_bit k (drop_bit k ip)) (k + n) = bit (push_bit k (drop_bit k base)) (k + n)" using eq by simp
    then show "bit (drop_bit k ip) n = bit (drop_bit k base) n"
      by (cases "k + n < 32") (simp_all only: bit_push_bit_iff bit_drop_bit_eq comp_def le_add1 possible_bit_def, auto dest: bit_imp_le_length)
  qed
qed simp

lemma and_mask_iff:
  "and (ip :: 32 word) (push_bit k (- 1)) = and base (push_bit k (- 1)) \<longleftrightarrow> unat ip div 2 ^ k = unat base div 2 ^ k"
  by (simp only: and_high_bits push_drop_bit_iff word_unat_eq_iff [of "drop_bit k ip"] unat_drop_bit_eq)
    (simp only: drop_bit_eq_div)


lemma ipv4_in_cidr_iff:
  assumes "a < 256" "b < 256" "c < 256" "d < 256" "0 < n" "n \<le> 32"
  shows "ipv4_in_cidr ip [a, b, c, d] n \<longleftrightarrow> in_block (unat ip) (dotted a b c d, n)"
proof -
  have "((a * 256 + b) * 256 + c) * 256 + d < 2 ^ 32" using assms by simp
  then have "unat (ipv4_of a b c d) = dotted a b c d"
    unfolding ipv4_of_def dotted_def by (simp only: unsigned_of_nat) (simp add: take_bit_nat_eq_self)
  then show ?thesis using assms(5) by (simp add: ipv4_in_cidr_def in_block_def Let_def and_mask_iff del: push_bit_minus_one_eq_not_mask)
qed

lemma octets_of_block:
  "octet 0 ip = unat ip div 65536 div 256"
  "octet 1 ip = unat ip div 65536 mod 256"
proof -
  have "unat ip < 4294967296" using unsigned_less [of ip, where ?'a = nat] by simp
  then have "unat ip div 65536 div 256 < 256" by (simp add: div_mult2_eq [symmetric] less_mult_imp_div_less)
  then show "octet 0 ip = unat ip div 65536 div 256" by (simp add: octet_def div_mult2_eq [symmetric])
  show "octet 1 ip = unat ip div 65536 mod 256" by (simp add: octet_def)
qed

lemma in_block_pair:
  "in_block n (dotted a 0 0 0, 8) \<longleftrightarrow> n div 65536 div 256 = a"
  "in_block n (dotted a b 0 0, 16) \<longleftrightarrow> n div 65536 = a * 256 + b"
  "in_block n (dotted a b 0 0, 12) \<longleftrightarrow> n div 65536 div 16 = (a * 256 + b) div 16"
proof -
  have "m div 1048576 = m div 65536 div 16" for m :: nat by (simp add: div_mult2_eq [symmetric])
  moreover have "dotted a b 0 0 div 65536 = a * 256 + b" by (simp add: dotted_def)
  ultimately show "in_block n (dotted a b 0 0, 12) \<longleftrightarrow> n div 65536 div 16 = (a * 256 + b) div 16" by (simp add: in_block_def)
qed (auto simp: in_block_def dotted_def div_mult2_eq)

lemma octet_pair: "b < 256 \<Longrightarrow> x div 256 = a \<and> x mod 256 = b \<longleftrightarrow> x = a * 256 + b" for x :: nat
proof
  assume "x div 256 = a \<and> x mod 256 = b"
  then show "x = a * 256 + b" using div_mult_mod_eq [of x 256] by simp
qed simp

lemma private_blocks:
  "is_private_v4 ip \<longleftrightarrow> list_ex (in_block (unat ip)) [(dotted 10 0 0 0, 8), (dotted 172 16 0 0, 12), (dotted 192 168 0 0, 16)]"
proof -
  have private_range: "x div 256 = 172 \<and> 16 \<le> x mod 256 \<and> x mod 256 \<le> 31 \<longleftrightarrow> x div 16 = (172 * 256 + 16) div 16" for x :: nat
  proof -
    define q t where "q = x div 256" and "t = x mod 256 div 16"
    have "x = x mod 256 + 16 * (16 * q)" by (simp add: q_def)
    then have "x div 16 = (x mod 256 + 16 * (16 * q)) div 16" by simp
    then have "x div 16 = 16 * q + t" by (simp add: t_def)
    moreover have "t < 16" unfolding t_def by (simp add: less_mult_imp_div_less)
    moreover have "16 \<le> x mod 256 \<and> x mod 256 \<le> 31 \<longleftrightarrow> t = 1" unfolding t_def by auto
    moreover have "t < 16 \<Longrightarrow> q = 172 \<and> t = 1 \<longleftrightarrow> 16 * q + t = 2753" by arith
    ultimately show ?thesis by (simp add: q_def [symmetric])
  qed
  have two_octets: "x div 256 = 192 \<and> x mod 256 = 168 \<longleftrightarrow> x = 192 * 256 + 168" for x :: nat
    using octet_pair [of 168 x 192] by simp
  show ?thesis
    by (simp only: is_private_v4_def octets_of_block list_ex_Cons_iff list_ex_Nil_iff in_block_pair private_range two_octets simp_thms)
qed

lemma multicast_block: "is_multicast_v4 ip \<longleftrightarrow> in_block (unat ip) (dotted 224 0 0 0, 4)"
proof -
  have "m div 268435456 = m div 65536 div 256 div 16" for m :: nat by (simp add: div_mult2_eq [symmetric])
  then have "in_block (unat ip) (dotted 224 0 0 0, 4) \<longleftrightarrow> unat ip div 65536 div 256 div 16 = 14"
    by (simp add: in_block_def dotted_def)
  moreover have "224 \<le> q \<and> q \<le> 239 \<longleftrightarrow> q div 16 = 14" for q :: nat by auto
  ultimately show ?thesis by (simp only: is_multicast_v4_def octets_of_block)
qed

lemma zero_block: "ip = 0 \<Longrightarrow> in_block (unat ip) (dotted 0 0 0 0, 8)"
  by (simp add: in_block_def dotted_def)

lemma broadcast_block: "ip = - 1 \<Longrightarrow> in_block (unat (ip :: 32 word)) (dotted 240 0 0 0, 4)"
  by (simp add: in_block_def dotted_def unsigned_minus_1_eq_mask mask_eq_exp_minus_1)

text \<open>
  The classification by octets, named addresses and masks (\<^verbatim>\<open>is_non_public_ipv4\<close>) is membership in fourteen blocks of
  addresses: an address is not public exactly when it lies in one of them.
\<close>

theorem non_public_ipv4_blocks: "is_non_public_ipv4 ip \<longleftrightarrow> list_ex (in_block (unat ip)) NON_PUBLIC_BLOCKS"
proof -
  have lo: "is_loopback_v4 ip \<longleftrightarrow> in_block (unat ip) (dotted 127 0 0 0, 8)"
    unfolding is_loopback_v4_def octets_of_block in_block_pair ..
  have ll: "is_link_local_v4 ip \<longleftrightarrow> in_block (unat ip) (dotted 169 254 0 0, 16)"
  proof -
    have "x div 256 = 169 \<and> x mod 256 = 254 \<longleftrightarrow> x = 169 * 256 + 254" for x :: nat
      using octet_pair [of 254 x 169] by simp
    then show ?thesis by (simp only: is_link_local_v4_def octets_of_block in_block_pair)
  qed
  show ?thesis
    using zero_block [of ip] broadcast_block [of ip]
    unfolding is_non_public_ipv4_def lo ll private_blocks multicast_block NON_PUBLIC_BLOCKS_def list_ex_Cons_iff list_ex_Nil_iff
    by (simp only: ipv4_in_cidr_iff) (auto simp: ipv4_in_cidr_iff)
qed

end
