(* ===== verification/Proxy_Config.thy ===== *)
theory Proxy_Config
  imports Ip_Address Abs_Path "HOL-Library.List_Lexorder"
begin

text \<open>
  \<^verbatim>\<open>codex-rs/network-proxy/src/config.rs\<close>: the settings of the managed network proxy. The theorems show that a
  denied pattern is never an allowed one, and that the proxy listens on loopback addresses whenever it can
  reach Unix sockets.
\<close>

section \<open>Permissions of domains\<close>

datatype domain_permission = DomainNone | DomainAllow | DomainDeny

fun permission_rank :: "domain_permission \<Rightarrow> nat" where
  "permission_rank DomainNone = 0"
| "permission_rank DomainAllow = 1"
| "permission_rank DomainDeny = 2"

lemma permission_rank_inject [simp]: "permission_rank p = permission_rank q \<longleftrightarrow> p = q"
  by (cases p; cases q) auto

instantiation domain_permission :: linorder
begin

definition less_eq_domain_permission :: "domain_permission \<Rightarrow> domain_permission \<Rightarrow> bool" where
  "less_eq_domain_permission p q \<longleftrightarrow> permission_rank p \<le> permission_rank q"

definition less_domain_permission :: "domain_permission \<Rightarrow> domain_permission \<Rightarrow> bool" where
  "less_domain_permission p q \<longleftrightarrow> permission_rank p < permission_rank q"

instance
  by standard (auto simp: less_eq_domain_permission_def less_domain_permission_def permission_rank_inject [symmetric]
      simp del: permission_rank_inject)

end

record domain_entry =
  entry_pattern :: str
  entry_permission :: domain_permission

lemma entry_in: "\<lparr>entry_pattern = p, entry_permission = q\<rparr> \<in> X \<longleftrightarrow> (\<exists>e \<in> X. entry_pattern e = p \<and> entry_permission e = q)"
proof -
  have "e = \<lparr>entry_pattern = p, entry_permission = q\<rparr> \<longleftrightarrow> entry_pattern e = p \<and> entry_permission e = q" for e :: domain_entry
    by (cases e) auto
  then show ?thesis by metis
qed

fun collect_entry :: "str list \<times> (str \<Rightarrow> domain_permission option) \<Rightarrow> domain_entry \<Rightarrow>
    str list \<times> (str \<Rightarrow> domain_permission option)" where
  "collect_entry (order, perms) e =
     (let pat = entry_pattern e;
          order = (if perms pat = None then order @ [pat] else order);
          current = (case perms pat of None \<Rightarrow> entry_permission e | Some p \<Rightarrow> p)
      in (order, perms(pat \<mapsto> (if current < entry_permission e then entry_permission e else current))))"

fun take_permissions :: "str list \<Rightarrow> (str \<Rightarrow> domain_permission option) \<Rightarrow> domain_entry list" where
  "take_permissions [] perms = []"
| "take_permissions (pat # order) perms =
     (case perms pat of
        Some p \<Rightarrow> \<lparr>entry_pattern = pat, entry_permission = p\<rparr> # take_permissions order (perms(pat := None))
      | None \<Rightarrow> take_permissions order perms)"

definition effective_domain_entries :: "domain_entry list \<Rightarrow> domain_entry list" where
  "effective_domain_entries es = (case foldl collect_entry ([], Map.empty) es of (order, perms) \<Rightarrow> take_permissions order perms)"

section \<open>Settings\<close>

datatype network_mode = Limited | Full

definition allows_method :: "network_mode \<Rightarrow> str \<Rightarrow> bool" where
  "allows_method mode verb =
     (case mode of Full \<Rightarrow> True | Limited \<Rightarrow> verb = lit ''GET'' \<or> verb = lit ''HEAD'' \<or> verb = lit ''OPTIONS'')"

datatype unix_permission = SocketAllow | SocketNone

text \<open>A \<^verbatim>\<open>BTreeMap\<close> is the list of its bindings in the order of their keys.\<close>

fun btree_insert :: "('k :: linorder) \<Rightarrow> 'v \<Rightarrow> ('k \<times> 'v) list \<Rightarrow> ('k \<times> 'v) list" where
  "btree_insert k v [] = [(k, v)]"
| "btree_insert k v ((k', v') # m) =
     (if k < k' then (k, v) # (k', v') # m else if k = k' then (k, v) # m else (k', v') # btree_insert k v m)"

record network_settings =
  net_enabled :: bool
  net_proxy_url :: str
  net_enable_socks5 :: bool
  net_socks_url :: str
  net_enable_socks5_udp :: bool
  net_allow_upstream_proxy :: bool
  net_allow_non_loopback :: bool
  net_allow_all_unix_sockets :: bool
  net_mode :: network_mode
  net_domains :: "domain_entry list option"
  net_unix_sockets :: "(str \<times> unix_permission) list option"
  net_allow_local_binding :: bool
  net_mitm :: bool

definition default_settings :: network_settings where
  "default_settings =
     \<lparr>net_enabled = False, net_proxy_url = lit ''http://127.0.0.1:3128'', net_enable_socks5 = True,
      net_socks_url = lit ''http://127.0.0.1:8081'', net_enable_socks5_udp = True, net_allow_upstream_proxy = True,
      net_allow_non_loopback = False, net_allow_all_unix_sockets = False, net_mode = Full, net_domains = None,
      net_unix_sockets = None, net_allow_local_binding = False, net_mitm = False\<rparr>"

definition domain_entries :: "domain_permission \<Rightarrow> network_settings \<Rightarrow> str list option" where
  "domain_entries p n =
     (case net_domains n of
        None \<Rightarrow> None
      | Some es \<Rightarrow>
          (let pats = map entry_pattern (filter (\<lambda>e. entry_permission e = p) (effective_domain_entries es))
           in if pats = [] then None else Some pats))"

definition allowed_domains :: "network_settings \<Rightarrow> str list option" where
  "allowed_domains = domain_entries DomainAllow"

definition denied_domains :: "network_settings \<Rightarrow> str list option" where
  "denied_domains = domain_entries DomainDeny"

definition allow_unix_sockets :: "network_settings \<Rightarrow> str list" where
  "allow_unix_sockets n =
     (case net_unix_sockets n of
        None \<Rightarrow> [] | Some m \<Rightarrow> map fst (filter (\<lambda>(_, p). p = SocketAllow) m))"

definition set_domain_list :: "domain_entry list \<Rightarrow> network_settings \<Rightarrow> network_settings" where
  "set_domain_list es n = n\<lparr>net_domains := if es = [] then None else Some es\<rparr>"

definition current_entries :: "network_settings \<Rightarrow> domain_entry list" where
  "current_entries n = (case net_domains n of None \<Rightarrow> [] | Some es \<Rightarrow> es)"

definition upsert_domain_permission :: "str \<Rightarrow> domain_permission \<Rightarrow> (str \<Rightarrow> str) \<Rightarrow> network_settings \<Rightarrow> network_settings" where
  "upsert_domain_permission host p nf n =
     set_domain_list
       (filter (\<lambda>e. nf (entry_pattern e) \<noteq> nf host) (current_entries n) @
        [\<lparr>entry_pattern = host, entry_permission = p\<rparr>]) n"

fun push_entries :: "str list \<Rightarrow> domain_permission \<Rightarrow> domain_entry list \<Rightarrow> domain_entry list" where
  "push_entries [] p es = es"
| "push_entries (pat # pats) p es =
     push_entries pats p
       (if list_ex (\<lambda>e. entry_pattern e = pat \<and> entry_permission e = p) es then es
        else es @ [\<lparr>entry_pattern = pat, entry_permission = p\<rparr>])"

definition set_domain_entries :: "str list \<Rightarrow> domain_permission \<Rightarrow> network_settings \<Rightarrow> network_settings" where
  "set_domain_entries pats p n =
     set_domain_list (push_entries pats p (filter (\<lambda>e. entry_permission e \<noteq> p) (current_entries n))) n"

definition set_allowed_domains :: "str list \<Rightarrow> network_settings \<Rightarrow> network_settings" where
  "set_allowed_domains pats = set_domain_entries pats DomainAllow"

definition set_denied_domains :: "str list \<Rightarrow> network_settings \<Rightarrow> network_settings" where
  "set_denied_domains pats = set_domain_entries pats DomainDeny"

definition set_unix_socket_entries :: "str list \<Rightarrow> unix_permission \<Rightarrow> network_settings \<Rightarrow> network_settings" where
  "set_unix_socket_entries paths p n =
     (let kept = filter (\<lambda>(_, q). q \<noteq> p) (case net_unix_sockets n of None \<Rightarrow> [] | Some m \<Rightarrow> m);
          m = foldl (\<lambda>m path. btree_insert path p m) kept paths
      in n\<lparr>net_unix_sockets := if m = [] then None else Some m\<rparr>)"

definition set_allow_unix_sockets :: "str list \<Rightarrow> network_settings \<Rightarrow> network_settings" where
  "set_allow_unix_sockets paths = set_unix_socket_entries paths SocketAllow"


section \<open>Addresses to listen on\<close>

record socket_addr =
  addr_ip :: ip_addr
  addr_port :: nat

definition loopback_addr :: "nat \<Rightarrow> socket_addr" where
  "loopback_addr port = \<lparr>addr_ip = V4 (ipv4_of 127 0 0 1), addr_port = port\<rparr>"

definition clamp_non_loopback :: "socket_addr \<Rightarrow> bool \<Rightarrow> socket_addr" where
  "clamp_non_loopback addr allow =
     (if is_loopback_ip (addr_ip addr) then addr
      else if allow then addr
      else loopback_addr (addr_port addr))"

definition clamp_bind_addrs :: "socket_addr \<Rightarrow> socket_addr \<Rightarrow> network_settings \<Rightarrow> socket_addr \<times> socket_addr" where
  "clamp_bind_addrs http socks cfg =
     (let http = clamp_non_loopback http (net_allow_non_loopback cfg);
          socks = clamp_non_loopback socks (net_allow_non_loopback cfg)
      in if allow_unix_sockets cfg = [] \<and> \<not> net_allow_all_unix_sockets cfg then (http, socks)
         else (loopback_addr (addr_port http), loopback_addr (addr_port socks)))"

text \<open>\<^verbatim>\<open>u16::from_str\<close>: an optional plus sign and decimal digits, at most 65535.\<close>

definition parse_u16 :: "str \<Rightarrow> nat option" where
  "parse_u16 s =
     (let ds = (case s of c # cs \<Rightarrow> if c = 43 then cs else s | [] \<Rightarrow> []);
          n = foldl (\<lambda>acc c. acc * 10 + (c - 48)) 0 ds
      in if ds = [] \<or> \<not> list_all is_ascii_digit ds \<or> 65535 < n then None else Some n)"

definition split_once_str :: "str \<Rightarrow> str \<Rightarrow> (str \<times> str) option" where
  "split_once_str sep s = (case str_find s sep of None \<Rightarrow> None | Some i \<Rightarrow> Some (take i s, drop (i + length sep) s))"

definition rsplit_once_char :: "uchar \<Rightarrow> str \<Rightarrow> (str \<times> str) option" where
  "rsplit_once_char c s =
     (if c \<in> set s then
        (let after = rev (takeWhile (\<lambda>d. d \<noteq> c) (rev s)) in Some (take (length s - length after - 1) s, after))
      else None)"

definition parse_host_port_fallback :: "str \<Rightarrow> nat \<Rightarrow> (str \<times> nat) option" where
  "parse_host_port_fallback input default_port =
     (let without_scheme = (case split_once_str (lit ''://'') input of Some (_, r) \<Rightarrow> r | None \<Rightarrow> input);
          host_port = hd (split_on slash without_scheme);
          host_port = (case rsplit_once_char 64 host_port of Some (_, r) \<Rightarrow> r | None \<Rightarrow> host_port)
      in case (if starts_with host_port [91] then str_find host_port [93] else None) of
        Some end_ix \<Rightarrow>
          (let host = drop 1 (take end_ix host_port);
               port = (case Option.bind (strip_prefix [58] (drop (end_ix + 1) host_port)) parse_u16 of
                         Some p \<Rightarrow> p | None \<Rightarrow> default_port)
           in if host = [] then None else Some (host, port))
      | None \<Rightarrow>
          (case (if count_list host_port 58 = 1 then rsplit_once_char 58 host_port else None) of
             Some (host, port) \<Rightarrow>
               if host = [] then None
               else Some (host, case parse_u16 port of Some p \<Rightarrow> p | None \<Rightarrow> default_port)
           | None \<Rightarrow> if host_port = [] then None else Some (host_port, default_port)))"

text \<open>
  The URL parser is an argument: the host and the port of a URL, when it parses; a URL may have no host.
\<close>

type_synonym url_parser = "str \<Rightarrow> (str option \<times> nat option) option"

definition trim_brackets :: "str \<Rightarrow> str" where
  "trim_brackets s = rev (dropWhile (\<lambda>c. c = 91 \<or> c = 93) (rev (dropWhile (\<lambda>c. c = 91 \<or> c = 93) s)))"

definition parse_host_port :: "url_parser \<Rightarrow> str \<Rightarrow> nat \<Rightarrow> (str \<times> nat) option" where
  "parse_host_port url_parse url default_port =
     (let trimmed = trim url;
          candidate = (if str_contains trimmed (lit ''://'') then trimmed else lit ''http://'' @ trimmed)
      in if trimmed = [] then None
         else if (case parse_ip trimmed of Some (V6 _) \<Rightarrow> \<not> starts_with trimmed [91] | _ \<Rightarrow> False) then Some (trimmed, default_port)
         else case url_parse candidate of
           Some (Some host, port) \<Rightarrow>
             (let host = trim_brackets host
              in if host = [] then None else Some (host, case port of Some p \<Rightarrow> p | None \<Rightarrow> default_port))
         | _ \<Rightarrow> parse_host_port_fallback trimmed default_port)"

definition resolve_addr :: "url_parser \<Rightarrow> str \<Rightarrow> nat \<Rightarrow> socket_addr option" where
  "resolve_addr url_parse url default_port =
     map_option
       (\<lambda>(host, port).
          let host = (if to_ascii_lowercase host = lit ''localhost'' then lit ''127.0.0.1'' else host)
          in case parse_ip host of Some ip \<Rightarrow> \<lparr>addr_ip = ip, addr_port = port\<rparr> | None \<Rightarrow> loopback_addr port)
       (parse_host_port url_parse url default_port)"

datatype validated_socket_path = NativePath abs_path_buf | UnixStyleAbsolute str

definition parse_socket_path :: "str option \<Rightarrow> str \<Rightarrow> validated_socket_path option" where
  "parse_socket_path home p =
     (if is_absolute p then map_option NativePath (from_absolute_path_checked home p)
      else if starts_with p [slash] then Some (UnixStyleAbsolute p)
      else None)"

definition validate_unix_socket_allowlist_paths :: "str option \<Rightarrow> network_settings \<Rightarrow> bool" where
  "validate_unix_socket_allowlist_paths home n \<longleftrightarrow>
     list_all (\<lambda>p. parse_socket_path home p \<noteq> None) (allow_unix_sockets n)"

definition resolve_runtime :: "str option \<Rightarrow> url_parser \<Rightarrow> network_settings \<Rightarrow> (socket_addr \<times> socket_addr) option" where
  "resolve_runtime home url_parse n =
     (if \<not> validate_unix_socket_allowlist_paths home n then None
      else case (resolve_addr url_parse (net_proxy_url n) 3128, resolve_addr url_parse (net_socks_url n) 8081) of
        (Some http, Some socks) \<Rightarrow> Some (clamp_bind_addrs http socks n)
      | _ \<Rightarrow> None)"

section \<open>Denied patterns win\<close>

definition permissions_of :: "str \<Rightarrow> domain_entry list \<Rightarrow> domain_permission set" where
  "permissions_of p es = entry_permission ` {e \<in> set es. entry_pattern e = p}"

lemma permissions_of_snoc:
  "permissions_of p (es @ [e]) = (if entry_pattern e = p then insert (entry_permission e) (permissions_of p es) else permissions_of p es)"
  by (auto simp: permissions_of_def)

lemma permissions_of_finite [simp]: "finite (permissions_of p es)"
  by (simp add: permissions_of_def)

lemma permissions_of_empty: "permissions_of p es = {} \<longleftrightarrow> p \<notin> entry_pattern ` set es"
  by (auto simp: permissions_of_def)

lemma collect_entries:
  assumes "foldl collect_entry ([], Map.empty) es = (order, perms)"
  shows "distinct order \<and> set order = entry_pattern ` set es \<and>
    perms = (\<lambda>p. if permissions_of p es = {} then None else Some (Max (permissions_of p es)))"
  using assms
proof (induction es arbitrary: order perms rule: rev_induct)
  case Nil
  then show ?case by (simp add: permissions_of_def)
next
  case (snoc e es)
  obtain order0 perms0 where fold: "foldl collect_entry ([], Map.empty) es = (order0, perms0)" by fastforce
  note IH = snoc.IH [OF fold]
  let ?pat = "entry_pattern e" and ?q = "entry_permission e"
  have order: "order = (if perms0 ?pat = None then order0 @ [?pat] else order0)"
    and perms: "perms = perms0(?pat \<mapsto> max (case perms0 ?pat of None \<Rightarrow> ?q | Some p \<Rightarrow> p) ?q)"
    using snoc.prems fold by (auto simp: Let_def max_def split: option.splits)
  have none: "perms0 ?pat = None \<longleftrightarrow> ?pat \<notin> set order0"
    using IH permissions_of_empty [of ?pat es] by simp
  have "distinct order \<and> set order = entry_pattern ` set (es @ [e])"
    using IH none order by auto
  moreover have "perms p = (if permissions_of p (es @ [e]) = {} then None else Some (Max (permissions_of p (es @ [e]))))" for p
    using IH perms by (auto simp: permissions_of_snoc max.commute)
  ultimately show ?case by blast
qed

lemma take_permissions_eq:
  "distinct order \<Longrightarrow> take_permissions order perms =
     map (\<lambda>p. \<lparr>entry_pattern = p, entry_permission = the (perms p)\<rparr>) (filter (\<lambda>p. perms p \<noteq> None) order)"
proof (induction order arbitrary: perms)
  case (Cons p order)
  then have "perms q = (perms(p := None)) q" if "q \<in> set order" for q using that by auto
  then show ?case using Cons by (auto split: option.splits cong: filter_cong map_cong)
qed simp


lemma in_effective_domain_entries:
  "\<lparr>entry_pattern = p, entry_permission = q\<rparr> \<in> set (effective_domain_entries es) \<longleftrightarrow> permissions_of p es \<noteq> {} \<and> q = Max (permissions_of p es)"
  and effective_domain_entries_distinct: "distinct (map entry_pattern (effective_domain_entries es))"
proof -
  obtain order perms where fold: "foldl collect_entry ([], Map.empty) es = (order, perms)" by fastforce
  note spec = collect_entries [OF fold]
  have eq: "effective_domain_entries es =
      map (\<lambda>p. \<lparr>entry_pattern = p, entry_permission = the (perms p)\<rparr>) (filter (\<lambda>p. perms p \<noteq> None) order)"
    using spec by (simp add: effective_domain_entries_def fold take_permissions_eq)
  show "\<lparr>entry_pattern = p, entry_permission = q\<rparr> \<in> set (effective_domain_entries es) \<longleftrightarrow>
      permissions_of p es \<noteq> {} \<and> q = Max (permissions_of p es)"
    using spec permissions_of_empty [of p es] by (auto simp: eq)
  show "distinct (map entry_pattern (effective_domain_entries es))"
    using spec by (simp add: eq comp_def)
qed

definition listed :: "str list option \<Rightarrow> str list" where
  "listed ps = (case ps of None \<Rightarrow> [] | Some ps \<Rightarrow> ps)"

lemma listed_domain_entries:
  "p \<in> set (listed (domain_entries q n)) \<longleftrightarrow>
     permissions_of p (current_entries n) \<noteq> {} \<and> q = Max (permissions_of p (current_entries n))"
proof (cases "net_domains n")
  case None
  then show ?thesis by (simp add: listed_def domain_entries_def current_entries_def permissions_of_def)
next
  case (Some es)
  have "p \<in> set (map entry_pattern (filter (\<lambda>e. entry_permission e = q) (effective_domain_entries es))) \<longleftrightarrow>
      \<lparr>entry_pattern = p, entry_permission = q\<rparr> \<in> set (effective_domain_entries es)"
    by (auto simp: entry_in)
  moreover have "listed (domain_entries q n) = map entry_pattern (filter (\<lambda>e. entry_permission e = q) (effective_domain_entries es))"
    using Some by (simp add: listed_def domain_entries_def Let_def)
  ultimately show ?thesis using Some by (simp only: in_effective_domain_entries) (simp add: current_entries_def)
qed

lemma permission_le:
  "q \<le> DomainDeny" "q \<le> DomainAllow \<longleftrightarrow> q \<noteq> DomainDeny" "DomainDeny \<le> q \<longleftrightarrow> q = DomainDeny" "DomainAllow \<le> q \<longleftrightarrow> q \<noteq> DomainNone"
  by (cases q; simp add: less_eq_domain_permission_def)+

lemma Max_permissions:
  assumes "finite P" "P \<noteq> {}"
  shows "DomainDeny = Max P \<longleftrightarrow> DomainDeny \<in> P" "DomainAllow = Max P \<longleftrightarrow> DomainAllow \<in> P \<and> DomainDeny \<notin> P"
proof -
  have in_P: "Max P \<in> P" using assms by (rule Max_in)
  have ge: "q \<in> P \<Longrightarrow> q \<le> Max P" for q using assms(1) by (rule Max_ge)
  show deny: "DomainDeny = Max P \<longleftrightarrow> DomainDeny \<in> P" using in_P ge [of DomainDeny] by (auto simp: permission_le)
  show "DomainAllow = Max P \<longleftrightarrow> DomainAllow \<in> P \<and> DomainDeny \<notin> P"
  proof
    assume "DomainAllow = Max P"
    then show "DomainAllow \<in> P \<and> DomainDeny \<notin> P" using in_P deny by auto
  next
    assume allow: "DomainAllow \<in> P \<and> DomainDeny \<notin> P"
    then have "Max P \<noteq> DomainNone" "Max P \<noteq> DomainDeny" using ge [of DomainAllow] in_P by (auto simp: permission_le)
    then show "DomainAllow = Max P" by (cases "Max P") auto
  qed
qed

lemma in_permissions_of: "q \<in> permissions_of p es \<longleftrightarrow> \<lparr>entry_pattern = p, entry_permission = q\<rparr> \<in> set es"
  by (auto simp: permissions_of_def entry_in)

lemma in_denied_domains:
  "p \<in> set (listed (denied_domains n)) \<longleftrightarrow> \<lparr>entry_pattern = p, entry_permission = DomainDeny\<rparr> \<in> set (current_entries n)"
  using Max_permissions(1) [OF permissions_of_finite [of p "current_entries n"]]
  unfolding denied_domains_def listed_domain_entries in_permissions_of [symmetric] by blast

lemma in_allowed_domains:
  "p \<in> set (listed (allowed_domains n)) \<longleftrightarrow>
     \<lparr>entry_pattern = p, entry_permission = DomainAllow\<rparr> \<in> set (current_entries n) \<and>
     \<lparr>entry_pattern = p, entry_permission = DomainDeny\<rparr> \<notin> set (current_entries n)"
  using Max_permissions(2) [OF permissions_of_finite [of p "current_entries n"]]
  unfolding allowed_domains_def listed_domain_entries in_permissions_of [symmetric] by blast

lemma domains_disjoint: "p \<in> set (listed (allowed_domains n)) \<Longrightarrow> p \<notin> set (listed (denied_domains n))"
  by (simp add: in_allowed_domains in_denied_domains)

lemma current_set_domain_list [simp]: "current_entries (set_domain_list es n) = es"
  by (simp add: current_entries_def set_domain_list_def)

text \<open>
  The lists a session writes: setting the permission of a host puts the host on the list of that permission and
  takes every pattern that normalises to it off both lists; the other patterns stay where they are. A pattern is never
  on both lists.
\<close>

theorem upsert_moves_host:
  "p \<in> set (listed (denied_domains (upsert_domain_permission h q nf n))) \<longleftrightarrow>
     (if nf p = nf h then p = h \<and> q = DomainDeny else p \<in> set (listed (denied_domains n)))"
  "p \<in> set (listed (allowed_domains (upsert_domain_permission h q nf n))) \<longleftrightarrow>
     (if nf p = nf h then p = h \<and> q = DomainAllow else p \<in> set (listed (allowed_domains n)))"
  by (auto simp: in_denied_domains in_allowed_domains upsert_domain_permission_def)

section \<open>Loopback addresses\<close>

lemma loopback_addr_ok [simp]: "is_loopback_ip (addr_ip (loopback_addr port))"
proof -
  have "octet 0 (ipv4_of 127 0 0 1) = 127"
    by (simp only: octet_def ipv4_of_def unsigned_of_nat) (simp add: take_bit_eq_mod)
  then show ?thesis by (simp add: loopback_addr_def is_loopback_v4_def)
qed

lemma clamp_ports [simp]: "addr_port (clamp_non_loopback a allow) = addr_port a"
  by (simp add: clamp_non_loopback_def loopback_addr_def)

lemma clamp_bind_addrs_loopback:
  assumes "clamp_bind_addrs http socks n = (h, s)"
    and "\<not> net_allow_non_loopback n \<or> allow_unix_sockets n \<noteq> [] \<or> net_allow_all_unix_sockets n"
  shows "is_loopback_ip (addr_ip h) \<and> is_loopback_ip (addr_ip s)"
  using assms by (auto simp: clamp_bind_addrs_def clamp_non_loopback_def Let_def split: if_splits)

end
