(* ===== verification/Proxy_Policy.thy ===== *)
theory Proxy_Policy
  imports Proxy_Config
begin

text \<open>
  \<^verbatim>\<open>codex-rs/network-proxy/src/policy.rs\<close> and \<^verbatim>\<open>state.rs\<close>: normal forms of hosts and patterns, the sets of globs
  the proxy matches hosts against, and the check of the settings against managed constraints. The glob library and
  the URL library are arguments (\<open>proxy_env\<close>). The theorems show that the sets depend on the patterns only up to
  case, that settings which pass the check carry every managed pattern into the set of denied hosts, and that
  the comparison of patterns is sound for the hosts they match.
\<close>

section \<open>Hosts\<close>

definition normalize_dns_host :: "str \<Rightarrow> str" where
  "normalize_dns_host h = trim_end_matches 46 (to_ascii_lowercase h)"

definition normalize_host :: "str \<Rightarrow> str" where
  "normalize_host h =
     (let h = trim h in
      case (if starts_with h [91] then str_find h [93] else None) of
        Some end_ix \<Rightarrow> normalize_dns_host (drop 1 (take end_ix h))
      | None \<Rightarrow>
          if count_list h 58 = 1 then normalize_dns_host (hd (split_on 58 h))
          else normalize_dns_host h)"

definition parse_host :: "str \<Rightarrow> str option" where
  "parse_host input = (let normalized = normalize_host input in if normalized = [] then None else Some normalized)"

definition without_scope :: "str \<Rightarrow> str" where
  "without_scope h = (case split_once_str [37] h of Some (ip, _) \<Rightarrow> ip | None \<Rightarrow> h)"

definition is_loopback_host :: "str \<Rightarrow> bool" where
  "is_loopback_host host \<longleftrightarrow>
     (let h = without_scope host in
      h = lit ''localhost'' \<or> (case parse_ip h of Some ip \<Rightarrow> is_loopback_ip ip | None \<Rightarrow> False))"

section \<open>Patterns\<close>

definition star :: str where "star = lit ''*''"
definition star_dot :: str where "star_dot = lit ''*.''"
definition star_star_dot :: str where "star_star_dot = lit ''**.''"

definition normalize_pattern :: "str \<Rightarrow> str" where
  "normalize_pattern p =
     (let p = trim p in
      if p = star then star
      else
        let (pre, remainder) =
              (case strip_prefix star_star_dot p of
                 Some d \<Rightarrow> (star_star_dot, d)
               | None \<Rightarrow> (case strip_prefix star_dot p of Some d \<Rightarrow> (star_dot, d) | None \<Rightarrow> ([], p)));
            remainder = normalize_host remainder
        in if pre = [] then remainder else pre @ remainder)"

datatype domain_pattern = ApexAndSubdomains str | SubdomainsOnly str | Exact str

definition parse_domain :: "str \<Rightarrow> (str \<Rightarrow> domain_pattern) \<Rightarrow> domain_pattern" where
  "parse_domain d build = (let d = trim d in if d = [] then Exact [] else build d)"

definition parse_domain_pattern :: "str \<Rightarrow> domain_pattern" where
  "parse_domain_pattern input =
     (let input = trim input in
      if input = [] then Exact []
      else case strip_prefix star_star_dot input of
        Some d \<Rightarrow> parse_domain d ApexAndSubdomains
      | None \<Rightarrow>
          (case strip_prefix star_dot input of
             Some d \<Rightarrow> parse_domain d SubdomainsOnly
           | None \<Rightarrow> Exact input))"

definition expand_domain_pattern :: "str \<Rightarrow> str list" where
  "expand_domain_pattern p =
     (case parse_domain_pattern p of
        Exact d \<Rightarrow> [d]
      | SubdomainsOnly d \<Rightarrow> [lit ''?*.'' @ d]
      | ApexAndSubdomains d \<Rightarrow> [d, lit ''?*.'' @ d])"

definition is_global_wildcard_domain_pattern :: "str \<Rightarrow> bool" where
  "is_global_wildcard_domain_pattern p \<longleftrightarrow> list_ex (\<lambda>c. c = star) (expand_domain_pattern (normalize_pattern p))"

text \<open>
  What the libraries do: whether a glob and a set of globs build, whether a glob matches a host without regard to
  case, and the canonical form of the host of a URL. A set matches a host when one of its globs does.
\<close>

record proxy_env =
  glob_builds :: "str \<Rightarrow> bool"
  glob_set_builds :: "str list \<Rightarrow> bool"
  glob_matches :: "str \<Rightarrow> str \<Rightarrow> bool"
  url_host :: "str \<Rightarrow> str option"

type_synonym glob_set = "str list"

definition set_matches :: "proxy_env \<Rightarrow> glob_set \<Rightarrow> str \<Rightarrow> bool" where
  "set_matches env gs h \<longleftrightarrow> list_ex (\<lambda>g. glob_matches env g h) gs"

datatype proxy_error =
  HostIsEmpty
| UnsupportedGlobalWildcard
| InvalidGlob str
| GlobSetTooLarge
| InvalidSocketPath
| InvalidValue str
| MitmUnavailable
| ReloadFailed

fun compile_candidates :: "proxy_env \<Rightarrow> str list \<Rightarrow> str list \<Rightarrow> proxy_error + str list" where
  "compile_candidates env [] seen = Inr seen"
| "compile_candidates env (c # cs) seen =
     (if c \<in> set seen then compile_candidates env cs seen
      else if \<not> glob_builds env c then Inl (InvalidGlob c)
      else compile_candidates env cs (seen @ [c]))"

datatype global_wildcard = AllowGlobal | RejectGlobal

fun compile_patterns :: "proxy_env \<Rightarrow> global_wildcard \<Rightarrow> str list \<Rightarrow> str list \<Rightarrow> proxy_error + str list" where
  "compile_patterns env gw [] seen = Inr seen"
| "compile_patterns env gw (p # ps) seen =
     (if gw = RejectGlobal \<and> is_global_wildcard_domain_pattern p then Inl UnsupportedGlobalWildcard
      else case compile_candidates env (expand_domain_pattern (normalize_pattern p)) seen of
        Inl e \<Rightarrow> Inl e
      | Inr seen \<Rightarrow> compile_patterns env gw ps seen)"

definition compile_globset_with_policy :: "proxy_env \<Rightarrow> str list \<Rightarrow> global_wildcard \<Rightarrow> proxy_error + glob_set" where
  "compile_globset_with_policy env ps gw =
     (case compile_patterns env gw ps [] of
        Inl e \<Rightarrow> Inl e
      | Inr gs \<Rightarrow> if glob_set_builds env gs then Inr gs else Inl GlobSetTooLarge)"

definition compile_allowlist_globset :: "proxy_env \<Rightarrow> str list \<Rightarrow> proxy_error + glob_set" where
  "compile_allowlist_globset env ps = compile_globset_with_policy env ps AllowGlobal"

definition compile_denylist_globset :: "proxy_env \<Rightarrow> str list \<Rightarrow> proxy_error + glob_set" where
  "compile_denylist_globset env ps = compile_globset_with_policy env ps RejectGlobal"

section \<open>Comparing patterns\<close>

definition parse_domain_for_constraints :: "proxy_env \<Rightarrow> str \<Rightarrow> str" where
  "parse_domain_for_constraints env d =
     (let d = trim_end_matches 46 (trim d);
          host = (if starts_with d [91] \<and> ends_with d [93] then drop 1 (butlast d) else d)
      in if d = [] then []
         else if 42 \<in> set host \<or> 63 \<in> set host \<or> 37 \<in> set host then d
         else case url_host env host of Some h \<Rightarrow> h | None \<Rightarrow> [])"

definition parse_for_constraints :: "proxy_env \<Rightarrow> str \<Rightarrow> domain_pattern" where
  "parse_for_constraints env input =
     (let input = trim input in
      if input = [] then Exact []
      else case strip_prefix star_star_dot input of
        Some d \<Rightarrow> ApexAndSubdomains (parse_domain_for_constraints env d)
      | None \<Rightarrow>
          (case strip_prefix star_dot input of
             Some d \<Rightarrow> SubdomainsOnly (parse_domain_for_constraints env d)
           | None \<Rightarrow> Exact (parse_domain_for_constraints env input)))"

definition normalize_domain :: "str \<Rightarrow> str" where
  "normalize_domain d = to_ascii_lowercase (trim_end_matches 46 d)"

definition domain_eq :: "str \<Rightarrow> str \<Rightarrow> bool" where
  "domain_eq l r \<longleftrightarrow> normalize_domain l = normalize_domain r"

definition is_subdomain_or_equal :: "str \<Rightarrow> str \<Rightarrow> bool" where
  "is_subdomain_or_equal child par \<longleftrightarrow>
     normalize_domain child = normalize_domain par \<or> ends_with (normalize_domain child) ([46] @ normalize_domain par)"

definition is_strict_subdomain :: "str \<Rightarrow> str \<Rightarrow> bool" where
  "is_strict_subdomain child par \<longleftrightarrow>
     normalize_domain child \<noteq> normalize_domain par \<and> ends_with (normalize_domain child) ([46] @ normalize_domain par)"

fun pattern_allows :: "domain_pattern \<Rightarrow> domain_pattern \<Rightarrow> bool" where
  "pattern_allows (Exact d) (Exact c) = domain_eq c d"
| "pattern_allows (Exact d) _ = False"
| "pattern_allows (SubdomainsOnly d) (Exact c) = is_strict_subdomain c d"
| "pattern_allows (SubdomainsOnly d) (SubdomainsOnly c) = is_subdomain_or_equal c d"
| "pattern_allows (SubdomainsOnly d) (ApexAndSubdomains c) = is_strict_subdomain c d"
| "pattern_allows (ApexAndSubdomains d) (Exact c) = is_subdomain_or_equal c d"
| "pattern_allows (ApexAndSubdomains d) (SubdomainsOnly c) = is_subdomain_or_equal c d"
| "pattern_allows (ApexAndSubdomains d) (ApexAndSubdomains c) = is_subdomain_or_equal c d"


section \<open>Managed constraints\<close>

record proxy_constraints =
  con_enabled :: "bool option"
  con_mode :: "network_mode option"
  con_allow_upstream_proxy :: "bool option"
  con_allow_non_loopback :: "bool option"
  con_allow_all_unix_sockets :: "bool option"
  con_allowed_domains :: "str list option"
  con_allowlist_expansion :: "bool option"
  con_denied_domains :: "str list option"
  con_denylist_expansion :: "bool option"
  con_allow_unix_sockets :: "str list option"
  con_allow_local_binding :: "bool option"

definition no_constraints :: proxy_constraints where
  "no_constraints =
     \<lparr>con_enabled = None, con_mode = None, con_allow_upstream_proxy = None, con_allow_non_loopback = None,
      con_allow_all_unix_sockets = None, con_allowed_domains = None, con_allowlist_expansion = None,
      con_denied_domains = None, con_denylist_expansion = None, con_allow_unix_sockets = None,
      con_allow_local_binding = None\<rparr>"

fun network_mode_rank :: "network_mode \<Rightarrow> nat" where
  "network_mode_rank Limited = 0"
| "network_mode_rank Full = 1"

definition no_global_wildcard :: "str list \<Rightarrow> bool" where
  "no_global_wildcard ps \<longleftrightarrow> \<not> list_ex is_global_wildcard_domain_pattern ps"

definition lowercase_set :: "str list \<Rightarrow> str set" where
  "lowercase_set ps = to_ascii_lowercase ` set ps"

text \<open>The checks of \<^verbatim>\<open>validate_policy_against_constraints\<close>: the field each is about, and whether it passes.\<close>

definition allowed_domains_check :: "proxy_env \<Rightarrow> network_settings \<Rightarrow> proxy_constraints \<Rightarrow> str list \<Rightarrow> bool" where
  "allowed_domains_check env n c managed =
     (let candidate = listed (allowed_domains n);
          denied = lowercase_set (listed (denied_domains n))
      in case con_allowlist_expansion c of
        Some True \<Rightarrow> lowercase_set managed \<subseteq> lowercase_set candidate \<union> denied
      | Some False \<Rightarrow> lowercase_set candidate = lowercase_set managed - denied
      | None \<Rightarrow>
          list_all (\<lambda>p. list_ex (\<lambda>m. pattern_allows (parse_for_constraints env m) (parse_for_constraints env p)) managed)
            candidate)"

definition denied_domains_check :: "network_settings \<Rightarrow> proxy_constraints \<Rightarrow> str list \<Rightarrow> bool" where
  "denied_domains_check n c managed =
     (let candidate = listed (denied_domains n)
      in case con_denylist_expansion c of
        Some False \<Rightarrow> lowercase_set candidate = lowercase_set managed
      | _ \<Rightarrow> lowercase_set managed \<subseteq> lowercase_set candidate)"

definition within_limit :: "bool \<Rightarrow> bool option \<Rightarrow> bool" where
  "within_limit candidate limit = (case limit of None \<Rightarrow> True | Some b \<Rightarrow> candidate \<longrightarrow> b)"

definition constraint_checks :: "proxy_env \<Rightarrow> network_settings \<Rightarrow> proxy_constraints \<Rightarrow> (str \<times> bool) list" where
  "constraint_checks env n c =
     [(lit ''network.denied_domains'', no_global_wildcard (listed (denied_domains n))),
      (lit ''network.enabled'', within_limit (net_enabled n) (con_enabled c)),
      (lit ''network.mode'',
         case con_mode c of None \<Rightarrow> True | Some m \<Rightarrow> network_mode_rank (net_mode n) \<le> network_mode_rank m),
      (lit ''network.allow_upstream_proxy'', within_limit (net_allow_upstream_proxy n) (con_allow_upstream_proxy c)),
      (lit ''network.dangerously_allow_non_loopback_proxy'', within_limit (net_allow_non_loopback n) (con_allow_non_loopback c)),
      (lit ''network.dangerously_allow_all_unix_sockets'',
         net_allow_all_unix_sockets n \<longrightarrow>
           (case con_allow_all_unix_sockets c of Some b \<Rightarrow> b | None \<Rightarrow> con_allow_unix_sockets c = None)),
      (lit ''network.allow_local_binding'', within_limit (net_allow_local_binding n) (con_allow_local_binding c)),
      (lit ''network.allowed_domains'',
         case con_allowed_domains c of None \<Rightarrow> True | Some managed \<Rightarrow> no_global_wildcard managed),
      (lit ''network.allowed_domains'',
         case con_allowed_domains c of None \<Rightarrow> True | Some managed \<Rightarrow> allowed_domains_check env n c managed),
      (lit ''network.denied_domains'',
         case con_denied_domains c of None \<Rightarrow> True | Some managed \<Rightarrow> no_global_wildcard managed),
      (lit ''network.denied_domains'',
         case con_denied_domains c of None \<Rightarrow> True | Some managed \<Rightarrow> denied_domains_check n c managed),
      (lit ''network.allow_unix_sockets'',
         case con_allow_unix_sockets c of
           None \<Rightarrow> True
         | Some managed \<Rightarrow> lowercase_set (allow_unix_sockets n) \<subseteq> lowercase_set managed)]"

fun first_violation :: "(str \<times> bool) list \<Rightarrow> proxy_error + unit" where
  "first_violation [] = Inr ()"
| "first_violation ((field, ok) # cs) = (if ok then first_violation cs else Inl (InvalidValue field))"

definition validate_policy_against_constraints ::
  "proxy_env \<Rightarrow> network_settings \<Rightarrow> proxy_constraints \<Rightarrow> proxy_error + unit" where
  "validate_policy_against_constraints env n c = first_violation (constraint_checks env n c)"

record blocked_event =
  event_host :: str
  event_reason :: str
  event_client :: "str option"
  event_verb :: "str option"
  event_mode :: "network_mode option"
  event_protocol :: str
  event_decision :: "str option"
  event_source :: "str option"
  event_port :: "nat option"
  event_time :: int

record config_state =
  cs_config :: network_settings
  cs_allow_set :: glob_set
  cs_deny_set :: glob_set
  cs_mitm :: bool
  cs_constraints :: proxy_constraints
  cs_blocked :: "blocked_event list"
  cs_blocked_total :: nat

text \<open>
  Building the state: the home directory for the socket paths, and whether the certificate authority of
  \<^verbatim>\<open>MitmState::new\<close> can be loaded, are arguments.
\<close>

definition build_config_state ::
  "proxy_env \<Rightarrow> str option \<Rightarrow> bool \<Rightarrow> network_settings \<Rightarrow> proxy_constraints \<Rightarrow> proxy_error + config_state" where
  "build_config_state env home mitm_ready n c =
     (if \<not> validate_unix_socket_allowlist_paths home n then Inl InvalidSocketPath
      else if \<not> no_global_wildcard (listed (denied_domains n)) then Inl (InvalidValue (lit ''network.denied_domains''))
      else case compile_denylist_globset env (listed (denied_domains n)) of
        Inl e \<Rightarrow> Inl e
      | Inr deny \<Rightarrow>
          (case compile_allowlist_globset env (listed (allowed_domains n)) of
             Inl e \<Rightarrow> Inl e
           | Inr allow \<Rightarrow>
               if net_mitm n \<and> \<not> mitm_ready then Inl MitmUnavailable
               else Inr \<lparr>cs_config = n, cs_allow_set = allow, cs_deny_set = deny, cs_mitm = net_mitm n,
                         cs_constraints = c, cs_blocked = [], cs_blocked_total = 0\<rparr>))"

section \<open>Case does not matter\<close>

lemma lowercase_char_simps:
  "to_ascii_lowercase_char c = 46 \<longleftrightarrow> c = 46" "to_ascii_lowercase_char c = 42 \<longleftrightarrow> c = 42"
  "to_ascii_lowercase_char c = 58 \<longleftrightarrow> c = 58" "to_ascii_lowercase_char c = 91 \<longleftrightarrow> c = 91"
  "to_ascii_lowercase_char c = 93 \<longleftrightarrow> c = 93" "is_whitespace (to_ascii_lowercase_char c) = is_whitespace c"
  "to_ascii_lowercase_char (to_ascii_lowercase_char c) = to_ascii_lowercase_char c"
  by (auto simp: to_ascii_lowercase_char_def is_whitespace_def)

lemma lowercase_idem [simp]: "to_ascii_lowercase (to_ascii_lowercase s) = to_ascii_lowercase s"
  by (simp add: to_ascii_lowercase_def lowercase_char_simps comp_def)

lemma lowercase_append: "to_ascii_lowercase (s @ t) = to_ascii_lowercase s @ to_ascii_lowercase t"
  by (simp add: to_ascii_lowercase_def)

lemma dropWhile_lowercase:
  "(\<And>c. P (to_ascii_lowercase_char c) = P c) \<Longrightarrow>
     dropWhile P (map to_ascii_lowercase_char s) = map to_ascii_lowercase_char (dropWhile P s)"
  by (induction s) auto

lemma trim_lowercase: "trim (to_ascii_lowercase s) = to_ascii_lowercase (trim s)"
  unfolding to_ascii_lowercase_def trim_def trim_start_def trim_end_def
  by (simp add: dropWhile_lowercase lowercase_char_simps rev_map)

lemma trim_dots_lowercase: "trim_end_matches 46 (to_ascii_lowercase s) = to_ascii_lowercase (trim_end_matches 46 s)"
  unfolding to_ascii_lowercase_def trim_end_matches_def
  by (simp add: dropWhile_lowercase lowercase_char_simps rev_map eq_commute [of 46])

lemma prefix_lowercase:
  "(\<And>c x. c \<in> set p \<Longrightarrow> to_ascii_lowercase_char x = c \<longleftrightarrow> x = c) \<Longrightarrow> prefix p (map to_ascii_lowercase_char s) \<longleftrightarrow> prefix p s"
proof (induction p arbitrary: s)
  case (Cons c p)
  then show ?case by (cases s) (simp_all, metis)
qed simp


lemma strip_prefix_lowercase:
  assumes "\<And>c x. c \<in> set p \<Longrightarrow> to_ascii_lowercase_char x = c \<longleftrightarrow> x = c"
  shows "strip_prefix p (to_ascii_lowercase s) = map_option to_ascii_lowercase (strip_prefix p s)"
  using prefix_lowercase [OF assms, of p s] unfolding strip_prefix_def starts_with_prefix [symmetric] starts_with_def
  by (auto simp: to_ascii_lowercase_def drop_map)

lemma str_find_lowercase:
  assumes "\<And>x. to_ascii_lowercase_char x = c \<longleftrightarrow> x = c"
  shows "str_find (to_ascii_lowercase s) [c] = str_find s [c]"
  by (induction s) (simp_all add: to_ascii_lowercase_def str_find_Cons assms str_find_Nil starts_with_def)

lemma count_lowercase:
  assumes "\<And>x. to_ascii_lowercase_char x = c \<longleftrightarrow> x = c"
  shows "count_list (to_ascii_lowercase s) c = count_list s c"
  by (induction s) (simp_all add: to_ascii_lowercase_def assms eq_commute [of c])

lemma split_lowercase:
  assumes "\<And>x. to_ascii_lowercase_char x = c \<longleftrightarrow> x = c"
  shows "split_on c (to_ascii_lowercase s) = map to_ascii_lowercase (split_on c s)"
  by (induction s) (auto simp: to_ascii_lowercase_def assms hd_map split: list.splits)

lemma normalize_host_lowercase: "normalize_host (to_ascii_lowercase h) = normalize_host h"
proof -
  let ?t = "trim h"
  have lower: "trim (to_ascii_lowercase h) = to_ascii_lowercase ?t" by (rule trim_lowercase)
  have bracket: "starts_with (to_ascii_lowercase ?t) [91] = starts_with ?t [91]"
    using prefix_lowercase [of "[91]" ?t] by (simp add: starts_with_prefix to_ascii_lowercase_def lowercase_char_simps)
  have inner: "drop 1 (take i (to_ascii_lowercase ?t)) = to_ascii_lowercase (drop 1 (take i ?t))" for i
    by (simp add: to_ascii_lowercase_def take_map drop_map)
  have first: "hd (split_on 58 (to_ascii_lowercase ?t)) = to_ascii_lowercase (hd (split_on 58 ?t))"
    by (simp add: split_lowercase lowercase_char_simps hd_map)
  have dns: "normalize_dns_host (to_ascii_lowercase s) = normalize_dns_host s" for s by (simp add: normalize_dns_host_def)
  show ?thesis
    by (simp add: normalize_host_def Let_def lower bracket inner first dns str_find_lowercase count_lowercase lowercase_char_simps
        del: One_nat_def cong: option.case_cong if_cong)
qed

lemma normalize_pattern_lowercase: "normalize_pattern (to_ascii_lowercase p) = normalize_pattern p"
proof -
  have wild: "c = 42 \<or> c = 46 \<Longrightarrow> to_ascii_lowercase_char x = c \<longleftrightarrow> x = c" for c x by (auto simp: lowercase_char_simps)
  have strip: "strip_prefix star_star_dot (to_ascii_lowercase s) = map_option to_ascii_lowercase (strip_prefix star_star_dot s)"
    "strip_prefix star_dot (to_ascii_lowercase s) = map_option to_ascii_lowercase (strip_prefix star_dot s)" for s
    by (rule strip_prefix_lowercase; rule wild; auto simp: star_star_dot_def star_dot_def lit_def uc_def)+
  have "to_ascii_lowercase s = star \<longleftrightarrow> s = star" for s
    by (cases s; simp add: star_def lit_def uc_def to_ascii_lowercase_def lowercase_char_simps)
  then show ?thesis
    by (simp add: normalize_pattern_def Let_def trim_lowercase strip normalize_host_lowercase split: option.splits)
qed

section \<open>What the sets hold\<close>

lemma compile_candidates_set:
  "compile_candidates env cs seen = Inr gs \<Longrightarrow> set gs = set cs \<union> set seen \<and> prefix seen gs"
proof (induction cs arbitrary: seen)
  case (Cons c cs)
  then show ?case by (auto split: if_splits dest: append_prefixD)
qed simp

lemma compile_patterns_set:
  "compile_patterns env gw ps seen = Inr gs \<Longrightarrow>
     set gs = set seen \<union> (\<Union>p \<in> set ps. set (expand_domain_pattern (normalize_pattern p))) \<and>
     (gw = RejectGlobal \<longrightarrow> no_global_wildcard ps)"
proof (induction ps arbitrary: seen)
  case Nil
  then show ?case by (simp add: no_global_wildcard_def)
next
  case (Cons p ps)
  then obtain mid where mid: "compile_candidates env (expand_domain_pattern (normalize_pattern p)) seen = Inr mid"
    and more: "compile_patterns env gw ps mid = Inr gs" and ok: "gw = RejectGlobal \<longrightarrow> \<not> is_global_wildcard_domain_pattern p"
    by (auto split: if_splits sum.splits)
  show ?case using Cons.IH [OF more] compile_candidates_set [OF mid] ok by (auto simp: no_global_wildcard_def)
qed

lemma compile_globset_set:
  "compile_globset_with_policy env ps gw = Inr gs \<Longrightarrow>
     set gs = (\<Union>p \<in> set ps. set (expand_domain_pattern (normalize_pattern p)))"
  using compile_patterns_set [of env gw ps "[]"]
  by (auto simp: compile_globset_with_policy_def split: sum.splits if_splits)

text \<open>The hosts a pattern matches, up to its case.\<close>

definition pattern_matches :: "proxy_env \<Rightarrow> str \<Rightarrow> str \<Rightarrow> bool" where
  "pattern_matches env p h \<longleftrightarrow> set_matches env (expand_domain_pattern (normalize_pattern p)) h"

lemma pattern_matches_lowercase:
  "to_ascii_lowercase p = to_ascii_lowercase q \<Longrightarrow> pattern_matches env p h \<longleftrightarrow> pattern_matches env q h"
  using normalize_pattern_lowercase [of p] normalize_pattern_lowercase [of q] by (simp add: pattern_matches_def)

lemma compiled_match:
  "compile_globset_with_policy env ps gw = Inr gs \<Longrightarrow> set_matches env gs h \<longleftrightarrow> (\<exists>p \<in> set ps. pattern_matches env p h)"
  using compile_globset_set [of env ps gw gs] by (auto simp: set_matches_def pattern_matches_def list_ex_iff)

lemma first_violation_ok: "first_violation cs = Inr () \<longleftrightarrow> (\<forall>(field, ok) \<in> set cs. ok)"
  by (induction cs) (auto split: if_splits)

text \<open>A state is coherent: its sets come from its settings, and the settings pass the check.\<close>

definition state_coherent :: "proxy_env \<Rightarrow> config_state \<Rightarrow> bool" where
  "state_coherent env s \<longleftrightarrow>
     compile_denylist_globset env (listed (denied_domains (cs_config s))) = Inr (cs_deny_set s) \<and>
     compile_allowlist_globset env (listed (allowed_domains (cs_config s))) = Inr (cs_allow_set s) \<and>
     validate_policy_against_constraints env (cs_config s) (cs_constraints s) = Inr ()"

lemma build_config_state_coherent:
  assumes "build_config_state env home ready n c = Inr s" "validate_policy_against_constraints env n c = Inr ()"
  shows "state_coherent env s"
  using assms by (auto simp: build_config_state_def state_coherent_def split: if_splits sum.splits)

lemma validated_denied_domains:
  assumes "validate_policy_against_constraints env n c = Inr ()" "con_denied_domains c = Some managed" "p \<in> set managed"
  shows "\<exists>q \<in> set (listed (denied_domains n)). to_ascii_lowercase q = to_ascii_lowercase p"
proof -
  have "denied_domains_check n c managed"
    using assms(1,2) unfolding validate_policy_against_constraints_def first_violation_ok by (simp add: constraint_checks_def)
  then have "lowercase_set managed \<subseteq> lowercase_set (listed (denied_domains n))"
    by (auto simp: denied_domains_check_def Let_def split: option.splits bool.splits if_splits)
  then have "to_ascii_lowercase p \<in> to_ascii_lowercase ` set (listed (denied_domains n))"
    using assms(3) by (auto simp: lowercase_set_def)
  then show ?thesis by (metis imageE)
qed

lemma managed_denied_matches:
  assumes "state_coherent env s" "con_denied_domains (cs_constraints s) = Some managed" "p \<in> set managed"
    and "pattern_matches env p h"
  shows "set_matches env (cs_deny_set s) h"
proof -
  obtain q where "q \<in> set (listed (denied_domains (cs_config s)))" "to_ascii_lowercase q = to_ascii_lowercase p"
    using validated_denied_domains assms(1-3) unfolding state_coherent_def by blast
  then show ?thesis
    using compiled_match [of env _ RejectGlobal "cs_deny_set s" h] pattern_matches_lowercase [of q p env h] assms(1,4)
    unfolding state_coherent_def compile_denylist_globset_def by blast
qed


section \<open>Allowlists within the managed one\<close>

text \<open>
  Plain patterns: a domain of letters, digits and hyphens in dotted labels, without a Punycode prefix, the last label
  starting with a letter, alone or behind one of the wildcard prefixes. The laws of \<open>proxy_laws\<close> are what the glob
  and the URL library document for them: letters match themselves without regard to case, a question mark matches
  one character and a star any characters, and the canonical form of such a host is its lower case.
\<close>

definition plain_char :: "uchar \<Rightarrow> bool" where
  "plain_char c \<longleftrightarrow> is_ascii_alphanumeric c \<or> c = 45 \<or> c = 46"

definition plain_domain :: "str \<Rightarrow> bool" where
  "plain_domain d \<longleftrightarrow>
     d \<noteq> [] \<and> list_all plain_char d \<and> hd d \<noteq> 46 \<and> last d \<noteq> 46 \<and>
     \<not> str_contains (to_ascii_lowercase d) (lit ''xn--'') \<and>
     (let label = last (split_on 46 d) in is_ascii_alphanumeric (hd label) \<and> \<not> is_ascii_digit (hd label))"

definition pattern_of :: "str \<Rightarrow> domain_pattern" where
  "pattern_of p =
     (case strip_prefix star_star_dot p of
        Some d \<Rightarrow> ApexAndSubdomains d
      | None \<Rightarrow> (case strip_prefix star_dot p of Some d \<Rightarrow> SubdomainsOnly d | None \<Rightarrow> Exact p))"

fun pattern_domain :: "domain_pattern \<Rightarrow> str" where
  "pattern_domain (ApexAndSubdomains d) = d"
| "pattern_domain (SubdomainsOnly d) = d"
| "pattern_domain (Exact d) = d"

fun map_pattern :: "(str \<Rightarrow> str) \<Rightarrow> domain_pattern \<Rightarrow> domain_pattern" where
  "map_pattern f (ApexAndSubdomains d) = ApexAndSubdomains (f d)"
| "map_pattern f (SubdomainsOnly d) = SubdomainsOnly (f d)"
| "map_pattern f (Exact d) = Exact (f d)"

definition plain_pattern :: "str \<Rightarrow> bool" where
  "plain_pattern p \<longleftrightarrow> plain_domain (pattern_domain (pattern_of p))"

definition below_domain :: "str \<Rightarrow> str \<Rightarrow> bool" where
  "below_domain h d \<longleftrightarrow> suffix (46 # d) h \<and> length d + 1 < length h"

definition proxy_laws :: "proxy_env \<Rightarrow> bool" where
  "proxy_laws env \<longleftrightarrow>
     (\<forall>d h. plain_domain d \<longrightarrow>
        glob_matches env d h = (to_ascii_lowercase h = to_ascii_lowercase d) \<and>
        glob_matches env (lit ''?*.'' @ d) h = below_domain (to_ascii_lowercase h) (to_ascii_lowercase d) \<and>
        url_host env d = Some (to_ascii_lowercase d))"

fun host_in :: "domain_pattern \<Rightarrow> str \<Rightarrow> bool" where
  "host_in (Exact d) h \<longleftrightarrow> h = d"
| "host_in (SubdomainsOnly d) h \<longleftrightarrow> below_domain h d"
| "host_in (ApexAndSubdomains d) h \<longleftrightarrow> h = d \<or> below_domain h d"

lemma plain_char_space: "plain_char c \<Longrightarrow> \<not> is_whitespace c \<and> c \<notin> {37, 42, 58, 63, 91, 93}"
  by (auto simp: plain_char_def is_ascii_alphanumeric_def is_ascii_digit_def is_whitespace_def)

lemma plain_char_lowercase: "plain_char c \<Longrightarrow> plain_char (to_ascii_lowercase_char c)"
  by (auto simp: plain_char_def is_ascii_alphanumeric_def is_ascii_digit_def to_ascii_lowercase_char_def)

lemma trim_no_space: "(s = [] \<or> \<not> is_whitespace (hd s) \<and> \<not> is_whitespace (last s)) \<Longrightarrow> trim s = s"
  unfolding trim_def trim_start_def trim_end_def
  using iffD2 [OF dropWhile_eq_self_iff, of s is_whitespace] iffD2 [OF dropWhile_eq_self_iff, of "rev s" is_whitespace]
  by (auto simp: hd_rev)

lemma plain_domain_facts:
  assumes "plain_domain d"
  shows "d \<noteq> []" "trim d = d" "trim_end_matches 46 d = d" "58 \<notin> set d" "42 \<notin> set d" "63 \<notin> set d" "37 \<notin> set d"
    "\<not> starts_with d [91]" "c \<in> set d \<Longrightarrow> plain_char c"
proof -
  have chars: "c \<in> set d \<Longrightarrow> plain_char c" for c using assms by (auto simp: plain_domain_def list_all_iff)
  show ne: "d \<noteq> []" using assms by (simp add: plain_domain_def)
  have "plain_char (hd d)" "plain_char (last d)" using chars ne by simp_all
  then show "trim d = d" using plain_char_space by (intro trim_no_space) blast
  show "trim_end_matches 46 d = d"
    using assms ne by (cases d rule: rev_cases) (auto simp: plain_domain_def trim_end_matches_def)
  show "58 \<notin> set d" "42 \<notin> set d" "63 \<notin> set d" "37 \<notin> set d" using chars plain_char_space by blast+
  show "\<not> starts_with d [91]" using chars [of "hd d"] plain_char_space ne by (cases d) (auto simp: starts_with_def)
  show "c \<in> set d \<Longrightarrow> plain_char c" by (rule chars)
qed

lemma plain_domain_lowercase: "plain_domain d \<Longrightarrow> plain_domain (to_ascii_lowercase d)"
proof -
  assume d: "plain_domain d"
  have chars: "list_all plain_char (to_ascii_lowercase d)"
    using plain_domain_facts(9) [OF d] plain_char_lowercase by (auto simp: list_all_iff to_ascii_lowercase_def)
  have ends: "hd (to_ascii_lowercase d) \<noteq> 46" "last (to_ascii_lowercase d) \<noteq> 46"
    using d by (auto simp: plain_domain_def to_ascii_lowercase_def hd_map last_map lowercase_char_simps)
  have ne: "to_ascii_lowercase d \<noteq> []" using d by (simp add: plain_domain_def to_ascii_lowercase_def)
  have "last (split_on 46 (to_ascii_lowercase d)) = to_ascii_lowercase (last (split_on 46 d))"
    by (simp add: split_lowercase lowercase_char_simps last_map)
  moreover have "last (split_on 46 d) \<noteq> []" using d by (simp add: last_split_on plain_domain_def)
  ultimately have "hd (last (split_on 46 (to_ascii_lowercase d))) = to_ascii_lowercase_char (hd (last (split_on 46 d)))"
    by (simp add: to_ascii_lowercase_def hd_map)
  then show ?thesis
    using d chars ends ne
    by (auto simp: plain_domain_def Let_def is_ascii_alphanumeric_def is_ascii_digit_def to_ascii_lowercase_char_def)
qed


lemma normalize_plain_host: "plain_domain d \<Longrightarrow> normalize_host d = to_ascii_lowercase d"
  using plain_domain_facts [of d] plain_domain_facts(3) [OF plain_domain_lowercase, of d]
  by (simp add: normalize_host_def Let_def normalize_dns_host_def count_notin)

lemma plain_first: "plain_domain d \<Longrightarrow> hd d \<noteq> 42"
  using plain_domain_facts(1,5) [of d] by (cases d) auto

lemma strip_plain:
  assumes "plain_domain d"
  shows "strip_prefix star_star_dot d = None" "strip_prefix star_dot d = None" "d \<noteq> star"
    "strip_prefix star_star_dot (star_dot @ d) = None"
  using plain_first [OF assms] plain_domain_facts(1) [OF assms]
  by (auto simp: strip_prefix_def starts_with_def star_star_dot_def star_dot_def star_def lit_def uc_def neq_Nil_conv)

lemma star_codes: "star = [42]" "star_dot = [42, 46]" "star_star_dot = [42, 42, 46]"
  by (simp_all add: star_def star_dot_def star_star_dot_def lit_def uc_def)

lemma trim_wild: "plain_domain d \<Longrightarrow> trim (star_dot @ d) = star_dot @ d" "plain_domain d \<Longrightarrow> trim (star_star_dot @ d) = star_star_dot @ d"
proof -
  assume d: "plain_domain d"
  then have "\<not> is_whitespace (last d)"
    using plain_domain_facts(1,9) [OF d] plain_char_space last_in_set by blast
  then show "trim (star_dot @ d) = star_dot @ d" "trim (star_star_dot @ d) = star_star_dot @ d"
    using plain_domain_facts(1) [OF d]
    by (simp_all add: trim_no_space star_codes is_whitespace_def [of 42])
qed

lemma plain_pattern_cases:
  assumes "plain_pattern p"
  obtains d where "plain_domain d" "p = d" "pattern_of p = Exact d"
  | d where "plain_domain d" "p = star_dot @ d" "pattern_of p = SubdomainsOnly d"
  | d where "plain_domain d" "p = star_star_dot @ d" "pattern_of p = ApexAndSubdomains d"
  using assms by (auto simp: plain_pattern_def pattern_of_def strip_prefix_Some split: option.splits)

lemma wild_ne: "star_dot @ d \<noteq> star" "star_star_dot @ d \<noteq> star" "star_dot \<noteq> []" "star_star_dot \<noteq> []"
  by (auto simp: star_def star_dot_def star_star_dot_def lit_def uc_def)

lemma normalize_plain_pattern:
  assumes "plain_pattern p"
  shows "parse_domain_pattern (normalize_pattern p) = map_pattern to_ascii_lowercase (pattern_of p)"
  using assms
proof (cases rule: plain_pattern_cases)
  case (1 d)
  note low = plain_domain_lowercase [OF 1(1)]
  show ?thesis
    using 1 strip_plain [OF 1(1)] strip_plain [OF low] plain_domain_facts(1,2) [OF 1(1)] plain_domain_facts(1,2) [OF low]
    by (simp add: normalize_pattern_def parse_domain_pattern_def normalize_plain_host)
next
  case (2 d)
  note low = plain_domain_lowercase [OF 2(1)]
  show ?thesis
    using 2 strip_plain(4) [OF 2(1)] strip_plain(4) [OF low] trim_wild(1) [OF 2(1)] trim_wild(1) [OF low]
      plain_domain_facts(1,2) [OF low] wild_ne
    by (simp add: normalize_pattern_def parse_domain_pattern_def parse_domain_def normalize_plain_host)
next
  case (3 d)
  note low = plain_domain_lowercase [OF 3(1)]
  show ?thesis
    using 3 trim_wild(2) [OF 3(1)] trim_wild(2) [OF low] plain_domain_facts(1,2) [OF low] wild_ne
    by (simp add: normalize_pattern_def parse_domain_pattern_def parse_domain_def normalize_plain_host)
qed

lemma plain_pattern_matches:
  assumes "proxy_laws env" "plain_pattern p"
  shows "pattern_matches env p h \<longleftrightarrow> host_in (map_pattern to_ascii_lowercase (pattern_of p)) (to_ascii_lowercase h)"
proof -
  have laws: "glob_matches env d h = (to_ascii_lowercase h = to_ascii_lowercase d)"
    "glob_matches env (lit ''?*.'' @ d) h = below_domain (to_ascii_lowercase h) (to_ascii_lowercase d)" if "plain_domain d" for d
    using assms(1) that unfolding proxy_laws_def by blast+
  from assms(2) show ?thesis
  proof (cases rule: plain_pattern_cases)
    case (1 d)
    then show ?thesis using laws [OF plain_domain_lowercase [OF 1(1)]]
      unfolding pattern_matches_def expand_domain_pattern_def normalize_plain_pattern [OF assms(2)] set_matches_def by simp
  next
    case (2 d)
    then show ?thesis using laws [OF plain_domain_lowercase [OF 2(1)]]
      unfolding pattern_matches_def expand_domain_pattern_def normalize_plain_pattern [OF assms(2)] set_matches_def by simp
  next
    case (3 d)
    then show ?thesis using laws [OF plain_domain_lowercase [OF 3(1)]]
      unfolding pattern_matches_def expand_domain_pattern_def normalize_plain_pattern [OF assms(2)] set_matches_def by simp
  qed
qed

lemma plain_constraint_domain:
  assumes "proxy_laws env" "plain_domain d"
  shows "parse_domain_for_constraints env d = to_ascii_lowercase d"
  using assms plain_domain_facts [OF assms(2)]
  by (simp add: parse_domain_for_constraints_def Let_def proxy_laws_def)

lemma parse_plain_for_constraints:
  assumes "proxy_laws env" "plain_pattern p"
  shows "parse_for_constraints env p = map_pattern to_ascii_lowercase (pattern_of p)"
  using assms(2)
proof (cases rule: plain_pattern_cases)
  case (1 d)
  then show ?thesis using strip_plain [OF 1(1)] plain_domain_facts(1,2) [OF 1(1)] plain_constraint_domain [OF assms(1) 1(1)]
    by (simp add: parse_for_constraints_def)
next
  case (2 d)
  then show ?thesis using strip_plain [OF 2(1)] trim_wild(1) [OF 2(1)] wild_ne plain_constraint_domain [OF assms(1) 2(1)]
    by (simp add: parse_for_constraints_def)
next
  case (3 d)
  then show ?thesis using trim_wild(2) [OF 3(1)] wild_ne plain_constraint_domain [OF assms(1) 3(1)]
    by (simp add: parse_for_constraints_def)
qed

lemma below_domain_trans: "below_domain h c \<Longrightarrow> below_domain c d \<Longrightarrow> below_domain h d"
  by (auto simp: below_domain_def suffix_def)

lemma strict_subdomain_below:
  assumes "plain_domain c" "plain_domain d"
  shows "suffix (46 # d) c \<Longrightarrow> below_domain c d"
proof -
  assume s: "suffix (46 # d) c"
  then obtain x where x: "c = x @ 46 # d" by (auto simp: suffix_def)
  then have "x \<noteq> []" using assms(1) by (auto simp: plain_domain_def)
  then show "below_domain c d" using s x by (cases x) (auto simp: below_domain_def)
qed

lemma allows_within:
  assumes "plain_domain (pattern_domain m)" "plain_domain (pattern_domain c)"
    and "pattern_allows (map_pattern to_ascii_lowercase m) (map_pattern to_ascii_lowercase c)"
    and "host_in (map_pattern to_ascii_lowercase c) h"
  shows "host_in (map_pattern to_ascii_lowercase m) h"
proof -
  note low = plain_domain_lowercase [OF assms(1)] plain_domain_lowercase [OF assms(2)]
  have nd: "normalize_domain (to_ascii_lowercase (pattern_domain m)) = to_ascii_lowercase (pattern_domain m)"
    "normalize_domain (to_ascii_lowercase (pattern_domain c)) = to_ascii_lowercase (pattern_domain c)"
    using plain_domain_facts(3) [OF low(1)] plain_domain_facts(3) [OF low(2)] by (simp_all add: normalize_domain_def)
  let ?m = "to_ascii_lowercase (pattern_domain m)" and ?c = "to_ascii_lowercase (pattern_domain c)"
  have strict: "is_strict_subdomain ?c ?m \<Longrightarrow> below_domain ?c ?m"
    and equal: "is_subdomain_or_equal ?c ?m \<Longrightarrow> ?c = ?m \<or> below_domain ?c ?m"
    and same: "domain_eq ?c ?m \<Longrightarrow> ?c = ?m"
    using strict_subdomain_below [OF low(2,1)] nd
    by (auto simp: domain_eq_def is_strict_subdomain_def is_subdomain_or_equal_def ends_with_suffix)
  note trans = below_domain_trans [of h ?c ?m]
  show ?thesis
  proof (cases m)
    case (ApexAndSubdomains d)
    then show ?thesis using assms(3,4) equal trans by (cases c) (simp_all, (blast | metis)+)
  next
    case (SubdomainsOnly d)
    then show ?thesis using assms(3,4) equal strict trans by (cases c) (simp_all, (blast | metis)+)
  next
    case (Exact d)
    then show ?thesis using assms(3,4) same by (cases c) simp_all
  qed
qed


text \<open>
  A session's allowlist stays within the managed one: when managed settings bring an allowlist that sessions may
  not extend freely, every host that the compiled allowlist matches is a host that one of the managed patterns
  matches, for plain patterns and libraries that follow the laws. The comparison of \<^verbatim>\<open>DomainPattern::allows\<close> is
  sound for the hosts that the two patterns match.
\<close>

theorem allowlist_within_managed:
  assumes "state_coherent env s" "proxy_laws env"
    and "con_allowed_domains (cs_constraints s) = Some managed" "con_allowlist_expansion (cs_constraints s) = None"
    and "\<forall>p \<in> set (managed @ listed (allowed_domains (cs_config s))). plain_pattern p"
    and "set_matches env (cs_allow_set s) h"
  shows "\<exists>m \<in> set managed. pattern_matches env m h"
proof -
  have "allowed_domains_check env (cs_config s) (cs_constraints s) managed"
    using assms(1,3) unfolding state_coherent_def validate_policy_against_constraints_def first_violation_ok
    by (simp add: constraint_checks_def)
  then have allows: "\<exists>m \<in> set managed. pattern_allows (parse_for_constraints env m) (parse_for_constraints env p)"
    if "p \<in> set (listed (allowed_domains (cs_config s)))" for p
    using assms(4) that by (simp add: allowed_domains_check_def Let_def list_all_iff list_ex_iff)
  obtain p where p: "p \<in> set (listed (allowed_domains (cs_config s)))" "pattern_matches env p h"
    using compiled_match [of env _ AllowGlobal "cs_allow_set s" h] assms(1,6)
    unfolding state_coherent_def compile_allowlist_globset_def by blast
  obtain m where m: "m \<in> set managed" "pattern_allows (parse_for_constraints env m) (parse_for_constraints env p)"
    using allows [OF p(1)] by blast
  have plain: "plain_pattern m" "plain_pattern p" using assms(5) m(1) p(1) by auto
  have "pattern_matches env m h"
    using allows_within [of "pattern_of m" "pattern_of p" "to_ascii_lowercase h"] m(2) p(2) plain
    by (simp add: parse_plain_for_constraints [OF assms(2)] plain_pattern_matches [OF assms(2)] plain_pattern_def [symmetric])
  with m(1) show ?thesis by blast
qed

text \<open>Domains that the URL library rejects all compare as the empty domain.\<close>

lemma rejected_domains_allow_each_other:
  assumes "parse_domain_for_constraints env d = []" "parse_domain_for_constraints env c = []"
  shows "pattern_allows (Exact (parse_domain_for_constraints env d)) (Exact (parse_domain_for_constraints env c))"
  using assms by (simp add: domain_eq_def)

lemma fixed_allowlist_matches:
  assumes "state_coherent env s" "con_allowed_domains (cs_constraints s) = Some managed"
    and "con_allowlist_expansion (cs_constraints s) = Some False" "set_matches env (cs_allow_set s) h"
  shows "\<exists>m \<in> set managed. pattern_matches env m h"
proof -
  have "allowed_domains_check env (cs_config s) (cs_constraints s) managed"
    using assms(1,2) unfolding state_coherent_def validate_policy_against_constraints_def first_violation_ok
    by (simp add: constraint_checks_def)
  then have "lowercase_set (listed (allowed_domains (cs_config s))) \<subseteq> lowercase_set managed"
    using assms(3) by (auto simp: allowed_domains_check_def Let_def)
  moreover obtain p where p: "p \<in> set (listed (allowed_domains (cs_config s)))" "pattern_matches env p h"
    using compiled_match [of env _ AllowGlobal "cs_allow_set s" h] assms(1,4)
    unfolding state_coherent_def compile_allowlist_globset_def by blast
  ultimately obtain m where "m \<in> set managed" "to_ascii_lowercase p = to_ascii_lowercase m"
    unfolding lowercase_set_def by blast
  then show ?thesis using pattern_matches_lowercase [of p m env h] p(2) by blast
qed

section \<open>Samples\<close>

definition sample_proxy_env :: proxy_env where
  "sample_proxy_env =
     \<lparr>glob_builds = (\<lambda>_. True), glob_set_builds = (\<lambda>_. True),
      glob_matches =
        (\<lambda>g h. case strip_prefix (lit ''?*.'') g of
           Some d \<Rightarrow> below_domain (to_ascii_lowercase h) (to_ascii_lowercase d)
         | None \<Rightarrow> to_ascii_lowercase h = to_ascii_lowercase g),
      url_host = (\<lambda>d. Some (to_ascii_lowercase d))\<rparr>"

lemma sample_proxy_env_laws: "proxy_laws sample_proxy_env"
proof -
  have "strip_prefix (lit ''?*.'') d = None" if "plain_domain d" for d
    using plain_domain_facts(1,6) [OF that] by (cases d) (auto simp: strip_prefix_def starts_with_def lit_def uc_def)
  then show ?thesis by (simp add: proxy_laws_def sample_proxy_env_def)
qed

definition sample_settings :: "str list \<Rightarrow> str list \<Rightarrow> network_settings" where
  "sample_settings allowed denied =
     set_denied_domains denied (set_allowed_domains allowed (default_settings\<lparr>net_enabled := True\<rparr>))"

definition sample_constraints :: "str list \<Rightarrow> str list \<Rightarrow> proxy_constraints" where
  "sample_constraints allowed denied =
     no_constraints\<lparr>con_allowed_domains := Some allowed, con_denied_domains := Some denied\<rparr>"

definition sample_state :: config_state where
  "sample_state =
     (let n = sample_settings [lit ''API.example.com''] [lit ''evil.com''] in
      \<lparr>cs_config = n, cs_allow_set = [lit ''api.example.com''], cs_deny_set = [lit ''evil.com''], cs_mitm = False,
       cs_constraints = sample_constraints [lit ''*.example.com''] [lit ''Evil.com''], cs_blocked = [],
       cs_blocked_total = 0\<rparr>)"

lemma sample_lists:
  "listed (denied_domains (cs_config sample_state)) = [lit ''evil.com'']"
  "listed (allowed_domains (cs_config sample_state)) = [lit ''API.example.com'']"
  by code_simp+

lemmas pattern_eval = normalize_host_def normalize_dns_host_def normalize_pattern_def parse_domain_pattern_def parse_domain_def
  expand_domain_pattern_def is_global_wildcard_domain_pattern_def trim_end_matches_def to_ascii_lowercase_def
  to_ascii_lowercase_char_def strip_prefix_def starts_with_def star_def star_dot_def star_star_dot_def

lemma sample_compiled:
  "compile_denylist_globset sample_proxy_env [lit ''evil.com''] = Inr [lit ''evil.com'']"
  "compile_allowlist_globset sample_proxy_env [lit ''API.example.com''] = Inr [lit ''api.example.com'']"
  by (simp_all add: compile_denylist_globset_def compile_allowlist_globset_def compile_globset_with_policy_def sample_proxy_env_def
      pattern_eval str_eval)

lemma sample_fields:
  "cs_constraints sample_state = sample_constraints [lit ''*.example.com''] [lit ''Evil.com'']"
  "cs_allow_set sample_state = [lit ''api.example.com'']" "cs_deny_set sample_state = [lit ''evil.com'']"
  by (simp_all add: sample_state_def)

lemma sample_settings_fields:
  "net_enabled (cs_config sample_state)" "net_mode (cs_config sample_state) = Full"
  "net_allow_upstream_proxy (cs_config sample_state)" "net_allow_non_loopback (cs_config sample_state) = False"
  "net_allow_all_unix_sockets (cs_config sample_state) = False" "net_allow_local_binding (cs_config sample_state) = False"
  by code_simp+

lemma sample_constraints_fields:
  "con_allowed_domains (sample_constraints allowed denied) = Some allowed"
  "con_denied_domains (sample_constraints allowed denied) = Some denied"
  "con_allowlist_expansion (sample_constraints allowed denied) = None"
  "con_denylist_expansion (sample_constraints allowed denied) = None"
  "con_enabled (sample_constraints allowed denied) = None" "con_mode (sample_constraints allowed denied) = None"
  "con_allow_upstream_proxy (sample_constraints allowed denied) = None"
  "con_allow_non_loopback (sample_constraints allowed denied) = None"
  "con_allow_local_binding (sample_constraints allowed denied) = None"
  "con_allow_unix_sockets (sample_constraints allowed denied) = None"
  by (simp_all add: sample_constraints_def no_constraints_def)

lemma sample_managed_check:
  "allowed_domains_check sample_proxy_env (cs_config sample_state) (sample_constraints [lit ''*.example.com''] [lit ''Evil.com''])
     [lit ''*.example.com'']"
  by (simp add: allowed_domains_check_def sample_lists sample_constraints_fields parse_for_constraints_def
      parse_domain_for_constraints_def sample_proxy_env_def pattern_eval str_eval is_strict_subdomain_def normalize_domain_def)

lemma sample_validated: "validate_policy_against_constraints sample_proxy_env (cs_config sample_state) (cs_constraints sample_state) = Inr ()"
  unfolding validate_policy_against_constraints_def first_violation_ok
  by (simp add: constraint_checks_def sample_lists sample_fields sample_settings_fields sample_managed_check sample_constraints_fields
      within_limit_def)
    (simp add: no_global_wildcard_def denied_domains_check_def sample_constraints_fields lowercase_set_def sample_lists pattern_eval
      str_eval)

lemma sample_state_coherent: "state_coherent sample_proxy_env sample_state"
  using sample_validated by (simp add: state_coherent_def sample_lists sample_compiled sample_fields)

lemma sample_state_match: "set_matches sample_proxy_env (cs_allow_set sample_state) (lit ''api.Example.com'')"
  by code_simp

lemma sample_state_plain:
  "\<forall>p \<in> set ([lit ''*.example.com''] @ listed (allowed_domains (cs_config sample_state))). plain_pattern p"
  by code_simp

theorem allowlist_within_managed_witness:
  "pattern_matches sample_proxy_env (lit ''*.example.com'') (lit ''api.Example.com'')"
  using allowlist_within_managed [OF sample_state_coherent sample_proxy_env_laws, of "[lit ''*.example.com'']", OF _ _ sample_state_plain
      sample_state_match]
  by (simp add: sample_state_def sample_constraints_def no_constraints_def)

end
