(* ===== verification/Proxy_State.thy ===== *)
theory Proxy_State
  imports Proxy_Policy Network_Approval
begin

text \<open>
  \<^verbatim>\<open>codex-rs/network-proxy/src/runtime.rs\<close> and \<^verbatim>\<open>network_policy.rs\<close>: the shared state of the proxy, the decision about a
  host, and the operations that change the state. The state is behind a lock that is released at every await, so a
  call is a process that takes one step per critical section or awaited answer, and the steps of all calls interleave.
  The theorems show that the state satisfies its constraints at every moment, that a managed denial holds whatever
  the sessions add, and that an allowed host is not on a local or private network unless it is listed by name.
\<close>

section \<open>Deciding about a host\<close>

datatype host_block_reason = BlockDenied | BlockNotAllowed | BlockNotAllowedLocal

fun reason_str :: "host_block_reason \<Rightarrow> str" where
  "reason_str BlockDenied = lit ''denied''"
| "reason_str BlockNotAllowed = lit ''not_allowed''"
| "reason_str BlockNotAllowedLocal = lit ''not_allowed_local''"

datatype host_block_decision = HostAllowed | HostBlocked host_block_reason

definition is_explicit_local_allowlisted :: "str list \<Rightarrow> str \<Rightarrow> bool" where
  "is_explicit_local_allowlisted allowed h \<longleftrightarrow>
     list_ex (\<lambda>p. let p = trim p in
        \<not> (p = star \<or> starts_with p star_dot \<or> starts_with p star_star_dot) \<and> 42 \<notin> set p \<and> 63 \<notin> set p \<and>
        normalize_host p = h) allowed"

definition local_literal :: "str \<Rightarrow> bool" where
  "local_literal h \<longleftrightarrow>
     is_loopback_host h \<or> (case parse_ip (without_scope h) of Some ip \<Rightarrow> is_non_public_ip ip | None \<Rightarrow> False)"

datatype dns_answer = DnsFailed | DnsTimedOut | DnsAddrs "ip_addr list"

definition host_resolves_to_non_public_ip :: "str \<Rightarrow> dns_answer \<Rightarrow> bool" where
  "host_resolves_to_non_public_ip h dns \<longleftrightarrow>
     (case parse_ip h of
        Some ip \<Rightarrow> is_non_public_ip ip
      | None \<Rightarrow> (case dns of DnsAddrs ips \<Rightarrow> list_ex is_non_public_ip ips | _ \<Rightarrow> True))"

text \<open>The check up to the awaited lookup: a decision, or the host to look up and the decision if it is public.\<close>

datatype host_check = HostDecided host_block_decision | HostNeedsDns str host_block_decision

definition check_host :: "proxy_env \<Rightarrow> config_state \<Rightarrow> str \<Rightarrow> host_check" where
  "check_host env s raw =
     (case parse_host raw of
        None \<Rightarrow> HostDecided (HostBlocked BlockNotAllowed)
      | Some h \<Rightarrow>
          (let allowed = allowed_domains (cs_config s);
               final = (if allowed = None \<or> \<not> set_matches env (cs_allow_set s) h then HostBlocked BlockNotAllowed else HostAllowed)
           in if set_matches env (cs_deny_set s) h then HostDecided (HostBlocked BlockDenied)
              else if net_allow_local_binding (cs_config s) then HostDecided final
              else if local_literal h then
                HostDecided (if is_explicit_local_allowlisted (listed allowed) h then final else HostBlocked BlockNotAllowedLocal)
              else HostNeedsDns h final))"

definition after_dns :: "str \<Rightarrow> host_block_decision \<Rightarrow> dns_answer \<Rightarrow> host_block_decision" where
  "after_dns h final dns = (if host_resolves_to_non_public_ip h dns then HostBlocked BlockNotAllowedLocal else final)"

definition host_blocked :: "proxy_env \<Rightarrow> config_state \<Rightarrow> str \<Rightarrow> dns_answer \<Rightarrow> host_block_decision" where
  "host_blocked env s raw dns =
     (case check_host env s raw of HostDecided d \<Rightarrow> d | HostNeedsDns h final \<Rightarrow> after_dns h final dns)"

fun map_decider_decision :: "network_decision \<Rightarrow> network_decision" where
  "map_decider_decision NetworkAllow = NetworkAllow"
| "map_decider_decision (NetworkDeny reason source d) = NetworkDeny reason Decider d"

text \<open>
  The decider's answer is an argument, absent when there is no decider; the result comes with the fields of the
  audit event: the decision, its source, the reason, and whether the decider overrode the policy.
\<close>

record policy_audit =
  audit_decision :: str
  audit_source :: decision_source
  audit_reason :: str
  audit_override :: bool

fun policy_decision_str :: "policy_decision \<Rightarrow> str" where
  "policy_decision_str PolicyDeny = lit ''deny''"
| "policy_decision_str PolicyAsk = lit ''ask''"

definition audit_of :: "network_decision \<Rightarrow> bool \<Rightarrow> policy_audit" where
  "audit_of d over =
     (case d of
        NetworkAllow \<Rightarrow>
          \<lparr>audit_decision = lit ''allow'', audit_source = (if over then Decider else BaselinePolicy),
           audit_reason = (if over then reason_str BlockNotAllowed else lit ''allow''), audit_override = over\<rparr>
      | NetworkDeny reason source k \<Rightarrow>
          \<lparr>audit_decision = policy_decision_str k, audit_source = source, audit_reason = reason, audit_override = over\<rparr>)"

definition evaluate_host_policy ::
  "host_block_decision \<Rightarrow> network_decision option \<Rightarrow> network_decision \<times> policy_audit" where
  "evaluate_host_policy host_decision decider =
     (let (d, over) =
            (case host_decision of
               HostAllowed \<Rightarrow> (NetworkAllow, False)
             | HostBlocked BlockNotAllowed \<Rightarrow>
                 (case decider of
                    Some answer \<Rightarrow> (let d = map_decider_decision answer in (d, d = NetworkAllow))
                  | None \<Rightarrow> (deny_with_source (reason_str BlockNotAllowed) BaselinePolicy, False))
             | HostBlocked reason \<Rightarrow> (deny_with_source (reason_str reason) BaselinePolicy, False))
      in (d, audit_of d over))"

section \<open>Operations\<close>

definition MAX_BLOCKED_EVENTS :: nat where
  "MAX_BLOCKED_EVENTS = 200"

definition push_blocked :: "blocked_event \<Rightarrow> config_state \<Rightarrow> config_state" where
  "push_blocked e s =
     (let b = cs_blocked s @ [e]
      in s\<lparr>cs_blocked := drop (length b - MAX_BLOCKED_EVENTS) b, cs_blocked_total := min U64_MAX (cs_blocked_total s + 1)\<rparr>)"

datatype domain_list_kind = ListAllow | ListDeny

fun kind_permission :: "domain_list_kind \<Rightarrow> domain_permission" where
  "kind_permission ListAllow = DomainAllow"
| "kind_permission ListDeny = DomainDeny"

fun kind_entries :: "domain_list_kind \<Rightarrow> network_settings \<Rightarrow> str list" where
  "kind_entries ListAllow n = listed (allowed_domains n)"
| "kind_entries ListDeny n = listed (denied_domains n)"

fun opposite_entries :: "domain_list_kind \<Rightarrow> network_settings \<Rightarrow> str list" where
  "opposite_entries ListAllow n = listed (denied_domains n)"
| "opposite_entries ListDeny n = listed (allowed_domains n)"

text \<open>What a step may be answered: the reloader, the lookup of a host, the home directory and the certificates.\<close>

datatype reload = NoReload | ReloadFails | Reloads config_state

record proxy_input =
  in_reload :: reload
  in_reload_now :: "config_state option"
  in_dns :: dns_answer
  in_home :: "str option"
  in_mitm_ready :: bool

datatype proxy_call =
  CallCheck str
| CallRecord blocked_event
| CallSetMode network_mode
| CallUpdate str domain_list_kind
| CallDrain
| CallSnapshot
| CallReplace config_state
| CallForceReload
| CallRead

datatype proxy_result =
  ResultError proxy_error
| ResultHost host_block_decision
| ResultDone
| ResultBlocked "blocked_event list"
| ResultSettings network_settings

datatype proxy_pc =
  AtReload proxy_call
| AtReloadCommit proxy_call config_state
| AtBody proxy_call
| AtDns str host_block_decision
| AtModeCommit network_mode proxy_constraints
| AtDomainCommit str domain_list_kind network_settings proxy_constraints config_state
| AtForceCommit config_state
| AtEnd proxy_result

definition start_call :: "proxy_call \<Rightarrow> proxy_pc" where
  "start_call c =
     (case c of
        CallForceReload \<Rightarrow> AtBody CallForceReload
      | CallUpdate raw k \<Rightarrow>
          (case parse_host raw of None \<Rightarrow> AtEnd (ResultError HostIsEmpty) | Some h \<Rightarrow> AtReload (CallUpdate h k))
      | _ \<Rightarrow> AtReload c)"

definition set_mode :: "network_mode \<Rightarrow> network_settings \<Rightarrow> network_settings" where
  "set_mode m n = n\<lparr>net_mode := m\<rparr>"

definition update_domain_list :: "proxy_env \<Rightarrow> proxy_input \<Rightarrow> config_state \<Rightarrow> str \<Rightarrow> domain_list_kind \<Rightarrow> proxy_pc" where
  "update_domain_list env inp s h k =
     (let n = cs_config s; c = cs_constraints s;
          in_target = list_ex (\<lambda>e. normalize_host e = h) (kind_entries k n);
          in_opposite = list_ex (\<lambda>e. normalize_host e = h) (opposite_entries k n);
          candidate = upsert_domain_permission h (kind_permission k) normalize_host n
      in if in_target \<and> \<not> in_opposite then AtEnd ResultDone
         else case validate_policy_against_constraints env candidate c of
           Inl e \<Rightarrow> AtEnd (ResultError e)
         | Inr _ \<Rightarrow>
             (case build_config_state env (in_home inp) (in_mitm_ready inp) candidate c of
                Inl e \<Rightarrow> AtEnd (ResultError e)
              | Inr new \<Rightarrow>
                  AtDomainCommit h k n c (new\<lparr>cs_blocked := cs_blocked s, cs_blocked_total := cs_blocked_total s\<rparr>)))"

definition call_body :: "proxy_env \<Rightarrow> proxy_input \<Rightarrow> config_state \<Rightarrow> proxy_call \<Rightarrow> config_state \<times> proxy_pc" where
  "call_body env inp s call =
     (case call of
        CallCheck raw \<Rightarrow>
          (s, case check_host env s raw of HostDecided d \<Rightarrow> AtEnd (ResultHost d) | HostNeedsDns h final \<Rightarrow> AtDns h final)
      | CallRecord e \<Rightarrow> (push_blocked e s, AtEnd ResultDone)
      | CallSetMode m \<Rightarrow>
          (s, case validate_policy_against_constraints env (set_mode m (cs_config s)) (cs_constraints s) of
                Inl e \<Rightarrow> AtEnd (ResultError e)
              | Inr _ \<Rightarrow> AtModeCommit m (cs_constraints s))
      | CallUpdate h k \<Rightarrow> (s, update_domain_list env inp s h k)
      | CallDrain \<Rightarrow> (s\<lparr>cs_blocked := []\<rparr>, AtEnd (ResultBlocked (cs_blocked s)))
      | CallSnapshot \<Rightarrow> (s, AtEnd (ResultBlocked (cs_blocked s)))
      | CallReplace new \<Rightarrow>
          (new\<lparr>cs_blocked := cs_blocked s, cs_blocked_total := cs_blocked_total s\<rparr>, AtEnd ResultDone)
      | CallForceReload \<Rightarrow>
          (s, case in_reload_now inp of None \<Rightarrow> AtEnd (ResultError ReloadFailed) | Some new \<Rightarrow> AtForceCommit new)
      | CallRead \<Rightarrow> (s, AtEnd (ResultSettings (cs_config s))))"

fun proxy_advance :: "proxy_env \<Rightarrow> proxy_input \<Rightarrow> config_state \<Rightarrow> proxy_pc \<Rightarrow> config_state \<times> proxy_pc" where
  "proxy_advance env inp s (AtReload call) =
     (s, case in_reload inp of
           NoReload \<Rightarrow> AtBody call
         | ReloadFails \<Rightarrow> AtEnd (ResultError ReloadFailed)
         | Reloads new \<Rightarrow> AtReloadCommit call (new\<lparr>cs_blocked := cs_blocked s, cs_blocked_total := cs_blocked_total s\<rparr>))"
| "proxy_advance env inp s (AtReloadCommit call new) = (new, AtBody call)"
| "proxy_advance env inp s (AtBody call) = call_body env inp s call"
| "proxy_advance env inp s (AtDns h final) = (s, AtEnd (ResultHost (after_dns h final (in_dns inp))))"
| "proxy_advance env inp s (AtModeCommit m c) =
     (if cs_constraints s \<noteq> c then (s, AtReload (CallSetMode m))
      else (s\<lparr>cs_config := set_mode m (cs_config s)\<rparr>, AtEnd ResultDone))"
| "proxy_advance env inp s (AtDomainCommit h k n c new) =
     (if cs_constraints s \<noteq> c \<or> cs_config s \<noteq> n then (s, AtReload (CallUpdate h k)) else (new, AtEnd ResultDone))"
| "proxy_advance env inp s (AtForceCommit new) = (new\<lparr>cs_blocked := cs_blocked s\<rparr>, AtEnd ResultDone)"
| "proxy_advance env inp s (AtEnd r) = (s, AtEnd r)"

section \<open>Interleaving\<close>

text \<open>The system: the state, and for each call in order of arrival the call and how far it is.\<close>

type_synonym proxy_system = "config_state \<times> (proxy_call \<times> proxy_pc) list"

fun input_ok :: "(config_state \<Rightarrow> bool) \<Rightarrow> proxy_input \<Rightarrow> bool" where
  "input_ok loaded inp \<longleftrightarrow>
     (case in_reload inp of Reloads new \<Rightarrow> loaded new | _ \<Rightarrow> True) \<and>
     (case in_reload_now inp of Some new \<Rightarrow> loaded new | None \<Rightarrow> True)"

fun call_ok :: "(config_state \<Rightarrow> bool) \<Rightarrow> proxy_call \<Rightarrow> bool" where
  "call_ok loaded (CallReplace new) \<longleftrightarrow> loaded new"
| "call_ok loaded _ \<longleftrightarrow> True"

inductive proxy_step :: "proxy_env \<Rightarrow> (config_state \<Rightarrow> bool) \<Rightarrow> proxy_system \<Rightarrow> proxy_system \<Rightarrow> bool" for env loaded where
  call_starts: "call_ok loaded call \<Longrightarrow> proxy_step env loaded (s, ts) (s, ts @ [(call, start_call call)])"
| call_moves: "i < length ts \<Longrightarrow> ts ! i = (call, pc) \<Longrightarrow> input_ok loaded inp \<Longrightarrow> proxy_advance env inp s pc = (s', pc') \<Longrightarrow>
    proxy_step env loaded (s, ts) (s', ts[i := (call, pc')])"

inductive proxy_reachable :: "proxy_env \<Rightarrow> (config_state \<Rightarrow> bool) \<Rightarrow> proxy_system \<Rightarrow> bool" for env loaded where
  proxy_start: "loaded s \<Longrightarrow> cs_blocked s = [] \<Longrightarrow> proxy_reachable env loaded (s, [])"
| proxy_next: "proxy_reachable env loaded x \<Longrightarrow> proxy_step env loaded x y \<Longrightarrow> proxy_reachable env loaded y"


section \<open>What is allowed\<close>

text \<open>The addresses a host stands for: itself when it is an address, the answer of the lookup otherwise.\<close>

definition host_addresses :: "str \<Rightarrow> dns_answer \<Rightarrow> ip_addr list option" where
  "host_addresses h dns =
     (case parse_ip h of Some ip \<Rightarrow> Some [ip] | None \<Rightarrow> (case dns of DnsAddrs ips \<Rightarrow> Some ips | _ \<Rightarrow> None))"

definition listed_by_name :: "network_settings \<Rightarrow> str \<Rightarrow> bool" where
  "listed_by_name n h \<longleftrightarrow> list_ex (\<lambda>p. normalize_host (trim p) = h \<and> 42 \<notin> set p \<and> 63 \<notin> set p) (listed (allowed_domains n))"

lemma trim_keeps_letters: "\<not> is_whitespace c \<Longrightarrow> c \<in> set s \<longleftrightarrow> c \<in> set (trim s)"
proof -
  assume c: "\<not> is_whitespace c"
  have drop: "c \<in> set s \<longleftrightarrow> c \<in> set (dropWhile is_whitespace s)" for s using c by (induction s) auto
  show ?thesis unfolding trim_def trim_start_def trim_end_def using drop [of s] drop [of "rev (dropWhile is_whitespace s)"] by simp
qed

lemma explicit_listed:
  "is_explicit_local_allowlisted (listed (allowed_domains n)) h \<Longrightarrow> listed_by_name n h"
proof -
  assume "is_explicit_local_allowlisted (listed (allowed_domains n)) h"
  then obtain p where p: "p \<in> set (listed (allowed_domains n))" "42 \<notin> set (trim p)" "63 \<notin> set (trim p)" "normalize_host (trim p) = h"
    unfolding is_explicit_local_allowlisted_def list_ex_iff Let_def by blast
  have "\<not> is_whitespace 42" "\<not> is_whitespace 63" by (simp_all add: is_whitespace_def)
  then have "42 \<notin> set p" "63 \<notin> set p" using p(2,3) trim_keeps_letters by blast+
  then show "listed_by_name n h" unfolding listed_by_name_def list_ex_iff using p(1,4) by blast
qed

lemma check_host_allows:
  assumes "check_host env s raw = HostDecided HostAllowed \<or> check_host env s raw = HostNeedsDns h0 HostAllowed"
  shows "\<exists>h. parse_host raw = Some h \<and> \<not> set_matches env (cs_deny_set s) h \<and> set_matches env (cs_allow_set s) h"
  using assms by (auto simp: check_host_def Let_def split: option.splits if_splits)

lemma host_blocked_cases:
  assumes "host_blocked env s raw dns = HostAllowed \<or> host_blocked env s raw dns = HostBlocked BlockNotAllowed"
    and "parse_host raw = Some h"
  shows "\<not> set_matches env (cs_deny_set s) h \<and>
    (net_allow_local_binding (cs_config s) \<or> listed_by_name (cs_config s) h \<or> \<not> local_literal h \<and> \<not> host_resolves_to_non_public_ip h dns)"
  using assms explicit_listed
  by (auto simp: host_blocked_def check_host_def after_dns_def Let_def split: option.splits if_splits)

text \<open>
  What a request can reach. When the proxy's policy allows a request, the host is not one that the denied set matches,
  and it is on the allowlist or the decider allowed it. Unless local binding is allowed, every address the host stood
  for at the check is public, or the host stands in the allowlist by its own name: no wildcard and no decider opens
  a local or private address. For version 4 addresses, public means outside the fourteen reserved blocks.
\<close>

theorem allowed_host_is_public:
  assumes "fst (evaluate_host_policy (host_blocked env s raw dns) decider) = NetworkAllow" "parse_host raw = Some h"
  shows "\<not> set_matches env (cs_deny_set s) h \<and>
    (set_matches env (cs_allow_set s) h \<or> decider = Some NetworkAllow) \<and>
    (net_allow_local_binding (cs_config s) \<or> listed_by_name (cs_config s) h \<or>
       (\<exists>ips. host_addresses h dns = Some ips \<and> list_all (\<lambda>ip. \<not> is_non_public_ip ip) ips \<and>
          (\<forall>a. V4 a \<in> set ips \<longrightarrow> \<not> list_ex (in_block (unat a)) NON_PUBLIC_BLOCKS)))"
proof -
  let ?d = "host_blocked env s raw dns"
  have d: "?d = HostAllowed \<or> ?d = HostBlocked BlockNotAllowed \<and> decider = Some NetworkAllow"
    using assms(1) unfolding evaluate_host_policy_def
    by (auto simp: deny_with_source_def Let_def split: host_block_decision.splits host_block_reason.splits option.splits
        network_decision.splits elim!: map_decider_decision.elims)
  then have safe: "\<not> set_matches env (cs_deny_set s) h \<and>
      (net_allow_local_binding (cs_config s) \<or> listed_by_name (cs_config s) h \<or> \<not> local_literal h \<and> \<not> host_resolves_to_non_public_ip h dns)"
    using host_blocked_cases [OF _ assms(2)] by blast
  have "set_matches env (cs_allow_set s) h" if "?d = HostAllowed"
    using that assms(2) by (auto simp: host_blocked_def check_host_def after_dns_def Let_def split: option.splits if_splits)
  moreover have "\<exists>ips. host_addresses h dns = Some ips \<and> list_all (\<lambda>ip. \<not> is_non_public_ip ip) ips"
    if "\<not> host_resolves_to_non_public_ip h dns"
    using that by (auto simp: host_resolves_to_non_public_ip_def host_addresses_def list_all_iff list_ex_iff
        split: option.splits dns_answer.splits)
  moreover have "\<not> list_ex (in_block (unat a)) NON_PUBLIC_BLOCKS" if "list_all (\<lambda>ip. \<not> is_non_public_ip ip) ips" "V4 a \<in> set ips" for a ips
    using that by (force simp: list_all_iff non_public_ipv4_blocks [symmetric])
  ultimately show ?thesis using d safe by blast
qed

section \<open>The state satisfies its constraints\<close>

definition bound_state :: "proxy_env \<Rightarrow> (proxy_constraints \<Rightarrow> bool) \<Rightarrow> config_state \<Rightarrow> bool" where
  "bound_state env Q s \<longleftrightarrow> state_coherent env s \<and> Q (cs_constraints s)"

definition mode_within :: "network_mode \<Rightarrow> proxy_constraints \<Rightarrow> bool" where
  "mode_within m c = (case con_mode c of None \<Rightarrow> True | Some k \<Rightarrow> network_mode_rank m \<le> network_mode_rank k)"

lemma set_mode_lists [simp]:
  "allowed_domains (set_mode m n) = allowed_domains n" "denied_domains (set_mode m n) = denied_domains n"
  "allow_unix_sockets (set_mode m n) = allow_unix_sockets n"
  by (simp_all add: set_mode_def allowed_domains_def denied_domains_def domain_entries_def allow_unix_sockets_def)

lemma validate_set_mode:
  "validate_policy_against_constraints env (set_mode m n) c = Inr () \<Longrightarrow> mode_within m c"
  "validate_policy_against_constraints env n c = Inr () \<Longrightarrow> mode_within m c \<Longrightarrow>
     validate_policy_against_constraints env (set_mode m n) c = Inr ()"
proof -
  have fields: "net_mode (set_mode m n) = m" "net_enabled (set_mode m n) = net_enabled n"
    "net_allow_upstream_proxy (set_mode m n) = net_allow_upstream_proxy n"
    "net_allow_non_loopback (set_mode m n) = net_allow_non_loopback n"
    "net_allow_all_unix_sockets (set_mode m n) = net_allow_all_unix_sockets n"
    "net_allow_local_binding (set_mode m n) = net_allow_local_binding n"
    by (simp_all add: set_mode_def)
  have checks: "allowed_domains_check env (set_mode m n) = allowed_domains_check env n"
    "denied_domains_check (set_mode m n) = denied_domains_check n"
    by (auto simp: fun_eq_iff allowed_domains_check_def denied_domains_check_def)
  show "validate_policy_against_constraints env (set_mode m n) c = Inr () \<Longrightarrow> mode_within m c"
    unfolding validate_policy_against_constraints_def first_violation_ok
    by (simp add: constraint_checks_def mode_within_def fields cong: option.case_cong)
  show "validate_policy_against_constraints env n c = Inr () \<Longrightarrow> mode_within m c \<Longrightarrow>
     validate_policy_against_constraints env (set_mode m n) c = Inr ()"
    unfolding validate_policy_against_constraints_def first_violation_ok
    by (simp add: constraint_checks_def mode_within_def fields checks cong: option.case_cong)
qed

lemma bound_state_blocked [simp]:
  "bound_state env Q (s\<lparr>cs_blocked := b\<rparr>) = bound_state env Q s"
  "bound_state env Q (s\<lparr>cs_blocked := b, cs_blocked_total := t\<rparr>) = bound_state env Q s"
  by (simp_all add: bound_state_def state_coherent_def)

definition buffer_ok :: "config_state \<Rightarrow> bool" where
  "buffer_ok s \<longleftrightarrow> length (cs_blocked s) \<le> MAX_BLOCKED_EVENTS"

text \<open>What holds of a call in flight.\<close>

fun pc_bound :: "proxy_env \<Rightarrow> (proxy_constraints \<Rightarrow> bool) \<Rightarrow> proxy_call \<Rightarrow> proxy_pc \<Rightarrow> bool" where
  "pc_bound env Q call (AtReload c) \<longleftrightarrow> (c = call \<or> (\<exists>raw h k. call = CallUpdate raw k \<and> c = CallUpdate h k))"
| "pc_bound env Q call (AtReloadCommit c new) \<longleftrightarrow>
     (c = call \<or> (\<exists>raw h k. call = CallUpdate raw k \<and> c = CallUpdate h k)) \<and> bound_state env Q new \<and> buffer_ok new"
| "pc_bound env Q call (AtBody c) \<longleftrightarrow> (c = call \<or> (\<exists>raw h k. call = CallUpdate raw k \<and> c = CallUpdate h k))"
| "pc_bound env Q call (AtDns h final) \<longleftrightarrow>
     (\<exists>raw s. call = CallCheck raw \<and> bound_state env Q s \<and> check_host env s raw = HostNeedsDns h final)"
| "pc_bound env Q call (AtModeCommit m c) \<longleftrightarrow> call = CallSetMode m \<and> mode_within m c"
| "pc_bound env Q call (AtDomainCommit h k n c new) \<longleftrightarrow>
     (\<exists>raw. call = CallUpdate raw k) \<and> state_coherent env new \<and> cs_constraints new = c \<and> buffer_ok new"
| "pc_bound env Q call (AtForceCommit new) \<longleftrightarrow> call = CallForceReload \<and> bound_state env Q new"
| "pc_bound env Q call (AtEnd r) \<longleftrightarrow>
     (\<forall>raw. call = CallCheck raw \<and> r = ResultHost HostAllowed \<longrightarrow>
        (\<exists>s h. bound_state env Q s \<and> parse_host raw = Some h \<and> \<not> set_matches env (cs_deny_set s) h))"

lemma start_call_bound: "pc_bound env Q call (start_call call)"
  by (auto simp: start_call_def split: proxy_call.split option.split)

lemma update_domain_list_bound:
  assumes "buffer_ok s" "call = CallUpdate raw k"
  shows "pc_bound env Q call (update_domain_list env inp s h k)"
proof -
  have "state_coherent env (new\<lparr>cs_blocked := b, cs_blocked_total := t\<rparr>) \<and> cs_constraints (new\<lparr>cs_blocked := b, cs_blocked_total := t\<rparr>) = c"
    if "build_config_state env home ready n c = Inr new" "validate_policy_against_constraints env n c = Inr ()" for home ready n c new b t
  proof -
    have "state_coherent env new" by (rule build_config_state_coherent [OF that])
    moreover have "cs_constraints new = c" using that(1) by (auto simp: build_config_state_def split: if_splits sum.splits)
    ultimately show ?thesis by (simp add: state_coherent_def)
  qed
  then show ?thesis
    using assms by (auto simp: update_domain_list_def Let_def buffer_ok_def split: sum.splits)
qed

lemma push_blocked_bound:
  "bound_state env Q s \<Longrightarrow> bound_state env Q (push_blocked e s)" "buffer_ok (push_blocked e s)"
  by (simp_all add: push_blocked_def Let_def buffer_ok_def)


lemma check_host_bound:
  assumes "bound_state env Q s" "call = CallCheck raw"
  shows "pc_bound env Q call (case check_host env s raw of HostDecided d \<Rightarrow> AtEnd (ResultHost d) | HostNeedsDns h final \<Rightarrow> AtDns h final)"
proof (cases "check_host env s raw")
  case (HostDecided d)
  have "\<exists>h. parse_host raw = Some h \<and> \<not> set_matches env (cs_deny_set s) h" if "d = HostAllowed"
    using check_host_allows [of env s raw "[]"] HostDecided that by blast
  then show ?thesis using HostDecided assms by auto
next
  case (HostNeedsDns h final)
  then show ?thesis using assms by auto
qed

lemma call_body_bound:
  assumes "bound_state env Q s" "buffer_ok s" "input_ok loaded inp" "call_ok loaded call" "\<And>new. loaded new \<Longrightarrow> bound_state env Q new"
    and "c = call \<or> (\<exists>raw h k. call = CallUpdate raw k \<and> c = CallUpdate h k)"
    and "call_body env inp s c = (s', pc')"
  shows "bound_state env Q s' \<and> buffer_ok s' \<and> pc_bound env Q call pc'"
proof (cases c)
  case (CallCheck raw)
  then have "call = CallCheck raw" using assms(6) by auto
  then show ?thesis using check_host_bound [OF assms(1), of call raw] assms(1,2,7) CallCheck by (auto simp: call_body_def)
next
  case (CallUpdate h k)
  then obtain raw where "call = CallUpdate raw k" using assms(6) by auto
  then show ?thesis using update_domain_list_bound [OF assms(2)] assms(1,2,7) CallUpdate by (auto simp: call_body_def)
next
  case (CallSetMode m)
  then have "call = CallSetMode m" using assms(6) by auto
  then show ?thesis using assms(1,2,7) CallSetMode validate_set_mode(1) by (auto simp: call_body_def split: sum.splits)
next
  case (CallRecord e)
  then have "call = CallRecord e" using assms(6) by auto
  then show ?thesis using assms(7) CallRecord push_blocked_bound(1) [of env Q s e] push_blocked_bound(2) assms(1) by (auto simp: call_body_def)
next
  case (CallReplace new)
  then have "call = CallReplace new" using assms(6) by auto
  then show ?thesis using assms(2,4,7) CallReplace assms(5) [of new] by (auto simp: call_body_def buffer_ok_def)
next
  case CallForceReload
  then have "call = CallForceReload" using assms(6) by auto
  then show ?thesis using assms(1,2,3,7) CallForceReload assms(5) by (auto simp: call_body_def split: option.splits)
next
  case CallDrain
  then have "call = CallDrain" using assms(6) by auto
  then show ?thesis using assms(1,7) CallDrain by (auto simp: call_body_def buffer_ok_def)
next
  case CallSnapshot
  then have "call = CallSnapshot" using assms(6) by auto
  then show ?thesis using assms(1,2,7) CallSnapshot by (auto simp: call_body_def)
next
  case CallRead
  then have "call = CallRead" using assms(6) by auto
  then show ?thesis using assms(1,2,7) CallRead by (auto simp: call_body_def)
qed

lemma mode_commit_bound:
  assumes "bound_state env Q s" "mode_within m (cs_constraints s)"
  shows "bound_state env Q (s\<lparr>cs_config := set_mode m (cs_config s)\<rparr>)"
  using assms validate_set_mode(2) [of env "cs_config s" "cs_constraints s" m]
  by (simp add: bound_state_def state_coherent_def)

lemma proxy_advance_bound:
  assumes "bound_state env Q s" "buffer_ok s" "input_ok loaded inp" "call_ok loaded call" "\<And>new. loaded new \<Longrightarrow> bound_state env Q new"
    and "pc_bound env Q call pc" "proxy_advance env inp s pc = (s', pc')"
  shows "bound_state env Q s' \<and> buffer_ok s' \<and> pc_bound env Q call pc'"
proof (cases pc)
  case (AtReload c)
  then show ?thesis using assms(1,2,3,6,7) assms(5) by (auto simp: buffer_ok_def split: reload.splits)
next
  case (AtReloadCommit c new)
  then show ?thesis using assms(6,7) by auto
next
  case (AtBody c)
  then show ?thesis using call_body_bound [OF assms(1-5)] assms(6,7) by simp
next
  case (AtDns h final)
  then obtain raw t where t: "call = CallCheck raw" "bound_state env Q t" "check_host env t raw = HostNeedsDns h final"
    using assms(6) by auto
  have "\<exists>h. parse_host raw = Some h \<and> \<not> set_matches env (cs_deny_set t) h" if "final = HostAllowed"
    using check_host_allows [of env t raw h] t(3) that by blast
  then have "pc_bound env Q call (AtEnd (ResultHost (after_dns h final (in_dns inp))))"
    using t(1,2) unfolding after_dns_def by auto
  then show ?thesis using assms(1,2,7) AtDns by auto
next
  case (AtModeCommit m c)
  then show ?thesis using assms(1,2,6,7) mode_commit_bound [OF assms(1), of m] by (auto simp: buffer_ok_def split: if_splits)
next
  case (AtDomainCommit h k n c new)
  then show ?thesis using assms(1,2,6,7) by (auto simp: bound_state_def split: if_splits)
next
  case (AtForceCommit new)
  then show ?thesis using assms(2,6,7) by (auto simp: buffer_ok_def)
next
  case (AtEnd r)
  then show ?thesis using assms(1,2,6,7) by auto
qed

definition system_bound :: "proxy_env \<Rightarrow> (proxy_constraints \<Rightarrow> bool) \<Rightarrow> (config_state \<Rightarrow> bool) \<Rightarrow> proxy_system \<Rightarrow> bool" where
  "system_bound env Q loaded = (\<lambda>(s, ts).
     bound_state env Q s \<and> buffer_ok s \<and> (\<forall>(call, pc) \<in> set ts. call_ok loaded call \<and> pc_bound env Q call pc))"

lemma proxy_step_bound:
  assumes "\<And>new. loaded new \<Longrightarrow> bound_state env Q new" "proxy_step env loaded x y" "system_bound env Q loaded x"
  shows "system_bound env Q loaded y"
  using assms(2,3)
proof cases
  case (call_starts call s ts)
  then show ?thesis using assms(3) start_call_bound by (auto simp: system_bound_def)
next
  case (call_moves i ts call pc inp s s' pc')
  have mem: "(call, pc) \<in> set ts" using call_moves(3,4) by (metis nth_mem)
  then have pre: "bound_state env Q s" "buffer_ok s" "call_ok loaded call" "pc_bound env Q call pc"
    using assms(3) call_moves(1) by (auto simp: system_bound_def)
  have post: "bound_state env Q s' \<and> buffer_ok s' \<and> pc_bound env Q call pc'"
    by (rule proxy_advance_bound [OF pre(1,2) call_moves(5) pre(3) assms(1) pre(4) call_moves(6)])
  have "set (ts[i := (call, pc')]) \<subseteq> insert (call, pc') (set ts)" by (rule set_update_subset_insert)
  then show ?thesis using post pre(3) assms(3) call_moves(1,2) by (auto simp: system_bound_def)
qed

lemma proxy_reachable_bound:
  assumes "\<And>new. loaded new \<Longrightarrow> bound_state env Q new" "proxy_reachable env loaded x"
  shows "system_bound env Q loaded x"
  using assms(2)
proof (induction rule: proxy_reachable.induct)
  case (proxy_start s)
  then show ?case using assms(1) [of s] by (simp add: system_bound_def buffer_ok_def)
next
  case (proxy_next x y)
  then show ?case using proxy_step_bound [OF assms(1)] by blast
qed

text \<open>
  Whatever calls interleave, each state the proxy is in satisfies its constraints: the two sets are those of its
  settings, the settings pass the check against the managed constraints, and the buffer of blocked requests stays
  within its bound, provided the states that are loaded from outside satisfy their constraints.
\<close>

theorem proxy_state_satisfies_constraints:
  assumes "proxy_reachable env loaded (s, ts)" "\<forall>new. loaded new \<longrightarrow> state_coherent env new"
  shows "state_coherent env s \<and> length (cs_blocked s) \<le> MAX_BLOCKED_EVENTS"
  using proxy_reachable_bound [of loaded env "\<lambda>_. True" "(s, ts)"] assms
  by (simp add: system_bound_def bound_state_def buffer_ok_def)

text \<open>
  A managed denial holds. When every loaded state is coherent and its constraints deny a pattern, no check of a
  host that the pattern matches ends in allowing it, however sessions add hosts to the lists, switch modes, or
  reload while the check waits for its lookup.
\<close>

theorem managed_denial_holds:
  assumes "proxy_reachable env loaded (s, ts)"
    and "\<forall>new. loaded new \<longrightarrow> state_coherent env new \<and> p \<in> set (listed (con_denied_domains (cs_constraints new)))"
    and "(CallCheck raw, AtEnd (ResultHost HostAllowed)) \<in> set ts"
  shows "\<exists>h. parse_host raw = Some h \<and> \<not> pattern_matches env p h"
proof -
  let ?Q = "\<lambda>c. p \<in> set (listed (con_denied_domains c))"
  have "system_bound env ?Q loaded (s, ts)"
    using proxy_reachable_bound [of loaded env ?Q "(s, ts)"] assms(1,2) by (simp add: bound_state_def)
  then have "pc_bound env ?Q (CallCheck raw) (AtEnd (ResultHost HostAllowed))"
    using assms(3) unfolding system_bound_def by blast
  then obtain t h where t: "bound_state env ?Q t" "parse_host raw = Some h" "\<not> set_matches env (cs_deny_set t) h" by auto
  moreover obtain managed where "con_denied_domains (cs_constraints t) = Some managed" "p \<in> set managed"
    using t(1) by (cases "con_denied_domains (cs_constraints t)") (auto simp: bound_state_def listed_def)
  ultimately show ?thesis using managed_denied_matches [of env t managed p h] by (auto simp: bound_state_def)
qed


section \<open>Samples\<close>

definition sample_host :: str where
  "sample_host = lit ''API.Example.com''"

definition sample_dns :: dns_answer where
  "sample_dns = DnsAddrs [V4 (ipv4_of 93 184 216 34)]"

definition sample_proxy_input :: proxy_input where
  "sample_proxy_input = \<lparr>in_reload = NoReload, in_reload_now = None, in_dns = sample_dns, in_home = None, in_mitm_ready = True\<rparr>"

lemma sample_parse_ip: "parse_ip (lit ''api.example.com'') = None"
  by (simp add: parse_ip_def read_ipv4_def read_separator_def read_number_def to_digit_def read_ipv6_def read_groups.simps
      lit_def uc_def)

lemma sample_parse_host: "parse_host sample_host = Some (lit ''api.example.com'')"
  by (simp add: parse_host_def sample_host_def pattern_eval str_eval)

lemma sample_not_local: "\<not> local_literal (lit ''api.example.com'')"
proof -
  have "without_scope (lit ''api.example.com'') = lit ''api.example.com''"
    by (simp add: without_scope_def split_once_str_def str_eval)
  then show ?thesis using sample_parse_ip by (simp add: local_literal_def is_loopback_host_def Let_def)
qed

lemma sample_check: "check_host sample_proxy_env sample_state sample_host = HostNeedsDns (lit ''api.example.com'') HostAllowed"
proof -
  have "allowed_domains (cs_config sample_state) = Some [lit ''API.example.com'']" by code_simp
  moreover have "set_matches sample_proxy_env [lit ''api.example.com''] (lit ''api.example.com'')"
    "\<not> set_matches sample_proxy_env [lit ''evil.com''] (lit ''api.example.com'')"
    by (simp_all add: set_matches_def sample_proxy_env_def pattern_eval str_eval)
  ultimately show ?thesis
    using sample_not_local sample_settings_fields(6)
    by (simp add: check_host_def sample_parse_host Let_def sample_fields)
qed

lemma sample_dns_public: "\<not> host_resolves_to_non_public_ip (lit ''api.example.com'') sample_dns"
proof -
  have "unat (ipv4_of 93 184 216 34) = 1572395042"
    unfolding ipv4_of_def by (simp only: unsigned_of_nat) (simp add: take_bit_eq_mod)
  then have "\<not> is_non_public_ipv4 (ipv4_of 93 184 216 34)"
    by (simp add: non_public_ipv4_blocks NON_PUBLIC_BLOCKS_def in_block_def dotted_def)
  then show ?thesis by (simp add: host_resolves_to_non_public_ip_def sample_parse_ip sample_dns_def)
qed

theorem allowed_host_is_public_witness:
  "set_matches sample_proxy_env (cs_allow_set sample_state) (lit ''api.example.com'') \<or> None = Some NetworkAllow"
proof -
  have "host_blocked sample_proxy_env sample_state sample_host sample_dns = HostAllowed"
    using sample_dns_public by (simp add: host_blocked_def sample_check after_dns_def)
  then have "fst (evaluate_host_policy (host_blocked sample_proxy_env sample_state sample_host sample_dns) None) = NetworkAllow"
    by (simp add: evaluate_host_policy_def)
  then show ?thesis using allowed_host_is_public [OF _ sample_parse_host] by blast
qed

definition sample_loaded :: "config_state \<Rightarrow> bool" where
  "sample_loaded new \<longleftrightarrow> new = sample_state"

definition sample_event :: blocked_event where
  "sample_event =
     \<lparr>event_host = lit ''evil.com'', event_reason = lit ''denied'', event_client = None, event_verb = None, event_mode = None,
      event_protocol = lit ''http'', event_decision = Some (lit ''deny''), event_source = Some (lit ''baseline_policy''),
      event_port = Some 80, event_time = 0\<rparr>"

lemma sample_reach_start: "proxy_reachable env sample_loaded (sample_state, [])"
  by (rule proxy_start) (simp_all add: sample_loaded_def sample_state_def Let_def)

lemma single_call_moves:
  assumes "proxy_reachable env loaded (s, [(call, pc)])" "input_ok loaded inp" "proxy_advance env inp s pc = (s', pc')"
  shows "proxy_reachable env loaded (s', [(call, pc')])"
  using proxy_next [OF assms(1) call_moves [of 0 "[(call, pc)]" call pc loaded inp env s s' pc']] assms(2,3) by simp

lemma single_call_starts:
  assumes "proxy_reachable env loaded (s, [])" "call_ok loaded call"
  shows "proxy_reachable env loaded (s, [(call, start_call call)])"
  using proxy_next [OF assms(1) call_starts [OF assms(2)]] by simp

lemma sample_input_ok: "input_ok loaded sample_proxy_input"
  by (simp add: sample_proxy_input_def)

lemma sample_recorded:
  "proxy_reachable sample_proxy_env sample_loaded (push_blocked sample_event sample_state, [(CallRecord sample_event, AtEnd ResultDone)])"
proof -
  have "proxy_reachable sample_proxy_env sample_loaded (sample_state, [(CallRecord sample_event, AtReload (CallRecord sample_event))])"
    using single_call_starts [OF sample_reach_start, of "CallRecord sample_event"] by (simp add: start_call_def)
  then have "proxy_reachable sample_proxy_env sample_loaded (sample_state, [(CallRecord sample_event, AtBody (CallRecord sample_event))])"
    by (rule single_call_moves [OF _ sample_input_ok]) (simp add: sample_proxy_input_def)
  then show ?thesis by (rule single_call_moves [OF _ sample_input_ok]) (simp add: call_body_def)
qed

theorem proxy_state_satisfies_constraints_witness:
  "state_coherent sample_proxy_env (push_blocked sample_event sample_state)"
  using proxy_state_satisfies_constraints [OF sample_recorded] sample_state_coherent by (simp add: sample_loaded_def)

lemma sample_checked:
  "proxy_reachable sample_proxy_env sample_loaded (sample_state, [(CallCheck sample_host, AtEnd (ResultHost HostAllowed))])"
proof -
  have "proxy_reachable sample_proxy_env sample_loaded (sample_state, [(CallCheck sample_host, AtReload (CallCheck sample_host))])"
    using single_call_starts [OF sample_reach_start, of "CallCheck sample_host"] by (simp add: start_call_def)
  then have "proxy_reachable sample_proxy_env sample_loaded (sample_state, [(CallCheck sample_host, AtBody (CallCheck sample_host))])"
    by (rule single_call_moves [OF _ sample_input_ok]) (simp add: sample_proxy_input_def)
  then have "proxy_reachable sample_proxy_env sample_loaded
      (sample_state, [(CallCheck sample_host, AtDns (lit ''api.example.com'') HostAllowed)])"
    by (rule single_call_moves [OF _ sample_input_ok]) (simp add: call_body_def sample_check)
  then show ?thesis
    by (rule single_call_moves [OF _ sample_input_ok]) (simp add: after_dns_def sample_dns_public sample_proxy_input_def)
qed

theorem managed_denial_holds_witness: "\<exists>h. parse_host sample_host = Some h \<and> \<not> pattern_matches sample_proxy_env (lit ''Evil.com'') h"
proof (rule managed_denial_holds [OF sample_checked])
  show "\<forall>new. sample_loaded new \<longrightarrow>
      state_coherent sample_proxy_env new \<and> lit ''Evil.com'' \<in> set (listed (con_denied_domains (cs_constraints new)))"
    using sample_state_coherent by (simp add: sample_loaded_def sample_fields sample_constraints_fields listed_def)
qed simp

text \<open>
  A request recorded between a reload's snapshot of the buffer and its commit is lost: the commit writes the
  snapshot back.
\<close>

lemma reload_drops_recorded:
  assumes "in_reload inp = Reloads new" "proxy_advance env inp s (AtReload CallRead) = (s1, pc1)"
    and "proxy_advance env inp' s1 (AtBody (CallRecord e)) = (s2, pc2)" "proxy_advance env inp'' s2 pc1 = (s3, pc3)"
  shows "cs_blocked s3 = cs_blocked s \<and> cs_blocked_total s3 = cs_blocked_total s"
  using assms by (auto simp: call_body_def)

text \<open>A forced reload keeps the buffer and takes the count of the loaded state, which starts at zero.\<close>

lemma forced_reload_resets_total:
  "proxy_advance env inp s (AtForceCommit new) = (s', pc') \<Longrightarrow> cs_blocked s' = cs_blocked s \<and> cs_blocked_total s' = cs_blocked_total new"
  by auto

end
