(* ===== verification/Proxy_Spec.thy ===== *)
theory Proxy_Spec
  imports Proxy_Policy Exec_Policy Sandbox_Roots
begin

text \<open>
  Where the settings and the constraints of the proxy come from: the configuration layers
  (\<^verbatim>\<open>codex-rs/config/src/permissions_toml.rs\<close>, \<^verbatim>\<open>core/src/network_proxy_loader.rs\<close>) and the managed requirements
  (\<^verbatim>\<open>config/src/config_requirements.rs\<close>, \<^verbatim>\<open>core/src/config/network_proxy_spec.rs\<close>). Reading TOML is outside the
  model: a layer is the tables it holds, or a failure. The theorems show that every state that is built satisfies
  its constraints, and that a managed-only allowlist bounds what a session can reach.
\<close>

section \<open>Tables\<close>

datatype toml_permission = TomlAllow | TomlDeny

type_synonym domains_toml = "(str \<times> toml_permission) list"

definition toml_domains :: "toml_permission \<Rightarrow> domains_toml \<Rightarrow> str list option" where
  "toml_domains q entries =
     (let ps = map fst (filter (\<lambda>(_, p). p = q) entries) in if ps = [] then None else Some ps)"

definition toml_unix_sockets :: "(str \<times> unix_permission) list \<Rightarrow> str list" where
  "toml_unix_sockets entries = map fst (filter (\<lambda>(_, p). p = SocketAllow) entries)"

record network_toml =
  toml_enabled :: "bool option"
  toml_proxy_url :: "str option"
  toml_enable_socks5 :: "bool option"
  toml_socks_url :: "str option"
  toml_enable_socks5_udp :: "bool option"
  toml_allow_upstream_proxy :: "bool option"
  toml_allow_non_loopback :: "bool option"
  toml_allow_all_unix_sockets :: "bool option"
  toml_mode :: "network_mode option"
  toml_domain_entries :: "domains_toml option"
  toml_socket_entries :: "(str \<times> unix_permission) list option"
  toml_allow_local_binding :: "bool option"

definition override :: "'a option \<Rightarrow> 'a \<Rightarrow> 'a" where
  "override v old = (case v of None \<Rightarrow> old | Some x \<Rightarrow> x)"

fun proxy_permission :: "toml_permission \<Rightarrow> domain_permission" where
  "proxy_permission TomlAllow = DomainAllow"
| "proxy_permission TomlDeny = DomainDeny"

definition overlay_network_domain_permissions :: "domains_toml \<Rightarrow> network_settings \<Rightarrow> network_settings" where
  "overlay_network_domain_permissions entries n =
     foldl (\<lambda>n (pat, p). upsert_domain_permission pat (proxy_permission p) normalize_host n) n entries"

definition overlay_unix_sockets :: "(str \<times> unix_permission) list \<Rightarrow> network_settings \<Rightarrow> network_settings" where
  "overlay_unix_sockets entries n =
     (let m = foldl (\<lambda>m (path, p). btree_insert path p m) (case net_unix_sockets n of None \<Rightarrow> [] | Some m \<Rightarrow> m) entries
      in n\<lparr>net_unix_sockets := if m = [] then None else Some m\<rparr>)"

definition apply_to_network_proxy_config :: "network_toml \<Rightarrow> network_settings \<Rightarrow> network_settings" where
  "apply_to_network_proxy_config t n =
     (let n = n\<lparr>net_enabled := override (toml_enabled t) (net_enabled n),
               net_proxy_url := override (toml_proxy_url t) (net_proxy_url n),
               net_enable_socks5 := override (toml_enable_socks5 t) (net_enable_socks5 n),
               net_socks_url := override (toml_socks_url t) (net_socks_url n),
               net_enable_socks5_udp := override (toml_enable_socks5_udp t) (net_enable_socks5_udp n),
               net_allow_upstream_proxy := override (toml_allow_upstream_proxy t) (net_allow_upstream_proxy n),
               net_allow_non_loopback := override (toml_allow_non_loopback t) (net_allow_non_loopback n),
               net_allow_all_unix_sockets := override (toml_allow_all_unix_sockets t) (net_allow_all_unix_sockets n),
               net_mode := override (toml_mode t) (net_mode n)\<rparr>;
          n = (case toml_domain_entries t of None \<Rightarrow> n | Some es \<Rightarrow> overlay_network_domain_permissions es n);
          n = (case toml_socket_entries t of None \<Rightarrow> n | Some es \<Rightarrow> overlay_unix_sockets es n)
      in n\<lparr>net_allow_local_binding := override (toml_allow_local_binding t) (net_allow_local_binding n)\<rparr>)"

definition to_network_proxy_config :: "network_toml \<Rightarrow> network_settings" where
  "to_network_proxy_config t = apply_to_network_proxy_config t default_settings"

section \<open>Layers\<close>

datatype layer_source =
  LayerMdm | LayerSystem | LayerUser | LayerProject | LayerSessionFlags | LayerManagedFile | LayerManagedMdm

definition is_user_controlled_layer :: "layer_source \<Rightarrow> bool" where
  "is_user_controlled_layer l \<longleftrightarrow> l \<in> {LayerUser, LayerProject, LayerSessionFlags}"

text \<open>The tables of a layer: the name of the default profile, and the network table of each profile.\<close>

record network_tables =
  tables_default :: "str option"
  tables_profiles :: "(str \<times> network_toml option) list option"

record proxy_layer =
  proxy_layer_source :: layer_source
  proxy_layer_tables :: "network_tables option"

datatype load_error =
  TablesInvalid
| ProfilesMissing
| ProfileUndefined str
| ProxyError proxy_error

definition selected_network_from_tables :: "network_tables \<Rightarrow> load_error + network_toml option" where
  "selected_network_from_tables t =
     (case tables_default t of
        None \<Rightarrow> Inr None
      | Some name \<Rightarrow>
          (case tables_profiles t of
             None \<Rightarrow> Inl ProfilesMissing
           | Some ps \<Rightarrow> (case map_of ps name of None \<Rightarrow> Inl (ProfileUndefined name) | Some network \<Rightarrow> Inr network)))"

definition layer_network :: "proxy_layer \<Rightarrow> load_error + network_toml option" where
  "layer_network l =
     (case proxy_layer_tables l of None \<Rightarrow> Inl TablesInvalid | Some t \<Rightarrow> selected_network_from_tables t)"

definition or_else :: "'a option \<Rightarrow> 'a option \<Rightarrow> 'a option" where
  "or_else v old = (case v of None \<Rightarrow> old | Some x \<Rightarrow> Some x)"

definition overlay_constraint_domains :: "domains_toml \<Rightarrow> proxy_constraints \<Rightarrow> proxy_constraints" where
  "overlay_constraint_domains entries c =
     (let n = (case con_allowed_domains c of None \<Rightarrow> default_settings | Some ps \<Rightarrow> set_allowed_domains ps default_settings);
          n = (case con_denied_domains c of None \<Rightarrow> n | Some ps \<Rightarrow> set_denied_domains ps n);
          n = overlay_network_domain_permissions entries n
      in c\<lparr>con_allowed_domains := allowed_domains n, con_denied_domains := denied_domains n\<rparr>)"

definition apply_network_constraints :: "network_toml \<Rightarrow> proxy_constraints \<Rightarrow> proxy_constraints" where
  "apply_network_constraints t c =
     (let c = c\<lparr>con_enabled := or_else (toml_enabled t) (con_enabled c), con_mode := or_else (toml_mode t) (con_mode c),
               con_allow_upstream_proxy := or_else (toml_allow_upstream_proxy t) (con_allow_upstream_proxy c),
               con_allow_non_loopback := or_else (toml_allow_non_loopback t) (con_allow_non_loopback c),
               con_allow_all_unix_sockets := or_else (toml_allow_all_unix_sockets t) (con_allow_all_unix_sockets c)\<rparr>;
          c = (case toml_domain_entries t of None \<Rightarrow> c | Some es \<Rightarrow> overlay_constraint_domains es c);
          c = (case toml_socket_entries t of None \<Rightarrow> c | Some es \<Rightarrow> c\<lparr>con_allow_unix_sockets := Some (toml_unix_sockets es)\<rparr>)
      in c\<lparr>con_allow_local_binding := or_else (toml_allow_local_binding t) (con_allow_local_binding c)\<rparr>)"

fun constraints_from_layers :: "proxy_layer list \<Rightarrow> proxy_constraints \<Rightarrow> load_error + proxy_constraints" where
  "constraints_from_layers [] c = Inr c"
| "constraints_from_layers (l # ls) c =
     (if is_user_controlled_layer (proxy_layer_source l) then constraints_from_layers ls c
      else case layer_network l of
        Inl e \<Rightarrow> Inl e
      | Inr None \<Rightarrow> constraints_from_layers ls c
      | Inr (Some t) \<Rightarrow> constraints_from_layers ls (apply_network_constraints t c))"

definition network_constraints_from_trusted_layers :: "proxy_layer list \<Rightarrow> load_error + proxy_constraints" where
  "network_constraints_from_trusted_layers ls = constraints_from_layers ls no_constraints"

fun settings_from_layers :: "proxy_layer list \<Rightarrow> network_settings \<Rightarrow> load_error + network_settings" where
  "settings_from_layers [] n = Inr n"
| "settings_from_layers (l # ls) n =
     (case layer_network l of
        Inl e \<Rightarrow> Inl e
      | Inr None \<Rightarrow> settings_from_layers ls n
      | Inr (Some t) \<Rightarrow> settings_from_layers ls (apply_to_network_proxy_config t n))"

definition apply_exec_policy_network_rules :: "policy \<Rightarrow> network_settings \<Rightarrow> network_settings" where
  "apply_exec_policy_network_rules pol n =
     (case compiled_network_domains pol of (allowed, denied) \<Rightarrow>
        foldl (\<lambda>n h. upsert_domain_permission h DomainDeny normalize_host n)
          (foldl (\<lambda>n h. upsert_domain_permission h DomainAllow normalize_host n) n allowed) denied)"

definition config_from_layers :: "proxy_layer list \<Rightarrow> policy \<Rightarrow> load_error + network_settings" where
  "config_from_layers ls pol = map_sum id (apply_exec_policy_network_rules pol) (settings_from_layers ls default_settings)"

definition enforce_trusted_constraints ::
  "proxy_env \<Rightarrow> proxy_layer list \<Rightarrow> network_settings \<Rightarrow> load_error + proxy_constraints" where
  "enforce_trusted_constraints env ls n =
     (case network_constraints_from_trusted_layers ls of
        Inl e \<Rightarrow> Inl e
      | Inr c \<Rightarrow>
          (case validate_policy_against_constraints env n c of Inl e \<Rightarrow> Inl (ProxyError e) | Inr _ \<Rightarrow> Inr c))"

definition build_state_from_layers ::
  "proxy_env \<Rightarrow> str option \<Rightarrow> bool \<Rightarrow> proxy_layer list \<Rightarrow> policy \<Rightarrow> load_error + config_state" where
  "build_state_from_layers env home ready ls pol =
     (case config_from_layers ls pol of
        Inl e \<Rightarrow> Inl e
      | Inr n \<Rightarrow>
          (case enforce_trusted_constraints env ls n of
             Inl e \<Rightarrow> Inl e
           | Inr c \<Rightarrow> map_sum ProxyError id (build_config_state env home ready n c)))"

section \<open>Requirements\<close>

record network_requirements =
  req_enabled :: "bool option"
  req_http_port :: "nat option"
  req_socks_port :: "nat option"
  req_allow_upstream_proxy :: "bool option"
  req_allow_non_loopback :: "bool option"
  req_allow_all_unix_sockets :: "bool option"
  req_domains :: "domains_toml option"
  req_managed_allowed_domains_only :: "bool option"
  req_unix_sockets :: "(str \<times> unix_permission) list option"
  req_allow_local_binding :: "bool option"

definition legacy_domain_permissions_from_lists :: "str list option \<Rightarrow> str list option \<Rightarrow> domains_toml option" where
  "legacy_domain_permissions_from_lists allowed denied =
     (let m = foldl (\<lambda>m p. btree_insert p TomlAllow m) [] (listed allowed);
          m = foldl (\<lambda>m p. btree_insert p TomlDeny m) m (listed denied)
      in if m = [] then None else Some m)"

definition legacy_unix_socket_permissions_from_list :: "str list option \<Rightarrow> (str \<times> unix_permission) list option" where
  "legacy_unix_socket_permissions_from_list paths =
     (let m = foldl (\<lambda>m p. btree_insert p SocketAllow m) [] (listed paths) in if m = [] then None else Some m)"

definition managed_sandbox_active :: "permission_profile \<Rightarrow> bool" where
  "managed_sandbox_active p = (case p of Managed _ _ \<Rightarrow> True | _ \<Rightarrow> False)"

definition ascii_case_eq :: "str \<Rightarrow> str \<Rightarrow> bool" where
  "ascii_case_eq s t \<longleftrightarrow> to_ascii_lowercase s = to_ascii_lowercase t"

fun merge_domain_lists :: "str list \<Rightarrow> str list \<Rightarrow> str list" where
  "merge_domain_lists managed [] = managed"
| "merge_domain_lists managed (e # es) =
     merge_domain_lists (if list_ex (\<lambda>m. ascii_case_eq m e) managed then managed else managed @ [e]) es"

definition managed_allowed :: "network_requirements \<Rightarrow> bool \<Rightarrow> str list option" where
  "managed_allowed r hard_deny =
     (let ps = Option.bind (req_domains r) (toml_domains TomlAllow) in if hard_deny then Some (listed ps) else ps)"

definition proxy_url_of_port :: "nat \<Rightarrow> str" where
  "proxy_url_of_port port = lit ''http://127.0.0.1:'' @ show_nat port"

definition apply_allowed_requirement ::
  "bool \<Rightarrow> str list option \<Rightarrow> network_settings \<times> proxy_constraints \<Rightarrow> network_settings \<times> proxy_constraints" where
  "apply_allowed_requirement expansion managed = (\<lambda>(n, c).
     case managed of
       None \<Rightarrow> (n, c)
     | Some ps \<Rightarrow>
         (set_allowed_domains (if expansion then merge_domain_lists ps (listed (allowed_domains n)) else ps) n,
          c\<lparr>con_allowed_domains := Some ps, con_allowlist_expansion := Some expansion\<rparr>))"

definition apply_denied_requirement ::
  "bool \<Rightarrow> str list option \<Rightarrow> network_settings \<times> proxy_constraints \<Rightarrow> network_settings \<times> proxy_constraints" where
  "apply_denied_requirement expansion managed = (\<lambda>(n, c).
     case managed of
       None \<Rightarrow> (n, c)
     | Some ps \<Rightarrow>
         (set_denied_domains (if expansion then merge_domain_lists ps (listed (denied_domains n)) else ps) n,
          c\<lparr>con_denied_domains := Some ps, con_denylist_expansion := Some expansion\<rparr>))"

definition apply_requirements ::
  "network_settings \<Rightarrow> network_requirements \<Rightarrow> permission_profile \<Rightarrow> bool \<Rightarrow> network_settings \<times> proxy_constraints" where
  "apply_requirements n r profile hard_deny =
     (let n = n\<lparr>net_enabled := override (req_enabled r) (net_enabled n),
               net_proxy_url := (case req_http_port r of None \<Rightarrow> net_proxy_url n | Some p \<Rightarrow> proxy_url_of_port p),
               net_socks_url := (case req_socks_port r of None \<Rightarrow> net_socks_url n | Some p \<Rightarrow> proxy_url_of_port p),
               net_allow_upstream_proxy := override (req_allow_upstream_proxy r) (net_allow_upstream_proxy n),
               net_allow_non_loopback := override (req_allow_non_loopback r) (net_allow_non_loopback n),
               net_allow_all_unix_sockets := override (req_allow_all_unix_sockets r) (net_allow_all_unix_sockets n)\<rparr>;
          c = no_constraints\<lparr>con_enabled := req_enabled r, con_allow_upstream_proxy := req_allow_upstream_proxy r,
               con_allow_non_loopback := req_allow_non_loopback r,
               con_allow_all_unix_sockets := req_allow_all_unix_sockets r\<rparr>;
          (n, c) = apply_allowed_requirement (managed_sandbox_active profile \<and> \<not> hard_deny) (managed_allowed r hard_deny) (n, c);
          (n, c) = apply_denied_requirement (managed_sandbox_active profile) (Option.bind (req_domains r) (toml_domains TomlDeny))
                     (n, c);
          (n, c) = (case req_unix_sockets r of
                      None \<Rightarrow> (n, c)
                    | Some es \<Rightarrow> (set_allow_unix_sockets (toml_unix_sockets es) n,
                                   c\<lparr>con_allow_unix_sockets := Some (toml_unix_sockets es)\<rparr>))
      in (n\<lparr>net_allow_local_binding := override (req_allow_local_binding r) (net_allow_local_binding n)\<rparr>,
          c\<lparr>con_allow_local_binding := req_allow_local_binding r\<rparr>))"

record proxy_spec =
  spec_base :: network_settings
  spec_requirements :: "network_requirements option"
  spec_config :: network_settings
  spec_constraints :: proxy_constraints
  spec_hard_deny :: bool

definition managed_allowed_domains_only :: "network_requirements \<Rightarrow> bool" where
  "managed_allowed_domains_only r = (req_managed_allowed_domains_only r = Some True)"

definition from_config_and_constraints ::
  "proxy_env \<Rightarrow> network_settings \<Rightarrow> network_requirements option \<Rightarrow> permission_profile \<Rightarrow> proxy_error + proxy_spec" where
  "from_config_and_constraints env n reqs profile =
     (let hard_deny = (case reqs of None \<Rightarrow> False | Some r \<Rightarrow> managed_allowed_domains_only r);
          (m, c) = (case reqs of None \<Rightarrow> (n, no_constraints) | Some r \<Rightarrow> apply_requirements n r profile hard_deny)
      in case validate_policy_against_constraints env m c of
           Inl e \<Rightarrow> Inl e
         | Inr _ \<Rightarrow> Inr \<lparr>spec_base = n, spec_requirements = reqs, spec_config = m, spec_constraints = c, spec_hard_deny = hard_deny\<rparr>)"

definition recompute_for_permission_profile :: "proxy_env \<Rightarrow> permission_profile \<Rightarrow> proxy_spec \<Rightarrow> proxy_error + proxy_spec" where
  "recompute_for_permission_profile env profile s = from_config_and_constraints env (spec_base s) (spec_requirements s) profile"

fun upsert_network_domains :: "network_settings \<Rightarrow> str list \<Rightarrow> bool \<Rightarrow> str set \<Rightarrow> network_settings" where
  "upsert_network_domains n [] allow incoming = n"
| "upsert_network_domains n (h # hs) allow incoming =
     (if h \<in> incoming then upsert_network_domains n hs allow incoming
      else upsert_network_domains (upsert_domain_permission h (if allow then DomainAllow else DomainDeny) normalize_host n) hs
             allow (insert h incoming))"

definition with_exec_policy_network_rules :: "proxy_env \<Rightarrow> policy \<Rightarrow> proxy_spec \<Rightarrow> proxy_error + proxy_spec" where
  "with_exec_policy_network_rules env pol s =
     (case compiled_network_domains pol of (allowed, denied) \<Rightarrow>
        let s = s\<lparr>spec_config := upsert_network_domains (upsert_network_domains (spec_config s) allowed True {}) denied False {}\<rparr>
        in case validate_policy_against_constraints env (spec_config s) (spec_constraints s) of Inl e \<Rightarrow> Inl e | Inr _ \<Rightarrow> Inr s)"

definition build_config_state_for_spec :: "proxy_env \<Rightarrow> str option \<Rightarrow> bool \<Rightarrow> proxy_spec \<Rightarrow> proxy_error + config_state" where
  "build_config_state_for_spec env home ready s = build_config_state env home ready (spec_config s) (spec_constraints s)"

text \<open>The decider a started proxy consults: none, the session's, or one that asks for every host.\<close>

datatype decider_choice = NoDecider | SessionDecider | AskDecider

definition decider_of_spec :: "proxy_spec \<Rightarrow> permission_profile \<Rightarrow> bool \<Rightarrow> bool \<Rightarrow> decider_choice" where
  "decider_of_spec s profile has_decider approval_flow =
     (if approval_flow \<and> \<not> spec_hard_deny s then
        (if has_decider then SessionDecider else if managed_sandbox_active profile then AskDecider else NoDecider)
      else NoDecider)"


section \<open>Requirements bind\<close>

text \<open>The specifications a session makes under the requirements: the first, and those it derives from one it has.\<close>

inductive spec_made :: "proxy_env \<Rightarrow> network_requirements option \<Rightarrow> proxy_spec \<Rightarrow> bool" for env reqs where
  spec_first: "from_config_and_constraints env n reqs profile = Inr s \<Longrightarrow> spec_made env reqs s"
| spec_ruled: "spec_made env reqs s \<Longrightarrow> with_exec_policy_network_rules env pol s = Inr t \<Longrightarrow> spec_made env reqs t"
| spec_recomputed: "spec_made env reqs s \<Longrightarrow> recompute_for_permission_profile env profile s = Inr t \<Longrightarrow> spec_made env reqs t"

definition spec_bound :: "proxy_env \<Rightarrow> network_requirements option \<Rightarrow> proxy_spec \<Rightarrow> bool" where
  "spec_bound env reqs s \<longleftrightarrow>
     spec_requirements s = reqs \<and>
     validate_policy_against_constraints env (spec_config s) (spec_constraints s) = Inr () \<and>
     (\<forall>r. reqs = Some r \<longrightarrow>
        con_denied_domains (spec_constraints s) = Option.bind (req_domains r) (toml_domains TomlDeny) \<and>
        (managed_allowed_domains_only r \<longrightarrow>
           spec_hard_deny s \<and>
           con_allowed_domains (spec_constraints s) = Some (listed (Option.bind (req_domains r) (toml_domains TomlAllow))) \<and>
           con_allowlist_expansion (spec_constraints s) = Some False))"

lemma apply_requirements_constraints:
  assumes "apply_requirements n r profile hard = (m, c)"
  shows "con_denied_domains c = Option.bind (req_domains r) (toml_domains TomlDeny)"
    and "hard \<Longrightarrow> con_allowed_domains c = Some (listed (Option.bind (req_domains r) (toml_domains TomlAllow))) \<and>
      con_allowlist_expansion c = Some False"
  using assms
  by (auto simp: apply_requirements_def Let_def apply_allowed_requirement_def apply_denied_requirement_def managed_allowed_def
      no_constraints_def split: option.splits)

lemma from_config_bound: "from_config_and_constraints env n reqs profile = Inr s \<Longrightarrow> spec_bound env reqs s"
  using apply_requirements_constraints
  by (fastforce simp: from_config_and_constraints_def spec_bound_def Let_def split: sum.splits option.splits prod.splits)

lemma ruled_bound:
  assumes "spec_bound env reqs s" "with_exec_policy_network_rules env pol s = Inr t"
  shows "spec_bound env reqs t"
  using assms by (auto simp: with_exec_policy_network_rules_def spec_bound_def Let_def split: sum.splits prod.splits)

lemma spec_made_bound: "spec_made env reqs s \<Longrightarrow> spec_bound env reqs s"
proof (induction rule: spec_made.induct)
  case (spec_recomputed s profile t)
  then have "from_config_and_constraints env (spec_base s) reqs profile = Inr t"
    by (simp add: recompute_for_permission_profile_def spec_bound_def)
  then show ?case by (rule from_config_bound)
qed (blast intro: from_config_bound ruled_bound)+

lemma build_state_fields:
  "build_config_state env home ready n c = Inr st \<Longrightarrow> cs_config st = n \<and> cs_constraints st = c \<and> cs_blocked st = []"
  by (auto simp: build_config_state_def split: if_splits sum.splits)

lemma spec_state_coherent:
  assumes "spec_made env reqs s" "build_config_state_for_spec env home ready s = Inr st"
  shows "state_coherent env st"
  using build_config_state_coherent spec_made_bound [OF assms(1)] assms(2)
  unfolding build_config_state_for_spec_def spec_bound_def by blast

lemma layers_state_coherent:
  assumes "build_state_from_layers env home ready ls pol = Inr st"
  shows "state_coherent env st \<and> network_constraints_from_trusted_layers ls = Inr (cs_constraints st)"
  using assms build_config_state_coherent build_state_fields
  by (fastforce simp: build_state_from_layers_def enforce_trusted_constraints_def map_sum_Inr_iff split: sum.splits)

text \<open>
  Managed network requirements bind every state a session builds, whatever its own settings, its permission profile
  and its execution policy rules say. A host that a managed denied pattern matches is matched by the denied set. When
  only managed domains are allowed, the allowed set matches no host that the managed allowed patterns do not, and the
  proxy has no decider that could allow another.
\<close>

theorem requirements_bind:
  assumes "spec_made env (Some r) s" "build_config_state_for_spec env home ready s = Inr st"
  shows "(pattern_matches env p h \<and> p \<in> set (listed (Option.bind (req_domains r) (toml_domains TomlDeny)))
            \<longrightarrow> set_matches env (cs_deny_set st) h) \<and>
    (managed_allowed_domains_only r \<longrightarrow>
       decider_of_spec s profile has_decider flow = NoDecider \<and>
       (set_matches env (cs_allow_set st) h \<longrightarrow>
          (\<exists>q \<in> set (listed (Option.bind (req_domains r) (toml_domains TomlAllow))). pattern_matches env q h)))"
proof -
  note bound = spec_made_bound [OF assms(1)]
  note coherent = spec_state_coherent [OF assms]
  have con: "cs_constraints st = spec_constraints s"
    using assms(2) build_state_fields by (simp add: build_config_state_for_spec_def)
  have denied: "con_denied_domains (cs_constraints st) = Option.bind (req_domains r) (toml_domains TomlDeny)"
    using bound con by (simp add: spec_bound_def)
  have "set_matches env (cs_deny_set st) h"
    if "pattern_matches env p h" "p \<in> set (listed (Option.bind (req_domains r) (toml_domains TomlDeny)))"
    using managed_denied_matches [OF coherent _ _ that(1)] that(2) denied
    by (cases "Option.bind (req_domains r) (toml_domains TomlDeny)") (auto simp: listed_def)
  moreover have "\<exists>q \<in> set (listed (Option.bind (req_domains r) (toml_domains TomlAllow))). pattern_matches env q h"
    if "managed_allowed_domains_only r" "set_matches env (cs_allow_set st) h"
    using fixed_allowlist_matches [OF coherent _ _ that(2)] bound con that(1) by (simp add: spec_bound_def)
  moreover have "decider_of_spec s profile has_decider flow = NoDecider" if "managed_allowed_domains_only r"
    using bound that by (simp add: spec_bound_def decider_of_spec_def)
  ultimately show ?thesis by blast
qed


definition sample_requirements :: network_requirements where
  "sample_requirements =
     \<lparr>req_enabled = Some True, req_http_port = None, req_socks_port = None, req_allow_upstream_proxy = None,
      req_allow_non_loopback = None, req_allow_all_unix_sockets = None,
      req_domains = Some [(lit ''api.example.com'', TomlAllow), (lit ''evil.com'', TomlDeny)],
      req_managed_allowed_domains_only = Some True, req_unix_sockets = None, req_allow_local_binding = None\<rparr>"

definition sample_required :: "network_settings \<times> proxy_constraints" where
  "sample_required = apply_requirements (sample_settings [lit ''other.com''] []) sample_requirements Disabled True"

definition sample_spec :: proxy_spec where
  "sample_spec =
     \<lparr>spec_base = sample_settings [lit ''other.com''] [], spec_requirements = Some sample_requirements,
      spec_config = fst sample_required, spec_constraints = snd sample_required, spec_hard_deny = True\<rparr>"

lemma sample_required_lists:
  "listed (denied_domains (fst sample_required)) = [lit ''evil.com'']"
  "listed (allowed_domains (fst sample_required)) = [lit ''api.example.com'']"
  "allow_unix_sockets (fst sample_required) = []" "net_mitm (fst sample_required) = False"
  "net_allow_local_binding (fst sample_required) = False" "net_allow_all_unix_sockets (fst sample_required) = False"
  by code_simp+

lemma sample_required_constraints:
  "con_allowed_domains (snd sample_required) = Some [lit ''api.example.com'']"
  "con_denied_domains (snd sample_required) = Some [lit ''evil.com'']"
  "con_allowlist_expansion (snd sample_required) = Some False" "con_denylist_expansion (snd sample_required) = Some False"
  "con_enabled (snd sample_required) = Some True" "con_mode (snd sample_required) = None"
  "con_allow_upstream_proxy (snd sample_required) = None" "con_allow_non_loopback (snd sample_required) = None"
  "con_allow_local_binding (snd sample_required) = None" "con_allow_unix_sockets (snd sample_required) = None"
  by code_simp+

lemma sample_required_validated:
  "validate_policy_against_constraints sample_proxy_env (fst sample_required) (snd sample_required) = Inr ()"
  unfolding validate_policy_against_constraints_def first_violation_ok
  by (simp add: constraint_checks_def sample_required_lists sample_required_constraints within_limit_def)
    (simp add: no_global_wildcard_def denied_domains_check_def allowed_domains_check_def sample_required_constraints lowercase_set_def
      sample_required_lists pattern_eval str_eval)

lemma sample_managed_only: "managed_allowed_domains_only sample_requirements"
  by code_simp

lemma sample_spec_made: "spec_made sample_proxy_env (Some sample_requirements) sample_spec"
proof (rule spec_first)
  show "from_config_and_constraints sample_proxy_env (sample_settings [lit ''other.com''] []) (Some sample_requirements) Disabled =
      Inr sample_spec"
    using sample_required_validated sample_managed_only
    by (simp add: from_config_and_constraints_def sample_required_def [symmetric] case_prod_beta sample_spec_def)
qed

lemma sample_spec_built:
  "\<exists>st. build_config_state_for_spec sample_proxy_env None True sample_spec = Inr st \<and> cs_deny_set st = [lit ''evil.com'']"
  by (simp add: build_config_state_for_spec_def build_config_state_def sample_spec_def sample_required_lists
      validate_unix_socket_allowlist_paths_def compile_denylist_globset_def compile_allowlist_globset_def
      compile_globset_with_policy_def no_global_wildcard_def sample_proxy_env_def pattern_eval str_eval)

lemma sample_required_pattern:
  "lit ''evil.com'' \<in> set (listed (Option.bind (req_domains sample_requirements) (toml_domains TomlDeny)))"
  by (simp add: sample_requirements_def toml_domains_def listed_def)

lemma sample_evil_matches: "pattern_matches sample_proxy_env (lit ''evil.com'') (lit ''EVIL.com'')"
  by (simp add: pattern_matches_def set_matches_def sample_proxy_env_def pattern_eval str_eval)

theorem requirements_bind_witness:
  "\<exists>st. build_config_state_for_spec sample_proxy_env None True sample_spec = Inr st \<and>
     set_matches sample_proxy_env (cs_deny_set st) (lit ''EVIL.com'') \<and>
     decider_of_spec sample_spec Disabled True True = NoDecider"
proof -
  obtain st where st: "build_config_state_for_spec sample_proxy_env None True sample_spec = Inr st" using sample_spec_built by blast
  have "set_matches sample_proxy_env (cs_deny_set st) (lit ''EVIL.com'')" "decider_of_spec sample_spec Disabled True True = NoDecider"
    using requirements_bind [OF sample_spec_made st] sample_required_pattern sample_evil_matches sample_managed_only by simp_all
  with st show ?thesis by metis
qed

end
