(* ===== verification/Spec2Isabelle.thy ===== *)
theory Spec2Isabelle
  imports Invocation Policy_Parser Command_Safety Patch_Runtime Stream_Bytes Head_Tail_Buffer Context_History
    Proxy_State Proxy_Spec
begin

text \<open>
  A model of the parts of Codex (\<^verbatim>\<open>codex-rs\<close>) that decide what an agent may do to the machine it runs on:
  how a patch written by the model is read, checked and applied; which commands run without asking;
  and what a sandbox policy allows. Each theory models the files it names, definition by definition,
  in the order of the code, and states what makes that part correct.

  \<^bold>\<open>Foundations.\<close> \<^theory_text>\<open>Rust_Std\<close> holds what the code uses of the standard library: a string is a list of
  code points (\<^verbatim>\<open>str\<close>), \<^verbatim>\<open>Vec\<close> operations that panic return \<^verbatim>\<open>None\<close>, integers that saturate are
  bounded explicitly. \<^theory_text>\<open>Utf8\<close> is the UTF-8 encoding of strings with its decoder, needed because files
  and streams are bytes. \<^theory_text>\<open>Abs_Path\<close> (\<^verbatim>\<open>utils/absolute-path\<close>) resolves and normalises Unix paths; a path
  is its string, compared by its components.

  \<^bold>\<open>Patches\<close> (\<^verbatim>\<open>apply-patch\<close>). \<^theory_text>\<open>Seek_Sequence\<close> finds the lines of a hunk in a file, with four passes of
  decreasing strictness. \<^theory_text>\<open>Patch_Parser\<close> parses patches in three modes and \<^theory_text>\<open>Patch_Format\<close> shows it
  inverts a printer. \<^theory_text>\<open>Patch_Apply\<close> computes the new contents of a file. \<^theory_text>\<open>File_System\<close> is the interface
  of \<^verbatim>\<open>file-system\<close> and the local implementation of \<^verbatim>\<open>exec-server\<close>; its laws are the locale \<^verbatim>\<open>file_store\<close>,
  interpreted on the local file system over a tree. \<^theory_text>\<open>Patch_Files\<close> applies the hunks to files and
  refines a hunk-by-hunk update of a map of files. \<^theory_text>\<open>Invocation\<close> recognises an invocation and computes
  the changes shown for approval, which are what is then applied.

  \<^bold>\<open>Execution policy\<close> (\<^verbatim>\<open>execpolicy\<close>, \<^verbatim>\<open>shell-command\<close>). \<^theory_text>\<open>Exec_Rule\<close> and \<^theory_text>\<open>Exec_Policy\<close> are rules, their
  matching and the policy; \<^theory_text>\<open>Policy_Parser\<close> builds policies from the calls of a policy file. \<^theory_text>\<open>Shell_Parse\<close>
  takes scripts apart; \<^theory_text>\<open>Command_Safety\<close> has the lists of commands known to be safe or dangerous.

  \<^bold>\<open>Sandbox policy\<close> (\<^verbatim>\<open>protocol\<close>, \<^verbatim>\<open>sandboxing\<close>). \<^theory_text>\<open>Sandbox_Policy\<close> resolves the access to a path and protects the metadata
  of a workspace; \<^theory_text>\<open>Sandbox_Roots\<close> builds, merges and converts policies and computes the roots handed to
  the platform sandboxes; \<^theory_text>\<open>Sandbox_Enforcement\<close> shows that what any of these roots allows the
  entries of the policy allow, and the policy as a whole, except where a nested root protects its metadata.
  \<^theory_text>\<open>Policy_Transforms\<close> normalises, merges and intersects the permissions a call asks for in addition, and
  applies them to a policy.

  \<^bold>\<open>Decisions\<close> (\<^verbatim>\<open>core\<close>). \<^theory_text>\<open>Exec_Approval\<close> composes the execution policy, the scripts and the sandbox policy
  into the requirement of a command, and amends and loads the policy. \<^theory_text>\<open>Patch_Safety\<close> composes the
  sandbox policy with the patches: a patch approved without asking changes only writable files.
  \<^theory_text>\<open>Network_Approval\<close> is the service that approves network accesses, a state machine in which concurrent requests
  interleave and may be dropped while they wait; it shows that every access let through was approved, and that
  requests return unless the owner of the question they wait for was dropped. \<^theory_text>\<open>Tool_Orchestrator\<close> runs a tool call: approval, an attempt in a sandbox, and an attempt without
  one after a denial; what it relies on in a runtime is the locale \<^verbatim>\<open>cautious_runtime\<close>. \<^theory_text>\<open>Permission_Grants\<close> is the state
  machine of requests for permissions and their answers; \<^theory_text>\<open>Granted_Access\<close> shows that what a command may
  read beyond the base policy was asked for and granted, and bounds what counts as already granted.
  \<^theory_text>\<open>Patch_Runtime\<close> is the tool that applies patches, from the input of the model to the answer: it composes the
  recognition of a patch, the granted permissions, the safety check, the orchestrator and the application to
  files, and shows what a patch nobody was asked about can change, and when one runs outside the sandbox.
  \<^theory_text>\<open>Head_Tail_Buffer\<close> is the capped buffer of a command's output, refining a function of the whole output.

  \<^bold>\<open>Network proxy\<close> (\<^verbatim>\<open>network-proxy\<close>, \<^verbatim>\<open>config\<close>, \<^verbatim>\<open>core\<close>). \<^theory_text>\<open>Ip_Address\<close> reads addresses and tells public ones from
  those that are not; \<^theory_text>\<open>Proxy_Config\<close> is the settings of the proxy, \<^theory_text>\<open>Proxy_Policy\<close> the patterns of hosts and the
  check of settings against managed constraints, \<^theory_text>\<open>Proxy_Spec\<close> the configuration layers and requirements the settings
  come from. \<^theory_text>\<open>Proxy_State\<close> decides about a host and is the state machine of the calls that change the shared state:
  it satisfies its constraints at every moment, and a managed denial holds whatever the sessions add.

  \<^bold>\<open>Conversation\<close> (\<^verbatim>\<open>core/src/context_manager\<close>, \<^verbatim>\<open>utils/output-truncation\<close>). \<^theory_text>\<open>Output_Truncation\<close> cuts the middle out of
  texts and outputs over a budget; \<^theory_text>\<open>Context_History\<close> is the history that is sent to the model: recording, the
  pairing of calls with outputs, removal, rollback and the estimates of its size.

  \<^bold>\<open>Streams\<close> (\<^verbatim>\<open>utils/stream-parser\<close>). \<^theory_text>\<open>Stream_Text\<close> has the interface of the parsers of streamed text, whose
  law, that the pieces of the text do not matter, is the locale \<^verbatim>\<open>stream_text_parser\<close>. \<^theory_text>\<open>Stream_Tags\<close> (inline
  tags and citations), \<^theory_text>\<open>Stream_Plan\<close> (tags on lines of their own, plans, the assistant's text) interpret it;
  \<^theory_text>\<open>Stream_Bytes\<close> is its client, which decodes bytes.

  \<^bold>\<open>Parameters.\<close> Code outside the repository is an argument of the definitions: the syntax trees of
  tree-sitter, the evaluator of Starlark, \<^verbatim>\<open>shlex\<close>, the diff of \<^verbatim>\<open>similar\<close>, the JSON printer, the
  glob and URL libraries of the proxy, the PowerShell parser process, and the operating system (\<^verbatim>\<open>os_fs\<close>, \<^verbatim>\<open>os_env\<close>). The current directory of the
  process is taken to be readable; paths are those of Unix; strings are valid UTF-8. Hash maps are
  maps, or the list of their entries where the code iterates over them.

  \<^bold>\<open>Errors and termination.\<close> An error is the \<^verbatim>\<open>Inl\<close> of a sum, a panic is \<^verbatim>\<open>None\<close>; the theorems that exclude
  panics are stated for every input. Loops are structural recursions or carry a measure;
  the loop of the inline tags is a partial function with a theorem that it returns. No fuel is used.

  \<^bold>\<open>Not modelled.\<close> The terminal interface, the servers and the clients of models (input and output over
  third-party libraries), the platform sandboxes (system calls), the asynchronous session loop, and
  configuration files apart from their network tables; of the parts above, the serialisation of types and the Windows path forms.
\<close>

end
